(* ===== verification/Prelude.thy ===== *)
theory Prelude
  imports Main "HOL-Library.Char_ord" "HOL-Library.List_Lexorder"
begin

text \<open>
  Shared vocabulary of the development: the exceptions the Python sources raise, the result type
  that carries them, loops that stop at the first exception, and the operations of Python's
  \<^verbatim>\<open>str\<close> the sources use. Strings are \<open>string\<close>, that is sequences of code points below 256;
  the character classes below are Python's, restricted to that range.
\<close>

section \<open>Exceptions and results\<close>

text \<open>
  One constructor per exception class that a modelled function raises. Message texts are not
  modelled; the machine-readable \<open>code\<close> of the protocol errors is kept.
\<close>

datatype exn =
    TypeError | ValueError | KeyError | IndexError | OverflowError | ZeroDivisionError
  | AttributeError | RuntimeError | TimeoutError | CancelledError | AssertionError
  | RegistryError
  | ProgramError string
  | ProtocolError string
  | NetworkError string
  | LeaseConflict string "(string \<times> string \<times> string) list"
  | LeaseRequestMismatchError
  | SecretDataError | JournalCorruptionError | JournalReadOnlyError
  | FrameTooLargeError | TruncatedFrameError | IPCSchemaError | NonCanonicalFrameError
  | WorkerError | WorkerStateError | WorkerClosedError | WorkerProtocolError
  | WorkerTimeoutError | WorkerRemoteError string
  | AuthorizationError | MissingWorkerError | UnsupportedProgramFeatureError
  | RunAlreadyActiveError | RunIdReuseError | PhaseExecutionError
  | RunExecutionError string exn
  | OperationsError | ConnectionClosed
  | SystemExit | StopIteration

type_synonym 'a result = "exn + 'a"

text \<open>\<^verbatim>\<open>isinstance(exc, ValueError)\<close>, following the class statements of the sources.\<close>

fun is_ValueError :: "exn \<Rightarrow> bool" where
  "is_ValueError ValueError = True"
| "is_ValueError RegistryError = True"
| "is_ValueError (ProgramError c) = True"
| "is_ValueError (ProtocolError c) = True"
| "is_ValueError SecretDataError = True"
| "is_ValueError _ = False"

fun is_IPCError :: "exn \<Rightarrow> bool" where
  "is_IPCError FrameTooLargeError = True"
| "is_IPCError TruncatedFrameError = True"
| "is_IPCError IPCSchemaError = True"
| "is_IPCError NonCanonicalFrameError = True"
| "is_IPCError _ = False"

fun is_WorkerError :: "exn \<Rightarrow> bool" where
  "is_WorkerError WorkerError = True"
| "is_WorkerError WorkerStateError = True"
| "is_WorkerError WorkerClosedError = True"
| "is_WorkerError WorkerProtocolError = True"
| "is_WorkerError WorkerTimeoutError = True"
| "is_WorkerError (WorkerRemoteError c) = True"
| "is_WorkerError _ = False"

named_theorems result_simps \<open>unfolding a sequence of fallible steps\<close>

text \<open>\<^verbatim>\<open>x = f(); ...\<close> where \<open>f\<close> may raise.\<close>

definition bind :: "'a result \<Rightarrow> ('a \<Rightarrow> 'b result) \<Rightarrow> 'b result" where
  "bind r f = (case r of Inl e \<Rightarrow> Inl e | Inr x \<Rightarrow> f x)"

text \<open>\<^verbatim>\<open>if b: raise e\<close>\<close>

definition raise_if :: "bool \<Rightarrow> exn \<Rightarrow> 'a result \<Rightarrow> 'a result" where
  "raise_if b e r = (if b then Inl e else r)"

text \<open>\<^verbatim>\<open>try: ... except E as exc: raise E'\<close>\<close>

definition catch :: "'a result \<Rightarrow> (exn \<Rightarrow> bool) \<Rightarrow> exn \<Rightarrow> 'a result" where
  "catch r p e' = (case r of Inl e \<Rightarrow> if p e then Inl e' else Inl e | Inr x \<Rightarrow> Inr x)"

fun ok :: "'a result \<Rightarrow> bool" where
  "ok (Inl e) = False"
| "ok (Inr x) = True"

text \<open>A list comprehension whose element expression may raise.\<close>

fun mapM :: "('a \<Rightarrow> 'b result) \<Rightarrow> 'a list \<Rightarrow> 'b list result" where
  "mapM f [] = Inr []"
| "mapM f (x # xs) = bind (f x) (\<lambda>y. bind (mapM f xs) (\<lambda>ys. Inr (y # ys)))"

text \<open>A \<^verbatim>\<open>for\<close> loop whose body only checks, and one that threads an accumulator.\<close>

fun forM :: "('a \<Rightarrow> unit result) \<Rightarrow> 'a list \<Rightarrow> unit result" where
  "forM f [] = Inr ()"
| "forM f (x # xs) = bind (f x) (\<lambda>_. forM f xs)"

fun foldM :: "('s \<Rightarrow> 'a \<Rightarrow> 's result) \<Rightarrow> 's \<Rightarrow> 'a list \<Rightarrow> 's result" where
  "foldM f s [] = Inr s"
| "foldM f s (x # xs) = bind (f s x) (\<lambda>s'. foldM f s' xs)"

section \<open>Python strings\<close>

text \<open>\<^verbatim>\<open>str.isalpha\<close>, \<^verbatim>\<open>str.isalnum\<close> and \<^verbatim>\<open>str.isspace\<close> of one code point below 256.\<close>

definition py_isalpha :: "char \<Rightarrow> bool" where
  "py_isalpha c = (let n = of_char c :: nat in
     (65 \<le> n \<and> n \<le> 90) \<or> (97 \<le> n \<and> n \<le> 122) \<or> n = 170 \<or> n = 181 \<or> n = 186 \<or>
     (192 \<le> n \<and> n \<le> 214) \<or> (216 \<le> n \<and> n \<le> 246) \<or> 248 \<le> n)"

definition py_isalnum :: "char \<Rightarrow> bool" where
  "py_isalnum c = (let n = of_char c :: nat in
     py_isalpha c \<or> (48 \<le> n \<and> n \<le> 57) \<or> n = 178 \<or> n = 179 \<or> n = 185 \<or>
     (188 \<le> n \<and> n \<le> 190))"

definition py_isspace :: "char \<Rightarrow> bool" where
  "py_isspace c = (let n = of_char c :: nat in
     (9 \<le> n \<and> n \<le> 13) \<or> (28 \<le> n \<and> n \<le> 32) \<or> n = 133 \<or> n = 160)"

text \<open>\<^verbatim>\<open>s.strip()\<close>\<close>

definition py_strip :: "string \<Rightarrow> string" where
  "py_strip s = rev (dropWhile py_isspace (rev (dropWhile py_isspace s)))"

text \<open>\<^verbatim>\<open>s.split(c)\<close> for a one-character separator: never empty, \<open>[s]\<close> if \<open>c\<close> is absent.\<close>

fun py_split :: "char \<Rightarrow> string \<Rightarrow> string list" where
  "py_split c [] = [[]]"
| "py_split c (x # xs) =
     (if x = c then [] # py_split c xs
      else (case py_split c xs of [] \<Rightarrow> [[x]] | y # ys \<Rightarrow> (x # y) # ys))"

text \<open>\<^verbatim>\<open>c.join(parts)\<close>\<close>

fun py_join :: "char \<Rightarrow> string list \<Rightarrow> string" where
  "py_join c [] = []"
| "py_join c [s] = s"
| "py_join c (s # t # ts) = s @ c # py_join c (t # ts)"

text \<open>\<^verbatim>\<open>s.startswith(p)\<close>, \<^verbatim>\<open>s.endswith(p)\<close> and \<^verbatim>\<open>p in s\<close>\<close>

fun py_startswith :: "string \<Rightarrow> string \<Rightarrow> bool" where
  "py_startswith s [] = True"
| "py_startswith [] (p # ps) = False"
| "py_startswith (x # xs) (p # ps) = (x = p \<and> py_startswith xs ps)"

definition py_endswith :: "string \<Rightarrow> string \<Rightarrow> bool" where
  "py_endswith s p = py_startswith (rev s) (rev p)"

fun py_contains :: "string \<Rightarrow> string \<Rightarrow> bool" where
  "py_contains [] p = (p = [])"
| "py_contains (x # xs) p = (py_startswith (x # xs) p \<or> py_contains xs p)"

text \<open>\<^verbatim>\<open>s.partition(c)\<close>: the part before, whether the separator occurs, the part after.\<close>

fun py_partition :: "char \<Rightarrow> string \<Rightarrow> string \<times> bool \<times> string" where
  "py_partition c [] = ([], False, [])"
| "py_partition c (x # xs) =
     (if x = c then ([], True, xs)
      else (case py_partition c xs of (a, s, b) \<Rightarrow> (x # a, s, b)))"

text \<open>\<^verbatim>\<open>sorted(set(xs))\<close>\<close>

definition sorted_set :: "'a::linorder list \<Rightarrow> 'a list" where
  "sorted_set xs = sort (remdups xs)"

section \<open>Lemmas\<close>

lemma bind_simps [simp, result_simps]:
  "bind (Inl e) f = Inl e"
  "bind (Inr x) f = f x"
  by (simp_all add: bind_def)

lemma bind_eq_Inr [simp, result_simps]:
  "bind r f = Inr y \<longleftrightarrow> (\<exists>x. r = Inr x \<and> f x = Inr y)"
  by (cases r) auto

lemma bind_eq_Inl [result_simps]:
  "bind r f = Inl e \<longleftrightarrow> r = Inl e \<or> (\<exists>x. r = Inr x \<and> f x = Inl e)"
  by (cases r) auto

lemma bind_assoc [simp]: "bind (bind r f) g = bind r (\<lambda>x. bind (f x) g)"
  by (cases r) auto

lemma bind_cong [fundef_cong]:
  "r = r' \<Longrightarrow> (\<And>x. r' = Inr x \<Longrightarrow> f x = f' x) \<Longrightarrow> bind r f = bind r' f'"
  by (cases r') auto

lemma raise_if_simps [simp, result_simps]:
  "raise_if True e r = Inl e"
  "raise_if False e r = r"
  by (simp_all add: raise_if_def)

lemma raise_if_eq_Inr [simp, result_simps]: "raise_if b e r = Inr y \<longleftrightarrow> \<not> b \<and> r = Inr y"
  by (simp add: raise_if_def)

lemma raise_if_eq_Inl [result_simps]:
  "raise_if b e r = Inl e' \<longleftrightarrow> (b \<and> e' = e) \<or> (\<not> b \<and> r = Inl e')"
  by (auto simp: raise_if_def)

lemma raise_if_cong [fundef_cong]:
  "b = b' \<Longrightarrow> e = e' \<Longrightarrow> (\<not> b' \<Longrightarrow> r = r') \<Longrightarrow> raise_if b e r = raise_if b' e' r'"
  by (simp add: raise_if_def)

lemma catch_eq_Inr [simp, result_simps]: "catch r p e = Inr x \<longleftrightarrow> r = Inr x"
  by (cases r) (auto simp: catch_def)

lemma catch_Inr [simp]: "catch (Inr x) p e = Inr x"
  by (simp add: catch_def)

lemma ok_iff: "ok r \<longleftrightarrow> (\<exists>x. r = Inr x)"
  by (cases r) auto

lemma not_ok_iff: "\<not> ok r \<longleftrightarrow> (\<exists>e. r = Inl e)"
  by (cases r) auto

lemma mapM_cong [fundef_cong]:
  "xs = ys \<Longrightarrow> (\<And>x. x \<in> set ys \<Longrightarrow> f x = g x) \<Longrightarrow> mapM f xs = mapM g ys"
  by (induction ys arbitrary: xs) auto

lemma forM_cong [fundef_cong]:
  "xs = ys \<Longrightarrow> (\<And>x. x \<in> set ys \<Longrightarrow> f x = g x) \<Longrightarrow> forM f xs = forM g ys"
  by (induction ys arbitrary: xs) auto

lemma mapM_Inr_iff: "mapM f xs = Inr ys \<longleftrightarrow> list_all2 (\<lambda>x y. f x = Inr y) xs ys"
  by (induction xs arbitrary: ys) (auto simp: list_all2_Cons1)

lemma mapM_length: "mapM f xs = Inr ys \<Longrightarrow> length ys = length xs"
  by (auto simp: mapM_Inr_iff dest: list_all2_lengthD)

lemma mapM_Inr_all: "(\<And>x. x \<in> set xs \<Longrightarrow> f x = Inr (g x)) \<Longrightarrow> mapM f xs = Inr (map g xs)"
  by (induction xs) auto

lemma set_mapM: "mapM f xs = Inr ys \<Longrightarrow> y \<in> set ys \<longleftrightarrow> (\<exists>x \<in> set xs. f x = Inr y)"
  by (induction xs arbitrary: ys) auto

lemma mapM_InrD: "mapM f xs = Inr ys \<Longrightarrow> x \<in> set xs \<Longrightarrow> \<exists>y \<in> set ys. f x = Inr y"
  by (induction xs arbitrary: ys) auto

lemma mapM_total: "(\<And>x. x \<in> set xs \<Longrightarrow> \<exists>y. f x = Inr y) \<Longrightarrow> \<exists>ys. mapM f xs = Inr ys"
proof (induction xs)
  case (Cons x xs)
  then have "\<exists>y. f x = Inr y" "\<exists>ys. mapM f xs = Inr ys" by simp_all
  then show ?case by auto
qed simp

lemma forM_Inl: "forM f xs = Inl e \<Longrightarrow> \<exists>x \<in> set xs. f x = Inl e"
  by (induction xs) (auto simp: bind_eq_Inl)

lemma foldM_cong [fundef_cong]:
  "xs = ys \<Longrightarrow> s = t \<Longrightarrow> (\<And>u x. x \<in> set ys \<Longrightarrow> f u x = g u x) \<Longrightarrow> foldM f s xs = foldM g t ys"
proof (induction ys arbitrary: xs s t)
  case (Cons y ys)
  have "foldM f u ys = foldM g u ys" for u by (rule Cons.IH) (use Cons.prems in auto)
  then show ?case using Cons.prems by simp
qed simp

lemma forM_Inr_iff: "forM f xs = Inr () \<longleftrightarrow> (\<forall>x \<in> set xs. f x = Inr ())"
  by (induction xs) auto

lemma ok_forM: "ok (forM f xs) \<longleftrightarrow> (\<forall>x \<in> set xs. ok (f x))"
proof (induction xs)
  case (Cons x xs)
  then show ?case by (cases "f x") auto
qed simp

lemma foldM_append: "foldM f s (xs @ ys) = bind (foldM f s xs) (\<lambda>s'. foldM f s' ys)"
  by (induction xs arbitrary: s) auto

lemma foldM_invariant:
  "foldM f s xs = Inr s' \<Longrightarrow> P s \<Longrightarrow>
     (\<And>s x s'. x \<in> set xs \<Longrightarrow> P s \<Longrightarrow> f s x = Inr s' \<Longrightarrow> P s') \<Longrightarrow> P s'"
proof (induction xs arbitrary: s)
  case (Cons x xs)
  then obtain t where t: "f s x = Inr t" "foldM f t xs = Inr s'" by auto
  show ?case
    by (rule Cons.IH [OF t(2)]) (use Cons.prems t in auto)
qed simp

lemma py_split_not_Nil [simp]: "py_split c s \<noteq> []"
  by (induction s) (auto split: list.splits)

lemma py_join_Cons: "ts \<noteq> [] \<Longrightarrow> py_join c (s # ts) = s @ c # py_join c ts"
  by (cases ts) auto

lemma py_join_Cons_head: "py_join c ((x # y) # ys) = x # py_join c (y # ys)"
  by (cases ys) auto

lemma py_join_split: "py_join c (py_split c s) = s"
proof (induction s)
  case (Cons x xs)
  show ?case
  proof (cases "x = c")
    case True
    with Cons show ?thesis by (simp add: py_join_Cons)
  next
    case False
    with Cons show ?thesis by (auto simp: py_join_Cons_head split: list.splits)
  qed
qed simp

lemma py_split_append:
  "c \<notin> set s \<Longrightarrow> py_split c (s @ c # t) = s # py_split c t"
  by (induction s) auto

lemma py_split_single: "c \<notin> set s \<Longrightarrow> py_split c s = [s]"
  by (induction s) auto

lemma py_split_join:
  "ts \<noteq> [] \<Longrightarrow> (\<And>t. t \<in> set ts \<Longrightarrow> c \<notin> set t) \<Longrightarrow> py_split c (py_join c ts) = ts"
proof (induction ts)
  case (Cons t ts)
  then show ?case
    by (cases "ts = []") (auto simp: py_join_Cons py_split_append py_split_single)
qed simp

lemma py_split_parts_no_sep: "t \<in> set (py_split c s) \<Longrightarrow> c \<notin> set t"
proof (induction s arbitrary: t)
  case (Cons x xs)
  show ?case
  proof (cases "py_split c xs")
    case Nil
    then show ?thesis by simp
  next
    case (Cons y ys)
    with Cons.prems Cons.IH [of y] Cons.IH show ?thesis
      by (auto split: if_splits)
  qed
qed simp

lemma set_sorted_set [simp]: "set (sorted_set xs) = set xs"
  by (simp add: sorted_set_def)

lemma distinct_sorted_set [simp]: "distinct (sorted_set xs)"
  by (simp add: sorted_set_def)

lemma sorted_sorted_set [simp]: "sorted (sorted_set xs)"
  by (simp add: sorted_set_def)

end
