(* ===== verification/PyFloat.thy ===== *)
theory PyFloat
  imports Prelude Complex_Main "HOL-Library.Log_Nat"
begin

text \<open>
  Python's \<^verbatim>\<open>float\<close>: IEEE 754 binary64 with round-to-nearest, ties-to-even. A finite float is
  the rational number it denotes (the two zeros are identified); every arithmetic operation is
  the exact operation followed by the rounding \<open>fround\<close>, with overflow to an infinity. The
  lemmas bound the rounding error of one operation and of the peak-rate formulas that both
  protocol versions use to supervise trajectories.
\<close>

section \<open>Floats and rounding\<close>

datatype pyfloat = Fin rat | PInf | NInf | NaN

text \<open>Round to the nearest integer, ties to even.\<close>

definition rne :: "rat \<Rightarrow> int" where
  "rne x = (let f = \<lfloor>x\<rfloor>; d = x - of_int f in
     if d < 1 / 2 then f else if 1 / 2 < d then f + 1 else if even f then f else f + 1)"

text \<open>The exponent of a positive rational: \<open>2 powi e \<le> x < 2 powi (e + 1)\<close>.\<close>

definition ilog2 :: "rat \<Rightarrow> int" where
  "ilog2 x = (case quotient_of x of (n, d) \<Rightarrow>
     (let e = int (floorlog 2 (nat n)) - int (floorlog 2 (nat d))
      in if 2 powi e \<le> x then e else e - 1))"

text \<open>The spacing of binary64 numbers around a positive rational is \<open>2 powi (ulp_exp x)\<close>.\<close>

definition ulp_exp :: "rat \<Rightarrow> int" where
  "ulp_exp x = max (ilog2 x) (-1022) - 52"

definition round_mag :: "rat \<Rightarrow> rat" where
  "round_mag x = of_int (rne (x / 2 powi ulp_exp x)) * 2 powi ulp_exp x"

definition fround :: "rat \<Rightarrow> pyfloat" where
  "fround x =
     (if x = 0 then Fin 0
      else let y = round_mag \<bar>x\<bar> in
        if 2 powi 1024 \<le> y then (if 0 < x then PInf else NInf)
        else Fin (if 0 < x then y else - y))"

section \<open>Operations\<close>

fun isfinite :: "pyfloat \<Rightarrow> bool" where
  "isfinite (Fin r) = True"
| "isfinite _ = False"

fun feq :: "pyfloat \<Rightarrow> pyfloat \<Rightarrow> bool" where
  "feq (Fin a) (Fin b) = (a = b)"
| "feq PInf PInf = True"
| "feq NInf NInf = True"
| "feq _ _ = False"

fun flt :: "pyfloat \<Rightarrow> pyfloat \<Rightarrow> bool" where
  "flt (Fin a) (Fin b) = (a < b)"
| "flt (Fin a) PInf = True"
| "flt NInf (Fin b) = True"
| "flt NInf PInf = True"
| "flt _ _ = False"

definition fle :: "pyfloat \<Rightarrow> pyfloat \<Rightarrow> bool" where
  "fle x y = (flt x y \<or> feq x y)"

fun fneg :: "pyfloat \<Rightarrow> pyfloat" where
  "fneg (Fin a) = Fin (- a)"
| "fneg PInf = NInf"
| "fneg NInf = PInf"
| "fneg NaN = NaN"

fun fabs :: "pyfloat \<Rightarrow> pyfloat" where
  "fabs (Fin a) = Fin \<bar>a\<bar>"
| "fabs NaN = NaN"
| "fabs _ = PInf"

fun fadd :: "pyfloat \<Rightarrow> pyfloat \<Rightarrow> pyfloat" where
  "fadd (Fin a) (Fin b) = fround (a + b)"
| "fadd NaN y = NaN"
| "fadd x NaN = NaN"
| "fadd PInf NInf = NaN"
| "fadd NInf PInf = NaN"
| "fadd PInf y = PInf"
| "fadd x PInf = PInf"
| "fadd NInf y = NInf"
| "fadd x NInf = NInf"

definition fsub :: "pyfloat \<Rightarrow> pyfloat \<Rightarrow> pyfloat" where
  "fsub x y = fadd x (fneg y)"

fun fsgn :: "pyfloat \<Rightarrow> int" where
  "fsgn (Fin a) = (if a = 0 then 0 else if 0 < a then 1 else - 1)"
| "fsgn PInf = 1"
| "fsgn NInf = - 1"
| "fsgn NaN = 0"

text \<open>An infinity with the given sign; the product of an infinity and zero is NaN.\<close>

definition finf :: "int \<Rightarrow> pyfloat" where
  "finf s = (if s = 0 then NaN else if 0 < s then PInf else NInf)"

fun fmul :: "pyfloat \<Rightarrow> pyfloat \<Rightarrow> pyfloat" where
  "fmul (Fin a) (Fin b) = fround (a * b)"
| "fmul NaN y = NaN"
| "fmul x NaN = NaN"
| "fmul x y = finf (fsgn x * fsgn y)"

text \<open>Float division raises on a zero divisor.\<close>

fun fdiv :: "pyfloat \<Rightarrow> pyfloat \<Rightarrow> pyfloat result" where
  "fdiv (Fin a) (Fin b) = (if b = 0 then Inl ZeroDivisionError else Inr (fround (a / b)))"
| "fdiv NaN (Fin b) = (if b = 0 then Inl ZeroDivisionError else Inr NaN)"
| "fdiv x (Fin b) = (if b = 0 then Inl ZeroDivisionError else Inr (finf (fsgn x * fsgn (Fin b))))"
| "fdiv (Fin a) NaN = Inr NaN"
| "fdiv (Fin a) y = Inr (Fin 0)"
| "fdiv x y = Inr NaN"

text \<open>\<^verbatim>\<open>float(n)\<close> and \<^verbatim>\<open>a / b\<close> of integers: correctly rounded, and an error instead of an infinity.\<close>

definition int_to_float :: "int \<Rightarrow> pyfloat result" where
  "int_to_float n = (let y = fround (of_int n) in
     if isfinite y then Inr y else Inl OverflowError)"

definition int_truediv :: "int \<Rightarrow> int \<Rightarrow> pyfloat result" where
  "int_truediv a b =
     (if b = 0 then Inl ZeroDivisionError
      else let y = fround (of_int a / of_int b) in
        if isfinite y then Inr y else Inl OverflowError)"

text \<open>\<^verbatim>\<open>max\<close> and \<^verbatim>\<open>min\<close> of two floats, as Python evaluates them: the second wins only if strictly better.\<close>

definition fmax :: "pyfloat \<Rightarrow> pyfloat \<Rightarrow> pyfloat" where
  "fmax x y = (if flt x y then y else x)"

definition fmin :: "pyfloat \<Rightarrow> pyfloat \<Rightarrow> pyfloat" where
  "fmin x y = (if flt y x then y else x)"

fun rat_of :: "pyfloat \<Rightarrow> rat" where
  "rat_of (Fin r) = r"
| "rat_of _ = 0"

section \<open>Rounding error\<close>

text \<open>Half the smallest subnormal number.\<close>

definition eta :: rat where
  "eta = 2 powi (-1075)"

lemma eta_pos: "0 < eta"
  unfolding eta_def by (rule zero_less_power_int) simp

lemma powi_Suc: "(2::rat) powi (k + 1) = 2 powi k * 2"
  by (simp add: power_int_add)

lemma rne_error: "\<bar>of_int (rne x) - x\<bar> \<le> 1 / 2"
proof -
  have "of_int \<lfloor>x\<rfloor> \<le> x" "x < of_int \<lfloor>x\<rfloor> + 1" by linarith+
  note fl = this
  consider "rne x = \<lfloor>x\<rfloor>" "x - of_int \<lfloor>x\<rfloor> \<le> 1 / 2" | "rne x = \<lfloor>x\<rfloor> + 1" "1 / 2 \<le> x - of_int \<lfloor>x\<rfloor>"
    unfolding rne_def Let_def by (force split: if_splits)
  then show ?thesis using fl by cases (auto simp: abs_le_iff)
qed

lemma rne_of_int: "rne (of_int n) = n"
  by (simp add: rne_def)

lemma floorlog_powi:
  fixes n :: int
  assumes "0 < n"
  shows "2 powi (int (floorlog 2 (nat n)) - 1) \<le> (of_int n :: rat)"
    and "(of_int n :: rat) < 2 powi (int (floorlog 2 (nat n)))"
proof -
  have b: "2 ^ (floorlog 2 (nat n) - 1) \<le> nat n \<and> nat n < 2 ^ floorlog 2 (nat n)"
    using assms floorlog_bounds [of "nat n" 2] by simp
  have pos: "0 < floorlog 2 (nat n)"
    using assms by (simp add: floorlog_def)
  have "(of_nat (2 ^ (floorlog 2 (nat n) - 1)) :: rat) \<le> of_nat (nat n)"
    using b of_nat_le_iff by blast
  then show "2 powi (int (floorlog 2 (nat n)) - 1) \<le> (of_int n :: rat)"
    using assms pos by (simp add: power_int_def nat_diff_distrib')
  have "(of_nat (nat n) :: rat) < of_nat (2 ^ floorlog 2 (nat n))"
    using b of_nat_less_iff by blast
  then show "(of_int n :: rat) < 2 powi (int (floorlog 2 (nat n)))"
    using assms by (simp add: power_int_def)
qed

lemma ilog2_bounds:
  assumes "0 < x"
  shows "2 powi ilog2 x \<le> x" and "x < 2 powi (ilog2 x + 1)"
proof -
  obtain n d where q: "quotient_of x = (n, d)" by force
  then have d: "0 < d" and x: "x = of_int n / of_int d"
    by (auto dest: quotient_of_denom_pos quotient_of_div)
  with assms have n: "0 < n" by (simp add: zero_less_divide_iff)
  define a b where "a = int (floorlog 2 (nat n))" and "b = int (floorlog 2 (nat d))"
  note N = floorlog_powi [OF n, folded a_def] and D = floorlog_powi [OF d, folded b_def]
  have "(2::rat) powi (a - 1) / 2 powi b \<le> of_int n / of_int d"
    using N D n d by (intro frac_le) auto
  then have low: "2 powi (a - b - 1) \<le> x"
    using x by (simp add: power_int_diff power_int_add mult.commute)
  have "of_int n / of_int d < (2::rat) powi a / 2 powi (b - 1)"
    using N D n d by (intro frac_less) auto
  then have high: "x < 2 powi (a - b + 1)"
    using x by (simp add: power_int_diff power_int_add field_simps)
  have e: "ilog2 x = (if 2 powi (a - b) \<le> x then a - b else a - b - 1)"
    by (simp add: ilog2_def q a_def b_def Let_def)
  show "2 powi ilog2 x \<le> x" and "x < 2 powi (ilog2 x + 1)"
    using low high by (auto simp: e)
qed

lemma round_mag_error:
  assumes "0 < x"
  shows "\<bar>round_mag x - x\<bar> \<le> 2 powi (ulp_exp x) / 2"
proof -
  define u :: rat where "u = 2 powi ulp_exp x"
  have u: "0 < u" by (simp add: u_def)
  have "round_mag x - x = (of_int (rne (x / u)) - x / u) * u"
    using u by (simp add: round_mag_def u_def algebra_simps)
  then have "\<bar>round_mag x - x\<bar> = \<bar>of_int (rne (x / u)) - x / u\<bar> * u"
    using u by (simp add: abs_mult)
  also have "\<dots> \<le> 1 / 2 * u"
    using u rne_error by (intro mult_right_mono) auto
  finally show ?thesis by (simp add: u_def)
qed

text \<open>One operation is off by half a unit in the last place, or by half the smallest subnormal.\<close>

lemma round_mag_rel_error:
  assumes "0 < x"
  shows "\<bar>round_mag x - x\<bar> \<le> x / 2 ^ 53 + eta"
proof (cases "-1022 \<le> ilog2 x")
  case True
  have "2 powi ulp_exp x / 2 = 2 powi ilog2 x / (2 ^ 53 :: rat)"
    using True by (simp add: ulp_exp_def power_int_diff)
  also have "\<dots> \<le> x / 2 ^ 53"
    using ilog2_bounds(1) [OF assms] by (intro divide_right_mono) auto
  finally have "2 powi ulp_exp x / 2 \<le> x / 2 ^ 53" .
  then show ?thesis using round_mag_error [OF assms] eta_pos by linarith
next
  case False
  then have "ulp_exp x = -1075 + 1" by (simp add: ulp_exp_def)
  then have "2 powi ulp_exp x = (2 powi (-1075) * 2 :: rat)"
    by (simp only: powi_Suc)
  then have "2 powi ulp_exp x / 2 = eta" by (simp only: eta_def)
  moreover have "0 \<le> x / 2 ^ 53" using assms by simp
  ultimately show ?thesis using round_mag_error [OF assms] by linarith
qed

lemma round_mag_nonneg: "0 < x \<Longrightarrow> 0 \<le> round_mag x"
proof -
  assume "0 < x"
  then have "0 \<le> \<lfloor>x / 2 powi ulp_exp x\<rfloor>" by simp
  then have "0 \<le> rne (x / 2 powi ulp_exp x)" by (simp add: rne_def Let_def)
  then show ?thesis by (simp add: round_mag_def)
qed

lemma fround_error:
  assumes "fround x = Fin y"
  shows "\<bar>y - x\<bar> \<le> \<bar>x\<bar> / 2 ^ 53 + eta"
proof (cases "x = 0")
  case True
  with assms eta_pos show ?thesis by (simp add: fround_def)
next
  case False
  then have "\<bar>round_mag \<bar>x\<bar> - \<bar>x\<bar>\<bar> \<le> \<bar>x\<bar> / 2 ^ 53 + eta"
    using round_mag_rel_error [of "\<bar>x\<bar>"] by simp
  moreover have "\<bar>y - x\<bar> = \<bar>round_mag \<bar>x\<bar> - \<bar>x\<bar>\<bar>"
    using assms False by (auto simp: fround_def Let_def split: if_splits)
  ultimately show ?thesis by simp
qed

lemma fround_nonneg:
  assumes "0 \<le> x"
  shows "fround x = PInf \<or> (\<exists>y. fround x = Fin y \<and> 0 \<le> y)"
  using assms round_mag_nonneg [of x] by (auto simp: fround_def Let_def)

lemma fround_0 [simp]: "fround 0 = Fin 0"
  by (simp add: fround_def)

text \<open>The relative factor of one rounding, read from the result back to the exact value.\<close>

abbreviation cc :: rat where
  "cc \<equiv> 1 + 1 / 2 ^ 52"

lemma fround_lower:
  assumes "fround x = Fin y" "0 \<le> x"
  shows "x \<le> cc * y + 2 * eta"
proof -
  have "x - y \<le> x / 2 ^ 53 + eta"
    using fround_error [OF assms(1)] assms(2) by (simp add: abs_le_iff)
  then have "x * (1 - 1 / 2 ^ 53) \<le> y + eta" by (simp add: algebra_simps)
  then have "cc * (x * (1 - 1 / 2 ^ 53)) \<le> cc * (y + eta)" by (intro mult_left_mono) auto
  moreover have "x * 1 \<le> x * (cc * (1 - 1 / 2 ^ 53))"
    using assms(2) by (intro mult_left_mono) (auto simp: field_simps)
  ultimately have "x \<le> cc * (y + eta)" by (simp add: mult.left_commute mult.assoc)
  also have "\<dots> \<le> cc * y + 2 * eta" using eta_pos by (simp add: algebra_simps)
  finally show ?thesis .
qed

lemma eta_small: "eta \<le> 1 / 2 ^ 200"
proof -
  have "(2::rat) powi (-1075) \<le> 2 powi (-200)" by (rule power_int_increasing) auto
  then show ?thesis by (simp add: eta_def power_int_minus inverse_eq_divide)
qed

text \<open>Moderate values do not overflow.\<close>

lemma fround_finite:
  assumes "\<bar>x\<bar> \<le> 2 ^ 100"
  obtains y where "fround x = Fin y" "\<bar>y - x\<bar> \<le> \<bar>x\<bar> / 2 ^ 53 + eta"
proof -
  have "\<exists>y. fround x = Fin y"
  proof (cases "x = 0")
    case False
    then have "\<bar>round_mag \<bar>x\<bar> - \<bar>x\<bar>\<bar> \<le> \<bar>x\<bar> / 2 ^ 53 + eta" by (intro round_mag_rel_error) simp
    also have "\<bar>x\<bar> / 2 ^ 53 \<le> 2 ^ 100" using assms by (simp add: divide_le_eq)
    finally have "round_mag \<bar>x\<bar> - \<bar>x\<bar> \<le> 2 ^ 100 + eta" by linarith
    moreover have "eta \<le> 1" by (rule order_trans [OF eta_small]) simp
    ultimately have "round_mag \<bar>x\<bar> \<le> 2 ^ 100 + 2 ^ 100 + 1" using assms by linarith
    also have "\<dots> < 2 powi 102" by simp
    also have "(2::rat) powi 102 \<le> 2 powi 1024" by (rule power_int_increasing) auto
    finally have "\<not> 2 powi 1024 \<le> round_mag \<bar>x\<bar>" by (simp only: not_le)
    with False show ?thesis unfolding fround_def Let_def by (simp only: if_False) blast
  qed (simp add: fround_def)
  with that fround_error show thesis by blast
qed

lemma fround_upper:
  assumes "fround x = Fin y" "1 / 10 ^ 13 \<le> x"
  shows "0 < y" and "y \<le> cc * x" and "x / 2 \<le> y"
proof -
  have x: "0 < x" using assms(2) by (rule less_le_trans [rotated]) simp
  have e: "y - x \<le> x / 2 ^ 53 + eta" "x - y \<le> x / 2 ^ 53 + eta"
    using fround_error [OF assms(1)] x by (auto simp: abs_le_iff)
  moreover have "eta \<le> x / 2 ^ 53"
    using eta_small assms(2) by (simp add: field_simps)
  ultimately have "y - x \<le> 2 * (x / 2 ^ 53)" "x - y \<le> 2 * (x / 2 ^ 53)" by linarith+
  with x show "0 < y" "y \<le> cc * x" "x / 2 \<le> y" by (auto simp: field_simps)
qed

section \<open>Soundness of a rate check\<close>

text \<open>
  \<^verbatim>\<open>k * abs(b - a) / s > limit\<close> is the check of both protocol versions, with \<open>s\<close> the rounded
  segment duration (or its rounded square). If the check does not fire, the exact rate is at most
  the limit up to six roundings.
\<close>

lemma scaled_distance_bound:
  assumes m: "fmul (Fin k) (fabs (fsub (Fin b) (Fin a))) = Fin m" and k: "0 < k"
  shows "k * \<bar>b - a\<bar> \<le> cc * (cc * m + 2 * eta) + 2 * k * eta"
proof -
  obtain d where d: "fround (b - a) = Fin d"
    using m k by (cases "fround (b - a)") (auto simp: fsub_def finf_def)
  have D: "\<bar>b - a\<bar> \<le> cc * \<bar>d\<bar> + 2 * eta"
  proof (cases "0 \<le> b - a")
    case True
    then have "b - a \<le> cc * d + 2 * eta" by (rule fround_lower [OF d])
    moreover have "cc * d \<le> cc * \<bar>d\<bar>" by (intro mult_left_mono) auto
    ultimately show ?thesis using True by linarith
  next
    case False
    then have "fround (a - b) = Fin (- d)"
      using d by (auto simp: fround_def Let_def abs_minus_commute split: if_splits)
    then have "a - b \<le> cc * (- d) + 2 * eta" using False by (intro fround_lower) auto
    moreover have "cc * (- d) \<le> cc * \<bar>d\<bar>" by (intro mult_left_mono) auto
    ultimately show ?thesis using False by linarith
  qed
  have M: "k * \<bar>d\<bar> \<le> cc * m + 2 * eta"
    using m d k by (intro fround_lower) (auto simp: fsub_def)
  have "k * \<bar>b - a\<bar> \<le> k * (cc * \<bar>d\<bar> + 2 * eta)"
    using D k by (intro mult_left_mono) auto
  also have "\<dots> = cc * (k * \<bar>d\<bar>) + 2 * k * eta" by (simp add: algebra_simps)
  also have "\<dots> \<le> cc * (cc * m + 2 * eta) + 2 * k * eta"
    using M by (intro add_right_mono mult_left_mono) auto
  finally show ?thesis .
qed

lemma scaled_distance_cases:
  assumes "0 < k"
  shows "fmul (Fin k) (fabs (fsub (Fin b) (Fin a))) = PInf \<or>
    (\<exists>m. fmul (Fin k) (fabs (fsub (Fin b) (Fin a))) = Fin m \<and> 0 \<le> m)"
proof (cases "fround (b - a)")
  case (Fin d)
  with assms fround_nonneg [of "k * \<bar>d\<bar>"] show ?thesis by (auto simp: fsub_def)
next
  case NaN
  then show ?thesis by (auto simp: fround_def Let_def split: if_splits)
qed (use assms in \<open>auto simp: fsub_def finf_def\<close>)

lemma checked_quotient_bound:
  assumes v: "fdiv (Fin m) (Fin s) = Inr v" and L: "\<not> flt (Fin L) v"
    and m: "0 \<le> m" and s: "0 < s"
  shows "0 \<le> L" and "m \<le> s * (cc * L + 2 * eta)"
proof -
  have "v = fround (m / s)" using v s by simp
  with fround_nonneg [of "m / s"] m s L obtain y where y: "fround (m / s) = Fin y" "0 \<le> y" "y \<le> L"
    by auto
  then show "0 \<le> L" by simp
  have "m / s \<le> cc * y + 2 * eta" using y m s by (intro fround_lower) auto
  also have "\<dots> \<le> cc * L + 2 * eta" using y by simp
  finally show "m \<le> s * (cc * L + 2 * eta)" using s by (simp add: field_simps)
qed

text \<open>The rate limit a check enforces, with the rounding of the check.\<close>

definition rate_bound :: "rat \<Rightarrow> rat" where
  "rate_bound L = L * (1 + 1 / 2 ^ 49) + 2 ^ 50 * eta"

lemma rate_check_sound:
  assumes k: "0 < k" "k \<le> 8" and S: "1 / 10 ^ 12 \<le> S"
    and s: "0 < s" "s \<le> cc * (cc * (cc * S))"
    and v: "fdiv (fmul (Fin k) (fabs (fsub (Fin b) (Fin a)))) (Fin s) = Inr v"
    and L: "\<not> flt (Fin L) v"
  shows "k * \<bar>b - a\<bar> / S \<le> L * (1 + 1 / 2 ^ 49) + 2 ^ 50 * eta"
proof -
  obtain m where m: "fmul (Fin k) (fabs (fsub (Fin b) (Fin a))) = Fin m" "0 \<le> m"
    using scaled_distance_cases [OF k(1), of b a] v L s by (auto simp: finf_def)
  note q = checked_quotient_bound [OF v [unfolded m(1)] L m(2) s(1)]
  define e where "e = cc * L + 2 * eta"
  have e0: "0 \<le> e" using q(1) eta_pos by (simp add: e_def)
  have S0: "0 < S" using S by (rule less_le_trans [rotated]) simp
  have "m \<le> s * e" using q(2) by (simp add: e_def)
  also have "\<dots> \<le> cc * (cc * (cc * S)) * e" using s(2) e0 by (rule mult_right_mono)
  finally have "cc * (cc * m) \<le> cc * (cc * (cc * (cc * (cc * S)) * e))"
    by (intro mult_left_mono) auto
  with scaled_distance_bound [OF m(1) k(1)]
  have "k * \<bar>b - a\<bar> \<le> cc * (cc * (cc * (cc * (cc * S)) * e)) + (2 * cc + 2 * k) * eta"
    by (simp add: distrib_left distrib_right mult.assoc)
  also have "(2 * cc + 2 * k) * eta \<le> 20 * eta" using k eta_pos by (intro mult_right_mono) auto
  also have "(20::rat) * eta \<le> S * (20 * 10 ^ 12) * eta"
    using S eta_pos by (intro mult_right_mono) (auto simp: field_simps)
  also have "cc * (cc * (cc * (cc * (cc * S)) * e)) = S * (cc ^ 5 * e)"
    by (simp add: power_numeral_reduce mult_ac)
  finally have "k * \<bar>b - a\<bar> \<le> S * (cc ^ 5 * e + 20 * 10 ^ 12 * eta)"
    by (simp add: distrib_left mult_ac)
  then have "k * \<bar>b - a\<bar> / S \<le> cc ^ 5 * e + 20 * 10 ^ 12 * eta"
    using S0 by (simp add: divide_le_eq mult.commute)
  also have "cc ^ 5 * e = cc ^ 6 * L + 2 * cc ^ 5 * eta"
    by (simp add: e_def distrib_left power_numeral_reduce)
  also have "cc ^ 6 * L \<le> (1 + 1 / 2 ^ 49) * L" using q(1) by (intro mult_right_mono) (auto simp: field_simps)
  also have "2 * cc ^ 5 * eta \<le> 4 * eta" using eta_pos by (intro mult_right_mono) (auto simp: field_simps)
  finally have "k * \<bar>b - a\<bar> / S \<le> (1 + 1 / 2 ^ 49) * L + (4 + 20 * 10 ^ 12) * eta"
    by (simp add: algebra_simps)
  also have "(4 + 20 * 10 ^ 12) * eta \<le> 2 ^ 50 * eta" using eta_pos by (intro mult_right_mono) auto
  finally show ?thesis by (simp add: mult.commute)
qed

section \<open>Evaluation\<close>

text \<open>Code equations that compute the rounding with integer arithmetic.\<close>

definition pow2 :: "int \<Rightarrow> rat" where
  "pow2 e = 2 powi e"

lemma pow2_code [code]: "pow2 e = (if 0 \<le> e then of_int (2 ^ nat e) else 1 / of_int (2 ^ nat (- e)))"
  by (simp add: pow2_def power_int_def inverse_eq_divide power_one_over)

lemma ilog2_code [code]:
  "ilog2 x = (case quotient_of x of (n, d) \<Rightarrow>
     (let e = bitlen n - bitlen d in if pow2 e \<le> x then e else e - 1))"
  by (simp add: ilog2_def pow2_def bitlen_def)

lemma round_mag_code [code]: "round_mag x = (let p = pow2 (ulp_exp x) in of_int (rne (x / p)) * p)"
  by (simp add: round_mag_def pow2_def Let_def)

lemma two_powi_1024: "(2::rat) powi 1024 = 179769313486231590772930519078902473361797697894230657273430081157732675805500963132708477322407536021120113879871393357658789768814416622492847430639474124377767893424865485276302219601246094119453082952085005768838150682342462881473913110540827237163350510684586298239947245938479716304835356329624224137216"
  by simp

lemma fround_code [code]:
  "fround x =
     (if x = 0 then Fin 0
      else let y = round_mag \<bar>x\<bar> in
        if 179769313486231590772930519078902473361797697894230657273430081157732675805500963132708477322407536021120113879871393357658789768814416622492847430639474124377767893424865485276302219601246094119453082952085005768838150682342462881473913110540827237163350510684586298239947245938479716304835356329624224137216 \<le> y then (if 0 < x then PInf else NInf)
        else Fin (if 0 < x then y else - y))"
  unfolding fround_def two_powi_1024 ..

end
