(* ===== verification/PyVal.thy ===== *)
theory PyVal
  imports PyFloat "HOL-Library.Word" "HOL-Library.Product_Lexorder" "HOL-Library.Multiset"
begin

text \<open>
  The dynamic values that cross the program's trust boundaries: what \<^verbatim>\<open>json.loads\<close>,
  \<^verbatim>\<open>tomllib.load\<close> and \<^verbatim>\<open>cbor2.loads\<close> return and what the digests and frames are computed
  from. A dictionary is the list of its items in insertion order. \<open>POther\<close> stands for an object
  of any further class (a date of a TOML file, a CBOR tag), named by its class.

  Functions that are not part of the repository and whose bodies are not Python (the CBOR codec,
  SHA-256, the textual form of a float) are the fields of the record \<open>pyenv\<close>, which the
  definitions that use them take as an argument.
\<close>

type_synonym bytes = "8 word list"

datatype pyval =
    PNone
  | PBool bool
  | PInt int
  | PFloat pyfloat
  | PStr string
  | PBytes bytes
  | PList "pyval list"
  | PTuple "pyval list"
  | PDict "(pyval \<times> pyval) list"
  | POther string

type_synonym pydict = "(pyval \<times> pyval) list"

record pyenv =
  cbor_dumps :: "pyval \<Rightarrow> bytes result"
  cbor_loads :: "bytes \<Rightarrow> pyval result"
  sha256 :: "bytes \<Rightarrow> bytes"
  json_dumps :: "pyval \<Rightarrow> bytes"
  json_loads :: "string \<Rightarrow> pyval result"
  py_repr :: "pyval \<Rightarrow> string"
  float_of_str :: "string \<Rightarrow> pyfloat result"

section \<open>Type tests and conversions\<close>

fun is_str :: "pyval \<Rightarrow> bool" where
  "is_str (PStr s) = True"
| "is_str _ = False"

fun is_bool :: "pyval \<Rightarrow> bool" where
  "is_bool (PBool b) = True"
| "is_bool _ = False"

text \<open>\<^verbatim>\<open>isinstance(v, int) and not isinstance(v, bool)\<close>\<close>

fun is_int :: "pyval \<Rightarrow> bool" where
  "is_int (PInt n) = True"
| "is_int _ = False"

fun is_list :: "pyval \<Rightarrow> bool" where
  "is_list (PList xs) = True"
| "is_list _ = False"

fun is_dict :: "pyval \<Rightarrow> bool" where
  "is_dict (PDict d) = True"
| "is_dict _ = False"

fun the_str :: "pyval \<Rightarrow> string" where
  "the_str (PStr s) = s"
| "the_str _ = []"

fun the_int :: "pyval \<Rightarrow> int" where
  "the_int (PInt n) = n"
| "the_int _ = 0"

fun the_dict :: "pyval \<Rightarrow> pydict" where
  "the_dict (PDict d) = d"
| "the_dict _ = []"

fun the_list :: "pyval \<Rightarrow> pyval list" where
  "the_list (PList xs) = xs"
| "the_list _ = []"

text \<open>Truth value of an object.\<close>

fun py_truth :: "pyval \<Rightarrow> bool" where
  "py_truth PNone = False"
| "py_truth (PBool b) = b"
| "py_truth (PInt n) = (n \<noteq> 0)"
| "py_truth (PFloat f) = (f \<noteq> Fin 0)"
| "py_truth (PStr s) = (s \<noteq> [])"
| "py_truth (PBytes b) = (b \<noteq> [])"
| "py_truth (PList xs) = (xs \<noteq> [])"
| "py_truth (PTuple xs) = (xs \<noteq> [])"
| "py_truth (PDict d) = (d \<noteq> [])"
| "py_truth (POther s) = True"

text \<open>\<^verbatim>\<open>str(v)\<close>\<close>

definition py_str :: "pyenv \<Rightarrow> pyval \<Rightarrow> string" where
  "py_str E v = (case v of PStr s \<Rightarrow> s | _ \<Rightarrow> py_repr E v)"

text \<open>\<^verbatim>\<open>float(v)\<close>\<close>

definition py_float :: "pyenv \<Rightarrow> pyval \<Rightarrow> pyfloat result" where
  "py_float E v = (case v of
      PFloat f \<Rightarrow> Inr f
    | PInt n \<Rightarrow> int_to_float n
    | PBool b \<Rightarrow> Inr (Fin (if b then 1 else 0))
    | PStr s \<Rightarrow> float_of_str E s
    | PBytes b \<Rightarrow> if \<exists>x \<in> set b. 128 \<le> uint x then Inl ValueError
        else float_of_str E (map (\<lambda>x. char_of (unat x)) b)
    | _ \<Rightarrow> Inl TypeError)"

text \<open>\<^verbatim>\<open>int(v)\<close>; the numeral syntax of strings is left out, every string is rejected.\<close>

definition py_int :: "pyval \<Rightarrow> int result" where
  "py_int v = (case v of
      PInt n \<Rightarrow> Inr n
    | PBool b \<Rightarrow> Inr (if b then 1 else 0)
    | PFloat (Fin x) \<Rightarrow> Inr (if 0 \<le> x then \<lfloor>x\<rfloor> else \<lceil>x\<rceil>)
    | PFloat NaN \<Rightarrow> Inl ValueError
    | PFloat f \<Rightarrow> Inl OverflowError
    | PStr s \<Rightarrow> Inl ValueError
    | PBytes b \<Rightarrow> Inl ValueError
    | _ \<Rightarrow> Inl TypeError)"

text \<open>\<^verbatim>\<open>iter(v)\<close>: the elements a \<^verbatim>\<open>for\<close> loop sees.\<close>

definition py_iter :: "pyval \<Rightarrow> pyval list result" where
  "py_iter v = (case v of
      PList xs \<Rightarrow> Inr xs
    | PTuple xs \<Rightarrow> Inr xs
    | PDict d \<Rightarrow> Inr (map fst d)
    | PStr s \<Rightarrow> Inr (map (\<lambda>c. PStr [c]) s)
    | PBytes b \<Rightarrow> Inr (map (\<lambda>x. PInt (uint x)) b)
    | _ \<Rightarrow> Inl TypeError)"

section \<open>Dictionaries\<close>

text \<open>\<^verbatim>\<open>d.get(k)\<close> and \<^verbatim>\<open>d[k]\<close> for a string key, \<^verbatim>\<open>d | {k: v}\<close> and the key set.\<close>

fun dget :: "pydict \<Rightarrow> string \<Rightarrow> pyval option" where
  "dget [] k = None"
| "dget ((k', v) # d) k = (if k' = PStr k then Some v else dget d k)"

definition dget_or :: "pydict \<Rightarrow> string \<Rightarrow> pyval \<Rightarrow> pyval" where
  "dget_or d k v = (case dget d k of None \<Rightarrow> v | Some x \<Rightarrow> x)"

definition dindex :: "pydict \<Rightarrow> string \<Rightarrow> pyval result" where
  "dindex d k = (case dget d k of None \<Rightarrow> Inl KeyError | Some x \<Rightarrow> Inr x)"

fun dset :: "pydict \<Rightarrow> string \<Rightarrow> pyval \<Rightarrow> pydict" where
  "dset [] k v = [(PStr k, v)]"
| "dset ((k', w) # d) k v = (if k' = PStr k then (k', v) # d else (k', w) # dset d k v)"

definition ddel :: "pydict \<Rightarrow> string \<Rightarrow> pydict" where
  "ddel d k = filter (\<lambda>(k', v). k' \<noteq> PStr k) d"

definition keys :: "pydict \<Rightarrow> pyval list" where
  "keys d = map fst d"

text \<open>A dictionary display with string keys.\<close>

definition mkdict :: "(string \<times> pyval) list \<Rightarrow> pyval" where
  "mkdict kvs = PDict (map (\<lambda>(k, v). (PStr k, v)) kvs)"

text \<open>Every required key is present, every other key is optional.\<close>

definition exact_keys :: "pydict \<Rightarrow> string list \<Rightarrow> string list \<Rightarrow> bool" where
  "exact_keys d required optional \<longleftrightarrow>
     (\<forall>k \<in> set required. dget d k \<noteq> None) \<and>
     (\<forall>k \<in> set (keys d). k \<in> PStr ` set (required @ optional))"

section \<open>Equality\<close>

text \<open>The number a value compares as: booleans are integers, and integers compare with floats exactly.\<close>

fun num_of :: "pyval \<Rightarrow> pyfloat option" where
  "num_of (PBool b) = Some (Fin (if b then 1 else 0))"
| "num_of (PInt n) = Some (Fin (of_int n))"
| "num_of (PFloat f) = Some f"
| "num_of _ = None"

lemma size_dict_fst: "(k, v) \<in> set d \<Longrightarrow> size k < Suc (size_list (size_prod size size) d)"
  by (induction d) auto

lemma size_dict_snd: "(k, v) \<in> set d \<Longrightarrow> size v < Suc (size_list (size_prod size size) d)"
  by (induction d) auto

lemma size_zip_fst: "(x, y) \<in> set (zip xs ys) \<Longrightarrow> size x < Suc (size_list size xs)"
  by (induction xs ys rule: list_induct2') auto

text \<open>\<^verbatim>\<open>a == b\<close>\<close>

function py_eq :: "pyval \<Rightarrow> pyval \<Rightarrow> bool" where
  "py_eq a b = (case (num_of a, num_of b) of
      (Some x, Some y) \<Rightarrow> feq x y
    | _ \<Rightarrow> (case (a, b) of
        (PNone, PNone) \<Rightarrow> True
      | (PStr s, PStr t) \<Rightarrow> s = t
      | (PBytes s, PBytes t) \<Rightarrow> s = t
      | (PList xs, PList ys) \<Rightarrow> length xs = length ys \<and> (\<forall>(x, y) \<in> set (zip xs ys). py_eq x y)
      | (PTuple xs, PTuple ys) \<Rightarrow> length xs = length ys \<and> (\<forall>(x, y) \<in> set (zip xs ys). py_eq x y)
      | (PDict d, PDict e) \<Rightarrow> length d = length e \<and>
          (\<forall>(k, v) \<in> set d. \<exists>(k', v') \<in> set e. py_eq k k' \<and> py_eq v v')
      | (POther s, POther t) \<Rightarrow> s = t
      | _ \<Rightarrow> False))"
  by pat_completeness auto
termination
  by (relation "measure (\<lambda>(a, b). size a)")
     (auto intro: size_zip_fst size_dict_fst size_dict_snd)

declare py_eq.simps [simp del]

section \<open>Plain data\<close>

text \<open>Hexadecimal digests.\<close>

definition hex_digit :: "nat \<Rightarrow> char" where
  "hex_digit n = (if n < 10 then char_of (48 + n) else char_of (87 + n))"

fun hex :: "bytes \<Rightarrow> string" where
  "hex [] = []"
| "hex (b # bs) = hex_digit (unat b div 16) # hex_digit (unat b mod 16) # hex bs"

text \<open>\<^verbatim>\<open>struct.pack(">I", n)\<close> and \<^verbatim>\<open>struct.unpack(">I", b)\<close>: network byte order.\<close>

definition pack_u32 :: "nat \<Rightarrow> bytes" where
  "pack_u32 n = map of_int [int n div 2 ^ 24, int n div 2 ^ 16, int n div 2 ^ 8, int n]"

definition unpack_u32 :: "bytes \<Rightarrow> nat" where
  "unpack_u32 b = nat (foldl (\<lambda>acc x. acc * 256 + uint x) 0 b)"

text \<open>
  The value canonical CBOR stands for: string keys ordered by the length of their UTF-8 encoding
  and then bytewise, sequences as lists.
\<close>

fun key_rank :: "pyval \<Rightarrow> nat \<times> string" where
  "key_rank (PStr k) = (sum_list (map (\<lambda>c. if (of_char c :: nat) < 128 then 1 else 2) k), k)"
| "key_rank _ = (0, [])"

fun canon :: "pyval \<Rightarrow> pyval" where
  "canon (PList xs) = PList (map canon xs)"
| "canon (PTuple xs) = PList (map canon xs)"
| "canon (PDict d) = PDict (sort_key (\<lambda>p. key_rank (fst p)) (map (\<lambda>p. (fst p, canon (snd p))) d))"
| "canon v = v"

text \<open>
  Documented behaviour of the CBOR codec on one value: the canonical encoding exists, decodes to
  the value in canonical order, and encodes the same whatever order the keys are in.
\<close>

definition codec_at :: "pyenv \<Rightarrow> pyval \<Rightarrow> bool" where
  "codec_at E v \<longleftrightarrow> (\<exists>b. cbor_dumps E v = Inr b \<and> b \<noteq> [] \<and>
     cbor_loads E b = Inr (canon v) \<and> cbor_dumps E (canon v) = Inr b)"

text \<open>A value occurs in another one at some depth.\<close>

inductive subvalue :: "pyval \<Rightarrow> pyval \<Rightarrow> bool" where
  subvalue_refl: "subvalue v v"
| subvalue_list: "subvalue v x \<Longrightarrow> x \<in> set xs \<Longrightarrow> subvalue v (PList xs)"
| subvalue_tuple: "subvalue v x \<Longrightarrow> x \<in> set xs \<Longrightarrow> subvalue v (PTuple xs)"
| subvalue_dict: "subvalue v x \<Longrightarrow> (k, x) \<in> set d \<Longrightarrow> subvalue v (PDict d)"

inductive_simps subvalue_leaf [simp]:
  "subvalue w PNone" "subvalue w (PBool b)" "subvalue w (PInt n)" "subvalue w (PFloat f)"
  "subvalue w (PStr s)" "subvalue w (PBytes bs)" "subvalue w (POther c)"

inductive_simps subvalue_in_list: "subvalue w (PList xs)"
inductive_simps subvalue_in_tuple: "subvalue w (PTuple xs)"
inductive_simps subvalue_in_dict: "subvalue w (PDict d)"

section \<open>Lemmas\<close>

lemma dget_mkdict: "dget (map (\<lambda>(k, v). (PStr k, v)) kvs) k = map_of kvs k"
  by (induction kvs) auto

lemma dget_Cons_same [simp]: "dget ((PStr k, v) # d) k = Some v"
  by simp

lemma dget_dset: "dget (dset d k v) k' = (if k' = k then Some v else dget d k')"
  by (induction d) auto

lemma dget_ddel: "dget (ddel d k) k' = (if k' = k then None else dget d k')"
  by (induction d) (auto simp: ddel_def)

lemma dget_None_iff: "dget d k = None \<longleftrightarrow> PStr k \<notin> set (keys d)"
  by (induction d k rule: dget.induct) (auto simp: keys_def)

lemma dget_Some_mem: "dget d k = Some v \<Longrightarrow> (PStr k, v) \<in> set d"
  by (induction d) (auto split: if_splits)

lemma ddel_absent: "PStr k \<notin> set (keys d) \<Longrightarrow> ddel d k = d"
  by (induction d) (auto simp: ddel_def keys_def)

lemma length_hex: "length (hex b) = 2 * length b"
  by (induction b) auto

lemma length_pack_u32 [simp]: "length (pack_u32 n) = 4"
  by (simp add: pack_u32_def)

lemma pack_u32_of_nat: "pack_u32 n = map of_nat [n div 2 ^ 24, n div 2 ^ 16, n div 2 ^ 8, n]"
proof -
  have *: "of_int (int n div 2 ^ k) = (of_nat (n div 2 ^ k) :: 8 word)" for k
  proof -
    have "int n div 2 ^ k = int (n div 2 ^ k)" by (simp add: zdiv_int)
    then show ?thesis by simp
  qed
  show ?thesis unfolding pack_u32_def list.map of_int_of_nat_eq * by (rule refl)
qed

lemma unpack_u32_of_nat: "unpack_u32 b = foldl (\<lambda>acc x. acc * 256 + unat x) 0 b"
proof -
  have "foldl (\<lambda>acc x. acc * 256 + uint x) (int n) b = int (foldl (\<lambda>acc x. acc * 256 + unat x) n b)" for n
  proof (induction b arbitrary: n)
    case (Cons x b)
    from Cons.IH [of "n * 256 + unat x"] show ?case by simp
  qed simp
  from this [of 0] show ?thesis by (simp add: unpack_u32_def)
qed

lemma length_4_cases:
  assumes "length b = 4"
  obtains w x y z where "b = [w, x, y, z]"
  using assms by (auto simp: eval_nat_numeral length_Suc_conv)

lemma unat_byte: "unat (v :: 8 word) < 256"
proof -
  have "uint v < 2 ^ LENGTH(8)" by (rule uint_lt2p)
  then show ?thesis by (simp add: nat_less_iff flip: nat_uint_eq)
qed

lemma pack_unpack_u32:
  assumes "length b = 4"
  shows "pack_u32 (unpack_u32 b) = b"
proof -
  from assms obtain w x y z where b: "b = [w, x, y, z]"
    by (rule length_4_cases)
  define n where "n = ((unat w * 256 + unat x) * 256 + unat y) * 256 + unat z"
  have u: "unat v < 256" for v :: "8 word" by (rule unat_byte)
  have d1: "n div 2 ^ 8 = (unat w * 256 + unat x) * 256 + unat y"
    unfolding n_def using u [of z] by simp
  then have d2: "n div 2 ^ 16 = unat w * 256 + unat x"
    using u [of y] by (simp add: div_mult2_eq [of n 256 256, simplified])
  then have d3: "n div 2 ^ 24 = unat w"
    using u [of x] by (simp add: div_mult2_eq [of n 65536 256, simplified])
  have u32: "unpack_u32 b = n" by (simp add: unpack_u32_of_nat b n_def)
  have z: "of_nat (m * 256 + unat v) = v" for m and v :: "8 word"
  proof -
    have "(of_nat 256 :: 8 word) = 0" by (simp add: of_nat_eq_0_iff)
    then have "of_nat (m * 256) = (0 :: 8 word)" by (simp del: of_nat_numeral)
    then show ?thesis by (simp del: of_nat_mult)
  qed
  have "of_nat n = z" "of_nat (n div 2 ^ 8) = y" "of_nat (n div 2 ^ 16) = x" "of_nat (n div 2 ^ 24) = w"
    unfolding d1 d2 d3 unfolding n_def by (rule z | simp)+
  then show ?thesis unfolding pack_u32_of_nat u32 unfolding b by (simp only: list.map)
qed

lemma unpack_u32_less: "length b = 4 \<Longrightarrow> unpack_u32 b < 2 ^ 32"
proof -
  assume "length b = 4"
  then obtain w x y z where b: "b = [w, x, y, z]"
    by (rule length_4_cases)
  have "unat v < 256" for v :: "8 word" by (rule unat_byte)
  from this [of w] this [of x] this [of y] this [of z] show ?thesis
    by (simp add: unpack_u32_of_nat b)
qed

lemma unpack_pack_u32:
  assumes "n < 2 ^ 32"
  shows "unpack_u32 (pack_u32 n) = n"
proof -
  define a b c where "a = n div 256" and "b = a div 256" and "c = b div 256"
  have d: "n div 2 ^ 8 = a" "n div 2 ^ 16 = b" "n div 2 ^ 24 = c"
    by (simp_all add: a_def b_def c_def div_mult2_eq [symmetric])
  have "c < 256" using assms by (simp add: d(3) [symmetric] less_mult_imp_div_less)
  then have "unpack_u32 (pack_u32 n) = ((c * 256 + b mod 256) * 256 + a mod 256) * 256 + n mod 256"
    unfolding pack_u32_of_nat unpack_u32_of_nat d by (simp add: unsigned_of_nat take_bit_nat_def)
  also have "c * 256 + b mod 256 = b" unfolding c_def by (rule div_mult_mod_eq)
  also have "b * 256 + a mod 256 = a" unfolding b_def by (rule div_mult_mod_eq)
  also have "a * 256 + n mod 256 = n" unfolding a_def by (rule div_mult_mod_eq)
  finally show ?thesis .
qed

lemma py_eq_str [simp]: "py_eq (PStr s) (PStr t) \<longleftrightarrow> s = t"
  by (simp add: py_eq.simps)

lemma py_eq_str_left: "py_eq (PStr s) v \<longleftrightarrow> v = PStr s"
  by (cases v) (auto simp: py_eq.simps)

lemma py_eq_str_right: "py_eq v (PStr s) \<longleftrightarrow> v = PStr s"
  by (cases v) (auto simp: py_eq.simps)

lemma py_eq_int [simp]: "py_eq (PInt m) (PInt n) \<longleftrightarrow> m = n"
  by (simp add: py_eq.simps)

lemma py_eq_list: "py_eq (PList xs) (PList ys) \<longleftrightarrow> list_all2 py_eq xs ys"
  by (simp add: py_eq.simps [of "PList xs"] list_all2_iff)

lemma py_eq_dict:
  "py_eq (PDict d) (PDict e) \<longleftrightarrow> length d = length e \<and>
     (\<forall>(k, v) \<in> set d. \<exists>(k', v') \<in> set e. py_eq k k' \<and> py_eq v v')"
  by (simp add: py_eq.simps [of "PDict d"])

lemma py_eq_tuple: "py_eq (PTuple xs) (PTuple ys) \<longleftrightarrow> list_all2 py_eq xs ys"
  by (simp add: py_eq.simps [of "PTuple xs"] list_all2_iff)

text \<open>Values without a NaN are equal to themselves.\<close>

fun nan_free :: "pyval \<Rightarrow> bool" where
  "nan_free (PFloat f) = (f \<noteq> NaN)"
| "nan_free (PList xs) = (\<forall>x \<in> set xs. nan_free x)"
| "nan_free (PTuple xs) = (\<forall>x \<in> set xs. nan_free x)"
| "nan_free (PDict d) = (\<forall>p \<in> set d. nan_free (fst p) \<and> nan_free (snd p))"
| "nan_free _ = True"

lemma py_eq_refl: "nan_free v \<Longrightarrow> py_eq v v"
proof (induction v)
  case (PFloat f)
  then show ?case by (cases f) (auto simp: py_eq.simps)
next
  case (PList xs)
  then show ?case by (simp add: py_eq_list list_all2_same)
next
  case (PTuple xs)
  then show ?case by (simp add: py_eq_tuple list_all2_same)
next
  case (PDict d)
  have "py_eq k k \<and> py_eq v v" if "(k, v) \<in> set d" for k v
    using PDict.IH [OF that] PDict.prems that by fastforce
  then show ?case by (fastforce simp: py_eq_dict)
qed (auto simp: py_eq.simps)

lemma dget_distinct:
  "distinct (keys d) \<Longrightarrow> dget d k = Some v \<longleftrightarrow> (PStr k, v) \<in> set d"
  by (induction d k rule: dget.induct) (force simp: keys_def)+

lemma dget_cong_set:
  assumes "distinct (keys d)" "distinct (keys e)" "set d = set e"
  shows "dget d k = dget e k"
proof (cases "dget d k")
  case None
  then show ?thesis using assms by (metis dget_distinct not_None_eq)
next
  case (Some v)
  then show ?thesis using assms by (metis dget_distinct)
qed

lemma keys_canon_items: "keys (map (\<lambda>p. (fst p, f (snd p))) d) = keys d"
  by (induction d) (auto simp: keys_def)

lemma dget_map_snd: "dget (map (\<lambda>p. (fst p, f (snd p))) d) k = map_option f (dget d k)"
  by (induction d k rule: dget.induct) auto

lemma keys_sort_key: "mset (keys (sort_key f d)) = mset (keys d)"
  unfolding keys_def by (metis mset_map mset_sort)

lemma dget_canon:
  assumes "distinct (keys d)"
  shows "dget (the_dict (canon (PDict d))) k = map_option canon (dget d k)"
proof -
  let ?e = "map (\<lambda>p. (fst p, canon (snd p))) d"
  have "distinct (keys (sort_key (\<lambda>p. key_rank (fst p)) ?e))"
    using assms keys_sort_key [where d = ?e] by (metis keys_canon_items mset_eq_imp_distinct_iff)
  then have "dget (sort_key (\<lambda>p. key_rank (fst p)) ?e) k = dget ?e k"
    using assms by (intro dget_cong_set) (auto simp: keys_canon_items)
  then show ?thesis by (simp add: dget_map_snd)
qed

lemma set_keys_canon: "set (keys (the_dict (canon (PDict d)))) = set (keys d)"
  by (force simp: keys_def)

end
