(* ===== verification/Protocol.thy ===== *)
theory Protocol
  imports PyVal Complex_Main
begin

text \<open>
  The v1 trajectory format and its validation: \<^verbatim>\<open>robot_protocol.py\<close>. Joint values and rates are
  the IEEE floats the program computes with. Canonical JSON and SHA-256 are parameters.
\<close>

section \<open>Header and points\<close>

definition PROTOCOL :: string where
  "PROTOCOL = ''robot-stream.v1''"

definition PROGRAM_FORMAT :: string where
  "PROGRAM_FORMAT = ''so101-joint-trajectory''"

definition PROGRAM_VERSION :: int where
  "PROGRAM_VERSION = 1"

definition JOINTS :: "string list" where
  "JOINTS = [''shoulder_pan'', ''shoulder_lift'', ''elbow_flex'', ''wrist_flex'', ''wrist_roll'', ''gripper'']"

definition COORDINATE_MODES :: "string list" where
  "COORDINATE_MODES = [''absolute_deg'', ''relative_deg'']"

definition RUN_MODES :: "string list" where
  "RUN_MODES = [''sealed'', ''streaming'']"

record program_header =
  ph_program_id :: string
  ph_coordinate_mode :: string
  ph_interpolation :: string
  ph_model :: string

definition header_from_record :: "pyenv \<Rightarrow> pydict \<Rightarrow> program_header result" where
  "header_from_record E rec =
     raise_if (\<not> exact_keys rec [''type'', ''format'', ''version'', ''program_id'', ''model'', ''joints'',
         ''coordinate_mode'', ''interpolation''] []) (ProtocolError ''SCHEMA_INVALID'')
     (raise_if (\<not> py_eq (dget_or rec ''type'' PNone) (PStr ''header'')) (ProtocolError ''SCHEMA_INVALID'')
     (raise_if (\<not> py_eq (dget_or rec ''format'' PNone) (PStr PROGRAM_FORMAT) \<or>
         \<not> py_eq (dget_or rec ''version'' PNone) (PInt PROGRAM_VERSION)) (ProtocolError ''VERSION_UNSUPPORTED'')
     (raise_if (\<not> py_eq (dget_or rec ''model'' PNone) (PStr ''so101-follower'')) (ProtocolError ''MODEL_MISMATCH'')
     (bind (py_iter (dget_or rec ''joints'' PNone)) (\<lambda>joints.
      raise_if (\<not> py_eq (PTuple joints) (PTuple (map PStr JOINTS))) (ProtocolError ''JOINT_SET_MISMATCH'')
      (let coordinate_mode = py_str E (dget_or rec ''coordinate_mode'' PNone) in
       raise_if (coordinate_mode \<notin> set COORDINATE_MODES) (ProtocolError ''SCHEMA_INVALID'')
       (raise_if (\<not> py_eq (dget_or rec ''interpolation'' PNone) (PStr ''quintic_stop'')) (ProtocolError ''SCHEMA_INVALID'')
        (let program_id = py_str E (dget_or rec ''program_id'' PNone) in
         raise_if (program_id = [] \<or> length program_id > 128) (ProtocolError ''SCHEMA_INVALID'')
         (Inr \<lparr>ph_program_id = program_id, ph_coordinate_mode = coordinate_mode,
               ph_interpolation = ''quintic_stop'', ph_model = ''so101-follower''\<rparr>)))))))))"

definition header_record :: "program_header \<Rightarrow> pyval" where
  "header_record h = mkdict [(''type'', PStr ''header''), (''format'', PStr PROGRAM_FORMAT),
     (''version'', PInt PROGRAM_VERSION), (''program_id'', PStr (ph_program_id h)),
     (''model'', PStr (ph_model h)), (''joints'', PList (map PStr JOINTS)),
     (''coordinate_mode'', PStr (ph_coordinate_mode h)), (''interpolation'', PStr (ph_interpolation h))]"

record trajectory_point =
  t_us :: int
  q_deg :: "pyfloat list"

definition point_from_record :: "pyenv \<Rightarrow> pydict \<Rightarrow> trajectory_point result" where
  "point_from_record E rec =
     raise_if (\<not> exact_keys rec [''type'', ''t_us'', ''q_deg''] [] \<or>
         \<not> py_eq (dget_or rec ''type'' PNone) (PStr ''point'')) (ProtocolError ''SCHEMA_INVALID'')
     (case dget_or rec ''t_us'' PNone of
        PInt t \<Rightarrow>
          bind (catch (bind (py_iter (dget_or rec ''q_deg'' PNone)) (mapM (py_float E)))
              (\<lambda>e. e = TypeError \<or> is_ValueError e) (ProtocolError ''SCHEMA_INVALID'')) (\<lambda>q.
          raise_if (length q \<noteq> length JOINTS \<or> \<not> list_all isfinite q) (ProtocolError ''SCHEMA_INVALID'')
            (Inr \<lparr>t_us = t, q_deg = q\<rparr>))
      | _ \<Rightarrow> Inl (ProtocolError ''INVALID_TIME''))"

definition point_record :: "trajectory_point \<Rightarrow> pyval" where
  "point_record p = mkdict [(''type'', PStr ''point''), (''t_us'', PInt (t_us p)),
     (''q_deg'', PList (map PFloat (q_deg p)))]"

section \<open>The safety policy\<close>

record safety_policy =
  joint_min_deg :: "pyfloat list"
  joint_max_deg :: "pyfloat list"
  max_relative_deg :: pyfloat
  max_velocity_deg_s :: pyfloat
  max_acceleration_deg_s2 :: pyfloat
  min_segment_us :: int
  max_points :: int
  max_duration_us :: int
  max_chunk_points :: int
  max_horizon_us :: int
  start_buffer_us :: int
  low_water_us :: int
  start_tolerance_deg :: pyfloat
  tracking_error_deg :: pyfloat
  gripper_tracking_error_pct :: "pyfloat option"

definition SafetyPolicy :: safety_policy where
  "SafetyPolicy = \<lparr>
     joint_min_deg = replicate 6 (Fin (-100)), joint_max_deg = replicate 6 (Fin 100),
     max_relative_deg = Fin 45, max_velocity_deg_s = Fin 30, max_acceleration_deg_s2 = Fin 120,
     min_segment_us = 100000, max_points = 100000, max_duration_us = 3600000000,
     max_chunk_points = 512, max_horizon_us = 30000000, start_buffer_us = 2000000,
     low_water_us = 1000000, start_tolerance_deg = Fin 5, tracking_error_deg = Fin 15,
     gripper_tracking_error_pct = None\<rparr>"

text \<open>\<^verbatim>\<open>xs[i]\<close> and the end of a \<^verbatim>\<open>zip(..., strict=True)\<close>.\<close>

definition py_index :: "'a list \<Rightarrow> nat \<Rightarrow> 'a result" where
  "py_index xs i = (if i < length xs then Inr (xs ! i) else Inl IndexError)"

definition zip_strict_end :: "nat list \<Rightarrow> unit result" where
  "zip_strict_end lens = (if \<forall>n \<in> set lens. n = hd lens then Inr () else Inl ValueError)"

definition within_limits :: "safety_policy \<Rightarrow> nat \<Rightarrow> pyfloat \<Rightarrow> unit result" where
  "within_limits policy i v =
     bind (py_index (joint_min_deg policy) i) (\<lambda>lo.
       if \<not> fle lo v then Inl (ProtocolError ''LIMIT_VIOLATION'')
       else bind (py_index (joint_max_deg policy) i) (\<lambda>hi.
         raise_if (\<not> fle v hi) (ProtocolError ''LIMIT_VIOLATION'') (Inr ())))"

definition validate_position :: "safety_policy \<Rightarrow> trajectory_point \<Rightarrow> string \<Rightarrow> unit result" where
  "validate_position policy point coordinate_mode =
     bind (forM (\<lambda>(i, v).
         if coordinate_mode = ''relative_deg'' then
           raise_if (flt (max_relative_deg policy) (fabs v)) (ProtocolError ''LIMIT_VIOLATION'') (Inr ())
         else within_limits policy i v)
       (zip [0..<length JOINTS] (q_deg point))) (\<lambda>_.
     zip_strict_end [length JOINTS, length (q_deg point)])"

definition validate_joint_rates :: "safety_policy \<Rightarrow> pyfloat \<Rightarrow> pyfloat \<times> pyfloat \<Rightarrow> unit result" where
  "validate_joint_rates policy dt_s q = (case q of (q0, q1) \<Rightarrow>
     let distance = fabs (fsub q1 q0) in
     bind (fdiv (fmul (Fin (1875 / 1000)) distance) dt_s) (\<lambda>peak_velocity.
     bind (fdiv (fmul (fround (5773503 / 1000000)) distance) (fmul dt_s dt_s)) (\<lambda>peak_acceleration.
     raise_if (flt (max_velocity_deg_s policy) peak_velocity) (ProtocolError ''VELOCITY_LIMIT'')
     (raise_if (flt (max_acceleration_deg_s2 policy) peak_acceleration) (ProtocolError ''ACCELERATION_LIMIT'')
       (Inr ())))))"

definition validate_segment :: "safety_policy \<Rightarrow> trajectory_point \<Rightarrow> trajectory_point \<Rightarrow> unit result" where
  "validate_segment policy prev cur =
     (let dt_us = t_us cur - t_us prev in
      raise_if (dt_us < min_segment_us policy) (ProtocolError ''INVALID_TIME'')
      (bind (int_truediv dt_us 1000000) (\<lambda>dt_s.
       bind (forM (validate_joint_rates policy dt_s)
         (map snd (zip JOINTS (zip (q_deg prev) (q_deg cur))))) (\<lambda>_.
       zip_strict_end [length JOINTS, length (q_deg prev), length (q_deg cur)]))))"

section \<open>Digests and whole programs\<close>

definition chunk_digest :: "pyenv \<Rightarrow> int \<Rightarrow> trajectory_point list \<Rightarrow> bool \<Rightarrow> string" where
  "chunk_digest E chunk_seq points final = hex (sha256 E (json_dumps E (mkdict
     [(''chunk_seq'', PInt chunk_seq), (''final'', PBool final), (''points'', PList (map point_record points))])))"

definition program_digest :: "pyenv \<Rightarrow> program_header \<Rightarrow> trajectory_point list \<Rightarrow> string" where
  "program_digest E h points = hex (sha256 E ((json_dumps E (header_record h) @ [10]) @
     concat (map (\<lambda>p. json_dumps E (point_record p) @ [10]) points)))"

definition nonzero_start :: "trajectory_point \<Rightarrow> bool" where
  "nonzero_start p \<longleftrightarrow> (\<exists>v \<in> set (q_deg p). flt (fround (1 / 10 ^ 9)) (fabs v))"

fun validate_points_loop :: "program_header \<Rightarrow> safety_policy \<Rightarrow> trajectory_point option \<Rightarrow> trajectory_point list
    \<Rightarrow> unit result" where
  "validate_points_loop h policy prev [] = Inr ()"
| "validate_points_loop h policy prev (p # ps) =
     raise_if (t_us p < 0 \<or> t_us p > max_duration_us policy) (ProtocolError ''INVALID_TIME'')
     (bind (validate_position policy p (ph_coordinate_mode h)) (\<lambda>_.
      bind (case prev of None \<Rightarrow> Inr () | Some q \<Rightarrow> validate_segment policy q p) (\<lambda>_.
      validate_points_loop h policy (Some p) ps)))"

definition validate_points :: "program_header \<Rightarrow> trajectory_point list \<Rightarrow> safety_policy \<Rightarrow> bool \<Rightarrow> unit result" where
  "validate_points h points policy require_complete =
     (if points = [] then Inl (ProtocolError ''SCHEMA_INVALID'')
      else raise_if (int (length points) > max_points policy) (ProtocolError ''RESOURCE_LIMIT'')
      (raise_if (t_us (hd points) \<noteq> 0) (ProtocolError ''INVALID_TIME'')
      (raise_if (ph_coordinate_mode h = ''relative_deg'' \<and> nonzero_start (hd points)) (ProtocolError ''START_STATE_MISMATCH'')
      (bind (validate_points_loop h policy None points) (\<lambda>_.
       raise_if (require_complete \<and> length points < 2) (ProtocolError ''SCHEMA_INVALID'') (Inr ()))))))"

text \<open>The program file is the list of its lines.\<close>

definition load_records :: "pyenv \<Rightarrow> string list \<Rightarrow> pydict list result" where
  "load_records E ls = catch (mapM (\<lambda>line.
       bind (json_loads E line) (\<lambda>v. case v of
         PDict d \<Rightarrow> Inr d | _ \<Rightarrow> Inl (ProtocolError ''SCHEMA_INVALID'')))
     (filter (\<lambda>line. \<not> (py_strip line = [] \<or> py_startswith (dropWhile py_isspace line) ''#'')) ls))
     (\<lambda>e. e = ValueError) (ProtocolError ''SCHEMA_INVALID'')"

definition load_program :: "pyenv \<Rightarrow> string list \<Rightarrow> safety_policy \<Rightarrow> (program_header \<times> trajectory_point list) result" where
  "load_program E ls policy =
     bind (load_records E ls) (\<lambda>recs.
     raise_if (length recs < 2) (ProtocolError ''SCHEMA_INVALID'')
     (bind (header_from_record E (hd recs)) (\<lambda>h.
      bind (mapM (point_from_record E) (tl recs)) (\<lambda>points.
      bind (validate_points h points policy True) (\<lambda>_.
      Inr (h, points))))))"

definition quintic_blend :: "pyfloat \<Rightarrow> pyfloat" where
  "quintic_blend u = fmul (fmul (fmul u u) u) (fadd (Fin 10) (fmul u (fadd (Fin (-15)) (fmul (Fin 6) u))))"

definition interpolate_quintic :: "trajectory_point \<Rightarrow> trajectory_point \<Rightarrow> int \<Rightarrow> pyfloat list result" where
  "interpolate_quintic prev cur t =
     (if t \<le> t_us prev then Inr (q_deg prev)
      else if t \<ge> t_us cur then Inr (q_deg cur)
      else bind (int_truediv (t - t_us prev) (t_us cur - t_us prev)) (\<lambda>u.
        let blend = quintic_blend u in
        bind (zip_strict_end [length (q_deg prev), length (q_deg cur)]) (\<lambda>_.
        Inr (map (\<lambda>(a, b). fadd a (fmul (fsub b a) blend)) (zip (q_deg prev) (q_deg cur))))))"

section \<open>The motion a segment stands for\<close>

text \<open>
  The smootherstep polynomial over the reals, the motion of one joint along a segment in seconds,
  and its first two derivatives.
\<close>

definition smootherstep :: "real \<Rightarrow> real" where
  "smootherstep u = 6 * u ^ 5 - 15 * u ^ 4 + 10 * u ^ 3"

definition motion :: "real \<Rightarrow> real \<Rightarrow> real \<Rightarrow> real \<Rightarrow> real \<Rightarrow> real" where
  "motion t0 T a b t = a + (b - a) * smootherstep ((t - t0) / T)"

definition motion_velocity :: "real \<Rightarrow> real \<Rightarrow> real \<Rightarrow> real \<Rightarrow> real \<Rightarrow> real" where
  "motion_velocity t0 T a b t = (b - a) / T * (let u = (t - t0) / T in 30 * u ^ 4 - 60 * u ^ 3 + 30 * u ^ 2)"

definition motion_acceleration :: "real \<Rightarrow> real \<Rightarrow> real \<Rightarrow> real \<Rightarrow> real \<Rightarrow> real" where
  "motion_acceleration t0 T a b t = (b - a) / T ^ 2 * (let u = (t - t0) / T in 120 * u ^ 3 - 180 * u ^ 2 + 60 * u)"

lemma motion_deriv:
  assumes "T \<noteq> 0"
  shows "(motion t0 T a b has_real_derivative motion_velocity t0 T a b t) (at t)"
    and "(motion_velocity t0 T a b has_real_derivative motion_acceleration t0 T a b t) (at t)"
proof -
  have inner: "((\<lambda>t. (t - t0) / T) has_real_derivative 1 / T) (at t)"
    using assms by (auto intro!: derivative_eq_intros)
  have s1: "(smootherstep has_real_derivative (let u = (t - t0) / T in 30 * u ^ 4 - 60 * u ^ 3 + 30 * u ^ 2)) (at ((t - t0) / T))"
    unfolding smootherstep_def [abs_def] Let_def by (auto intro!: derivative_eq_intros)
  have s2: "((\<lambda>u. 30 * u ^ 4 - 60 * u ^ 3 + 30 * u ^ 2) has_real_derivative
      (let u = (t - t0) / T in 120 * u ^ 3 - 180 * u ^ 2 + 60 * u)) (at ((t - t0) / T))"
    unfolding Let_def by (auto intro!: derivative_eq_intros)
  show "(motion t0 T a b has_real_derivative motion_velocity t0 T a b t) (at t)"
    unfolding motion_def [abs_def] motion_velocity_def
    by (rule derivative_eq_intros DERIV_chain2 [OF s1 inner] refl)+ simp
  show "(motion_velocity t0 T a b has_real_derivative motion_acceleration t0 T a b t) (at t)"
    unfolding motion_velocity_def [abs_def] motion_acceleration_def Let_def
    by (rule derivative_eq_intros DERIV_chain2 [OF s2 inner] refl)+ (simp add: Let_def power2_eq_square)
qed

lemma smootherstep_range:
  assumes "0 \<le> u" "u \<le> 1"
  shows "0 \<le> smootherstep u" "smootherstep u \<le> 1"
proof -
  have "smootherstep u = u ^ 3 * (6 * (u - 5 / 4) ^ 2 + 5 / 8)"
    by (simp add: smootherstep_def power2_eq_square power3_eq_cube power4_eq_xxxx algebra_simps numeral_eq_Suc)
  then show "0 \<le> smootherstep u" using assms by simp
  have "1 - smootherstep u = (1 - u) ^ 3 * (6 * (u + 1 / 4) ^ 2 + 5 / 8)"
    by (simp add: smootherstep_def power2_eq_square power3_eq_cube power4_eq_xxxx algebra_simps numeral_eq_Suc)
  moreover have "0 \<le> (1 - u) ^ 3 * (6 * (u + 1 / 4) ^ 2 + 5 / 8)" using assms by simp
  ultimately show "smootherstep u \<le> 1" by linarith
qed

lemma quarter_bound: "u * (1 - u) \<le> (1 / 4 :: real)"
proof -
  have "1 / 4 - u * (1 - u) = (u - 1 / 2) ^ 2" by (simp add: power2_eq_square algebra_simps)
  then show ?thesis by (metis diff_ge_0_iff_ge zero_le_power2)
qed

lemma smootherstep_rate:
  assumes "0 \<le> u" "u \<le> (1 :: real)"
  shows "\<bar>30 * u ^ 4 - 60 * u ^ 3 + 30 * u ^ 2\<bar> \<le> 15 / 8"
proof -
  have e: "30 * u ^ 4 - 60 * u ^ 3 + 30 * u ^ 2 = 30 * (u * (1 - u)) ^ 2"
    by (simp add: power2_eq_square power3_eq_cube power4_eq_xxxx algebra_simps)
  have "(u * (1 - u)) ^ 2 \<le> (1 / 4) ^ 2"
    using assms quarter_bound [of u] by (intro power_mono) auto
  also have "(1 / 4 :: real) ^ 2 = 1 / 16" by (simp add: power2_eq_square)
  finally show ?thesis unfolding e by (simp only: abs_mult abs_power2 abs_numeral)
qed

text \<open>The peak of the second derivative is \<open>10 / sqrt 3\<close>, stated without the root.\<close>

lemma smootherstep_curvature:
  assumes "0 \<le> u" "u \<le> (1 :: real)"
  shows "\<bar>120 * u ^ 3 - 180 * u ^ 2 + 60 * u\<bar> \<le> 57735027 / 10000000"
proof -
  define w where "w = (1 - 2 * u) ^ 2"
  have "0 \<le> u * (1 - u)" using assms by simp
  then have w1: "w \<le> 1" by (simp add: w_def power2_eq_square algebra_simps)
  have "(120 * u ^ 3 - 180 * u ^ 2 + 60 * u) ^ 2 = 225 * (w * (1 - w) ^ 2)"
    by (simp add: w_def power2_eq_square power3_eq_cube algebra_simps)
  also have "w * (1 - w) ^ 2 = 4 / 27 - (w - 1 / 3) ^ 2 * (4 / 3 - w)"
    by (simp add: power2_eq_square algebra_simps)
  also have "225 * (4 / 27 - (w - 1 / 3) ^ 2 * (4 / 3 - w)) \<le> 225 * (4 / 27)"
    using w1 by simp
  also have "225 * (4 / 27) \<le> (57735027 / 10000000 :: real) ^ 2" by (simp add: power2_eq_square)
  finally show ?thesis
    using abs_le_square_iff [of "120 * u ^ 3 - 180 * u ^ 2 + 60 * u" "57735027 / 10000000"] by simp
qed

section \<open>What validation guarantees\<close>

lemma validate_points_loop_iff:
  "validate_points_loop h policy prev ps = Inr () \<longleftrightarrow>
     (\<forall>p \<in> set ps. 0 \<le> t_us p \<and> t_us p \<le> max_duration_us policy \<and>
        validate_position policy p (ph_coordinate_mode h) = Inr ()) \<and>
     successively (\<lambda>p q. validate_segment policy p q = Inr ()) ((case prev of None \<Rightarrow> [] | Some p \<Rightarrow> [p]) @ ps)"
  by (induction ps arbitrary: prev) (auto split: option.splits)

lemma forM_zip_index:
  "forM (\<lambda>(i, v). f i v) (zip [0..<n] xs) = Inr () \<Longrightarrow> i < n \<Longrightarrow> i < length xs \<Longrightarrow> f i (xs ! i) = Inr ()"
  by (fastforce simp: forM_Inr_iff set_zip)

lemma zip_strict_end_Inr: "zip_strict_end (n # ns) = Inr () \<longleftrightarrow> (\<forall>m \<in> set ns. m = n)"
  by (auto simp: zip_strict_end_def)

lemma length_JOINTS [simp]: "length JOINTS = 6"
  by (simp add: JOINTS_def)

lemma validate_position_absolute:
  assumes "validate_position policy p mode = Inr ()" "mode \<noteq> ''relative_deg''"
  shows "length (q_deg p) = 6"
    and "j < 6 \<Longrightarrow> fle (joint_min_deg policy ! j) (q_deg p ! j) \<and> fle (q_deg p ! j) (joint_max_deg policy ! j)"
proof -
  show l: "length (q_deg p) = 6"
    using assms by (auto simp: validate_position_def zip_strict_end_Inr)
  assume j: "j < 6"
  have "forM (\<lambda>(i, v). within_limits policy i v) (zip [0..<length JOINTS] (q_deg p)) = Inr ()"
    using assms by (simp add: validate_position_def)
  from forM_zip_index [OF this, of j] j l show "fle (joint_min_deg policy ! j) (q_deg p ! j) \<and>
      fle (q_deg p ! j) (joint_max_deg policy ! j)"
    by (auto simp: within_limits_def py_index_def split: if_splits)
qed

lemma accel_constant:
  obtains k where "fround (5773503 / 1000000) = Fin k" "57735027 / 10000000 \<le> k" "k \<le> 8"
proof -
  obtain k where k: "fround (5773503 / 1000000) = Fin k"
    and "\<bar>k - 5773503 / 1000000\<bar> \<le> \<bar>5773503 / 1000000\<bar> / 2 ^ 53 + eta"
    by (rule fround_finite [of "5773503 / 1000000"]) (auto simp: divide_le_eq)
  note this(2)
  also have "\<dots> \<le> 6 / 2 ^ 53 + 1 / 2 ^ 200" using eta_small by simp
  finally have "\<bar>k - 5773503 / 1000000\<bar> \<le> 1 / 10 ^ 8" by (rule order_trans) simp
  then have "k - 5773503 / 1000000 \<le> 1 / 10 ^ 8" "5773503 / 1000000 - k \<le> 1 / 10 ^ 8" by linarith+
  then have "57735027 / 10000000 \<le> k" "k \<le> 8" by (simp_all add: field_simps)
  with that k show thesis by blast
qed

lemma joint_rates_sound:
  assumes r: "validate_joint_rates policy dt_s (Fin a, Fin b) = Inr ()"
    and dt: "int_truediv dt 1000000 = Inr dt_s" "1 \<le> dt" "dt \<le> 2 ^ 64"
    and V: "max_velocity_deg_s policy = Fin V" and A: "max_acceleration_deg_s2 policy = Fin A"
  defines "S \<equiv> of_int dt / 1000000"
  shows "15 / 8 * \<bar>b - a\<bar> / S \<le> rate_bound V"
    and "57735027 / 10000000 * \<bar>b - a\<bar> / S ^ 2 \<le> rate_bound A"
proof -
  have S: "1 / 10 ^ 6 \<le> S" using dt(2) by (simp add: S_def divide_simps)
  obtain s where s: "dt_s = Fin s" "fround S = Fin s"
    using dt(1) by (auto simp: int_truediv_def Let_def S_def split: if_splits elim: isfinite.elims)
  have s12: "1 / 10 ^ 12 \<le> S" by (rule order_trans [OF _ S]) simp
  have ss12: "1 / 10 ^ 12 \<le> S ^ 2" using power_mono [OF S, of 2] by (simp add: power_divide)
  have "1 / 10 ^ 13 \<le> S" by (rule order_trans [OF _ S]) simp
  note su = fround_upper [OF s(2) this]
  obtain k where k: "fround (5773503 / 1000000) = Fin k" "57735027 / 10000000 \<le> k" "k \<le> 8"
    by (rule accel_constant)
  from r obtain v w where v: "fdiv (fmul (Fin (15 / 8)) (fabs (fsub (Fin b) (Fin a)))) (Fin s) = Inr v" "\<not> flt (Fin V) v"
    and w: "fdiv (fmul (Fin k) (fabs (fsub (Fin b) (Fin a)))) (fmul (Fin s) (Fin s)) = Inr w" "\<not> flt (Fin A) w"
    by (auto simp: validate_joint_rates_def Let_def s(1) V A k(1))
  have S0: "0 < S" using S by (rule less_le_trans [rotated]) simp
  have "S \<le> cc * S" "cc * S \<le> cc * (cc * S)" "cc * (cc * S) \<le> cc * (cc * (cc * S))" using S0 by simp_all
  then have "s \<le> cc * (cc * (cc * S))" using su(2) by linarith
  from rate_check_sound [OF _ _ s12 su(1) this v] show "15 / 8 * \<bar>b - a\<bar> / S \<le> rate_bound V"
    by (simp add: rate_bound_def)
  have s13: "1 / 10 ^ 13 \<le> s * s"
  proof -
    have "(1 / 10 ^ 6 / 2) * (1 / 10 ^ 6 / 2) \<le> s * s"
      using S su by (intro mult_mono) auto
    then show ?thesis by (rule order_trans [rotated]) simp
  qed
  have "S \<le> 2 ^ 45" using dt(3) by (simp add: S_def divide_le_eq)
  then have "s \<le> 2 ^ 46" using su(2) by simp
  then have "s * s \<le> 2 ^ 46 * 2 ^ 46" using su(1) by (intro mult_mono) auto
  then have "\<bar>s * s\<bar> \<le> 2 ^ 100" using su(1) by simp
  then obtain z where Fin: "fround (s * s) = Fin z" by (rule fround_finite)
  note z = fround_upper [OF Fin s13]
  have "z \<le> cc * (s * s)" by (rule z(2))
  also have "\<dots> \<le> cc * ((cc * S) * (cc * S))" using su by (intro mult_left_mono mult_mono) auto
  finally have "z \<le> cc * (cc * (cc * S ^ 2))" by (simp add: power2_eq_square mult_ac)
  from rate_check_sound [OF _ k(3) ss12 z(1) this, of b a w A] w k(2) Fin
  have "k * \<bar>b - a\<bar> / S ^ 2 \<le> rate_bound A" by (simp add: rate_bound_def)
  moreover have "57735027 / 10000000 * \<bar>b - a\<bar> / S ^ 2 \<le> k * \<bar>b - a\<bar> / S ^ 2"
    using k(2) by (intro divide_right_mono mult_right_mono) auto
  ultimately show "57735027 / 10000000 * \<bar>b - a\<bar> / S ^ 2 \<le> rate_bound A" by linarith
qed

lemma motion_bounds:
  fixes a b :: real
  assumes T: "0 < T" and t: "t0 \<le> t" "t \<le> t0 + T"
  shows "\<bar>motion_velocity t0 T a b t\<bar> \<le> 15 / 8 * \<bar>b - a\<bar> / T"
    and "\<bar>motion_acceleration t0 T a b t\<bar> \<le> 57735027 / 10000000 * \<bar>b - a\<bar> / T ^ 2"
    and "min a b \<le> motion t0 T a b t" and "motion t0 T a b t \<le> max a b"
proof -
  define u where "u = (t - t0) / T"
  have u: "0 \<le> u" "u \<le> 1" using T t by (simp_all add: u_def)
  have "\<bar>motion_velocity t0 T a b t\<bar> = \<bar>b - a\<bar> / T * \<bar>30 * u ^ 4 - 60 * u ^ 3 + 30 * u ^ 2\<bar>"
    using T by (simp add: motion_velocity_def Let_def u_def [symmetric] abs_mult)
  also have "\<dots> \<le> \<bar>b - a\<bar> / T * (15 / 8)"
    using T smootherstep_rate [OF u] by (intro mult_left_mono) auto
  finally show "\<bar>motion_velocity t0 T a b t\<bar> \<le> 15 / 8 * \<bar>b - a\<bar> / T" by (simp add: mult.commute)
  have "\<bar>motion_acceleration t0 T a b t\<bar> = \<bar>b - a\<bar> / T ^ 2 * \<bar>120 * u ^ 3 - 180 * u ^ 2 + 60 * u\<bar>"
    using T by (simp add: motion_acceleration_def Let_def u_def [symmetric] abs_mult)
  also have "\<dots> \<le> \<bar>b - a\<bar> / T ^ 2 * (57735027 / 10000000)"
    using T smootherstep_curvature [OF u] by (intro mult_left_mono) auto
  finally show "\<bar>motion_acceleration t0 T a b t\<bar> \<le> 57735027 / 10000000 * \<bar>b - a\<bar> / T ^ 2"
    by (simp add: mult.commute)
  define s where "s = smootherstep u"
  have s: "0 \<le> s" "s \<le> 1" using smootherstep_range [OF u] by (simp_all add: s_def)
  have m: "motion t0 T a b t = (1 - s) * a + s * b"
    by (simp add: motion_def u_def [symmetric] s_def [symmetric] algebra_simps)
  have "(1 - s) * min a b + s * min a b \<le> (1 - s) * a + s * b" using s by (intro add_mono mult_left_mono) auto
  then show "min a b \<le> motion t0 T a b t" unfolding m by (simp add: algebra_simps)
  have "(1 - s) * a + s * b \<le> (1 - s) * max a b + s * max a b" using s by (intro add_mono mult_left_mono) auto
  then show "motion t0 T a b t \<le> max a b" unfolding m by (simp add: algebra_simps)
qed

text \<open>What a validated trajectory satisfies point by point.\<close>

definition checked_trajectory :: "program_header \<Rightarrow> safety_policy \<Rightarrow> trajectory_point list \<Rightarrow> bool" where
  "checked_trajectory h policy ps \<longleftrightarrow>
     (\<forall>p \<in> set ps. validate_position policy p (ph_coordinate_mode h) = Inr ()) \<and>
     successively (\<lambda>p q. validate_segment policy p q = Inr ()) ps \<and>
     (ps \<noteq> [] \<longrightarrow> t_us (hd ps) = 0 \<and> \<not> (ph_coordinate_mode h = ''relative_deg'' \<and> nonzero_start (hd ps)))"

lemma validate_points_iff:
  "validate_points h ps policy whole = Inr () \<longleftrightarrow>
     ps \<noteq> [] \<and> checked_trajectory h policy ps \<and> int (length ps) \<le> max_points policy \<and>
     (\<forall>p \<in> set ps. 0 \<le> t_us p \<and> t_us p \<le> max_duration_us policy) \<and> (whole \<longrightarrow> 2 \<le> length ps)"
  by (auto simp: validate_points_def checked_trajectory_def validate_points_loop_iff)

lemma validate_segment_dt: "validate_segment policy p q = Inr () \<Longrightarrow> min_segment_us policy \<le> t_us q - t_us p"
  by (simp add: validate_segment_def Let_def)

lemma checked_segment:
  assumes "checked_trajectory h policy ps" "Suc i < length ps"
  shows "validate_segment policy (ps ! i) (ps ! Suc i) = Inr ()"
  using assms by (simp add: checked_trajectory_def successively_conv_nth)

lemma segment_rates:
  assumes seg: "validate_segment policy p q = Inr ()" and j: "j < 6"
  obtains dt_s where "int_truediv (t_us q - t_us p) 1000000 = Inr dt_s"
    "validate_joint_rates policy dt_s (q_deg p ! j, q_deg q ! j) = Inr ()" "length (q_deg p) = 6" "length (q_deg q) = 6"
proof -
  from seg obtain dt_s where d: "int_truediv (t_us q - t_us p) 1000000 = Inr dt_s"
    "forM (validate_joint_rates policy dt_s) (map snd (zip JOINTS (zip (q_deg p) (q_deg q)))) = Inr ()"
    and l: "length (q_deg p) = 6" "length (q_deg q) = 6"
    by (auto simp: validate_segment_def Let_def zip_strict_end_Inr)
  let ?zs = "zip (q_deg p) (q_deg q)"
  have "length ?zs = 6" using l by simp
  then have "map snd (zip JOINTS ?zs) = ?zs" by (intro map_snd_zip) simp
  moreover have "(q_deg p ! j, q_deg q ! j) \<in> set ?zs" using l j by (auto simp: set_zip)
  ultimately have "validate_joint_rates policy dt_s (q_deg p ! j, q_deg q ! j) = Inr ()"
    using d(2) by (simp add: forM_Inr_iff)
  with that d(1) l show thesis by blast
qed

text \<open>
  C17. Accepted trajectories keep the limits for all time, not only at their points. Take any two
  consecutive points of a trajectory that \<^verbatim>\<open>validate_points\<close> accepted and the quintic motion of a
  joint between them over the reals: at every instant its velocity and acceleration are bounded
  by the policy's limits (up to the rounding of the float check, a relative \<open>2 ^ -49\<close>), and in
  absolute mode the joint stays between its limits. The derivatives are those of the motion.
\<close>

theorem accepted_motion_within_limits:
  assumes "validate_points h ps policy whole = Inr ()"
    and "1 \<le> min_segment_us policy" "max_duration_us policy \<le> 2 ^ 64"
    and "max_velocity_deg_s policy = Fin V" "max_acceleration_deg_s2 policy = Fin A"
    and "Suc i < length ps" "j < 6" "q_deg (ps ! i) ! j = Fin a" "q_deg (ps ! Suc i) ! j = Fin b"
    and "t0 = of_int (t_us (ps ! i)) / 1000000" "T = of_int (t_us (ps ! Suc i) - t_us (ps ! i)) / 1000000"
    and "t0 \<le> t" "t \<le> t0 + T"
  shows "(motion t0 T (of_rat a) (of_rat b) has_real_derivative motion_velocity t0 T (of_rat a) (of_rat b) t) (at t)
    \<and> (motion_velocity t0 T (of_rat a) (of_rat b) has_real_derivative motion_acceleration t0 T (of_rat a) (of_rat b) t) (at t)
    \<and> \<bar>motion_velocity t0 T (of_rat a) (of_rat b) t\<bar> \<le> of_rat (rate_bound V)
    \<and> \<bar>motion_acceleration t0 T (of_rat a) (of_rat b) t\<bar> \<le> of_rat (rate_bound A)
    \<and> (ph_coordinate_mode h \<noteq> ''relative_deg'' \<and> joint_min_deg policy ! j = Fin lo \<and> joint_max_deg policy ! j = Fin hi \<longrightarrow>
        of_rat lo \<le> motion t0 T (of_rat a) (of_rat b) t \<and> motion t0 T (of_rat a) (of_rat b) t \<le> of_rat hi)"
proof -
  let ?p = "ps ! i" and ?q = "ps ! Suc i"
  define dt where "dt = t_us ?q - t_us ?p"
  define S :: rat where "S = of_int dt / 1000000"
  from assms(1) have ck: "checked_trajectory h policy ps"
    and rng: "\<And>p. p \<in> set ps \<Longrightarrow> 0 \<le> t_us p \<and> t_us p \<le> max_duration_us policy"
    by (auto simp: validate_points_iff)
  have seg: "validate_segment policy ?p ?q = Inr ()" by (rule checked_segment [OF ck assms(6)])
  have dt1: "1 \<le> dt" using validate_segment_dt [OF seg] assms(2) by (simp add: dt_def)
  have "?p \<in> set ps" "?q \<in> set ps" using assms(6) by simp_all
  then have dt2: "dt \<le> 2 ^ 64" using rng [of ?p] rng [of ?q] assms(3) by (simp add: dt_def)
  obtain dt_s where "int_truediv dt 1000000 = Inr dt_s" "validate_joint_rates policy dt_s (Fin a, Fin b) = Inr ()"
    using segment_rates [OF seg assms(7)] assms(8,9) unfolding dt_def by metis
  note rates = joint_rates_sound [OF this(2,1) dt1 dt2 assms(4,5), folded S_def]
  have TS: "T = of_rat S" unfolding S_def assms(11) dt_def [symmetric] by (simp add: of_rat_divide)
  have T0: "0 < T" using dt1 by (simp add: TS S_def)
  note mb = motion_bounds [OF T0 assms(12,13), of "of_rat a" "of_rat b"]
  have ab: "\<bar>of_rat b - of_rat a\<bar> = (of_rat \<bar>b - a\<bar> :: real)" by (simp add: of_rat_diff flip: abs_of_rat)
  have v: "15 / 8 * \<bar>of_rat b - of_rat a\<bar> / T = (of_rat (15 / 8 * \<bar>b - a\<bar> / S) :: real)"
    and acc: "57735027 / 10000000 * \<bar>of_rat b - of_rat a\<bar> / T ^ 2 = (of_rat (57735027 / 10000000 * \<bar>b - a\<bar> / S ^ 2) :: real)"
    unfolding ab by (simp_all add: TS of_rat_divide of_rat_mult of_rat_power)
  have "\<bar>motion_velocity t0 T (of_rat a) (of_rat b) t\<bar> \<le> of_rat (rate_bound V)"
    using mb(1) rates(1) unfolding v by (meson of_rat_less_eq order_trans)
  moreover have "\<bar>motion_acceleration t0 T (of_rat a) (of_rat b) t\<bar> \<le> of_rat (rate_bound A)"
    using mb(2) rates(2) unfolding acc by (meson of_rat_less_eq order_trans)
  moreover have "of_rat lo \<le> motion t0 T (of_rat a) (of_rat b) t \<and> motion t0 T (of_rat a) (of_rat b) t \<le> of_rat hi"
    if "ph_coordinate_mode h \<noteq> ''relative_deg''" "joint_min_deg policy ! j = Fin lo" "joint_max_deg policy ! j = Fin hi"
  proof -
    have "lo \<le> c \<and> c \<le> hi" if "p \<in> set ps" "q_deg p ! j = Fin c" for p c
      using validate_position_absolute(2) [of policy p "ph_coordinate_mode h" j] ck \<open>ph_coordinate_mode h \<noteq> ''relative_deg''\<close>
        that \<open>j < 6\<close> \<open>joint_min_deg policy ! j = Fin lo\<close> \<open>joint_max_deg policy ! j = Fin hi\<close>
      by (auto simp: checked_trajectory_def fle_def)
    from this [OF \<open>?p \<in> set ps\<close> assms(8)] this [OF \<open>?q \<in> set ps\<close> assms(9)]
    have "of_rat lo \<le> min (of_rat a) (of_rat b :: real)" "max (of_rat a) (of_rat b :: real) \<le> of_rat hi"
      by (simp_all add: of_rat_less_eq)
    with mb(3,4) show ?thesis by linarith
  qed
  ultimately show ?thesis using motion_deriv [of T] T0 by simp
qed

section \<open>Accuracy of the interpolation\<close>

definition ee :: rat where
  "ee = 1 / 2 ^ 47"

lemma ee_bounds: "0 < ee" "ee \<le> 1 / 1000000"
  by (simp_all add: ee_def)

lemma fround_small:
  assumes "\<bar>x\<bar> \<le> 32"
  obtains y where "fround x = Fin y" "\<bar>y - x\<bar> \<le> ee"
proof -
  have "\<bar>x\<bar> \<le> 2 ^ 100" using assms by simp
  then obtain y where y: "fround x = Fin y" "\<bar>y - x\<bar> \<le> \<bar>x\<bar> / 2 ^ 53 + eta" by (rule fround_finite)
  note y(2)
  also have "\<bar>x\<bar> / 2 ^ 53 + eta \<le> 32 / 2 ^ 53 + 1 / 2 ^ 200"
    using assms eta_small by (intro add_mono divide_right_mono) auto
  also have "\<dots> \<le> ee" by (simp add: ee_def)
  finally show thesis using that y(1) by blast
qed

lemma abs_diff_chain: "\<bar>y - x\<bar> \<le> e \<Longrightarrow> \<bar>x - z\<bar> \<le> f \<Longrightarrow> \<bar>y - z\<bar> \<le> e + (f :: rat)"
  by linarith

lemma abs_prod_diff:
  fixes x y :: rat
  assumes "\<bar>x - x'\<bar> \<le> e" "\<bar>y - y'\<bar> \<le> f" "\<bar>y\<bar> \<le> Y" "\<bar>x'\<bar> \<le> X"
  shows "\<bar>x * y - x' * y'\<bar> \<le> e * Y + X * f"
proof -
  have "x * y - x' * y' = (x - x') * y + x' * (y - y')" by (simp add: algebra_simps)
  then have "\<bar>x * y - x' * y'\<bar> \<le> \<bar>(x - x') * y\<bar> + \<bar>x' * (y - y')\<bar>" by (metis abs_triangle_ineq)
  also have "\<dots> \<le> e * Y + X * f"
    unfolding abs_mult using assms by (intro add_mono mult_mono) auto
  finally show ?thesis .
qed

definition ss :: "rat \<Rightarrow> rat" where
  "ss u = 6 * u ^ 5 - 15 * u ^ 4 + 10 * u ^ 3"

lemma ss_factored: "ss u = u * u * u * (10 + u * (-15 + 6 * u))"
  by (simp add: ss_def algebra_simps numeral_eq_Suc)

lemma of_rat_ss: "of_rat (ss u) = smootherstep (of_rat u)"
  by (simp add: ss_def smootherstep_def of_rat_add of_rat_diff of_rat_mult of_rat_power)

lemma quintic_blend_at_float:
  assumes u: "- ee \<le> u" "u \<le> 1 + ee"
  obtains w where "quintic_blend (Fin u) = Fin w" "\<bar>w - ss u\<bar> \<le> 108 * ee"
proof -
  note e = ee_bounds
  have au: "\<bar>u\<bar> \<le> 1001 / 1000" using u e by simp
  obtain t1 where t1: "fround (6 * u) = Fin t1" "\<bar>t1 - 6 * u\<bar> \<le> ee"
    by (rule fround_small [of "6 * u"]) (use au in \<open>auto simp: abs_mult\<close>)
  have t1b: "\<bar>t1\<bar> \<le> 7" using t1(2) au e by linarith
  obtain t2 where t2: "fround (- 15 + t1) = Fin t2" "\<bar>t2 - (- 15 + t1)\<bar> \<le> ee"
    by (rule fround_small [of "- 15 + t1"]) (use t1b in linarith)
  have t2e: "\<bar>t2 - (- 15 + 6 * u)\<bar> \<le> 2 * ee" using t1(2) t2(2) by linarith
  have t2b: "\<bar>t2\<bar> \<le> 22" using t2e au e by linarith
  have "\<bar>u * t2\<bar> \<le> 1001 / 1000 * 22" unfolding abs_mult using au t2b by (intro mult_mono) auto
  then have ut: "\<bar>u * t2\<bar> \<le> 32" by linarith
  obtain t3 where t3: "fround (u * t2) = Fin t3" "\<bar>t3 - u * t2\<bar> \<le> ee" by (rule fround_small [OF ut])
  have "\<bar>u * t2 - u * (- 15 + 6 * u)\<bar> \<le> 0 * 22 + 1001 / 1000 * (2 * ee)"
    by (rule abs_prod_diff) (use t2e t2b au in simp_all)
  then have t3e: "\<bar>t3 - u * (- 15 + 6 * u)\<bar> \<le> 4 * ee" using t3(2) e by linarith
  define P where "P = 10 + u * (- 15 + 6 * u)"
  have "\<bar>- 15 + 6 * u\<bar> \<le> 1501 / 100" using u e by linarith
  then have m: "\<bar>u * (- 15 + 6 * u)\<bar> \<le> 1001 / 1000 * (1501 / 100)"
    unfolding abs_mult using au by (intro mult_mono) auto
  then have "\<bar>10 + t3\<bar> \<le> 32" using t3e e by linarith
  then obtain t4 where t4: "fround (10 + t3) = Fin t4" "\<bar>t4 - (10 + t3)\<bar> \<le> ee" by (rule fround_small)
  have t4e: "\<bar>t4 - P\<bar> \<le> 5 * ee" using t3e t4(2) unfolding P_def by linarith
  have t4b: "\<bar>t4\<bar> \<le> 26" using t4e m e unfolding P_def by linarith
  have uu: "\<bar>u * u\<bar> \<le> 1001 / 1000 * (1001 / 1000)" unfolding abs_mult using au by (intro mult_mono) auto
  then have "\<bar>u * u\<bar> \<le> 32" by linarith
  then obtain v1 where v1: "fround (u * u) = Fin v1" "\<bar>v1 - u * u\<bar> \<le> ee" by (rule fround_small)
  have v1b: "\<bar>v1\<bar> \<le> 1003 / 1000" using v1(2) uu e by linarith
  have "\<bar>v1 * u\<bar> \<le> 1003 / 1000 * (1001 / 1000)" unfolding abs_mult using v1b au by (intro mult_mono) auto
  then have vb: "\<bar>v1 * u\<bar> \<le> 1005 / 1000" by linarith
  then have "\<bar>v1 * u\<bar> \<le> 32" by linarith
  then obtain v2 where v2: "fround (v1 * u) = Fin v2" "\<bar>v2 - v1 * u\<bar> \<le> ee" by (rule fround_small)
  have "\<bar>v1 * u - u * u * u\<bar> \<le> ee * (1001 / 1000) + 32 * 0"
    by (rule abs_prod_diff) (use v1(2) au \<open>\<bar>u * u\<bar> \<le> 32\<close> in simp_all)
  then have v2e: "\<bar>v2 - u * u * u\<bar> \<le> 3 * ee" using v2(2) e by linarith
  have v2b: "\<bar>v2\<bar> \<le> 1006 / 1000" using v2(2) vb e by linarith
  have vt: "\<bar>v2 * t4\<bar> \<le> 1006 / 1000 * 26" unfolding abs_mult using v2b t4b by (intro mult_mono) auto
  then have "\<bar>v2 * t4\<bar> \<le> 32" by linarith
  then obtain w where w: "fround (v2 * t4) = Fin w" "\<bar>w - v2 * t4\<bar> \<le> ee" by (rule fround_small)
  have uuu: "\<bar>u * u * u\<bar> \<le> 2" using v2e v2b e by linarith
  have "\<bar>v2 * t4 - u * u * u * P\<bar> \<le> (3 * ee) * 26 + 2 * (5 * ee)"
    by (rule abs_prod_diff [OF v2e t4e t4b uuu])
  then have "\<bar>w - ss u\<bar> \<le> 108 * ee" using w(2) e unfolding ss_factored P_def by linarith
  moreover have "quintic_blend (Fin u) = Fin w"
    by (simp only: quintic_blend_def fmul.simps(1) fadd.simps(1) t1(1) t2(1) t3(1) t4(1) v1(1) v2(1) w(1))
  ultimately show thesis using that by blast
qed

lemma ss_lipschitz:
  assumes "\<bar>u\<bar> \<le> 1001 / 1000" "\<bar>v\<bar> \<le> 1001 / 1000"
  shows "\<bar>ss u - ss v\<bar> \<le> 240 * \<bar>u - v\<bar>"
proof -
  have pw: "\<bar>u ^ n - v ^ n\<bar> \<le> of_nat n * 2 * \<bar>u - v\<bar>" if "n \<le> 5" for n
    using that
  proof (induction n)
    case (Suc n)
    have "(1001 / 1000 :: rat) ^ n \<le> (1001 / 1000) ^ 5" using Suc.prems by (intro power_increasing) auto
    also have "\<dots> \<le> 101 / 100" by (simp add: power_divide)
    finally have p: "\<bar>u\<bar> ^ n \<le> 101 / 100" using power_mono [OF assms(1), of n] by simp
    have "u ^ Suc n - v ^ Suc n = u ^ n * (u - v) + (u ^ n - v ^ n) * v" by (simp add: algebra_simps)
    then have "\<bar>u ^ Suc n - v ^ Suc n\<bar> \<le> \<bar>u ^ n * (u - v)\<bar> + \<bar>(u ^ n - v ^ n) * v\<bar>" by (metis abs_triangle_ineq)
    also have "\<dots> \<le> 101 / 100 * \<bar>u - v\<bar> + (of_nat n * 2 * \<bar>u - v\<bar>) * (1001 / 1000)"
      unfolding abs_mult power_abs using p Suc.IH Suc.prems assms(2)
      by (intro add_mono mult_mono) (auto simp flip: power_abs)
    also have "\<dots> = (101 / 100 + of_nat n * (2002 / 1000)) * \<bar>u - v\<bar>" by (simp add: algebra_simps)
    also have "\<dots> \<le> (of_nat (Suc n) * 2) * \<bar>u - v\<bar>"
      using Suc.prems by (intro mult_right_mono) auto
    finally show ?case .
  qed simp
  have "ss u - ss v = 6 * (u ^ 5 - v ^ 5) - 15 * (u ^ 4 - v ^ 4) + 10 * (u ^ 3 - v ^ 3)"
    by (simp add: ss_def algebra_simps)
  moreover have "\<bar>6 * x - 15 * y + 10 * z\<bar> \<le> 6 * \<bar>x\<bar> + 15 * \<bar>y\<bar> + 10 * \<bar>z\<bar>" for x y z :: rat
    by (simp add: abs_if)
  ultimately have "\<bar>ss u - ss v\<bar> \<le> 6 * \<bar>u ^ 5 - v ^ 5\<bar> + 15 * \<bar>u ^ 4 - v ^ 4\<bar> + 10 * \<bar>u ^ 3 - v ^ 3\<bar>" by metis
  with pw [of 5] pw [of 4] pw [of 3] show ?thesis by simp
qed

lemma blend_accurate:
  assumes u0: "0 \<le> u0" "u0 \<le> 1"
  obtains u w where "fround u0 = Fin u" "quintic_blend (Fin u) = Fin w" "\<bar>w - ss u0\<bar> \<le> 1 / 2 ^ 40"
proof -
  have "\<bar>u0\<bar> \<le> 2 ^ 100" using u0 by simp
  then obtain u where u: "fround u0 = Fin u" "\<bar>u - u0\<bar> \<le> \<bar>u0\<bar> / 2 ^ 53 + eta" by (rule fround_finite)
  note u(2)
  also have "\<bar>u0\<bar> / 2 ^ 53 + eta \<le> 1 / 2 ^ 53 + 1 / 2 ^ 200"
    using u0 eta_small by (intro add_mono divide_right_mono) auto
  also have "\<dots> \<le> ee / 32" by (simp add: ee_def)
  finally have d: "\<bar>u - u0\<bar> \<le> ee / 32" .
  have b: "- ee \<le> u" "u \<le> 1 + ee" using d u0 ee_bounds by linarith+
  obtain w where w: "quintic_blend (Fin u) = Fin w" "\<bar>w - ss u\<bar> \<le> 108 * ee" by (rule quintic_blend_at_float [OF b])
  have "\<bar>ss u - ss u0\<bar> \<le> 240 * \<bar>u - u0\<bar>"
    by (rule ss_lipschitz) (use b u0 ee_bounds in linarith)+
  also have "\<dots> \<le> 240 * (ee / 32)" using d by (rule mult_left_mono) simp
  also have "\<dots> \<le> 8 * ee" using ee_bounds(1) by simp
  finally have "\<bar>w - ss u0\<bar> \<le> 128 * ee" using w(2) ee_bounds(1) by linarith
  also have "\<dots> = 1 / 2 ^ 40" by (simp add: ee_def)
  finally show thesis using that u(1) w(1) by blast
qed

lemma fround_scaled:
  assumes "\<bar>x\<bar> \<le> 16 * B" "1 \<le> B" "B \<le> 2 ^ 60"
  obtains y where "fround x = Fin y" "\<bar>y - x\<bar> \<le> B / 2 ^ 48"
proof -
  have "\<bar>x\<bar> \<le> 2 ^ 100" using assms(1,3) by simp
  then obtain y where y: "fround x = Fin y" "\<bar>y - x\<bar> \<le> \<bar>x\<bar> / 2 ^ 53 + eta" by (rule fround_finite)
  have "\<bar>x\<bar> / 2 ^ 53 \<le> 16 * B / 2 ^ 53" using assms(1) by (intro divide_right_mono) auto
  moreover have "eta \<le> B / 2 ^ 53" using eta_small assms(2) by simp
  ultimately have "\<bar>x\<bar> / 2 ^ 53 + eta \<le> B / 2 ^ 48" using assms(2) by simp
  then show thesis using that y by (meson order_trans)
qed

lemma blended_accurate:
  assumes w: "\<bar>w - s\<bar> \<le> 1 / 2 ^ 40" and s: "0 \<le> s" "s \<le> 1"
    and B: "\<bar>a\<bar> \<le> B" "\<bar>b\<bar> \<le> B" "1 \<le> B" "B \<le> 2 ^ 60"
  obtains c where "fadd (Fin a) (fmul (fsub (Fin b) (Fin a)) (Fin w)) = Fin c"
    "\<bar>c - (a + (b - a) * s)\<bar> \<le> B / 2 ^ 37"
proof -
  have ba: "\<bar>b - a\<bar> \<le> 2 * B" using B(1,2) by linarith
  then have "\<bar>b - a\<bar> \<le> 16 * B" using B(3) by linarith
  then obtain d where d: "fround (b - a) = Fin d" "\<bar>d - (b - a)\<bar> \<le> B / 2 ^ 48"
    by (rule fround_scaled) (use B in auto)
  have "\<bar>w - s\<bar> \<le> 1" by (rule order_trans [OF w]) simp
  then have wb: "\<bar>w\<bar> \<le> 2" using s by linarith
  have "B / 2 ^ 48 \<le> B" using B(3) by simp
  then have "\<bar>d - (b - a)\<bar> \<le> B" using d(2) by linarith
  then have db: "\<bar>d\<bar> \<le> 3 * B" using ba by linarith
  have dw: "\<bar>d * w\<bar> \<le> 3 * B * 2" unfolding abs_mult using db wb B(3) by (intro mult_mono) auto
  then have "\<bar>d * w\<bar> \<le> 16 * B" using B(3) by linarith
  then obtain m where m: "fround (d * w) = Fin m" "\<bar>m - d * w\<bar> \<le> B / 2 ^ 48"
    by (rule fround_scaled) (use B in auto)
  have "\<bar>d * w - (b - a) * s\<bar> \<le> B / 2 ^ 48 * 2 + 2 * B * (1 / 2 ^ 40)"
    by (rule abs_prod_diff [OF d(2) w wb ba])
  also have "2 * B * (1 / 2 ^ 40) = B / 2 ^ 39" by simp
  finally have "\<bar>m - (b - a) * s\<bar> \<le> B / 2 ^ 48 + (B / 2 ^ 48 * 2 + B / 2 ^ 39)" by (rule abs_diff_chain [OF m(2)])
  then have me: "\<bar>(a + m) - (a + (b - a) * s)\<bar> \<le> B / 2 ^ 48 * 3 + B / 2 ^ 39" by simp
  have "\<bar>m - d * w\<bar> \<le> B" using m(2) \<open>B / 2 ^ 48 \<le> B\<close> by linarith
  then have "\<bar>a + m\<bar> \<le> 16 * B" using dw B(1,3) by linarith
  then obtain c where c: "fround (a + m) = Fin c" "\<bar>c - (a + m)\<bar> \<le> B / 2 ^ 48"
    by (rule fround_scaled) (use B in auto)
  have "\<bar>c - (a + (b - a) * s)\<bar> \<le> B / 2 ^ 48 + (B / 2 ^ 48 * 3 + B / 2 ^ 39)" by (rule abs_diff_chain [OF c(2) me])
  also have "\<dots> \<le> B / 2 ^ 37" using B(3) by simp
  finally show thesis using that c(1) m(1) d(1) by (simp add: fsub_def)
qed

lemma ss_range: "0 \<le> u \<Longrightarrow> u \<le> 1 \<Longrightarrow> 0 \<le> ss u \<and> ss u \<le> 1"
  using smootherstep_range [of "of_rat u"] by (simp flip: of_rat_ss)

lemma ss_hull:
  assumes "0 \<le> u" "u \<le> 1"
  shows "min a b \<le> a + (b - a) * ss u" "a + (b - a) * ss u \<le> max a b"
proof -
  have e: "a + (b - a) * ss u = (1 - ss u) * a + ss u * b" by (simp add: algebra_simps)
  have "(1 - ss u) * min a b + ss u * min a b \<le> (1 - ss u) * a + ss u * b"
    "(1 - ss u) * a + ss u * b \<le> (1 - ss u) * max a b + ss u * max a b"
    using ss_range [OF assms] by (intro add_mono mult_left_mono; simp)+
  then show "min a b \<le> a + (b - a) * ss u" "a + (b - a) * ss u \<le> max a b"
    unfolding e by (simp_all add: algebra_simps)
qed

text \<open>Both end points hold numbers of magnitude at most \<open>B\<close> for every joint.\<close>

definition bounded_pair :: "rat \<Rightarrow> trajectory_point \<Rightarrow> trajectory_point \<Rightarrow> bool" where
  "bounded_pair B p q \<longleftrightarrow> length (q_deg p) = length (q_deg q) \<and>
     (\<forall>i < length (q_deg p). \<exists>a b. q_deg p ! i = Fin a \<and> q_deg q ! i = Fin b \<and> \<bar>a\<bar> \<le> B \<and> \<bar>b\<bar> \<le> B)"

lemma interpolate_rational:
  assumes "t_us p < t_us q" "t_us p \<le> t" "t \<le> t_us q" "bounded_pair B p q" "1 \<le> B" "B \<le> 2 ^ 60"
  defines "u0 \<equiv> of_int (t - t_us p) / of_int (t_us q - t_us p) :: rat"
  shows "\<exists>qs. interpolate_quintic p q t = Inr qs \<and> length qs = length (q_deg p) \<and>
    (\<forall>i < length qs. \<exists>a b c. q_deg p ! i = Fin a \<and> q_deg q ! i = Fin b \<and> qs ! i = Fin c \<and>
       \<bar>c - (a + (b - a) * ss u0)\<bar> \<le> B / 2 ^ 37)"
proof -
  have T: "0 < t_us q - t_us p" using assms(1) by simp
  have u0: "0 \<le> u0" "u0 \<le> 1" using assms(2,3) T by (simp_all add: u0_def divide_le_eq)
  note bp = assms(4) [unfolded bounded_pair_def]
  consider "t = t_us p" | "t = t_us q" | "t_us p < t" "t < t_us q" using assms(2,3) by linarith
  then show ?thesis
  proof cases
    case 1
    then have "ss u0 = 0" by (simp add: u0_def ss_def)
    with 1 bp assms(5) show ?thesis by (fastforce simp: interpolate_quintic_def)
  next
    case 2
    then have "ss u0 = 1" using T by (simp add: u0_def ss_def)
    with 2 bp assms show ?thesis by (fastforce simp: interpolate_quintic_def)
  next
    case 3
    obtain u w where w: "fround u0 = Fin u" "quintic_blend (Fin u) = Fin w" "\<bar>w - ss u0\<bar> \<le> 1 / 2 ^ 40"
      by (rule blend_accurate [OF u0])
    have "int_truediv (t - t_us p) (t_us q - t_us p) = Inr (Fin u)"
      using T w(1) by (simp add: int_truediv_def u0_def)
    with 3 bp have res: "interpolate_quintic p q t =
        Inr (map (\<lambda>(a, b). fadd a (fmul (fsub b a) (Fin w))) (zip (q_deg p) (q_deg q)))"
      by (simp add: interpolate_quintic_def w(2) Let_def zip_strict_end_Inr)
    have "\<exists>a b c. q_deg p ! i = Fin a \<and> q_deg q ! i = Fin b \<and>
        fadd (q_deg p ! i) (fmul (fsub (q_deg q ! i) (q_deg p ! i)) (Fin w)) = Fin c \<and>
        \<bar>c - (a + (b - a) * ss u0)\<bar> \<le> B / 2 ^ 37" if i: "i < length (q_deg p)" for i
    proof -
      obtain a b where ab: "q_deg p ! i = Fin a" "q_deg q ! i = Fin b" "\<bar>a\<bar> \<le> B" "\<bar>b\<bar> \<le> B"
        using bp i by blast
      show ?thesis
        by (rule blended_accurate [OF w(3) _ _ ab(3,4) assms(5,6)]) (use ab ss_range [OF u0] in auto)
    qed
    then show ?thesis unfolding res using bp by auto
  qed
qed

text \<open>
  C18. Interpolation is accurate. Between two points in increasing time order,
  \<^verbatim>\<open>interpolate_quintic\<close> returns a value for every joint, and in IEEE arithmetic it differs from
  the exact quintic motion at that time by at most \<open>B / 2 ^ 37\<close> where \<open>B\<close> bounds the two end values;
  so a commanded target leaves the interval between its two end points by no more than that
  (below \<open>10 ^ -9\<close> degrees for the limits of the default policy).
\<close>

theorem interpolation_accurate:
  assumes "t_us p < t_us q" "t_us p \<le> t" "t \<le> t_us q" "bounded_pair B p q" "1 \<le> B" "B \<le> 2 ^ 60"
  shows "\<exists>qs. interpolate_quintic p q t = Inr qs \<and> length qs = length (q_deg p) \<and>
    (\<forall>i < length qs. \<exists>a b c. q_deg p ! i = Fin a \<and> q_deg q ! i = Fin b \<and> qs ! i = Fin c \<and>
       \<bar>of_rat c - motion (of_int (t_us p)) (of_int (t_us q - t_us p)) (of_rat a) (of_rat b) (of_int t)\<bar> \<le> of_rat (B / 2 ^ 37) \<and>
       min a b - B / 2 ^ 37 \<le> c \<and> c \<le> max a b + B / 2 ^ 37)"
proof -
  define u0 :: rat where "u0 = of_int (t - t_us p) / of_int (t_us q - t_us p)"
  have u0: "0 \<le> u0" "u0 \<le> 1" using assms(1-3) by (simp_all add: u0_def divide_le_eq)
  have u0r: "(of_int t - of_int (t_us p)) / (of_int (t_us q - t_us p) :: real) = of_rat u0"
    by (simp add: u0_def of_rat_divide of_rat_diff)
  have mot: "motion (of_int (t_us p)) (of_int (t_us q - t_us p)) (of_rat a) (of_rat b) (of_int t)
      = of_rat (a + (b - a) * ss u0)" for a b
    unfolding motion_def u0r by (simp add: of_rat_ss of_rat_add of_rat_mult of_rat_diff)
  from interpolate_rational [OF assms] obtain qs where qs: "interpolate_quintic p q t = Inr qs" "length qs = length (q_deg p)"
    "\<And>i. i < length qs \<Longrightarrow> \<exists>a b c. q_deg p ! i = Fin a \<and> q_deg q ! i = Fin b \<and> qs ! i = Fin c \<and>
       \<bar>c - (a + (b - a) * ss u0)\<bar> \<le> B / 2 ^ 37" unfolding u0_def by blast
  have "\<exists>a b c. q_deg p ! i = Fin a \<and> q_deg q ! i = Fin b \<and> qs ! i = Fin c \<and>
       \<bar>of_rat c - motion (of_int (t_us p)) (of_int (t_us q - t_us p)) (of_rat a) (of_rat b) (of_int t)\<bar> \<le> of_rat (B / 2 ^ 37) \<and>
       min a b - B / 2 ^ 37 \<le> c \<and> c \<le> max a b + B / 2 ^ 37" if i: "i < length qs" for i
  proof -
    from qs(3) [OF i] obtain a b c where abc: "q_deg p ! i = Fin a" "q_deg q ! i = Fin b" "qs ! i = Fin c"
      and err: "\<bar>c - (a + (b - a) * ss u0)\<bar> \<le> B / 2 ^ 37" by blast
    have "min a b - B / 2 ^ 37 \<le> c" "c \<le> max a b + B / 2 ^ 37"
      using err ss_hull [OF u0, of a b] by linarith+
    moreover have "\<bar>of_rat c - of_rat (a + (b - a) * ss u0)\<bar> \<le> (of_rat (B / 2 ^ 37) :: real)"
      using err by (metis abs_of_rat of_rat_diff of_rat_less_eq)
    ultimately show ?thesis using abc unfolding mot by blast
  qed
  with qs(1,2) show ?thesis by blast
qed

section \<open>Records\<close>

lemma header_from_record_Inr:
  assumes "header_from_record E rec = Inr h"
  shows "ph_coordinate_mode h \<in> set COORDINATE_MODES" "ph_program_id h \<noteq> []" "length (ph_program_id h) \<le> 128"
    "ph_interpolation h = ''quintic_stop''" "ph_model h = ''so101-follower''"
  using assms by (auto simp: header_from_record_def Let_def)

lemma header_reparse:
  assumes "ph_coordinate_mode h \<in> set COORDINATE_MODES" "ph_program_id h \<noteq> []" "length (ph_program_id h) \<le> 128"
    "ph_interpolation h = ''quintic_stop''" "ph_model h = ''so101-follower''"
  shows "header_from_record E (the_dict (header_record h)) = Inr h"
  using assms
  by (auto simp: header_from_record_def header_record_def mkdict_def exact_keys_def keys_def dget_or_def py_iter_def
      py_eq_tuple list_all2_same py_str_def)

lemma point_from_record_Inr:
  assumes "point_from_record E rec = Inr p"
  shows "length (q_deg p) = 6" "list_all isfinite (q_deg p)"
  using assms by (cases "dget_or rec ''t_us'' PNone"; auto simp: point_from_record_def)+

lemma point_reparse:
  assumes "length (q_deg p) = 6" "list_all isfinite (q_deg p)"
  shows "point_from_record E (the_dict (point_record p)) = Inr p"
proof -
  have "mapM (py_float E) (map PFloat q) = Inr q" for q
    by (induction q) (auto simp: py_float_def)
  with assms show ?thesis
    by (auto simp: point_from_record_def point_record_def mkdict_def exact_keys_def keys_def dget_or_def py_iter_def)
qed

text \<open>
  Loading a program file. A program that \<^verbatim>\<open>load_program\<close> returns passes the complete
  validation, has six finite joint values in every point, and its canonical records, which the
  digests are computed from, parse back to exactly this header and these points.
\<close>

theorem loaded_program_reparses:
  assumes "load_program E ls policy = Inr (h, ps)"
  shows "validate_points h ps policy True = Inr () \<and>
    (\<forall>p \<in> set ps. length (q_deg p) = 6 \<and> list_all isfinite (q_deg p)) \<and>
    header_from_record E (the_dict (header_record h)) = Inr h \<and>
    mapM (\<lambda>p. point_from_record E (the_dict (point_record p))) ps = Inr ps"
proof -
  from assms obtain recs where r: "header_from_record E (hd recs) = Inr h"
    "mapM (point_from_record E) (tl recs) = Inr ps" "validate_points h ps policy True = Inr ()"
    by (auto simp: load_program_def)
  have pts: "length (q_deg p) = 6 \<and> list_all isfinite (q_deg p)" if mem: "p \<in> set ps" for p
  proof -
    obtain rec where "point_from_record E rec = Inr p"
      using r(2) mem by (auto simp: mapM_Inr_iff in_set_conv_nth list_all2_conv_all_nth)
    then show ?thesis using point_from_record_Inr by blast
  qed
  have "mapM (\<lambda>p. point_from_record E (the_dict (point_record p))) ps = Inr (map (\<lambda>p. p) ps)"
    by (rule mapM_Inr_all) (use pts point_reparse in blast)
  with r pts header_reparse [OF header_from_record_Inr [OF r(1)]] show ?thesis by simp
qed

section \<open>Instances\<close>

definition demo_header :: program_header where
  "demo_header = \<lparr>ph_program_id = ''demo'', ph_coordinate_mode = ''absolute_deg'',
     ph_interpolation = ''quintic_stop'', ph_model = ''so101-follower''\<rparr>"

definition demo_points :: "trajectory_point list" where
  "demo_points = [\<lparr>t_us = 0, q_deg = replicate 6 (Fin 0)\<rparr>, \<lparr>t_us = 1000000, q_deg = replicate 6 (Fin 10)\<rparr>]"

lemma demo_valid: "validate_points demo_header demo_points SafetyPolicy True = Inr ()"
  by code_simp

theorem accepted_motion_within_limits_witness:
  "\<bar>motion_velocity 0 1 0 10 (1 / 2)\<bar> \<le> of_rat (rate_bound 30)
   \<and> \<bar>motion_acceleration 0 1 0 10 (1 / 2)\<bar> \<le> of_rat (rate_bound 120)
   \<and> of_rat (- 100) \<le> motion 0 1 0 10 (1 / 2) \<and> motion 0 1 0 10 (1 / 2) \<le> of_rat 100"
  using accepted_motion_within_limits [OF demo_valid, of 30 120 0 0 0 10 0 1 "1 / 2" "- 100" 100]
  by (simp add: demo_points_def demo_header_def SafetyPolicy_def)

theorem interpolation_accurate_witness:
  "\<exists>qs. interpolate_quintic (demo_points ! 0) (demo_points ! 1) 250000 = Inr qs \<and> length qs = 6 \<and>
     (\<forall>i < 6. \<exists>c. qs ! i = Fin c \<and> 0 - 10 / 2 ^ 37 \<le> c \<and> c \<le> 10 + 10 / 2 ^ 37)"
proof -
  have b: "bounded_pair 10 (demo_points ! 0) (demo_points ! 1)"
    by (simp add: bounded_pair_def demo_points_def)
  have "t_us (demo_points ! 0) < t_us (demo_points ! 1)" "t_us (demo_points ! 0) \<le> 250000" "250000 \<le> t_us (demo_points ! 1)"
    by (simp_all add: demo_points_def)
  from interpolation_accurate [OF this b] show ?thesis
    by (fastforce simp: demo_points_def)
qed

definition demo_json :: pyenv where
  "demo_json = \<lparr>cbor_dumps = (\<lambda>v. Inl TypeError), cbor_loads = (\<lambda>b. Inl ValueError), sha256 = (\<lambda>b. []),
     json_dumps = (\<lambda>v. []),
     json_loads = (\<lambda>s. if s = ''header'' then Inr (header_record demo_header)
       else if s = ''first'' then Inr (point_record (demo_points ! 0))
       else if s = ''second'' then Inr (point_record (demo_points ! 1)) else Inl ValueError),
     py_repr = (\<lambda>v. []), float_of_str = (\<lambda>s. Inl ValueError)\<rparr>"

theorem loaded_program_reparses_witness:
  "mapM (\<lambda>p. point_from_record demo_json (the_dict (point_record p))) demo_points = Inr demo_points"
proof -
  have "load_program demo_json [''# comment'', ''header'', ''first'', '' '', ''second''] SafetyPolicy = Inr (demo_header, demo_points)"
    by code_simp
  from loaded_program_reparses [OF this] show ?thesis by blast
qed

end
