(* ===== verification/Server.thy ===== *)
theory Server
  imports Protocol "HOL-Library.Mapping" "HOL-Library.AList_Mapping"
begin

text \<open>
  The v1 trajectory server: \<^verbatim>\<open>robot_server.py\<close>. A \<^verbatim>\<open>ProgramRun\<close> is a record; every method that runs
  under the run's lock is one function on it. The motor thread \<^verbatim>\<open>_execute\<close> is cut at the points
  where other threads can interleave, one function per piece, with the clock readings and the
  motor bus's replies as arguments. The calls made on the motor backend and the events emitted
  are recorded in the order they happen.
\<close>

section \<open>The state of a run\<close>

datatype run_state = Buffering | Arming | Running | Completed | Stopped | Faulted

definition TERMINAL_STATES :: "run_state list" where
  "TERMINAL_STATES = [Completed, Stopped, Faulted]"

definition GRIPPER_INDEX :: nat where
  "GRIPPER_INDEX = 5"

definition BODY_INDICES :: "nat list" where
  "BODY_INDICES = [0, 1, 2, 3, 4]"

record chunk_receipt =
  cr_chunk_seq :: int
  cr_accepted_until_us :: int
  cr_execution_cursor_us :: int
  cr_queued_ahead_us :: int
  cr_available_horizon_us :: int
  cr_final :: bool

record run_snapshot =
  sn_state :: run_state
  sn_final_received :: bool
  sn_expected_chunk_seq :: int
  sn_execution_cursor_us :: int
  sn_accepted_until_us :: int
  sn_queued_ahead_us :: int
  sn_available_horizon_us :: int
  sn_measured_q_deg :: "pyfloat list option"
  sn_target_q_deg :: "pyfloat list option"

text \<open>
  Calls on the motor backend. \<open>MSend\<close> is the \<^verbatim>\<open>send_q\<close> of the control loop, \<open>MHold\<close> the \<^verbatim>\<open>send_q\<close> with
  which \<^verbatim>\<open>_hold_then_close\<close> commands the measured pose.
\<close>

datatype motor_call = MPrepare | MEnable "pyfloat list" | MSend "pyfloat list" | MHold "pyfloat list" | MClose

datatype run_event =
    EvRunState run_snapshot
  | EvTelemetry run_snapshot pyfloat pyfloat bool
  | EvFault string
  | EvFinished run_snapshot run_state "string option"

text \<open>
  Where the motor thread is. \<open>TMove\<close> carries the loop's time stamp, \<open>TRecord\<close> also the cursor, the
  measured and the commanded pose of the iteration, \<open>TClosing\<close> the outcome the thread ends with.
\<close>

datatype thread_pc =
    TNone | TPrepare | TEnable "pyfloat list" | TRun | TTop | TWatch pyfloat | TMove pyfloat
  | TRecord pyfloat int "pyfloat list" "pyfloat list"
  | TClosing run_state "string option" | TFinish run_state "string option" | TDone

record exec_thread =
  pc :: thread_pc
  started :: pyfloat
  next_tick :: pyfloat
  last_telemetry :: pyfloat
  segment_index :: nat
  tracking_violations :: nat

record program_run =
  run_id :: string
  header :: program_header
  run_mode :: string
  expected_digest :: string
  disconnect_policy :: string
  policy :: safety_policy
  control_hz :: pyfloat
  telemetry_hz :: pyfloat
  heartbeat_timeout_s :: pyfloat
  hold_after_run_s :: pyfloat
  points :: "trajectory_point list"
  chunk_receipts :: "(int, string \<times> chunk_receipt) mapping"
  expected_chunk_seq :: int
  final_received :: bool
  state :: run_state
  cursor_us :: int
  last_heartbeat :: pyfloat
  origin_q :: "pyfloat list option"
  measured_q :: "pyfloat list option"
  target_q :: "pyfloat list option"
  stop_event :: bool
  backend :: bool
  torque_enabled :: bool
  terminal_event :: bool
  thread :: exec_thread
  calls :: "motor_call list"
  emitted :: "run_event list"

definition idle_thread :: exec_thread where
  "idle_thread = \<lparr>pc = TNone, started = Fin 0, next_tick = Fin 0, last_telemetry = NInf,
     segment_index = 0, tracking_violations = 0\<rparr>"

definition ProgramRun :: "string \<Rightarrow> program_header \<Rightarrow> string \<Rightarrow> string \<Rightarrow> string \<Rightarrow> safety_policy \<Rightarrow> pyfloat \<Rightarrow> pyfloat
    \<Rightarrow> pyfloat \<Rightarrow> pyfloat \<Rightarrow> pyfloat \<Rightarrow> program_run" where
  "ProgramRun rid h mode digest disconnect pol chz thz hb hold now = \<lparr>
     run_id = rid, header = h, run_mode = mode, expected_digest = digest, disconnect_policy = disconnect,
     policy = pol, control_hz = chz, telemetry_hz = thz, heartbeat_timeout_s = hb, hold_after_run_s = hold,
     points = [], chunk_receipts = Mapping.empty, expected_chunk_seq = 0, final_received = False,
     state = Buffering, cursor_us = 0, last_heartbeat = now, origin_q = None, measured_q = None,
     target_q = None, stop_event = False, backend = False, torque_enabled = False,
     terminal_event = False, thread = idle_thread, calls = [], emitted = []\<rparr>"

section \<open>Appending a chunk\<close>

text \<open>\<^verbatim>\<open>hmac.compare_digest\<close> of two strings, which have to be ASCII.\<close>

definition compare_digest :: "string \<Rightarrow> string \<Rightarrow> bool result" where
  "compare_digest a b =
     (if \<exists>c \<in> set (a @ b). 128 \<le> (of_char c :: nat) then Inl TypeError else Inr (a = b))"

definition accepted_until :: "program_run \<Rightarrow> int" where
  "accepted_until r = (if points r = [] then 0 else t_us (last (points r)))"

definition available_horizon_us_locked :: "program_run \<Rightarrow> int" where
  "available_horizon_us_locked r =
     (let used = max 0 (accepted_until r - cursor_us r) in max 0 (max_horizon_us (policy r) - used))"

text \<open>Elementwise sum of two poses; both are checked to have one value per joint before.\<close>

definition array_add :: "pyfloat list \<Rightarrow> pyfloat list \<Rightarrow> pyfloat list result" where
  "array_add xs ys = (if length xs = length ys then Inr (map (\<lambda>(x, y). fadd x y) (zip xs ys)) else Inl ValueError)"

definition validate_resolved_position :: "program_run \<Rightarrow> trajectory_point \<Rightarrow> unit result" where
  "validate_resolved_position r p =
     (if ph_coordinate_mode (header r) \<noteq> ''relative_deg'' then Inr ()
      else case origin_q r of
        None \<Rightarrow> Inr ()
      | Some origin \<Rightarrow>
          bind (array_add origin (q_deg p)) (\<lambda>resolved.
          bind (forM (\<lambda>(i, v). within_limits (policy r) i v) (zip [0..<length JOINTS] resolved)) (\<lambda>_.
          zip_strict_end [length JOINTS, length resolved])))"

fun validate_chunk_points :: "program_run \<Rightarrow> trajectory_point option \<Rightarrow> trajectory_point list \<Rightarrow> unit result" where
  "validate_chunk_points r prev [] = Inr ()"
| "validate_chunk_points r prev (p # ps) =
     bind (case prev of
         None \<Rightarrow>
           raise_if (t_us p \<noteq> 0) (ProtocolError ''INVALID_TIME'')
           (raise_if (ph_coordinate_mode (header r) = ''relative_deg'' \<and> nonzero_start p)
             (ProtocolError ''START_STATE_MISMATCH'') (Inr ()))
       | Some q \<Rightarrow> validate_segment (policy r) q p) (\<lambda>_.
     bind (validate_position (policy r) p (ph_coordinate_mode (header r))) (\<lambda>_.
     bind (validate_resolved_position r p) (\<lambda>_.
     validate_chunk_points r (Some p) ps)))"

definition check_chunk :: "program_run \<Rightarrow> int \<Rightarrow> trajectory_point list \<Rightarrow> bool \<Rightarrow> unit result" where
  "check_chunk r chunk_seq ps final =
     raise_if (chunk_seq \<noteq> expected_chunk_seq r) (ProtocolError ''OUT_OF_ORDER'')
     (raise_if (state r \<notin> {Buffering, Running} \<or> final_received r) (ProtocolError ''RUN_STATE_CONFLICT'')
     (raise_if (ps = [] \<or> int (length ps) > max_chunk_points (policy r)) (ProtocolError ''CHUNK_SIZE'')
     (bind (validate_chunk_points r (if points r = [] then None else Some (last (points r))) ps) (\<lambda>_.
      let proposed_count = int (length (points r)) + int (length ps); proposed_end = t_us (last ps) in
      raise_if (proposed_count > max_points (policy r) \<or> proposed_end > max_duration_us (policy r))
        (ProtocolError ''RESOURCE_LIMIT'')
      (raise_if (final \<and> proposed_count < 2) (ProtocolError ''SCHEMA_INVALID'')
      (raise_if (run_mode r = ''streaming'' \<and> proposed_end - cursor_us r > max_horizon_us (policy r))
        (ProtocolError ''QUEUE_FULL'') (Inr ())))))))"

text \<open>
  The points of a final chunk are added, and taken out again when the digest of the whole program
  is wrong.
\<close>

definition commit_chunk :: "pyenv \<Rightarrow> program_run \<Rightarrow> int \<Rightarrow> trajectory_point list \<Rightarrow> bool \<Rightarrow> string
    \<Rightarrow> chunk_receipt result \<times> program_run" where
  "commit_chunk E r chunk_seq ps final actual_digest =
     (let r1 = r\<lparr>points := points r @ ps, expected_chunk_seq := expected_chunk_seq r + 1, final_received := final\<rparr>;
          r0 = r\<lparr>final_received := False\<rparr>;
          receipt = \<lparr>cr_chunk_seq = chunk_seq, cr_accepted_until_us = t_us (last ps),
                     cr_execution_cursor_us = cursor_us r, cr_queued_ahead_us = max 0 (t_us (last ps) - cursor_us r),
                     cr_available_horizon_us = available_horizon_us_locked r1, cr_final = final\<rparr>;
          r2 = r1\<lparr>chunk_receipts := Mapping.update chunk_seq (actual_digest, receipt) (chunk_receipts r1)\<rparr>
      in if final then
           (case compare_digest (program_digest E (header r) (points r1)) (expected_digest r) of
              Inl e \<Rightarrow> (Inl e, r1)
            | Inr same \<Rightarrow> if same then (Inr receipt, r2) else (Inl (ProtocolError ''HASH_MISMATCH''), r0))
         else (Inr receipt, r2))"

definition append_chunk :: "pyenv \<Rightarrow> program_run \<Rightarrow> int \<Rightarrow> trajectory_point list \<Rightarrow> bool \<Rightarrow> string
    \<Rightarrow> chunk_receipt result \<times> program_run" where
  "append_chunk E r chunk_seq ps final supplied_digest =
     (let actual_digest = chunk_digest E chunk_seq ps final in
      case bind (compare_digest supplied_digest actual_digest) (\<lambda>same.
             raise_if (\<not> same) (ProtocolError ''HASH_MISMATCH'') (Inr ())) of
        Inl e \<Rightarrow> (Inl e, r)
      | Inr _ \<Rightarrow>
          (case Mapping.lookup (chunk_receipts r) chunk_seq of
             Some (old_digest, receipt) \<Rightarrow>
               (case compare_digest old_digest actual_digest of
                  Inl e \<Rightarrow> (Inl e, r)
                | Inr same \<Rightarrow> (if same then Inr receipt else Inl (ProtocolError ''DUPLICATE_CONFLICT''), r))
           | None \<Rightarrow>
               (case check_chunk r chunk_seq ps final of
                  Inl e \<Rightarrow> (Inl e, r)
                | Inr _ \<Rightarrow> commit_chunk E r chunk_seq ps final actual_digest)))"

section \<open>The other requests\<close>

definition snapshot :: "program_run \<Rightarrow> run_snapshot" where
  "snapshot r = \<lparr>sn_state = state r, sn_final_received = final_received r,
     sn_expected_chunk_seq = expected_chunk_seq r, sn_execution_cursor_us = cursor_us r,
     sn_accepted_until_us = accepted_until r, sn_queued_ahead_us = max 0 (accepted_until r - cursor_us r),
     sn_available_horizon_us = available_horizon_us_locked r, sn_measured_q_deg = measured_q r,
     sn_target_q_deg = target_q r\<rparr>"

definition start :: "program_run \<Rightarrow> run_snapshot result \<times> program_run" where
  "start r =
     (if state r \<noteq> Buffering then (Inl (ProtocolError ''RUN_STATE_CONFLICT''), r)
      else if length (points r) < 2 then (Inl (ProtocolError ''NOT_READY''), r)
      else if run_mode r = ''sealed'' \<and> \<not> final_received r then (Inl (ProtocolError ''NOT_READY''), r)
      else if run_mode r = ''streaming'' \<and> \<not> final_received r \<and> t_us (last (points r)) < start_buffer_us (policy r)
        then (Inl (ProtocolError ''NOT_READY''), r)
      else let r' = r\<lparr>state := Arming, thread := (thread r)\<lparr>pc := TPrepare\<rparr>\<rparr> in (Inr (snapshot r'), r'))"

definition heartbeat :: "program_run \<Rightarrow> pyfloat \<Rightarrow> program_run" where
  "heartbeat r now = r\<lparr>last_heartbeat := now\<rparr>"

definition request_stop :: "program_run \<Rightarrow> program_run" where
  "request_stop r = r\<lparr>stop_event := True\<rparr>"

definition connection_lost :: "program_run \<Rightarrow> program_run" where
  "connection_lost r =
     (if state r = Buffering then r\<lparr>state := Stopped, terminal_event := True\<rparr>
      else if state r = Arming then r\<lparr>stop_event := True\<rparr>
      else r)"

section \<open>The motor thread\<close>

definition emit :: "run_event \<Rightarrow> program_run \<Rightarrow> program_run" where
  "emit ev r = r\<lparr>emitted := emitted r @ [ev]\<rparr>"

definition motor :: "motor_call \<Rightarrow> program_run \<Rightarrow> program_run" where
  "motor c r = r\<lparr>calls := calls r @ [c]\<rparr>"

definition goto :: "thread_pc \<Rightarrow> program_run \<Rightarrow> program_run" where
  "goto l r = r\<lparr>thread := (thread r)\<lparr>pc := l\<rparr>\<rparr>"

text \<open>The two exception handlers around the body of \<^verbatim>\<open>_execute\<close>.\<close>

fun outcome_of :: "exn \<Rightarrow> run_state \<times> string" where
  "outcome_of (ProtocolError c) = (if c = ''CANCELLED'' then Stopped else Faulted, c)"
| "outcome_of _ = (Faulted, ''HARDWARE_FAULT'')"

definition fail :: "exn \<Rightarrow> program_run \<Rightarrow> program_run" where
  "fail e r = (case outcome_of e of (outcome, code) \<Rightarrow>
     goto (TClosing outcome (Some code)) (emit (EvFault code) r))"

definition resolve :: "program_run \<Rightarrow> pyfloat list \<Rightarrow> pyfloat list result" where
  "resolve r q =
     (if ph_coordinate_mode (header r) = ''relative_deg'' then
        (case origin_q r of None \<Rightarrow> Inl RuntimeError | Some origin \<Rightarrow> array_add origin q)
      else Inr q)"

text \<open>
  Elementwise absolute difference of two arrays, where an array of length one is broadcast, and
  the maximum of an array, which propagates NaN.
\<close>

definition deviations :: "pyfloat list \<Rightarrow> pyfloat list \<Rightarrow> pyfloat list result" where
  "deviations xs ys =
     (if length xs = length ys then Inr (map (\<lambda>(x, y). fabs (fsub x y)) (zip xs ys))
      else if length ys = 1 then Inr (map (\<lambda>x. fabs (fsub x (hd ys))) xs)
      else if length xs = 1 then Inr (map (\<lambda>y. fabs (fsub (hd xs) y)) ys)
      else Inl ValueError)"

definition np_max :: "pyfloat list \<Rightarrow> pyfloat" where
  "np_max xs = (if NaN \<in> set xs then NaN else fold (\<lambda>x m. fmax m x) xs NInf)"

definition check_start :: "program_run \<Rightarrow> pyfloat list \<Rightarrow> unit result" where
  "check_start r measured =
     (if ph_coordinate_mode (header r) = ''absolute_deg'' then
        (case points r of
           [] \<Rightarrow> Inl IndexError
         | p # ps \<Rightarrow> bind (deviations (q_deg p) measured) (\<lambda>d.
             raise_if (flt (start_tolerance_deg (policy r)) (np_max d)) (ProtocolError ''START_STATE_MISMATCH'') (Inr ())))
      else forM (validate_resolved_position r) (points r))"

definition exec_prepare :: "program_run \<Rightarrow> unit result \<Rightarrow> pyfloat list result \<Rightarrow> program_run" where
  "exec_prepare r factory reply = (case factory of
      Inl e \<Rightarrow> fail e r
    | Inr _ \<Rightarrow>
        (let r1 = motor MPrepare (r\<lparr>backend := True\<rparr>) in
         case reply of
           Inl e \<Rightarrow> fail e r1
         | Inr measured \<Rightarrow>
             if length measured \<noteq> length JOINTS \<or> \<not> list_all isfinite measured
             then fail (ProtocolError ''HARDWARE_FAULT'') r1
             else let r2 = r1\<lparr>origin_q := Some measured, measured_q := Some measured\<rparr> in
               (case check_start r2 measured of
                  Inl e \<Rightarrow> fail e r2
                | Inr _ \<Rightarrow> goto (TEnable measured) r2)))"

definition exec_enable :: "program_run \<Rightarrow> pyfloat list \<Rightarrow> unit result \<Rightarrow> program_run" where
  "exec_enable r measured reply =
     (if stop_event r then fail (ProtocolError ''CANCELLED'') r
      else let r1 = motor (MEnable measured) r in
        case reply of
          Inl e \<Rightarrow> fail e r1
        | Inr _ \<Rightarrow> goto TRun (r1\<lparr>torque_enabled := True\<rparr>))"

definition periods :: "program_run \<Rightarrow> (pyfloat \<times> pyfloat) result" where
  "periods r = bind (fdiv (Fin 1) (control_hz r)) (\<lambda>period_s.
     bind (fdiv (Fin 1) (telemetry_hz r)) (\<lambda>telemetry_period_s. Inr (period_s, telemetry_period_s)))"

definition exec_run :: "program_run \<Rightarrow> pyfloat \<Rightarrow> program_run" where
  "exec_run r now =
     (let r1 = r\<lparr>state := Running\<rparr>; r2 = emit (EvRunState (snapshot r1)) r1 in
      case periods r2 of
        Inl e \<Rightarrow> fail e r2
      | Inr _ \<Rightarrow> r2\<lparr>thread := \<lparr>pc = TTop, started = now, next_tick = now, last_telemetry = NInf,
                            segment_index = 0, tracking_violations = 0\<rparr>\<rparr>)"

definition exec_top :: "program_run \<Rightarrow> pyfloat \<Rightarrow> program_run" where
  "exec_top r now =
     (if stop_event r then goto (TClosing Stopped (Some ''CANCELLED'')) r else goto (TWatch now) r)"

definition exec_watch :: "program_run \<Rightarrow> pyfloat \<Rightarrow> program_run" where
  "exec_watch r now =
     (let heartbeat_age = fsub now (last_heartbeat r);
          ignore_heartbeat = final_received r \<and> disconnect_policy r = ''complete_if_sealed''
      in if \<not> ignore_heartbeat \<and> flt (heartbeat_timeout_s r) heartbeat_age
         then fail (ProtocolError ''HEARTBEAT_LOST'') r else goto (TMove now) r)"

text \<open>\<^verbatim>\<open>int(x)\<close> of a float: truncation toward zero.\<close>

fun float_to_int :: "pyfloat \<Rightarrow> int result" where
  "float_to_int (Fin r) = Inr (if 0 \<le> r then \<lfloor>r\<rfloor> else \<lceil>r\<rceil>)"
| "float_to_int NaN = Inl ValueError"
| "float_to_int _ = Inl OverflowError"

function advance_segment :: "trajectory_point list \<Rightarrow> int \<Rightarrow> nat \<Rightarrow> nat" where
  "advance_segment ps cursor i =
     (if i + 1 < length ps \<and> cursor > t_us (ps ! (i + 1)) then advance_segment ps cursor (i + 1) else i)"
  by pat_completeness auto
termination
  by (relation "measure (\<lambda>(ps, cursor, i). length ps - i)") auto

declare advance_segment.simps [simp del]

text \<open>The tracking errors of an iteration and whether they exceed the policy.\<close>

definition tracking :: "program_run \<Rightarrow> pyfloat list \<Rightarrow> (pyfloat \<times> pyfloat \<times> bool)" where
  "tracking r deviation =
     (let tracking_error = np_max (map (\<lambda>i. deviation ! i) BODY_INDICES);
          gripper_error = deviation ! GRIPPER_INDEX in
      (tracking_error, gripper_error,
       flt (tracking_error_deg (policy r)) tracking_error \<or>
       (case gripper_tracking_error_pct (policy r) of None \<Rightarrow> False | Some limit \<Rightarrow> flt limit gripper_error)))"

definition set_violations :: "nat \<Rightarrow> program_run \<Rightarrow> program_run" where
  "set_violations n r = r\<lparr>thread := (thread r)\<lparr>tracking_violations := n\<rparr>\<rparr>"

definition exec_target :: "program_run \<Rightarrow> pyfloat \<Rightarrow> int \<Rightarrow> pyfloat list \<Rightarrow> pyfloat list result \<Rightarrow> unit result \<Rightarrow> program_run" where
  "exec_target r now cursor target read_reply send_reply = (case read_reply of
      Inl e \<Rightarrow> fail e r
    | Inr measured \<Rightarrow>
        (case deviations target measured of
           Inl e \<Rightarrow> fail e r
         | Inr deviation \<Rightarrow>
             if length deviation \<noteq> length JOINTS then fail IndexError r
             else case tracking r deviation of (tracking_error, gripper_error, exceeded) \<Rightarrow>
               let violations = (if exceeded then tracking_violations (thread r) + 1 else 0);
                   r1 = set_violations violations r
               in if violations \<ge> 5 then fail (ProtocolError ''TRACKING_ERROR'') r1
                  else let r2 = motor (MSend target) r1 in
                    case send_reply of
                      Inl e \<Rightarrow> fail e r2
                    | Inr _ \<Rightarrow> goto (TRecord now cursor measured target) r2))"

definition exec_move :: "program_run \<Rightarrow> pyfloat \<Rightarrow> pyfloat list result \<Rightarrow> unit result \<Rightarrow> program_run" where
  "exec_move r now read_reply send_reply =
     (case float_to_int (fmul (fsub now (started (thread r))) (Fin 1000000)) of
        Inl e \<Rightarrow> fail e r
      | Inr elapsed \<Rightarrow>
          (let cursor = max 0 elapsed;
               i = advance_segment (points r) cursor (segment_index (thread r));
               r1 = r\<lparr>thread := (thread r)\<lparr>segment_index := i\<rparr>\<rparr>
           in if i + 1 \<ge> length (points r) then
                (if final_received r \<and> cursor \<ge> t_us (last (points r)) then
                   (case resolve r1 (q_deg (last (points r))) of
                      Inl e \<Rightarrow> fail e r1
                    | Inr target \<Rightarrow>
                        (let r2 = motor (MSend target) r1 in
                         case send_reply of
                           Inl e \<Rightarrow> fail e r2
                         | Inr _ \<Rightarrow> goto (TClosing Completed None) (r2\<lparr>cursor_us := t_us (last (points r))\<rparr>)))
                 else fail (ProtocolError ''BUFFER_UNDERRUN'') r1)
              else
                (case bind (interpolate_quintic (points r ! i) (points r ! (i + 1)) cursor) (resolve r1) of
                   Inl e \<Rightarrow> fail e r1
                 | Inr target \<Rightarrow> exec_target r1 now cursor target read_reply send_reply)))"

definition send_telemetry :: "program_run \<Rightarrow> pyfloat \<Rightarrow> pyfloat \<Rightarrow> int \<Rightarrow> pyfloat list \<Rightarrow> program_run" where
  "send_telemetry r now telemetry_period_s cursor deviation =
     (if fle telemetry_period_s (fsub now (last_telemetry (thread r))) then
        (case tracking r deviation of (tracking_error, gripper_error, exceeded) \<Rightarrow>
          (emit (EvTelemetry (snapshot r) tracking_error gripper_error
             (accepted_until r - cursor < low_water_us (policy r))) r)
            \<lparr>thread := (thread r)\<lparr>last_telemetry := now\<rparr>\<rparr>)
      else r)"

definition pace :: "program_run \<Rightarrow> pyfloat \<Rightarrow> pyfloat \<Rightarrow> program_run" where
  "pace r period_s later =
     (let tick = fadd (next_tick (thread r)) period_s;
          r1 = r\<lparr>thread := (thread r)\<lparr>next_tick := tick\<rparr>\<rparr>;
          delay = fsub tick later
      in if flt (Fin 0) delay then goto TTop r1
         else if flt delay (fneg (fmax (Fin (1 / 4)) (fmul (Fin 5) period_s)))
         then fail (ProtocolError ''CONTROL_CYCLE_OVERRUN'') r1
         else goto TTop r1)"

definition exec_record :: "program_run \<Rightarrow> pyfloat \<Rightarrow> int \<Rightarrow> pyfloat list \<Rightarrow> pyfloat list \<Rightarrow> pyfloat \<Rightarrow> program_run" where
  "exec_record r now cursor measured target later =
     (let r1 = r\<lparr>cursor_us := cursor, measured_q := Some measured, target_q := Some target\<rparr> in
      case bind (periods r) (\<lambda>ps. bind (deviations target measured) (\<lambda>d. Inr (ps, d))) of
        Inl e \<Rightarrow> fail e r1
      | Inr ((period_s, telemetry_period_s), deviation) \<Rightarrow>
          pace (send_telemetry r1 now telemetry_period_s cursor deviation) period_s later)"

definition hold_then_close :: "program_run \<Rightarrow> pyfloat list result \<Rightarrow> program_run" where
  "hold_then_close r read_reply =
     (if \<not> backend r then r
      else let r1 = r\<lparr>backend := False\<rparr>;
               r2 = (if torque_enabled r1 then (case read_reply of Inl e \<Rightarrow> r1 | Inr measured \<Rightarrow> motor (MHold measured) r1)
                     else r1)
           in (motor MClose r2)\<lparr>torque_enabled := False\<rparr>)"

definition exec_close :: "program_run \<Rightarrow> run_state \<Rightarrow> string option \<Rightarrow> pyfloat list result \<Rightarrow> program_run" where
  "exec_close r outcome code read_reply = goto (TFinish outcome code) (hold_then_close r read_reply)"

definition exec_finish :: "program_run \<Rightarrow> run_state \<Rightarrow> string option \<Rightarrow> program_run" where
  "exec_finish r outcome code =
     (let r1 = r\<lparr>state := outcome, terminal_event := True\<rparr>
      in goto TDone (emit (EvFinished (snapshot r1) outcome code) r1))"

section \<open>Interleaving\<close>

text \<open>What the environment answers to one piece of the thread: two clock readings and the bus replies.\<close>

record world =
  w_now :: pyfloat
  w_later :: pyfloat
  w_unit :: "unit result"
  w_pose :: "pyfloat list result"

fun thread_step :: "world \<Rightarrow> program_run \<Rightarrow> program_run" where
  "thread_step w r = (case pc (thread r) of
      TNone \<Rightarrow> r
    | TPrepare \<Rightarrow> exec_prepare r (w_unit w) (w_pose w)
    | TEnable measured \<Rightarrow> exec_enable r measured (w_unit w)
    | TRun \<Rightarrow> exec_run r (w_now w)
    | TTop \<Rightarrow> exec_top r (w_now w)
    | TWatch now \<Rightarrow> exec_watch r now
    | TMove now \<Rightarrow> exec_move r now (w_pose w) (w_unit w)
    | TRecord now cursor measured target \<Rightarrow> exec_record r now cursor measured target (w_later w)
    | TClosing outcome code \<Rightarrow> exec_close r outcome code (w_pose w)
    | TFinish outcome code \<Rightarrow> exec_finish r outcome code
    | TDone \<Rightarrow> r)"

declare thread_step.simps [simp del]

text \<open>One step of a run: a request of a client, or one piece of the motor thread.\<close>

inductive run_step :: "pyenv \<Rightarrow> program_run \<Rightarrow> program_run \<Rightarrow> bool" for E where
  step_append: "run_step E r (snd (append_chunk E r seq ps final digest))"
    if "\<forall>p \<in> set ps. length (q_deg p) = 6 \<and> list_all isfinite (q_deg p)"
| step_start: "run_step E r (snd (start r))"
| step_heartbeat: "run_step E r (heartbeat r now)"
| step_stop: "run_step E r (request_stop r)"
| step_lost: "run_step E r (connection_lost r)"
| step_thread: "run_step E r (thread_step w r)"

inductive run_reachable :: "pyenv \<Rightarrow> program_run \<Rightarrow> program_run \<Rightarrow> bool" for E r where
  reach_here: "run_reachable E r r"
| reach_step: "run_reachable E r r1 \<Longrightarrow> run_step E r1 r2 \<Longrightarrow> run_reachable E r r2"

section \<open>The simulated backend\<close>

record sim_backend =
  sim_q :: "pyfloat list"
  sim_connected :: bool
  sim_torque_enabled :: bool

definition SimulatedBackend :: sim_backend where
  "SimulatedBackend = \<lparr>sim_q = [Fin 0, Fin (-45), Fin 75, Fin 35, Fin 0, Fin 20],
     sim_connected = False, sim_torque_enabled = False\<rparr>"

definition sim_read_q :: "sim_backend \<Rightarrow> pyfloat list result" where
  "sim_read_q b = raise_if (\<not> sim_connected b) RuntimeError (Inr (sim_q b))"

text \<open>One call on the simulated backend; \<^verbatim>\<open>read_q\<close> changes nothing.\<close>

fun sim_call :: "sim_backend \<Rightarrow> motor_call \<Rightarrow> sim_backend result" where
  "sim_call b MPrepare = Inr (b\<lparr>sim_connected := True, sim_torque_enabled := False\<rparr>)"
| "sim_call b (MEnable q) = raise_if (\<not> sim_connected b) RuntimeError (Inr (b\<lparr>sim_q := q, sim_torque_enabled := True\<rparr>))"
| "sim_call b (MSend q) = raise_if (\<not> sim_connected b \<or> \<not> sim_torque_enabled b) RuntimeError (Inr (b\<lparr>sim_q := q\<rparr>))"
| "sim_call b (MHold q) = raise_if (\<not> sim_connected b \<or> \<not> sim_torque_enabled b) RuntimeError (Inr (b\<lparr>sim_q := q\<rparr>))"
| "sim_call b MClose = Inr (b\<lparr>sim_torque_enabled := False, sim_connected := False\<rparr>)"

section \<open>Limits from the calibration file\<close>

text \<open>The travel of one joint in degrees, less the margin; the resolution comes from the motor library.\<close>

definition calibrated_travel :: "pyenv \<Rightarrow> int \<Rightarrow> pyfloat \<Rightarrow> pydict \<Rightarrow> string \<Rightarrow> (pyfloat \<times> pyfloat) result" where
  "calibrated_travel E resolution margin calibration name =
     bind (dindex calibration name) (\<lambda>entry.
     bind (case entry of PDict d \<Rightarrow> Inr d | _ \<Rightarrow> Inl TypeError) (\<lambda>d.
     bind (bind (dindex d ''range_min'') (py_float E)) (\<lambda>raw_min.
     bind (bind (dindex d ''range_max'') (py_float E)) (\<lambda>raw_max.
     if name = ''gripper'' then Inr (Fin 0, Fin 100)
     else
       bind (int_to_float resolution) (\<lambda>res.
       bind (fdiv (fadd raw_min raw_max) (Fin 2)) (\<lambda>mid.
       bind (fdiv (fmul (fsub raw_min mid) (Fin 360)) res) (\<lambda>lo.
       bind (fdiv (fmul (fsub raw_max mid) (Fin 360)) res) (\<lambda>hi.
       Inr (fadd lo margin, fsub hi margin)))))))))"

definition joint_limits :: "pyenv \<Rightarrow> int \<Rightarrow> pyfloat \<Rightarrow> pydict \<Rightarrow> safety_policy \<Rightarrow> nat \<times> string \<Rightarrow> (pyfloat \<times> pyfloat) result" where
  "joint_limits E resolution margin calibration pol x = (case x of (i, name) \<Rightarrow>
     bind (calibrated_travel E resolution margin calibration name) (\<lambda>(joint_min, joint_max).
     raise_if (fle joint_max joint_min) SystemExit
     (bind (py_index (joint_min_deg pol) i) (\<lambda>pol_min.
      bind (py_index (joint_max_deg pol) i) (\<lambda>pol_max.
      Inr (fmax joint_min pol_min, fmin joint_max pol_max))))))"

definition limits_from_calibration :: "pyenv \<Rightarrow> int \<Rightarrow> pydict \<Rightarrow> safety_policy \<Rightarrow> pyfloat \<Rightarrow> safety_policy result" where
  "limits_from_calibration E resolution calibration pol margin =
     raise_if (\<exists>name \<in> set JOINTS. dget calibration name = None) SystemExit
     (bind (mapM (joint_limits E resolution margin calibration pol) (zip [0..<length JOINTS] JOINTS)) (\<lambda>ls.
      Inr (pol\<lparr>joint_min_deg := map fst ls, joint_max_deg := map snd ls\<rparr>)))"

section \<open>The controller\<close>

text \<open>\<^verbatim>\<open>runs\<close> are the \<^verbatim>\<open>ProgramRun\<close> objects created so far; \<^verbatim>\<open>active\<close> is the index of the active one.\<close>

record controller =
  ctl_policy :: safety_policy
  ctl_control_hz :: pyfloat
  ctl_telemetry_hz :: pyfloat
  ctl_heartbeat_timeout_s :: pyfloat
  ctl_hold_after_run_s :: pyfloat
  runs :: "program_run list"
  active :: "nat option"

definition ProgramController :: "safety_policy \<Rightarrow> pyfloat \<Rightarrow> pyfloat \<Rightarrow> pyfloat \<Rightarrow> pyfloat \<Rightarrow> controller" where
  "ProgramController pol chz thz hb hold = \<lparr>ctl_policy = pol, ctl_control_hz = chz, ctl_telemetry_hz = thz,
     ctl_heartbeat_timeout_s = hb, ctl_hold_after_run_s = hold, runs = [], active = None\<rparr>"

definition active_run :: "controller \<Rightarrow> program_run option" where
  "active_run c = (case active c of None \<Rightarrow> None | Some i \<Rightarrow> Some (runs c ! i))"

definition open_run :: "controller \<Rightarrow> string \<Rightarrow> program_header \<Rightarrow> string \<Rightarrow> string \<Rightarrow> string \<Rightarrow> pyfloat
    \<Rightarrow> nat result \<times> controller" where
  "open_run c rid h mode digest disconnect now =
     (if mode \<notin> set RUN_MODES then (Inl (ProtocolError ''SCHEMA_INVALID''), c)
      else if disconnect \<notin> {''stop_after_timeout'', ''complete_if_sealed''} then (Inl (ProtocolError ''SCHEMA_INVALID''), c)
      else if disconnect = ''complete_if_sealed'' \<and> mode \<noteq> ''sealed'' then (Inl (ProtocolError ''SCHEMA_INVALID''), c)
      else if rid = [] \<or> length rid > 128 then (Inl (ProtocolError ''SCHEMA_INVALID''), c)
      else if length digest \<noteq> 64 then (Inl (ProtocolError ''SCHEMA_INVALID''), c)
      else if (case active_run c of None \<Rightarrow> False | Some r \<Rightarrow> state r \<notin> set TERMINAL_STATES)
        then (Inl (ProtocolError ''RUN_STATE_CONFLICT''), c)
      else (Inr (length (runs c)),
            c\<lparr>runs := runs c @ [ProgramRun rid h mode digest disconnect (ctl_policy c) (ctl_control_hz c)
                (ctl_telemetry_hz c) (ctl_heartbeat_timeout_s c) (ctl_hold_after_run_s c) now],
              active := Some (length (runs c))\<rparr>))"

definition controller_snapshot :: "controller \<Rightarrow> run_snapshot option" where
  "controller_snapshot c = map_option snapshot (active_run c)"

definition update_run :: "controller \<Rightarrow> nat \<Rightarrow> program_run \<Rightarrow> controller" where
  "update_run c i r = c\<lparr>runs := (runs c)[i := r]\<rparr>"

definition emergency_stop :: "controller \<Rightarrow> run_state option \<times> controller" where
  "emergency_stop c = (case active c of
      None \<Rightarrow> (None, c)
    | Some i \<Rightarrow> (let r = request_stop (runs c ! i) in (Some (state r), update_run c i r)))"

section \<open>A client's connection\<close>

datatype reply =
    RunOpened run_snapshot
  | ChunkAccepted chunk_receipt
  | RunStarted run_snapshot
  | HeartbeatAck "run_state option"
  | Status "run_snapshot option"
  | StopAccepted "run_state option"
  | ErrorReply string

text \<open>\<^verbatim>\<open>int(v)\<close>: digits of a string may be grouped by single underscores.\<close>

fun digits_value :: "int \<Rightarrow> bool \<Rightarrow> string \<Rightarrow> int option" where
  "digits_value acc d [] = (if d then Some acc else None)"
| "digits_value acc d (c # cs) = (let n = of_char c :: nat in
     if 48 \<le> n \<and> n \<le> 57 then digits_value (acc * 10 + int n - 48) True cs
     else if c = CHR ''_'' \<and> d then digits_value acc False cs else None)"

definition int_of_str :: "string \<Rightarrow> int result" where
  "int_of_str s = (let t = py_strip s;
     neg = (t \<noteq> [] \<and> hd t = CHR ''-''); u = (if t \<noteq> [] \<and> hd t \<in> {CHR ''-'', CHR ''+''} then tl t else t) in
     case digits_value 0 False u of None \<Rightarrow> Inl ValueError | Some n \<Rightarrow> Inr (if neg then - n else n))"

fun py_int :: "pyval \<Rightarrow> int result" where
  "py_int (PInt n) = Inr n"
| "py_int (PBool b) = Inr (if b then 1 else 0)"
| "py_int (PFloat f) = float_to_int f"
| "py_int (PStr s) = int_of_str s"
| "py_int _ = Inl TypeError"

text \<open>
  \<^verbatim>\<open>TrajectoryPoint.from_record(value)\<close> for a decoded JSON value that need not be an object.
\<close>

definition point_from_value :: "pyenv \<Rightarrow> pyval \<Rightarrow> trajectory_point result" where
  "point_from_value E v = (case v of
      PDict d \<Rightarrow> point_from_record E d
    | PStr s \<Rightarrow> Inl (ProtocolError ''SCHEMA_INVALID'')
    | PList xs \<Rightarrow>
        if \<exists>x \<in> set xs. is_list x \<or> is_dict x then Inl TypeError
        else if set xs = {PStr ''type'', PStr ''t_us'', PStr ''q_deg''} then Inl AttributeError
        else Inl (ProtocolError ''SCHEMA_INVALID'')
    | _ \<Rightarrow> Inl TypeError)"

definition decode_message :: "pyenv \<Rightarrow> string \<Rightarrow> pydict result" where
  "decode_message E raw = bind (catch (json_loads E raw) (\<lambda>e. e = ValueError) (ProtocolError ''SCHEMA_INVALID'')) (\<lambda>v.
     case v of
       PDict d \<Rightarrow> if is_str (dget_or d ''type'' PNone) then Inr d else Inl (ProtocolError ''SCHEMA_INVALID'')
     | _ \<Rightarrow> Inl (ProtocolError ''SCHEMA_INVALID''))"

definition authenticated :: "pyenv \<Rightarrow> pydict \<Rightarrow> string \<Rightarrow> bool result" where
  "authenticated E hello token =
     (let supplied_token = py_str E (dget_or hello ''token'' (PStr [])) in
      if \<not> py_eq (dget_or hello ''type'' PNone) (PStr ''hello'') \<or> \<not> py_eq (dget_or hello ''protocol'' PNone) (PStr PROTOCOL)
      then Inr False else compare_digest supplied_token token)"

definition on_run :: "controller \<Rightarrow> nat option \<Rightarrow> (program_run \<Rightarrow> 'a result \<times> program_run) \<Rightarrow> ('a \<Rightarrow> reply)
    \<Rightarrow> reply result \<times> controller" where
  "on_run c run f g = (case run of
      None \<Rightarrow> (Inl (ProtocolError ''RUN_STATE_CONFLICT''), c)
    | Some i \<Rightarrow> (case f (runs c ! i) of (res, r) \<Rightarrow> (bind res (\<lambda>x. Inr (g x)), update_run c i r)))"

definition handle_open :: "pyenv \<Rightarrow> controller \<Rightarrow> pydict \<Rightarrow> pyfloat \<Rightarrow> nat result \<times> controller" where
  "handle_open E c m now = (case dget_or m ''header'' PNone of
      PDict hv \<Rightarrow>
        (case header_from_record E hv of
           Inl e \<Rightarrow> (Inl e, c)
         | Inr h \<Rightarrow> open_run c (py_str E (dget_or m ''run_id'' (PStr []))) h (py_str E (dget_or m ''run_mode'' (PStr [])))
             (py_str E (dget_or m ''program_digest'' (PStr [])))
             (py_str E (dget_or m ''disconnect_policy'' (PStr ''stop_after_timeout''))) now)
    | _ \<Rightarrow> (Inl (ProtocolError ''SCHEMA_INVALID''), c))"

definition handle_chunk :: "pyenv \<Rightarrow> pydict \<Rightarrow> program_run \<Rightarrow> chunk_receipt result \<times> program_run" where
  "handle_chunk E m r = (case dget_or m ''points'' PNone of
      PList vs \<Rightarrow>
        (case bind (mapM (point_from_value E) vs) (\<lambda>ps. bind (py_int (dget_or m ''chunk_seq'' (PInt (-1)))) (\<lambda>seq. Inr (ps, seq))) of
           Inl e \<Rightarrow> (Inl e, r)
         | Inr (ps, seq) \<Rightarrow> append_chunk E r seq ps (py_truth (dget_or m ''final'' (PBool False))) (py_str E (dget_or m ''digest'' (PStr []))))
    | _ \<Rightarrow> (Inl (ProtocolError ''SCHEMA_INVALID''), r))"

text \<open>The body of the message loop; the connection's own run is its second state.\<close>

definition handle_message :: "pyenv \<Rightarrow> controller \<Rightarrow> nat option \<Rightarrow> pydict \<Rightarrow> pyfloat
    \<Rightarrow> reply result \<times> controller \<times> nat option" where
  "handle_message E c run m now =
     (let k = the_str (dget_or m ''type'' PNone) in
      if k = ''open_run'' then
        (if run \<noteq> None then (Inl (ProtocolError ''RUN_STATE_CONFLICT''), c, run)
         else case handle_open E c m now of
           (Inl e, c') \<Rightarrow> (Inl e, c', run)
         | (Inr i, c') \<Rightarrow> (Inr (RunOpened (snapshot (runs c' ! i))), c', Some i))
      else if k = ''chunk'' then
        (case on_run c run (handle_chunk E m) ChunkAccepted of (res, c') \<Rightarrow> (res, c', run))
      else if k = ''start'' then (case on_run c run start RunStarted of (res, c') \<Rightarrow> (res, c', run))
      else if k = ''heartbeat'' then
        (case run of
           None \<Rightarrow> (Inr (HeartbeatAck (map_option state (active_run c))), c, run)
         | Some i \<Rightarrow> (Inr (HeartbeatAck (Some (state (runs c ! i)))), update_run c i (heartbeat (runs c ! i) now), run))
      else if k = ''status'' then (Inr (Status (controller_snapshot c)), c, run)
      else if k = ''cancel'' then
        (case on_run c run (\<lambda>r. (Inr (Some (state r)), request_stop r)) StopAccepted of (res, c') \<Rightarrow> (res, c', run))
      else if k = ''emergency_stop'' then (case emergency_stop c of (st, c') \<Rightarrow> (Inr (StopAccepted st), c', run))
      else (Inl (ProtocolError ''UNKNOWN_MESSAGE''), c, run))"

text \<open>
  One message of a client: the reply sent back, or the exception that ends the connection. Only
  protocol, type and value errors are answered.
\<close>

definition serve_message :: "pyenv \<Rightarrow> controller \<Rightarrow> nat option \<Rightarrow> string \<Rightarrow> pyfloat
    \<Rightarrow> reply result \<times> controller \<times> nat option" where
  "serve_message E c run raw now =
     (case (case decode_message E raw of
              Inl e \<Rightarrow> (Inl e, c, run)
            | Inr m \<Rightarrow> handle_message E c run m now) of
        (Inr rep, rest) \<Rightarrow> (Inr rep, rest)
      | (Inl e, rest) \<Rightarrow>
          ((case e of
              ProtocolError code \<Rightarrow> Inr (ErrorReply code)
            | _ \<Rightarrow> if e = TypeError \<or> is_ValueError e then Inr (ErrorReply ''SCHEMA_INVALID'') else Inl e), rest))"

definition close_connection :: "controller \<Rightarrow> nat option \<Rightarrow> controller" where
  "close_connection c run = (case run of None \<Rightarrow> c | Some i \<Rightarrow> update_run c i (connection_lost (runs c ! i)))"

section \<open>Frame lemmas\<close>

text \<open>The pieces of the thread are built from these updates.\<close>

lemmas exec_prims = emit_def motor_def goto_def set_violations_def

lemma fail_sel [simp]:
  "run_mode (fail e r) = run_mode r" "disconnect_policy (fail e r) = disconnect_policy r"
  "heartbeat_timeout_s (fail e r) = heartbeat_timeout_s r"
  "header (fail e r) = header r" "policy (fail e r) = policy r" "expected_digest (fail e r) = expected_digest r"
  "points (fail e r) = points r" "final_received (fail e r) = final_received r" "state (fail e r) = state r"
  "origin_q (fail e r) = origin_q r" "stop_event (fail e r) = stop_event r" "backend (fail e r) = backend r"
  "torque_enabled (fail e r) = torque_enabled r" "calls (fail e r) = calls r" "cursor_us (fail e r) = cursor_us r"
  "terminal_event (fail e r) = terminal_event r" "chunk_receipts (fail e r) = chunk_receipts r"
  "expected_chunk_seq (fail e r) = expected_chunk_seq r"
  "pc (thread (fail e r)) = TClosing (fst (outcome_of e)) (Some (snd (outcome_of e)))"
  by (simp_all add: fail_def exec_prims split: prod.splits)

lemma prims_sel [simp]:
  "run_mode (emit v r) = run_mode r" "disconnect_policy (emit v r) = disconnect_policy r"
  "heartbeat_timeout_s (emit v r) = heartbeat_timeout_s r" "run_mode (motor c r) = run_mode r"
  "disconnect_policy (motor c r) = disconnect_policy r" "heartbeat_timeout_s (motor c r) = heartbeat_timeout_s r"
  "run_mode (goto l r) = run_mode r" "disconnect_policy (goto l r) = disconnect_policy r"
  "heartbeat_timeout_s (goto l r) = heartbeat_timeout_s r" "run_mode (set_violations n r) = run_mode r"
  "disconnect_policy (set_violations n r) = disconnect_policy r" "heartbeat_timeout_s (set_violations n r) = heartbeat_timeout_s r"
  "header (emit v r) = header r" "policy (emit v r) = policy r" "expected_digest (emit v r) = expected_digest r"
  "points (emit v r) = points r" "final_received (emit v r) = final_received r" "state (emit v r) = state r"
  "origin_q (emit v r) = origin_q r" "stop_event (emit v r) = stop_event r" "backend (emit v r) = backend r"
  "torque_enabled (emit v r) = torque_enabled r" "calls (emit v r) = calls r" "thread (emit v r) = thread r"
  "terminal_event (emit v r) = terminal_event r" "chunk_receipts (emit v r) = chunk_receipts r"
  "expected_chunk_seq (emit v r) = expected_chunk_seq r" "cursor_us (emit v r) = cursor_us r"
  "header (motor c r) = header r" "policy (motor c r) = policy r" "expected_digest (motor c r) = expected_digest r"
  "points (motor c r) = points r" "final_received (motor c r) = final_received r" "state (motor c r) = state r"
  "origin_q (motor c r) = origin_q r" "stop_event (motor c r) = stop_event r" "backend (motor c r) = backend r"
  "torque_enabled (motor c r) = torque_enabled r" "calls (motor c r) = calls r @ [c]" "thread (motor c r) = thread r"
  "terminal_event (motor c r) = terminal_event r" "chunk_receipts (motor c r) = chunk_receipts r"
  "expected_chunk_seq (motor c r) = expected_chunk_seq r" "cursor_us (motor c r) = cursor_us r"
  "header (goto l r) = header r" "policy (goto l r) = policy r" "expected_digest (goto l r) = expected_digest r"
  "points (goto l r) = points r" "final_received (goto l r) = final_received r" "state (goto l r) = state r"
  "origin_q (goto l r) = origin_q r" "stop_event (goto l r) = stop_event r" "backend (goto l r) = backend r"
  "torque_enabled (goto l r) = torque_enabled r" "calls (goto l r) = calls r" "pc (thread (goto l r)) = l"
  "terminal_event (goto l r) = terminal_event r" "chunk_receipts (goto l r) = chunk_receipts r"
  "expected_chunk_seq (goto l r) = expected_chunk_seq r" "cursor_us (goto l r) = cursor_us r"
  "header (set_violations n r) = header r" "policy (set_violations n r) = policy r"
  "points (set_violations n r) = points r" "final_received (set_violations n r) = final_received r"
  "state (set_violations n r) = state r" "origin_q (set_violations n r) = origin_q r"
  "stop_event (set_violations n r) = stop_event r" "backend (set_violations n r) = backend r"
  "torque_enabled (set_violations n r) = torque_enabled r" "calls (set_violations n r) = calls r"
  "expected_digest (set_violations n r) = expected_digest r" "terminal_event (set_violations n r) = terminal_event r"
  "chunk_receipts (set_violations n r) = chunk_receipts r" "expected_chunk_seq (set_violations n r) = expected_chunk_seq r"
  "cursor_us (set_violations n r) = cursor_us r"
  by (simp_all add: exec_prims)

text \<open>
  What one piece of the thread does, seen from outside: the fields it never touches, the step of
  its program counter and the calls it makes.
\<close>

definition untouched :: "program_run \<Rightarrow> program_run \<Rightarrow> bool" where
  "untouched r r' \<longleftrightarrow> header r' = header r \<and> policy r' = policy r \<and> expected_digest r' = expected_digest r \<and>
     points r' = points r \<and> final_received r' = final_received r \<and> stop_event r' = stop_event r \<and>
     chunk_receipts r' = chunk_receipts r \<and> expected_chunk_seq r' = expected_chunk_seq r \<and>
     run_mode r' = run_mode r \<and> disconnect_policy r' = disconnect_policy r \<and> heartbeat_timeout_s r' = heartbeat_timeout_s r"

lemma exec_target_untouched:
  "untouched r (exec_target r now cursor target a b) \<and> origin_q (exec_target r now cursor target a b) = origin_q r \<and>
   state (exec_target r now cursor target a b) = state r \<and> backend (exec_target r now cursor target a b) = backend r \<and>
   torque_enabled (exec_target r now cursor target a b) = torque_enabled r"
  by (auto simp: exec_target_def untouched_def Let_def split: sum.splits prod.splits)

lemma exec_move_untouched: "untouched r (exec_move r now a b)"
proof -
  have "untouched r (exec_target (r\<lparr>thread := t\<rparr>) now c q a b)" for t c q
    using exec_target_untouched [of "r\<lparr>thread := t\<rparr>" now c q a b] by (simp add: untouched_def)
  then show ?thesis by (auto simp: exec_move_def untouched_def Let_def split: sum.splits)
qed

lemma send_telemetry_sel [simp]:
  "run_mode (send_telemetry r a b c d) = run_mode r" "disconnect_policy (send_telemetry r a b c d) = disconnect_policy r"
  "heartbeat_timeout_s (send_telemetry r a b c d) = heartbeat_timeout_s r"
  "header (send_telemetry r a b c d) = header r" "policy (send_telemetry r a b c d) = policy r"
  "expected_digest (send_telemetry r a b c d) = expected_digest r" "points (send_telemetry r a b c d) = points r"
  "final_received (send_telemetry r a b c d) = final_received r" "state (send_telemetry r a b c d) = state r"
  "origin_q (send_telemetry r a b c d) = origin_q r" "stop_event (send_telemetry r a b c d) = stop_event r"
  "backend (send_telemetry r a b c d) = backend r" "torque_enabled (send_telemetry r a b c d) = torque_enabled r"
  "calls (send_telemetry r a b c d) = calls r" "terminal_event (send_telemetry r a b c d) = terminal_event r"
  "chunk_receipts (send_telemetry r a b c d) = chunk_receipts r"
  "expected_chunk_seq (send_telemetry r a b c d) = expected_chunk_seq r"
  by (simp_all add: send_telemetry_def split: prod.split)

lemma pace_sel [simp]:
  "run_mode (pace r p l) = run_mode r" "disconnect_policy (pace r p l) = disconnect_policy r"
  "heartbeat_timeout_s (pace r p l) = heartbeat_timeout_s r"
  "header (pace r p l) = header r" "policy (pace r p l) = policy r" "expected_digest (pace r p l) = expected_digest r"
  "points (pace r p l) = points r" "final_received (pace r p l) = final_received r" "state (pace r p l) = state r"
  "origin_q (pace r p l) = origin_q r" "stop_event (pace r p l) = stop_event r" "backend (pace r p l) = backend r"
  "torque_enabled (pace r p l) = torque_enabled r" "calls (pace r p l) = calls r"
  "terminal_event (pace r p l) = terminal_event r" "chunk_receipts (pace r p l) = chunk_receipts r"
  "expected_chunk_seq (pace r p l) = expected_chunk_seq r"
  by (simp_all add: pace_def Let_def)

lemma exec_record_sel:
  "untouched r (exec_record r now cursor measured target later)"
  "origin_q (exec_record r now cursor measured target later) = origin_q r"
  "state (exec_record r now cursor measured target later) = state r"
  "backend (exec_record r now cursor measured target later) = backend r"
  "torque_enabled (exec_record r now cursor measured target later) = torque_enabled r"
  "calls (exec_record r now cursor measured target later) = calls r"
  "terminal_event (exec_record r now cursor measured target later) = terminal_event r"
  by (simp_all add: exec_record_def untouched_def Let_def split: sum.split prod.split)

lemma exec_others_untouched:
  "untouched r (exec_prepare r a b)" "untouched r (exec_enable r m a)" "untouched r (exec_run r now)"
  "untouched r (exec_top r now)" "untouched r (exec_watch r now)" "untouched r (exec_close r out c b)"
  "untouched r (exec_finish r out c)"
  by (simp_all add: exec_prepare_def exec_enable_def exec_run_def exec_top_def exec_watch_def
      exec_close_def hold_then_close_def exec_finish_def untouched_def Let_def split: sum.split)

lemma thread_step_untouched: "untouched r (thread_step w r)"
  unfolding thread_step.simps
  by (cases "pc (thread r)") (simp_all add: exec_others_untouched exec_move_untouched exec_record_sel, simp_all add: untouched_def)

end
