(* ===== verification/ServerSafety.thy ===== *)
theory ServerSafety
  imports Server
begin

text \<open>
  Safety of the v1 server under every interleaving of client requests with the motor thread: what
  is buffered is always validated, every commanded pose is inside the limits, the motor bus is
  used in the right order and always closed, and a stop takes effect within one iteration.
\<close>

section \<open>The buffered trajectory\<close>

definition ascii :: "string \<Rightarrow> bool" where
  "ascii s \<longleftrightarrow> (\<forall>c \<in> set s. (of_char c :: nat) < 128)"

lemma ascii_hex: "ascii (hex b)"
proof (induction b)
  case (Cons x b)
  have "(of_char (hex_digit n) :: nat) < 128" if "n < 16" for n
    using that by (auto simp: hex_digit_def)
  moreover have "unat x div 16 < 16" "unat x mod 16 < 16" using unat_byte [of x] by auto
  ultimately show ?case using Cons by (simp add: ascii_def)
qed (simp add: ascii_def)

lemma compare_digest_ascii: "ascii a \<Longrightarrow> ascii b \<Longrightarrow> compare_digest a b = Inr (a = b)"
  by (auto simp: compare_digest_def ascii_def)

lemma ascii_digests: "ascii (program_digest E h ps)" "ascii (chunk_digest E n ps f)"
  by (simp_all add: program_digest_def chunk_digest_def ascii_hex)

lemma validate_chunk_points_iff:
  "validate_chunk_points r prev ps = Inr () \<longleftrightarrow>
     successively (\<lambda>p q. validate_segment (policy r) p q = Inr ()) ((case prev of None \<Rightarrow> [] | Some p \<Rightarrow> [p]) @ ps) \<and>
     (\<forall>p \<in> set ps. validate_position (policy r) p (ph_coordinate_mode (header r)) = Inr () \<and>
        validate_resolved_position r p = Inr ()) \<and>
     (prev = None \<and> ps \<noteq> [] \<longrightarrow> t_us (hd ps) = 0 \<and>
        \<not> (ph_coordinate_mode (header r) = ''relative_deg'' \<and> nonzero_start (hd ps)))"
  by (induction ps arbitrary: prev) (auto split: option.splits)

lemma segments_sorted:
  assumes "successively (\<lambda>p q. validate_segment pol p q = Inr ()) ps" "0 \<le> min_segment_us pol"
  shows "sorted (map t_us ps)"
  using assms(1)
proof (induction ps rule: induct_list012)
  case (3 p q ps)
  then have "validate_segment pol p q = Inr ()" "sorted (map t_us (q # ps))" by auto
  with validate_segment_dt [of pol p q] assms(2) show ?case by auto
qed auto

lemma sorted_bounds: "sorted (map t_us ps) \<Longrightarrow> p \<in> set ps \<Longrightarrow> t_us (hd ps) \<le> t_us p \<and> t_us p \<le> t_us (last ps)"
  by (induction ps) auto

text \<open>
  What the server has buffered at any time: a trajectory every check accepted, with six finite
  values in each point, inside the resource limits, and once the final chunk was taken, complete
  and of the announced digest.
\<close>

definition buffer_ok :: "pyenv \<Rightarrow> program_run \<Rightarrow> bool" where
  "buffer_ok E r \<longleftrightarrow> checked_trajectory (header r) (policy r) (points r) \<and>
     (\<forall>p \<in> set (points r). length (q_deg p) = 6 \<and> list_all isfinite (q_deg p)) \<and>
     (points r \<noteq> [] \<longrightarrow> int (length (points r)) \<le> max_points (policy r) \<and> t_us (last (points r)) \<le> max_duration_us (policy r)) \<and>
     (final_received r \<longrightarrow> 2 \<le> length (points r) \<and>
        (ascii (expected_digest r) \<longrightarrow> program_digest E (header r) (points r) = expected_digest r))"

lemma check_chunk_Inr:
  assumes "check_chunk r seq ps final = Inr ()"
  shows "seq = expected_chunk_seq r" "state r \<in> {Buffering, Running}" "\<not> final_received r" "ps \<noteq> []"
    "int (length ps) \<le> max_chunk_points (policy r)"
    "validate_chunk_points r (if points r = [] then None else Some (last (points r))) ps = Inr ()"
    "int (length (points r @ ps)) \<le> max_points (policy r)" "t_us (last ps) \<le> max_duration_us (policy r)"
    "final \<longrightarrow> 2 \<le> length (points r @ ps)"
    "run_mode r = ''streaming'' \<longrightarrow> t_us (last ps) - cursor_us r \<le> max_horizon_us (policy r)"
  using assms by (auto simp: check_chunk_def Let_def)

lemma checked_append:
  assumes "checked_trajectory (header r) (policy r) (points r)"
    and v: "validate_chunk_points r (if points r = [] then None else Some (last (points r))) ps = Inr ()" and "ps \<noteq> []"
  shows "checked_trajectory (header r) (policy r) (points r @ ps)"
proof (cases "points r")
  case Nil
  with v [unfolded validate_chunk_points_iff] show ?thesis by (auto simp: checked_trajectory_def)
next
  case (Cons p qs)
  obtain q rs where ps: "ps = q # rs" using \<open>ps \<noteq> []\<close> by (cases ps) auto
  from v Cons have v': "validate_segment (policy r) (last (points r)) q = Inr ()"
      "successively (\<lambda>p q. validate_segment (policy r) p q = Inr ()) ps"
      "\<forall>p \<in> set ps. validate_position (policy r) p (ph_coordinate_mode (header r)) = Inr ()"
    by (simp_all add: validate_chunk_points_iff ps)
  have "successively (\<lambda>p q. validate_segment (policy r) p q = Inr ()) (points r @ ps)"
    unfolding successively_append_iff using assms(1) v' ps by (simp add: checked_trajectory_def)
  with assms(1) v'(3) Cons show ?thesis unfolding checked_trajectory_def by auto
qed

text \<open>The two shapes of a successful append, and that a refused chunk changes nothing.\<close>

lemma append_chunk_cases:
  assumes "append_chunk E r seq ps final digest = (res, r')"
  obtains (kept) "r' = r"
  | (grown) receipt where "check_chunk r seq ps final = Inr ()" "points r' = points r @ ps" "final_received r' = final"
      "expected_chunk_seq r' = expected_chunk_seq r + 1"
      "final \<and> ascii (expected_digest r) \<longrightarrow> program_digest E (header r) (points r @ ps) = expected_digest r"
      "\<exists>m. r' = r\<lparr>points := points r @ ps, expected_chunk_seq := expected_chunk_seq r + 1, final_received := final,
             chunk_receipts := m\<rparr>"
proof -
  let ?grow = "\<lambda>m. r\<lparr>points := points r @ ps, expected_chunk_seq := expected_chunk_seq r + 1, final_received := final,
             chunk_receipts := m\<rparr>"
  have com: "(\<exists>m. r' = ?grow m) \<and> (final \<and> ascii (expected_digest r) \<longrightarrow>
             program_digest E (header r) (points r @ ps) = expected_digest r) \<or> r' = r"
    if c: "commit_chunk E r seq ps final d = (res, r')" and nf: "\<not> final_received r" for d
  proof -
    have r0: "r\<lparr>final_received := False\<rparr> = r" using nf by (cases r) simp
    have r1: "r\<lparr>points := points r @ ps, expected_chunk_seq := expected_chunk_seq r + 1, final_received := final\<rparr>
        = ?grow (chunk_receipts r)" by (cases r) simp
    show ?thesis
    proof (cases final)
      case True
      show ?thesis
      proof (cases "compare_digest (program_digest E (header r) (points r @ ps)) (expected_digest r)")
        case (Inl e)
        have "\<not> ascii (expected_digest r)"
          using Inl compare_digest_ascii [OF ascii_digests(1) [of E "header r" "points r @ ps"], of "expected_digest r"] by auto
        then show ?thesis using c True Inl r1 by (auto simp: commit_chunk_def Let_def)
      next
        case (Inr same)
        then have "same \<longrightarrow> program_digest E (header r) (points r @ ps) = expected_digest r"
          by (auto simp: compare_digest_def split: if_splits)
        moreover have "r' = r" if "\<not> same" using c True Inr r0 that by (simp add: commit_chunk_def Let_def)
        moreover have "\<exists>m. r' = ?grow m" if same
          using c True Inr that unfolding commit_chunk_def Let_def by (simp del: ex_simps) blast
        ultimately show ?thesis by blast
      qed
    next
      case False
      then show ?thesis using c by (auto simp: commit_chunk_def Let_def)
    qed
  qed
  show thesis
  proof (cases "r' = r")
    case True then show ?thesis by (rule kept)
  next
    case False
    with assms have c: "check_chunk r seq ps final = Inr ()" "commit_chunk E r seq ps final (chunk_digest E seq ps final) = (res, r')"
      by (auto simp: append_chunk_def Let_def split: sum.splits option.splits prod.splits if_splits)
    from com [OF c(2) check_chunk_Inr(3) [OF c(1)]] False c(1) show ?thesis
      by (intro grown) auto
  qed
qed

definition same_program :: "program_run \<Rightarrow> program_run \<Rightarrow> bool" where
  "same_program r r' \<longleftrightarrow> header r' = header r \<and> policy r' = policy r \<and> expected_digest r' = expected_digest r"

lemma step_program:
  assumes "run_step E r r'"
  shows "same_program r r'"
  using assms
proof cases
  case (step_append ps seq final digest)
  obtain res r1 where a: "append_chunk E r seq ps final digest = (res, r1)" by fastforce
  show ?thesis by (rule append_chunk_cases [OF a]) (use a step_append(1) in \<open>auto simp: same_program_def\<close>)
next
  case (step_thread w)
  then show ?thesis using thread_step_untouched [of r w] by (simp add: untouched_def same_program_def)
qed (simp_all add: same_program_def start_def heartbeat_def request_stop_def connection_lost_def Let_def)

lemma buffer_ok_append:
  assumes "buffer_ok E r" "\<forall>p \<in> set ps. length (q_deg p) = 6 \<and> list_all isfinite (q_deg p)"
  shows "buffer_ok E (snd (append_chunk E r seq ps final digest))"
proof -
  obtain res r' where a: "append_chunk E r seq ps final digest = (res, r')" by fastforce
  show ?thesis
  proof (rule append_chunk_cases [OF a])
    assume "r' = r" then show ?thesis using a assms by simp
  next
    assume c: "check_chunk r seq ps final = Inr ()" and p: "points r' = points r @ ps" "final_received r' = final"
      and d: "final \<and> ascii (expected_digest r) \<longrightarrow> program_digest E (header r) (points r @ ps) = expected_digest r"
      and "\<exists>m. r' = r\<lparr>points := points r @ ps, expected_chunk_seq := expected_chunk_seq r + 1, final_received := final,
             chunk_receipts := m\<rparr>"
    then have s: "header r' = header r" "policy r' = policy r" "expected_digest r' = expected_digest r" by auto
    note ck = check_chunk_Inr [OF c]
    have "checked_trajectory (header r) (policy r) (points r @ ps)"
      using assms(1) by (intro checked_append ck) (simp add: buffer_ok_def)
    with assms ck d show ?thesis unfolding a by (auto simp: buffer_ok_def s p)
  qed
qed

lemma buffer_ok_step:
  assumes "run_step E r r'" "buffer_ok E r"
  shows "buffer_ok E r'"
  using assms(1)
proof cases
  case (step_append ps seq final digest)
  then show ?thesis using buffer_ok_append [OF assms(2)] by blast
next
  case (step_thread w)
  then show ?thesis using thread_step_untouched [of r w] assms(2) by (simp add: untouched_def buffer_ok_def)
qed (use assms step_program [OF assms(1)] in
    \<open>auto simp: start_def heartbeat_def request_stop_def connection_lost_def Let_def buffer_ok_def same_program_def split: if_splits\<close>)

lemma reachable_induct:
  assumes "run_reachable E r r'" "P r" "\<And>r1 r2. run_step E r1 r2 \<Longrightarrow> P r1 \<Longrightarrow> P r2"
  shows "P r'"
  using assms(1) by (induction rule: run_reachable.induct) (auto intro: assms)

lemma reachable_program: "run_reachable E r r' \<Longrightarrow> same_program r r'"
proof (induction rule: run_reachable.induct)
  case (reach_step r1 r2)
  with step_program [of E r1 r2] show ?case by (simp add: same_program_def)
qed (simp add: same_program_def)

lemma reachable_buffer_ok: "run_reachable E r r' \<Longrightarrow> buffer_ok E r \<Longrightarrow> buffer_ok E r'"
  by (erule reachable_induct) (auto intro: buffer_ok_step)

lemma fresh_buffer_ok: "buffer_ok E (ProgramRun rid h mode digest disconnect pol chz thz hb hold now)"
  by (simp add: ProgramRun_def buffer_ok_def checked_trajectory_def)

lemma buffer_validates:
  assumes "buffer_ok E r" "points r \<noteq> []" "0 \<le> min_segment_us (policy r)"
  shows "validate_points (header r) (points r) (policy r) False = Inr ()"
    and "final_received r \<Longrightarrow> validate_points (header r) (points r) (policy r) True = Inr ()"
proof -
  have ck: "checked_trajectory (header r) (policy r) (points r)" using assms by (simp add: buffer_ok_def)
  then have "sorted (map t_us (points r))" "t_us (hd (points r)) = 0"
    using segments_sorted assms by (auto simp: checked_trajectory_def)
  with sorted_bounds [of "points r"] assms have "\<forall>p \<in> set (points r). 0 \<le> t_us p \<and> t_us p \<le> max_duration_us (policy r)"
    unfolding buffer_ok_def by (metis order_trans)
  with assms ck show "validate_points (header r) (points r) (policy r) False = Inr ()"
    "final_received r \<Longrightarrow> validate_points (header r) (points r) (policy r) True = Inr ()"
    by (auto simp: validate_points_iff buffer_ok_def)
qed

text \<open>
  C20. Streaming upload refines whole-program validation. Start from a fresh run under a policy whose
  minimum segment is not negative and let requests and the motor thread interleave in any way: the
  points the server has buffered, once there are any, form a trajectory that \<^verbatim>\<open>validate_points\<close> accepts as
  a partial program, and after the final chunk was accepted, as a complete one. If the digest announced
  when the run was opened is an ASCII string, the program then has this digest; for any other string the
  server keeps the final chunk unchecked, see \<open>non_ascii_digest_unchecked\<close>.
\<close>

theorem chunked_upload_validated:
  assumes "run_reachable E (ProgramRun rid h mode digest disconnect pol chz thz hb hold now) r"
    and "0 \<le> min_segment_us pol" "points r \<noteq> []"
  shows "validate_points h (points r) pol False = Inr ()
    \<and> (final_received r \<longrightarrow> validate_points h (points r) pol True = Inr () \<and>
        (ascii digest \<longrightarrow> program_digest E h (points r) = digest))"
proof -
  have "buffer_ok E r" "header r = h" "policy r = pol" "expected_digest r = digest"
    using reachable_buffer_ok [OF assms(1) fresh_buffer_ok] reachable_program [OF assms(1)]
    by (simp_all add: same_program_def ProgramRun_def)
  with buffer_validates [of E r] assms(2,3) show ?thesis by (auto simp: buffer_ok_def)
qed

section \<open>Use of the motor bus\<close>

text \<open>The order in which a motor backend may be called.\<close>

datatype bus = BusOff | BusReady | BusOn | BusHeld | BusClosed

fun bus_step :: "bus \<Rightarrow> motor_call \<Rightarrow> bus option" where
  "bus_step BusOff MPrepare = Some BusReady"
| "bus_step BusReady (MEnable q) = Some BusOn"
| "bus_step BusReady MClose = Some BusClosed"
| "bus_step BusOn (MSend q) = Some BusOn"
| "bus_step BusOn (MHold q) = Some BusHeld"
| "bus_step BusOn MClose = Some BusClosed"
| "bus_step BusHeld MClose = Some BusClosed"
| "bus_step _ _ = None"

fun bus_run :: "bus \<Rightarrow> motor_call list \<Rightarrow> bus option" where
  "bus_run b [] = Some b"
| "bus_run b (c # cs) = (case bus_step b c of None \<Rightarrow> None | Some b' \<Rightarrow> bus_run b' cs)"

lemma bus_run_snoc: "bus_run b (cs @ [c]) = (case bus_run b cs of None \<Rightarrow> None | Some b' \<Rightarrow> bus_step b' c)"
  by (induction b cs rule: bus_run.induct) (auto split: option.splits)

text \<open>How the state of a run, its program counter and its calls belong together.\<close>

fun phase_at :: "program_run \<Rightarrow> thread_pc \<Rightarrow> bool" where
  "phase_at r TNone = (state r \<in> {Buffering, Stopped} \<and> calls r = [] \<and> \<not> backend r \<and> \<not> torque_enabled r \<and> origin_q r = None)"
| "phase_at r TPrepare = (state r = Arming \<and> calls r = [] \<and> \<not> backend r \<and> \<not> torque_enabled r \<and> origin_q r = None)"
| "phase_at r (TEnable m) = (state r = Arming \<and> bus_run BusOff (calls r) = Some BusReady \<and> backend r \<and> \<not> torque_enabled r)"
| "phase_at r TRun = (state r = Arming \<and> bus_run BusOff (calls r) = Some BusOn \<and> backend r \<and> torque_enabled r)"
| "phase_at r (TClosing out c) = (state r \<in> {Arming, Running} \<and> out \<in> set TERMINAL_STATES \<and>
     (if backend r then bus_run BusOff (calls r) \<in> {Some BusReady, Some BusOn} \<and>
         (torque_enabled r \<longrightarrow> bus_run BusOff (calls r) = Some BusOn)
      else calls r = [] \<and> \<not> torque_enabled r))"
| "phase_at r (TFinish out c) = (state r \<in> {Arming, Running} \<and> out \<in> set TERMINAL_STATES \<and> \<not> backend r \<and>
     \<not> torque_enabled r \<and> (calls r = [] \<or> bus_run BusOff (calls r) = Some BusClosed))"
| "phase_at r TDone = (state r \<in> set TERMINAL_STATES \<and> \<not> backend r \<and> \<not> torque_enabled r \<and> terminal_event r \<and>
     (calls r = [] \<or> bus_run BusOff (calls r) = Some BusClosed))"
| "phase_at r _ = (state r = Running \<and> bus_run BusOff (calls r) = Some BusOn \<and> backend r \<and> torque_enabled r)"

definition phase_ok :: "program_run \<Rightarrow> bool" where
  "phase_ok r \<longleftrightarrow> phase_at r (pc (thread r))"

lemma outcome_terminal: "fst (outcome_of e) \<in> set TERMINAL_STATES"
  by (cases e rule: outcome_of.cases) (auto simp: TERMINAL_STATES_def)

lemma phase_at_cong:
  "state r' = state r \<Longrightarrow> calls r' = calls r \<Longrightarrow> backend r' = backend r \<Longrightarrow> torque_enabled r' = torque_enabled r \<Longrightarrow>
   origin_q r' = origin_q r \<Longrightarrow> terminal_event r' = terminal_event r \<Longrightarrow> phase_at r' l = phase_at r l"
  by (cases l) simp_all

lemma phase_fail:
  assumes "state r \<in> {Arming, Running}"
    and "if backend r then bus_run BusOff (calls r) \<in> {Some BusReady, Some BusOn} \<and>
         (torque_enabled r \<longrightarrow> bus_run BusOff (calls r) = Some BusOn) else calls r = [] \<and> \<not> torque_enabled r"
  shows "phase_ok (fail e r)"
  using assms outcome_terminal [of e] by (simp add: phase_ok_def split: if_splits)

lemma phase_goto: "phase_ok (goto l r) = phase_at r l"
  by (cases l) (simp_all add: phase_ok_def)

lemma phase_pace: "phase_at r TTop \<Longrightarrow> phase_ok (pace r p l)"
  by (auto simp: pace_def Let_def phase_goto intro!: phase_fail)

lemma phase_exec_target:
  assumes "phase_at r TTop"
  shows "phase_ok (exec_target r now cursor target a b)"
  using assms
  by (auto simp: exec_target_def Let_def phase_goto bus_run_snoc intro!: phase_fail split: sum.splits prod.splits)

lemma phase_exec_move:
  assumes "phase_at r TTop"
  shows "phase_ok (exec_move r now a b)"
  using assms
  by (auto simp: exec_move_def Let_def phase_goto bus_run_snoc TERMINAL_STATES_def
      intro!: phase_fail phase_exec_target split: sum.splits)

lemma phase_exec_record:
  assumes "phase_at r TTop"
  shows "phase_ok (exec_record r now cursor measured target later)"
  using assms by (auto simp: exec_record_def Let_def intro!: phase_fail phase_pace split: sum.splits)

lemma phase_exec_prepare: "phase_at r TPrepare \<Longrightarrow> phase_ok (exec_prepare r a b)"
  by (auto simp: exec_prepare_def Let_def phase_goto intro!: phase_fail split: sum.splits)

lemma phase_exec_enable: "phase_at r (TEnable m) \<Longrightarrow> phase_ok (exec_enable r m a)"
  by (auto simp: exec_enable_def Let_def phase_goto bus_run_snoc intro!: phase_fail split: sum.splits)

lemma phase_exec_run: "phase_at r TRun \<Longrightarrow> phase_ok (exec_run r now)"
  by (auto simp: exec_run_def Let_def intro!: phase_fail split: sum.splits) (simp add: phase_ok_def)

lemma phase_exec_close: "phase_at r (TClosing out c) \<Longrightarrow> phase_ok (exec_close r out c b)"
  by (auto simp: exec_close_def hold_then_close_def Let_def phase_goto bus_run_snoc split: sum.splits if_splits)

lemma phase_thread_step:
  assumes "phase_ok r"
  shows "phase_ok (thread_step w r)"
proof (cases "pc (thread r)")
  case TTop
  with assms show ?thesis
    by (auto simp: thread_step.simps exec_top_def phase_goto phase_ok_def [of r] TERMINAL_STATES_def)
next
  case TWatch
  with assms show ?thesis
    by (auto simp: thread_step.simps exec_watch_def Let_def phase_goto phase_ok_def [of r] intro!: phase_fail)
next
  case TFinish
  with assms show ?thesis
    by (auto simp: thread_step.simps exec_finish_def Let_def phase_goto phase_ok_def [of r])
qed (use assms phase_exec_prepare phase_exec_enable phase_exec_run phase_exec_move phase_exec_record phase_exec_close in
    \<open>simp_all add: thread_step.simps phase_ok_def [of r]\<close>)

lemma phase_step:
  assumes "run_step E r r'" "phase_ok r"
  shows "phase_ok r'"
  using assms(1)
proof cases
  case (step_append ps seq final digest)
  obtain res r1 where a: "append_chunk E r seq ps final digest = (res, r1)" by fastforce
  show ?thesis
  proof (rule append_chunk_cases [OF a])
    assume "r1 = r" then show ?thesis using a step_append(1) assms(2) by simp
  next
    assume "\<exists>m. r1 = r\<lparr>points := points r @ ps, expected_chunk_seq := expected_chunk_seq r + 1, final_received := final,
             chunk_receipts := m\<rparr>"
    then obtain m where "r1 = r\<lparr>points := points r @ ps, expected_chunk_seq := expected_chunk_seq r + 1,
       final_received := final, chunk_receipts := m\<rparr>" by blast
    note r1 = this
    have "phase_at r1 l = phase_at r l" for l by (rule phase_at_cong) (simp_all add: r1)
    moreover have "thread r1 = thread r" by (simp add: r1)
    ultimately show ?thesis using a step_append(1) assms(2) by (simp add: phase_ok_def)
  qed
next
  case step_start
  have "pc (thread r) = TNone" if "state r = Buffering"
    using assms(2) that by (cases "pc (thread r)") (auto simp: phase_ok_def TERMINAL_STATES_def)
  then show ?thesis unfolding step_start using assms(2) by (auto simp: start_def Let_def phase_ok_def)
next
  case (step_heartbeat now)
  have "phase_at (heartbeat r now) l = phase_at r l" for l by (rule phase_at_cong) (simp_all add: heartbeat_def)
  with step_heartbeat show ?thesis using assms(2) by (simp add: phase_ok_def) (simp add: heartbeat_def)
next
  case step_stop
  have "phase_at (request_stop r) l = phase_at r l" for l by (rule phase_at_cong) (simp_all add: request_stop_def)
  with step_stop show ?thesis using assms(2) by (simp add: phase_ok_def) (simp add: request_stop_def)
next
  case step_lost
  then show ?thesis using assms(2)
    by (cases "pc (thread r)") (auto simp: phase_ok_def connection_lost_def TERMINAL_STATES_def)
next
  case (step_thread w)
  then show ?thesis using phase_thread_step assms(2) by blast
qed

lemma reachable_phase_ok: "run_reachable E r r' \<Longrightarrow> phase_ok r \<Longrightarrow> phase_ok r'"
  by (erule reachable_induct) (auto intro: phase_step)

lemma fresh_phase_ok: "phase_ok (ProgramRun rid h mode digest disconnect pol chz thz hb hold now)"
  by (simp add: phase_ok_def ProgramRun_def idle_thread_def)

text \<open>
  What \<^verbatim>\<open>MotorBackend\<close> promises the run: preparing leaves torque off, a prepared backend can be enabled,
  an enabled one commanded, and closing takes torque off whatever happened before.
\<close>

locale motor_backend =
  fixes ready :: "'b \<Rightarrow> bool" and torque :: "'b \<Rightarrow> bool" and call :: "'b \<Rightarrow> motor_call \<Rightarrow> 'b result"
  assumes prepare: "\<exists>b'. call b MPrepare = Inr b' \<and> ready b' \<and> \<not> torque b'"
    and enable: "ready b \<Longrightarrow> \<exists>b'. call b (MEnable q) = Inr b' \<and> ready b' \<and> torque b'"
    and send: "ready b \<Longrightarrow> torque b \<Longrightarrow> \<exists>b'. call b (MSend q) = Inr b' \<and> ready b' \<and> torque b'"
    and hold: "ready b \<Longrightarrow> torque b \<Longrightarrow> \<exists>b'. call b (MHold q) = Inr b' \<and> ready b' \<and> torque b'"
    and close: "\<exists>b'. call b MClose = Inr b' \<and> \<not> torque b'"
begin

fun matches :: "bus \<Rightarrow> 'b \<Rightarrow> bool" where
  "matches BusOff b = (\<not> torque b)"
| "matches BusReady b = (ready b \<and> \<not> torque b)"
| "matches BusOn b = (ready b \<and> torque b)"
| "matches BusHeld b = (ready b \<and> torque b)"
| "matches BusClosed b = (\<not> torque b)"

lemma step_served: "bus_step s c = Some s' \<Longrightarrow> matches s b \<Longrightarrow> \<exists>b'. call b c = Inr b' \<and> matches s' b'"
  using prepare enable send hold close by (cases "(s, c)" rule: bus_step.cases) auto

lemma calls_served: "bus_run s cs = Some s' \<Longrightarrow> matches s b \<Longrightarrow> \<exists>b'. foldM call b cs = Inr b' \<and> matches s' b'"
proof (induction s cs arbitrary: b rule: bus_run.induct)
  case (2 s c cs)
  then obtain s1 where s1: "bus_step s c = Some s1" "bus_run s1 cs = Some s'" by (auto split: option.splits)
  with step_served [OF s1(1) 2(3)] 2(1) [OF s1] show ?case by auto
qed simp

end

interpretation sim: motor_backend sim_connected sim_torque_enabled sim_call
  by unfold_locales auto

lemma phase_bus:
  assumes "phase_ok r"
  shows "\<exists>s. bus_run BusOff (calls r) = Some s \<and> (torque_enabled r \<longrightarrow> s = BusOn \<and> state r \<in> {Arming, Running}) \<and>
    (state r \<in> set TERMINAL_STATES \<longrightarrow> \<not> torque_enabled r \<and> \<not> backend r \<and> s \<in> {BusOff, BusClosed})"
proof (cases "pc (thread r)")
  case (TClosing out c)
  with assms show ?thesis by (auto simp: phase_ok_def TERMINAL_STATES_def split: if_splits)
next
  case (TFinish out c)
  with assms show ?thesis by (auto simp: phase_ok_def TERMINAL_STATES_def)
qed (use assms in \<open>auto simp: phase_ok_def TERMINAL_STATES_def\<close>)

text \<open>
  C21. Motor bus discipline. In every interleaving, the calls a run makes on its backend follow the
  order prepare, enable, targets, hold, close: no target is sent before torque was enabled and
  torque is never enabled on an unprepared bus. The torque flag is only set while the bus is on
  and the run arming or running; a run in a terminal state has closed every bus it prepared, and
  the simulated backend serves the whole sequence without raising and ends with torque off.
\<close>

theorem motor_bus_discipline:
  assumes "run_reachable E (ProgramRun rid h mode digest disconnect pol chz thz hb hold now) r"
  shows "\<exists>s b. bus_run BusOff (calls r) = Some s \<and> foldM sim_call SimulatedBackend (calls r) = Inr b \<and>
    (torque_enabled r \<longrightarrow> s = BusOn \<and> state r \<in> {Arming, Running} \<and> sim_torque_enabled b) \<and>
    (state r \<in> set TERMINAL_STATES \<longrightarrow>
       \<not> torque_enabled r \<and> \<not> backend r \<and> s \<in> {BusOff, BusClosed} \<and> \<not> sim_torque_enabled b)"
proof -
  have "phase_ok r" by (rule reachable_phase_ok [OF assms fresh_phase_ok])
  from phase_bus [OF this] obtain s where s: "bus_run BusOff (calls r) = Some s"
    "torque_enabled r \<longrightarrow> s = BusOn \<and> state r \<in> {Arming, Running}"
    "state r \<in> set TERMINAL_STATES \<longrightarrow> \<not> torque_enabled r \<and> \<not> backend r \<and> s \<in> {BusOff, BusClosed}" by blast
  have "sim.matches BusOff SimulatedBackend" by (simp add: SimulatedBackend_def)
  from sim.calls_served [OF s(1) this] obtain b where "foldM sim_call SimulatedBackend (calls r) = Inr b" "sim.matches s b"
    by blast
  with s show ?thesis by auto
qed

section \<open>Stopping\<close>

definition sends :: "program_run \<Rightarrow> nat" where
  "sends r = length (filter (\<lambda>c. case c of MSend q \<Rightarrow> True | _ \<Rightarrow> False) (calls r))"

text \<open>Targets the thread may still send before it next looks at the stop flag.\<close>

fun in_flight :: "thread_pc \<Rightarrow> nat" where
  "in_flight (TWatch t) = 1"
| "in_flight (TMove t) = 1"
| "in_flight _ = 0"

lemma sends_same: "calls r' = calls r \<Longrightarrow> sends r' = sends r"
  by (simp add: sends_def)

lemma sends_motor: "sends (motor c r) = sends r + (case c of MSend q \<Rightarrow> 1 | _ \<Rightarrow> 0)"
  by (cases c) (simp_all add: sends_def)

lemma sends_sel [simp]:
  "sends (fail e r) = sends r" "sends (goto l r) = sends r" "sends (emit v r) = sends r"
  "sends (r\<lparr>thread := t\<rparr>) = sends r" "sends (r\<lparr>backend := x\<rparr>) = sends r" "sends (r\<lparr>torque_enabled := x\<rparr>) = sends r"
  "sends (r\<lparr>cursor_us := n\<rparr>) = sends r" "sends (r\<lparr>state := st\<rparr>) = sends r" "sends (set_violations k r) = sends r"
  by (simp_all add: sends_def)

definition budget :: "program_run \<Rightarrow> nat" where
  "budget r = sends r + in_flight (pc (thread r))"

lemma budget_fail [simp]: "budget (fail e r) = sends r"
  by (simp add: budget_def)

lemma budget_goto: "budget (goto l r) = sends r + in_flight l"
  by (simp add: budget_def)

lemma budget_exec_target: "budget (exec_target r now cursor target a b) \<le> sends r + 1"
  by (auto simp: exec_target_def Let_def budget_goto sends_motor split: sum.splits prod.splits)

lemma budget_exec_move: "budget (exec_move r now a b) \<le> sends r + 1"
proof -
  have "budget (exec_target (r\<lparr>thread := t\<rparr>) now c q a b) \<le> sends r + 1" for t c q
    using budget_exec_target [of "r\<lparr>thread := t\<rparr>" now c q a b] by simp
  then show ?thesis by (auto simp: exec_move_def Let_def budget_goto sends_motor split: sum.splits)
qed

lemma budget_pace: "budget (pace r p l) = sends r"
  by (simp add: pace_def Let_def budget_goto)

lemma budget_exec_record: "budget (exec_record r now cursor measured target later) = sends r"
proof -
  have "sends (send_telemetry r1 a b c d) = sends r1" for r1 a b c d by (rule sends_same) simp
  then show ?thesis
    by (auto simp: exec_record_def Let_def budget_pace sends_same [of "r\<lparr>cursor_us := _, measured_q := _, target_q := _\<rparr>" r]
        split: sum.splits)
qed

lemma stopped_thread_budget:
  assumes "stop_event r"
  shows "budget (thread_step w r) \<le> budget r"
proof (cases "pc (thread r)")
  case TRun
  then show ?thesis
    by (auto simp: thread_step.simps exec_run_def Let_def budget_def [of r] split: sum.splits) (simp add: budget_def)
next
  case TClosing
  then show ?thesis
    by (auto simp: thread_step.simps exec_close_def hold_then_close_def Let_def budget_goto budget_def [of r] sends_motor
        split: sum.splits)
next
  case TFinish
  then show ?thesis
    by (auto simp: thread_step.simps exec_finish_def Let_def budget_goto budget_def [of r] sends_same [of "r\<lparr>state := _, terminal_event := _\<rparr>" r])
next
  case TPrepare
  then show ?thesis
    by (auto simp: thread_step.simps exec_prepare_def Let_def budget_goto budget_def [of r] sends_motor
        sends_same [of "(motor MPrepare (r\<lparr>backend := True\<rparr>))\<lparr>origin_q := _, measured_q := _\<rparr>" "motor MPrepare (r\<lparr>backend := True\<rparr>)"]
        split: sum.splits)
qed (use assms budget_exec_move [of r] in \<open>auto simp: thread_step.simps budget_exec_record exec_enable_def exec_top_def exec_watch_def Let_def
     budget_goto budget_def [of r] intro: order_trans\<close>)

lemma request_pc: "stop_event r \<Longrightarrow> run_step E r r' \<Longrightarrow> stop_event r' \<and> budget r' \<le> budget r"
proof (erule run_step.cases)
  fix r1 ps seq final digest
  assume s: "stop_event r" "r = r1" "r' = snd (append_chunk E r1 seq ps final digest)"
  obtain res r2 where a: "append_chunk E r1 seq ps final digest = (res, r2)" by fastforce
  show ?thesis by (rule append_chunk_cases [OF a]) (use s a in \<open>auto simp: budget_def sends_def\<close>)
next
  fix r1 w
  assume "stop_event r" "r = r1" "r' = thread_step w r1"
  then show ?thesis using thread_step_untouched [of r w] stopped_thread_budget [of r w] by (simp add: untouched_def)
qed (auto simp: start_def heartbeat_def request_stop_def connection_lost_def Let_def budget_def sends_def)

text \<open>Pieces the thread still needs once it has seen the stop flag.\<close>

fun pieces_left :: "thread_pc \<Rightarrow> nat" where
  "pieces_left TDone = 0"
| "pieces_left (TFinish out c) = 1"
| "pieces_left (TClosing out c) = 2"
| "pieces_left TTop = 3"
| "pieces_left (TEnable m) = 3"
| "pieces_left (TRecord a b c d) = 4"
| "pieces_left TRun = 4"
| "pieces_left TPrepare = 4"
| "pieces_left (TMove t) = 5"
| "pieces_left (TWatch t) = 6"
| "pieces_left TNone = 0"

lemma pieces_left_le: "pieces_left l \<le> 6"
  by (cases l) simp_all

lemma pc_pace: "pc (thread (pace r p l)) = TTop \<or> (\<exists>out c. pc (thread (pace r p l)) = TClosing out c)"
  by (auto simp: pace_def Let_def)

lemma pieces_left_decrease:
  assumes "stop_event r" "pc (thread r) \<noteq> TNone" "pc (thread r) \<noteq> TDone"
  shows "pieces_left (pc (thread (thread_step w r))) < pieces_left (pc (thread r))
    \<and> pc (thread (thread_step w r)) \<noteq> TNone"
proof (cases "pc (thread r)")
  case (TRecord now cursor measured target)
  have "pc (thread (exec_record r now cursor measured target (w_later w))) = TTop \<or>
      (\<exists>out c. pc (thread (exec_record r now cursor measured target (w_later w))) = TClosing out c)"
    using pc_pace by (auto simp: exec_record_def Let_def split: sum.splits)
  then show ?thesis using TRecord by (auto simp: thread_step.simps)
next
  case (TMove now)
  have "(\<exists>a b c d. pc (thread (exec_target r1 now x q u v)) = TRecord a b c d) \<or>
      (\<exists>out c. pc (thread (exec_target r1 now x q u v)) = TClosing out c)" for r1 x q u v
    by (auto simp: exec_target_def Let_def split: sum.splits prod.splits)
  then have "(\<exists>a b c d. pc (thread (exec_move r now u v)) = TRecord a b c d) \<or>
      (\<exists>out c. pc (thread (exec_move r now u v)) = TClosing out c)" for u v
    by (auto simp: exec_move_def Let_def split: sum.splits)
  from this [of "w_pose w" "w_unit w"] TMove show ?thesis by (auto simp: thread_step.simps)
qed (use assms in \<open>auto simp: thread_step.simps exec_prepare_def exec_enable_def exec_run_def exec_top_def exec_watch_def
     exec_close_def exec_finish_def Let_def split: sum.splits\<close>)

lemma stopped_thread_ends:
  "stop_event r \<Longrightarrow> pc (thread r) \<noteq> TNone \<Longrightarrow> pieces_left (pc (thread r)) \<le> length ws \<Longrightarrow>
   pc (thread (fold thread_step ws r)) = TDone"
proof (induction ws arbitrary: r)
  case Nil
  then show ?case by (cases "pc (thread r)") auto
next
  case (Cons w ws)
  show ?case
  proof (cases "pc (thread r) = TDone")
    case True
    then have "fold thread_step (w # ws) r = r" by (induction ws) (auto simp: thread_step.simps)
    with True show ?thesis by simp
  next
    case False
    have "stop_event (thread_step w r)" using Cons.prems(1) thread_step_untouched [of r w] by (simp add: untouched_def)
    with pieces_left_decrease [OF Cons.prems(1,2) False, of w] Cons.prems(3) show ?thesis
      by (simp add: Cons.IH)
  qed
qed

text \<open>
  C22. A stop request takes effect. Once the stop flag is set it stays set; in any further
  interleaving of requests and thread steps at most one more target reaches the motors; and six
  further steps of a started motor thread, whatever the clock and the bus answer, bring it to its
  end: terminal state, bus closed, torque off.
\<close>

theorem stop_takes_effect:
  assumes "run_reachable E (ProgramRun rid h mode digest disconnect pol chz thz hb hold now) r" "stop_event r"
  shows "(\<forall>r'. run_reachable E r r' \<longrightarrow> stop_event r' \<and> sends r' \<le> sends r + 1) \<and>
    (\<forall>ws. pc (thread r) \<noteq> TNone \<and> 6 \<le> length ws \<longrightarrow>
       (let r' = fold thread_step ws r in
        state r' \<in> set TERMINAL_STATES \<and> terminal_event r' \<and> \<not> backend r' \<and> \<not> torque_enabled r'))"
proof (intro conjI allI impI)
  fix r' assume "run_reachable E r r'"
  then have "stop_event r' \<and> budget r' \<le> budget r"
    using assms(2) by (induction rule: run_reachable.induct) (auto dest: request_pc)
  moreover have "in_flight (pc (thread r)) \<le> 1" by (cases "pc (thread r)") simp_all
  ultimately show "stop_event r'" "sends r' \<le> sends r + 1" by (auto simp: budget_def)
next
  fix ws :: "world list"
  assume ws: "pc (thread r) \<noteq> TNone \<and> 6 \<le> length ws"
  have "phase_ok (fold thread_step ws r)"
    using reachable_phase_ok [OF assms(1) fresh_phase_ok]
    by (induction ws arbitrary: r) (auto intro: phase_thread_step)
  moreover have "pc (thread (fold thread_step ws r)) = TDone"
    using stopped_thread_ends [OF assms(2)] ws pieces_left_le order_trans by blast
  ultimately show "let r' = fold thread_step ws r in
      state r' \<in> set TERMINAL_STATES \<and> terminal_event r' \<and> \<not> backend r' \<and> \<not> torque_enabled r'"
    by (simp add: phase_ok_def)
qed

section \<open>Commanded poses\<close>

definition policy_bounded :: "rat \<Rightarrow> safety_policy \<Rightarrow> bool" where
  "policy_bounded B pol \<longleftrightarrow> 1 \<le> B \<and> B \<le> 2 ^ 40 \<and>
     (\<forall>j < 6. \<exists>lo hi. joint_min_deg pol ! j = Fin lo \<and> joint_max_deg pol ! j = Fin hi \<and> \<bar>lo\<bar> \<le> B \<and> \<bar>hi\<bar> \<le> B) \<and>
     (\<exists>m. max_relative_deg pol = Fin m \<and> m \<le> B)"

definition pose_safe :: "rat \<Rightarrow> safety_policy \<Rightarrow> rat \<Rightarrow> pyfloat list \<Rightarrow> bool" where
  "pose_safe tol pol B q \<longleftrightarrow> length q = 6 \<and> (\<forall>j < 6. \<exists>c lo hi. q ! j = Fin c \<and>
     joint_min_deg pol ! j = Fin lo \<and> joint_max_deg pol ! j = Fin hi \<and> lo - B * tol \<le> c \<and> c \<le> hi + B * tol)"

lemma fle_Fin: "fle (Fin lo) x \<Longrightarrow> fle x (Fin hi) \<Longrightarrow> \<exists>c. x = Fin c \<and> lo \<le> c \<and> c \<le> hi"
  by (cases x) (auto simp: fle_def)

lemma sum_within:
  assumes x: "fround (o' + a) = Fin x" "lo \<le> x" "x \<le> hi" and B: "\<bar>lo\<bar> \<le> B" "\<bar>hi\<bar> \<le> B" "1 \<le> B"
  shows "lo - B / 2 ^ 50 \<le> o' + a" "o' + a \<le> hi + B / 2 ^ 50" "\<bar>o' + a\<bar> \<le> 2 * B"
proof -
  define y where "y = o' + a"
  have e: "\<bar>x - y\<bar> \<le> \<bar>y\<bar> / 2 ^ 53 + eta" using fround_error [OF x(1)] by (simp add: y_def)
  have et: "eta \<le> B / 2 ^ 53" using eta_small B(3) by simp
  have "B / 2 ^ 53 \<le> B / 2" "\<bar>y\<bar> / 2 ^ 53 \<le> \<bar>y\<bar> / 4" using B(3) by simp_all
  moreover have "\<bar>x\<bar> \<le> B" using x(2,3) B by linarith
  ultimately have y2: "\<bar>y\<bar> \<le> 2 * B" using e et by linarith
  then have "\<bar>y\<bar> / 2 ^ 53 \<le> 2 * B / 2 ^ 53" by (intro divide_right_mono) auto
  with et have "\<bar>y\<bar> / 2 ^ 53 + eta \<le> B / 2 ^ 50" using B(3) by simp
  with e have "\<bar>x - y\<bar> \<le> B / 2 ^ 50" by linarith
  with x(2,3) y2 show "lo - B / 2 ^ 50 \<le> o' + a" "o' + a \<le> hi + B / 2 ^ 50" "\<bar>o' + a\<bar> \<le> 2 * B"
    unfolding y_def by linarith+
qed

lemma resolved_within:
  assumes "fle (Fin lo) (fadd (Fin o') (Fin a))" "fle (fadd (Fin o') (Fin a)) (Fin hi)"
    and "fle (Fin lo) (fadd (Fin o') (Fin b))" "fle (fadd (Fin o') (Fin b)) (Fin hi)"
    and c: "min a b - B / 2 ^ 37 \<le> c" "c \<le> max a b + B / 2 ^ 37"
    and B: "\<bar>lo\<bar> \<le> B" "\<bar>hi\<bar> \<le> B" "1 \<le> B" "B \<le> 2 ^ 40"
  obtains d where "fadd (Fin o') (Fin c) = Fin d" "lo - B / 2 ^ 36 \<le> d" "d \<le> hi + B / 2 ^ 36"
proof -
  obtain x where x: "fround (o' + a) = Fin x" "lo \<le> x" "x \<le> hi" using fle_Fin [OF assms(1,2)] by auto
  obtain y where y: "fround (o' + b) = Fin y" "lo \<le> y" "y \<le> hi" using fle_Fin [OF assms(3,4)] by auto
  note wa = sum_within [OF x B(1-3)] and wb = sum_within [OF y B(1-3)]
  have lo: "lo - B / 2 ^ 50 - B / 2 ^ 37 \<le> o' + c" and hi: "o' + c \<le> hi + B / 2 ^ 50 + B / 2 ^ 37"
    using wa wb c by (auto simp: min_def max_def split: if_splits)
  have "B / 2 ^ 50 \<le> B" "B / 2 ^ 37 \<le> B" using B(3) by simp_all
  then have oc: "\<bar>o' + c\<bar> \<le> 16 * B" using lo hi B by linarith
  have "B \<le> 2 ^ 60" using B(4) by simp
  then obtain d where d: "fround (o' + c) = Fin d" "\<bar>d - (o' + c)\<bar> \<le> B / 2 ^ 48"
    by (rule fround_scaled [OF oc B(3)])
  have "B / 2 ^ 50 + B / 2 ^ 37 + B / 2 ^ 48 \<le> B / 2 ^ 36" using B(3) by simp
  with lo hi d(2) have "lo - B / 2 ^ 36 \<le> d" "d \<le> hi + B / 2 ^ 36" by linarith+
  with that d(1) show thesis by simp
qed

lemma interpolated_hull:
  assumes "bounded_pair B p q" "1 \<le> B" "B \<le> 2 ^ 40" "interpolate_quintic p q t = Inr qs"
  shows "length qs = length (q_deg p)"
    and "i < length (q_deg p) \<Longrightarrow> \<exists>a b c. q_deg p ! i = Fin a \<and> q_deg q ! i = Fin b \<and> qs ! i = Fin c \<and>
      min a b - B / 2 ^ 37 \<le> c \<and> c \<le> max a b + B / 2 ^ 37"
proof -
  have B0: "0 \<le> B / 2 ^ 37" using assms(2) by simp
  have "length qs = length (q_deg p) \<and> (i < length (q_deg p) \<longrightarrow>
      (\<exists>a b c. q_deg p ! i = Fin a \<and> q_deg q ! i = Fin b \<and> qs ! i = Fin c \<and>
        min a b - B / 2 ^ 37 \<le> c \<and> c \<le> max a b + B / 2 ^ 37))" for i
  proof (cases "t_us p < t \<and> t < t_us q")
    case True
    then have tt: "t_us p < t_us q" "t_us p \<le> t" "t \<le> t_us q" by auto
    define u where "u = (of_int (t - t_us p) / of_int (t_us q - t_us p) :: rat)"
    have u: "0 \<le> u" "u \<le> 1" using True by (simp_all add: u_def divide_le_eq)
    have "B \<le> 2 ^ 60" using assms(3) by simp
    from interpolate_rational [OF tt assms(1,2) this] assms(4) have len: "length qs = length (q_deg p)"
      and val: "\<And>i. i < length qs \<Longrightarrow> \<exists>a b c. q_deg p ! i = Fin a \<and> q_deg q ! i = Fin b \<and> qs ! i = Fin c \<and>
         \<bar>c - (a + (b - a) * ss u)\<bar> \<le> B / 2 ^ 37" by (auto simp: u_def)
    have "min a b - B / 2 ^ 37 \<le> c \<and> c \<le> max a b + B / 2 ^ 37" if "\<bar>c - (a + (b - a) * ss u)\<bar> \<le> B / 2 ^ 37" for a b c
      using that ss_hull [OF u, of a b] by linarith
    with len val [of i] show ?thesis by metis
  next
    case False
    then have "qs = q_deg p \<or> qs = q_deg q" using assms(4) by (auto simp: interpolate_quintic_def split: if_splits)
    with assms(1) B0 show ?thesis unfolding bounded_pair_def by fastforce
  qed
  then show "length qs = length (q_deg p)" "i < length (q_deg p) \<Longrightarrow> \<exists>a b c. q_deg p ! i = Fin a \<and> q_deg q ! i = Fin b \<and> qs ! i = Fin c \<and>
      min a b - B / 2 ^ 37 \<le> c \<and> c \<le> max a b + B / 2 ^ 37" by blast+
qed

lemma points_pair:
  assumes "buffer_ok E r" "policy_bounded B (policy r)" "p \<in> set (points r)" "q \<in> set (points r)"
  shows "bounded_pair B p q"
proof -
  have val: "\<exists>a. x ! j = Fin a \<and> \<bar>a\<bar> \<le> B" if "w \<in> set (points r)" "x = q_deg w" "j < 6" for w x j
  proof -
    have w: "length x = 6" "list_all isfinite x" "validate_position (policy r) w (ph_coordinate_mode (header r)) = Inr ()"
      using assms(1) that by (auto simp: buffer_ok_def checked_trajectory_def)
    then obtain a where a: "x ! j = Fin a" using \<open>j < 6\<close> by (cases "x ! j") (auto simp: list_all_length)
    have "\<bar>a\<bar> \<le> B"
    proof (cases "ph_coordinate_mode (header r) = ''relative_deg''")
      case True
      have f: "forM (\<lambda>(i, v). raise_if (flt (max_relative_deg (policy r)) (fabs v)) (ProtocolError ''LIMIT_VIOLATION'') (Inr ()))
          (zip [0..<length JOINTS] x) = Inr ()"
        using w(3) True \<open>x = q_deg w\<close> by (simp add: validate_position_def)
      show ?thesis using forM_zip_index [OF f, of j] a w(1) \<open>j < 6\<close> assms(2) by (auto simp: policy_bounded_def)
    next
      case False
      from validate_position_absolute(2) [OF w(3) False \<open>j < 6\<close>] a \<open>x = q_deg w\<close> assms(2) \<open>j < 6\<close>
      show ?thesis by (force simp: policy_bounded_def fle_def)
    qed
    with a show ?thesis by blast
  qed
  have "length (q_deg p) = 6" "length (q_deg q) = 6" using assms by (auto simp: buffer_ok_def)
  with val [OF assms(3) refl] val [OF assms(4) refl] show ?thesis by (fastforce simp: bounded_pair_def)
qed

text \<open>While the thread executes, the origin is known and every buffered point is admissible from it.\<close>

fun executing :: "thread_pc \<Rightarrow> bool" where
  "executing (TEnable m) = True"
| "executing TRun = True"
| "executing TTop = True"
| "executing (TWatch t) = True"
| "executing (TMove t) = True"
| "executing (TRecord a b c d) = True"
| "executing _ = False"

definition origin_ok :: "program_run \<Rightarrow> bool" where
  "origin_ok r \<longleftrightarrow> (\<exists>q. origin_q r = Some q \<and> length q = 6 \<and> list_all isfinite q) \<and>
     (\<forall>p \<in> set (points r). validate_resolved_position r p = Inr ())"

lemma resolved_cong:
  "header r' = header r \<Longrightarrow> policy r' = policy r \<Longrightarrow> origin_q r' = origin_q r \<Longrightarrow>
   validate_resolved_position r' p = validate_resolved_position r p"
  by (simp only: validate_resolved_position_def)

lemma origin_ok_cong:
  "header r' = header r \<Longrightarrow> policy r' = policy r \<Longrightarrow> origin_q r' = origin_q r \<Longrightarrow> points r' = points r \<Longrightarrow>
   origin_ok r' = origin_ok r"
  by (simp add: origin_ok_def resolved_cong [of r' r])

lemma resolved_relative:
  assumes "validate_resolved_position r p = Inr ()" "ph_coordinate_mode (header r) = ''relative_deg''"
    and "origin_q r = Some q" "length q = 6" "length (q_deg p) = 6" "j < 6"
  shows "fle (joint_min_deg (policy r) ! j) (fadd (q ! j) (q_deg p ! j)) \<and>
    fle (fadd (q ! j) (q_deg p ! j)) (joint_max_deg (policy r) ! j)"
proof -
  let ?v = "map (\<lambda>(x, y). fadd x y) (zip q (q_deg p))"
  have f: "forM (\<lambda>(i, v). within_limits (policy r) i v) (zip [0..<length JOINTS] ?v) = Inr ()"
    using assms(1-5) by (simp add: validate_resolved_position_def array_add_def)
  from forM_zip_index [OF f, of j] assms(4-6) show ?thesis
    by (auto simp: within_limits_def py_index_def split: if_splits)
qed

text \<open>What \<^verbatim>\<open>_resolve\<close> makes of an interpolated or final pose.\<close>

lemma resolved_safe:
  assumes ok: "origin_ok r" "buffer_ok E r" "policy_bounded B (policy r)"
    and pq: "p \<in> set (points r)" "q \<in> set (points r)"
    and c: "length qs = 6" "\<And>i. i < 6 \<Longrightarrow> \<exists>a b c. q_deg p ! i = Fin a \<and> q_deg q ! i = Fin b \<and> qs ! i = Fin c \<and>
      min a b - B / 2 ^ 37 \<le> c \<and> c \<le> max a b + B / 2 ^ 37"
    and res: "resolve r qs = Inr target"
  shows "pose_safe (1 / 2 ^ 36) (policy r) B target"
proof -
  note pb = ok(3) [unfolded policy_bounded_def]
  have B37: "B / 2 ^ 37 \<le> B / 2 ^ 36" using pb by simp
  have len: "length (q_deg p) = 6" "length (q_deg q) = 6" using ok(2) pq by (auto simp: buffer_ok_def)
  show ?thesis
  proof (cases "ph_coordinate_mode (header r) = ''relative_deg''")
    case False
    then have t: "target = qs" using res by (simp add: resolve_def)
    have "\<exists>c lo hi. target ! j = Fin c \<and> joint_min_deg (policy r) ! j = Fin lo \<and> joint_max_deg (policy r) ! j = Fin hi \<and>
        lo - B * (1 / 2 ^ 36) \<le> c \<and> c \<le> hi + B * (1 / 2 ^ 36)" if j: "j < 6" for j
    proof -
      obtain lo hi where l: "joint_min_deg (policy r) ! j = Fin lo" "joint_max_deg (policy r) ! j = Fin hi" using pb j by blast
      obtain a b c where abc: "q_deg p ! j = Fin a" "q_deg q ! j = Fin b" "qs ! j = Fin c"
        "min a b - B / 2 ^ 37 \<le> c" "c \<le> max a b + B / 2 ^ 37" using c(2) [OF j] by blast
      have "lo \<le> x \<and> x \<le> hi" if "w \<in> set (points r)" "q_deg w ! j = Fin x" for w x
        using validate_position_absolute(2) [of "policy r" w "ph_coordinate_mode (header r)" j] that False j l ok(2)
        by (auto simp: buffer_ok_def checked_trajectory_def fle_def)
      from this [OF pq(1) abc(1)] this [OF pq(2) abc(2)] abc(4,5) B37
      have "lo - B / 2 ^ 36 \<le> c" "c \<le> hi + B / 2 ^ 36" by (auto simp: min_def max_def split: if_splits)
      with l abc(3) t show ?thesis by auto
    qed
    with c(1) t show ?thesis by (simp add: pose_safe_def)
  next
    case True
    from ok(1) obtain o' where o': "origin_q r = Some o'" "length o' = 6" "list_all isfinite o'" by (auto simp: origin_ok_def)
    have t: "target = map (\<lambda>(x, y). fadd x y) (zip o' qs)"
      using res True o' c(1) by (simp add: resolve_def array_add_def)
    have "\<exists>d lo hi. target ! j = Fin d \<and> joint_min_deg (policy r) ! j = Fin lo \<and> joint_max_deg (policy r) ! j = Fin hi \<and>
        lo - B * (1 / 2 ^ 36) \<le> d \<and> d \<le> hi + B * (1 / 2 ^ 36)" if j: "j < 6" for j
    proof -
      obtain lo hi where l: "joint_min_deg (policy r) ! j = Fin lo" "joint_max_deg (policy r) ! j = Fin hi"
        "\<bar>lo\<bar> \<le> B" "\<bar>hi\<bar> \<le> B" using pb j by blast
      obtain x where x: "o' ! j = Fin x" using o' j by (cases "o' ! j") (auto simp: list_all_length)
      obtain a b c where abc: "q_deg p ! j = Fin a" "q_deg q ! j = Fin b" "qs ! j = Fin c"
        "min a b - B / 2 ^ 37 \<le> c" "c \<le> max a b + B / 2 ^ 37" using c(2) [OF j] by blast
      have rp: "validate_resolved_position r p = Inr ()" "validate_resolved_position r q = Inr ()"
        using ok(1) pq by (auto simp: origin_ok_def)
      have "fle (Fin lo) (fadd (Fin x) (Fin a))" "fle (fadd (Fin x) (Fin a)) (Fin hi)"
        "fle (Fin lo) (fadd (Fin x) (Fin b))" "fle (fadd (Fin x) (Fin b)) (Fin hi)"
        using resolved_relative [OF rp(1) True o'(1,2) len(1) j] resolved_relative [OF rp(2) True o'(1,2) len(2) j]
        by (simp_all add: abc x l(1,2) del: fadd.simps)
      then obtain d where "fadd (Fin x) (Fin c) = Fin d" "lo - B / 2 ^ 36 \<le> d" "d \<le> hi + B / 2 ^ 36"
        using resolved_within [OF _ _ _ _ abc(4,5) l(3,4)] pb by blast
      then show ?thesis using l x abc(3) t o'(2) c(1) j by auto
    qed
    with c(1) o'(2) t show ?thesis by (simp add: pose_safe_def)
  qed
qed

definition commanded_ok :: "rat \<Rightarrow> program_run \<Rightarrow> bool" where
  "commanded_ok B r \<longleftrightarrow> (executing (pc (thread r)) \<longrightarrow> origin_ok r) \<and>
     (\<forall>q. MSend q \<in> set (calls r) \<longrightarrow> pose_safe (1 / 2 ^ 36) (policy r) B q)"

lemma commanded_target:
  assumes "commanded_ok B r" "executing (pc (thread r))" "pose_safe (1 / 2 ^ 36) (policy r) B target"
  shows "commanded_ok B (exec_target r now cursor target a b)"
proof -
  have c: "MSend q \<in> set (calls (exec_target r now cursor target a b)) \<Longrightarrow> MSend q \<in> set (calls r) \<or> q = target" for q
    by (auto simp: exec_target_def Let_def split: sum.splits prod.splits if_splits)
  have e: "origin_ok (exec_target r now cursor target a b) = origin_ok r"
    by (rule origin_ok_cong) (use exec_target_untouched [of r now cursor target a b] in \<open>auto simp: untouched_def\<close>)
  have "policy (exec_target r now cursor target a b) = policy r"
    using exec_target_untouched [of r now cursor target a b] by (simp add: untouched_def)
  with assms c e show ?thesis unfolding commanded_ok_def by auto
qed

lemma advance_segment_index: "i < length ps \<Longrightarrow> advance_segment ps c i < length ps"
  by (induction ps c i rule: advance_segment.induct) (simp add: advance_segment.simps)

lemma last_pose_safe:
  assumes "origin_ok r" "buffer_ok E r" "policy_bounded B (policy r)" "points r \<noteq> []"
    and "resolve r (q_deg (last (points r))) = Inr target"
  shows "pose_safe (1 / 2 ^ 36) (policy r) B target"
proof (rule resolved_safe [OF assms(1-3) _ _ _ _ assms(5)])
  show l: "last (points r) \<in> set (points r)" "last (points r) \<in> set (points r)" using assms(4) by simp_all
  show l6: "length (q_deg (last (points r))) = 6" using assms(2) l by (simp add: buffer_ok_def)
  have "0 \<le> B / 2 ^ 37" using assms(3) by (simp add: policy_bounded_def)
  then show "\<exists>a b c. q_deg (last (points r)) ! i = Fin a \<and> q_deg (last (points r)) ! i = Fin b \<and>
      q_deg (last (points r)) ! i = Fin c \<and> min a b - B / 2 ^ 37 \<le> c \<and> c \<le> max a b + B / 2 ^ 37" if "i < 6" for i
    using points_pair [OF assms(2,3) l] that l6 unfolding bounded_pair_def by fastforce
qed

lemma interpolated_pose_safe:
  assumes "origin_ok r" "buffer_ok E r" "policy_bounded B (policy r)" "p \<in> set (points r)" "q \<in> set (points r)"
    and "interpolate_quintic p q t = Inr qs" "resolve r qs = Inr target"
  shows "pose_safe (1 / 2 ^ 36) (policy r) B target"
proof -
  have "length (q_deg p) = 6" using assms(2,4) by (simp add: buffer_ok_def)
  with interpolated_hull [OF points_pair [OF assms(2-5)] _ _ assms(6)] assms(3) show ?thesis
    by (intro resolved_safe [OF assms(1-5) _ _ assms(7)]) (auto simp: policy_bounded_def)
qed

lemma commanded_fail: "commanded_ok B r \<Longrightarrow> commanded_ok B (fail e r)"
  by (simp add: commanded_ok_def)

lemma commanded_thread:
  assumes "pc t = pc (thread r)"
  shows "commanded_ok B (r\<lparr>thread := t\<rparr>) = commanded_ok B r"
  using assms origin_ok_cong [of "r\<lparr>thread := t\<rparr>" r] by (simp add: commanded_ok_def)

lemma commanded_send:
  assumes "commanded_ok B r" "pose_safe (1 / 2 ^ 36) (policy r) B target"
  shows "commanded_ok B (motor (MSend target) r)"
  using assms origin_ok_cong [of "motor (MSend target) r" r] by (auto simp: commanded_ok_def)

lemma commanded_move:
  assumes ok: "commanded_ok B r" "executing (pc (thread r))" "buffer_ok E r" "policy_bounded B (policy r)" "points r \<noteq> []"
  shows "commanded_ok B (exec_move r now a b)"
proof (cases "float_to_int (fmul (fsub now (started (thread r))) (Fin 1000000))")
  case (Inl e)
  then show ?thesis using ok(1) by (simp add: exec_move_def commanded_fail)
next
  case (Inr elapsed)
  define cursor where "cursor = max 0 elapsed"
  define i where "i = advance_segment (points r) cursor (segment_index (thread r))"
  define r1 where "r1 = r\<lparr>thread := (thread r)\<lparr>segment_index := i\<rparr>\<rparr>"
  have r1: "commanded_ok B r1" "executing (pc (thread r1))" "policy r1 = policy r" "origin_ok r" "resolve r1 = resolve r"
    using ok(1,2) commanded_thread [of "(thread r)\<lparr>segment_index := i\<rparr>" r B]
    by (auto simp: r1_def commanded_ok_def resolve_def fun_eq_iff)
  note mv = exec_move_def [of r now a b, unfolded Inr Let_def sum.case, folded cursor_def, folded i_def, folded r1_def]
  show ?thesis
  proof (cases "length (points r) \<le> i + 1")
    case True
    show ?thesis
    proof (cases "resolve r (q_deg (last (points r)))")
      case (Inl e)
      then show ?thesis using True r1 by (simp add: mv commanded_fail)
    next
      case (Inr target)
      have "commanded_ok B (motor (MSend target) r1)"
        using last_pose_safe [OF r1(4) ok(3-5) Inr] r1(1,3) by (simp add: commanded_send)
      moreover from this have "commanded_ok B (goto (TClosing Completed None) ((motor (MSend target) r1)\<lparr>cursor_us := n\<rparr>))" for n
        by (simp add: commanded_ok_def)
      ultimately show ?thesis using True Inr r1 by (auto simp: mv intro: commanded_fail split: sum.split)
    qed
  next
    case False
    then have mem: "points r ! i \<in> set (points r)" "points r ! (i + 1) \<in> set (points r)" by simp_all
    show ?thesis
    proof (cases "bind (interpolate_quintic (points r ! i) (points r ! (i + 1)) cursor) (resolve r)")
      case (Inl e)
      then show ?thesis using False r1 by (simp add: mv commanded_fail)
    next
      case (Inr target)
      then obtain qs where "interpolate_quintic (points r ! i) (points r ! (i + 1)) cursor = Inr qs" "resolve r qs = Inr target" by auto
      note safe = interpolated_pose_safe [OF r1(4) ok(3,4) mem this]
      have "commanded_ok B (exec_target r1 now cursor target a b)"
        by (rule commanded_target [OF r1(1,2)]) (use safe r1(3) in simp)
      with False show ?thesis unfolding mv r1(5) Inr by simp
    qed
  qed
qed

lemma commanded_same:
  assumes "commanded_ok B r" "calls r' = calls r" "header r' = header r" "policy r' = policy r" "origin_q r' = origin_q r"
    "points r' = points r" "executing (pc (thread r')) \<Longrightarrow> executing (pc (thread r))"
  shows "commanded_ok B r'"
  using assms origin_ok_cong [of r' r] by (simp add: commanded_ok_def)

lemma commanded_prepare:
  assumes "commanded_ok B r"
  shows "commanded_ok B (exec_prepare r a b)"
proof -
  have f: "commanded_ok B (fail e r')" if "calls r' = calls r \<or> calls r' = calls r @ [MPrepare]" "policy r' = policy r" for e r'
    using assms that by (auto simp: commanded_ok_def)
  have en: "commanded_ok B (goto (TEnable m) r')"
    if "calls r' = calls r @ [MPrepare]" "policy r' = policy r" "origin_q r' = Some m" "length m = 6" "list_all isfinite m"
      "check_start r' m = Inr ()" for m r'
  proof -
    have "validate_resolved_position r' p = Inr ()" if "p \<in> set (points r')" for p
      using \<open>check_start r' m = Inr ()\<close> that
      by (cases "ph_coordinate_mode (header r') = ''absolute_deg''")
         (auto simp: check_start_def forM_Inr_iff validate_resolved_position_def)
    then have "origin_ok (goto (TEnable m) r')"
      using that origin_ok_cong [of "goto (TEnable m) r'" r'] by (simp add: origin_ok_def)
    with assms that show ?thesis by (auto simp: commanded_ok_def)
  qed
  show ?thesis by (auto simp: exec_prepare_def Let_def intro!: f en split: sum.splits)
qed

lemma commanded_thread_step:
  assumes ok: "commanded_ok B r" "buffer_ok E r" "policy_bounded B (policy r)"
    and pts: "executing (pc (thread r)) \<Longrightarrow> points r \<noteq> []"
  shows "commanded_ok B (thread_step w r)"
proof (cases "pc (thread r)")
  case TPrepare
  then show ?thesis using commanded_prepare [OF ok(1)] by (simp add: thread_step.simps)
next
  case (TMove now)
  then show ?thesis using commanded_move [OF ok(1) _ ok(2,3)] pts by (simp add: thread_step.simps)
next
  case (TRecord now cursor measured target)
  then show ?thesis using ok(1) exec_record_sel [of r now cursor measured target "w_later w"]
    by (auto simp: thread_step.simps untouched_def intro!: commanded_same [OF ok(1)])
next
  case (TEnable m)
  have "commanded_ok B (motor (MEnable m) r)" using ok(1) origin_ok_cong [of "motor (MEnable m) r" r] by (auto simp: commanded_ok_def)
  moreover from this have "commanded_ok B (goto TRun ((motor (MEnable m) r)\<lparr>torque_enabled := True\<rparr>))"
    by (rule commanded_same) (simp_all add: TEnable)
  ultimately show ?thesis using ok(1) TEnable
    by (auto simp: thread_step.simps exec_enable_def Let_def intro: commanded_fail split: sum.splits)
next
  case (TClosing out c)
  then show ?thesis using ok(1)
    by (auto simp: thread_step.simps exec_close_def hold_then_close_def Let_def commanded_ok_def split: sum.splits)
qed (use ok(1) in \<open>auto simp: thread_step.simps exec_run_def exec_top_def exec_watch_def exec_finish_def Let_def
       intro!: commanded_fail commanded_same [OF ok(1)] split: sum.splits\<close>)

lemma commanded_append:
  assumes "commanded_ok B r"
  shows "commanded_ok B (snd (append_chunk E r seq ps final digest))"
proof -
  obtain res r' where a: "append_chunk E r seq ps final digest = (res, r')" by fastforce
  show ?thesis
  proof (rule append_chunk_cases [OF a])
    assume "r' = r" then show ?thesis using a assms by simp
  next
    assume c: "check_chunk r seq ps final = Inr ()"
      and "\<exists>m. r' = r\<lparr>points := points r @ ps, expected_chunk_seq := expected_chunk_seq r + 1, final_received := final,
             chunk_receipts := m\<rparr>"
    then obtain m where r': "r' = r\<lparr>points := points r @ ps, expected_chunk_seq := expected_chunk_seq r + 1,
       final_received := final, chunk_receipts := m\<rparr>" by blast
    have "validate_resolved_position r p = Inr ()" if "p \<in> set ps" for p
      using check_chunk_Inr(6) [OF c] that by (simp add: validate_chunk_points_iff)
    then have "origin_ok r'" if "origin_ok r"
      using that resolved_cong [of r' r] by (auto simp: origin_ok_def r')
    then show ?thesis unfolding a using assms by (simp add: commanded_ok_def r')
  qed
qed

definition run_inv :: "pyenv \<Rightarrow> rat \<Rightarrow> program_run \<Rightarrow> bool" where
  "run_inv E B r \<longleftrightarrow> buffer_ok E r \<and> commanded_ok B r \<and> policy_bounded B (policy r) \<and>
     (pc (thread r) \<noteq> TNone \<longrightarrow> points r \<noteq> [])"

lemma thread_step_TNone: "pc (thread (thread_step w r)) \<noteq> TNone \<longleftrightarrow> pc (thread r) \<noteq> TNone"
proof (cases "pc (thread r)")
  case (TRecord now cursor measured target)
  then show ?thesis using pc_pace
    by (auto simp: thread_step.simps exec_record_def Let_def split: sum.splits) (metis thread_pc.distinct)+
next
  case (TMove now)
  have "pc (thread (exec_target r1 now x q u v)) \<noteq> TNone" for r1 x q u v
    by (auto simp: exec_target_def Let_def split: sum.splits prod.splits)
  with TMove show ?thesis by (auto simp: thread_step.simps exec_move_def Let_def split: sum.splits)
qed (auto simp: thread_step.simps exec_prepare_def exec_enable_def exec_run_def exec_top_def exec_watch_def
     exec_close_def exec_finish_def Let_def split: sum.splits)

lemma run_inv_step:
  assumes "run_step E r r'" "run_inv E B r"
  shows "run_inv E B r'"
proof -
  note inv = assms(2) [unfolded run_inv_def]
  have base: "buffer_ok E r'" "policy_bounded B (policy r')"
    using buffer_ok_step [OF assms(1)] step_program [OF assms(1)] inv by (auto simp: same_program_def)
  have cmd: "commanded_ok B r' \<and> (pc (thread r') \<noteq> TNone \<longrightarrow> points r' \<noteq> [])"
    using assms(1)
  proof cases
    case (step_append ps seq final digest)
    obtain res r1 where a: "append_chunk E r seq ps final digest = (res, r1)" by fastforce
    have "pc (thread r1) \<noteq> TNone \<longrightarrow> points r1 \<noteq> []" by (rule append_chunk_cases [OF a]) (use inv in auto)
    with commanded_append [of B r E seq ps final digest] inv a step_append(1) show ?thesis by simp
  next
    case step_start
    then show ?thesis using inv by (auto simp: start_def Let_def commanded_ok_def split: if_splits)
  next
    case (step_thread w)
    have ex: "executing l \<Longrightarrow> l \<noteq> TNone" for l by (cases l) auto
    have "commanded_ok B (thread_step w r)" by (rule commanded_thread_step) (use inv ex in auto)
    then show ?thesis using step_thread inv thread_step_TNone [of w r] thread_step_untouched [of r w]
      by (simp add: untouched_def)
  qed (use inv commanded_same [of B r r'] in \<open>auto simp: heartbeat_def request_stop_def connection_lost_def\<close>)
  with base show ?thesis by (simp add: run_inv_def)
qed

text \<open>
  C19. Commanded poses stay inside the limits. In every interleaving, every target the control loop
  sends to the motors has six finite joint values, each between the joint's limits up to
  \<open>B / 2 ^ 36\<close>, where \<open>B\<close> bounds the limits of the policy; in absolute as in relative mode, where
  the target is the measured start pose plus an offset.
\<close>

theorem commanded_poses_within_limits:
  assumes "run_reachable E (ProgramRun rid h mode digest disconnect pol chz thz hb hold now) r"
    and "policy_bounded B pol" "MSend q \<in> set (calls r)"
  shows "length q = 6 \<and> (\<forall>j < 6. \<exists>c lo hi. q ! j = Fin c \<and> joint_min_deg pol ! j = Fin lo \<and>
     joint_max_deg pol ! j = Fin hi \<and> lo - B / 2 ^ 36 \<le> c \<and> c \<le> hi + B / 2 ^ 36)"
proof -
  have "run_inv E B (ProgramRun rid h mode digest disconnect pol chz thz hb hold now)"
    using fresh_buffer_ok [of E rid h mode digest disconnect pol chz thz hb hold now] assms(2)
    by (simp add: run_inv_def) (simp add: ProgramRun_def commanded_ok_def idle_thread_def)
  then have "run_inv E B r" by (rule reachable_induct [OF assms(1)]) (rule run_inv_step)
  moreover have "policy r = pol"
    using reachable_program [OF assms(1)] by (simp add: same_program_def ProgramRun_def)
  ultimately have "pose_safe (1 / 2 ^ 36) pol B q" using assms(3) by (simp add: run_inv_def commanded_ok_def)
  then show ?thesis by (simp add: pose_safe_def)
qed

section \<open>Instances\<close>

text \<open>A sealed two-point program, uploaded in one chunk, started, and moved up to its first target.\<close>

definition demo_run :: program_run where
  "demo_run = ProgramRun ''run-1'' demo_header ''sealed'' [] ''stop_after_timeout'' SafetyPolicy (Fin 50) (Fin 10)
     (Fin 1) (Fin 0) (Fin 0)"

lemma demo_check:
  assumes "r = demo_run \<or> r = demo_run\<lparr>expected_digest := d\<rparr>"
  shows "check_chunk r 0 demo_points True = Inr ()"
proof -
  have sel: "header r = demo_header" "policy r = SafetyPolicy" "points r = []" "state r = Buffering" "final_received r = False"
    "run_mode r = ''sealed''" "expected_chunk_seq r = 0"
    using assms by (auto simp: demo_run_def ProgramRun_def)
  have "validate_chunk_points r None demo_points = Inr ()"
    using demo_valid
    by (auto simp: validate_chunk_points_iff validate_points_iff checked_trajectory_def sel validate_resolved_position_def demo_header_def)
  then show ?thesis by (simp add: check_chunk_def sel) (simp add: demo_points_def SafetyPolicy_def)
qed

definition demo_receipt :: chunk_receipt where
  "demo_receipt = \<lparr>cr_chunk_seq = 0, cr_accepted_until_us = 1000000, cr_execution_cursor_us = 0,
     cr_queued_ahead_us = 1000000, cr_available_horizon_us = 29000000, cr_final = True\<rparr>"

definition demo_loaded :: program_run where
  "demo_loaded = demo_run\<lparr>points := demo_points, expected_chunk_seq := 1, final_received := True,
     chunk_receipts := Mapping.update 0 ([], demo_receipt) Mapping.empty\<rparr>"

lemma demo_appended:
  "append_chunk demo_json demo_run 0 demo_points True [] = (Inr demo_receipt, demo_loaded)"
proof -
  have "chunk_digest demo_json 0 demo_points True = []" "program_digest demo_json demo_header demo_points = []"
    by (simp_all add: chunk_digest_def program_digest_def demo_json_def)
  with demo_check [of demo_run] show ?thesis
    by (simp add: append_chunk_def commit_chunk_def Let_def compare_digest_def demo_run_def ProgramRun_def lookup_empty
        available_horizon_us_locked_def accepted_until_def SafetyPolicy_def demo_receipt_def demo_loaded_def)
       (simp add: demo_points_def)
qed

definition demo_world :: "rat \<Rightarrow> world" where
  "demo_world t = \<lparr>w_now = Fin t, w_later = Fin t, w_unit = Inr (), w_pose = Inr (replicate 6 (Fin 0))\<rparr>"

definition demo_at :: "rat list \<Rightarrow> program_run" where
  "demo_at ts = fold thread_step (map demo_world ts) (snd (start demo_loaded))"

lemma demo_points_finite: "\<forall>p \<in> set demo_points. length (q_deg p) = 6 \<and> list_all isfinite (q_deg p)"
  by (simp add: demo_points_def list_all_iff)

lemma reachable_fold: "run_reachable E r r' \<Longrightarrow> run_reachable E r (fold thread_step ws r')"
  by (induction ws arbitrary: r') (auto intro: reach_step step_thread)

lemma demo_run_reachable:
  "run_reachable demo_json demo_run demo_loaded" "run_reachable demo_json demo_run (demo_at ts)"
proof -
  show l: "run_reachable demo_json demo_run demo_loaded"
    using reach_step [OF reach_here step_append [OF demo_points_finite]] demo_appended by (metis snd_conv)
  show "run_reachable demo_json demo_run (demo_at ts)"
    unfolding demo_at_def by (intro reachable_fold reach_step [OF l] step_start)
qed

lemma demo_loaded_points: "points demo_loaded = demo_points" "final_received demo_loaded"
  by (simp_all add: demo_loaded_def)

theorem chunked_upload_validated_witness:
  "validate_points demo_header (points demo_loaded) SafetyPolicy True = Inr () \<and> program_digest demo_json demo_header (points demo_loaded) = []"
proof -
  have "points demo_loaded \<noteq> []" "0 \<le> min_segment_us SafetyPolicy"
    by (simp_all add: demo_loaded_points demo_points_def SafetyPolicy_def)
  from chunked_upload_validated [OF demo_run_reachable(1) [unfolded demo_run_def] this(2,1)] demo_loaded_points(2)
  show ?thesis by (simp add: ascii_def)
qed

theorem motor_bus_discipline_witness:
  "torque_enabled (demo_at [0, 0]) \<and> (\<exists>b. foldM sim_call SimulatedBackend (calls (demo_at [0, 0])) = Inr b \<and> sim_torque_enabled b)"
proof -
  have "torque_enabled (demo_at [0, 0])" by code_simp
  with motor_bus_discipline [OF demo_run_reachable(2) [unfolded demo_run_def], of "[0, 0]"] show ?thesis by blast
qed

theorem stop_takes_effect_witness:
  "state (fold thread_step (replicate 6 (demo_world 0)) (request_stop (demo_at [0, 0, 0]))) \<in> set TERMINAL_STATES"
proof -
  have r: "run_reachable demo_json demo_run (request_stop (demo_at [0, 0, 0]))"
    by (rule reach_step [OF demo_run_reachable(2) step_stop])
  have "stop_event (request_stop (demo_at [0, 0, 0]))" by (simp add: request_stop_def)
  moreover have "pc (thread (request_stop (demo_at [0, 0, 0]))) \<noteq> TNone" by code_simp
  moreover have "6 \<le> length (replicate 6 (demo_world 0))" by simp
  ultimately show ?thesis
    using stop_takes_effect [OF r [unfolded demo_run_def]] unfolding Let_def by blast
qed

theorem commanded_poses_within_limits_witness:
  "\<exists>q. MSend q \<in> set (calls (demo_at [0, 0, 0, 1 / 2, 0, 0])) \<and> length q = 6 \<and>
     (\<forall>j < 6. \<exists>c. q ! j = Fin c \<and> - 100 - 100 / 2 ^ 36 \<le> c \<and> c \<le> 100 + 100 / 2 ^ 36)"
proof -
  have "sends (demo_at [0, 0, 0, 1 / 2, 0, 0]) = 1" by code_simp
  then have "filter (\<lambda>c. case c of MSend q \<Rightarrow> True | _ \<Rightarrow> False) (calls (demo_at [0, 0, 0, 1 / 2, 0, 0])) \<noteq> []"
    by (auto simp: sends_def)
  then obtain q where q: "MSend q \<in> set (calls (demo_at [0, 0, 0, 1 / 2, 0, 0]))"
    by (auto simp: filter_empty_conv split: motor_call.splits) (metis motor_call.exhaust)
  have b: "policy_bounded 100 SafetyPolicy" by (simp add: policy_bounded_def SafetyPolicy_def)
  from commanded_poses_within_limits [OF demo_run_reachable(2) [unfolded demo_run_def] b q] q show ?thesis
    by (auto simp: SafetyPolicy_def)
qed

end
