(* ===== verification/ServerControl.thy ===== *)
theory ServerControl
  imports ServerSafety
begin

text \<open>
  The v1 server seen by its clients: retried chunks, starting a sealed program, the heartbeat
  watchdog, and the controller that gives the robot to one run at a time over any number of
  connections.
\<close>

section \<open>Retried chunks\<close>

lemma receipts_kept:
  assumes "run_step E r r'" "Mapping.lookup (chunk_receipts r) n = Some v"
  shows "Mapping.lookup (chunk_receipts r') n = Some v"
  using assms(1)
proof cases
  case (step_append ps seq final digest)
  have "Mapping.lookup (chunk_receipts (snd (commit_chunk E r seq ps final d))) n = Some v"
    if "Mapping.lookup (chunk_receipts r) seq = None" for d
    using assms(2) that by (auto simp: commit_chunk_def Let_def lookup_update' split: sum.splits)
  then show ?thesis unfolding step_append(1)
    using assms(2) by (auto simp: append_chunk_def Let_def split: sum.splits option.splits)
next
  case (step_thread w)
  then show ?thesis using assms(2) thread_step_untouched [of r w] by (simp add: untouched_def)
qed (use assms(2) in \<open>auto simp: start_def heartbeat_def request_stop_def connection_lost_def Let_def\<close>)

lemma accepted_chunk_recorded:
  assumes "append_chunk E r seq ps final digest = (Inr receipt, r')"
  shows "Mapping.lookup (chunk_receipts r') seq = Some (chunk_digest E seq ps final, receipt)"
    and "digest = chunk_digest E seq ps final"
  using assms
  by (auto simp: append_chunk_def commit_chunk_def Let_def compare_digest_def lookup_update'
      split: sum.splits option.splits if_splits prod.splits)

lemma receipts_reachable:
  "run_reachable E r r' \<Longrightarrow> Mapping.lookup (chunk_receipts r) n = Some v \<Longrightarrow> Mapping.lookup (chunk_receipts r') n = Some v"
  by (induction rule: run_reachable.induct) (auto intro: receipts_kept)

text \<open>
  Retries are idempotent. Once a chunk was acknowledged, sending it again at any later time,
  whatever happened to the run in between, returns the same receipt and changes nothing; other
  data under the same sequence number is refused as a conflict and changes nothing either.
\<close>

theorem chunk_retry_idempotent:
  assumes "append_chunk E r seq ps final digest = (Inr receipt, r')" "run_reachable E r' r2"
  shows "append_chunk E r2 seq ps final digest = (Inr receipt, r2) \<and>
    (\<forall>ps' final'. chunk_digest E seq ps' final' \<noteq> digest \<longrightarrow>
      append_chunk E r2 seq ps' final' (chunk_digest E seq ps' final') = (Inl (ProtocolError ''DUPLICATE_CONFLICT''), r2))"
proof -
  note rec = accepted_chunk_recorded [OF assms(1)]
  have "Mapping.lookup (chunk_receipts r2) seq = Some (digest, receipt)"
    using receipts_reachable [OF assms(2) rec(1)] rec(2) by simp
  moreover have "compare_digest (chunk_digest E seq p f) (chunk_digest E seq p' f') =
      Inr (chunk_digest E seq p f = chunk_digest E seq p' f')" for p f p' f'
    by (rule compare_digest_ascii) (rule ascii_digests)+
  ultimately show ?thesis using rec(2) by (auto simp: append_chunk_def Let_def)
qed

section \<open>Starting\<close>

lemma start_Inr:
  assumes "start r = (Inr s, r')"
  shows "state r = Buffering" "2 \<le> length (points r)" "run_mode r = ''sealed'' \<Longrightarrow> final_received r"
    "r' = r\<lparr>state := Arming, thread := (thread r)\<lparr>pc := TPrepare\<rparr>\<rparr>"
  using assms by (auto simp: start_def Let_def split: if_splits)

lemma step_run_mode: "run_step E r r' \<Longrightarrow> run_mode r' = run_mode r"
proof (erule run_step.cases)
  fix r1 ps seq final digest
  assume s: "r = r1" "r' = snd (append_chunk E r1 seq ps final digest)"
  obtain res r2 where a: "append_chunk E r1 seq ps final digest = (res, r2)" by fastforce
  show ?thesis by (rule append_chunk_cases [OF a]) (use s a in auto)
next
  fix r1 w assume "r = r1" "r' = thread_step w r1"
  then show ?thesis using thread_step_untouched [of r1 w] by (simp add: untouched_def)
qed (auto simp: start_def heartbeat_def request_stop_def connection_lost_def Let_def)

lemma reachable_run_mode: "run_reachable E r r' \<Longrightarrow> run_mode r' = run_mode r"
  by (induction rule: run_reachable.induct) (auto dest: step_run_mode)

text \<open>After the final chunk the buffer is frozen.\<close>

lemma final_step:
  assumes "run_step E r r'" "final_received r"
  shows "final_received r' \<and> points r' = points r"
  using assms(1)
proof cases
  case (step_append ps seq final digest)
  obtain res r1 where a: "append_chunk E r seq ps final digest = (res, r1)" by fastforce
  show ?thesis
    by (rule append_chunk_cases [OF a]) (use step_append a assms(2) in \<open>auto dest: check_chunk_Inr\<close>)
next
  case (step_thread w)
  then show ?thesis using assms(2) thread_step_untouched [of r w] by (simp add: untouched_def)
qed (use assms(2) in \<open>auto simp: start_def heartbeat_def request_stop_def connection_lost_def Let_def\<close>)

lemma final_reachable: "run_reachable E r r' \<Longrightarrow> final_received r \<Longrightarrow> final_received r' \<and> points r' = points r"
  by (induction rule: run_reachable.induct) (auto dest: final_step)

text \<open>
  A sealed program starts only as a whole. When \<^verbatim>\<open>start\<close> succeeds on a sealed run, the buffered
  points are a complete trajectory that \<^verbatim>\<open>validate_points\<close> accepts, with the digest announced at the
  opening (if that is ASCII), and no later request or thread step ever changes them: exactly
  these points are executed.
\<close>

theorem sealed_start_complete:
  assumes "run_reachable E (ProgramRun rid h ''sealed'' digest disconnect pol chz thz hb hold now) r"
    and "0 \<le> min_segment_us pol" "start r = (Inr s, r')"
  shows "validate_points h (points r) pol True = Inr () \<and>
    (ascii digest \<longrightarrow> program_digest E h (points r) = digest) \<and>
    (\<forall>r2. run_reachable E r' r2 \<longrightarrow> points r2 = points r)"
proof -
  let ?f = "ProgramRun rid h ''sealed'' digest disconnect pol chz thz hb hold now"
  note st = start_Inr [OF assms(3)]
  have same: "header r = h" "policy r = pol" "expected_digest r = digest"
    using reachable_program [OF assms(1)] by (simp_all add: same_program_def ProgramRun_def)
  have "run_mode r = ''sealed''" using reachable_run_mode [OF assms(1)] by (simp add: ProgramRun_def)
  then have fin: "final_received r" using st(3) by simp
  have ok: "buffer_ok E r" using reachable_buffer_ok [OF assms(1) fresh_buffer_ok] .
  have "points r \<noteq> []" using st(2) by auto
  with ok assms(2) fin same have "validate_points h (points r) pol True = Inr ()"
    using buffer_validates(2) by metis
  moreover have "ascii digest \<longrightarrow> program_digest E h (points r) = digest"
    using ok fin same by (simp add: buffer_ok_def)
  moreover have "points r2 = points r" if "run_reachable E r' r2" for r2
    using final_reachable [OF that] fin by (simp add: st(4))
  ultimately show ?thesis by simp
qed

text \<open>
  The digest check can be bypassed. When the digest announced at the opening contains a
  non-ASCII character, the final chunk of a program is answered with an error, because comparing
  the digests raises \<^verbatim>\<open>TypeError\<close>; but its points stay in the buffer and the program counts as complete,
  so that a following \<^verbatim>\<open>start\<close> succeeds although no digest was ever compared.
\<close>

theorem non_ascii_digest_unchecked:
  assumes "check_chunk r seq ps True = Inr ()" "Mapping.lookup (chunk_receipts r) seq = None"
    and "\<not> ascii (expected_digest r)" "state r = Buffering"
  shows "\<exists>r1 s r2. append_chunk E r seq ps True (chunk_digest E seq ps True) = (Inl TypeError, r1) \<and>
    points r1 = points r @ ps \<and> final_received r1 \<and> start r1 = (Inr s, r2)"
proof -
  let ?r1 = "r\<lparr>points := points r @ ps, expected_chunk_seq := expected_chunk_seq r + 1, final_received := True\<rparr>"
  have "compare_digest d (expected_digest r) = Inl TypeError" for d
    using assms(3) by (auto simp: compare_digest_def ascii_def not_less)
  moreover have "compare_digest (chunk_digest E seq ps True) (chunk_digest E seq ps True) = Inr True"
    using compare_digest_ascii ascii_digests by simp
  ultimately have a: "append_chunk E r seq ps True (chunk_digest E seq ps True) = (Inl TypeError, ?r1)"
    using assms(1,2) by (simp add: append_chunk_def commit_chunk_def Let_def)
  have "2 \<le> length (points r @ ps)" using check_chunk_Inr [OF assms(1)] by simp
  then obtain s r2 where "start ?r1 = (Inr s, r2)" using assms(4) by (simp add: start_def Let_def)
  with a show ?thesis by fastforce
qed

section \<open>The watchdog\<close>

lemma exec_finish_sel:
  "state (exec_finish r out c) = out" "terminal_event (exec_finish r out c)"
  "backend (exec_finish r out c) = backend r" "torque_enabled (exec_finish r out c) = torque_enabled r"
  "calls (exec_finish r out c) = calls r"
  "\<exists>sn. last (emitted (exec_finish r out c)) = EvFinished sn out c"
  by (simp_all add: exec_finish_def Let_def) (simp add: emit_def goto_def)

text \<open>
  The heartbeat watchdog. In every control cycle in which the last heartbeat is older than
  the timeout, and the client did not ask for a completely received program to be finished
  without it, the thread sends no further target; it closes the bus and ends the run as faulted
  with the code \<^verbatim>\<open>HEARTBEAT_LOST\<close>, whatever clock and bus answer.
\<close>

theorem watchdog_faults_run:
  assumes "run_reachable E (ProgramRun rid h mode digest disconnect pol chz thz hb hold now) r"
    and "pc (thread r) = TWatch t" "flt (heartbeat_timeout_s r) (fsub t (last_heartbeat r))"
    and "\<not> (final_received r \<and> disconnect_policy r = ''complete_if_sealed'')"
  shows "let r' = thread_step w3 (thread_step w2 (thread_step w1 r)) in
    state r' = Faulted \<and> terminal_event r' \<and> \<not> backend r' \<and> \<not> torque_enabled r' \<and> sends r' = sends r \<and>
    (\<exists>sn. last (emitted r') = EvFinished sn Faulted (Some ''HEARTBEAT_LOST''))"
proof -
  have ph: "phase_ok r" using reachable_phase_ok [OF assms(1) fresh_phase_ok] .
  let ?r1 = "fail (ProtocolError ''HEARTBEAT_LOST'') r"
  have 1: "thread_step w1 r = ?r1"
    using assms(2-4) by (auto simp: thread_step.simps exec_watch_def Let_def)
  let ?r2 = "exec_close ?r1 Faulted (Some ''HEARTBEAT_LOST'') (w_pose w2)"
  have 2: "thread_step w2 ?r1 = ?r2" by (simp add: thread_step.simps)
  have 3: "thread_step w3 ?r2 = exec_finish ?r2 Faulted (Some ''HEARTBEAT_LOST'')"
    by (simp add: thread_step.simps exec_close_def)
  have "backend r \<and> torque_enabled r" using ph assms(2) by (simp add: phase_ok_def)
  then have "\<not> backend ?r2 \<and> \<not> torque_enabled ?r2 \<and> sends ?r2 = sends r"
    by (simp add: exec_close_def hold_then_close_def Let_def sends_motor split: sum.split)
  moreover have "sends (exec_finish ?r2 Faulted (Some ''HEARTBEAT_LOST'')) = sends ?r2"
    by (rule sends_same) (rule exec_finish_sel)
  ultimately show ?thesis unfolding Let_def 1 2 3
    using exec_finish_sel [of ?r2 Faulted "Some ''HEARTBEAT_LOST''"] by simp
qed

section \<open>The controller and its connections\<close>

text \<open>
  The server process: the controller, and for every connection the index of its own run. A step
  is a new connection, a message on a connection, the end of a connection, or one piece of the
  motor thread of some run.
\<close>

inductive server_step :: "pyenv \<Rightarrow> controller \<times> nat option list \<Rightarrow> controller \<times> nat option list \<Rightarrow> bool" for E where
  accept_connection: "server_step E (c, conns) (c, conns @ [None])"
| client_message: "server_step E (c, conns) (c', conns[k := run'])"
    if "k < length conns" "serve_message E c (conns ! k) raw now = (rep, c', run')"
| connection_closed: "server_step E (c, conns) (close_connection c (conns ! k), conns[k := None])"
    if "k < length conns"
| motor_thread: "server_step E (c, conns) (update_run c i (thread_step w (runs c ! i)), conns)"
    if "i < length (runs c)"

inductive server_reachable :: "pyenv \<Rightarrow> controller \<Rightarrow> controller \<times> nat option list \<Rightarrow> bool" for E c0 where
  serve_init: "server_reachable E c0 (c0, [])"
| serve_step: "server_reachable E c0 s \<Longrightarrow> server_step E s s' \<Longrightarrow> server_reachable E c0 s'"

text \<open>What one message can do to the controller.\<close>

inductive message_effect :: "pyenv \<Rightarrow> controller \<Rightarrow> nat option \<Rightarrow> controller \<Rightarrow> nat option \<Rightarrow> bool" for E c run where
  eff_none: "message_effect E c run c run"
| eff_open: "message_effect E c run c' (Some j)" if "open_run c rid h mode digest disconnect now = (Inr j, c')"
| eff_run: "message_effect E c run (update_run c i r) run"
    if "run = Some i \<or> active c = Some i" "run_step E (runs c ! i) r"

lemma open_run_Inl: "open_run c rid h mode digest disconnect now = (Inl e, c') \<Longrightarrow> c' = c"
  by (auto simp: open_run_def split: if_splits)

lemma point_from_value_Inr: "point_from_value E v = Inr p \<Longrightarrow> length (q_deg p) = 6 \<and> list_all isfinite (q_deg p)"
  using point_from_record_Inr by (auto simp: point_from_value_def split: pyval.splits if_splits)

lemma on_run_effect:
  assumes "on_run c run f g = (res, c')" "\<And>r. run_step E r (snd (f r))"
  shows "message_effect E c run c' run"
proof (cases run)
  case None
  then show ?thesis using assms(1) by (auto simp: on_run_def intro: eff_none)
next
  case (Some i)
  then have "c' = update_run c i (snd (f (runs c ! i)))" using assms(1) by (auto simp: on_run_def split: prod.splits)
  then show ?thesis using eff_run [of run i c E] assms(2) Some by simp
qed

lemma no_step: "run_step E r r"
proof -
  have "run_step E r (snd (append_chunk E r 0 [] False (CHR 0x80 # [])))" by (rule step_append) simp
  moreover have "compare_digest [CHR 0x80] d = Inl TypeError" for d by (simp add: compare_digest_def)
  ultimately show ?thesis by (simp add: append_chunk_def)
qed

lemma handle_chunk_step: "run_step E r (snd (handle_chunk E m r))"
proof (cases "dget_or m ''points'' PNone")
  case (PList vs)
  show ?thesis
  proof (cases "mapM (point_from_value E) vs")
    case (Inr ps)
    then have "\<forall>p \<in> set ps. length (q_deg p) = 6 \<and> list_all isfinite (q_deg p)"
      by (auto simp: mapM_Inr_iff list_all2_conv_all_nth in_set_conv_nth dest!: point_from_value_Inr)
    then show ?thesis using PList Inr
      by (cases "py_int (dget_or m ''chunk_seq'' (PInt (-1)))") (auto simp: handle_chunk_def no_step intro: step_append)
  qed (use PList in \<open>simp add: handle_chunk_def no_step\<close>)
qed (simp_all add: handle_chunk_def no_step)

lemma handle_open_effect:
  assumes "handle_open E c m now = (res, c')"
  shows "case res of Inl e \<Rightarrow> c' = c | Inr j \<Rightarrow> message_effect E c run c' (Some j)"
  using assms open_run_Inl eff_open
  by (auto simp: handle_open_def split: pyval.splits sum.splits)

lemma handle_message_effect:
  assumes "handle_message E c run m now = (res, c', run')"
  shows "message_effect E c run c' run'"
proof -
  have stop: "message_effect E c rn (update_run c i (request_stop (runs c ! i))) rn" if "active c = Some i" for i rn
    using eff_run [of rn i c E] that step_stop by blast
  have beat: "message_effect E c (Some i) (update_run c i (heartbeat (runs c ! i) now)) (Some i)" for i
    using eff_run [of "Some i" i c E] step_heartbeat by blast
  have cancel: "message_effect E c rn c1 rn"
    if "on_run c rn (\<lambda>r. (Inr (Some (state r)), request_stop r)) StopAccepted = (rs, c1)" for rn rs c1
    by (rule on_run_effect [OF that]) (simp add: step_stop)
  show ?thesis using assms
    by (auto simp: handle_message_def Let_def emergency_stop_def eff_none stop beat
        intro: on_run_effect step_start handle_chunk_step cancel
        dest: handle_open_effect [where run = run] split: if_splits prod.splits sum.splits option.splits)
qed

lemma serve_message_effect:
  "serve_message E c run raw now = (rep, c', run') \<Longrightarrow> message_effect E c run c' run'"
  using handle_message_effect eff_none
  by (auto simp: serve_message_def split: prod.splits sum.splits)

text \<open>Terminal states are final.\<close>

lemma terminal_step:
  assumes "run_step E r r'" "phase_ok r" "state r \<in> set TERMINAL_STATES"
  shows "state r' \<in> set TERMINAL_STATES"
  using assms(1)
proof cases
  case (step_append ps seq final digest)
  obtain res r1 where a: "append_chunk E r seq ps final digest = (res, r1)" by fastforce
  show ?thesis by (rule append_chunk_cases [OF a]) (use step_append a assms(3) in auto)
next
  case (step_thread w)
  have "pc (thread r) = TNone \<or> pc (thread r) = TDone"
    using assms(2,3) by (cases "pc (thread r)") (auto simp: phase_ok_def TERMINAL_STATES_def)
  then show ?thesis using step_thread assms(3) by (auto simp: thread_step.simps)
qed (use assms(3) in \<open>auto simp: start_def heartbeat_def request_stop_def connection_lost_def TERMINAL_STATES_def Let_def\<close>)

text \<open>
  The invariant of the process: connections point to existing runs, every run is a fresh run of
  this controller advanced by its own steps, and all runs but the active one are over.
\<close>

definition fresh_run :: "controller \<Rightarrow> program_run \<Rightarrow> bool" where
  "fresh_run c r \<longleftrightarrow> (\<exists>rid h mode digest disconnect now. mode \<in> set RUN_MODES \<and> length digest = 64 \<and>
     r = ProgramRun rid h mode digest disconnect (ctl_policy c) (ctl_control_hz c) (ctl_telemetry_hz c)
           (ctl_heartbeat_timeout_s c) (ctl_hold_after_run_s c) now)"

definition same_config :: "controller \<Rightarrow> controller \<Rightarrow> bool" where
  "same_config c0 c \<longleftrightarrow> ctl_policy c = ctl_policy c0 \<and> ctl_control_hz c = ctl_control_hz c0 \<and>
     ctl_telemetry_hz c = ctl_telemetry_hz c0 \<and> ctl_heartbeat_timeout_s c = ctl_heartbeat_timeout_s c0 \<and>
     ctl_hold_after_run_s c = ctl_hold_after_run_s c0"

lemma same_config_update [simp]:
  "same_config c0 (c\<lparr>runs := rs\<rparr>) = same_config c0 c" "same_config c0 (c\<lparr>active := a\<rparr>) = same_config c0 c"
  by (simp_all add: same_config_def)

definition server_ok :: "pyenv \<Rightarrow> controller \<Rightarrow> controller \<times> nat option list \<Rightarrow> bool" where
  "server_ok E c0 s \<longleftrightarrow> (case s of (c, conns) \<Rightarrow>
     (\<forall>i. Some i \<in> set conns \<or> active c = Some i \<longrightarrow> i < length (runs c)) \<and>
     same_config c0 c \<and>
     (\<forall>i < length (runs c). (\<exists>r0. fresh_run c0 r0 \<and> run_reachable E r0 (runs c ! i)) \<and>
        (active c \<noteq> Some i \<longrightarrow> state (runs c ! i) \<in> set TERMINAL_STATES)))"

lemma fresh_run_phase: "fresh_run c r0 \<Longrightarrow> run_reachable E r0 r \<Longrightarrow> phase_ok r"
  using reachable_phase_ok fresh_phase_ok by (auto simp: fresh_run_def)

lemma server_ok_update:
  assumes "server_ok E c0 (c, conns)" "i < length (runs c)" "run_step E (runs c ! i) r"
  shows "server_ok E c0 (update_run c i r, conns)"
proof -
  obtain r0 where "fresh_run c0 r0" "run_reachable E r0 (runs c ! i)" using assms by (auto simp: server_ok_def)
  moreover from this have "phase_ok (runs c ! i)" using fresh_run_phase by blast
  ultimately have "(\<exists>r0. fresh_run c0 r0 \<and> run_reachable E r0 r) \<and>
      (active c \<noteq> Some i \<longrightarrow> state r \<in> set TERMINAL_STATES)"
    using assms terminal_step reach_step by (fastforce simp: server_ok_def)
  then show ?thesis using assms(1,2) by (auto simp: server_ok_def update_run_def nth_list_update)
qed

lemma server_ok_open:
  assumes "server_ok E c0 (c, conns)" "open_run c rid h mode digest disconnect now = (Inr j, c')"
  shows "server_ok E c0 (c', conns)" "j < length (runs c')"
proof -
  let ?r = "ProgramRun rid h mode digest disconnect (ctl_policy c) (ctl_control_hz c) (ctl_telemetry_hz c)
    (ctl_heartbeat_timeout_s c) (ctl_hold_after_run_s c) now"
  have c': "c' = c\<lparr>runs := runs c @ [?r], active := Some (length (runs c))\<rparr>" "j = length (runs c)"
    and m: "mode \<in> set RUN_MODES" "length digest = 64"
    and t: "case active_run c of None \<Rightarrow> True | Some r \<Rightarrow> state r \<in> set TERMINAL_STATES"
    using assms(2) by (auto simp: open_run_def split: if_splits option.splits)
  have same: "same_config c0 c" using assms(1) by (simp add: server_ok_def)
  have fr: "fresh_run c0 ?r" unfolding fresh_run_def
    by (rule exI [of _ rid], rule exI [of _ h], rule exI [of _ mode], rule exI [of _ digest])
      (use m same in \<open>auto simp: same_config_def\<close>)
  have over: "state (runs c ! i) \<in> set TERMINAL_STATES" if "i < length (runs c)" for i
    using assms(1) t that by (cases "active c = Some i") (auto simp: server_ok_def active_run_def)
  have "(\<exists>r0. fresh_run c0 r0 \<and> run_reachable E r0 (runs c' ! i)) \<and>
      (active c' \<noteq> Some i \<longrightarrow> state (runs c' ! i) \<in> set TERMINAL_STATES)" if "i < length (runs c')" for i
  proof (cases "i = length (runs c)")
    case True
    then show ?thesis using fr reach_here [of E ?r] by (auto simp: c' nth_append)
  next
    case False
    then show ?thesis using that over assms(1) by (auto simp: c' server_ok_def nth_append less_Suc_eq)
  qed
  moreover have "i < length (runs c')" if "Some i \<in> set conns \<or> active c' = Some i" for i
    using that assms(1) by (auto simp: c' server_ok_def less_Suc_eq)
  ultimately show "server_ok E c0 (c', conns)" using same c'(1) by (simp add: server_ok_def)
  show "j < length (runs c')" by (simp add: c')
qed

lemma server_ok_conn:
  assumes "server_ok E c0 (c, conns)" "run' \<in> set conns \<or> run' = None \<or> (\<exists>j < length (runs c). run' = Some j)"
  shows "server_ok E c0 (c, conns[k := run'])" "server_ok E c0 (c, conns @ [None])"
  using assms by (auto simp: server_ok_def dest!: set_update_subset_insert [THEN subsetD])

lemma server_ok_step:
  assumes "server_step E s s'" "server_ok E c0 s"
  shows "server_ok E c0 s'"
  using assms
proof (cases rule: server_step.cases)
  case (client_message k conns c raw now rep c' run')
  from serve_message_effect [OF client_message(4)] show ?thesis
  proof cases
    case eff_none
    then show ?thesis using client_message assms(2) server_ok_conn(1) [of E c0 c conns run' k] by simp
  next
    case (eff_open rid h mode digest disconnect now j)
    moreover from this have "server_ok E c0 (c', conns)" "j < length (runs c')"
      using client_message(1) assms(2) server_ok_open [of E c0 c conns rid h mode digest disconnect] by blast+
    ultimately show ?thesis using client_message(2) server_ok_conn(1) [of E c0 c' conns run' k] by simp
  next
    case (eff_run i r)
    moreover from this have "i < length (runs c)"
      using client_message assms(2) by (auto simp: server_ok_def) (metis nth_mem)
    ultimately show ?thesis
      using client_message assms(2) server_ok_update [of E c0 c conns i r] server_ok_conn(1) [of E c0 c' conns run' k]
      by simp
  qed
next
  case (connection_closed k conns c)
  have "server_ok E c0 (close_connection c (conns ! k), conns)"
  proof (cases "conns ! k")
    case (Some i)
    then have "i < length (runs c)" using connection_closed assms(2) by (auto simp: server_ok_def) (metis nth_mem)
    then show ?thesis
      using server_ok_update [of E c0 c conns i] connection_closed assms(2) Some step_lost
      by (simp add: close_connection_def)
  qed (use connection_closed assms(2) in \<open>simp add: close_connection_def\<close>)
  then show ?thesis using connection_closed server_ok_conn(1) by simp
next
  case (motor_thread i c conns w)
  then show ?thesis using server_ok_update [of E c0 c conns i] assms(2) step_thread by simp
qed (use server_ok_conn in blast)

lemma server_reachable_ok:
  "server_reachable E (ProgramController pol chz thz hb hold) s \<Longrightarrow> server_ok E (ProgramController pol chz thz hb hold) s"
proof (induction rule: server_reachable.induct)
  case serve_init
  then show ?case by (simp add: server_ok_def ProgramController_def same_config_def)
qed (rule server_ok_step)

text \<open>
  C23. One run owns the robot. For any number of connections, any messages on them, in any order
  and interleaved with the motor threads: every run that is not over is the active one, so two
  different runs are never both executing, and at most one of them holds the motor bus or has
  torque enabled; and the requests of all clients together only ever advance each run by the
  run's own steps.
\<close>

theorem one_run_owns_robot:
  assumes "server_reachable E (ProgramController pol chz thz hb hold) (c, conns)" "i < length (runs c)"
  shows "(active c \<noteq> Some i \<longrightarrow> state (runs c ! i) \<in> set TERMINAL_STATES \<and> \<not> backend (runs c ! i) \<and>
      \<not> torque_enabled (runs c ! i)) \<and>
    (\<exists>rid h mode digest disconnect now.
       run_reachable E (ProgramRun rid h mode digest disconnect pol chz thz hb hold now) (runs c ! i))"
proof -
  have ok: "server_ok E (ProgramController pol chz thz hb hold) (c, conns)" using server_reachable_ok assms(1) .
  then obtain r0 where r0: "fresh_run (ProgramController pol chz thz hb hold) r0" "run_reachable E r0 (runs c ! i)"
    using assms(2) by (auto simp: server_ok_def)
  have "phase_ok (runs c ! i)" using fresh_run_phase r0 by blast
  from phase_bus [OF this] ok assms(2)
  have "active c \<noteq> Some i \<longrightarrow> state (runs c ! i) \<in> set TERMINAL_STATES \<and> \<not> backend (runs c ! i) \<and>
      \<not> torque_enabled (runs c ! i)" by (auto simp: server_ok_def)
  moreover obtain rid h mode digest disconnect now
    where "r0 = ProgramRun rid h mode digest disconnect pol chz thz hb hold now"
    using r0(1) by (auto simp: fresh_run_def ProgramController_def)
  ultimately show ?thesis using r0(2) by blast
qed

section \<open>Instances\<close>

theorem chunk_retry_idempotent_witness:
  "\<exists>receipt. append_chunk demo_json (demo_at [0, 0, 0]) 0 demo_points True [] = (Inr receipt, demo_at [0, 0, 0])"
proof -
  have "run_reachable demo_json demo_loaded (demo_at [0, 0, 0])"
    unfolding demo_at_def by (intro reachable_fold reach_step [OF reach_here] step_start)
  from chunk_retry_idempotent [OF demo_appended this] show ?thesis by blast
qed

theorem sealed_start_complete_witness:
  "validate_points demo_header (points demo_loaded) SafetyPolicy True = Inr () \<and>
   points (demo_at [0, 0, 0, 1 / 2]) = points demo_loaded"
proof -
  have "isl (fst (start demo_loaded)) = False" by code_simp
  then obtain s where s: "start demo_loaded = (Inr s, snd (start demo_loaded))"
    by (metis isl_def old.sum.exhaust prod.collapse)
  have m: "0 \<le> min_segment_us SafetyPolicy" by (simp add: SafetyPolicy_def)
  have "run_reachable demo_json (snd (start demo_loaded)) (demo_at [0, 0, 0, 1 / 2])"
    unfolding demo_at_def by (intro reachable_fold reach_here)
  with sealed_start_complete [OF demo_run_reachable(1) [unfolded demo_run_def] m s] show ?thesis by blast
qed

theorem non_ascii_digest_unchecked_witness:
  "\<exists>r1 s r2. append_chunk demo_json (demo_run\<lparr>expected_digest := [CHR 0xE9]\<rparr>) 0 demo_points True [] = (Inl TypeError, r1) \<and>
     start r1 = (Inr s, r2)"
proof -
  let ?r = "demo_run\<lparr>expected_digest := [CHR 0xE9]\<rparr>"
  have d: "chunk_digest demo_json 0 demo_points True = []" by (simp add: chunk_digest_def demo_json_def)
  have 1: "check_chunk ?r 0 demo_points True = Inr ()" by (rule demo_check [where d = "[CHR 0xE9]"]) simp
  have 2: "Mapping.lookup (chunk_receipts ?r) 0 = None" "state ?r = Buffering"
    by (simp_all add: demo_run_def ProgramRun_def lookup_empty)
  have 3: "\<not> ascii (expected_digest ?r)" by (simp add: ascii_def)
  from non_ascii_digest_unchecked [OF 1 2(1) 3 2(2), of demo_json] d show ?thesis by auto
qed

theorem watchdog_faults_run_witness:
  "state (thread_step (demo_world 0) (thread_step (demo_world 0) (thread_step (demo_world 0) (demo_at [0, 0, 0, 2])))) = Faulted"
proof -
  let ?r = "demo_at [0, 0, 0, 2]"
  have "pc (thread ?r) = TWatch (Fin 2)" "flt (heartbeat_timeout_s ?r) (fsub (Fin 2) (last_heartbeat ?r))"
    "\<not> (final_received ?r \<and> disconnect_policy ?r = ''complete_if_sealed'')"
    by code_simp+
  from watchdog_faults_run [OF demo_run_reachable(2) [unfolded demo_run_def] this] show ?thesis
    by (simp add: Let_def)
qed

definition demo_client :: pyenv where
  "demo_client = demo_json\<lparr>json_loads := (\<lambda>s. Inr (mkdict [(''type'', PStr ''open_run''), (''header'', header_record demo_header),
     (''run_id'', PStr ''run-1''), (''run_mode'', PStr ''sealed''), (''program_digest'', PStr (replicate 64 (CHR ''0'')))]))\<rparr>"

definition demo_controller :: controller where
  "demo_controller = ProgramController SafetyPolicy (Fin 50) (Fin 10) (Fin 1) (Fin 0)"

theorem one_run_owns_robot_witness:
  "\<exists>c run rid h mode digest disconnect now. serve_message demo_client demo_controller None [] (Fin 0) =
     (Inr (RunOpened (snapshot (runs c ! 0))), c, run) \<and> length (runs c) = 1 \<and>
     run_reachable demo_client (ProgramRun rid h mode digest disconnect SafetyPolicy (Fin 50) (Fin 10) (Fin 1) (Fin 0) now) (runs c ! 0)"
proof -
  let ?m = "serve_message demo_client demo_controller None [] (Fin 0)"
  have n: "length (runs (fst (snd ?m))) = 1 \<and> fst ?m = Inr (RunOpened (snapshot (runs (fst (snd ?m)) ! 0)))" by code_simp
  obtain c run where c: "?m = (Inr (RunOpened (snapshot (runs c ! 0))), c, run)" "length (runs c) = 1"
    using n by (metis prod.collapse)
  have a: "server_reachable demo_client demo_controller (demo_controller, [] @ [None])"
    by (rule serve_step [OF serve_init accept_connection])
  have "server_reachable demo_client demo_controller (c, [None][0 := run])"
    using serve_step [OF a] client_message [of 0 "[None]" demo_client demo_controller "[]" "Fin 0"] c(1) by simp
  from one_run_owns_robot [OF this [unfolded demo_controller_def], of 0] c show ?thesis by fastforce
qed

end
