(* ===== verification/Model.thy ===== *)
theory Model
  imports PyVal
begin

text \<open>
  The capability model of protocol v2: \<^verbatim>\<open>remote_robot/model.py\<close>. Each frozen dataclass is a record
  and a constructor of the same name that runs \<^verbatim>\<open>__post_init__\<close>; a \<^verbatim>\<open>wf_\<close> predicate per class says
  what a constructed value always satisfies.
\<close>

section \<open>Identifiers\<close>

definition require_identifier :: "string \<Rightarrow> unit result" where
  "require_identifier value =
     raise_if (value = [] \<or> \<not> py_isalpha (hd value)) ValueError
     (raise_if (\<exists>c \<in> set value. \<not> (py_isalnum c \<or> c \<in> {CHR ''_'', CHR ''-''})) ValueError (Inr ()))"

definition require_unique :: "string list \<Rightarrow> unit result" where
  "require_unique values = raise_if (length (remdups values) \<noteq> length values) ValueError (Inr ())"

definition is_identifier :: "string \<Rightarrow> bool" where
  "is_identifier s \<longleftrightarrow> require_identifier s = Inr ()"

text \<open>\<^verbatim>\<open>freeze_value\<close>: mappings get string keys, a later key replacing an equal earlier one; sequences become tuples.\<close>

function freeze_value :: "pyenv \<Rightarrow> pyval \<Rightarrow> pyval" where
  "freeze_value E v = (case v of
      PDict d \<Rightarrow> PDict (fold (\<lambda>(k, x) acc. dset acc (py_str E k) (freeze_value E x)) d [])
    | PList xs \<Rightarrow> PTuple (map (freeze_value E) xs)
    | PTuple xs \<Rightarrow> PTuple (map (freeze_value E) xs)
    | _ \<Rightarrow> v)"
  by pat_completeness auto
termination
  by (relation "measure (\<lambda>(E, v). size v)") (auto simp: less_Suc_eq_le size_list_estimation' dest: size_dict_snd)

declare freeze_value.simps [simp del]

section \<open>Axes and groups\<close>

definition CANONICAL_UNITS :: "(string \<times> string) list" where
  "CANONICAL_UNITS = [(''revolute'', ''rad''), (''prismatic'', ''m''), (''normalized'', ''1'')]"

record axis_spec =
  axis_id :: string
  axis_kind :: string
  axis_unit :: string
  minimum :: pyfloat
  maximum :: pyfloat
  max_velocity :: "pyfloat option"

definition check_axis :: "axis_spec \<Rightarrow> unit result" where
  "check_axis a =
     bind (require_identifier (axis_id a)) (\<lambda>_.
     case map_of CANONICAL_UNITS (axis_kind a) of
       None \<Rightarrow> Inl ValueError
     | Some required_unit \<Rightarrow>
         raise_if (axis_unit a \<noteq> required_unit) ValueError
         (raise_if (\<not> isfinite (minimum a) \<or> \<not> isfinite (maximum a)) ValueError
         (raise_if (fle (maximum a) (minimum a)) ValueError
         (raise_if (case max_velocity a of None \<Rightarrow> False | Some v \<Rightarrow> \<not> isfinite v \<or> fle v (Fin 0)) ValueError
         (raise_if (axis_kind a = ''normalized'' \<and> (flt (minimum a) (Fin 0) \<or> flt (Fin 1) (maximum a))) ValueError
         (Inr ()))))))"

definition AxisSpec :: "string \<Rightarrow> string \<Rightarrow> string \<Rightarrow> pyfloat \<Rightarrow> pyfloat \<Rightarrow> pyfloat option \<Rightarrow> axis_spec result" where
  "AxisSpec i k u lo hi v =
     (let a = \<lparr>axis_id = i, axis_kind = k, axis_unit = u, minimum = lo, maximum = hi, max_velocity = v\<rparr>
      in bind (check_axis a) (\<lambda>_. Inr a))"

definition axis_public_dict :: "axis_spec \<Rightarrow> pyval" where
  "axis_public_dict a = mkdict ([(''axis_id'', PStr (axis_id a)), (''kind'', PStr (axis_kind a)),
     (''unit'', PStr (axis_unit a)), (''minimum'', PFloat (minimum a)), (''maximum'', PFloat (maximum a))] @
     (case max_velocity a of None \<Rightarrow> [] | Some v \<Rightarrow> [(''max_velocity'', PFloat v)]))"

record group_spec =
  group_id :: string
  axes :: "axis_spec list"
  command_schemas :: "string list"
  telemetry_schemas :: "string list"
  control_rate_hz :: pyfloat

definition check_group :: "group_spec \<Rightarrow> unit result" where
  "check_group g =
     bind (require_identifier (group_id g)) (\<lambda>_.
     raise_if (axes g = []) ValueError
     (bind (require_unique (map axis_id (axes g))) (\<lambda>_.
      raise_if (command_schemas g = []) ValueError
      (raise_if (telemetry_schemas g = []) ValueError
      (bind (require_unique (command_schemas g)) (\<lambda>_.
       bind (require_unique (telemetry_schemas g)) (\<lambda>_.
       bind (forM (\<lambda>schema. raise_if (schema = [] \<or> CHR ''/'' \<notin> set schema) ValueError (Inr ()))
               (command_schemas g @ telemetry_schemas g)) (\<lambda>_.
       raise_if (\<not> isfinite (control_rate_hz g) \<or> fle (control_rate_hz g) (Fin 0)) ValueError (Inr ())))))))))"

definition ActuatorGroupSpec :: "string \<Rightarrow> axis_spec list \<Rightarrow> string list \<Rightarrow> string list \<Rightarrow> pyfloat \<Rightarrow> group_spec result" where
  "ActuatorGroupSpec i as cs ts rate =
     (let g = \<lparr>group_id = i, axes = as, command_schemas = cs, telemetry_schemas = ts, control_rate_hz = rate\<rparr>
      in bind (check_group g) (\<lambda>_. Inr g))"

definition dimension :: "group_spec \<Rightarrow> int" where
  "dimension g = int (length (axes g))"

definition str_list :: "string list \<Rightarrow> pyval" where
  "str_list xs = PList (map PStr xs)"

definition group_public_dict :: "group_spec \<Rightarrow> pyval" where
  "group_public_dict g = mkdict [(''group_id'', PStr (group_id g)), (''dimension'', PInt (dimension g)),
     (''axes'', PList (map axis_public_dict (axes g))), (''command_schemas'', str_list (command_schemas g)),
     (''telemetry_schemas'', str_list (telemetry_schemas g)), (''control_rate_hz'', PFloat (control_rate_hz g))]"

section \<open>Watchdogs\<close>

record watchdog_spec =
  strategy :: string
  deadline_ms :: "int option"
  expiry_action :: string
  worker_crash_safe :: bool
  unattended_operation_allowed :: bool

definition check_watchdog :: "watchdog_spec \<Rightarrow> unit result" where
  "check_watchdog w =
     raise_if (strategy w = []) ValueError
     (raise_if (case deadline_ms w of None \<Rightarrow> False | Some d \<Rightarrow> d \<le> 0) ValueError
     (raise_if (expiry_action w = []) ValueError
     (raise_if (unattended_operation_allowed w \<and> \<not> worker_crash_safe w) ValueError (Inr ()))))"

definition WatchdogSpec :: "string \<Rightarrow> int option \<Rightarrow> string \<Rightarrow> bool \<Rightarrow> bool \<Rightarrow> watchdog_spec result" where
  "WatchdogSpec s d a safe unattended =
     (let w = \<lparr>strategy = s, deadline_ms = d, expiry_action = a, worker_crash_safe = safe,
               unattended_operation_allowed = unattended\<rparr>
      in bind (check_watchdog w) (\<lambda>_. Inr w))"

definition opt_int :: "int option \<Rightarrow> pyval" where
  "opt_int x = (case x of None \<Rightarrow> PNone | Some n \<Rightarrow> PInt n)"

definition watchdog_public_dict :: "watchdog_spec \<Rightarrow> pyval" where
  "watchdog_public_dict w = mkdict [(''strategy'', PStr (strategy w)), (''deadline_ms'', opt_int (deadline_ms w)),
     (''expiry_action'', PStr (expiry_action w)), (''worker_crash_safe'', PBool (worker_crash_safe w)),
     (''unattended_operation_allowed'', PBool (unattended_operation_allowed w))]"

section \<open>Nodes\<close>

record child_ref =
  child_role :: string
  child_node :: string
  child_alias :: bool

definition ChildRef :: "string \<Rightarrow> string \<Rightarrow> bool \<Rightarrow> child_ref result" where
  "ChildRef r n a = bind (require_identifier r) (\<lambda>_. bind (require_identifier n) (\<lambda>_.
     Inr \<lparr>child_role = r, child_node = n, child_alias = a\<rparr>))"

record node_common =
  node_id :: string
  revision :: int
  exposed_as_run_root :: bool
  resources :: "string list"
  safety_domains :: "string list"
  safety_policies :: "string list"
  cross_collision_checked :: bool

record physical_node = node_common +
  adapter :: string
  adapter_revision :: int
  configuration_revision :: int
  groups :: "group_spec list"
  watchdog :: "watchdog_spec option"
  connection :: pyval

record composite_node = node_common +
  children :: "child_ref list"
  max_start_skew_us :: "int option"

definition require_unique_sets :: "'a node_common_scheme \<Rightarrow> unit result" where
  "require_unique_sets n = bind (require_unique (resources n)) (\<lambda>_.
     bind (require_unique (safety_domains n)) (\<lambda>_. require_unique (safety_policies n)))"

definition check_physical :: "physical_node \<Rightarrow> unit result" where
  "check_physical n =
     bind (require_identifier (node_id n)) (\<lambda>_.
     raise_if (revision n \<le> 0 \<or> adapter_revision n \<le> 0 \<or> configuration_revision n \<le> 0) ValueError
     (raise_if (adapter n = []) ValueError
     (raise_if (groups n = []) ValueError
     (bind (require_unique (map group_id (groups n))) (\<lambda>_. require_unique_sets n)))))"

text \<open>\<^verbatim>\<open>PhysicalNode(...)\<close>; the connection is frozen last.\<close>

definition PhysicalNode :: "pyenv \<Rightarrow> physical_node \<Rightarrow> physical_node result" where
  "PhysicalNode E n = bind (check_physical n) (\<lambda>_. Inr (n\<lparr>connection := freeze_value E (connection n)\<rparr>))"

definition group :: "physical_node \<Rightarrow> string \<Rightarrow> group_spec result" where
  "group n i = (case find (\<lambda>g. group_id g = i) (groups n) of None \<Rightarrow> Inl KeyError | Some g \<Rightarrow> Inr g)"

definition check_composite :: "composite_node \<Rightarrow> unit result" where
  "check_composite n =
     bind (require_identifier (node_id n)) (\<lambda>_.
     raise_if (revision n \<le> 0) ValueError
     (raise_if (children n = []) ValueError
     (bind (require_unique (map child_role (children n))) (\<lambda>_.
      bind (require_unique_sets n) (\<lambda>_.
      raise_if (case max_start_skew_us n of None \<Rightarrow> False | Some s \<Rightarrow> s \<le> 0) ValueError (Inr ()))))))"

definition CompositeNode :: "composite_node \<Rightarrow> composite_node result" where
  "CompositeNode n = bind (check_composite n) (\<lambda>_. Inr n)"

definition child :: "composite_node \<Rightarrow> string \<Rightarrow> child_ref result" where
  "child n r = (case find (\<lambda>c. child_role c = r) (children n) of None \<Rightarrow> Inl KeyError | Some c \<Rightarrow> Inr c)"

datatype control_node = Physical physical_node | Composite composite_node

fun is_composite :: "control_node \<Rightarrow> bool" where
  "is_composite (Composite n) = True"
| "is_composite (Physical n) = False"

fun common :: "control_node \<Rightarrow> node_common" where
  "common (Physical n) = node_common.truncate n"
| "common (Composite n) = node_common.truncate n"

fun kind :: "control_node \<Rightarrow> string" where
  "kind (Physical n) = ''physical''"
| "kind (Composite n) = ''composite''"

fun node_children :: "control_node \<Rightarrow> child_ref list" where
  "node_children (Physical n) = []"
| "node_children (Composite n) = children n"

record resolved_group =
  root_node_id :: string
  role_path :: string
  physical_node_id :: string
  resolved_group_id :: string
  resolved_spec :: group_spec

definition canonical_id :: "resolved_group \<Rightarrow> string" where
  "canonical_id g = physical_node_id g @ ''.'' @ resolved_group_id g"

section \<open>Identities\<close>

record identity_spec =
  identity_id :: string
  credential_env :: string
  discover :: "string list"
  observe :: "string list"
  control :: "string list"
  estop :: "string list"

definition check_identity :: "identity_spec \<Rightarrow> unit result" where
  "check_identity i =
     bind (require_identifier (identity_id i)) (\<lambda>_.
     raise_if (credential_env i = []) ValueError
     (bind (require_unique (discover i)) (\<lambda>_.
      bind (require_unique (observe i)) (\<lambda>_.
      bind (require_unique (control i)) (\<lambda>_.
      require_unique (estop i))))))"

definition IdentitySpec :: "string \<Rightarrow> string \<Rightarrow> string list \<Rightarrow> string list \<Rightarrow> string list \<Rightarrow> string list \<Rightarrow> identity_spec result" where
  "IdentitySpec i cred ds os cs es =
     (let r = \<lparr>identity_id = i, credential_env = cred, discover = ds, observe = os, control = cs, estop = es\<rparr>
      in bind (check_identity r) (\<lambda>_. Inr r))"

definition in_scope :: "string list \<Rightarrow> string \<Rightarrow> bool" where
  "in_scope scopes node \<longleftrightarrow> ''*'' \<in> set scopes \<or> node \<in> set scopes"

definition can_discover :: "identity_spec \<Rightarrow> string \<Rightarrow> bool" where
  "can_discover i node = in_scope (discover i) node"

definition can_observe :: "identity_spec \<Rightarrow> string \<Rightarrow> bool" where
  "can_observe i node = in_scope (observe i) node"

definition can_emergency_stop :: "identity_spec \<Rightarrow> string \<Rightarrow> bool" where
  "can_emergency_stop i node = in_scope (estop i) node"

definition can_control :: "identity_spec \<Rightarrow> string \<Rightarrow> string option \<Rightarrow> bool" where
  "can_control i node role =
     (if in_scope (control i) node then True
      else if node @ ''.*'' \<in> set (control i) then True
      else (case role of None \<Rightarrow> False | Some r \<Rightarrow> node @ ''.'' @ r \<in> set (control i)))"

section \<open>What constructed values satisfy\<close>

lemma require_unique_iff: "require_unique xs = Inr () \<longleftrightarrow> distinct xs"
  by (auto simp: require_unique_def)

lemma identifier_no_dot: "is_identifier s \<Longrightarrow> s \<noteq> [] \<and> CHR ''.'' \<notin> set s \<and> CHR ''*'' \<notin> set s"
  by (auto simp: is_identifier_def require_identifier_def py_isalnum_def py_isalpha_def)

definition wf_axis :: "axis_spec \<Rightarrow> bool" where
  "wf_axis a \<longleftrightarrow> is_identifier (axis_id a) \<and> map_of CANONICAL_UNITS (axis_kind a) = Some (axis_unit a) \<and>
     (\<exists>lo hi. minimum a = Fin lo \<and> maximum a = Fin hi \<and> lo < hi \<and> (axis_kind a = ''normalized'' \<longrightarrow> 0 \<le> lo \<and> hi \<le> 1)) \<and>
     (\<forall>v. max_velocity a = Some v \<longrightarrow> (\<exists>r. v = Fin r \<and> 0 < r))"

definition wf_group :: "group_spec \<Rightarrow> bool" where
  "wf_group g \<longleftrightarrow> is_identifier (group_id g) \<and> axes g \<noteq> [] \<and> distinct (map axis_id (axes g)) \<and>
     list_all wf_axis (axes g) \<and> command_schemas g \<noteq> [] \<and> telemetry_schemas g \<noteq> [] \<and>
     distinct (command_schemas g) \<and> distinct (telemetry_schemas g) \<and> (\<exists>r. control_rate_hz g = Fin r \<and> 0 < r)"

definition wf_node :: "control_node \<Rightarrow> bool" where
  "wf_node n = (is_identifier (node_id (common n)) \<and> 0 < revision (common n) \<and> (case n of
      Physical p \<Rightarrow> groups p \<noteq> [] \<and> distinct (map group_id (groups p)) \<and> list_all wf_group (groups p) \<and>
        (\<forall>w. watchdog p = Some w \<longrightarrow> (unattended_operation_allowed w \<longrightarrow> worker_crash_safe w))
    | Composite c \<Rightarrow> children c \<noteq> [] \<and> distinct (map child_role (children c)) \<and>
        (\<forall>ch \<in> set (children c). is_identifier (child_role ch))))"

lemma isfinite_iff: "isfinite x \<longleftrightarrow> (\<exists>r. x = Fin r)"
  by (cases x) auto

lemma check_axis_wf: "check_axis a = Inr () \<Longrightarrow> wf_axis a"
  by (auto simp: check_axis_def wf_axis_def is_identifier_def isfinite_iff fle_def not_le not_less split: option.splits)

lemma check_group_wf: "check_group g = Inr () \<Longrightarrow> list_all wf_axis (axes g) \<Longrightarrow> wf_group g"
  by (auto simp: check_group_def wf_group_def is_identifier_def isfinite_iff require_unique_iff fle_def not_le)

lemma check_watchdog_safe: "check_watchdog w = Inr () \<Longrightarrow> unattended_operation_allowed w \<Longrightarrow> worker_crash_safe w"
  by (auto simp: check_watchdog_def)

end
