(* ===== verification/Registry.thy ===== *)
theory Registry
  imports Model
begin

text \<open>
  The capability registry: \<^verbatim>\<open>remote_robot/registry.py\<close>. TOML documents are dynamic values; parsing
  turns them into the records of the capability model. A registry keeps its dictionaries in
  insertion order. The recursive walks over the control-node graph take the depth Python's stack
  would need as fuel; running out of it is the \<^verbatim>\<open>RecursionError\<close> of an unbounded recursion, and the
  theory on accepted registries shows that the fuel given is always enough.
\<close>

section \<open>Reading TOML values\<close>

definition check_keys :: "pydict \<Rightarrow> string list \<Rightarrow> string list \<Rightarrow> unit result" where
  "check_keys table required optional = raise_if (\<not> exact_keys table required optional) RegistryError (Inr ())"

definition mapping_of :: "pyval \<Rightarrow> pydict result" where
  "mapping_of v = (case v of PDict d \<Rightarrow> Inr d | _ \<Rightarrow> Inl RegistryError)"

definition list_of :: "pyval \<Rightarrow> pyval list result" where
  "list_of v = (case v of PList xs \<Rightarrow> Inr xs | _ \<Rightarrow> Inl RegistryError)"

definition str_of :: "pyval \<Rightarrow> string result" where
  "str_of v = (case v of PStr s \<Rightarrow> raise_if (s = []) RegistryError (Inr s) | _ \<Rightarrow> Inl RegistryError)"

definition int_of_val :: "pyval \<Rightarrow> int result" where
  "int_of_val v = (case v of PInt n \<Rightarrow> Inr n | _ \<Rightarrow> Inl RegistryError)"

definition number_of :: "pyval \<Rightarrow> pyfloat result" where
  "number_of v = (case v of PInt n \<Rightarrow> int_to_float n | PFloat f \<Rightarrow> Inr f | _ \<Rightarrow> Inl RegistryError)"

definition bool_of :: "pyval \<Rightarrow> bool result" where
  "bool_of v = (case v of PBool b \<Rightarrow> Inr b | _ \<Rightarrow> Inl RegistryError)"

definition strings_of :: "pyval \<Rightarrow> string list result" where
  "strings_of v = bind (list_of v) (mapM str_of)"

definition optional_strings :: "pydict \<Rightarrow> string \<Rightarrow> string list result" where
  "optional_strings table key = strings_of (dget_or table key (PList []))"

text \<open>A file as \<^verbatim>\<open>tomllib.load\<close> sees it: missing or not TOML, not UTF-8, or a document.\<close>

datatype toml_file = Unreadable | NotUtf8 | Document pydict

fun read_toml :: "toml_file \<Rightarrow> pydict result" where
  "read_toml Unreadable = Inl RegistryError"
| "read_toml NotUtf8 = Inl ValueError"
| "read_toml (Document d) = Inr d"

text \<open>\<^verbatim>\<open>table.get(key)\<close> followed by a conversion unless it is \<^verbatim>\<open>None\<close>.\<close>

definition optional_of :: "pydict \<Rightarrow> string \<Rightarrow> (pyval \<Rightarrow> 'a result) \<Rightarrow> 'a option result" where
  "optional_of table key f = (case dget_or table key PNone of PNone \<Rightarrow> Inr None | v \<Rightarrow> bind (f v) (\<lambda>x. Inr (Some x)))"

text \<open>\<^verbatim>\<open>except ValueError as exc: raise RegistryError\<close>\<close>

definition as_registry_error :: "'a result \<Rightarrow> 'a result" where
  "as_registry_error r = catch r is_ValueError RegistryError"

section \<open>Parsing capabilities\<close>

definition parse_axis :: "pyval \<Rightarrow> axis_spec result" where
  "parse_axis raw =
     bind (mapping_of raw) (\<lambda>table.
     bind (check_keys table [''id'', ''kind'', ''unit'', ''minimum'', ''maximum''] [''max_velocity'']) (\<lambda>_.
     as_registry_error
       (bind (bind (dindex table ''id'') str_of) (\<lambda>i.
        bind (bind (dindex table ''kind'') str_of) (\<lambda>k.
        bind (bind (dindex table ''unit'') str_of) (\<lambda>u.
        bind (bind (dindex table ''minimum'') number_of) (\<lambda>lo.
        bind (bind (dindex table ''maximum'') number_of) (\<lambda>hi.
        bind (optional_of table ''max_velocity'' number_of) (\<lambda>v.
        AxisSpec i k u lo hi v)))))))))"

definition parse_group :: "pyval \<Rightarrow> group_spec result" where
  "parse_group raw =
     bind (mapping_of raw) (\<lambda>table.
     bind (check_keys table [''id'', ''control_rate_hz'', ''command_schemas'', ''telemetry_schemas'', ''axes''] []) (\<lambda>_.
     bind (bind (bind (dindex table ''axes'') list_of) (mapM parse_axis)) (\<lambda>as.
     as_registry_error
       (bind (bind (dindex table ''id'') str_of) (\<lambda>i.
        bind (bind (dindex table ''command_schemas'') strings_of) (\<lambda>cs.
        bind (bind (dindex table ''telemetry_schemas'') strings_of) (\<lambda>ts.
        bind (bind (dindex table ''control_rate_hz'') number_of) (\<lambda>rate.
        ActuatorGroupSpec i as cs ts rate))))))))"

definition parse_watchdog :: "pyval \<Rightarrow> watchdog_spec result" where
  "parse_watchdog raw =
     bind (mapping_of raw) (\<lambda>table.
     bind (check_keys table [''strategy'', ''expiry_action'', ''worker_crash_safe'', ''unattended_operation_allowed'']
       [''deadline_ms'']) (\<lambda>_.
     as_registry_error
       (bind (bind (dindex table ''strategy'') str_of) (\<lambda>s.
        bind (optional_of table ''deadline_ms'' int_of_val) (\<lambda>d.
        bind (bind (dindex table ''expiry_action'') str_of) (\<lambda>a.
        bind (bind (dindex table ''worker_crash_safe'') bool_of) (\<lambda>safe.
        bind (bind (dindex table ''unattended_operation_allowed'') bool_of) (\<lambda>unattended.
        WatchdogSpec s d a safe unattended))))))))"

definition common_required :: "string list" where
  "common_required = [''id'', ''kind'', ''revision'', ''exposed_as_run_root'', ''cross_collision_checked'']"

definition common_optional :: "string list" where
  "common_optional = [''resources'', ''safety_domains'', ''safety_policies'']"

definition parse_physical :: "pyenv \<Rightarrow> pydict \<Rightarrow> physical_node result" where
  "parse_physical E table =
     bind (check_keys table (common_required @ [''adapter'', ''adapter_revision'', ''configuration_revision'', ''groups'', ''watchdog''])
       (common_optional @ [''connection''])) (\<lambda>_.
     bind (bind (bind (dindex table ''groups'') list_of) (mapM parse_group)) (\<lambda>gs.
     bind (mapping_of (dget_or table ''connection'' (PDict []))) (\<lambda>conn.
     as_registry_error
       (bind (bind (dindex table ''id'') str_of) (\<lambda>i.
        bind (bind (dindex table ''revision'') int_of_val) (\<lambda>rev.
        bind (bind (dindex table ''exposed_as_run_root'') bool_of) (\<lambda>exposed.
        bind (bind (dindex table ''adapter'') str_of) (\<lambda>ad.
        bind (bind (dindex table ''adapter_revision'') int_of_val) (\<lambda>arev.
        bind (bind (dindex table ''configuration_revision'') int_of_val) (\<lambda>crev.
        bind (optional_strings table ''resources'') (\<lambda>res.
        bind (optional_strings table ''safety_domains'') (\<lambda>doms.
        bind (optional_strings table ''safety_policies'') (\<lambda>pols.
        bind (bind (dindex table ''cross_collision_checked'') bool_of) (\<lambda>ccc.
        bind (bind (dindex table ''watchdog'') parse_watchdog) (\<lambda>w.
        PhysicalNode E \<lparr>node_id = i, revision = rev, exposed_as_run_root = exposed, resources = res,
          safety_domains = doms, safety_policies = pols, cross_collision_checked = ccc, adapter = ad,
          adapter_revision = arev, configuration_revision = crev, groups = gs, watchdog = Some w,
          connection = PDict conn\<rparr>)))))))))))))))"

definition parse_child :: "pyval \<Rightarrow> child_ref result" where
  "parse_child raw =
     bind (mapping_of raw) (\<lambda>ch.
     bind (check_keys ch [''role'', ''node''] [''alias'']) (\<lambda>_.
     as_registry_error
       (bind (bind (dindex ch ''role'') str_of) (\<lambda>r.
        bind (bind (dindex ch ''node'') str_of) (\<lambda>n.
        bind (bool_of (dget_or ch ''alias'' (PBool False))) (\<lambda>a. ChildRef r n a))))))"

definition parse_composite :: "pydict \<Rightarrow> composite_node result" where
  "parse_composite table =
     bind (check_keys table (common_required @ [''children'']) (common_optional @ [''max_start_skew_us''])) (\<lambda>_.
     bind (bind (bind (dindex table ''children'') list_of) (mapM parse_child)) (\<lambda>chs.
     as_registry_error
       (bind (bind (dindex table ''id'') str_of) (\<lambda>i.
        bind (bind (dindex table ''revision'') int_of_val) (\<lambda>rev.
        bind (bind (dindex table ''exposed_as_run_root'') bool_of) (\<lambda>exposed.
        bind (optional_strings table ''resources'') (\<lambda>res.
        bind (optional_strings table ''safety_domains'') (\<lambda>doms.
        bind (optional_strings table ''safety_policies'') (\<lambda>pols.
        bind (bind (dindex table ''cross_collision_checked'') bool_of) (\<lambda>ccc.
        bind (optional_of table ''max_start_skew_us'' int_of_val) (\<lambda>skew.
        CompositeNode \<lparr>node_id = i, revision = rev, exposed_as_run_root = exposed, resources = res,
          safety_domains = doms, safety_policies = pols, cross_collision_checked = ccc, children = chs,
          max_start_skew_us = skew\<rparr>)))))))))))"

definition parse_node :: "pyenv \<Rightarrow> toml_file \<Rightarrow> control_node result" where
  "parse_node E path =
     bind (read_toml path) (\<lambda>document.
     bind (check_keys document [''node''] []) (\<lambda>_.
     bind (bind (dindex document ''node'') mapping_of) (\<lambda>table.
     bind (str_of (dget_or table ''kind'' PNone)) (\<lambda>k.
     if k = ''physical'' then bind (parse_physical E table) (\<lambda>n. Inr (Physical n))
     else if k = ''composite'' then bind (parse_composite table) (\<lambda>n. Inr (Composite n))
     else Inl RegistryError))))"

definition parse_identity :: "toml_file \<Rightarrow> identity_spec result" where
  "parse_identity path =
     bind (read_toml path) (\<lambda>document.
     bind (check_keys document [''identity''] []) (\<lambda>_.
     bind (bind (dindex document ''identity'') mapping_of) (\<lambda>table.
     bind (check_keys table [''id'', ''credential_env'', ''discover'', ''observe'', ''control'', ''emergency_stop''] []) (\<lambda>_.
     as_registry_error
       (bind (bind (dindex table ''id'') str_of) (\<lambda>i.
        bind (bind (dindex table ''credential_env'') str_of) (\<lambda>cred.
        bind (bind (dindex table ''discover'') strings_of) (\<lambda>ds.
        bind (bind (dindex table ''observe'') strings_of) (\<lambda>os.
        bind (bind (dindex table ''control'') strings_of) (\<lambda>cs.
        bind (bind (dindex table ''emergency_stop'') strings_of) (\<lambda>es.
        IdentitySpec i cred ds os cs es)))))))))))"

section \<open>The registry\<close>

type_synonym node_table = "(string \<times> control_node) list"

record registry =
  server_id :: string
  nodes :: node_table
  identities :: "(string \<times> identity_spec) list"
  manifest_cache :: "(string \<times> pydict) list"

definition node_ids :: "registry \<Rightarrow> string list" where
  "node_ids R = sorted_set (map fst (nodes R))"

definition identity_ids :: "registry \<Rightarrow> string list" where
  "identity_ids R = sorted_set (map fst (identities R))"

definition node_index :: "node_table \<Rightarrow> string \<Rightarrow> control_node result" where
  "node_index ns i = (case map_of ns i of None \<Rightarrow> Inl KeyError | Some n \<Rightarrow> Inr n)"

definition node :: "registry \<Rightarrow> string \<Rightarrow> control_node result" where
  "node R i = catch (node_index (nodes R) i) (\<lambda>e. e = KeyError) RegistryError"

definition identity_named :: "registry \<Rightarrow> string \<Rightarrow> identity_spec result" where
  "identity_named R i = (case map_of (identities R) i of None \<Rightarrow> Inl RegistryError | Some x \<Rightarrow> Inr x)"

subsection \<open>Resolving a role path\<close>

fun walk_roles :: "registry \<Rightarrow> control_node \<Rightarrow> string list \<Rightarrow> (physical_node \<times> string list) result" where
  "walk_roles R (Physical p) segments = Inr (p, segments)"
| "walk_roles R (Composite c) [] = Inl RegistryError"
| "walk_roles R (Composite c) (role # segments) =
     bind (catch (child c role) (\<lambda>e. e = KeyError) RegistryError) (\<lambda>ch.
     bind (node R (child_node ch)) (\<lambda>n. walk_roles R n segments))"

definition resolve_group :: "registry \<Rightarrow> string \<Rightarrow> string \<Rightarrow> resolved_group result" where
  "resolve_group R root_id path =
     raise_if (path = [] \<or> py_startswith path ''.'' \<or> py_endswith path ''.'') RegistryError
     (let segments = py_split (CHR ''.'') path in
      raise_if (\<exists>s \<in> set segments. s = []) RegistryError
      (bind (node R root_id) (\<lambda>start.
       bind (walk_roles R start segments) (\<lambda>(current, rest).
       raise_if (length rest \<noteq> 1) RegistryError
       (bind (catch (group current (hd rest)) (\<lambda>e. e = KeyError) RegistryError) (\<lambda>g.
        Inr \<lparr>root_node_id = root_id, role_path = path, physical_node_id = node_id current,
             resolved_group_id = hd rest, resolved_spec = g\<rparr>))))))"

subsection \<open>Validating the graph\<close>

definition check_children :: "node_table \<Rightarrow> unit result" where
  "check_children ns = forM (\<lambda>(i, n). forM (\<lambda>ch.
     raise_if (map_of ns (child_node ch) = None) RegistryError (Inr ())) (node_children n)) ns"

text \<open>The depth-first search; the nodes on the stack and the finished nodes are its arguments.\<close>

function visit :: "node_table \<Rightarrow> string list \<Rightarrow> string list \<Rightarrow> string \<Rightarrow> string list result" where
  "visit ns visiting visited i =
     (if i \<in> set visiting then Inl RegistryError
      else if i \<in> set visited then Inr visited
      else case map_of ns i of
        None \<Rightarrow> Inl KeyError
      | Some n \<Rightarrow>
          bind (foldM (\<lambda>vis ch. visit ns (visiting @ [i]) vis (child_node ch)) visited (node_children n)) (\<lambda>vis.
          Inr (vis @ [i])))"
  by pat_completeness auto
termination
proof (relation "measure (\<lambda>(ns, visiting, visited, i). card (fst ` set ns - set visiting))", goal_cases)
  case (2 ns visiting visited i n vis ch)
  then have "i \<in> fst ` set ns - set visiting" by (force dest: map_of_SomeD)
  then have "fst ` set ns - set (visiting @ [i]) \<subset> fst ` set ns - set visiting" by auto
  then show ?case by (simp add: psubset_card_mono)
qed simp

declare visit.simps [simp del]

definition validate_graph :: "node_table \<Rightarrow> unit result" where
  "validate_graph ns =
     bind (check_children ns) (\<lambda>_.
     bind (foldM (\<lambda>visited i. visit ns [] visited i) [] (sorted_set (map fst ns))) (\<lambda>_. Inr ()))"

text \<open>Leaves with the path to them and whether the path uses an alias.\<close>

type_synonym leaf = "(string \<times> string) \<times> string \<times> bool"

fun leaf_paths :: "nat \<Rightarrow> node_table \<Rightarrow> string \<Rightarrow> string list \<Rightarrow> bool \<Rightarrow> leaf list result" where
  "leaf_paths 0 ns i prefix aliased = Inl RuntimeError"
| "leaf_paths (Suc fuel) ns i prefix aliased =
     bind (node_index ns i) (\<lambda>n. case n of
       Physical p \<Rightarrow> Inr (map (\<lambda>g. ((node_id p, group_id g), py_join (CHR ''.'') (prefix @ [group_id g]), aliased)) (groups p))
     | Composite c \<Rightarrow>
         bind (mapM (\<lambda>ch. leaf_paths fuel ns (child_node ch) (prefix @ [child_role ch]) (aliased \<or> child_alias ch))
           (children c)) (\<lambda>ls. Inr (concat ls)))"

definition depth_limit :: "node_table \<Rightarrow> nat" where
  "depth_limit ns = length ns"

text \<open>The entries of \<^verbatim>\<open>by_leaf\<close>, in the order of their first path.\<close>

definition paths_to :: "leaf list \<Rightarrow> string \<times> string \<Rightarrow> (string \<times> bool) list" where
  "paths_to leaves canonical = map snd (filter (\<lambda>l. fst l = canonical) leaves)"

definition validate_composite_aliases :: "node_table \<Rightarrow> string \<Rightarrow> unit result" where
  "validate_composite_aliases ns i =
     bind (leaf_paths (depth_limit ns) ns i [] False) (\<lambda>leaves.
     forM (\<lambda>canonical. let paths = paths_to leaves canonical in
         if length paths = 1 then Inr ()
         else raise_if (length (filter (\<lambda>(path, aliased). \<not> aliased) paths) \<noteq> 1) RegistryError (Inr ()))
       (rev (remdups (rev (map fst leaves)))))"

definition check_scopes :: "registry \<Rightarrow> string list \<Rightarrow> unit result" where
  "check_scopes R values = forM (\<lambda>v.
     raise_if (v \<noteq> ''*'' \<and> map_of (nodes R) v = None) RegistryError (Inr ())) values"

definition check_control_scope :: "registry \<Rightarrow> string \<Rightarrow> unit result" where
  "check_control_scope R v =
     (if v = ''*'' then Inr ()
      else case py_partition (CHR ''.'') v of (root_id, separator, path) \<Rightarrow>
        raise_if (map_of (nodes R) root_id = None) RegistryError
        (if separator \<and> path \<noteq> ''*'' then bind (resolve_group R root_id path) (\<lambda>_. Inr ()) else Inr ()))"

definition validate_identity_scopes :: "registry \<Rightarrow> identity_spec \<Rightarrow> unit result" where
  "validate_identity_scopes R i =
     bind (check_scopes R (discover i)) (\<lambda>_.
     bind (check_scopes R (observe i)) (\<lambda>_.
     bind (check_scopes R (estop i)) (\<lambda>_.
     forM (check_control_scope R) (control i))))"

definition validate :: "registry \<Rightarrow> unit result" where
  "validate R =
     raise_if (server_id R = []) RegistryError
     (bind (validate_graph (nodes R)) (\<lambda>_.
      bind (forM (\<lambda>(i, n). case n of
            Composite c \<Rightarrow> validate_composite_aliases (nodes R) (node_id c)
          | Physical p \<Rightarrow> Inr ()) (nodes R)) (\<lambda>_.
      forM (\<lambda>(i, x). validate_identity_scopes R x) (identities R))))"

section \<open>Manifests\<close>

definition canonical_cbor_sha256 :: "pyenv \<Rightarrow> pyval \<Rightarrow> string result" where
  "canonical_cbor_sha256 E v = bind (cbor_dumps E v) (\<lambda>b. Inr (hex (sha256 E b)))"

definition common_manifest :: "registry \<Rightarrow> control_node \<Rightarrow> (string \<times> pyval) list" where
  "common_manifest R n = (let c = common n in
     [(''protocol'', PStr ''robot-stream.v2''), (''server_id'', PStr (server_id R)), (''node_id'', PStr (node_id c)),
      (''kind'', PStr (kind n)), (''revision'', PInt (revision c)),
      (''exposed_as_run_root'', PBool (exposed_as_run_root c)), (''resources'', str_list (resources c)),
      (''safety_domains'', str_list (safety_domains c)),
      (''safety'', mkdict [(''policies'', str_list (safety_policies c)),
         (''cross_collision_checked'', PBool (cross_collision_checked c))])])"

fun collect_physical :: "nat \<Rightarrow> node_table \<Rightarrow> string \<Rightarrow> physical_node list result" where
  "collect_physical 0 ns i = Inl RuntimeError"
| "collect_physical (Suc fuel) ns i =
     bind (node_index ns i) (\<lambda>n. case n of
       Physical p \<Rightarrow> Inr [p]
     | Composite c \<Rightarrow> bind (mapM (\<lambda>ch. collect_physical fuel ns (child_node ch)) (children c)) (\<lambda>ls. Inr (concat ls)))"

text \<open>The \<^verbatim>\<open>result\<close> dictionary keeps the last node of each id; it is read in the order of the ids.\<close>

definition physical_descendants :: "node_table \<Rightarrow> string \<Rightarrow> physical_node list result" where
  "physical_descendants ns i =
     bind (collect_physical (depth_limit ns) ns i) (\<lambda>ps.
     Inr (map (\<lambda>k. the (find (\<lambda>p. node_id p = k) (rev ps))) (sorted_set (map node_id ps))))"

definition assured :: "physical_node list \<Rightarrow> (watchdog_spec \<Rightarrow> bool) \<Rightarrow> bool" where
  "assured ps f = (let ws = List.map_filter watchdog ps in
     length ps > 0 \<and> length ws = length ps \<and> list_all f ws)"

definition physical_body :: "registry \<Rightarrow> physical_node \<Rightarrow> pydict" where
  "physical_body R p = the_dict (mkdict (common_manifest R (Physical p) @
     [(''adapter'', mkdict [(''name'', PStr (adapter p)), (''revision'', PInt (adapter_revision p))]),
      (''configuration_revision'', PInt (configuration_revision p)),
      (''groups'', PList (map group_public_dict (groups p))),
      (''watchdog'', case watchdog p of None \<Rightarrow> PNone | Some w \<Rightarrow> watchdog_public_dict w)]))"

definition child_entry :: "child_ref \<Rightarrow> pyval \<Rightarrow> pydict \<Rightarrow> pyval" where
  "child_entry ch h m = mkdict [(''role'', PStr (child_role ch)), (''node_id'', PStr (child_node ch)),
     (''alias'', PBool (child_alias ch)), (''manifest_hash'', h), (''manifest'', PDict m)]"

definition composite_body :: "registry \<Rightarrow> composite_node \<Rightarrow> pyval list \<Rightarrow> physical_node list \<Rightarrow> pydict" where
  "composite_body R c entries ps = the_dict (mkdict (common_manifest R (Composite c) @
     [(''children'', PList entries), (''max_start_skew_us'', opt_int (max_start_skew_us c)),
      (''assurances'', mkdict
        [(''worker_crash_safe'', PBool (assured ps worker_crash_safe)),
         (''unattended_operation_allowed'', PBool (assured ps unattended_operation_allowed))])]))"

definition store_manifest :: "pyenv \<Rightarrow> registry \<Rightarrow> string \<Rightarrow> pydict \<Rightarrow> (pydict \<times> registry) result" where
  "store_manifest E R i body =
     bind (canonical_cbor_sha256 E (PDict body)) (\<lambda>h.
     let result = body @ [(PStr ''manifest_hash'', PStr h)] in
     Inr (result, R\<lparr>manifest_cache := (i, result) # manifest_cache R\<rparr>))"

fun manifest :: "nat \<Rightarrow> pyenv \<Rightarrow> registry \<Rightarrow> string \<Rightarrow> (pydict \<times> registry) result" where
  "manifest 0 E R i = Inl RuntimeError"
| "manifest (Suc fuel) E R i = (case map_of (manifest_cache R) i of
      Some cached \<Rightarrow> Inr (cached, R)
    | None \<Rightarrow>
        bind (node R i) (\<lambda>n. case n of
          Physical p \<Rightarrow> store_manifest E R i (physical_body R p)
        | Composite c \<Rightarrow>
            bind (foldM (\<lambda>(entries, R1) ch.
                bind (manifest fuel E R1 (child_node ch)) (\<lambda>(m, R2).
                bind (dindex m ''manifest_hash'') (\<lambda>h. Inr (entries @ [child_entry ch h m], R2))))
              ([], R) (children c)) (\<lambda>(entries, R').
            bind (physical_descendants (nodes R) (node_id c)) (\<lambda>ps.
            store_manifest E R' i (composite_body R c entries ps)))))"

definition CapabilityRegistry :: "pyenv \<Rightarrow> string \<Rightarrow> node_table \<Rightarrow> (string \<times> identity_spec) list \<Rightarrow> registry result" where
  "CapabilityRegistry E sid ns ids =
     (let R = \<lparr>server_id = sid, nodes = ns, identities = ids, manifest_cache = []\<rparr> in
      bind (validate R) (\<lambda>_.
      foldM (\<lambda>R i. bind (manifest (depth_limit ns) E R i) (\<lambda>(m, R'). Inr R')) R (node_ids R)))"

definition manifest_of :: "pyenv \<Rightarrow> registry \<Rightarrow> string \<Rightarrow> pydict result" where
  "manifest_of E R i = bind (manifest (Suc (depth_limit (nodes R))) E R i) (\<lambda>(m, R'). Inr m)"

definition manifest_hash :: "pyenv \<Rightarrow> registry \<Rightarrow> string \<Rightarrow> string result" where
  "manifest_hash E R i = bind (manifest_of E R i) (\<lambda>m. bind (dindex m ''manifest_hash'') (\<lambda>h. Inr (py_str E h)))"

definition describe :: "pyenv \<Rightarrow> registry \<Rightarrow> string \<Rightarrow> string option \<Rightarrow> pydict result" where
  "describe E R i viewer = (case viewer of
      None \<Rightarrow> manifest_of E R i
    | Some who \<Rightarrow> bind (identity_named R who) (\<lambda>ident.
        raise_if (\<not> can_discover ident i) RegistryError (manifest_of E R i)))"

definition list_robots :: "pyenv \<Rightarrow> registry \<Rightarrow> string \<Rightarrow> pydict list result" where
  "list_robots E R who =
     bind (identity_named R who) (\<lambda>ident.
     mapM (\<lambda>i. describe E R i None)
       (filter (\<lambda>i. (case map_of (nodes R) i of None \<Rightarrow> False | Some n \<Rightarrow> exposed_as_run_root (common n)) \<and> can_discover ident i)
         (node_ids R)))"

section \<open>Loading a directory\<close>

text \<open>
  The directory \<^verbatim>\<open>root\<close>: \<^verbatim>\<open>server.toml\<close>, the TOML files of \<^verbatim>\<open>robots\<close> in the order of their paths (\<open>None\<close> if it is
  not a directory), and \<^verbatim>\<open>identities\<close>: absent, not a directory, or its files.
\<close>

datatype identity_dir = NoIdentities | NotADirectory | IdentityFiles "toml_file list"

record registry_dir =
  server_file :: toml_file
  robot_files :: "toml_file list option"
  identity_files :: identity_dir

definition add_node :: "pyenv \<Rightarrow> node_table \<Rightarrow> toml_file \<Rightarrow> node_table result" where
  "add_node E ns path = bind (parse_node E path) (\<lambda>n.
     let i = node_id (common n) in
     raise_if (map_of ns i \<noteq> None) RegistryError (Inr (ns @ [(i, n)])))"

definition add_identity :: "(string \<times> identity_spec) list \<Rightarrow> toml_file \<Rightarrow> (string \<times> identity_spec) list result" where
  "add_identity ids path = bind (parse_identity path) (\<lambda>x.
     raise_if (map_of ids (identity_id x) \<noteq> None) RegistryError (Inr (ids @ [(identity_id x, x)])))"

definition load :: "pyenv \<Rightarrow> registry_dir \<Rightarrow> registry result" where
  "load E dir =
     bind (read_toml (server_file dir)) (\<lambda>doc.
     bind (check_keys doc [''server''] []) (\<lambda>_.
     bind (bind (dindex doc ''server'') mapping_of) (\<lambda>server.
     bind (check_keys server [''id'', ''registry_version''] []) (\<lambda>_.
     bind (bind (dindex server ''registry_version'') int_of_val) (\<lambda>version.
     raise_if (version \<noteq> 2) RegistryError
     (bind (bind (dindex server ''id'') str_of) (\<lambda>sid.
      bind (case robot_files dir of None \<Rightarrow> Inl RegistryError | Some fs \<Rightarrow> foldM (add_node E) [] fs) (\<lambda>ns.
      raise_if (ns = []) RegistryError
      (bind (case identity_files dir of
          NoIdentities \<Rightarrow> Inr []
        | NotADirectory \<Rightarrow> Inl RegistryError
        | IdentityFiles fs \<Rightarrow> foldM add_identity [] fs) (\<lambda>ids.
       as_registry_error (CapabilityRegistry E sid ns ids)))))))))))"

end
