(* ===== verification/Program.thy ===== *)
theory Program
  imports Registry
begin

text \<open>
  The program compiler of protocol v2: \<^verbatim>\<open>remote_robot/program.py\<close>. A template and an artifact are
  dynamic values, because both arrive from outside. The dictionaries the compiler displays with
  fixed keys are records here, each with the function that gives the dictionary.
\<close>

section \<open>Constants and the registry seam\<close>

definition TEMPLATE_FORMAT :: string where
  "TEMPLATE_FORMAT = ''robot-program-template''"

definition COMPILED_FORMAT :: string where
  "COMPILED_FORMAT = ''robot-program''"

definition PROGRAM_VERSION :: int where
  "PROGRAM_VERSION = 2"

definition POSITION_SCHEMA :: string where
  "POSITION_SCHEMA = ''joint_position_trajectory/v1''"

definition NORMALIZED_POSITION_SCHEMA :: string where
  "NORMALIZED_POSITION_SCHEMA = ''normalized_position_trajectory/v1''"

definition POSITION_SCHEMAS :: "string list" where
  "POSITION_SCHEMAS = [POSITION_SCHEMA, NORMALIZED_POSITION_SCHEMA]"

definition REFERENCES :: "string list" where
  "REFERENCES = [''absolute'', ''phase_start_measured'']"

definition DEFAULT_COMPLETION :: pyval where
  "DEFAULT_COMPLETION = mkdict [(''schema'', PStr ''all_sequences_finished/v1'')]"

text \<open>
  \<^verbatim>\<open>class RegistryView(Protocol)\<close>: what compilation asks of a registry. A resolution that is a
  dataclass is given as the dictionary \<^verbatim>\<open>asdict\<close> makes of it.
\<close>

record registry_view =
  rv_server_id :: string
  rv_describe :: "string \<Rightarrow> pyval result"
  rv_manifest_hash :: "string \<Rightarrow> string result"
  rv_resolve_group :: "string \<Rightarrow> string \<Rightarrow> pyval result"

text \<open>\<^verbatim>\<open>_plain\<close>: sequences become lists at every depth.\<close>

fun plain :: "pyval \<Rightarrow> pyval" where
  "plain (PDict d) = PDict (map (\<lambda>p. (fst p, plain (snd p))) d)"
| "plain (PList xs) = PList (map plain xs)"
| "plain (PTuple xs) = PList (map plain xs)"
| "plain v = v"

section \<open>Field checks\<close>

lemma find_Some_mem: "find P xs = Some x \<Longrightarrow> x \<in> set xs"
  by (induction xs) (auto split: if_splits)

text \<open>
  Whether \<^verbatim>\<open>a < b\<close> is defined, and whether \<^verbatim>\<open>sorted\<close> can order the values: the classes of numbers,
  strings and byte strings are ordered among themselves, tuples by their first difference.
\<close>

function py_comparable :: "pyval \<Rightarrow> pyval \<Rightarrow> bool" where
  "py_comparable a b = (if num_of a \<noteq> None \<and> num_of b \<noteq> None then True else case (a, b) of
      (PStr s, PStr t) \<Rightarrow> True
    | (PBytes s, PBytes t) \<Rightarrow> True
    | (PTuple xs, PTuple ys) \<Rightarrow> (case find (\<lambda>(x, y). \<not> py_eq x y) (zip xs ys) of
        None \<Rightarrow> True | Some (x, y) \<Rightarrow> py_comparable x y)
    | _ \<Rightarrow> False)"
  by pat_completeness auto
termination
  by (relation "measure (\<lambda>(a, b). size a)") (auto dest!: find_Some_mem intro: size_zip_fst)

declare py_comparable.simps [simp del]

fun sortable :: "pyval list \<Rightarrow> bool" where
  "sortable [] = True"
| "sortable (v # vs) = (list_all (py_comparable v) vs \<and> sortable vs)"

fun hashable :: "pyval \<Rightarrow> bool" where
  "hashable (PList xs) = False"
| "hashable (PDict d) = False"
| "hashable (PTuple xs) = list_all hashable xs"
| "hashable v = True"

text \<open>The unexpected keys are sorted for the message before the error is raised.\<close>

definition require_exact_fields :: "pydict \<Rightarrow> string list \<Rightarrow> string list \<Rightarrow> unit result" where
  "require_exact_fields value required optional =
     (let unexpected = filter (\<lambda>k. k \<notin> PStr ` set (required @ optional)) (keys value) in
      if exact_keys value required optional then Inr ()
      else if sortable unexpected then Inl (ProgramError ''SCHEMA_INVALID'') else Inl TypeError)"

definition short_id :: "pyval \<Rightarrow> string result" where
  "short_id value = (case value of
      PStr s \<Rightarrow>
        raise_if (s = [] \<or> length s > 128) (ProgramError ''SCHEMA_INVALID'')
        (raise_if (\<exists>c \<in> set s. py_isspace c) (ProgramError ''SCHEMA_INVALID'') (Inr s))
    | _ \<Rightarrow> Inl (ProgramError ''SCHEMA_INVALID''))"

definition role_path_of :: "pyval \<Rightarrow> string result" where
  "role_path_of value =
     bind (short_id value) (\<lambda>s.
     raise_if (py_startswith s ''.'' \<or> py_endswith s ''.'' \<or> py_contains s ''..'') (ProgramError ''SCHEMA_INVALID'') (Inr s))"

definition schema_id :: "pyval \<Rightarrow> string result" where
  "schema_id value =
     bind (short_id value) (\<lambda>s. raise_if (CHR ''/'' \<notin> set s) (ProgramError ''SCHEMA_INVALID'') (Inr s))"

definition compile_transition :: "pyval \<Rightarrow> pyval result" where
  "compile_transition value = (case value of
      PDict d \<Rightarrow>
        bind (require_exact_fields d [''group'', ''from_schema'', ''to_schema''] []) (\<lambda>_.
        bind (bind (dindex d ''group'') role_path_of) (\<lambda>g.
        bind (bind (dindex d ''from_schema'') schema_id) (\<lambda>f.
        bind (bind (dindex d ''to_schema'') schema_id) (\<lambda>t.
        Inr (mkdict [(''group'', PStr g), (''from_schema'', PStr f), (''to_schema'', PStr t)])))))
    | _ \<Rightarrow> Inl (ProgramError ''SCHEMA_INVALID''))"

section \<open>Resolutions\<close>

text \<open>\<^verbatim>\<open>if new not in axis and old in axis: axis[new] = axis[old]\<close>\<close>

definition rename_field :: "string \<Rightarrow> string \<Rightarrow> pydict \<Rightarrow> pydict" where
  "rename_field new old d =
     (if dget d new = None then (case dget d old of None \<Rightarrow> d | Some v \<Rightarrow> dset d new v) else d)"

definition normalize_axis :: "pyval \<Rightarrow> pydict result" where
  "normalize_axis axis = (case plain axis of
      PDict d \<Rightarrow> Inr (rename_field ''upper'' ''maximum'' (rename_field ''lower'' ''minimum'' (rename_field ''name'' ''axis_id'' d)))
    | _ \<Rightarrow> Inl (ProgramError ''INVALID_MANIFEST''))"

record resolution =
  res_node :: string
  res_group :: string
  res_schemas :: pyval
  res_axes :: "pydict list"

text \<open>\<^verbatim>\<open>_normalize_resolution\<close>; of the group the compiler reads the command schemas and the axes.\<close>

definition normalize_resolution :: "pyval \<Rightarrow> resolution result" where
  "normalize_resolution resolved = (case plain resolved of
      PDict v \<Rightarrow>
        (case (dget_or v ''physical_node_id'' (dget_or v ''node_id'' PNone), dget_or v ''group_id'' PNone) of
           (PStr n, PStr g) \<Rightarrow>
             (case plain (dget_or v ''group'' (dget_or v ''group_spec'' PNone)) of
                PDict grp \<Rightarrow>
                  bind (py_iter (dget_or grp ''axes'' (PList []))) (\<lambda>raw_axes.
                  bind (mapM normalize_axis raw_axes) (\<lambda>axs.
                  Inr \<lparr>res_node = n, res_group = g, res_schemas = dget_or grp ''command_schemas'' (PList []), res_axes = axs\<rparr>))
              | _ \<Rightarrow> Inl (ProgramError ''INVALID_MANIFEST''))
         | _ \<Rightarrow> Inl (ProgramError ''INVALID_MANIFEST''))
    | _ \<Rightarrow> Inl (ProgramError ''INVALID_MANIFEST''))"

section \<open>Samples\<close>

type_synonym sample = "int \<times> pyfloat list"

definition sample_dict :: "sample \<Rightarrow> pyval" where
  "sample_dict s = mkdict [(''t_us'', PInt (fst s)), (''values'', PList (map PFloat (snd s)))]"

text \<open>Raising an error whose message mentions fields of the axis.\<close>

definition axis_error :: "pydict \<Rightarrow> string list \<Rightarrow> string \<Rightarrow> 'a result" where
  "axis_error axis names code = bind (mapM (dindex axis) names) (\<lambda>_. Inl (ProgramError code))"

definition over_limit :: "pyenv \<Rightarrow> pydict \<Rightarrow> string \<Rightarrow> pyfloat \<Rightarrow> bool result" where
  "over_limit E axis key v = bind (optional_of axis key (py_float E)) (\<lambda>lim.
     Inr (case lim of None \<Rightarrow> False | Some hi \<Rightarrow> flt hi v))"

definition under_limit :: "pyenv \<Rightarrow> pydict \<Rightarrow> string \<Rightarrow> pyfloat \<Rightarrow> bool result" where
  "under_limit E axis key v = bind (optional_of axis key (py_float E)) (\<lambda>lim.
     Inr (case lim of None \<Rightarrow> False | Some lo \<Rightarrow> flt v lo))"

definition check_axis_limits :: "pyenv \<Rightarrow> pydict \<times> pyfloat \<Rightarrow> unit result" where
  "check_axis_limits E av = (case av of (axis, v) \<Rightarrow>
     bind (under_limit E axis ''lower'' v) (\<lambda>low.
     bind (if low then Inr True else over_limit E axis ''upper'' v) (\<lambda>outside.
     if outside then axis_error axis [''name''] ''LIMIT_VIOLATION'' else Inr ())))"

definition check_axis_rates :: "pyenv \<Rightarrow> pyfloat \<Rightarrow> pydict \<times> pyfloat \<times> pyfloat \<Rightarrow> unit result" where
  "check_axis_rates E duration_s x = (case x of (axis, start, end) \<Rightarrow>
     let distance = fabs (fsub end start) in
     bind (fdiv (fmul (Fin (1875 / 1000)) distance) duration_s) (\<lambda>peak_velocity.
     bind (fdiv (fmul (fround (5773503 / 1000000)) distance) (fmul duration_s duration_s)) (\<lambda>peak_acceleration.
     bind (over_limit E axis ''max_velocity'' peak_velocity) (\<lambda>fast.
     if fast then axis_error axis [''name'', ''unit''] ''VELOCITY_LIMIT''
     else bind (over_limit E axis ''max_acceleration'' peak_acceleration) (\<lambda>hard.
       if hard then axis_error axis [''name'', ''unit''] ''ACCELERATION_LIMIT'' else Inr ())))))"

definition validate_segment_rates :: "pyenv \<Rightarrow> pydict list \<Rightarrow> pyfloat list \<Rightarrow> pyfloat list \<Rightarrow> int \<Rightarrow> unit result" where
  "validate_segment_rates E axs before after duration_us =
     bind (int_truediv duration_us 1000000) (\<lambda>duration_s.
     forM (check_axis_rates E duration_s) (zip axs (zip before after)))"

definition invalid_normalized :: "string \<Rightarrow> pyfloat list \<Rightarrow> bool" where
  "invalid_normalized reference values =
     (if reference = ''absolute'' then \<exists>v \<in> set values. flt v (Fin 0) \<or> flt (Fin 1) v
      else \<exists>v \<in> set values. flt v (Fin (-1)) \<or> flt (Fin 1) v)"

definition sample_time :: "sample option \<Rightarrow> pyval \<Rightarrow> int result" where
  "sample_time prev t = (case t of
      PInt n \<Rightarrow> raise_if (n < 0) (ProgramError ''INVALID_TIME'')
        (raise_if (case prev of None \<Rightarrow> n \<noteq> 0 | Some p \<Rightarrow> n \<le> fst p) (ProgramError ''INVALID_TIME'') (Inr n))
    | _ \<Rightarrow> Inl (ProgramError ''INVALID_TIME''))"

definition sample_values :: "pyenv \<Rightarrow> nat \<Rightarrow> pyval \<Rightarrow> pyfloat list result" where
  "sample_values E width raw = (case raw of
      PList vs \<Rightarrow>
        raise_if (length vs \<noteq> width) (ProgramError ''DENSE_AXIS_MISMATCH'')
        (raise_if (\<exists>v \<in> set vs. is_bool v) (ProgramError ''SCHEMA_INVALID'')
        (bind (catch (mapM (py_float E) vs) (\<lambda>e. e = OverflowError \<or> e = TypeError \<or> is_ValueError e)
            (ProgramError ''SCHEMA_INVALID'')) (\<lambda>values.
         raise_if (\<not> list_all isfinite values) (ProgramError ''NON_FINITE_VALUE'') (Inr values))))
    | _ \<Rightarrow> Inl (ProgramError ''DENSE_AXIS_MISMATCH''))"

definition compile_sample :: "pyenv \<Rightarrow> pydict list \<Rightarrow> string \<Rightarrow> string \<Rightarrow> sample option \<Rightarrow> pyval \<Rightarrow> sample result" where
  "compile_sample E axs reference command_schema prev raw_sample = (case raw_sample of
      PDict d \<Rightarrow>
        bind (require_exact_fields d [''t_us'', ''values''] []) (\<lambda>_.
        bind (bind (dindex d ''t_us'') (sample_time prev)) (\<lambda>t.
        bind (bind (dindex d ''values'') (sample_values E (length axs))) (\<lambda>values.
        raise_if (reference = ''phase_start_measured'' \<and> prev = None \<and>
            (\<exists>v \<in> set values. flt (fround (1 / 10 ^ 12)) (fabs v))) (ProgramError ''START_STATE_MISMATCH'')
        (bind (if reference = ''absolute'' then forM (check_axis_limits E) (zip axs values) else Inr ()) (\<lambda>_.
         raise_if (command_schema = NORMALIZED_POSITION_SCHEMA \<and> invalid_normalized reference values)
           (ProgramError ''LIMIT_VIOLATION'')
         (bind (case prev of None \<Rightarrow> Inr () | Some p \<Rightarrow> validate_segment_rates E axs (snd p) values (t - fst p)) (\<lambda>_.
          Inr (t, values))))))))
    | _ \<Rightarrow> Inl (ProgramError ''SCHEMA_INVALID''))"

fun compile_samples :: "pyenv \<Rightarrow> pydict list \<Rightarrow> string \<Rightarrow> string \<Rightarrow> sample option \<Rightarrow> pyval list \<Rightarrow> sample list result" where
  "compile_samples E axs reference command_schema prev [] = Inr []"
| "compile_samples E axs reference command_schema prev (raw # raws) =
     bind (compile_sample E axs reference command_schema prev raw) (\<lambda>s.
     bind (compile_samples E axs reference command_schema (Some s) raws) (\<lambda>ss. Inr (s # ss)))"

definition compile_dense_samples :: "pyenv \<Rightarrow> pyval \<Rightarrow> pydict list \<Rightarrow> string \<Rightarrow> string \<Rightarrow> sample list result" where
  "compile_dense_samples E raw_samples axs reference command_schema = (case raw_samples of
      PList raws \<Rightarrow> raise_if (length raws < 2) (ProgramError ''SCHEMA_INVALID'')
        (compile_samples E axs reference command_schema None raws)
    | _ \<Rightarrow> Inl (ProgramError ''SCHEMA_INVALID''))"

section \<open>Sequences and phases\<close>

definition digest_value :: "pyenv \<Rightarrow> pyval \<Rightarrow> string result" where
  "digest_value E value = bind (cbor_dumps E value) (\<lambda>b. Inr (hex (sha256 E b)))"

record compiled_sequence =
  seq_role_path :: string
  seq_node :: string
  seq_group :: string
  seq_schema :: string
  seq_reference :: string
  seq_axes :: "(string \<times> string \<times> string) list"
  seq_samples :: "sample list"

definition seq_duration :: "compiled_sequence \<Rightarrow> int" where
  "seq_duration s = fst (last (seq_samples s))"

definition resolved_target :: "compiled_sequence \<Rightarrow> pyval" where
  "resolved_target s = mkdict [(''physical_node_id'', PStr (seq_node s)), (''group_id'', PStr (seq_group s))]"

definition axis_dict :: "string \<times> string \<times> string \<Rightarrow> pyval" where
  "axis_dict a = (case a of (n, k, u) \<Rightarrow> mkdict [(''name'', PStr n), (''kind'', PStr k), (''unit'', PStr u)])"

definition sequence_items :: "compiled_sequence \<Rightarrow> (string \<times> pyval) list" where
  "sequence_items s = [(''role_path'', PStr (seq_role_path s)), (''resolved_target'', resolved_target s),
     (''command_schema'', PStr (seq_schema s)), (''reference'', PStr (seq_reference s)),
     (''axes'', PList (map axis_dict (seq_axes s))), (''duration_us'', PInt (seq_duration s)),
     (''samples'', PList (map sample_dict (seq_samples s)))]"

definition axis_triple :: "pyenv \<Rightarrow> pydict \<Rightarrow> (string \<times> string \<times> string) result" where
  "axis_triple E axis =
     bind (dindex axis ''name'') (\<lambda>n. bind (dindex axis ''kind'') (\<lambda>k. bind (dindex axis ''unit'') (\<lambda>u.
     Inr (py_str E n, py_str E k, py_str E u))))"

definition check_schema :: "pyval \<Rightarrow> string \<Rightarrow> unit result" where
  "check_schema schemas command_schema =
     bind (py_iter schemas) (\<lambda>supported.
     raise_if (\<not> list_all hashable supported) TypeError
     (if PStr command_schema \<notin> set supported
      then Inl (if sortable supported then ProgramError ''CAPABILITY_MISSING'' else TypeError)
      else raise_if (command_schema \<notin> set POSITION_SCHEMAS) (ProgramError ''CAPABILITY_MISSING'') (Inr ())))"

definition compile_sequence :: "pyenv \<Rightarrow> registry_view \<Rightarrow> string \<Rightarrow> pyval \<Rightarrow> compiled_sequence result" where
  "compile_sequence E V root_id raw_sequence = (case raw_sequence of
      PDict d \<Rightarrow>
        bind (require_exact_fields d [''group'', ''command_schema'', ''reference'', ''samples''] []) (\<lambda>_.
        bind (bind (dindex d ''group'') role_path_of) (\<lambda>role_path.
        bind (bind (rv_resolve_group V root_id role_path) normalize_resolution) (\<lambda>res.
        bind (dindex d ''command_schema'') (\<lambda>raw_schema.
        let command_schema = py_str E raw_schema in
        bind (check_schema (res_schemas res) command_schema) (\<lambda>_.
        bind (dindex d ''reference'') (\<lambda>raw_reference.
        let reference = py_str E raw_reference in
        raise_if (reference \<notin> set REFERENCES) (ProgramError ''SCHEMA_INVALID'')
        (raise_if (res_axes res = []) (ProgramError ''INVALID_MANIFEST'')
        (bind (dindex d ''samples'') (\<lambda>raw_samples.
         bind (compile_dense_samples E raw_samples (res_axes res) reference command_schema) (\<lambda>samples.
         bind (mapM (axis_triple E) (res_axes res)) (\<lambda>axs.
         Inr \<lparr>seq_role_path = role_path, seq_node = res_node res, seq_group = res_group res, seq_schema = command_schema,
           seq_reference = reference, seq_axes = axs, seq_samples = samples\<rparr>)))))))))))
    | _ \<Rightarrow> Inl (ProgramError ''SCHEMA_INVALID''))"

text \<open>A phase keeps its sequences with their digests, and its own digest.\<close>

record compiled_phase =
  ph_id :: string
  ph_duration :: int
  ph_completion :: pyval
  ph_transitions :: "pyval list"
  ph_sequences :: "(compiled_sequence \<times> string) list"
  ph_sha256 :: string

definition sequence_dict :: "compiled_sequence \<times> string \<Rightarrow> pyval" where
  "sequence_dict x = (case x of (s, sha) \<Rightarrow> mkdict (sequence_items s @ [(''sha256'', PStr sha)]))"

definition outline_sequence :: "compiled_sequence \<times> string \<Rightarrow> pyval" where
  "outline_sequence x = (case x of (s, sha) \<Rightarrow> mkdict
     [(''role_path'', PStr (seq_role_path s)), (''resolved_target'', resolved_target s),
      (''command_schema'', PStr (seq_schema s)), (''reference'', PStr (seq_reference s)),
      (''duration_us'', PInt (seq_duration s)), (''sha256'', PStr sha)])"

definition phase_items :: "compiled_phase \<Rightarrow> (string \<times> pyval) list" where
  "phase_items p = [(''phase_id'', PStr (ph_id p)), (''duration_us'', PInt (ph_duration p)),
     (''completion'', ph_completion p), (''transitions'', PList (ph_transitions p)),
     (''sequences'', PList (map sequence_dict (ph_sequences p)))]"

definition phase_dict :: "compiled_phase \<Rightarrow> pyval" where
  "phase_dict p = mkdict (phase_items p @ [(''sha256'', PStr (ph_sha256 p))])"

definition outline_phase :: "compiled_phase \<Rightarrow> pyval" where
  "outline_phase p = mkdict [(''phase_id'', PStr (ph_id p)), (''duration_us'', PInt (ph_duration p)),
     (''participants'', PList (map (\<lambda>x. resolved_target (fst x)) (ph_sequences p))),
     (''sequences'', PList (map outline_sequence (ph_sequences p))),
     (''transitions'', PList (ph_transitions p)), (''payload_sha256'', PStr (ph_sha256 p))]"

text \<open>The loop over the sequences of a phase: targets seen, duration so far, compiled sequences.\<close>

type_synonym phase_acc = "(string \<times> string) list \<times> int \<times> (compiled_sequence \<times> string) list"

definition add_sequence :: "pyenv \<Rightarrow> registry_view \<Rightarrow> string \<Rightarrow> phase_acc \<Rightarrow> pyval \<Rightarrow> phase_acc result" where
  "add_sequence E V root_id acc raw_sequence = (case acc of (canonical_targets, duration_us, sequences) \<Rightarrow>
     bind (compile_sequence E V root_id raw_sequence) (\<lambda>s.
     let target = (seq_node s, seq_group s) in
     raise_if (target \<in> set canonical_targets) (ProgramError ''DUPLICATE_GROUP_SEQUENCE'')
     (bind (digest_value E (mkdict (sequence_items s))) (\<lambda>sha.
      Inr (target # canonical_targets, max duration_us (seq_duration s), sequences @ [(s, sha)])))))"

definition compile_phase :: "pyenv \<Rightarrow> registry_view \<Rightarrow> string \<Rightarrow> pyval \<Rightarrow> compiled_phase result" where
  "compile_phase E V root_id raw_phase = (case raw_phase of
      PDict d \<Rightarrow>
        bind (require_exact_fields d [''phase_id'', ''sequences''] [''completion'', ''transitions'']) (\<lambda>_.
        bind (bind (dindex d ''phase_id'') short_id) (\<lambda>phase_id.
        let completion = dget_or d ''completion'' DEFAULT_COMPLETION in
        raise_if (\<not> py_eq completion DEFAULT_COMPLETION) (ProgramError ''CAPABILITY_MISSING'')
        (case dget_or d ''transitions'' (PList []) of
           PList transitions \<Rightarrow>
             raise_if (transitions \<noteq> []) (ProgramError ''CAPABILITY_MISSING'')
             (bind (mapM compile_transition transitions) (\<lambda>compiled_transitions.
              bind (dindex d ''sequences'') (\<lambda>raw_sequences. case raw_sequences of
                PList raws \<Rightarrow>
                  raise_if (raws = []) (ProgramError ''SCHEMA_INVALID'')
                  (bind (foldM (add_sequence E V root_id) ([], 0, []) raws) (\<lambda>(targets, duration_us, sequences).
                   let p = \<lparr>ph_id = phase_id, ph_duration = duration_us, ph_completion = completion,
                            ph_transitions = compiled_transitions, ph_sequences = sequences, ph_sha256 = []\<rparr> in
                   bind (digest_value E (mkdict (phase_items p))) (\<lambda>sha. Inr (p\<lparr>ph_sha256 := sha\<rparr>))))
              | _ \<Rightarrow> Inl (ProgramError ''SCHEMA_INVALID''))))
         | _ \<Rightarrow> Inl (ProgramError ''SCHEMA_INVALID''))))
    | _ \<Rightarrow> Inl (ProgramError ''SCHEMA_INVALID''))"

section \<open>Programs\<close>

record compiled_program =
  cp_body :: pydict
  cp_sha256 :: string

definition add_phase :: "pyenv \<Rightarrow> registry_view \<Rightarrow> string \<Rightarrow> compiled_phase list \<Rightarrow> pyval \<Rightarrow> compiled_phase list result" where
  "add_phase E V root_id phases raw_phase =
     bind (compile_phase E V root_id raw_phase) (\<lambda>p.
     raise_if (ph_id p \<in> ph_id ` set phases) (ProgramError ''DUPLICATE_PHASE'') (Inr (phases @ [p])))"

definition outline_dict :: "compiled_phase list \<Rightarrow> pyval" where
  "outline_dict phases = mkdict [(''phase_count'', PInt (int (length phases))), (''phases'', PList (map outline_phase phases))]"

definition body_items :: "string \<Rightarrow> string \<Rightarrow> string \<Rightarrow> string \<Rightarrow> string \<Rightarrow> compiled_phase list \<Rightarrow> (string \<times> pyval) list" where
  "body_items program_id sid root_id manifest_sha outline_sha phases =
     [(''format'', PStr COMPILED_FORMAT), (''version'', PInt PROGRAM_VERSION), (''program_id'', PStr program_id),
      (''server_id'', PStr sid), (''root_id'', PStr root_id), (''manifest_hash'', PStr manifest_sha),
      (''outline'', outline_dict phases), (''outline_sha256'', PStr outline_sha), (''phases'', PList (map phase_dict phases))]"

definition compile_root :: "pyenv \<Rightarrow> registry_view \<Rightarrow> pydict \<Rightarrow> (string \<times> string) result" where
  "compile_root E V template =
     bind (require_exact_fields template [''format'', ''version'', ''root_id'', ''phases''] [''program_id'']) (\<lambda>_.
     raise_if (\<not> py_eq (dget_or template ''format'' PNone) (PStr TEMPLATE_FORMAT) \<or>
         \<not> py_eq (dget_or template ''version'' PNone) (PInt PROGRAM_VERSION)) (ProgramError ''VERSION_UNSUPPORTED'')
     (bind (bind (dindex template ''root_id'') short_id) (\<lambda>root_id.
      bind (rv_describe V root_id) (\<lambda>manifest. case manifest of
         PDict m \<Rightarrow>
           raise_if (dget_or m ''exposed_as_run_root'' PNone \<noteq> PBool True) (ProgramError ''ROOT_NOT_EXPOSED'')
           (bind (rv_manifest_hash V root_id) (\<lambda>h. Inr (root_id, h)))
       | _ \<Rightarrow> Inl (ProgramError ''INVALID_MANIFEST'')))))"

definition compile_program :: "pyenv \<Rightarrow> registry_view \<Rightarrow> pydict \<Rightarrow> compiled_program result" where
  "compile_program E V template =
     bind (compile_root E V template) (\<lambda>(root_id, manifest_sha).
     bind (dindex template ''phases'') (\<lambda>raw_phases. case raw_phases of
        PList raws \<Rightarrow>
          raise_if (raws = []) (ProgramError ''SCHEMA_INVALID'')
          (bind (foldM (add_phase E V root_id) [] raws) (\<lambda>phases.
           bind (short_id (dget_or template ''program_id'' (PStr ''program''))) (\<lambda>program_id.
           bind (digest_value E (outline_dict phases)) (\<lambda>outline_sha.
           let items = body_items program_id (rv_server_id V) root_id manifest_sha outline_sha phases in
           bind (digest_value E (mkdict items)) (\<lambda>sha. Inr \<lparr>cp_body = the_dict (mkdict items), cp_sha256 = sha\<rparr>)))))
      | _ \<Rightarrow> Inl (ProgramError ''SCHEMA_INVALID'')))"

section \<open>Artifacts\<close>

definition program_server_id :: "pyenv \<Rightarrow> compiled_program \<Rightarrow> string result" where
  "program_server_id E p = bind (dindex (cp_body p) ''server_id'') (\<lambda>v. Inr (py_str E v))"

definition program_root_id :: "pyenv \<Rightarrow> compiled_program \<Rightarrow> string result" where
  "program_root_id E p = bind (dindex (cp_body p) ''root_id'') (\<lambda>v. Inr (py_str E v))"

definition program_manifest_hash :: "pyenv \<Rightarrow> compiled_program \<Rightarrow> string result" where
  "program_manifest_hash E p = bind (dindex (cp_body p) ''manifest_hash'') (\<lambda>v. Inr (py_str E v))"

definition program_outline :: "compiled_program \<Rightarrow> pyval result" where
  "program_outline p = dindex (cp_body p) ''outline''"

definition program_phases :: "compiled_program \<Rightarrow> pyval list result" where
  "program_phases p = bind (dindex (cp_body p) ''phases'') py_iter"

definition to_bytes :: "pyenv \<Rightarrow> compiled_program \<Rightarrow> bytes result" where
  "to_bytes E p = cbor_dumps E (mkdict [(''body'', PDict (cp_body p)), (''sha256'', PStr (cp_sha256 p))])"

text \<open>\<^verbatim>\<open>v[k]\<close> for a string key, \<^verbatim>\<open>v.get(k)\<close> and \<^verbatim>\<open>v.items()\<close> on a value of any class.\<close>

definition py_getitem :: "pyval \<Rightarrow> string \<Rightarrow> pyval result" where
  "py_getitem v k = (case v of PDict d \<Rightarrow> dindex d k | _ \<Rightarrow> Inl TypeError)"

definition py_items :: "pyval \<Rightarrow> pydict result" where
  "py_items v = (case v of PDict d \<Rightarrow> Inr d | _ \<Rightarrow> Inl AttributeError)"

definition py_len :: "pyval \<Rightarrow> int result" where
  "py_len v = (case v of
      PStr s \<Rightarrow> Inr (int (length s)) | PBytes b \<Rightarrow> Inr (int (length b)) | PList xs \<Rightarrow> Inr (int (length xs))
    | PTuple xs \<Rightarrow> Inr (int (length xs)) | PDict d \<Rightarrow> Inr (int (length d)) | _ \<Rightarrow> Inl TypeError)"

definition inspect :: "pyenv \<Rightarrow> compiled_program \<Rightarrow> pyval result" where
  "inspect E p =
     bind (dindex (cp_body p) ''format'') (\<lambda>fmt.
     bind (dindex (cp_body p) ''version'') (\<lambda>version.
     bind (program_server_id E p) (\<lambda>sid.
     bind (program_root_id E p) (\<lambda>root_id.
     bind (program_manifest_hash E p) (\<lambda>mh.
     bind (dindex (cp_body p) ''outline_sha256'') (\<lambda>osha.
     bind (program_phases p) (\<lambda>phases.
     bind (mapM (\<lambda>ph.
         bind (py_getitem ph ''phase_id'') (\<lambda>i.
         bind (py_getitem ph ''duration_us'') (\<lambda>d.
         bind (bind (py_getitem ph ''sequences'') py_len) (\<lambda>n.
         bind (py_getitem ph ''sha256'') (\<lambda>h.
         Inr (mkdict [(''phase_id'', i), (''duration_us'', d), (''sequence_count'', PInt n), (''sha256'', h)]))))))
       phases) (\<lambda>rows.
     Inr (mkdict [(''format'', fmt), (''version'', version), (''server_id'', PStr sid), (''root_id'', PStr root_id),
       (''manifest_hash'', PStr mh), (''artifact_sha256'', PStr (cp_sha256 p)), (''outline_sha256'', osha),
       (''phase_count'', PInt (int (length phases))), (''phases'', PList rows)])))))))))"

definition check_sequence_hash :: "pyenv \<Rightarrow> pyval \<Rightarrow> unit result" where
  "check_sequence_hash E sequence =
     bind (py_items sequence) (\<lambda>d.
     bind (digest_value E (PDict (ddel d ''sha256''))) (\<lambda>actual.
     raise_if (\<not> py_eq (dget_or d ''sha256'' PNone) (PStr actual)) (ProgramError ''HASH_MISMATCH'') (Inr ())))"

definition check_phase_hash :: "pyenv \<Rightarrow> pyval \<times> pyval \<Rightarrow> unit result" where
  "check_phase_hash E x = (case x of
      (PDict phase, PDict phase_outline) \<Rightarrow>
        bind (digest_value E (PDict (ddel phase ''sha256''))) (\<lambda>actual.
        raise_if (\<not> py_eq (dget_or phase ''sha256'' PNone) (PStr actual) \<or>
            \<not> py_eq (dget_or phase_outline ''payload_sha256'' PNone) (PStr actual)) (ProgramError ''HASH_MISMATCH'')
        (bind (py_iter (dget_or phase ''sequences'' (PList []))) (forM (check_sequence_hash E))))
    | _ \<Rightarrow> Inl (ProgramError ''INVALID_ARTIFACT''))"

definition validate_compiled_internal_hashes :: "pyenv \<Rightarrow> pydict \<Rightarrow> unit result" where
  "validate_compiled_internal_hashes E body = (case dget_or body ''outline'' PNone of
      PDict outline \<Rightarrow>
        bind (digest_value E (PDict outline)) (\<lambda>h.
        raise_if (\<not> py_eq (dget_or body ''outline_sha256'' PNone) (PStr h)) (ProgramError ''HASH_MISMATCH'')
        (case (dget_or body ''phases'' PNone, dget_or outline ''phases'' PNone) of
           (PList phases, PList outline_phases) \<Rightarrow>
             raise_if (length outline_phases \<noteq> length phases) (ProgramError ''INVALID_ARTIFACT'')
             (forM (check_phase_hash E) (zip phases outline_phases))
         | _ \<Rightarrow> Inl (ProgramError ''INVALID_ARTIFACT'')))
    | _ \<Rightarrow> Inl (ProgramError ''HASH_MISMATCH''))"

definition from_bytes :: "pyenv \<Rightarrow> bytes \<Rightarrow> compiled_program result" where
  "from_bytes E data =
     bind (catch (cbor_loads E data) (\<lambda>e. True) (ProgramError ''INVALID_CBOR'')) (\<lambda>value.
     bind (cbor_dumps E value) (\<lambda>canonical.
     raise_if (data \<noteq> canonical) (ProgramError ''NONCANONICAL_ARTIFACT'')
     (case value of
        PDict d \<Rightarrow>
          raise_if (\<not> exact_keys d [''body'', ''sha256''] []) (ProgramError ''INVALID_ARTIFACT'')
          (case (dget_or d ''body'' PNone, dget_or d ''sha256'' PNone) of
             (PDict body, PStr supplied) \<Rightarrow>
               raise_if (\<not> py_eq (dget_or body ''format'' PNone) (PStr COMPILED_FORMAT) \<or>
                   \<not> py_eq (dget_or body ''version'' PNone) (PInt PROGRAM_VERSION)) (ProgramError ''VERSION_UNSUPPORTED'')
               (bind (digest_value E (PDict body)) (\<lambda>actual.
                raise_if (supplied \<noteq> actual) (ProgramError ''HASH_MISMATCH'')
                (bind (validate_compiled_internal_hashes E body) (\<lambda>_.
                 Inr \<lparr>cp_body = body, cp_sha256 = supplied\<rparr>))))
           | _ \<Rightarrow> Inl (ProgramError ''INVALID_ARTIFACT''))
      | _ \<Rightarrow> Inl (ProgramError ''INVALID_ARTIFACT''))))"

definition template_sequence :: "pyval \<Rightarrow> pyval result" where
  "template_sequence sequence = (case sequence of
      PDict d \<Rightarrow>
        bind (dindex d ''role_path'') (\<lambda>r. bind (dindex d ''command_schema'') (\<lambda>c.
        bind (dindex d ''reference'') (\<lambda>f. bind (dindex d ''samples'') (\<lambda>s.
        Inr (mkdict [(''group'', r), (''command_schema'', c), (''reference'', f), (''samples'', s)])))))
    | _ \<Rightarrow> Inl TypeError)"

definition template_phase :: "pyval \<Rightarrow> pyval result" where
  "template_phase phase = (case phase of
      PDict d \<Rightarrow>
        bind (dindex d ''sequences'') (\<lambda>raw. case raw of
          PList raws \<Rightarrow>
            bind (mapM template_sequence raws) (\<lambda>seqs.
            bind (dindex d ''phase_id'') (\<lambda>i. bind (dindex d ''completion'') (\<lambda>c. bind (dindex d ''transitions'') (\<lambda>t.
            Inr (mkdict [(''phase_id'', i), (''completion'', c), (''transitions'', t), (''sequences'', PList seqs)])))))
        | _ \<Rightarrow> Inl TypeError)
    | _ \<Rightarrow> Inl TypeError)"

definition template_from_compiled :: "pydict \<Rightarrow> pydict result" where
  "template_from_compiled body = catch
     (bind (dindex body ''phases'') (\<lambda>raw. case raw of
        PList raws \<Rightarrow>
          bind (mapM template_phase raws) (\<lambda>phases.
          bind (dindex body ''program_id'') (\<lambda>i. bind (dindex body ''root_id'') (\<lambda>r.
          Inr (the_dict (mkdict [(''format'', PStr TEMPLATE_FORMAT), (''version'', PInt PROGRAM_VERSION), (''program_id'', i),
            (''root_id'', r), (''phases'', PList phases)])))))
      | _ \<Rightarrow> Inl TypeError))
     (\<lambda>e. e = KeyError \<or> e = TypeError) (ProgramError ''INVALID_ARTIFACT'')"

definition validate_for_current_registry :: "pyenv \<Rightarrow> registry_view \<Rightarrow> compiled_program \<Rightarrow> unit result" where
  "validate_for_current_registry E V p =
     bind (digest_value E (PDict (cp_body p))) (\<lambda>h.
     raise_if (cp_sha256 p \<noteq> h) (ProgramError ''HASH_MISMATCH'')
     (bind (validate_compiled_internal_hashes E (cp_body p)) (\<lambda>_.
      bind (program_server_id E p) (\<lambda>sid.
      raise_if (sid \<noteq> rv_server_id V) (ProgramError ''SERVER_MISMATCH'')
      (bind (bind (program_root_id E p) (rv_manifest_hash V)) (\<lambda>current.
       bind (program_manifest_hash E p) (\<lambda>compiled.
       raise_if (current \<noteq> compiled) (ProgramError ''MANIFEST_MISMATCH'')
       (bind (template_from_compiled (cp_body p)) (\<lambda>template.
        bind (compile_program E V template) (\<lambda>rebuilt.
        raise_if (\<not> py_eq (PDict (cp_body rebuilt)) (PDict (cp_body p)) \<or> cp_sha256 rebuilt \<noteq> cp_sha256 p)
          (ProgramError ''NONCANONICAL_ARTIFACT'') (Inr ())))))))))))"

text \<open>
  A template file by its lower-cased suffix and its text; the TOML parser is a parameter whose
  \<^verbatim>\<open>TOMLDecodeError\<close> is \<open>ValueError\<close>, like \<^verbatim>\<open>JSONDecodeError\<close>.
\<close>

definition load_template :: "pyenv \<Rightarrow> (string \<Rightarrow> pyval result) \<Rightarrow> string \<Rightarrow> string \<Rightarrow> pydict result" where
  "load_template E toml_loads suffix contents =
     bind (if suffix = ''.toml'' then catch (toml_loads contents) (\<lambda>e. e = ValueError) (ProgramError ''SCHEMA_INVALID'')
           else if suffix = ''.json'' \<or> suffix = ''.jsonl'' then
             catch (json_loads E contents) (\<lambda>e. e = ValueError) (ProgramError ''SCHEMA_INVALID'')
           else Inl (ProgramError ''UNSUPPORTED_TEMPLATE'')) (\<lambda>value. case value of
       PDict d \<Rightarrow> Inr d
     | _ \<Rightarrow> Inl (ProgramError ''SCHEMA_INVALID''))"

text \<open>\<^verbatim>\<open>compile_file\<close> with an output path: the program and the bytes written.\<close>

definition compile_file :: "pyenv \<Rightarrow> registry_view \<Rightarrow> (string \<Rightarrow> pyval result) \<Rightarrow> string \<Rightarrow> string \<Rightarrow> bool
    \<Rightarrow> (compiled_program \<times> bytes option) result" where
  "compile_file E V toml_loads suffix contents output =
     bind (load_template E toml_loads suffix contents) (\<lambda>template.
     bind (compile_program E V template) (\<lambda>p.
     if output then bind (to_bytes E p) (\<lambda>b. Inr (p, Some b)) else Inr (p, None)))"

section \<open>The registry as a view\<close>

text \<open>\<^verbatim>\<open>dataclasses.asdict\<close> of a \<^verbatim>\<open>ResolvedGroup\<close>.\<close>

definition axis_asdict :: "axis_spec \<Rightarrow> pyval" where
  "axis_asdict a = mkdict [(''axis_id'', PStr (axis_id a)), (''kind'', PStr (axis_kind a)), (''unit'', PStr (axis_unit a)),
     (''minimum'', PFloat (minimum a)), (''maximum'', PFloat (maximum a)),
     (''max_velocity'', case max_velocity a of None \<Rightarrow> PNone | Some v \<Rightarrow> PFloat v)]"

definition group_asdict :: "group_spec \<Rightarrow> pyval" where
  "group_asdict g = mkdict [(''group_id'', PStr (group_id g)), (''axes'', PTuple (map axis_asdict (axes g))),
     (''command_schemas'', PTuple (map PStr (command_schemas g))), (''telemetry_schemas'', PTuple (map PStr (telemetry_schemas g))),
     (''control_rate_hz'', PFloat (control_rate_hz g))]"

definition resolved_asdict :: "resolved_group \<Rightarrow> pyval" where
  "resolved_asdict g = mkdict [(''root_node_id'', PStr (root_node_id g)), (''role_path'', PStr (role_path g)),
     (''physical_node_id'', PStr (physical_node_id g)), (''group_id'', PStr (resolved_group_id g)),
     (''group'', group_asdict (resolved_spec g))]"

definition view :: "pyenv \<Rightarrow> registry \<Rightarrow> registry_view" where
  "view E R = \<lparr>rv_server_id = server_id R,
     rv_describe = (\<lambda>i. bind (manifest_of E R i) (\<lambda>m. Inr (PDict m))),
     rv_manifest_hash = manifest_hash E R,
     rv_resolve_group = (\<lambda>i path. bind (resolve_group R i path) (\<lambda>g. Inr (resolved_asdict g)))\<rparr>"

end
