(* ===== verification/Lease.thy ===== *)
theory Lease
  imports PyVal "HOL-Library.Mapping" "HOL-Library.AList_Mapping"
begin

text \<open>
  Atomic ownership of robot leaves, exclusive resources and safety domains:
  \<^verbatim>\<open>remote_robot/lease.py\<close>. A \<^verbatim>\<open>frozenset\<close> of strings is its sorted list without duplicates,
  so that equality of sets is equality of lists. Every public operation runs under the manager's
  lock and is one function on the manager's state; the clock is an argument. The section on
  ownership states the contract of the manager as a locale and interprets it on the model.
\<close>

section \<open>Keys, targets and requests\<close>

definition bad_key :: "string \<Rightarrow> bool" where
  "bad_key value \<longleftrightarrow> value = [] \<or> value \<noteq> py_strip value \<or>
     length value > 512 \<or> (\<exists>c \<in> set value. (of_char c :: nat) < 32)"

definition canonical_key :: "pyval \<Rightarrow> string result" where
  "canonical_key v = (case v of
      PStr value \<Rightarrow> if bad_key value then Inl ValueError else Inr value
    | _ \<Rightarrow> Inl TypeError)"

definition canonical_keys :: "pyval \<Rightarrow> string list result" where
  "canonical_keys values = (case values of
      PList vs \<Rightarrow> bind (mapM canonical_key vs) (\<lambda>ks. Inr (sorted_set ks))
    | PTuple vs \<Rightarrow> bind (mapM canonical_key vs) (\<lambda>ks. Inr (sorted_set ks))
    | PDict d \<Rightarrow> bind (mapM canonical_key (keys d)) (\<lambda>ks. Inr (sorted_set ks))
    | _ \<Rightarrow> Inl TypeError)"

text \<open>\<^verbatim>\<open>_run_id\<close> is the same check as \<^verbatim>\<open>_canonical_keys\<close> makes of one key.\<close>

definition lease_run_id :: "pyval \<Rightarrow> string result" where
  "lease_run_id v = (case v of
      PStr value \<Rightarrow>
        if value = [] \<or> value \<noteq> py_strip value then Inl ValueError
        else if length value > 512 \<or> (\<exists>c \<in> set value. (of_char c :: nat) < 32) then Inl ValueError
        else Inr value
    | _ \<Rightarrow> Inl TypeError)"

datatype lease_kind = leaf | resource | safety_domain

datatype lease_target = LeaseTarget (kind: lease_kind) (key: string)

text \<open>Targets sort by \<^verbatim>\<open>(kind, key)\<close>; the three kind names are in alphabetical order.\<close>

fun kind_rank :: "lease_kind \<Rightarrow> nat" where
  "kind_rank leaf = 0"
| "kind_rank resource = 1"
| "kind_rank safety_domain = 2"

fun kind_name :: "lease_kind \<Rightarrow> string" where
  "kind_name leaf = ''leaf''"
| "kind_name resource = ''resource''"
| "kind_name safety_domain = ''safety_domain''"

lemma kind_rank_inj [simp]: "kind_rank a = kind_rank b \<longleftrightarrow> a = b"
  by (cases a; cases b) auto

instantiation lease_target :: linorder
begin

definition less_eq_lease_target :: "lease_target \<Rightarrow> lease_target \<Rightarrow> bool" where
  "s \<le> t \<longleftrightarrow> kind_rank (kind s) < kind_rank (kind t) \<or> (kind s = kind t \<and> key s \<le> key t)"

definition less_lease_target :: "lease_target \<Rightarrow> lease_target \<Rightarrow> bool" where
  "s < t \<longleftrightarrow> kind_rank (kind s) < kind_rank (kind t) \<or> (kind s = kind t \<and> key s < key t)"

instance
proof
  fix s t u :: lease_target
  show "s < t \<longleftrightarrow> s \<le> t \<and> \<not> t \<le> s"
    by (auto simp: less_eq_lease_target_def less_lease_target_def)
  show "s \<le> s" by (simp add: less_eq_lease_target_def)
  show "s \<le> t \<Longrightarrow> t \<le> u \<Longrightarrow> s \<le> u"
    by (auto simp: less_eq_lease_target_def)
  show "s \<le> t \<Longrightarrow> t \<le> s \<Longrightarrow> s = t"
    by (auto simp: less_eq_lease_target_def intro: lease_target.expand)
  show "s \<le> t \<or> t \<le> s"
    by (metis kind_rank_inj less_eq_lease_target_def linorder_cases linear)
qed

end

record lease_request =
  leaf_ids :: "string list"
  resource_keys :: "string list"
  safety_domain_keys :: "string list"

definition LeaseRequest :: "pyval \<Rightarrow> pyval \<Rightarrow> pyval \<Rightarrow> lease_request result" where
  "LeaseRequest leaves resources domains =
     bind (canonical_keys leaves) (\<lambda>l.
     bind (canonical_keys resources) (\<lambda>r.
     bind (canonical_keys domains) (\<lambda>d.
       Inr \<lparr>leaf_ids = l, resource_keys = r, safety_domain_keys = d\<rparr>)))"

definition targets :: "lease_request \<Rightarrow> lease_target list" where
  "targets q = sort (map (LeaseTarget leaf) (leaf_ids q)
     @ map (LeaseTarget resource) (resource_keys q)
     @ map (LeaseTarget safety_domain) (safety_domain_keys q))"

section \<open>The manager\<close>

record lease_receipt =
  rc_run_id :: string
  rc_leaves :: "string list"
  rc_resources :: "string list"
  rc_safety_domains :: "string list"
  rc_acquired_at :: int

abbreviation strs :: "string list \<Rightarrow> pyval" where
  "strs ks \<equiv> PTuple (map PStr ks)"

text \<open>\<^verbatim>\<open>LeaseReceipt.request\<close> validates the receipt's key sets once more.\<close>

definition receipt_request :: "lease_receipt \<Rightarrow> lease_request result" where
  "receipt_request g =
     LeaseRequest (strs (rc_leaves g)) (strs (rc_resources g)) (strs (rc_safety_domains g))"

record lease_manager =
  owners :: "(lease_target, string) mapping"
  grants :: "(string, lease_receipt) mapping"

definition new_manager :: lease_manager where
  "new_manager = \<lparr>owners = Mapping.empty, grants = Mapping.empty\<rparr>"

definition conflicts :: "lease_manager \<Rightarrow> string \<Rightarrow> lease_target list \<Rightarrow> (string \<times> string \<times> string) list" where
  "conflicts m owner ts = concat (map (\<lambda>t. case Mapping.lookup (owners m) t of
      None \<Rightarrow> []
    | Some held_by \<Rightarrow> if held_by \<noteq> owner then [(kind_name (kind t), key t, held_by)] else []) ts)"

definition grant :: "lease_manager \<Rightarrow> string \<Rightarrow> lease_request \<Rightarrow> int \<Rightarrow> lease_receipt \<times> lease_manager" where
  "grant m owner q now =
     (let g = \<lparr>rc_run_id = owner, rc_leaves = leaf_ids q, rc_resources = resource_keys q,
               rc_safety_domains = safety_domain_keys q, rc_acquired_at = now\<rparr>
      in (g, m\<lparr>owners := fold (\<lambda>t. Mapping.update t owner) (targets q) (owners m),
               grants := Mapping.update owner g (grants m)\<rparr>))"

text \<open>An operation returns its result or exception together with the manager it leaves behind.\<close>

definition acquire :: "lease_manager \<Rightarrow> pyval \<Rightarrow> pyval \<Rightarrow> pyval \<Rightarrow> pyval \<Rightarrow> int
    \<Rightarrow> lease_receipt result \<times> lease_manager" where
  "acquire m run_id leaves resources domains now =
     (case bind (lease_run_id run_id) (\<lambda>owner.
           bind (LeaseRequest leaves resources domains) (\<lambda>request. Inr (owner, request))) of
        Inl e \<Rightarrow> (Inl e, m)
      | Inr (owner, request) \<Rightarrow>
          (case Mapping.lookup (grants m) owner of
             Some existing \<Rightarrow>
               (bind (receipt_request existing) (\<lambda>held.
                  if held = request then Inr existing else Inl LeaseRequestMismatchError), m)
           | None \<Rightarrow>
               (let busy = conflicts m owner (targets request) in
                if busy \<noteq> [] then (Inl (LeaseConflict owner busy), m)
                else (case grant m owner request now of (g, m') \<Rightarrow> (Inr g, m')))))"

definition release_target :: "string \<Rightarrow> lease_target
    \<Rightarrow> (lease_target, string) mapping \<Rightarrow> (lease_target, string) mapping" where
  "release_target owner t os =
     (if Mapping.lookup os t = Some owner then Mapping.delete t os else os)"

definition release :: "lease_manager \<Rightarrow> pyval \<Rightarrow> bool result \<times> lease_manager" where
  "release m run_id =
     (case lease_run_id run_id of
        Inl e \<Rightarrow> (Inl e, m)
      | Inr owner \<Rightarrow>
          (case Mapping.lookup (grants m) owner of
             None \<Rightarrow> (Inr False, m)
           | Some g \<Rightarrow>
               (let popped = m\<lparr>grants := Mapping.delete owner (grants m)\<rparr> in
                case receipt_request g of
                  Inl e \<Rightarrow> (Inl e, popped)
                | Inr q \<Rightarrow>
                    (Inr True, popped\<lparr>owners := fold (release_target owner) (targets q) (owners m)\<rparr>))))"

definition owner_of :: "lease_manager \<Rightarrow> lease_target \<Rightarrow> string option" where
  "owner_of m t = Mapping.lookup (owners m) t"

definition grant_for :: "lease_manager \<Rightarrow> pyval \<Rightarrow> lease_receipt option result" where
  "grant_for m run_id = bind (lease_run_id run_id) (\<lambda>owner. Inr (Mapping.lookup (grants m) owner))"

text \<open>Receipts in the order of the run identifiers.\<close>

definition active_grants :: "lease_manager \<Rightarrow> lease_receipt list" where
  "active_grants m = map (\<lambda>k. the (Mapping.lookup (grants m) k)) (Mapping.ordered_keys (grants m))"

section \<open>Well-formed managers\<close>

definition canonical :: "string list \<Rightarrow> bool" where
  "canonical ks \<longleftrightarrow> sorted ks \<and> distinct ks \<and> (\<forall>k \<in> set ks. \<not> bad_key k)"

definition wf_receipt :: "lease_receipt \<Rightarrow> bool" where
  "wf_receipt g \<longleftrightarrow> \<not> bad_key (rc_run_id g) \<and> canonical (rc_leaves g) \<and> canonical (rc_resources g)
     \<and> canonical (rc_safety_domains g)"

text \<open>The targets of a receipt, as a set.\<close>

definition held :: "lease_receipt \<Rightarrow> lease_target set" where
  "held g = LeaseTarget leaf ` set (rc_leaves g) \<union> LeaseTarget resource ` set (rc_resources g)
     \<union> LeaseTarget safety_domain ` set (rc_safety_domains g)"

text \<open>
  The two tables agree: a target is owned by a run exactly if that run's live receipt lists it.
\<close>

definition wf_manager :: "lease_manager \<Rightarrow> bool" where
  "wf_manager m \<longleftrightarrow> finite (Mapping.keys (grants m)) \<and>
     (\<forall>r g. Mapping.lookup (grants m) r = Some g \<longrightarrow> rc_run_id g = r \<and> wf_receipt g) \<and>
     (\<forall>t r. Mapping.lookup (owners m) t = Some r \<longleftrightarrow>
        (\<exists>g. Mapping.lookup (grants m) r = Some g \<and> t \<in> held g))"

lemma lease_run_id_Inr [simp]: "lease_run_id v = Inr r \<longleftrightarrow> v = PStr r \<and> \<not> bad_key r"
  by (cases v) (auto simp: lease_run_id_def bad_key_def)

lemma lease_run_id_PStr [simp]: "\<not> bad_key r \<Longrightarrow> lease_run_id (PStr r) = Inr r"
  by simp

lemma canonical_key_Inr [simp]: "canonical_key v = Inr k \<longleftrightarrow> v = PStr k \<and> \<not> bad_key k"
  by (cases v) (auto simp: canonical_key_def)

lemma mapM_canonical_key: "mapM canonical_key vs = Inr ks \<longleftrightarrow> vs = map PStr ks \<and> (\<forall>k \<in> set ks. \<not> bad_key k)"
  by (induction vs arbitrary: ks) (auto simp: Cons_eq_map_conv)

lemma sorted_set_id: "sorted ks \<Longrightarrow> distinct ks \<Longrightarrow> sorted_set ks = ks"
  by (simp add: sorted_set_def sorted_sort_id distinct_remdups_id)

lemma canonical_keys_canonical: "canonical_keys vs = Inr ks \<Longrightarrow> canonical ks"
  by (auto simp: canonical_keys_def canonical_def mapM_canonical_key split: pyval.splits)

lemma canonical_keys_strs: "(\<forall>k \<in> set ks. \<not> bad_key k) \<Longrightarrow> canonical_keys (strs ks) = Inr (sorted_set ks)"
  using mapM_canonical_key [of "map PStr ks" ks] by (simp add: canonical_keys_def)

lemma canonical_keys_id [simp]: "canonical ks \<Longrightarrow> canonical_keys (strs ks) = Inr ks"
  by (simp add: canonical_keys_strs canonical_def sorted_set_id)

lemma LeaseRequest_canonical:
  "LeaseRequest l r d = Inr q \<Longrightarrow>
     canonical (leaf_ids q) \<and> canonical (resource_keys q) \<and> canonical (safety_domain_keys q)"
  by (auto simp: LeaseRequest_def dest: canonical_keys_canonical)

lemma receipt_request_wf [simp]:
  "wf_receipt g \<Longrightarrow> receipt_request g =
     Inr \<lparr>leaf_ids = rc_leaves g, resource_keys = rc_resources g, safety_domain_keys = rc_safety_domains g\<rparr>"
  by (simp add: receipt_request_def wf_receipt_def LeaseRequest_def)

lemma set_targets:
  "set (targets q) = LeaseTarget leaf ` set (leaf_ids q) \<union> LeaseTarget resource ` set (resource_keys q)
     \<union> LeaseTarget safety_domain ` set (safety_domain_keys q)"
  by (auto simp: targets_def)

lemma lookup_fold_update:
  "Mapping.lookup (fold (\<lambda>t. Mapping.update t r) ts os) t =
     (if t \<in> set ts then Some r else Mapping.lookup os t)"
  by (induction ts arbitrary: os) (auto simp: lookup_update')

lemma lookup_delete_if: "Mapping.lookup (Mapping.delete k m) k' = (if k' = k then None else Mapping.lookup m k')"
  by auto

lemma lookup_release_target:
  "Mapping.lookup (release_target r t os) t' =
     (if t' = t \<and> Mapping.lookup os t = Some r then None else Mapping.lookup os t')"
  by (auto simp: release_target_def lookup_delete lookup_delete_neq)

lemma lookup_fold_release:
  "Mapping.lookup (fold (release_target r) ts os) t =
     (if t \<in> set ts \<and> Mapping.lookup os t = Some r then None else Mapping.lookup os t)"
  by (induction ts arbitrary: os) (auto simp: lookup_release_target)

lemma conflicts_Nil_iff:
  "conflicts m r ts = [] \<longleftrightarrow> (\<forall>t \<in> set ts. \<forall>r'. Mapping.lookup (owners m) t = Some r' \<longrightarrow> r' = r)"
  by (auto simp: conflicts_def split: option.splits)

lemma set_conflicts:
  "set (conflicts m r ts) =
     {(kind_name (kind t), key t, r') | t r'. t \<in> set ts \<and> owner_of m t = Some r' \<and> r' \<noteq> r}"
  by (force simp: conflicts_def owner_of_def split: option.splits if_splits)

lemma wf_managerD:
  assumes "wf_manager m"
  shows "Mapping.lookup (grants m) r = Some g \<Longrightarrow> rc_run_id g = r"
    and "Mapping.lookup (grants m) r = Some g \<Longrightarrow> wf_receipt g"
    and "Mapping.lookup (owners m) t = Some r \<longleftrightarrow>
        (\<exists>g. Mapping.lookup (grants m) r = Some g \<and> t \<in> held g)"
    and "finite (Mapping.keys (grants m))"
  using assms by (auto simp: wf_manager_def)

lemma held_unique:
  assumes "wf_manager m" "Mapping.lookup (grants m) r = Some g" "Mapping.lookup (grants m) r' = Some g'"
    "t \<in> held g" "t \<in> held g'"
  shows "r = r'"
  using assms wf_managerD(3) [OF assms(1), of t r] wf_managerD(3) [OF assms(1), of t r'] by auto

lemma wf_manager_new: "wf_manager new_manager"
  by (simp add: wf_manager_def new_manager_def)

text \<open>What \<^verbatim>\<open>acquire\<close> does, case by case.\<close>

lemma acquire_cases:
  obtains (invalid) e where "acquire m run l rs d now = (Inl e, m)"
      "\<not> (\<exists>r q. lease_run_id run = Inr r \<and> LeaseRequest l rs d = Inr q)"
  | (live) r q g where "run = PStr r" "\<not> bad_key r" "LeaseRequest l rs d = Inr q"
      "Mapping.lookup (grants m) r = Some g"
      "acquire m run l rs d now = (bind (receipt_request g) (\<lambda>h.
          if h = q then Inr g else Inl LeaseRequestMismatchError), m)"
  | (busy) r q where "run = PStr r" "\<not> bad_key r" "LeaseRequest l rs d = Inr q"
      "Mapping.lookup (grants m) r = None" "conflicts m r (targets q) \<noteq> []"
      "acquire m run l rs d now = (Inl (LeaseConflict r (conflicts m r (targets q))), m)"
  | (granted) r q where "run = PStr r" "\<not> bad_key r" "LeaseRequest l rs d = Inr q"
      "Mapping.lookup (grants m) r = None" "conflicts m r (targets q) = []"
      "acquire m run l rs d now = (Inr (fst (grant m r q now)), snd (grant m r q now))"
proof -
  consider (e) e where "bind (lease_run_id run) (\<lambda>owner. bind (LeaseRequest l rs d) (\<lambda>q. Inr (owner, q))) = Inl e"
    | (v) r q where "lease_run_id run = Inr r" "LeaseRequest l rs d = Inr q"
    by (cases "lease_run_id run"; cases "LeaseRequest l rs d") auto
  then show thesis
  proof cases
    case e
    then show thesis by (intro invalid [of e]) (auto simp: acquire_def)
  next
    case (v r q)
    then show thesis
      by (cases "Mapping.lookup (grants m) r"; cases "conflicts m r (targets q) = []")
         (auto simp: acquire_def Let_def split: prod.splits intro: live busy granted)
  qed
qed

lemma wf_grant:
  assumes wf: "wf_manager m" and q: "LeaseRequest l rs d = Inr q" and r: "\<not> bad_key r"
    and fresh: "Mapping.lookup (grants m) r = None" and free: "conflicts m r (targets q) = []"
  shows "wf_manager (snd (grant m r q now))"
proof -
  define g where "g = fst (grant m r q now)"
  have g: "rc_run_id g = r" "wf_receipt g" "held g = set (targets q)"
    using LeaseRequest_canonical [OF q] r
    by (auto simp: g_def grant_def Let_def wf_receipt_def held_def set_targets)
  have m': "snd (grant m r q now) = m\<lparr>owners := fold (\<lambda>t. Mapping.update t r) (targets q) (owners m),
      grants := Mapping.update r g (grants m)\<rparr>"
    by (simp add: g_def grant_def Let_def)
  have unowned: "Mapping.lookup (owners m) t = None" if "t \<in> set (targets q)" for t
    using that free fresh wf_managerD(3) [OF wf, of t r]
    by (cases "Mapping.lookup (owners m) t") (auto simp: conflicts_Nil_iff)
  then have unheld: "t \<notin> held g'" if "t \<in> set (targets q)" "Mapping.lookup (grants m) r' = Some g'" for t r' g'
    using that wf_managerD(3) [OF wf, of t r'] by auto
  show ?thesis
    unfolding wf_manager_def m'
    using wf g unowned unheld fresh
    by (auto simp: lookup_update' lookup_fold_update wf_manager_def split: if_splits)
qed

lemma wf_acquire: "wf_manager m \<Longrightarrow> wf_manager (snd (acquire m run l rs d now))"
  by (rule acquire_cases [of m run l rs d now]) (auto intro: wf_grant)

lemma release_cases [consumes 1, case_names nothing released]:
  assumes "wf_manager m"
  obtains (nothing) x where "release m run = (x, m)" "\<forall>r. run = PStr r \<and> \<not> bad_key r \<longrightarrow>
      x = Inr False \<and> Mapping.lookup (grants m) r = None"
  | (released) r g where "run = PStr r" "\<not> bad_key r" "Mapping.lookup (grants m) r = Some g"
      "release m run = (Inr True, m\<lparr>grants := Mapping.delete r (grants m),
         owners := fold (release_target r) (sorted_list_of_set (held g)) (owners m)\<rparr>)"
proof (cases "lease_run_id run")
  case (Inl e)
  show thesis by (rule nothing [of "Inl e"]) (use Inl in \<open>auto simp: release_def\<close>)
next
  case (Inr r)
  show thesis
  proof (cases "Mapping.lookup (grants m) r")
    case None
    show thesis by (rule nothing [of "Inr False"]) (use Inr None in \<open>auto simp: release_def\<close>)
  next
    case (Some g)
    then have g: "wf_receipt g" using assms wf_managerD by blast
    let ?q = "\<lparr>leaf_ids = rc_leaves g, resource_keys = rc_resources g,
      safety_domain_keys = rc_safety_domains g\<rparr>"
    have "sorted (targets ?q)" "distinct (targets ?q)" "set (targets ?q) = held g"
      using g by (auto simp: targets_def set_targets held_def wf_receipt_def canonical_def
          distinct_map inj_on_def)
    then have "targets ?q = sorted_list_of_set (held g)"
      by (metis sorted_list_of_set.idem_if_sorted_distinct)
    with Inr Some g show thesis by (intro released) (auto simp: release_def Let_def)
  qed
qed

lemma finite_held [simp]: "finite (held g)"
  by (simp add: held_def)

lemma wf_release: "wf_manager m \<Longrightarrow> wf_manager (snd (release m run))"
proof -
  assume wf: "wf_manager m"
  then show ?thesis
  proof (cases rule: release_cases [of m run])
    case (released r g)
    have "(\<exists>g'. Mapping.lookup (Mapping.delete r (grants m)) r' = Some g' \<and> t \<in> held g') \<longleftrightarrow>
        Mapping.lookup (fold (release_target r) (sorted_list_of_set (held g)) (owners m)) t = Some r'" for t r'
      using wf_managerD(3) [OF wf, of t r'] released(3) held_unique [OF wf released(3), of r' _ t]
        wf_managerD(3) [OF wf, of t r]
      by (cases "r' = r") (auto simp: lookup_delete_if lookup_fold_release)
    moreover have "rc_run_id g' = r' \<and> wf_receipt g'"
      if "Mapping.lookup (Mapping.delete r (grants m)) r' = Some g'" for r' g'
      using that wf_managerD(1,2) [OF wf] by (auto simp: lookup_delete_if split: if_splits)
    ultimately show ?thesis
      using wf_managerD(4) [OF wf] by (simp add: wf_manager_def released(4))
  qed (use wf in simp_all)
qed

section \<open>The ownership contract\<close>

text \<open>
  What a run may rely on: the owner of a target changes only by a successful acquisition of the
  target or by its owner's release; an acquisition by a run without a live lease succeeds only if
  every requested target is free, and then always (for well-formed identifiers).
\<close>

locale exclusive_ownership =
  fixes inv :: "'m \<Rightarrow> bool"
    and own :: "'m \<Rightarrow> 't \<Rightarrow> 'r option"
    and live :: "'m \<Rightarrow> 'r \<Rightarrow> bool"
    and valid :: "'r \<Rightarrow> 'q \<Rightarrow> bool"
    and want :: "'q \<Rightarrow> 't set"
    and acq :: "'m \<Rightarrow> 'r \<Rightarrow> 'q \<Rightarrow> 'm option"
    and rel :: "'m \<Rightarrow> 'r \<Rightarrow> 'm"
  assumes own_live: "inv m \<Longrightarrow> own m t = Some r \<Longrightarrow> live m r"
    and acq_inv: "inv m \<Longrightarrow> acq m r q = Some m' \<Longrightarrow> inv m'"
    and acq_free: "inv m \<Longrightarrow> \<not> live m r \<Longrightarrow> acq m r q = Some m' \<Longrightarrow> t \<in> want q \<Longrightarrow> own m t = None"
    and acq_own: "inv m \<Longrightarrow> \<not> live m r \<Longrightarrow> acq m r q = Some m' \<Longrightarrow>
      own m' t = (if t \<in> want q then Some r else own m t)"
    and acq_live: "inv m \<Longrightarrow> acq m r q = Some m' \<Longrightarrow> live m' r' \<longleftrightarrow> r' = r \<or> live m r'"
    and acq_total: "inv m \<Longrightarrow> \<not> live m r \<Longrightarrow> valid r q \<Longrightarrow> (\<And>t. t \<in> want q \<Longrightarrow> own m t = None) \<Longrightarrow>
      \<exists>m'. acq m r q = Some m'"
    and rel_inv: "inv m \<Longrightarrow> inv (rel m r)"
    and rel_own: "inv m \<Longrightarrow> own (rel m r) t = (if own m t = Some r then None else own m t)"
    and rel_live: "inv m \<Longrightarrow> live (rel m r) r' \<longleftrightarrow> live m r' \<and> r' \<noteq> r"
begin

lemma bracket_restores:
  assumes "inv m" "\<not> live m r" "acq m r q = Some m'"
  shows "own (rel m' r) t = own m t"
proof (cases "t \<in> want q")
  case True
  with acq_free [OF assms] acq_own [OF assms, of t] show ?thesis
    using rel_own [OF acq_inv [OF assms(1,3)]] by simp
next
  case False
  have "own m t \<noteq> Some r" using assms own_live by blast
  with False acq_own [OF assms, of t] show ?thesis
    using rel_own [OF acq_inv [OF assms(1,3)]] by simp
qed

lemma bracket_live:
  assumes "inv m" "\<not> live m r" "acq m r q = Some m'"
  shows "live (rel m' r) r' \<longleftrightarrow> live m r'"
  using assms acq_live [OF assms(1,3)] rel_live [OF acq_inv [OF assms(1,3)]] by auto

lemma concurrent_disjoint:
  assumes "inv m" "\<not> live m r" "acq m r q = Some m1" "\<not> live m1 r'" "acq m1 r' q' = Some m2"
  shows "want q \<inter> want q' = {}"
proof -
  have "own m1 t = Some r" if "t \<in> want q" for t using acq_own [OF assms(1-3)] that by simp
  moreover have "own m1 t = None" if "t \<in> want q'" for t
    using acq_free [OF acq_inv [OF assms(1,3)] assms(4,5)] that .
  ultimately show ?thesis by fastforce
qed

lemma retry_after_release:
  assumes "inv m" "\<not> live m r'" "valid r' q" "\<And>t s. t \<in> want q \<Longrightarrow> own m t = Some s \<Longrightarrow> s = r"
  shows "\<exists>m'. acq (rel m r) r' q = Some m'"
proof (rule acq_total [OF rel_inv [OF assms(1)] _ assms(3)])
  show "\<not> live (rel m r) r'" using assms rel_live by simp
  show "own (rel m r) t = None" if "t \<in> want q" for t
    using assms(4) [OF that] rel_own [OF assms(1)] by (cases "own m t") auto
qed

end

text \<open>The model of the manager, seen through the calls the orchestrator makes.\<close>

type_synonym lease_call = "string list \<times> string list \<times> string list \<times> int"

fun wanted :: "lease_call \<Rightarrow> lease_target set" where
  "wanted (l, rs, d, now) = LeaseTarget leaf ` set l \<union> LeaseTarget resource ` set rs
     \<union> LeaseTarget safety_domain ` set d"

fun valid_call :: "string \<Rightarrow> lease_call \<Rightarrow> bool" where
  "valid_call r (l, rs, d, now) = (\<not> bad_key r \<and> (\<forall>k \<in> set (l @ rs @ d). \<not> bad_key k))"

fun acquired :: "lease_manager \<Rightarrow> string \<Rightarrow> lease_call \<Rightarrow> lease_manager option" where
  "acquired m r (l, rs, d, now) =
     (case acquire m (PStr r) (strs l) (strs rs) (strs d) now of
        (Inl e, m') \<Rightarrow> None
      | (Inr g, m') \<Rightarrow> Some m')"

definition released :: "lease_manager \<Rightarrow> string \<Rightarrow> lease_manager" where
  "released m r = snd (release m (PStr r))"

definition live_run :: "lease_manager \<Rightarrow> string \<Rightarrow> bool" where
  "live_run m r \<longleftrightarrow> Mapping.lookup (grants m) r \<noteq> None"

lemma LeaseRequest_strs:
  "LeaseRequest (strs l) (strs rs) (strs d) = Inr q \<Longrightarrow>
     set (leaf_ids q) = set l \<and> set (resource_keys q) = set rs \<and> set (safety_domain_keys q) = set d"
  by (auto simp: LeaseRequest_def canonical_keys_def mapM_canonical_key inj_map_eq_map inj_def)

lemma acquired_Some_cases:
  assumes "acquired m r (l, rs, d, now) = Some m'"
  obtains (live) "m' = m" "live_run m r"
  | (granted) q where "\<not> bad_key r" "LeaseRequest (strs l) (strs rs) (strs d) = Inr q" "\<not> live_run m r"
      "conflicts m r (targets q) = []" "m' = snd (grant m r q now)"
      "set (targets q) = wanted (l, rs, d, now)"
proof (cases rule: acquire_cases [of m "PStr r" "strs l" "strs rs" "strs d" now])
  case (granted r' q)
  with assms show thesis
    by (intro that(2) [of q]) (auto simp: live_run_def set_targets dest!: LeaseRequest_strs)
qed (use assms that(1) in \<open>auto simp: live_run_def split: sum.splits\<close>)

lemma released_owner:
  assumes "wf_manager m"
  shows "owner_of (released m r) t = (if owner_of m t = Some r then None else owner_of m t) \<and>
    (live_run (released m r) r' \<longleftrightarrow> live_run m r' \<and> r' \<noteq> r)"
proof (rule release_cases [OF assms, of "PStr r"])
  fix x
  assume rel: "release m (PStr r) = (x, m)"
    and none: "\<forall>r'. PStr r = PStr r' \<and> \<not> bad_key r' \<longrightarrow> x = Inr False \<and> Mapping.lookup (grants m) r' = None"
  have "Mapping.lookup (grants m) r = None"
    using none wf_managerD(1,2) [OF assms, of r]
    by (cases "Mapping.lookup (grants m) r") (auto simp: wf_receipt_def)
  with rel wf_managerD(3) [OF assms, of t r] show ?thesis
    by (auto simp: released_def owner_of_def live_run_def)
next
  fix s g
  assume "PStr r = PStr s" "Mapping.lookup (grants m) s = Some g"
    "release m (PStr r) = (Inr True, m\<lparr>grants := Mapping.delete s (grants m),
         owners := fold (release_target s) (sorted_list_of_set (held g)) (owners m)\<rparr>)"
  with wf_managerD(3) [OF assms, of t r] show ?thesis
    by (auto simp: released_def owner_of_def live_run_def lookup_fold_release lookup_delete_if)
qed

interpretation lease: exclusive_ownership wf_manager owner_of live_run valid_call wanted acquired released
proof
  fix m m' :: lease_manager and t r r' and q :: lease_call
  assume wf: "wf_manager m"
  obtain l rs d now where q: "q = (l, rs, d, now)" by (cases q)
  show "owner_of m t = Some r \<Longrightarrow> live_run m r"
    using wf_managerD(3) [OF wf] by (auto simp: owner_of_def live_run_def)
  show "wf_manager (released m r)" using wf by (simp add: released_def wf_release)
  show "owner_of (released m r) t = (if owner_of m t = Some r then None else owner_of m t)"
    "live_run (released m r) r' \<longleftrightarrow> live_run m r' \<and> r' \<noteq> r"
    using released_owner [OF wf, of r t r'] by auto
  show "\<exists>m'. acquired m r q = Some m'"
    if fresh: "\<not> live_run m r" and v: "valid_call r q" and free: "\<And>t. t \<in> wanted q \<Longrightarrow> owner_of m t = None"
  proof -
    obtain req where req: "LeaseRequest (strs l) (strs rs) (strs d) = Inr req"
      using v q by (auto simp: LeaseRequest_def canonical_keys_strs)
    have "conflicts m r (targets req) = []"
      using free LeaseRequest_strs [OF req] q
      by (auto simp: conflicts_Nil_iff set_targets owner_of_def)
    with fresh v req q show ?thesis
      by (auto simp: acquire_def live_run_def Let_def split: prod.splits)
  qed
  assume a: "acquired m r q = Some m'"
  then have a': "acquired m r (l, rs, d, now) = Some m'" by (simp add: q)
  have "m' = snd (acquire m (PStr r) (strs l) (strs rs) (strs d) now)"
    using a' by (auto split: prod.splits sum.splits)
  then show "wf_manager m'" using wf by (simp add: wf_acquire)
  show "live_run m' r' \<longleftrightarrow> r' = r \<or> live_run m r'"
    by (rule acquired_Some_cases [OF a']) (auto simp: live_run_def grant_def Let_def lookup_update')
  assume "\<not> live_run m r"
  then obtain req where g: "conflicts m r (targets req) = []" "m' = snd (grant m r req now)"
      "set (targets req) = wanted q" "\<not> live_run m r"
    using acquired_Some_cases [OF a'] by (metis q)
  show "owner_of m' t = (if t \<in> wanted q then Some r else owner_of m t)"
    using g by (auto simp: owner_of_def grant_def Let_def lookup_fold_update)
  show "owner_of m t = None" if "t \<in> wanted q"
    using that g wf_managerD(3) [OF wf, of t r]
    by (cases "owner_of m t") (auto simp: conflicts_Nil_iff owner_of_def live_run_def)
qed

section \<open>Properties\<close>

inductive lease_step :: "lease_manager \<Rightarrow> lease_manager \<Rightarrow> bool" where
  step_acquire: "lease_step m (snd (acquire m run l rs d now))"
| step_release: "lease_step m (snd (release m run))"

inductive lease_reachable :: "lease_manager \<Rightarrow> bool" where
  reachable_new: "lease_reachable new_manager"
| reachable_step: "lease_reachable m \<Longrightarrow> lease_step m m' \<Longrightarrow> lease_reachable m'"

lemma lease_reachable_wf: "lease_reachable m \<Longrightarrow> wf_manager m"
  by (induction rule: lease_reachable.induct)
     (auto simp: wf_manager_new wf_acquire wf_release elim!: lease_step.cases)

text \<open>
  C9. Exclusive ownership: in every state the manager can reach through any sequence of
  \<^verbatim>\<open>acquire\<close> and \<^verbatim>\<open>release\<close> calls with any arguments, a run owns a target exactly if its live lease,
  which names this run, lists the target; and the live leases of two different runs share no leaf,
  no resource and no safety domain.
\<close>

theorem leases_exclusive:
  assumes "lease_reachable m"
  shows "(\<forall>t r. owner_of m t = Some r \<longleftrightarrow> (\<exists>g. grant_for m (PStr r) = Inr (Some g) \<and> rc_run_id g = r \<and> t \<in> held g)) \<and>
    (\<forall>r1 r2 g1 g2. grant_for m (PStr r1) = Inr (Some g1) \<longrightarrow> grant_for m (PStr r2) = Inr (Some g2) \<longrightarrow> r1 \<noteq> r2 \<longrightarrow>
       held g1 \<inter> held g2 = {})"
proof -
  have wf: "wf_manager m" using assms by (rule lease_reachable_wf)
  have live: "grant_for m (PStr r) = Inr (Some g) \<longleftrightarrow> Mapping.lookup (grants m) r = Some g" for r g
    using wf_managerD(1,2) [OF wf, of r g] by (auto simp: grant_for_def wf_receipt_def)
  have "owner_of m t = Some r \<longleftrightarrow> (\<exists>g. grant_for m (PStr r) = Inr (Some g) \<and> rc_run_id g = r \<and> t \<in> held g)" for t r
    using wf_managerD(1,3) [OF wf] by (auto simp: live owner_of_def)
  with held_unique [OF wf] show ?thesis unfolding live by blast
qed

definition demo_manager :: lease_manager where
  "demo_manager =
     snd (acquire (snd (acquire new_manager (PStr ''run-a'') (strs [''arm.left'']) (strs [''serial:COM3'']) (strs []) 5))
       (PStr ''run-b'') (strs [''arm.right'']) (strs []) (strs [''zone-1'']) 7)"

lemma demo_reachable: "lease_reachable demo_manager"
  unfolding demo_manager_def
  by (rule reachable_step [OF _ step_acquire], rule reachable_step [OF reachable_new step_acquire])

theorem leases_exclusive_witness:
  "(\<exists>g. grant_for demo_manager (PStr ''run-b'') = Inr (Some g) \<and> LeaseTarget safety_domain ''zone-1'' \<in> held g) \<and> held \<lparr>rc_run_id = ''run-a'', rc_leaves = [''arm.left''], rc_resources = [''serial:COM3''],
         rc_safety_domains = [], rc_acquired_at = 5\<rparr>
   \<inter> held \<lparr>rc_run_id = ''run-b'', rc_leaves = [''arm.right''], rc_resources = [],
         rc_safety_domains = [''zone-1''], rc_acquired_at = 7\<rparr> = {}"
proof -
  have "owner_of demo_manager (LeaseTarget safety_domain ''zone-1'') = Some ''run-b''" by code_simp
  then have o: "\<exists>g. grant_for demo_manager (PStr ''run-b'') = Inr (Some g) \<and> LeaseTarget safety_domain ''zone-1'' \<in> held g"
    using leases_exclusive [OF demo_reachable, THEN conjunct1] by blast
  have g: "grant_for demo_manager (PStr ''run-a'') = Inr (Some \<lparr>rc_run_id = ''run-a'', rc_leaves = [''arm.left''],
        rc_resources = [''serial:COM3''], rc_safety_domains = [], rc_acquired_at = 5\<rparr>)"
    "grant_for demo_manager (PStr ''run-b'') = Inr (Some \<lparr>rc_run_id = ''run-b'', rc_leaves = [''arm.right''], rc_resources = [],
        rc_safety_domains = [''zone-1''], rc_acquired_at = 7\<rparr>)" by code_simp+
  show ?thesis using o leases_exclusive [OF demo_reachable, THEN conjunct2, rule_format, OF g] by simp
qed

text \<open>
  All or nothing: for a run without a live lease and a well-formed request, \<^verbatim>\<open>acquire\<close> either
  raises \<^verbatim>\<open>LeaseConflict\<close> naming exactly the requested targets that other runs own (with their
  owners) and leaves the manager unchanged, or grants every requested target and changes no
  other owner.
\<close>

theorem acquire_all_or_nothing:
  assumes "lease_reachable m" and "\<not> bad_key r" and "LeaseRequest l rs d = Inr q"
    and "grant_for m (PStr r) = Inr None"
  shows "if \<exists>t \<in> set (targets q). owner_of m t \<noteq> None
    then \<exists>busy. acquire m (PStr r) l rs d now = (Inl (LeaseConflict r busy), m) \<and>
      set busy = {(kind_name (kind t), key t, s) | t s. t \<in> set (targets q) \<and> owner_of m t = Some s}
    else \<exists>g m'. acquire m (PStr r) l rs d now = (Inr g, m') \<and> held g = set (targets q) \<and>
      (\<forall>t. owner_of m' t = (if t \<in> set (targets q) then Some r else owner_of m t))"
proof -
  have wf: "wf_manager m" using assms(1) by (rule lease_reachable_wf)
  have fresh: "Mapping.lookup (grants m) r = None" using assms(2,4) by (simp add: grant_for_def)
  then have other: "owner_of m t \<noteq> Some r" for t
    using wf_managerD(3) [OF wf, of t r] by (simp add: owner_of_def)
  have busy: "conflicts m r (targets q) = [] \<longleftrightarrow> (\<forall>t \<in> set (targets q). owner_of m t = None)"
    using other unfolding conflicts_Nil_iff owner_of_def by (metis not_Some_eq option.inject)
  have "set (conflicts m r (targets q)) =
      {(kind_name (kind t), key t, s) | t s. t \<in> set (targets q) \<and> owner_of m t = Some s}"
    using other unfolding set_conflicts by blast
  then show ?thesis
    using assms(2,3) fresh busy
    by (cases "conflicts m r (targets q) = []")
       (auto simp: acquire_def grant_def Let_def held_def set_targets owner_of_def lookup_fold_update)
qed

theorem acquire_all_or_nothing_witness:
  "\<exists>busy. acquire demo_manager (PStr ''run-c'') (strs [''arm.left'', ''base'']) (strs []) (strs [''zone-1'']) 9
      = (Inl (LeaseConflict ''run-c'' busy), demo_manager)"
proof -
  let ?q = "\<lparr>leaf_ids = [''arm.left'', ''base''], resource_keys = [], safety_domain_keys = [''zone-1'']\<rparr>"
  note demo_reachable
  moreover have "\<not> bad_key ''run-c''" by code_simp
  moreover have "LeaseRequest (strs [''arm.left'', ''base'']) (strs []) (strs [''zone-1'']) = Inr ?q" by code_simp
  moreover have "grant_for demo_manager (PStr ''run-c'') = Inr None" by code_simp
  ultimately have *: "if \<exists>t \<in> set (targets ?q). owner_of demo_manager t \<noteq> None
    then \<exists>busy. acquire demo_manager (PStr ''run-c'') (strs [''arm.left'', ''base'']) (strs []) (strs [''zone-1'']) 9
        = (Inl (LeaseConflict ''run-c'' busy), demo_manager) \<and>
      set busy = {(kind_name (kind t), key t, s) | t s. t \<in> set (targets ?q) \<and> owner_of demo_manager t = Some s}
    else \<exists>g m'. acquire demo_manager (PStr ''run-c'') (strs [''arm.left'', ''base'']) (strs []) (strs [''zone-1'']) 9
        = (Inr g, m') \<and> held g = set (targets ?q) \<and>
      (\<forall>t. owner_of m' t = (if t \<in> set (targets ?q) then Some ''run-c'' else owner_of demo_manager t))"
    by (rule acquire_all_or_nothing)
  have "\<exists>t \<in> set (targets ?q). owner_of demo_manager t \<noteq> None" by code_simp
  with * show ?thesis by auto
qed

text \<open>
  Bracketing: acquiring a lease and releasing it again gives every target back the owner it
  had before, whatever leases other runs hold; no other run's lease is gained or lost.
\<close>

theorem acquire_release_restores:
  assumes "lease_reachable m" and "grant_for m (PStr r) = Inr None"
    and "acquire m (PStr r) (strs l) (strs rs) (strs d) now = (Inr g, m')"
  shows "owner_of (snd (release m' (PStr r))) t = owner_of m t
    \<and> (live_run (snd (release m' (PStr r))) s \<longleftrightarrow> live_run m s)"
proof -
  have wf: "wf_manager m" using assms(1) by (rule lease_reachable_wf)
  have fresh: "\<not> live_run m r" using assms(2) by (auto simp: grant_for_def live_run_def)
  have acq: "acquired m r (l, rs, d, now) = Some m'" by (simp add: assms(3))
  show ?thesis
    using lease.bracket_restores [OF wf fresh acq, of t] lease.bracket_live [OF wf fresh acq, of s]
    by (simp add: released_def)
qed

theorem acquire_release_restores_witness:
  "owner_of (snd (release (snd (acquire demo_manager (PStr ''run-c'') (strs [''base'']) (strs []) (strs []) 9))
      (PStr ''run-c''))) (LeaseTarget leaf ''arm.left'') = Some ''run-a''"
proof -
  have f: "grant_for demo_manager (PStr ''run-c'') = Inr None" by code_simp
  obtain g where g: "acquire demo_manager (PStr ''run-c'') (strs [''base'']) (strs []) (strs []) 9
      = (Inr g, snd (acquire demo_manager (PStr ''run-c'') (strs [''base'']) (strs []) (strs []) 9))"
    by (cases "acquire demo_manager (PStr ''run-c'') (strs [''base'']) (strs []) (strs []) 9", cases "fst (acquire demo_manager (PStr ''run-c'') (strs [''base'']) (strs []) (strs []) 9)") (auto, code_simp)
  have "owner_of demo_manager (LeaseTarget leaf ''arm.left'') = Some ''run-a''" by code_simp
  with acquire_release_restores [OF demo_reachable f g, of "LeaseTarget leaf ''arm.left''"] show ?thesis by simp
qed

text \<open>
  A release frees exactly the caller's targets: afterwards the run owns nothing, every other
  target keeps its owner, and a run without a live lease changes nothing and gets \<^verbatim>\<open>False\<close>.
\<close>

theorem release_frees_exactly:
  assumes "lease_reachable m" and "\<not> bad_key r"
  shows "fst (release m (PStr r)) = Inr (live_run m r)
    \<and> owner_of (snd (release m (PStr r))) t = (if owner_of m t = Some r then None else owner_of m t)
    \<and> \<not> live_run (snd (release m (PStr r))) r
    \<and> (\<not> live_run m r \<longrightarrow> snd (release m (PStr r)) = m)"
proof -
  have wf: "wf_manager m" using assms(1) by (rule lease_reachable_wf)
  have "fst (release m (PStr r)) = Inr (live_run m r) \<and> (\<not> live_run m r \<longrightarrow> snd (release m (PStr r)) = m)"
    using assms(2) wf_managerD(2) [OF wf, of r]
    by (cases "Mapping.lookup (grants m) r") (auto simp: release_def live_run_def Let_def)
  with lease.rel_own [OF wf, of r t] lease.rel_live [OF wf, of r r] show ?thesis
    by (simp add: released_def)
qed

theorem release_frees_exactly_witness:
  "fst (release demo_manager (PStr ''run-a'')) = Inr True
    \<and> owner_of (snd (release demo_manager (PStr ''run-a''))) (LeaseTarget safety_domain ''zone-1'') = Some ''run-b''"
proof -
  have k: "\<not> bad_key ''run-a''" by code_simp
  have "live_run demo_manager ''run-a''" by code_simp
  moreover have "owner_of demo_manager (LeaseTarget safety_domain ''zone-1'') = Some ''run-b''" by code_simp
  ultimately show ?thesis
    using release_frees_exactly [OF demo_reachable k, of "LeaseTarget safety_domain ''zone-1''"] by simp
qed

end
