(* ===== verification/Journal.thy ===== *)
theory Journal
  imports PyVal "HOL-Library.Mapping" "HOL-Library.AList_Mapping" "HOL-Library.Sublist"
begin

text \<open>
  The append-only run journals of \<^verbatim>\<open>remote_robot/journal.py\<close>: the checks that keep secrets and
  unserializable values out, the in-memory event tables, the framed file format and its recovery
  after a restart. The file of a \<^verbatim>\<open>FileRunJournal\<close> is the byte string written so far; disk
  failures and the optional \<^verbatim>\<open>fsync\<close> are not modelled. The wall clock is an argument.
\<close>

section \<open>Admissible events\<close>

definition MAX_FRAME_BYTES :: int where
  "MAX_FRAME_BYTES = 16 * 1024 * 1024"

definition RESERVED_EVENT_KEYS :: "string list" where
  "RESERVED_EVENT_KEYS = [''run_id'', ''event_seq'', ''recorded_at_ns'']"

definition FORBIDDEN_KEYS :: "string list" where
  "FORBIDDEN_KEYS = [''api_key'', ''authorization'', ''cookie'', ''credential'', ''credentials'',
     ''password'', ''private_key'', ''refresh_token'', ''secret'', ''serial_credentials'',
     ''set_cookie'', ''token'']"

definition validate_run_id :: "pyval \<Rightarrow> string result" where
  "validate_run_id v = (case v of
      PStr run_id \<Rightarrow>
        if run_id = [] \<or> run_id \<noteq> py_strip run_id then Inl ValueError
        else if length run_id > 512 \<or> (\<exists>c \<in> set run_id. (of_char c :: nat) < 32) then Inl ValueError
        else Inr run_id
    | _ \<Rightarrow> Inl TypeError)"

text \<open>
  \<^verbatim>\<open>str.casefold\<close> of one code point below 256. The micro sign folds to a Greek letter outside that
  range, which occurs in no forbidden key; it is left as it is.
\<close>

definition casefold_char :: "char \<Rightarrow> string" where
  "casefold_char c = (let n = of_char c :: nat in
     if (65 \<le> n \<and> n \<le> 90) \<or> (192 \<le> n \<and> n \<le> 214) \<or> (216 \<le> n \<and> n \<le> 222) then [char_of (n + 32)]
     else if n = 223 then ''ss'' else [c])"

definition normalized_key :: "string \<Rightarrow> string" where
  "normalized_key k = map (\<lambda>c. if c = CHR ''-'' \<or> c = CHR '' '' then CHR ''_'' else c)
     (concat (map casefold_char k))"

definition looks_secret :: "string \<Rightarrow> bool" where
  "looks_secret k = (let n = normalized_key k in
     n \<in> set FORBIDDEN_KEYS \<or>
     (\<exists>s \<in> set [''_password'', ''_secret'', ''_credential'', ''_credentials'', ''_token'']. py_endswith n s))"

fun validate_plain_data :: "pyval \<Rightarrow> unit result" where
  "validate_plain_data (PFloat f) = (if isfinite f then Inr () else Inl ValueError)"
| "validate_plain_data (PDict d) = forM (\<lambda>p. case fst p of
      PStr k \<Rightarrow> if looks_secret k then Inl SecretDataError else validate_plain_data (snd p)
    | _ \<Rightarrow> Inl TypeError) d"
| "validate_plain_data (PList xs) = forM validate_plain_data xs"
| "validate_plain_data (PTuple xs) = forM validate_plain_data xs"
| "validate_plain_data (POther c) = Inl TypeError"
| "validate_plain_data _ = Inr ()"

definition event_data :: "pyval \<Rightarrow> pydict result" where
  "event_data value = (case value of
      PDict d \<Rightarrow>
        if \<exists>k \<in> set RESERVED_EVENT_KEYS. dget d k \<noteq> None then Inl ValueError
        else bind (validate_plain_data value) (\<lambda>_. Inr d)
    | _ \<Rightarrow> Inl TypeError)"

section \<open>The journal\<close>

record journal_event =
  je_run_id :: string
  je_event_seq :: int
  je_recorded_at_ns :: int
  je_event :: pydict

definition je_record :: "journal_event \<Rightarrow> pyval" where
  "je_record e = mkdict [(''version'', PInt 2), (''run_id'', PStr (je_run_id e)),
     (''event_seq'', PInt (je_event_seq e)), (''recorded_at_ns'', PInt (je_recorded_at_ns e)),
     (''event'', PDict (je_event e))]"

text \<open>\<^verbatim>\<open>JournalEvent.event_type\<close>\<close>

definition event_type :: "journal_event \<Rightarrow> string option" where
  "event_type e = (case dget (je_event e) ''type'' of Some (PStr s) \<Rightarrow> Some s | _ \<Rightarrow> None)"

text \<open>\<^verbatim>\<open>backing\<close> is the file content of a \<^verbatim>\<open>FileRunJournal\<close>; an in-memory journal has none.\<close>

record run_journal =
  events_by_run :: "(string, journal_event list) mapping"
  recovered_run_ids :: "string list"
  closed :: bool
  backing :: "bytes option"

definition run_events :: "run_journal \<Rightarrow> string \<Rightarrow> journal_event list" where
  "run_events j r = (case Mapping.lookup (events_by_run j) r of None \<Rightarrow> [] | Some es \<Rightarrow> es)"

definition journal_frame :: "pyenv \<Rightarrow> pyval \<Rightarrow> bytes result" where
  "journal_frame E value = bind (cbor_dumps E value) (\<lambda>payload.
     raise_if (payload = [] \<or> int (length payload) > MAX_FRAME_BYTES) ValueError
       (Inr (pack_u32 (length payload) @ sha256 E payload @ payload)))"

definition persist_record :: "pyenv \<Rightarrow> run_journal \<Rightarrow> pyval \<Rightarrow> run_journal result" where
  "persist_record E j rec = (case backing j of
      None \<Rightarrow> Inr j
    | Some content \<Rightarrow> bind (journal_frame E rec) (\<lambda>f. Inr (j\<lparr>backing := Some (content @ f)\<rparr>)))"

definition append_event :: "pyenv \<Rightarrow> run_journal \<Rightarrow> pyval \<Rightarrow> pyval \<Rightarrow> int
    \<Rightarrow> journal_event result \<times> run_journal" where
  "append_event E j run_id event now =
     (case bind (validate_run_id run_id) (\<lambda>owner. bind (event_data event) (\<lambda>safe. Inr (owner, safe))) of
        Inl e \<Rightarrow> (Inl e, j)
      | Inr (owner, safe_event) \<Rightarrow>
          if closed j then (Inl ValueError, j)
          else if owner \<in> set (recovered_run_ids j) then (Inl JournalReadOnlyError, j)
          else let events = run_events j owner;
                   j1 = j\<lparr>events_by_run := Mapping.update owner events (events_by_run j)\<rparr>;
                   item = \<lparr>je_run_id = owner, je_event_seq = int (length events) + 1,
                           je_recorded_at_ns = now, je_event = safe_event\<rparr>
               in (case persist_record E j1 (je_record item) of
                     Inl e \<Rightarrow> (Inl e, j1)
                   | Inr j2 \<Rightarrow>
                       (Inr item, j2\<lparr>events_by_run := Mapping.update owner (events @ [item]) (events_by_run j2)\<rparr>)))"

definition replay :: "run_journal \<Rightarrow> pyval \<Rightarrow> pyval \<Rightarrow> journal_event list result" where
  "replay j run_id after_event_seq =
     bind (validate_run_id run_id) (\<lambda>owner.
       case after_event_seq of
         PInt n \<Rightarrow> if n < 0 then Inl ValueError
           else Inr (filter (\<lambda>e. je_event_seq e > n) (run_events j owner))
       | _ \<Rightarrow> Inl TypeError)"

definition latest :: "run_journal \<Rightarrow> pyval \<Rightarrow> journal_event option result" where
  "latest j run_id = bind (validate_run_id run_id) (\<lambda>owner.
     let es = run_events j owner in Inr (if es = [] then None else Some (last es)))"

definition journal_run_ids :: "run_journal \<Rightarrow> string list" where
  "journal_run_ids j = Mapping.ordered_keys (events_by_run j)"

definition close_journal :: "run_journal \<Rightarrow> run_journal" where
  "close_journal j = j\<lparr>closed := True\<rparr>"

definition InMemoryRunJournal :: run_journal where
  "InMemoryRunJournal = \<lparr>events_by_run = Mapping.empty, recovered_run_ids = [], closed = False, backing = None\<rparr>"

section \<open>The file format\<close>

definition MAGIC :: bytes where
  "MAGIC = [82, 82, 74, 50]"

definition journal_header :: pyval where
  "journal_header = mkdict [(''format'', PStr ''remote-robot-run-journal''), (''version'', PInt 2)]"

text \<open>
  One frame from the front of the remaining file: \<open>None\<close> at a clean end, otherwise the decoded
  mapping; the second component is what is left to read.
\<close>

definition journal_decode_frame :: "pyenv \<Rightarrow> bytes \<Rightarrow> (pydict option \<times> bytes) result" where
  "journal_decode_frame E file =
     (let size_bytes = take 4 file in
      if size_bytes = [] then Inr (None, [])
      else raise_if (length size_bytes \<noteq> 4) JournalCorruptionError
        (let size = unpack_u32 size_bytes in
         raise_if (size = 0 \<or> int size > MAX_FRAME_BYTES) JournalCorruptionError
           (let checksum = take 32 (drop 4 file) in
            raise_if (length checksum \<noteq> 32) JournalCorruptionError
              (let payload = take size (drop 36 file) in
               raise_if (length payload \<noteq> size) JournalCorruptionError
                 (raise_if (sha256 E payload \<noteq> checksum) JournalCorruptionError
                   (case cbor_loads E payload of
                      Inl e \<Rightarrow> Inl JournalCorruptionError
                    | Inr (PDict d) \<Rightarrow>
                        (case cbor_dumps E (PDict d) of
                           Inl e \<Rightarrow> if e = TypeError \<or> is_ValueError e then Inl JournalCorruptionError else Inl e
                         | Inr canonical_form \<Rightarrow>
                             raise_if (canonical_form \<noteq> payload) JournalCorruptionError
                               (Inr (Some d, drop (36 + size) file)))
                    | Inr _ \<Rightarrow> Inl JournalCorruptionError))))))"

definition event_from_record :: "pydict \<Rightarrow> (string, int) mapping
    \<Rightarrow> (journal_event \<times> (string, int) mapping) result" where
  "event_from_record rec expected_sequences =
     raise_if (\<not> exact_keys rec [''version'', ''run_id'', ''event_seq'', ''recorded_at_ns'', ''event''] []
         \<or> \<not> py_eq (dget_or rec ''version'' PNone) (PInt 2)) JournalCorruptionError
     (bind (catch (validate_run_id (dget_or rec ''run_id'' PNone))
          (\<lambda>e. e = TypeError \<or> is_ValueError e) JournalCorruptionError) (\<lambda>owner.
      let expected = (case Mapping.lookup expected_sequences owner of None \<Rightarrow> 0 | Some n \<Rightarrow> n) + 1 in
      raise_if (dget_or rec ''event_seq'' PNone \<noteq> PInt expected) JournalCorruptionError
      (case dget_or rec ''recorded_at_ns'' PNone of
         PInt timestamp \<Rightarrow>
           raise_if (timestamp < 0) JournalCorruptionError
           (bind (catch (event_data (dget_or rec ''event'' PNone))
                (\<lambda>e. e = TypeError \<or> is_ValueError e) JournalCorruptionError) (\<lambda>event.
             Inr (\<lparr>je_run_id = owner, je_event_seq = expected, je_recorded_at_ns = timestamp, je_event = event\<rparr>,
                  Mapping.update owner expected expected_sequences)))
       | _ \<Rightarrow> Inl JournalCorruptionError)))"

lemma decode_frame_shorter: "journal_decode_frame E file = Inr (Some d, rest) \<Longrightarrow> length rest < length file"
  by (auto simp: journal_decode_frame_def Let_def min_def split: if_splits sum.splits pyval.splits)

text \<open>The reading loop of \<^verbatim>\<open>_load\<close>.\<close>

function load_events :: "pyenv \<Rightarrow> (string, journal_event list) mapping \<Rightarrow> (string, int) mapping \<Rightarrow> bytes
    \<Rightarrow> (string, journal_event list) mapping result" where
  "load_events E events expected file =
     (case journal_decode_frame E file of
        Inl e \<Rightarrow> Inl e
      | Inr (None, rest) \<Rightarrow> Inr events
      | Inr (Some rec, rest) \<Rightarrow>
          (case event_from_record rec expected of
             Inl e \<Rightarrow> Inl e
           | Inr (item, expected') \<Rightarrow>
               load_events E
                 (Mapping.update (je_run_id item)
                   ((case Mapping.lookup events (je_run_id item) of None \<Rightarrow> [] | Some es \<Rightarrow> es) @ [item]) events)
                 expected' rest))"
  by pat_completeness auto
termination
  by (relation "measure (\<lambda>(E, events, expected, file). length file)") (auto dest: decode_frame_shorter)

declare load_events.simps [simp del]

definition load_journal :: "pyenv \<Rightarrow> bytes \<Rightarrow> (string, journal_event list) mapping result" where
  "load_journal E file =
     raise_if (take 4 file \<noteq> MAGIC) JournalCorruptionError
     (bind (journal_decode_frame E (drop 4 file)) (\<lambda>(header, rest).
      raise_if (\<not> (case header of None \<Rightarrow> False | Some h \<Rightarrow> py_eq (PDict h) journal_header)) JournalCorruptionError
        (load_events E Mapping.empty Mapping.empty rest)))"

text \<open>\<^verbatim>\<open>FileRunJournal(path)\<close>: the argument is the existing file's content, if there is one.\<close>

definition FileRunJournal :: "pyenv \<Rightarrow> bytes option \<Rightarrow> run_journal result" where
  "FileRunJournal E existing = (case existing of
      Some file \<Rightarrow> bind (load_journal E file) (\<lambda>events.
        Inr \<lparr>events_by_run = events, recovered_run_ids = Mapping.ordered_keys events, closed = False, backing = Some file\<rparr>)
    | None \<Rightarrow> bind (journal_frame E journal_header) (\<lambda>f.
        Inr \<lparr>events_by_run = Mapping.empty, recovered_run_ids = [], closed = False, backing = Some (MAGIC @ f)\<rparr>))"

section \<open>Calls on an open journal\<close>

datatype journal_call = Append pyval pyval int | Close

fun journal_call_step :: "pyenv \<Rightarrow> run_journal \<Rightarrow> journal_call \<Rightarrow> run_journal" where
  "journal_call_step E j (Append run_id event now) = snd (append_event E j run_id event now)"
| "journal_call_step E j Close = close_journal j"

text \<open>The state after a sequence of calls on a journal that was just opened.\<close>

definition journal_after :: "pyenv \<Rightarrow> run_journal \<Rightarrow> journal_call list \<Rightarrow> run_journal" where
  "journal_after E j calls = foldl (journal_call_step E) j calls"

text \<open>
  What an event store promises its clients: entries are only ever added at the end, a frozen
  run receives none, and an invariant of the store survives every call.
\<close>

locale append_only_log =
  fixes inv :: "'s \<Rightarrow> bool"
    and entries :: "'s \<Rightarrow> 'r \<Rightarrow> 'e list"
    and frozen :: "'s \<Rightarrow> 'r \<Rightarrow> bool"
    and call :: "'s \<Rightarrow> 'c \<Rightarrow> 's"
  assumes inv_call: "inv s \<Longrightarrow> inv (call s c)"
    and entries_call: "prefix (entries s r) (entries (call s c) r)"
    and frozen_call: "frozen s r \<Longrightarrow> frozen (call s c) r \<and> entries (call s c) r = entries s r"
begin

lemma inv_calls: "inv s \<Longrightarrow> inv (foldl call s cs)"
  by (induction cs arbitrary: s) (auto intro: inv_call)

lemma entries_calls: "prefix (entries s r) (entries (foldl call s cs) r)"
proof (induction cs arbitrary: s)
  case (Cons c cs)
  from entries_call [of s r c] Cons.IH [of "call s c"] show ?case
    by (simp add: prefix_order.trans)
qed simp

lemma frozen_calls: "frozen s r \<Longrightarrow> frozen (foldl call s cs) r \<and> entries (foldl call s cs) r = entries s r"
proof (induction cs arbitrary: s)
  case (Cons c cs)
  from frozen_call [OF Cons.prems, of c] Cons.IH [of "call s c"] show ?case by simp
qed simp

lemma entry_kept:
  assumes "i < length (entries s r)"
  shows "entries (foldl call s cs) r ! i = entries s r ! i"
  using entries_calls [of s r cs] assms by (auto simp: prefix_def nth_append)

end

section \<open>Invariant\<close>

definition numbered :: "string \<Rightarrow> journal_event list \<Rightarrow> bool" where
  "numbered r es \<longleftrightarrow> map je_event_seq es = map int [1..<Suc (length es)] \<and> (\<forall>e \<in> set es. je_run_id e = r)"

definition admissible :: "journal_event \<Rightarrow> bool" where
  "admissible e \<longleftrightarrow> event_data (PDict (je_event e)) = Inr (je_event e) \<and>
     validate_run_id (PStr (je_run_id e)) = Inr (je_run_id e)"

definition wf_journal :: "run_journal \<Rightarrow> bool" where
  "wf_journal j \<longleftrightarrow> (\<forall>r. numbered r (run_events j r) \<and> (\<forall>e \<in> set (run_events j r). admissible e))"

lemma numbered_Nil [simp]: "numbered r []"
  by (simp add: numbered_def)

lemma numbered_snoc:
  "numbered r es \<Longrightarrow> je_event_seq e = int (length es) + 1 \<Longrightarrow> je_run_id e = r \<Longrightarrow> numbered r (es @ [e])"
  by (simp add: numbered_def)

lemma numbered_seq:
  assumes "numbered r es" "i < length es"
  shows "je_event_seq (es ! i) = int i + 1"
proof -
  have "map je_event_seq es ! i = map int [1..<Suc (length es)] ! i"
    using assms by (simp add: numbered_def)
  with assms(2) show ?thesis by (simp del: upt_Suc)
qed

lemma numbered_butlast: "numbered r (es @ [e]) \<Longrightarrow> numbered r es"
  by (simp add: numbered_def)

lemma run_events_updated:
  "run_events (j\<lparr>events_by_run := Mapping.update r es m\<rparr>) r' =
     (if r' = r then es else case Mapping.lookup m r' of None \<Rightarrow> [] | Some es' \<Rightarrow> es')"
  by (auto simp: run_events_def lookup_update')

lemma validate_run_id_Inr: "validate_run_id v = Inr r \<Longrightarrow> v = PStr r \<and> validate_run_id (PStr r) = Inr r"
  by (auto simp: validate_run_id_def split: pyval.splits if_splits)

lemma event_data_Inr: "event_data v = Inr d \<Longrightarrow> v = PDict d \<and> event_data (PDict d) = Inr d"
  by (auto simp: event_data_def split: pyval.splits if_splits)

lemma persist_record_events: "persist_record E j rec = Inr j' \<Longrightarrow> events_by_run j' = events_by_run j
    \<and> recovered_run_ids j' = recovered_run_ids j \<and> closed j' = closed j"
  by (auto simp: persist_record_def split: option.splits)

text \<open>The two outcomes of \<^verbatim>\<open>append\<close>.\<close>

lemma append_cases:
  assumes "append_event E j run_id event now = (res, j')"
  obtains (refused) e where "res = Inl e" "run_events j' = run_events j" "backing j' = backing j"
      "recovered_run_ids j' = recovered_run_ids j" "closed j' = closed j"
  | (stored) owner item where "res = Inr item" "run_id = PStr owner" "admissible item"
      "event = PDict (je_event item)"
      "item = \<lparr>je_run_id = owner, je_event_seq = int (length (run_events j owner)) + 1,
               je_recorded_at_ns = now, je_event = je_event item\<rparr>"
      "\<not> closed j" "owner \<notin> set (recovered_run_ids j)"
      "\<And>r. run_events j' r = (if r = owner then run_events j owner @ [item] else run_events j r)"
      "recovered_run_ids j' = recovered_run_ids j" "closed j' = closed j"
      "(case backing j of None \<Rightarrow> backing j' = None
        | Some c \<Rightarrow> \<exists>f. journal_frame E (je_record item) = Inr f \<and> backing j' = Some (c @ f))"
proof (cases "bind (validate_run_id run_id) (\<lambda>owner. bind (event_data event) (\<lambda>safe. Inr (owner, safe)))")
  case (Inl e)
  with assms show ?thesis by (intro refused [of e]) (auto simp: append_event_def)
next
  case (Inr p)
  then obtain owner safe where p: "p = (owner, safe)" "validate_run_id run_id = Inr owner" "event_data event = Inr safe"
    by auto
  note valid = validate_run_id_Inr [OF p(2)] event_data_Inr [OF p(3)]
  show ?thesis
  proof (cases "closed j \<or> owner \<in> set (recovered_run_ids j)")
    case True
    with assms Inr p show ?thesis
      by (cases "closed j") (auto simp: append_event_def intro: refused)
  next
    case False
    define item where "item = \<lparr>je_run_id = owner, je_event_seq = int (length (run_events j owner)) + 1,
                               je_recorded_at_ns = now, je_event = safe\<rparr>"
    define j1 where "j1 = j\<lparr>events_by_run := Mapping.update owner (run_events j owner) (events_by_run j)\<rparr>"
    have j1: "run_events j1 = run_events j" "backing j1 = backing j"
      "recovered_run_ids j1 = recovered_run_ids j" "closed j1 = closed j"
      by (auto simp: j1_def run_events_def lookup_update' fun_eq_iff)
    show ?thesis
    proof (cases "persist_record E j1 (je_record item)")
      case (Inl e)
      with assms Inr p False have "res = Inl e" "j' = j1"
        by (auto simp: append_event_def Let_def simp flip: item_def j1_def)
      with j1 show ?thesis by (intro refused [of e]) auto
    next
      case (Inr j2)
      from assms \<open>bind _ _ = Inr p\<close> p False Inr have res: "res = Inr item"
        and j': "j' = j2\<lparr>events_by_run := Mapping.update owner (run_events j owner @ [item]) (events_by_run j2)\<rparr>"
        by (auto simp: append_event_def Let_def simp flip: item_def j1_def)
      have "run_events j' r = (if r = owner then run_events j owner @ [item] else run_events j r)" for r
        using persist_record_events [OF Inr] unfolding j'
        by (auto simp: run_events_updated j1_def lookup_update' run_events_def split: option.splits)
      moreover have "case backing j of None \<Rightarrow> backing j' = None
        | Some c \<Rightarrow> \<exists>f. journal_frame E (je_record item) = Inr f \<and> backing j' = Some (c @ f)"
        using Inr j1 by (auto simp: persist_record_def j' split: option.splits)
      ultimately show ?thesis
        using False valid j1 persist_record_events [OF Inr]
        by (intro stored [of item owner]) (auto simp: res j' item_def admissible_def)
    qed
  qed
qed

lemma wf_append: "wf_journal j \<Longrightarrow> wf_journal (snd (append_event E j run_id event now))"
proof -
  assume wf: "wf_journal j"
  obtain res j' where a: "append_event E j run_id event now = (res, j')" by fastforce
  show ?thesis
  proof (rule append_cases [OF a])
    fix e assume "run_events j' = run_events j"
    with wf a show ?thesis by (simp add: wf_journal_def)
  next
    fix owner item
    assume item: "admissible item" "item = \<lparr>je_run_id = owner, je_event_seq = int (length (run_events j owner)) + 1,
        je_recorded_at_ns = now, je_event = je_event item\<rparr>"
      and ev: "\<And>r. run_events j' r = (if r = owner then run_events j owner @ [item] else run_events j r)"
    have f: "je_event_seq item = int (length (run_events j owner)) + 1" "je_run_id item = owner"
      using arg_cong [OF item(2), of je_event_seq] arg_cong [OF item(2), of je_run_id] by simp_all
    have "numbered owner (run_events j owner @ [item])"
      by (rule numbered_snoc [OF _ f]) (use wf in \<open>simp add: wf_journal_def\<close>)
    with wf item(1) a ev show ?thesis by (auto simp: wf_journal_def)
  qed
qed

lemma append_extends: "prefix (run_events j r) (run_events (snd (append_event E j run_id event now)) r)"
proof -
  obtain res j' where a: "append_event E j run_id event now = (res, j')" by fastforce
  show ?thesis by (rule append_cases [OF a]) (use a in auto)
qed

lemma append_keeps_recovered:
  assumes "r \<in> set (recovered_run_ids j)"
  shows "r \<in> set (recovered_run_ids (snd (append_event E j run_id event now)))
    \<and> run_events (snd (append_event E j run_id event now)) r = run_events j r"
proof -
  obtain res j' where a: "append_event E j run_id event now = (res, j')" by fastforce
  show ?thesis by (rule append_cases [OF a]) (use a assms in auto)
qed

lemma close_journal_simps [simp]:
  "run_events (close_journal j) = run_events j"
  "recovered_run_ids (close_journal j) = recovered_run_ids j"
  "wf_journal (close_journal j) = wf_journal j"
  by (simp_all add: close_journal_def run_events_def wf_journal_def fun_eq_iff)

interpretation journal: append_only_log wf_journal run_events "\<lambda>j r. r \<in> set (recovered_run_ids j)"
    "journal_call_step E" for E
proof unfold_locales
  fix j c show "wf_journal j \<Longrightarrow> wf_journal (journal_call_step E j c)"
    by (cases c) (auto intro: wf_append)
next
  fix j r c show "prefix (run_events j r) (run_events (journal_call_step E j c) r)"
    by (cases c) (auto intro: append_extends)
next
  fix j r c show "r \<in> set (recovered_run_ids j) \<Longrightarrow> r \<in> set (recovered_run_ids (journal_call_step E j c)) \<and>
      run_events (journal_call_step E j c) r = run_events j r"
    by (cases c) (use append_keeps_recovered in auto)
qed

section \<open>Recovery yields a well-formed journal\<close>

definition events_of :: "(string, journal_event list) mapping \<Rightarrow> string \<Rightarrow> journal_event list" where
  "events_of m r = (case Mapping.lookup m r of None \<Rightarrow> [] | Some es \<Rightarrow> es)"

lemma run_events_conv: "run_events j = events_of (events_by_run j)"
  by (simp add: run_events_def events_of_def fun_eq_iff)

lemma events_of_empty [simp]: "events_of Mapping.empty r = []"
  by (simp add: events_of_def)

lemma events_of_update [simp]: "events_of (Mapping.update r es m) r' = (if r' = r then es else events_of m r')"
  by (simp add: events_of_def lookup_update')

definition load_inv :: "(string, journal_event list) mapping \<Rightarrow> (string, int) mapping \<Rightarrow> bool" where
  "load_inv events expected \<longleftrightarrow> finite (Mapping.keys events) \<and> (\<forall>r. numbered r (events_of events r) \<and>
     (\<forall>e \<in> set (events_of events r). admissible e) \<and>
     (case Mapping.lookup expected r of None \<Rightarrow> 0 | Some n \<Rightarrow> n) = int (length (events_of events r)))"

lemma event_from_record_Inr:
  assumes "event_from_record rec expected = Inr (item, expected')"
  shows "admissible item"
    and "je_event_seq item = (case Mapping.lookup expected (je_run_id item) of None \<Rightarrow> 0 | Some n \<Rightarrow> n) + 1"
    and "expected' = Mapping.update (je_run_id item) (je_event_seq item) expected"
    and "je_recorded_at_ns item \<ge> 0"
proof -
  obtain t where t: "dget_or rec ''recorded_at_ns'' PNone = PInt t"
    using assms by (cases "dget_or rec ''recorded_at_ns'' PNone") (auto simp: event_from_record_def Let_def)
  obtain owner ev where "validate_run_id (dget_or rec ''run_id'' PNone) = Inr owner" "t \<ge> 0"
    "event_data (dget_or rec ''event'' PNone) = Inr ev"
    and item: "item = \<lparr>je_run_id = owner, je_event_seq = (case Mapping.lookup expected owner of None \<Rightarrow> 0 | Some n \<Rightarrow> n) + 1,
               je_recorded_at_ns = t, je_event = ev\<rparr>"
      "expected' = Mapping.update owner ((case Mapping.lookup expected owner of None \<Rightarrow> 0 | Some n \<Rightarrow> n) + 1) expected"
    using assms by (auto simp: event_from_record_def Let_def t)
  then show "admissible item" "je_recorded_at_ns item \<ge> 0"
    by (metis admissible_def event_data_Inr journal_event.select_convs(1,4) validate_run_id_Inr, simp)
  show "je_event_seq item = (case Mapping.lookup expected (je_run_id item) of None \<Rightarrow> 0 | Some n \<Rightarrow> n) + 1"
    "expected' = Mapping.update (je_run_id item) (je_event_seq item) expected"
    by (simp_all add: item)
qed

lemma load_inv_step:
  assumes "load_inv events expected" "event_from_record rec expected = Inr (item, expected')"
  shows "load_inv (Mapping.update (je_run_id item) (events_of events (je_run_id item) @ [item]) events) expected'"
proof -
  note r = event_from_record_Inr [OF assms(2)]
  have "je_event_seq item = int (length (events_of events (je_run_id item))) + 1"
    using assms(1) r(2) by (simp add: load_inv_def)
  with assms(1) r(1,3) show ?thesis
    by (auto simp: load_inv_def lookup_update' intro: numbered_snoc)
qed

lemma load_events_wf:
  "load_inv events expected \<Longrightarrow> load_events E events expected content = Inr m \<Longrightarrow> \<exists>expected'. load_inv m expected'"
proof (induction E events expected content rule: load_events.induct)
  case (1 E events expected content)
  show ?case
  proof (cases "journal_decode_frame E content")
    case (Inr p)
    then obtain frame rest where p: "journal_decode_frame E content = Inr (frame, rest)" by (cases p) auto
    show ?thesis
    proof (cases frame)
      case None
      with p 1 show ?thesis by (auto simp: load_events.simps [of E events])
    next
      case (Some rec)
      with p 1 obtain item expected' where i: "event_from_record rec expected = Inr (item, expected')"
        by (cases "event_from_record rec expected") (auto simp: load_events.simps [of E events])
      show ?thesis
        by (rule "1.IH" [OF p refl Some i refl])
           (use load_inv_step [OF "1.prems"(1) i] "1.prems"(2) p Some i in
             \<open>auto simp: load_events.simps [of E events expected] events_of_def\<close>)
    qed
  qed (use 1 in \<open>simp add: load_events.simps [of E events]\<close>)
qed

lemma load_inv_empty: "load_inv Mapping.empty Mapping.empty"
  by (simp add: load_inv_def)

lemma wf_opened: "FileRunJournal E existing = Inr j \<Longrightarrow> wf_journal j"
  using load_events_wf [OF load_inv_empty]
  by (fastforce simp: FileRunJournal_def load_journal_def wf_journal_def run_events_conv load_inv_def
      split: option.splits)

lemma wf_in_memory: "wf_journal InMemoryRunJournal"
  by (simp add: wf_journal_def InMemoryRunJournal_def run_events_def)

section \<open>Reading back what was written\<close>

definition frame_bytes :: "pyenv \<Rightarrow> pyval \<Rightarrow> bytes" where
  "frame_bytes E v = (case journal_frame E v of Inl e \<Rightarrow> [] | Inr f \<Rightarrow> f)"

definition file_of :: "pyenv \<Rightarrow> journal_event list \<Rightarrow> bytes" where
  "file_of E written = MAGIC @ frame_bytes E journal_header @ concat (map (\<lambda>e. frame_bytes E (je_record e)) written)"

definition canon_event :: "journal_event \<Rightarrow> journal_event" where
  "canon_event e = e\<lparr>je_event := the_dict (canon (PDict (je_event e)))\<rparr>"

text \<open>The file holds exactly the events of the tables, in the order they were appended.\<close>

definition file_log :: "pyenv \<Rightarrow> run_journal \<Rightarrow> journal_event list \<Rightarrow> bool" where
  "file_log E j written \<longleftrightarrow> backing j = Some (file_of E written) \<and>
     (\<forall>r. run_events j r = filter (\<lambda>e. je_run_id e = r) written) \<and>
     ok (journal_frame E journal_header) \<and> (\<forall>e \<in> set written. ok (journal_frame E (je_record e)))"

lemma file_log_append:
  assumes "file_log E j written"
  shows "\<exists>written'. file_log E (snd (append_event E j run_id event now)) written'"
proof -
  obtain res j' where a: "append_event E j run_id event now = (res, j')" by fastforce
  show ?thesis
  proof (rule append_cases [OF a])
    assume "run_events j' = run_events j" "backing j' = backing j"
    with assms a show ?thesis by (auto simp: file_log_def)
  next
    fix owner item
    assume item: "item = \<lparr>je_run_id = owner, je_event_seq = int (length (run_events j owner)) + 1,
        je_recorded_at_ns = now, je_event = je_event item\<rparr>"
      and ev: "\<And>r. run_events j' r = (if r = owner then run_events j owner @ [item] else run_events j r)"
      and b: "case backing j of None \<Rightarrow> backing j' = None
        | Some c \<Rightarrow> \<exists>f. journal_frame E (je_record item) = Inr f \<and> backing j' = Some (c @ f)"
    have "je_run_id item = owner" using arg_cong [OF item, of je_run_id] by simp
    with assms b ev have "file_log E j' (written @ [item])"
      by (auto simp: file_log_def file_of_def frame_bytes_def)
    with a show ?thesis by auto
  qed
qed

lemma file_log_calls: "file_log E j written \<Longrightarrow> \<exists>written'. file_log E (journal_after E j calls) written'"
  unfolding journal_after_def
proof (induction calls arbitrary: j written)
  case (Cons c calls)
  have "\<exists>written'. file_log E (journal_call_step E j c) written'"
  proof (cases c)
    case Append
    with file_log_append [OF Cons.prems] show ?thesis by simp
  next
    case Close
    with Cons.prems show ?thesis by (auto simp: file_log_def close_journal_def run_events_def)
  qed
  with Cons.IH show ?case by auto
qed auto

lemma file_log_new: "FileRunJournal E None = Inr j \<Longrightarrow> file_log E j []"
  by (auto simp: FileRunJournal_def file_log_def file_of_def frame_bytes_def run_events_def)

lemma journal_frame_shape:
  assumes "journal_frame E v = Inr f"
  obtains payload where "cbor_dumps E v = Inr payload" "payload \<noteq> []" "int (length payload) \<le> MAX_FRAME_BYTES"
    "f = pack_u32 (length payload) @ sha256 E payload @ payload"
    "unpack_u32 (pack_u32 (length payload)) = length payload"
proof -
  obtain payload where p: "cbor_dumps E v = Inr payload" "payload \<noteq> []" "int (length payload) \<le> MAX_FRAME_BYTES"
    "f = pack_u32 (length payload) @ sha256 E payload @ payload"
    using assms by (auto simp: journal_frame_def)
  then have "length payload < 2 ^ 32" by (simp add: MAX_FRAME_BYTES_def)
  with that p show thesis by (simp add: unpack_pack_u32)
qed

lemma decode_written_frame:
  assumes sha: "\<And>b. length (sha256 E b) = 32"
    and f: "journal_frame E (PDict d) = Inr f" and codec: "codec_at E (PDict d)"
  shows "journal_decode_frame E (f @ rest) = Inr (Some (the_dict (canon (PDict d))), rest)"
proof (rule journal_frame_shape [OF f])
  fix payload
  assume p: "cbor_dumps E (PDict d) = Inr payload" "payload \<noteq> []" "int (length payload) \<le> MAX_FRAME_BYTES"
    "f = pack_u32 (length payload) @ sha256 E payload @ payload"
    "unpack_u32 (pack_u32 (length payload)) = length payload"
  obtain c where c: "canon (PDict d) = PDict c" by simp
  from codec p(1) c have l: "cbor_loads E payload = Inr (PDict c)" "cbor_dumps E (PDict c) = Inr payload"
    by (auto simp: codec_at_def)
  have "pack_u32 (length payload) \<noteq> []" by (metis length_pack_u32 list.size(3) zero_neq_numeral)
  with p l c show ?thesis
    by (simp add: journal_decode_frame_def Let_def sha)
qed

text \<open>A frame cut short is never read as an end of file nor as a record.\<close>

lemma decode_torn_frame:
  assumes sha: "\<And>b. length (sha256 E b) = 32"
    and f: "journal_frame E v = Inr f" and k: "0 < k" "k < length f"
  shows "journal_decode_frame E (take k f) = Inl JournalCorruptionError"
proof (rule journal_frame_shape [OF f])
  fix payload
  assume p: "payload \<noteq> []" "int (length payload) \<le> MAX_FRAME_BYTES"
    "f = pack_u32 (length payload) @ sha256 E payload @ payload"
    "unpack_u32 (pack_u32 (length payload)) = length payload"
  have len: "length f = 36 + length payload" by (simp add: p(3) sha)
  have ne: "take 4 (take k f) \<noteq> []" using k by auto
  consider "k < 4" | "4 \<le> k" "k < 36" | "36 \<le> k" by linarith
  then show ?thesis
  proof cases
    case 1
    with k ne show ?thesis by (simp add: journal_decode_frame_def Let_def)
  next
    case 2
    then have "take 4 (take k f) = pack_u32 (length payload)" by (simp add: p(3) min_def)
    moreover have "length (take 32 (drop 4 (take k f))) \<noteq> 32" using 2 k by simp
    ultimately show ?thesis using p(1,2,4) ne by (simp add: journal_decode_frame_def Let_def raise_if_def del: take_take)
  next
    case 3
    then have "take 4 (take k f) = pack_u32 (length payload)" by (simp add: p(3) min_def)
    moreover have "length (take 32 (drop 4 (take k f))) = 32" using 3 k by simp
    moreover have "min (length f) k = k" "k - 36 < length payload" using 3 k len by simp_all
    ultimately show ?thesis using p(1,2,4) ne by (simp add: journal_decode_frame_def Let_def del: take_take)
  qed
qed

lemma validate_plain_data_dict:
  "validate_plain_data (PDict d) = Inr () \<longleftrightarrow>
     (\<forall>p \<in> set d. \<exists>k. fst p = PStr k \<and> \<not> looks_secret k \<and> validate_plain_data (snd p) = Inr ())"
proof -
  have "(case fst p of PStr k \<Rightarrow> if looks_secret k then Inl SecretDataError else validate_plain_data (snd p)
      | _ \<Rightarrow> Inl TypeError) = Inr () \<longleftrightarrow>
    (\<exists>k. fst p = PStr k \<and> \<not> looks_secret k \<and> validate_plain_data (snd p) = Inr ())" for p :: "pyval \<times> pyval"
    by (cases "fst p") auto
  then show ?thesis by (simp add: forM_Inr_iff)
qed

lemma validate_plain_data_canon: "validate_plain_data v = Inr () \<Longrightarrow> validate_plain_data (canon v) = Inr ()"
proof (induction v)
  case (PDict d)
  have "validate_plain_data (canon (snd p)) = Inr ()" if "p \<in> set d" for p
    using PDict.IH [of p "snd p"] PDict.prems [unfolded validate_plain_data_dict] that by (auto simp: snds.simps)
  with PDict.prems have "validate_plain_data (PDict (map (\<lambda>p. (fst p, canon (snd p))) d)) = Inr ()"
    unfolding validate_plain_data_dict by auto
  then show ?case unfolding canon.simps validate_plain_data_dict by simp
qed (auto simp: forM_Inr_iff)

lemma event_data_canon:
  assumes "event_data (PDict d) = Inr d"
  shows "event_data (canon (PDict d)) = Inr (the_dict (canon (PDict d)))"
proof -
  obtain c where c: "canon (PDict d) = PDict c" by simp
  have "dget c k = None \<longleftrightarrow> dget d k = None" for k
    using set_keys_canon [of d] c by (simp add: dget_None_iff)
  with assms validate_plain_data_canon [of "PDict d"] show ?thesis
    unfolding c by (auto simp: event_data_def c split: if_splits)
qed

lemma event_from_written_record:
  assumes adm: "admissible e" and t: "je_recorded_at_ns e \<ge> 0"
    and seq: "je_event_seq e = (case Mapping.lookup expected (je_run_id e) of None \<Rightarrow> 0 | Some n \<Rightarrow> n) + 1"
  shows "event_from_record (the_dict (canon (je_record e))) expected =
     Inr (canon_event e, Mapping.update (je_run_id e) (je_event_seq e) expected)"
proof -
  define d where "d = [(PStr ''version'', PInt 2), (PStr ''run_id'', PStr (je_run_id e)),
     (PStr ''event_seq'', PInt (je_event_seq e)), (PStr ''recorded_at_ns'', PInt (je_recorded_at_ns e)),
     (PStr ''event'', PDict (je_event e))]"
  define c where "c = the_dict (canon (PDict d))"
  have d: "je_record e = PDict d" by (simp add: je_record_def mkdict_def d_def)
  have "distinct (keys d)" by (simp add: d_def PyVal.keys_def)
  note get = dget_canon [OF this, folded c_def]
  have g: "dget_or c ''version'' PNone = PInt 2" "dget_or c ''run_id'' PNone = PStr (je_run_id e)"
    "dget_or c ''event_seq'' PNone = PInt (je_event_seq e)"
    "dget_or c ''recorded_at_ns'' PNone = PInt (je_recorded_at_ns e)"
    "dget_or c ''event'' PNone = canon (PDict (je_event e))"
    by (simp_all add: dget_or_def get del: canon.simps(3)) (simp_all add: d_def)
  have "set (keys c) = set (keys d)" unfolding c_def by (rule set_keys_canon)
  moreover have "dget c k \<noteq> None \<longleftrightarrow> dget d k \<noteq> None" for k by (simp add: get)
  ultimately have "exact_keys c [''version'', ''run_id'', ''event_seq'', ''recorded_at_ns'', ''event''] []"
    by (simp add: exact_keys_def) (simp add: d_def PyVal.keys_def)
  with adm t seq event_data_canon [of "je_event e"] show ?thesis
    unfolding d c_def [symmetric]
    by (simp add: event_from_record_def g admissible_def canon_event_def Let_def del: canon.simps(3))
qed

definition loaded :: "journal_event list \<Rightarrow> (string, journal_event list) mapping" where
  "loaded es = foldl (\<lambda>m e. Mapping.update (je_run_id e) (events_of m (je_run_id e) @ [canon_event e]) m) Mapping.empty es"

definition counted :: "journal_event list \<Rightarrow> (string, int) mapping" where
  "counted es = foldl (\<lambda>m e. Mapping.update (je_run_id e) (je_event_seq e) m) Mapping.empty es"

lemma events_of_loaded: "events_of (loaded es) r = map canon_event (filter (\<lambda>e. je_run_id e = r) es)"
  by (induction es rule: rev_induct) (auto simp: loaded_def)

lemma keys_loaded: "Mapping.keys (loaded es) = je_run_id ` set es"
  by (induction es rule: rev_induct) (auto simp: loaded_def)

text \<open>Every run of a list of events is numbered consecutively.\<close>

definition sequenced :: "journal_event list \<Rightarrow> bool" where
  "sequenced es \<longleftrightarrow> (\<forall>r. numbered r (filter (\<lambda>e. je_run_id e = r) es))"

lemma sequenced_snoc:
  assumes "sequenced (es @ [e])"
  shows "sequenced es" "je_event_seq e = int (length (filter (\<lambda>x. je_run_id x = je_run_id e) es)) + 1"
proof -
  have "numbered r (filter (\<lambda>e. je_run_id e = r) es)" for r
    using spec [OF assms [unfolded sequenced_def], of r] by (auto dest: numbered_butlast split: if_splits)
  then show "sequenced es" by (simp add: sequenced_def)
  have n: "numbered (je_run_id e) (filter (\<lambda>x. je_run_id x = je_run_id e) es @ [e])"
    using spec [OF assms [unfolded sequenced_def], of "je_run_id e"] by simp
  show "je_event_seq e = int (length (filter (\<lambda>x. je_run_id x = je_run_id e) es)) + 1"
    using numbered_seq [OF n, of "length (filter (\<lambda>x. je_run_id x = je_run_id e) es)"] by simp
qed

lemma lookup_counted:
  "sequenced es \<Longrightarrow> (case Mapping.lookup (counted es) r of None \<Rightarrow> 0 | Some n \<Rightarrow> n)
     = int (length (filter (\<lambda>e. je_run_id e = r) es))"
proof (induction es rule: rev_induct)
  case (snoc e es)
  note s = sequenced_snoc [OF snoc.prems]
  from snoc.IH [OF s(1)] s(2) show ?case by (auto simp: counted_def lookup_update')
qed (simp add: counted_def)

definition readable :: "pyenv \<Rightarrow> journal_event \<Rightarrow> bool" where
  "readable E e \<longleftrightarrow> admissible e \<and> je_recorded_at_ns e \<ge> 0 \<and>
     ok (journal_frame E (je_record e)) \<and> codec_at E (je_record e)"

lemma load_written:
  assumes sha: "\<And>b. length (sha256 E b) = 32"
  shows "sequenced es \<Longrightarrow> \<forall>e \<in> set es. readable E e \<Longrightarrow>
    load_events E Mapping.empty Mapping.empty (concat (map (\<lambda>e. frame_bytes E (je_record e)) es) @ rest)
      = load_events E (loaded es) (counted es) rest"
proof (induction es arbitrary: rest rule: rev_induct)
  case Nil
  then show ?case by (simp add: loaded_def counted_def)
next
  case (snoc e es)
  note s = sequenced_snoc [OF snoc.prems(1)]
  from snoc.prems(2) have r: "readable E e" by simp
  then obtain f where f: "journal_frame E (je_record e) = Inr f" "frame_bytes E (je_record e) = f"
    by (auto simp: readable_def ok_iff frame_bytes_def)
  obtain d where d: "je_record e = PDict d" by (simp add: je_record_def mkdict_def)
  have dec: "journal_decode_frame E (f @ rest) = Inr (Some (the_dict (canon (je_record e))), rest)"
    using decode_written_frame [of E d f rest] sha f(1) r unfolding d by (simp add: readable_def d)
  have ev: "event_from_record (the_dict (canon (je_record e))) (counted es) =
      Inr (canon_event e, Mapping.update (je_run_id e) (je_event_seq e) (counted es))"
    using r s(2) lookup_counted [OF s(1), of "je_run_id e"]
    by (intro event_from_written_record) (simp_all add: readable_def)
  have "load_events E (loaded es) (counted es) (f @ rest) = load_events E (loaded (es @ [e])) (counted (es @ [e])) rest"
    unfolding load_events.simps [of E "loaded es"] dec
    by (simp add: ev) (simp add: loaded_def counted_def canon_event_def events_of_def)
  with snoc s(1) f(2) show ?case by simp
qed

lemma load_file:
  assumes sha: "\<And>b. length (sha256 E b) = 32" and h: "ok (journal_frame E journal_header)" "codec_at E journal_header"
    and "sequenced es" "\<forall>e \<in> set es. readable E e"
  shows "load_journal E (file_of E es @ rest) = load_events E (loaded es) (counted es) rest"
proof -
  obtain f where f: "journal_frame E journal_header = Inr f" "frame_bytes E journal_header = f"
    using h(1) by (auto simp: ok_iff frame_bytes_def)
  obtain d where d: "journal_header = PDict d" by (simp add: journal_header_def mkdict_def)
  let ?rest = "concat (map (\<lambda>e. frame_bytes E (je_record e)) es) @ rest"
  have "journal_decode_frame E (f @ ?rest) = Inr (Some (the_dict (canon journal_header)), ?rest)"
    using decode_written_frame [of E d f ?rest] sha f(1) h(2) unfolding d by simp
  moreover have "py_eq (canon journal_header) journal_header"
    by (simp add: journal_header_def mkdict_def py_eq_dict insort_key_def) 
  moreover have "PDict (the_dict (canon journal_header)) = canon journal_header" by (simp add: d)
  ultimately show ?thesis
    using load_written [OF sha assms(4,5)] by (simp add: load_journal_def file_of_def MAGIC_def f(2))
qed

section \<open>Properties\<close>

lemma plain_subvalue: "subvalue v w \<Longrightarrow> validate_plain_data w = Inr () \<Longrightarrow> validate_plain_data v = Inr ()"
proof (induction rule: subvalue.induct)
  case (subvalue_dict v x k d)
  from subvalue_dict.prems [unfolded validate_plain_data_dict] subvalue_dict.hyps(2)
  have "validate_plain_data x = Inr ()" by fastforce
  then show ?case by (rule subvalue_dict.IH)
qed (auto simp: forM_Inr_iff)

lemma admissible_plain: "admissible e \<Longrightarrow> validate_plain_data (PDict (je_event e)) = Inr ()"
  by (auto simp: admissible_def event_data_def split: if_splits)

lemma wf_after: "wf_journal j \<Longrightarrow> wf_journal (journal_after E j calls)"
  unfolding journal_after_def by (rule journal.inv_calls)

lemma numbered_filter:
  assumes "numbered r es" "0 \<le> n"
  shows "filter (\<lambda>e. je_event_seq e > n) es = drop (nat n) es"
  using assms
proof (induction es rule: rev_induct)
  case (snoc e es)
  have "je_event_seq e = int (length es) + 1"
    using numbered_seq [OF snoc.prems(1), of "length es"] by simp
  with snoc.IH [OF numbered_butlast [OF snoc.prems(1)] snoc.prems(2)] snoc.prems(2) show ?case
    by (auto simp: nat_le_iff)
qed simp

text \<open>What the file of a live journal holds.\<close>

lemma live_file:
  assumes "FileRunJournal E None = Inr j" "j' = journal_after E j calls"
    and "\<forall>r. \<forall>e \<in> set (run_events j' r). codec_at E (je_record e) \<and> je_recorded_at_ns e \<ge> 0"
  obtains es where "file_log E j' es" "sequenced es" "\<forall>e \<in> set es. readable E e"
proof -
  obtain es where es: "file_log E j' es"
    using file_log_calls [OF file_log_new [OF assms(1)]] assms(2) by blast
  have wf: "wf_journal j'" using assms(1,2) wf_opened by (auto intro: wf_after)
  have mem: "e \<in> set es \<Longrightarrow> e \<in> set (run_events j' (je_run_id e))" for e
    using es by (simp add: file_log_def)
  have "sequenced es" using wf es by (simp add: wf_journal_def file_log_def sequenced_def)
  moreover have "\<forall>e \<in> set es. readable E e"
    using wf es mem assms(3) unfolding readable_def file_log_def wf_journal_def by blast
  ultimately show thesis using that es by blast
qed

lemma recovered_keys:
  assumes "FileRunJournal E (Some content) = Inr j"
  shows "set (recovered_run_ids j) = Mapping.keys (events_by_run j)"
proof -
  from assms obtain m where m: "load_journal E content = Inr m" "events_by_run j = m"
    "recovered_run_ids j = Mapping.ordered_keys m" by (auto simp: FileRunJournal_def)
  then obtain expected where "load_inv m expected"
    using load_events_wf [OF load_inv_empty] by (force simp: load_journal_def)
  with m show ?thesis by (simp add: load_inv_def)
qed

text \<open>
  C13. Sequence numbers are gap free. However a journal was opened (in memory, as a new file, or
  from the bytes of an existing file) and whatever calls were made on it, the events of a run are
  numbered 1, 2, 3, ... without a gap, so \<^verbatim>\<open>replay(run, after)\<close> returns exactly the events behind
  the first \<open>after\<close> ones and \<^verbatim>\<open>latest\<close> the one whose number is their count.
\<close>

theorem replay_gap_free:
  assumes "j = InMemoryRunJournal \<or> FileRunJournal E existing = Inr j" "j' = journal_after E j calls"
    and "validate_run_id (PStr r) = Inr r" "0 \<le> n"
  shows "map je_event_seq (run_events j' r) = map int [1..<Suc (length (run_events j' r))]
    \<and> replay j' (PStr r) (PInt n) = Inr (drop (nat n) (run_events j' r))
    \<and> latest j' (PStr r) = Inr (if run_events j' r = [] then None
         else Some (run_events j' r ! (length (run_events j' r) - 1)))"
proof -
  have "wf_journal j'"
    using assms(1,2) wf_in_memory wf_opened by (auto intro: wf_after)
  then have n: "numbered r (run_events j' r)" by (simp add: wf_journal_def)
  then have "replay j' (PStr r) (PInt n) = Inr (drop (nat n) (run_events j' r))"
    using assms(3,4) by (simp add: replay_def numbered_filter)
  with n assms(3) show ?thesis by (simp add: numbered_def latest_def Let_def last_conv_nth)
qed

text \<open>
  Outcome of \<^verbatim>\<open>append\<close>. Either it raises and every run's events and the file are as before,
  or it returns the stored event: the caller's data under the next sequence number, added behind
  the run's earlier events, with no other run touched and, for a file journal, exactly the
  record's frame added behind the earlier content.
\<close>

theorem append_outcome:
  "(case append_event E j run_id event now of
      (Inl e, j') \<Rightarrow> run_events j' = run_events j \<and> backing j' = backing j
    | (Inr item, j') \<Rightarrow> \<exists>owner. run_id = PStr owner \<and> event = PDict (je_event item) \<and>
        je_run_id item = owner \<and> je_event_seq item = int (length (run_events j owner)) + 1 \<and>
        je_recorded_at_ns item = now \<and>
        run_events j' = (run_events j)(owner := run_events j owner @ [item]) \<and>
        backing j' = map_option (\<lambda>c. c @ frame_bytes E (je_record item)) (backing j))"
proof -
  obtain res j' where a: "append_event E j run_id event now = (res, j')" by fastforce
  show ?thesis
  proof (rule append_cases [OF a])
    fix owner item
    assume item: "item = \<lparr>je_run_id = owner, je_event_seq = int (length (run_events j owner)) + 1,
        je_recorded_at_ns = now, je_event = je_event item\<rparr>"
      and rest: "res = Inr item" "run_id = PStr owner" "event = PDict (je_event item)"
       "\<And>r. run_events j' r = (if r = owner then run_events j owner @ [item] else run_events j r)"
       "case backing j of None \<Rightarrow> backing j' = None
        | Some c \<Rightarrow> \<exists>f. journal_frame E (je_record item) = Inr f \<and> backing j' = Some (c @ f)"
    have "je_run_id item = owner" "je_event_seq item = int (length (run_events j owner)) + 1" "je_recorded_at_ns item = now"
      using arg_cong [OF item, of je_run_id] arg_cong [OF item, of je_event_seq]
        arg_cong [OF item, of je_recorded_at_ns] by simp_all
    with a rest show ?thesis
      by (auto simp: fun_eq_iff frame_bytes_def split: option.splits)
  qed (use a in simp)
qed

text \<open>
  No secrets in the evidence. In every journal, however opened and used, no mapping at any
  depth of a stored event has a key that looks like a credential, every mapping key is a string,
  and every float is finite.
\<close>

theorem journal_holds_no_secret:
  assumes "j = InMemoryRunJournal \<or> FileRunJournal E existing = Inr j"
    and "e \<in> set (run_events (journal_after E j calls) r)"
  shows "(\<forall>d k v. subvalue (PDict d) (PDict (je_event e)) \<and> (k, v) \<in> set d \<longrightarrow> (\<exists>s. k = PStr s \<and> \<not> looks_secret s))
    \<and> (\<forall>f. subvalue (PFloat f) (PDict (je_event e)) \<longrightarrow> isfinite f)"
proof -
  have "wf_journal (journal_after E j calls)"
    using assms(1) wf_in_memory wf_opened by (auto intro: wf_after)
  with assms(2) have "admissible e" by (auto simp: wf_journal_def)
  note plain = admissible_plain [OF this]
  have "\<exists>s. k = PStr s \<and> \<not> looks_secret s" if "subvalue (PDict d) (PDict (je_event e))" "(k, v) \<in> set d" for d k v
    using plain_subvalue [OF that(1) plain, unfolded validate_plain_data_dict] that(2) by fastforce
  moreover have "isfinite f" if "subvalue (PFloat f) (PDict (je_event e))" for f
    using plain_subvalue [OF that plain] by (simp split: if_splits)
  ultimately show ?thesis by blast
qed

text \<open>
  Recovered runs are evidence, not authority to resume. After a server opened an existing
  journal file, no sequence of calls changes the events of a run found in it, and an admissible
  append to such a run raises \<^verbatim>\<open>JournalReadOnlyError\<close> and leaves the journal as it is.
\<close>

theorem recovered_run_read_only:
  assumes "FileRunJournal E (Some content) = Inr j" "j' = journal_after E j calls"
    and "run_events j r \<noteq> []"
  shows "run_events j' r = run_events j r \<and>
    (validate_run_id (PStr r) = Inr r \<and> ok (event_data event) \<and> \<not> closed j' \<longrightarrow>
      append_event E j' (PStr r) event now = (Inl JournalReadOnlyError, j'))"
proof -
  from assms(3) have "r \<in> set (recovered_run_ids j)"
    by (auto simp: recovered_keys [OF assms(1)] run_events_def keys_dom_lookup split: option.splits)
  from journal.frozen_calls [of r j E calls, OF this] assms(2) show ?thesis
    by (auto simp: journal_after_def append_event_def ok_iff)
qed

text \<open>
  C14. Restart round trip. For every journal file that one process created and appended to, a
  later process that opens the bytes recovers every run with the same events in the same order
  (their data in the key order of canonical CBOR), and treats exactly the runs with events as
  recovered. The CBOR codec is assumed to decode what it encoded, SHA-256 to have 32 bytes.
\<close>

theorem journal_file_roundtrip:
  assumes "\<forall>b. length (sha256 E b) = 32" "codec_at E journal_header"
    and "FileRunJournal E None = Inr j" "j' = journal_after E j calls"
    and "\<forall>r. \<forall>e \<in> set (run_events j' r). codec_at E (je_record e) \<and> je_recorded_at_ns e \<ge> 0"
  shows "\<exists>k. FileRunJournal E (backing j') = Inr k \<and>
    (\<forall>r. run_events k r = map canon_event (run_events j' r)) \<and>
    set (recovered_run_ids k) = {r. run_events j' r \<noteq> []}"
proof -
  obtain es where es: "file_log E j' es" "sequenced es" "\<forall>e \<in> set es. readable E e"
    by (rule live_file [OF assms(3-5)])
  have "load_journal E (file_of E es @ []) = load_events E (loaded es) (counted es) []"
    by (rule load_file) (use assms(1,2) es in \<open>auto simp: file_log_def\<close>)
  then have "load_journal E (file_of E es) = Inr (loaded es)"
    by (simp add: load_events.simps journal_decode_frame_def)
  with es show ?thesis
    by (auto simp: FileRunJournal_def file_log_def run_events_conv events_of_loaded
        keys_loaded filter_empty_conv)
qed

text \<open>
  C15. A torn write is detected. If the process dies while the frame of an appended event is being
  written, so that some but not all of its bytes reached the file, opening the file raises
  \<^verbatim>\<open>JournalCorruptionError\<close>: the partial record is neither dropped nor read as an event.
\<close>

theorem torn_append_detected:
  assumes "\<forall>b. length (sha256 E b) = 32" "codec_at E journal_header"
    and "FileRunJournal E None = Inr j" "j' = journal_after E j calls"
    and "\<forall>r. \<forall>e \<in> set (run_events j' r). codec_at E (je_record e) \<and> je_recorded_at_ns e \<ge> 0"
    and "append_event E j' run_id event now = (Inr item, j'')"
    and "backing j' = Some before" "backing j'' = Some after" "length before < n" "n < length after"
  shows "FileRunJournal E (Some (take n after)) = Inl JournalCorruptionError"
proof -
  obtain es where es: "file_log E j' es" "sequenced es" "\<forall>e \<in> set es. readable E e"
    by (rule live_file [OF assms(3-5)])
  obtain f where f: "journal_frame E (je_record item) = Inr f" "after = before @ f"
    using assms(6-8) by (auto elim!: append_cases)
  have b: "before = file_of E es" using es assms(7) by (simp add: file_log_def)
  define k where "k = n - length before"
  have k: "0 < k" "k < length f" using assms(9,10) f(2) by (simp_all add: k_def)
  have "take n after = before @ take k f" using assms(9) f(2) by (simp add: k_def)
  moreover have "load_journal E (before @ take k f) = load_events E (loaded es) (counted es) (take k f)"
    unfolding b by (rule load_file) (use assms(1,2) es in \<open>auto simp: file_log_def\<close>)
  moreover have "journal_decode_frame E (take k f) = Inl JournalCorruptionError"
    by (rule decode_torn_frame [OF _ f(1) k]) (use assms(1) in simp)
  ultimately show ?thesis by (simp add: FileRunJournal_def load_events.simps)
qed

section \<open>Instances\<close>

text \<open>A codec, as a table, for the header and the record of one event.\<close>

definition demo_event :: pydict where
  "demo_event = [(PStr ''type'', PStr ''run.accepted''), (PStr ''at'', PInt 1)]"

definition demo_item :: journal_event where
  "demo_item = \<lparr>je_run_id = ''run'', je_event_seq = 1, je_recorded_at_ns = 5, je_event = demo_event\<rparr>"

definition demo_env :: pyenv where
  "demo_env = \<lparr>
     cbor_dumps = (\<lambda>v. if v = journal_header \<or> v = canon journal_header then Inr [1]
       else if v = je_record demo_item \<or> v = canon (je_record demo_item) then Inr [2] else Inl TypeError),
     cbor_loads = (\<lambda>b. if b = [1] then Inr (canon journal_header)
       else if b = [2] then Inr (canon (je_record demo_item)) else Inl ValueError),
     sha256 = (\<lambda>b. replicate 32 7), json_dumps = (\<lambda>v. []), json_loads = (\<lambda>s. Inl ValueError), py_repr = (\<lambda>v. []),
     float_of_str = (\<lambda>s. Inl ValueError)\<rparr>"

definition demo_journal :: run_journal where
  "demo_journal = \<lparr>events_by_run = Mapping.empty, recovered_run_ids = [], closed = False,
     backing = Some (MAGIC @ frame_bytes demo_env journal_header)\<rparr>"

definition demo_calls :: "journal_call list" where
  "demo_calls = [Append (PStr ''run'') (PDict demo_event) 5, Close]"

lemma demo_codec: "codec_at demo_env journal_header" "codec_at demo_env (je_record demo_item)"
proof -
  have ne: "canon (je_record demo_item) \<noteq> journal_header" "canon (je_record demo_item) \<noteq> canon journal_header"
    "je_record demo_item \<noteq> journal_header" "je_record demo_item \<noteq> canon journal_header"
    by code_simp+
  show "codec_at demo_env journal_header" "codec_at demo_env (je_record demo_item)"
    using ne by (simp_all add: codec_at_def demo_env_def)
qed

lemma demo_sha: "\<forall>b. length (sha256 demo_env b) = 32"
  by (simp add: demo_env_def)

lemma demo_opened: "FileRunJournal demo_env None = Inr demo_journal"
  by code_simp

lemma demo_after:
  "events_by_run (journal_after demo_env demo_journal demo_calls) = Mapping.update ''run'' [demo_item] Mapping.empty"
  by code_simp

lemma demo_run_events:
  "run_events (journal_after demo_env demo_journal demo_calls) r = (if r = ''run'' then [demo_item] else [])"
  by (simp add: run_events_conv demo_after)

theorem replay_gap_free_witness:
  "replay (journal_after demo_env demo_journal demo_calls) (PStr ''run'') (PInt 0) = Inr [demo_item]"
  using replay_gap_free [of demo_journal demo_env None _ demo_calls "''run''" 0, OF disjI2 [OF demo_opened] refl]
  by (simp add: demo_run_events validate_run_id_def py_strip_def py_isspace_def)

theorem journal_holds_no_secret_witness:
  "\<not> looks_secret ''at'' \<and> \<not> looks_secret ''type''"
proof -
  have "demo_item \<in> set (run_events (journal_after demo_env demo_journal demo_calls) ''run'')"
    by (simp add: demo_run_events)
  from journal_holds_no_secret [OF disjI2 [OF demo_opened] this]
  have "\<exists>s. k = PStr s \<and> \<not> looks_secret s" if "(k, v) \<in> set (je_event demo_item)" for k v
    using subvalue_refl that by blast
  moreover have "(PStr ''at'', PInt 1) \<in> set (je_event demo_item)"
    "(PStr ''type'', PStr ''run.accepted'') \<in> set (je_event demo_item)"
    by (simp_all add: demo_item_def demo_event_def)
  ultimately show ?thesis by blast
qed

theorem recovered_run_read_only_witness:
  "\<exists>k. FileRunJournal demo_env (backing (journal_after demo_env demo_journal demo_calls)) = Inr k \<and>
     append_event demo_env k (PStr ''run'') (PDict demo_event) 6 = (Inl JournalReadOnlyError, k)"
proof -
  have "case FileRunJournal demo_env (backing (journal_after demo_env demo_journal demo_calls)) of
      Inl e \<Rightarrow> False | Inr k \<Rightarrow> run_events k ''run'' \<noteq> [] \<and> \<not> closed k"
    by code_simp
  then obtain k where k: "FileRunJournal demo_env (backing (journal_after demo_env demo_journal demo_calls)) = Inr k"
    "run_events k ''run'' \<noteq> []" "\<not> closed k"
    by (auto split: sum.splits)
  have b: "backing (journal_after demo_env demo_journal demo_calls) \<noteq> None" by code_simp
  have v: "validate_run_id (PStr ''run'') = Inr ''run''" "ok (event_data (PDict demo_event))" by code_simp+
  from b obtain c where c: "backing (journal_after demo_env demo_journal demo_calls) = Some c" by blast
  from recovered_run_read_only [of demo_env c k k "[]" "''run''" "PDict demo_event" 6] k v c show ?thesis
    by (auto simp: journal_after_def)
qed

theorem journal_file_roundtrip_witness:
  "\<exists>k. FileRunJournal demo_env (backing (journal_after demo_env demo_journal demo_calls)) = Inr k \<and>
     run_events k ''run'' = [canon_event demo_item] \<and> set (recovered_run_ids k) = {''run''}"
proof -
  have "\<forall>r. \<forall>e \<in> set (run_events (journal_after demo_env demo_journal demo_calls) r).
      codec_at demo_env (je_record e) \<and> je_recorded_at_ns e \<ge> 0"
    by (simp add: demo_run_events demo_codec demo_item_def [THEN arg_cong [where f = je_recorded_at_ns]])
  from journal_file_roundtrip [OF demo_sha demo_codec(1) demo_opened refl this] show ?thesis
    by (auto simp: demo_run_events)
qed

theorem torn_append_detected_witness:
  "FileRunJournal demo_env (Some (take 50 (file_of demo_env [demo_item]))) = Inl JournalCorruptionError"
proof -
  let ?j = "journal_after demo_env demo_journal []"
  have e: "\<forall>r. \<forall>e \<in> set (run_events ?j r). codec_at demo_env (je_record e) \<and> je_recorded_at_ns e \<ge> 0"
    by (simp add: journal_after_def demo_journal_def run_events_def)
  have a: "append_event demo_env ?j (PStr ''run'') (PDict demo_event) 5 = (Inr demo_item,
      \<lparr>events_by_run = Mapping.update ''run'' [demo_item] Mapping.empty, recovered_run_ids = [], closed = False,
       backing = Some (file_of demo_env [demo_item])\<rparr>)" by code_simp
  have b: "backing ?j = Some (MAGIC @ frame_bytes demo_env journal_header)"
    by (simp add: journal_after_def demo_journal_def)
  have l: "length (MAGIC @ frame_bytes demo_env journal_header) < 50" "50 < length (file_of demo_env [demo_item])"
    by code_simp+
  show ?thesis by (rule torn_append_detected [OF demo_sha demo_codec(1) demo_opened refl e a b _ l]) simp
qed

end
