(* ===== verification/Orchestrator.thy ===== *)
theory Orchestrator
  imports Program Lease Journal
begin

text \<open>
  Execution of compiled programs: \<^verbatim>\<open>remote_robot/orchestrator.py\<close>. A coroutine runs without
  interruption between two awaits, so \<^verbatim>\<open>execute\<close> is a state machine: a run waits at an await, and
  resuming it with the outcome of the await runs the code up to the next one. What the workers
  answer, which events they report before a timeout, cancellation and the clocks are arguments.
  Several runs share the lease manager and the journal.
\<close>

section \<open>Configuration and errors\<close>

record orch_config =
  oc_env :: pyenv
  oc_view :: registry_view
  oc_authorize :: "string \<Rightarrow> string \<Rightarrow> string list \<Rightarrow> unit result"
  oc_workers :: "string list"
  oc_start_lead_us :: int
  oc_timeout_margin_s :: pyfloat

text \<open>The constructor's checks; \<^verbatim>\<open>phase_timeout_margin_s\<close> is a number.\<close>

definition RunOrchestrator :: "pyenv \<Rightarrow> registry_view \<Rightarrow> (string \<Rightarrow> string \<Rightarrow> string list \<Rightarrow> unit result) \<Rightarrow> string list
    \<Rightarrow> pyval \<Rightarrow> pyfloat \<Rightarrow> orch_config result" where
  "RunOrchestrator E V authorize workers start_lead_us margin = (case start_lead_us of
      PInt n \<Rightarrow>
        raise_if (n < 0) ValueError
        (raise_if (fle margin (Fin 0)) ValueError
        (Inr \<lparr>oc_env = E, oc_view = V, oc_authorize = authorize, oc_workers = workers, oc_start_lead_us = n,
              oc_timeout_margin_s = margin\<rparr>))
    | _ \<Rightarrow> Inl TypeError)"

definition require_control :: "registry \<Rightarrow> string \<Rightarrow> string \<Rightarrow> string list \<Rightarrow> unit result" where
  "require_control R who root_id role_paths =
     bind (catch (identity_named R who) (\<lambda>e. True) AuthorizationError) (\<lambda>ident.
     let denied = sorted_set (filter (\<lambda>path. \<not> can_control ident root_id (Some path)) role_paths) in
     raise_if (denied \<noteq> []) AuthorizationError (Inr ()))"

text \<open>\<^verbatim>\<open>type(exc).__name__\<close>\<close>

fun exn_name :: "exn \<Rightarrow> string" where
  "exn_name TypeError = ''TypeError''" | "exn_name ValueError = ''ValueError''" | "exn_name KeyError = ''KeyError''"
| "exn_name IndexError = ''IndexError''" | "exn_name OverflowError = ''OverflowError''"
| "exn_name ZeroDivisionError = ''ZeroDivisionError''" | "exn_name AttributeError = ''AttributeError''"
| "exn_name RuntimeError = ''RuntimeError''" | "exn_name TimeoutError = ''TimeoutError''"
| "exn_name CancelledError = ''CancelledError''" | "exn_name AssertionError = ''AssertionError''"
| "exn_name RegistryError = ''RegistryError''" | "exn_name (ProgramError c) = ''ProgramError''"
| "exn_name (ProtocolError c) = ''ProtocolError''" | "exn_name (NetworkError c) = ''NetworkError''"
| "exn_name (LeaseConflict r b) = ''LeaseConflict''" | "exn_name LeaseRequestMismatchError = ''LeaseRequestMismatchError''"
| "exn_name SecretDataError = ''SecretDataError''" | "exn_name JournalCorruptionError = ''JournalCorruptionError''"
| "exn_name JournalReadOnlyError = ''JournalReadOnlyError''" | "exn_name FrameTooLargeError = ''FrameTooLargeError''"
| "exn_name TruncatedFrameError = ''TruncatedFrameError''" | "exn_name IPCSchemaError = ''IPCSchemaError''"
| "exn_name NonCanonicalFrameError = ''NonCanonicalFrameError''" | "exn_name WorkerError = ''WorkerError''"
| "exn_name WorkerStateError = ''WorkerStateError''" | "exn_name WorkerClosedError = ''WorkerClosedError''"
| "exn_name WorkerProtocolError = ''WorkerProtocolError''" | "exn_name WorkerTimeoutError = ''WorkerTimeoutError''"
| "exn_name (WorkerRemoteError c) = ''WorkerRemoteError''" | "exn_name AuthorizationError = ''AuthorizationError''"
| "exn_name MissingWorkerError = ''MissingWorkerError''"
| "exn_name UnsupportedProgramFeatureError = ''UnsupportedProgramFeatureError''"
| "exn_name RunAlreadyActiveError = ''RunAlreadyActiveError''" | "exn_name RunIdReuseError = ''RunIdReuseError''"
| "exn_name PhaseExecutionError = ''PhaseExecutionError''" | "exn_name (RunExecutionError r e) = ''RunExecutionError''"
| "exn_name OperationsError = ''OperationsError''" | "exn_name ConnectionClosed = ''ConnectionClosed''"
| "exn_name SystemExit = ''SystemExit''" | "exn_name StopIteration = ''StopIteration''"

fun type_name :: "pyval \<Rightarrow> string" where
  "type_name PNone = ''NoneType''" | "type_name (PBool b) = ''bool''" | "type_name (PInt n) = ''int''"
| "type_name (PFloat f) = ''float''" | "type_name (PStr s) = ''str''" | "type_name (PBytes b) = ''bytes''"
| "type_name (PList xs) = ''list''" | "type_name (PTuple xs) = ''tuple''" | "type_name (PDict d) = ''dict''"
| "type_name (POther c) = c"

definition plain_mapping :: "pyval \<Rightarrow> pydict result" where
  "plain_mapping v = (case v of PDict d \<Rightarrow> Inr d | _ \<Rightarrow> Inl (ProgramError ''INVALID_ARTIFACT''))"

definition string_list :: "pyval \<Rightarrow> string list result" where
  "string_list v = (case v of
      PNone \<Rightarrow> Inr []
    | PList vs \<Rightarrow> if list_all is_str vs then Inr (map the_str vs) else Inl (ProgramError ''INVALID_MANIFEST'')
    | _ \<Rightarrow> Inl (ProgramError ''INVALID_MANIFEST''))"

section \<open>Preflight\<close>

text \<open>\<^verbatim>\<open>v.get(k, default)\<close> on a value of any class.\<close>

definition py_get :: "pyval \<Rightarrow> string \<Rightarrow> pyval \<Rightarrow> pyval result" where
  "py_get v k other = bind (py_items v) (\<lambda>d. Inr (dget_or d k other))"

definition sequence_role :: "pyval \<Rightarrow> string result" where
  "sequence_role sequence =
     bind (plain_mapping sequence) (\<lambda>d. case dget_or d ''role_path'' PNone of
        PStr path \<Rightarrow> Inr path
      | _ \<Rightarrow> Inl (ProgramError ''INVALID_ARTIFACT''))"

definition phase_roles :: "pyval \<Rightarrow> string list result" where
  "phase_roles phase =
     bind (py_get phase ''completion'' PNone) (\<lambda>completion.
     raise_if (\<not> py_eq completion DEFAULT_COMPLETION) UnsupportedProgramFeatureError
     (bind (py_get phase ''transitions'' PNone) (\<lambda>transitions.
      raise_if (py_truth transitions) UnsupportedProgramFeatureError
      (bind (bind (py_get phase ''sequences'' (PTuple [])) py_iter) (mapM sequence_role)))))"

definition preflight :: "orch_config \<Rightarrow> string \<Rightarrow> compiled_program \<Rightarrow> compiled_program result" where
  "preflight C who program =
     bind (bind (to_bytes (oc_env C) program) (from_bytes (oc_env C))) (\<lambda>checked.
     bind (validate_for_current_registry (oc_env C) (oc_view C) checked) (\<lambda>_.
     bind (bind (program_phases checked) (mapM phase_roles)) (\<lambda>roles.
     bind (program_root_id (oc_env C) checked) (\<lambda>root_id.
     bind (oc_authorize C who root_id (sorted_set (concat roles))) (\<lambda>_. Inr checked)))))"

section \<open>Locks\<close>

record lock_requirements =
  lk_leaves :: "string list"
  lk_resources :: "string list"
  lk_safety_domains :: "string list"

text \<open>The walk down the nested manifests; the sets are lists in the order of insertion.\<close>

fun collect_role_branch_locks :: "pydict \<Rightarrow> string list \<Rightarrow> string \<Rightarrow> string list \<times> string list \<Rightarrow> (string list \<times> string list) result" where
  "collect_role_branch_locks current segments expected_physical_id acc =
     bind (string_list (dget_or current ''resources'' (PList []))) (\<lambda>rs.
     bind (string_list (dget_or current ''safety_domains'' (PList []))) (\<lambda>ds.
     let acc' = (fst acc @ rs, snd acc @ ds) in
     if dget_or current ''kind'' PNone = PStr ''physical'' then
       raise_if (dget_or current ''node_id'' PNone \<noteq> PStr expected_physical_id \<or> length segments \<noteq> 1)
         (ProgramError ''INVALID_ARTIFACT'') (Inr acc')
     else if dget_or current ''kind'' PNone \<noteq> PStr ''composite'' then Inl (ProgramError ''INVALID_MANIFEST'')
     else (case segments of
         role # next # rest \<Rightarrow>
           (case dget_or current ''children'' PNone of
              PList kids \<Rightarrow>
                (case filter (\<lambda>ch. is_dict ch \<and> dget_or (the_dict ch) ''role'' PNone = PStr role) kids of
                   [ch] \<Rightarrow> bind (plain_mapping (dget_or (the_dict ch) ''manifest'' PNone)) (\<lambda>m.
                     collect_role_branch_locks m (next # rest) expected_physical_id acc')
                 | _ \<Rightarrow> Inl (ProgramError ''INVALID_MANIFEST''))
            | _ \<Rightarrow> Inl (ProgramError ''INVALID_MANIFEST''))
       | _ \<Rightarrow> Inl (ProgramError ''INVALID_MANIFEST''))))"

declare collect_role_branch_locks.simps [simp del]

definition sequence_locks :: "pydict \<Rightarrow> lock_requirements \<Rightarrow> pyval \<Rightarrow> lock_requirements result" where
  "sequence_locks root_manifest acc sequence =
     bind (plain_mapping sequence) (\<lambda>item.
     bind (plain_mapping (dget_or item ''resolved_target'' PNone)) (\<lambda>target.
     case (dget_or target ''physical_node_id'' PNone, dget_or target ''group_id'' PNone, dget_or item ''role_path'' PNone) of
       (PStr physical_id, PStr grp, PStr path) \<Rightarrow>
         bind (collect_role_branch_locks root_manifest (py_split (CHR ''.'') path) physical_id
             (lk_resources acc, lk_safety_domains acc)) (\<lambda>(rs, ds).
         Inr \<lparr>lk_leaves = lk_leaves acc @ [physical_id @ ''.'' @ grp], lk_resources = rs, lk_safety_domains = ds\<rparr>)
     | _ \<Rightarrow> Inl (ProgramError ''INVALID_ARTIFACT'')))"

definition phase_locks :: "pydict \<Rightarrow> lock_requirements \<Rightarrow> pyval \<Rightarrow> lock_requirements result" where
  "phase_locks root_manifest acc phase =
     bind (plain_mapping phase) (\<lambda>p. case dget_or p ''sequences'' PNone of
        PList sequences \<Rightarrow> foldM (sequence_locks root_manifest) acc sequences
      | _ \<Rightarrow> Inl (ProgramError ''INVALID_ARTIFACT''))"

definition lock_requirements_of :: "orch_config \<Rightarrow> compiled_program \<Rightarrow> lock_requirements result" where
  "lock_requirements_of C program =
     bind (bind (bind (program_root_id (oc_env C) program) (rv_describe (oc_view C))) plain_mapping) (\<lambda>root_manifest.
     bind (bind (program_outline program) plain_mapping) (\<lambda>outline.
     case dget_or outline ''phases'' PNone of
       PList phases \<Rightarrow>
         bind (foldM (phase_locks root_manifest) \<lparr>lk_leaves = [], lk_resources = [], lk_safety_domains = []\<rparr> phases) (\<lambda>l.
         Inr \<lparr>lk_leaves = sorted_set (lk_leaves l), lk_resources = sorted_set (lk_resources l),
              lk_safety_domains = sorted_set (lk_safety_domains l)\<rparr>)
     | _ \<Rightarrow> Inl (ProgramError ''INVALID_ARTIFACT'')))"

definition sequence_worker :: "pyval \<Rightarrow> string result" where
  "sequence_worker sequence =
     bind (bind (py_get sequence ''resolved_target'' PNone) plain_mapping) (\<lambda>target.
     case dget_or target ''physical_node_id'' PNone of
       PStr physical_id \<Rightarrow> Inr physical_id
     | _ \<Rightarrow> Inl (ProgramError ''INVALID_ARTIFACT''))"

definition participant_worker_ids :: "compiled_program \<Rightarrow> string list result" where
  "participant_worker_ids program =
     bind (bind (program_phases program) (mapM (\<lambda>phase.
       bind (bind (py_get phase ''sequences'' (PTuple [])) py_iter) (mapM sequence_worker)))) (\<lambda>ids.
     Inr (sorted_set (concat ids)))"

section \<open>One run\<close>

text \<open>
  Calls on a worker. \<open>NextEvent\<close> stands for the loop that waits for an event of the given type of
  the given phase execution until the timeout.
\<close>

datatype worker_call =
    PrepareDisabled
  | PreparePhase pyval
  | StartPhase int
  | NextEvent string string pyfloat
  | Stop pyval

text \<open>
  How an await ends: by cancellation of the run's task, or with a reply or exception of every
  worker asked; for a wait, with the events each worker delivered in time.
\<close>

record outcome =
  out_cancelled :: bool
  out_replies :: "string \<Rightarrow> pyval result"
  out_events :: "string \<Rightarrow> pyval list"

datatype log_entry = Asked "(string \<times> worker_call) list" | Answered outcome

record run_result =
  rr_run_id :: string
  rr_status :: string
  rr_phase_count :: nat
  rr_program_sha256 :: string
  rr_terminal_event_seq :: int

datatype run_pc =
    Disabling
  | Preparing nat
  | Scheduling nat int
  | Starting nat int
  | Completing nat
  | Idling
  | Stopping exn
  | Done "run_result result"

record run =
  rn_id :: string
  rn_program :: compiled_program
  rn_phases :: "pyval list"
  rn_receipt :: lease_receipt
  rn_workers :: "string list"
  rn_phase_workers :: "string list"
  rn_phase :: "string option"
  rn_execution :: "string option"
  rn_pc :: run_pc
  rn_log :: "log_entry list"

definition opt_str :: "string option \<Rightarrow> pyval" where
  "opt_str x = (case x of None \<Rightarrow> PNone | Some s \<Rightarrow> PStr s)"

definition ask :: "run \<Rightarrow> (string \<times> worker_call) list \<Rightarrow> run_pc \<Rightarrow> run" where
  "ask r calls pc = r\<lparr>rn_log := rn_log r @ [Asked calls], rn_pc := pc\<rparr>"

definition stop_context :: "run \<Rightarrow> string \<Rightarrow> pyval" where
  "stop_context r code = mkdict [(''code'', PStr code), (''details'', mkdict [(''run_id'', PStr (rn_id r)),
     (''phase_id'', opt_str (rn_phase r)), (''phase_execution_id'', opt_str (rn_execution r))])]"

definition stop_all :: "run \<Rightarrow> string \<Rightarrow> run_pc \<Rightarrow> run" where
  "stop_all r code pc = ask r (map (\<lambda>w. (w, Stop (stop_context r code))) (rn_workers r)) pc"

text \<open>\<^verbatim>\<open>except BaseException as exc\<close>: stop every participating worker.\<close>

definition fault :: "run \<Rightarrow> exn \<Rightarrow> run" where
  "fault r e = stop_all r ''ORCHESTRATION_FAILURE'' (Stopping e)"

definition safe_result :: "pyval result \<Rightarrow> pyval" where
  "safe_result x = (case x of
      Inl e \<Rightarrow> mkdict [(''ok'', PBool False), (''error_type'', PStr (exn_name e))]
    | Inr (PDict d) \<Rightarrow> mkdict [(''ok'', PBool True), (''result'', PDict d)]
    | Inr v \<Rightarrow> mkdict [(''ok'', PBool True), (''result_type'', PStr (type_name v))])"

definition safe_results :: "string list \<Rightarrow> (string \<Rightarrow> pyval result) \<Rightarrow> pyval" where
  "safe_results names f = mkdict (map (\<lambda>w. (w, safe_result (f w))) names)"

definition all_ok :: "string list \<Rightarrow> (string \<Rightarrow> pyval result) \<Rightarrow> bool" where
  "all_ok names f \<longleftrightarrow> list_all (\<lambda>w. ok (f w)) names"

text \<open>\<^verbatim>\<open>journal.append\<close>; on an exception the run faults.\<close>

definition record_event :: "orch_config \<Rightarrow> run_journal \<Rightarrow> int \<Rightarrow> run \<Rightarrow> (string \<times> pyval) list
    \<Rightarrow> (journal_event \<Rightarrow> run) \<Rightarrow> run \<times> run_journal" where
  "record_event C j now r kvs k = (case append_event (oc_env C) j (PStr (rn_id r)) (mkdict kvs) now of
      (Inl e, j') \<Rightarrow> (fault r e, j')
    | (Inr item, j') \<Rightarrow> (k item, j'))"

subsection \<open>Phases\<close>

definition phase_plan :: "run \<Rightarrow> pyval \<Rightarrow> string \<Rightarrow> string \<Rightarrow> string \<Rightarrow> pyval list \<Rightarrow> pyval result" where
  "phase_plan r phase execution_id root_id mh tracks =
     bind (py_getitem phase ''phase_id'') (\<lambda>i.
     bind (py_getitem phase ''duration_us'') (\<lambda>d.
     bind (bind (py_getitem phase ''completion'') py_items) (\<lambda>c.
     Inr (mkdict [(''run_id'', PStr (rn_id r)), (''phase_execution_id'', PStr execution_id), (''root_id'', PStr root_id),
       (''manifest_hash'', PStr mh), (''phase_id'', i), (''duration_us'', d), (''completion'', PDict c),
       (''transitions'', PList []), (''tracks'', PList tracks)]))))"

text \<open>\<^verbatim>\<open>tracks.setdefault(physical_id, []).append(sequence)\<close>\<close>

definition add_track :: "(string \<times> pyval list) list \<Rightarrow> string \<times> pyval \<Rightarrow> (string \<times> pyval list) list" where
  "add_track tracks t = (case map_of tracks (fst t) of
      None \<Rightarrow> tracks @ [(fst t, [snd t])]
    | Some ts \<Rightarrow> map (\<lambda>x. if fst x = fst t then (fst t, ts @ [snd t]) else x) tracks)"

definition sequence_track :: "pyenv \<Rightarrow> pyval \<Rightarrow> (string \<times> pyval) result" where
  "sequence_track E sequence =
     bind (bind (py_getitem sequence ''resolved_target'') plain_mapping) (\<lambda>target.
     bind (dindex target ''physical_node_id'') (\<lambda>p.
     bind (py_items sequence) (\<lambda>d. Inr (py_str E p, PDict d))))"

text \<open>\<^verbatim>\<open>str(n)\<close> of a natural number.\<close>

fun decimal :: "nat \<Rightarrow> string" where
  "decimal n = (if n < 10 then [char_of (48 + n)] else decimal (n div 10) @ [char_of (48 + n mod 10)])"

declare decimal.simps [simp del]

definition execution_id_of :: "run \<Rightarrow> nat \<Rightarrow> string \<Rightarrow> string" where
  "execution_id_of r k sha = rn_id r @ '':'' @ decimal k @ '':'' @ take 12 sha"

definition worker_phase_plans :: "orch_config \<Rightarrow> run \<Rightarrow> nat \<Rightarrow> pyval \<Rightarrow> (string \<times> (string \<times> pyval) list) result" where
  "worker_phase_plans C r phase_index phase =
     bind (py_get phase ''sha256'' PNone) (\<lambda>sha. case sha of
       PStr phase_sha \<Rightarrow>
         raise_if (length phase_sha < 12) (ProgramError ''INVALID_ARTIFACT'')
         (let execution_id = execution_id_of r phase_index phase_sha in
          bind (bind (py_getitem phase ''sequences'') py_iter) (\<lambda>sequences.
          bind (mapM (sequence_track (oc_env C)) sequences) (\<lambda>tracked.
          bind (program_root_id (oc_env C) (rn_program r)) (\<lambda>root_id.
          bind (program_manifest_hash (oc_env C) (rn_program r)) (\<lambda>mh.
          bind (mapM (\<lambda>(w, ts). bind (phase_plan r phase execution_id root_id mh ts) (\<lambda>p. Inr (w, p)))
            (foldl add_track [] tracked)) (\<lambda>plans.
          Inr (execution_id, plans)))))))
     | _ \<Rightarrow> Inl (ProgramError ''INVALID_ARTIFACT''))"

text \<open>The top of the phase loop: plan and prepare phase \<open>k\<close>, or stop all workers after the last one.\<close>

definition begin_phase :: "orch_config \<Rightarrow> run \<Rightarrow> nat \<Rightarrow> run" where
  "begin_phase C r k =
     (if length (rn_phases r) \<le> k then stop_all r ''RUN_COMPLETED'' Idling
      else case py_getitem (rn_phases r ! k) ''phase_id'' of
          Inl e \<Rightarrow> fault r e
        | Inr i \<Rightarrow>
            let r1 = r\<lparr>rn_phase := Some (py_str (oc_env C) i)\<rparr> in
            case worker_phase_plans C r1 k (rn_phases r ! k) of
              Inl e \<Rightarrow> fault r1 e
            | Inr (execution_id, plans) \<Rightarrow>
                if \<not> set (map fst plans) \<subseteq> set (rn_workers r) then fault r1 KeyError
                else if plans = [] then fault r1 StopIteration
                else let names = sorted_set (map fst plans) in
                  ask (r1\<lparr>rn_execution := Some execution_id, rn_phase_workers := names\<rparr>)
                    (map (\<lambda>w. (w, PreparePhase (the (map_of plans w)))) names) (Preparing k))"

definition phase_event :: "run \<Rightarrow> nat \<Rightarrow> string \<Rightarrow> (string \<times> pyval) list \<Rightarrow> (string \<times> pyval) list" where
  "phase_event r k event_kind extra = [(''type'', PStr event_kind), (''phase_id'', opt_str (rn_phase r)),
     (''phase_execution_id'', opt_str (rn_execution r)), (''phase_index'', PInt (int k))] @ extra"

text \<open>\<^verbatim>\<open>_start_all\<close> checks every acknowledgement.\<close>

definition scheduled_ack :: "run \<Rightarrow> pyval result \<Rightarrow> bool" where
  "scheduled_ack r reply = (case reply of
      Inr (PDict d) \<Rightarrow> py_eq (dget_or d ''status'' PNone) (PStr ''scheduled'') \<and>
        py_eq (dget_or d ''run_id'' PNone) (PStr (rn_id r)) \<and>
        py_eq (dget_or d ''phase_execution_id'' PNone) (opt_str (rn_execution r))
    | _ \<Rightarrow> False)"

text \<open>
  \<^verbatim>\<open>wait_one\<close> on the events a worker delivers before the timeout. The class of the exception does
  not matter: every failure of a wait becomes the same error.
\<close>

fun wait_one :: "run \<Rightarrow> string \<Rightarrow> pyval list \<Rightarrow> pyval result" where
  "wait_one r expected_type [] = Inl TimeoutError"
| "wait_one r expected_type (event # events) = (case event of
      PDict d \<Rightarrow>
        let event_type = dget_or d ''type'' PNone;
            matching = py_eq (dget_or d ''run_id'' PNone) (PStr (rn_id r)) \<and>
              py_eq (dget_or d ''phase_execution_id'' PNone) (opt_str (rn_execution r)) in
        if matching \<and> event_type = PStr expected_type then Inr event
        else if matching \<and> \<not> hashable event_type then Inl TypeError
        else if matching \<and> event_type \<in> PStr ` {''worker_fault'', ''worker_faulted'', ''worker_stopped''} then Inl PhaseExecutionError
        else if matching \<and> expected_type = ''phase_started'' \<and> event_type = PStr ''phase_completed'' then Inl PhaseExecutionError
        else wait_one r expected_type events
    | _ \<Rightarrow> Inl AttributeError)"

definition waited :: "run \<Rightarrow> string \<Rightarrow> outcome \<Rightarrow> string \<Rightarrow> pyval result" where
  "waited r expected_type out w = wait_one r expected_type (out_events out w)"

definition actual_start_of :: "pyval result \<Rightarrow> int result" where
  "actual_start_of x = (case x of
      Inr (PDict d) \<Rightarrow> (case dget_or d ''actual_start_us'' PNone of
          PInt n \<Rightarrow> raise_if (n < 0) PhaseExecutionError (Inr n)
        | _ \<Rightarrow> Inl PhaseExecutionError)
    | _ \<Rightarrow> Inl PhaseExecutionError)"

definition observed_start_skew_us :: "pyval result list \<Rightarrow> int result" where
  "observed_start_skew_us starts =
     bind (mapM actual_start_of starts) (\<lambda>actual.
     raise_if (actual = []) PhaseExecutionError (Inr (Max (set actual) - Min (set actual))))"

definition max_start_skew :: "orch_config \<Rightarrow> run \<Rightarrow> int option result" where
  "max_start_skew C r =
     bind (bind (bind (program_root_id (oc_env C) (rn_program r)) (rv_describe (oc_view C))) plain_mapping) (\<lambda>m.
     case dget_or m ''max_start_skew_us'' PNone of
       PNone \<Rightarrow> Inr None
     | PInt n \<Rightarrow> raise_if (n \<le> 0) (ProgramError ''INVALID_MANIFEST'') (Inr (Some n))
     | _ \<Rightarrow> Inl (ProgramError ''INVALID_MANIFEST''))"

subsection \<open>Resuming a run\<close>

definition resume_disabling :: "orch_config \<Rightarrow> run_journal \<Rightarrow> int \<Rightarrow> run \<Rightarrow> outcome \<Rightarrow> run \<times> run_journal" where
  "resume_disabling C j now r out =
     (if \<not> all_ok (rn_workers r) (out_replies out) then (fault r PhaseExecutionError, j)
      else record_event C j now r [(''type'', PStr ''workers.disabled''), (''workers'', safe_results (rn_workers r) (out_replies out))]
        (\<lambda>_. begin_phase C r 0))"

definition resume_preparing :: "orch_config \<Rightarrow> run_journal \<Rightarrow> int \<Rightarrow> int \<Rightarrow> run \<Rightarrow> nat \<Rightarrow> outcome \<Rightarrow> run \<times> run_journal" where
  "resume_preparing C j now mono_us r k out =
     (if \<not> all_ok (rn_phase_workers r) (out_replies out) then (fault r PhaseExecutionError, j)
      else record_event C j now r (phase_event r k ''phase.prepared'' [(''workers'', safe_results (rn_phase_workers r) (out_replies out))])
        (\<lambda>_. let start_at_us = mono_us + oc_start_lead_us C in
           ask r (map (\<lambda>w. (w, StartPhase start_at_us)) (rn_phase_workers r)) (Scheduling k start_at_us)))"

definition start_timeout :: "orch_config \<Rightarrow> int \<Rightarrow> int \<Rightarrow> pyfloat result" where
  "start_timeout C start_at_us mono_us = bind (int_truediv (start_at_us - mono_us) 1000000) (\<lambda>lead.
     Inr (fadd (fmax (Fin 0) lead) (oc_timeout_margin_s C)))"

definition resume_scheduling :: "orch_config \<Rightarrow> run_journal \<Rightarrow> int \<Rightarrow> int \<Rightarrow> run \<Rightarrow> nat \<Rightarrow> int \<Rightarrow> outcome \<Rightarrow> run \<times> run_journal" where
  "resume_scheduling C j now mono_us r k start_at_us out =
     (if \<not> all_ok (rn_phase_workers r) (out_replies out) \<or> \<not> list_all (\<lambda>w. scheduled_ack r (out_replies out w)) (rn_phase_workers r)
      then (fault r PhaseExecutionError, j)
      else record_event C j now r (phase_event r k ''phase.scheduled''
          [(''start_at_monotonic_us'', PInt start_at_us), (''workers'', safe_results (rn_phase_workers r) (out_replies out))])
        (\<lambda>_. case start_timeout C start_at_us mono_us of
           Inl e \<Rightarrow> fault r e
         | Inr t \<Rightarrow> ask r (map (\<lambda>w. (w, NextEvent ''phase_started'' (the (rn_execution r)) t)) (rn_phase_workers r))
             (Starting k start_at_us)))"

definition phase_timeout :: "orch_config \<Rightarrow> pyval \<Rightarrow> pyfloat result" where
  "phase_timeout C phase =
     bind (bind (py_getitem phase ''duration_us'') py_int) (\<lambda>duration_us.
     bind (int_truediv duration_us 1000000) (\<lambda>d. Inr (fadd d (oc_timeout_margin_s C))))"

definition resume_starting :: "orch_config \<Rightarrow> run_journal \<Rightarrow> int \<Rightarrow> run \<Rightarrow> nat \<Rightarrow> int \<Rightarrow> outcome \<Rightarrow> run \<times> run_journal" where
  "resume_starting C j now r k start_at_us out =
     (let started = waited r ''phase_started'' out in
      if \<not> all_ok (rn_phase_workers r) started then (fault r PhaseExecutionError, j)
      else case bind (observed_start_skew_us (map started (rn_phase_workers r))) (\<lambda>skew.
          bind (max_start_skew C r) (\<lambda>limit. Inr (skew, limit))) of
        Inl e \<Rightarrow> (fault r e, j)
      | Inr (skew, limit) \<Rightarrow>
          record_event C j now r (phase_event r k ''phase.started'' [(''start_at_monotonic_us'', PInt start_at_us),
              (''observed_start_skew_us'', PInt skew), (''max_start_skew_us'', opt_int limit),
              (''workers'', safe_results (rn_phase_workers r) started)])
            (\<lambda>_. if (case limit of None \<Rightarrow> False | Some l \<Rightarrow> skew > l) then fault r PhaseExecutionError
               else case phase_timeout C (rn_phases r ! k) of
                 Inl e \<Rightarrow> fault r e
               | Inr t \<Rightarrow> ask r (map (\<lambda>w. (w, NextEvent ''phase_completed'' (the (rn_execution r)) t)) (rn_phase_workers r))
                   (Completing k)))"

definition resume_completing :: "orch_config \<Rightarrow> run_journal \<Rightarrow> int \<Rightarrow> run \<Rightarrow> nat \<Rightarrow> outcome \<Rightarrow> run \<times> run_journal" where
  "resume_completing C j now r k out =
     (let completed = waited r ''phase_completed'' out in
      if \<not> all_ok (rn_phase_workers r) completed then (fault r PhaseExecutionError, j)
      else record_event C j now r (phase_event r k ''phase.completed'' [(''workers'', safe_results (rn_phase_workers r) completed)])
        (\<lambda>_. begin_phase C r (Suc k)))"

definition resume_idling :: "orch_config \<Rightarrow> run_journal \<Rightarrow> int \<Rightarrow> run \<Rightarrow> outcome \<Rightarrow> run \<times> run_journal" where
  "resume_idling C j now r out =
     (if \<not> all_ok (rn_workers r) (out_replies out) then (fault r PhaseExecutionError, j)
      else record_event C j now r [(''type'', PStr ''run.completed''), (''phase_count'', PInt (int (length (rn_phases r)))),
          (''safe_idle'', safe_results (rn_workers r) (out_replies out))]
        (\<lambda>item. r\<lparr>rn_pc := Done (Inr \<lparr>rr_run_id = rn_id r, rr_status = ''completed'', rr_phase_count = length (rn_phases r),
           rr_program_sha256 = cp_sha256 (rn_program r), rr_terminal_event_seq = je_event_seq item\<rparr>)\<rparr>))"

definition resume_stopping :: "orch_config \<Rightarrow> run_journal \<Rightarrow> int \<Rightarrow> run \<Rightarrow> exn \<Rightarrow> outcome \<Rightarrow> run \<times> run_journal" where
  "resume_stopping C j now r e out =
     (r\<lparr>rn_pc := Done (Inl (if e = CancelledError then CancelledError else RunExecutionError (rn_id r) e))\<rparr>,
      snd (append_event (oc_env C) j (PStr (rn_id r)) (mkdict [(''type'', PStr ''run.faulted''), (''phase_id'', opt_str (rn_phase r)),
        (''phase_execution_id'', opt_str (rn_execution r)), (''error_type'', PStr (exn_name e)),
        (''safe_stop'', safe_results (rn_workers r) (out_replies out))]) now))"

definition resume :: "orch_config \<Rightarrow> run_journal \<Rightarrow> int \<Rightarrow> int \<Rightarrow> run \<Rightarrow> outcome \<Rightarrow> run \<times> run_journal" where
  "resume C j now mono_us r0 out =
     (let r = r0\<lparr>rn_log := rn_log r0 @ [Answered out]\<rparr> in
      if out_cancelled out then
        (case rn_pc r of
           Done x \<Rightarrow> (r0, j)
         | Stopping e \<Rightarrow> (r\<lparr>rn_pc := Done (Inl CancelledError)\<rparr>, j)
         | _ \<Rightarrow> (fault r CancelledError, j))
      else (case rn_pc r of
           Disabling \<Rightarrow> resume_disabling C j now r out
         | Preparing k \<Rightarrow> resume_preparing C j now mono_us r k out
         | Scheduling k t \<Rightarrow> resume_scheduling C j now mono_us r k t out
         | Starting k t \<Rightarrow> resume_starting C j now r k t out
         | Completing k \<Rightarrow> resume_completing C j now r k out
         | Idling \<Rightarrow> resume_idling C j now r out
         | Stopping e \<Rightarrow> resume_stopping C j now r e out
         | Done x \<Rightarrow> (r0, j)))"

section \<open>The orchestrator\<close>

record orchestrator =
  or_leases :: lease_manager
  or_journal :: run_journal
  or_active :: "string list"
  or_runs :: "run list"

definition start_orchestrator :: "run_journal \<Rightarrow> orchestrator" where
  "start_orchestrator j = \<lparr>or_leases = new_manager, or_journal = j, or_active = [], or_runs = []\<rparr>"

text \<open>Everything before the lease: the checked program, its locks, its workers and its phases.\<close>

definition admit :: "orch_config \<Rightarrow> run_journal \<Rightarrow> string \<Rightarrow> string \<Rightarrow> compiled_program
    \<Rightarrow> (compiled_program \<times> lock_requirements \<times> string list \<times> pyval list) result" where
  "admit C j run_id who program =
     bind (latest j (PStr run_id)) (\<lambda>previous.
     raise_if (previous \<noteq> None) RunIdReuseError
     (bind (preflight C who program) (\<lambda>checked.
      bind (lock_requirements_of C checked) (\<lambda>locks.
      bind (participant_worker_ids checked) (\<lambda>workers.
      raise_if (\<not> set workers \<subseteq> set (oc_workers C)) MissingWorkerError
      (bind (program_phases checked) (\<lambda>phases. Inr (checked, locks, workers, phases))))))))"

definition opened_event :: "orch_config \<Rightarrow> string \<Rightarrow> compiled_program \<Rightarrow> lease_receipt \<Rightarrow> pyval result" where
  "opened_event C who checked receipt =
     bind (program_root_id (oc_env C) checked) (\<lambda>root_id.
     bind (program_manifest_hash (oc_env C) checked) (\<lambda>mh.
     Inr (mkdict [(''type'', PStr ''run.opened''), (''identity_id'', PStr who), (''root_id'', PStr root_id), (''manifest_hash'', PStr mh),
       (''program_sha256'', PStr (cp_sha256 checked)), (''lease'', mkdict [(''leaves'', str_list (rc_leaves receipt)),
         (''resources'', str_list (rc_resources receipt)), (''safety_domains'', str_list (rc_safety_domains receipt))])])))"

text \<open>\<^verbatim>\<open>execute\<close> up to its first await; an exception leaves no lease behind.\<close>

definition open_execution :: "orch_config \<Rightarrow> orchestrator \<Rightarrow> string \<Rightarrow> string \<Rightarrow> compiled_program \<Rightarrow> int \<Rightarrow> int
    \<Rightarrow> unit result \<times> orchestrator" where
  "open_execution C S run_id who program lease_ns now =
     (if run_id \<in> set (or_active S) then (Inl RunAlreadyActiveError, S)
      else case admit C (or_journal S) run_id who program of
        Inl e \<Rightarrow> (Inl e, S)
      | Inr (checked, locks, workers, phases) \<Rightarrow>
          (case acquire (or_leases S) (PStr run_id) (strs (lk_leaves locks)) (strs (lk_resources locks))
              (strs (lk_safety_domains locks)) lease_ns of
             (Inl e, m) \<Rightarrow> (Inl e, S\<lparr>or_leases := m\<rparr>)
           | (Inr receipt, m) \<Rightarrow>
               (case bind (opened_event C who checked receipt) (\<lambda>event. Inr (append_event (oc_env C) (or_journal S) (PStr run_id) event now)) of
                  Inl e \<Rightarrow> (Inl e, S\<lparr>or_leases := snd (release m (PStr run_id))\<rparr>)
                | Inr (Inl e, j) \<Rightarrow> (Inl e, S\<lparr>or_leases := snd (release m (PStr run_id)), or_journal := j\<rparr>)
                | Inr (Inr item, j) \<Rightarrow>
                    (Inr (), S\<lparr>or_leases := m, or_journal := j, or_active := run_id # or_active S,
                       or_runs := or_runs S @ [\<lparr>rn_id = run_id, rn_program = checked, rn_phases = phases, rn_receipt = receipt,
                         rn_workers = workers, rn_phase_workers = [], rn_phase = None, rn_execution = None, rn_pc = Disabling,
                         rn_log = [Asked (map (\<lambda>w. (w, PrepareDisabled)) workers)]\<rparr>]\<rparr>))))"

definition is_done :: "run \<Rightarrow> bool" where
  "is_done r = (case rn_pc r of Done x \<Rightarrow> True | _ \<Rightarrow> False)"

text \<open>Resuming run \<open>i\<close>; when it returns or raises, its leases are released.\<close>

definition resume_execution :: "orch_config \<Rightarrow> orchestrator \<Rightarrow> nat \<Rightarrow> outcome \<Rightarrow> int \<Rightarrow> int \<Rightarrow> orchestrator" where
  "resume_execution C S i out now mono_us = (case resume C (or_journal S) now mono_us (or_runs S ! i) out of (r, j) \<Rightarrow>
     let S' = S\<lparr>or_journal := j, or_runs := (or_runs S)[i := r]\<rparr> in
     if is_done r then S'\<lparr>or_leases := snd (release (or_leases S) (PStr (rn_id r))),
       or_active := removeAll (rn_id r) (or_active S)\<rparr>
     else S')"

inductive orch_reachable :: "orch_config \<Rightarrow> orchestrator \<Rightarrow> bool" for C where
  orch_start: "wf_journal j \<Longrightarrow> orch_reachable C (start_orchestrator j)"
| orch_open: "orch_reachable C S \<Longrightarrow> orch_reachable C (snd (open_execution C S run_id who program lease_ns now))"
| orch_resume: "orch_reachable C S \<Longrightarrow> i < length (or_runs S) \<Longrightarrow> \<not> is_done (or_runs S ! i) \<Longrightarrow>
    orch_reachable C (resume_execution C S i out now mono_us)"

end
