(* ===== verification/RegistryGraph.thy ===== *)
theory RegistryGraph
  imports Registry
begin

text \<open>
  The control-node graph of a registry: what its validation accepts, that every recursive walk
  over an accepted graph ends within the given depth, and that the two ways the code follows role
  paths (resolving one path, enumerating all leaves) agree.
\<close>

section \<open>Validation decides acyclicity\<close>

definition edges :: "node_table \<Rightarrow> (string \<times> string) set" where
  "edges ns = {(a, b). \<exists>n ch. map_of ns a = Some n \<and> ch \<in> set (node_children n) \<and> b = child_node ch}"

definition children_exist :: "node_table \<Rightarrow> bool" where
  "children_exist ns \<longleftrightarrow> (\<forall>(i, n) \<in> set ns. \<forall>ch \<in> set (node_children n). map_of ns (child_node ch) \<noteq> None)"

lemma edgesI: "map_of ns a = Some n \<Longrightarrow> ch \<in> set (node_children n) \<Longrightarrow> (a, child_node ch) \<in> edges ns"
  by (auto simp: edges_def)

lemma edges_target: "children_exist ns \<Longrightarrow> (a, b) \<in> edges ns \<Longrightarrow> b \<in> fst ` set ns"
  by (fastforce simp: edges_def children_exist_def dest: map_of_SomeD simp: map_of_eq_None_iff)

lemma child_present:
  "children_exist ns \<Longrightarrow> map_of ns a = Some n \<Longrightarrow> ch \<in> set (node_children n) \<Longrightarrow> child_node ch \<in> fst ` set ns"
  using edges_target edgesI by metis

lemma edges_source: "(a, b) \<in> edges ns \<Longrightarrow> a \<in> fst ` set ns"
  by (force simp: edges_def dest: map_of_SomeD)

lemma finite_edges: "finite (edges ns)"
proof -
  have "edges ns \<subseteq> (\<Union>(i, n) \<in> set ns. \<Union>ch \<in> set (node_children n). {(i, child_node ch)})"
    by (fastforce simp: edges_def dest: map_of_SomeD)
  then show ?thesis by (rule finite_subset) auto
qed

lemma check_children_iff: "check_children ns = Inr () \<longleftrightarrow> children_exist ns"
  by (auto simp: check_children_def children_exist_def forM_Inr_iff)

lemma check_children_error: "check_children ns = Inl e \<Longrightarrow> e = RegistryError"
proof -
  assume "check_children ns = Inl e"
  then obtain i n where "forM (\<lambda>ch. raise_if (map_of ns (child_node ch) = None) RegistryError (Inr ())) (node_children n) = Inl e"
    unfolding check_children_def using forM_Inl by fast
  from forM_Inl [OF this] show ?thesis by (auto simp: raise_if_eq_Inl)
qed

text \<open>Nodes from which no infinite descent starts.\<close>

definition grounded :: "node_table \<Rightarrow> string set" where
  "grounded ns = {i. Wellfounded.accp (\<lambda>b a. (a, b) \<in> edges ns) i}"

lemma groundedI: "(\<And>j. (i, j) \<in> edges ns \<Longrightarrow> j \<in> grounded ns) \<Longrightarrow> i \<in> grounded ns"
  by (auto simp: grounded_def intro: accp.intros)

lemma visit_sound:
  "visit ns visiting visited i = Inr vis \<Longrightarrow> set visited \<subseteq> grounded ns \<Longrightarrow>
     set visited \<subseteq> set vis \<and> i \<in> set vis \<and> set vis \<subseteq> grounded ns"
proof (induction ns visiting visited i arbitrary: vis rule: visit.induct)
  case (1 ns visiting visited i)
  show ?case
  proof (cases "i \<in> set visiting \<or> i \<in> set visited \<or> map_of ns i = None")
    case True
    with 1(2,3) show ?thesis by (auto simp: visit.simps [of ns visiting visited i] split: if_splits)
  next
    case False
    then obtain n where n: "map_of ns i = Some n" by auto
    then obtain vis' where v: "foldM (\<lambda>vis ch. visit ns (visiting @ [i]) vis (child_node ch)) visited (node_children n) = Inr vis'"
      and vis: "vis = vis' @ [i]"
      using 1(2) False by (auto simp: visit.simps [of ns visiting visited i])
    have fold: "foldM (\<lambda>vis ch. visit ns (visiting @ [i]) vis (child_node ch)) w chs = Inr w' \<Longrightarrow>
        set chs \<subseteq> set (node_children n) \<Longrightarrow> set w \<subseteq> grounded ns \<Longrightarrow>
        set w \<subseteq> set w' \<and> child_node ` set chs \<subseteq> set w' \<and> set w' \<subseteq> grounded ns" for w w' chs
    proof (induction chs arbitrary: w)
      case (Cons ch chs)
      then obtain u where u: "visit ns (visiting @ [i]) w (child_node ch) = Inr u"
        "foldM (\<lambda>vis ch. visit ns (visiting @ [i]) vis (child_node ch)) u chs = Inr w'" by auto
      have "set w \<subseteq> set u \<and> child_node ch \<in> set u \<and> set u \<subseteq> grounded ns"
        by (rule 1(1) [OF _ _ n, of ch w u]) (use False Cons.prems u in auto)
      with Cons.IH [OF u(2)] Cons.prems show ?case by auto
    qed simp
    from fold [OF v] 1(3) have f: "set visited \<subseteq> set vis'" "child_node ` set (node_children n) \<subseteq> set vis'" "set vis' \<subseteq> grounded ns"
      by auto
    have "i \<in> grounded ns"
      by (rule groundedI) (use f n in \<open>auto simp: edges_def\<close>)
    with f vis show ?thesis by auto
  qed
qed

lemma visit_complete:
  "children_exist ns \<Longrightarrow> i \<in> fst ` set ns \<Longrightarrow> acyclic (edges ns) \<Longrightarrow>
   (\<And>v. v \<in> set visiting \<Longrightarrow> (v, i) \<in> (edges ns)\<^sup>+) \<Longrightarrow> \<exists>vis. visit ns visiting visited i = Inr vis"
proof (induction ns visiting visited i rule: visit.induct)
  case (1 ns visiting visited i)
  have ni: "i \<notin> set visiting" using 1(4,5) by (auto simp: acyclic_def)
  obtain n where n: "map_of ns i = Some n" using 1(3) by (metis map_of_eq_None_iff not_None_eq)
  have path: "(v, child_node ch) \<in> (edges ns)\<^sup>+" if "ch \<in> set (node_children n)" "v \<in> set (visiting @ [i])" for v ch
    using 1(5) [of v] that edgesI [OF n that(1)] by (auto intro: trancl_into_trancl)
  have fold: "set chs \<subseteq> set (node_children n) \<Longrightarrow>
      \<exists>w'. foldM (\<lambda>vis ch. visit ns (visiting @ [i]) vis (child_node ch)) w chs = Inr w'"
    if "i \<notin> set visited" for w chs
  proof (induction chs arbitrary: w)
    case (Cons ch chs)
    have "\<exists>u. visit ns (visiting @ [i]) w (child_node ch) = Inr u"
      by (rule 1(1) [OF ni that n]) (use Cons.prems path 1(2,4) child_present [OF 1(2) n] in auto)
    with Cons show ?case by fastforce
  qed simp
  show ?case
  proof (cases "i \<in> set visited")
    case False
    from fold [OF this, of "node_children n" visited] n ni False show ?thesis
      by (auto simp: visit.simps [of ns visiting visited i])
  qed (use ni in \<open>simp add: visit.simps [of ns visiting visited i]\<close>)
qed

text \<open>A failing search reports a cycle, never a missing node.\<close>

lemma visit_error:
  "children_exist ns \<Longrightarrow> i \<in> fst ` set ns \<Longrightarrow> visit ns visiting visited i = Inl e \<Longrightarrow> e = RegistryError"
proof (induction ns visiting visited i rule: visit.induct)
  case (1 ns visiting visited i)
  obtain n where n: "map_of ns i = Some n" using 1(3) by (metis map_of_eq_None_iff not_None_eq)
  show ?case
  proof (cases "i \<in> set visiting \<or> i \<in> set visited")
    case False
    have fold: "foldM (\<lambda>vis ch. visit ns (visiting @ [i]) vis (child_node ch)) w chs = Inl e \<Longrightarrow>
        set chs \<subseteq> set (node_children n) \<Longrightarrow> e = RegistryError" for w chs
    proof (induction chs arbitrary: w)
      case (Cons ch chs)
      have "visit ns (visiting @ [i]) w (child_node ch) = Inl e \<Longrightarrow> e = RegistryError"
        by (rule 1(1) [OF _ _ n]) (use False Cons.prems 1(2) child_present [OF 1(2) n] in auto)
      with Cons show ?case by (auto simp: bind_eq_Inl)
    qed simp
    from 1(4) False n fold show ?thesis
      by (auto simp: visit.simps [of ns visiting visited i] bind_eq_Inl)
  qed (use 1(4) in \<open>auto simp: visit.simps [of ns visiting visited i] split: if_splits\<close>)
qed

lemma visit_all:
  assumes "children_exist ns"
  shows "(case foldM (\<lambda>visited i. visit ns [] visited i) [] (sorted_set (map fst ns)) of
      Inl e \<Rightarrow> e = RegistryError \<and> \<not> acyclic (edges ns)
    | Inr vis \<Rightarrow> acyclic (edges ns))"
proof -
  have fail: "foldM (\<lambda>visited i. visit ns [] visited i) w is = Inl e \<Longrightarrow> set is \<subseteq> fst ` set ns \<Longrightarrow>
      e = RegistryError \<and> \<not> acyclic (edges ns)" for w "is" e
  proof (induction "is" arbitrary: w)
    case (Cons i "is")
    have "visit ns [] w i = Inl e \<Longrightarrow> e = RegistryError \<and> \<not> acyclic (edges ns)"
      using visit_error [OF assms, of i] visit_complete [OF assms, of i "[]" w] Cons.prems(2) by fastforce
    with Cons show ?case by (auto simp: bind_eq_Inl)
  qed simp
  have succ: "foldM (\<lambda>visited i. visit ns [] visited i) w is = Inr w' \<Longrightarrow> set w \<subseteq> grounded ns \<Longrightarrow>
      set w \<subseteq> set w' \<and> set is \<subseteq> set w' \<and> set w' \<subseteq> grounded ns" for w w' "is"
  proof (induction "is" arbitrary: w)
    case (Cons i "is")
    then obtain u where u: "visit ns [] w i = Inr u" "foldM (\<lambda>visited i. visit ns [] visited i) u is = Inr w'" by auto
    have "set w \<subseteq> set u \<and> i \<in> set u \<and> set u \<subseteq> grounded ns" using visit_sound [OF u(1)] Cons.prems(2) by simp
    with Cons.IH [OF u(2)] show ?case by auto
  qed simp
  have acyc: "acyclic (edges ns)" if "fst ` set ns \<subseteq> grounded ns"
  proof -
    have "j \<in> grounded ns" for j
      using that edges_source by (cases "j \<in> fst ` set ns") (auto intro: groundedI)
    then have "wfp (\<lambda>b a. (a, b) \<in> edges ns)" by (auto simp: grounded_def intro: accp_wfpI)
    then have "wf ((edges ns)\<inverse>)" by (simp add: wfp_def converse_def)
    then show ?thesis using wf_acyclic acyclic_converse by blast
  qed
  let ?r = "foldM (\<lambda>visited i. visit ns [] visited i) [] (sorted_set (map fst ns))"
  show ?thesis
  proof (cases ?r)
    case (Inl e)
    with fail [OF Inl] show ?thesis by simp
  next
    case (Inr vis)
    from succ [OF this] have "fst ` set ns \<subseteq> grounded ns" by auto
    with Inr acyc show ?thesis by simp
  qed
qed

text \<open>
  C24. Graph validation is exact. \<^verbatim>\<open>_validate_graph\<close> always terminates; it succeeds iff every child
  reference names a node of the registry and the control-node graph has no cycle, and otherwise
  raises \<^verbatim>\<open>RegistryError\<close>.
\<close>

theorem graph_validation_exact:
  "validate_graph ns = (if children_exist ns \<and> acyclic (edges ns) then Inr () else Inl RegistryError)"
proof (cases "check_children ns")
  case (Inl e)
  then show ?thesis using check_children_error check_children_iff [of ns] by (auto simp: validate_graph_def)
next
  case (Inr u)
  then have c: "children_exist ns" by (simp add: check_children_iff)
  with visit_all [OF c] Inr show ?thesis
    by (cases "foldM (\<lambda>visited i. visit ns [] visited i) [] (sorted_set (map fst ns))") (auto simp: validate_graph_def)
qed

lemma validated_graph: "validate_graph ns = Inr () \<longleftrightarrow> children_exist ns \<and> acyclic (edges ns)"
  unfolding validate_graph_def
  using visit_all [of ns] check_children_iff [of ns]
  by (cases "check_children ns"; cases "foldM (\<lambda>visited i. visit ns [] visited i) [] (sorted_set (map fst ns))") auto

section \<open>Recursion over an accepted graph\<close>

definition below :: "node_table \<Rightarrow> string \<Rightarrow> string set" where
  "below ns i = {j. (i, j) \<in> (edges ns)\<^sup>*}"

lemma below_subset: "children_exist ns \<Longrightarrow> i \<in> fst ` set ns \<Longrightarrow> below ns i \<subseteq> fst ` set ns"
  by (auto simp: below_def elim: rtranclE dest: edges_target)

lemma below_child:
  assumes "children_exist ns" "acyclic (edges ns)" "map_of ns i = Some n" "ch \<in> set (node_children n)"
  shows "card (below ns (child_node ch)) < card (below ns i)"
proof (rule psubset_card_mono)
  have i: "i \<in> fst ` set ns" using assms(3) by (force dest: map_of_SomeD)
  show "finite (below ns i)" by (rule finite_subset [OF below_subset [OF assms(1) i]]) simp
  have e: "(i, child_node ch) \<in> edges ns" using edgesI assms(3,4) .
  have "i \<notin> below ns (child_node ch)"
    using assms(2) e by (auto simp: below_def acyclic_def dest: rtrancl_into_trancl2)
  moreover have "below ns (child_node ch) \<subseteq> below ns i"
    using e by (auto simp: below_def intro: converse_rtrancl_into_rtrancl)
  ultimately show "below ns (child_node ch) \<subset> below ns i" by (auto simp: below_def)
qed

lemma below_limit:
  assumes "children_exist ns" "i \<in> fst ` set ns"
  shows "card (below ns i) \<le> depth_limit ns"
proof -
  have "card (below ns i) \<le> card (fst ` set ns)" by (rule card_mono) (use below_subset [OF assms] in auto)
  also have "\<dots> \<le> card (set ns)" by (rule card_image_le) simp
  also have "\<dots> \<le> length ns" by (rule card_length)
  finally show ?thesis by (simp add: depth_limit_def)
qed

lemma below_pos: "children_exist ns \<Longrightarrow> i \<in> fst ` set ns \<Longrightarrow> 0 < card (below ns i)"
  using below_subset [of ns i] by (auto simp: card_gt_0_iff below_def intro: finite_subset)

text \<open>Induction along the graph with a depth that is still large enough at the children.\<close>

lemma depth_induct [consumes 3, case_names node]:
  assumes ns: "validate_graph ns = Inr ()" and "i \<in> fst ` set ns" "card (below ns i) \<le> fuel"
    and step: "\<And>i n fuel. map_of ns i = Some n \<Longrightarrow>
      (\<And>ch. ch \<in> set (node_children n) \<Longrightarrow> P fuel (child_node ch)) \<Longrightarrow> P (Suc fuel) i"
  shows "P fuel i"
  using assms(2,3)
proof (induction fuel arbitrary: i)
  case 0
  then show ?case using below_pos ns validated_graph by fastforce
next
  case (Suc fuel)
  obtain n where n: "map_of ns i = Some n" using Suc.prems(1) by (metis map_of_eq_None_iff not_None_eq)
  have "P fuel (child_node ch)" if "ch \<in> set (node_children n)" for ch
    by (rule Suc.IH) (use ns n that Suc.prems(2) child_present below_child [of ns i n ch] in \<open>auto simp: validated_graph\<close>)
  then show ?case using step n by blast
qed

section \<open>Role paths\<close>

text \<open>
  The abstract meaning of a role path: the roles from a node down to a physical node, then one of
  its groups, and whether an alias is passed on the way.
\<close>

inductive route :: "node_table \<Rightarrow> string \<Rightarrow> string list \<Rightarrow> bool \<Rightarrow> physical_node \<Rightarrow> group_spec \<Rightarrow> bool" for ns where
  route_leaf: "route ns i [group_id g] False p g" if "map_of ns i = Some (Physical p)" "g \<in> set (groups p)"
| route_role: "route ns i (child_role ch # segments) (al \<or> child_alias ch) p g"
    if "map_of ns i = Some (Composite c)" "ch \<in> set (children c)" "route ns (child_node ch) segments al p g"

inductive_simps route_Nil [simp]: "route ns i [] al p g"
inductive_cases route_ConsE: "route ns i (r # segments) al p g"

lemma route_segments: "route ns i segments al p g \<Longrightarrow> segments \<noteq> []"
  by (induction rule: route.induct) auto

lemma leaf_paths_total:
  assumes "validate_graph ns = Inr ()" "i \<in> fst ` set ns" "card (below ns i) \<le> fuel"
  shows "\<forall>prefix al. \<exists>ls. leaf_paths fuel ns i prefix al = Inr ls"
  using assms
proof (induction rule: depth_induct)
  case (node i n fuel)
  show ?case
  proof (cases n)
    case (Composite c)
    have "\<exists>ls. mapM (\<lambda>ch. leaf_paths fuel ns (child_node ch) (prefix @ [child_role ch]) (al \<or> child_alias ch)) (children c) = Inr ls"
      for prefix al
      by (rule mapM_total) (use node(2) Composite in simp)
    then show ?thesis using node(1) Composite by (fastforce simp: node_index_def)
  qed (use node(1) in \<open>simp add: node_index_def\<close>)
qed

text \<open>What \<^verbatim>\<open>_leaf_paths\<close> lists are exactly the routes.\<close>

lemma leaf_paths_routes:
  "leaf_paths fuel ns i prefix aliased = Inr ls \<Longrightarrow>
     ((a, b), path, al) \<in> set ls \<longleftrightarrow>
       (\<exists>segments al' p g. route ns i segments al' p g \<and> a = node_id p \<and> b = group_id g \<and>
          path = py_join (CHR ''.'') (prefix @ segments) \<and> al = (aliased \<or> al'))"
proof (induction fuel arbitrary: i prefix aliased ls a b path al)
  case (Suc fuel)
  from Suc.prems obtain n where n: "map_of ns i = Some n"
    by (auto simp: node_index_def split: option.splits)
  show ?case
  proof (cases n)
    case (Physical p)
    have r: "route ns i segs al' p' g \<longleftrightarrow> (\<not> al' \<and> p' = p \<and> g \<in> set (groups p) \<and> segs = [group_id g])" for segs al' p' g
      using n Physical by (auto elim: route.cases intro: route_leaf)
    have ls: "ls = map (\<lambda>g. ((node_id p, group_id g), py_join (CHR ''.'') (prefix @ [group_id g]), aliased)) (groups p)"
      using Suc.prems n Physical by (simp add: node_index_def)
    have "((a, b), path, al) \<in> set ls \<longleftrightarrow> (\<exists>g \<in> set (groups p). a = node_id p \<and> b = group_id g \<and>
        path = py_join (CHR ''.'') (prefix @ [group_id g]) \<and> al = aliased)"
      unfolding ls by auto
    also have "\<dots> \<longleftrightarrow> (\<exists>segments al' p g. route ns i segments al' p g \<and> a = node_id p \<and> b = group_id g \<and>
        path = py_join (CHR ''.'') (prefix @ segments) \<and> al = (aliased \<or> al'))"
      unfolding r by blast
    finally show ?thesis .
  next
    case (Composite c)
    then obtain lss where m: "mapM (\<lambda>ch. leaf_paths fuel ns (child_node ch) (prefix @ [child_role ch]) (aliased \<or> child_alias ch))
        (children c) = Inr lss" and ls: "ls = concat lss"
      using Suc.prems n by (auto simp: node_index_def)
    have r: "route ns i segs al' p g \<longleftrightarrow> (\<exists>ch \<in> set (children c). \<exists>segs' al''. segs = child_role ch # segs' \<and>
        al' = (al'' \<or> child_alias ch) \<and> route ns (child_node ch) segs' al'' p g)" for segs al' p g
    proof
      assume "route ns i segs al' p g"
      then show "\<exists>ch \<in> set (children c). \<exists>segs' al''. segs = child_role ch # segs' \<and>
          al' = (al'' \<or> child_alias ch) \<and> route ns (child_node ch) segs' al'' p g"
        by cases (use n Composite in auto)
    qed (use n Composite in \<open>auto intro: route_role\<close>)
    have step: "x \<in> set ls \<longleftrightarrow> (\<exists>ch \<in> set (children c). \<exists>l. leaf_paths fuel ns (child_node ch) (prefix @ [child_role ch])
        (aliased \<or> child_alias ch) = Inr l \<and> x \<in> set l)" for x
    proof -
      have "x \<in> set ls \<longleftrightarrow> (\<exists>l. l \<in> set lss \<and> x \<in> set l)" by (auto simp: ls)
      then show ?thesis unfolding set_mapM [OF m] by blast
    qed
    have here: "(\<exists>l. leaf_paths fuel ns (child_node ch) (prefix @ [child_role ch]) (aliased \<or> child_alias ch) = Inr l \<and>
        ((a, b), path, al) \<in> set l) \<longleftrightarrow> (\<exists>segs al' p g. route ns (child_node ch) segs al' p g \<and>
        a = node_id p \<and> b = group_id g \<and> path = py_join (CHR ''.'') ((prefix @ [child_role ch]) @ segs) \<and>
        al = ((aliased \<or> child_alias ch) \<or> al'))" (is "_ \<longleftrightarrow> ?Q")
      if ch: "ch \<in> set (children c)" for ch
    proof -
      obtain l where l: "leaf_paths fuel ns (child_node ch) (prefix @ [child_role ch]) (aliased \<or> child_alias ch) = Inr l"
        using mapM_InrD [OF m ch] by blast
      from Suc.IH [OF l] have "((a, b), path, al) \<in> set l \<longleftrightarrow> ?Q" .
      with l show ?thesis by simp
    qed
    have "((a, b), path, al) \<in> set ls \<longleftrightarrow> (\<exists>ch \<in> set (children c). \<exists>segs al' p g. route ns (child_node ch) segs al' p g \<and>
        a = node_id p \<and> b = group_id g \<and> path = py_join (CHR ''.'') ((prefix @ [child_role ch]) @ segs) \<and>
        al = ((aliased \<or> child_alias ch) \<or> al'))"
      unfolding step by (rule bex_cong [OF refl]) (rule here)
    also have "\<dots> \<longleftrightarrow> (\<exists>ch \<in> set (children c). \<exists>segs al'' p g. route ns (child_node ch) segs al'' p g \<and>
        a = node_id p \<and> b = group_id g \<and> path = py_join (CHR ''.'') (prefix @ (child_role ch # segs)) \<and>
        al = (aliased \<or> (al'' \<or> child_alias ch)))"
      by (simp only: append_assoc append_Cons append_Nil disj_assoc disj_comms)
    also have "\<dots> \<longleftrightarrow> (\<exists>segments al' p g. route ns i segments al' p g \<and> a = node_id p \<and> b = group_id g \<and>
          path = py_join (CHR ''.'') (prefix @ segments) \<and> al = (aliased \<or> al'))"
      unfolding r by blast
    finally show ?thesis .
  qed
qed simp

definition wf_table :: "node_table \<Rightarrow> bool" where
  "wf_table ns \<longleftrightarrow> distinct (map fst ns) \<and> (\<forall>(i, n) \<in> set ns. wf_node n \<and> node_id (common n) = i)"

lemma wf_tableD: "wf_table ns \<Longrightarrow> map_of ns i = Some n \<Longrightarrow> wf_node n \<and> node_id (common n) = i"
  by (fastforce simp: wf_table_def dest: map_of_SomeD)

lemma find_distinct: "distinct (map f xs) \<Longrightarrow> find (\<lambda>x. f x = k) xs = Some x \<longleftrightarrow> x \<in> set xs \<and> f x = k"
  by (induction xs) auto

lemma child_iff: "distinct (map child_role (children c)) \<Longrightarrow> child c r = Inr ch \<longleftrightarrow> ch \<in> set (children c) \<and> child_role ch = r"
  using find_distinct [of child_role "children c" r ch] by (auto simp: child_def split: option.splits)

lemma group_iff: "distinct (map group_id (groups p)) \<Longrightarrow> group p i = Inr g \<longleftrightarrow> g \<in> set (groups p) \<and> group_id g = i"
  using find_distinct [of group_id "groups p" i g] by (auto simp: group_def split: option.splits)

lemma node_iff: "node R i = Inr n \<longleftrightarrow> map_of (nodes R) i = Some n"
  by (auto simp: node_def node_index_def split: option.splits)

lemma walk_route:
  assumes "wf_table (nodes R)"
  shows "map_of (nodes R) i = Some n \<Longrightarrow>
    (\<exists>rest. walk_roles R n segs = Inr (p, rest) \<and> length rest = 1 \<and> group p (hd rest) = Inr g) \<longleftrightarrow>
    (\<exists>al. route (nodes R) i segs al p g)"
proof (induction segs arbitrary: i n)
  case Nil
  then show ?case by (cases n) auto
next
  case (Cons s segs)
  note wf = wf_tableD [OF assms Cons.prems]
  show ?case
  proof (cases n)
    case (Physical q)
    then have d: "distinct (map group_id (groups q))" using wf by (simp add: wf_node_def)
    have "(\<exists>al. route (nodes R) i (s # segs) al p g) \<longleftrightarrow> p = q \<and> segs = [] \<and> s = group_id g \<and> g \<in> set (groups q)"
      using Cons.prems Physical by (auto elim: route.cases intro: route_leaf)
    then show ?thesis using Physical group_iff [OF d] by auto
  next
    case (Composite c)
    then have d: "distinct (map child_role (children c))" using wf by (simp add: wf_node_def)
    have "(\<exists>al. route (nodes R) i (s # segs) al p g) \<longleftrightarrow>
        (\<exists>ch \<in> set (children c). child_role ch = s \<and> (\<exists>al. route (nodes R) (child_node ch) segs al p g))"
      using Cons.prems Composite by (auto elim!: route_ConsE intro: route_role)
    also have "\<dots> \<longleftrightarrow> (\<exists>ch n'. child c s = Inr ch \<and> node R (child_node ch) = Inr n' \<and>
        (\<exists>rest. walk_roles R n' segs = Inr (p, rest) \<and> length rest = 1 \<and> group p (hd rest) = Inr g))" (is "?A \<longleftrightarrow> ?B")
    proof
      assume ?A
      then obtain ch al where ch: "ch \<in> set (children c)" "child_role ch = s" "route (nodes R) (child_node ch) segs al p g" by blast
      then obtain n' where n': "map_of (nodes R) (child_node ch) = Some n'" by (auto elim: route.cases)
      with Cons.IH [OF n'] ch child_iff [OF d] show ?B by (auto simp: node_iff)
    next
      assume ?B
      then obtain ch n' where ch: "ch \<in> set (children c)" "child_role ch = s" "map_of (nodes R) (child_node ch) = Some n'"
        "\<exists>rest. walk_roles R n' segs = Inr (p, rest) \<and> length rest = 1 \<and> group p (hd rest) = Inr g"
        unfolding node_iff child_iff [OF d] by blast
      with Cons.IH [OF ch(3)] show ?A by blast
    qed
    finally show ?thesis using Composite by auto
  qed
qed

lemma route_identifiers:
  assumes "wf_table ns" "route ns i segs al p g"
  shows "\<forall>s \<in> set segs. is_identifier s"
  using assms(2)
proof (induction rule: route.induct)
  case (route_leaf i p g)
  then show ?case using wf_tableD [OF assms(1) route_leaf(1)] by (auto simp: wf_node_def wf_group_def list_all_iff)
next
  case (route_role i c ch segs al p g)
  then show ?case using wf_tableD [OF assms(1) route_role(1)] by (auto simp: wf_node_def)
qed

lemma py_split_snoc: "py_split c (s @ [c]) = py_split c s @ [[]]"
  by (induction s) (auto split: list.splits)

lemma split_no_empty:
  assumes "\<forall>s \<in> set (py_split (CHR ''.'') path). s \<noteq> []"
  shows "path \<noteq> []" "\<not> py_startswith path ''.''" "\<not> py_endswith path ''.''"
proof -
  show "path \<noteq> []" using assms by auto
  show "\<not> py_startswith path ''.''" using assms by (cases path) auto
  show "\<not> py_endswith path ''.''"
  proof
    assume "py_endswith path ''.''"
    then obtain q where "path = q @ ''.''" by (cases "rev path") (auto simp: py_endswith_def)
    then show False using assms py_split_snoc [of "CHR ''.''" q] by simp
  qed
qed

lemma resolve_group_routes:
  assumes "wf_table (nodes R)"
  shows "resolve_group R i path = Inr rg \<longleftrightarrow>
    (\<exists>segs al p g. route (nodes R) i segs al p g \<and> path = py_join (CHR ''.'') segs \<and>
      rg = \<lparr>root_node_id = i, role_path = path, physical_node_id = node_id p, resolved_group_id = group_id g, resolved_spec = g\<rparr>)"
    (is "?L \<longleftrightarrow> ?R")
proof
  assume ?L
  then obtain n p rest g where *: "\<forall>s \<in> set (py_split (CHR ''.'') path). s \<noteq> []" "map_of (nodes R) i = Some n"
    "walk_roles R n (py_split (CHR ''.'') path) = Inr (p, rest)" "length rest = 1" "group p (hd rest) = Inr g"
    "rg = \<lparr>root_node_id = i, role_path = path, physical_node_id = node_id p, resolved_group_id = hd rest, resolved_spec = g\<rparr>"
    by (auto simp: resolve_group_def Let_def node_iff split: prod.splits)
  then obtain al where r: "route (nodes R) i (py_split (CHR ''.'') path) al p g" using walk_route [OF assms *(2)] by blast
  have "hd rest = group_id g" using *(5) by (auto simp: group_def find_Some_iff split: option.splits)
  with r *(6) py_join_split [of "CHR ''.''" path] show ?R by metis
next
  assume ?R
  then obtain segs al p g where *: "route (nodes R) i segs al p g" "path = py_join (CHR ''.'') segs"
    "rg = \<lparr>root_node_id = i, role_path = path, physical_node_id = node_id p, resolved_group_id = group_id g, resolved_spec = g\<rparr>"
    by blast
  have id: "s \<noteq> [] \<and> CHR ''.'' \<notin> set s" if "s \<in> set segs" for s
    using route_identifiers [OF assms *(1)] identifier_no_dot that by blast
  have split: "py_split (CHR ''.'') path = segs"
    unfolding *(2) by (rule py_split_join) (use id route_segments [OF *(1)] in auto)
  obtain n where n: "map_of (nodes R) i = Some n" using *(1) by (auto elim: route.cases)
  from walk_route [OF assms n] *(1) obtain rest where w: "walk_roles R n segs = Inr (p, rest)" "length rest = 1" "group p (hd rest) = Inr g"
    by blast
  have "hd rest = group_id g" using w(3) by (auto simp: group_def find_Some_iff split: option.splits)
  then show ?L using split_no_empty [of path] id w n *(3) by (auto simp: resolve_group_def Let_def split node_iff)
qed

end
