(* ===== verification/RegistryLoad.thy ===== *)
theory RegistryLoad
  imports RegistryGraph
begin

text \<open>
  What a loaded registry guarantees: well-formed nodes under their own names, an acyclic graph,
  unambiguous leaves, identities whose scopes exist, and manifests that are the same whether they
  come from the cache or are computed afresh, and that reveal nothing of a connection.
\<close>

section \<open>Parsed nodes are well-formed\<close>

named_theorems parsed \<open>the class invariant of a parsed value\<close>

lemma as_registry_error_Inr [simp]: "as_registry_error r = Inr x \<longleftrightarrow> r = Inr x"
  by (simp add: as_registry_error_def)

lemma parse_axis_wf [parsed]: "parse_axis raw = Inr a \<Longrightarrow> wf_axis a"
  using check_axis_wf by (auto simp: parse_axis_def AxisSpec_def Let_def)

lemma parse_group_wf [parsed]:
  assumes "parse_group raw = Inr g"
  shows "wf_group g"
proof -
  obtain table as vs where "mapM parse_axis vs = Inr as" "axes g = as" "check_group g = Inr ()"
    using assms by (auto simp: parse_group_def ActuatorGroupSpec_def Let_def)
  moreover from this(1) have "list_all wf_axis as"
    using set_mapM parse_axis_wf by (fastforce simp: list_all_iff)
  ultimately show ?thesis using check_group_wf by simp
qed

lemma parse_watchdog_safe [parsed]: "parse_watchdog raw = Inr w \<Longrightarrow> unattended_operation_allowed w \<Longrightarrow> worker_crash_safe w"
  using check_watchdog_safe by (auto simp: parse_watchdog_def WatchdogSpec_def Let_def)

lemma parse_physical_wf [parsed]:
  assumes "parse_physical E table = Inr n"
  shows "wf_node (Physical n)" "watchdog n \<noteq> None"
proof -
  obtain gs vs w wraw n' where *: "mapM parse_group vs = Inr gs" "parse_watchdog wraw = Inr w" "check_physical n' = Inr ()"
    "groups n' = gs" "watchdog n' = Some w" "n = n'\<lparr>connection := freeze_value E (connection n')\<rparr>"
    using assms unfolding parse_physical_def PhysicalNode_def bind_eq_Inr as_registry_error_Inr
    by (elim exE conjE) (simp add: PhysicalNode_def)
  from *(1) have "list_all wf_group gs" using set_mapM parse_group_wf by (fastforce simp: list_all_iff)
  with * parse_watchdog_safe [OF *(2)] show "wf_node (Physical n)" "watchdog n \<noteq> None"
    by (auto simp: wf_node_def check_physical_def require_unique_iff is_identifier_def node_common.defs)
qed

lemma parse_child_wf [parsed]: "parse_child raw = Inr ch \<Longrightarrow> is_identifier (child_role ch)"
  by (auto simp: parse_child_def ChildRef_def is_identifier_def)

lemma parse_composite_wf [parsed]:
  assumes "parse_composite table = Inr n"
  shows "wf_node (Composite n)"
proof -
  obtain vs n' where *: "CompositeNode n' = Inr n" "mapM parse_child vs = Inr (children n')"
    using assms unfolding parse_composite_def bind_eq_Inr as_registry_error_Inr
    by (elim exE conjE) (rule that, assumption, subst composite_node.select_convs, assumption)
  from *(2) have "\<forall>ch \<in> set (children n'). is_identifier (child_role ch)" using set_mapM parse_child_wf by fastforce
  with *(1) show ?thesis
    by (auto simp: CompositeNode_def wf_node_def check_composite_def require_unique_iff is_identifier_def node_common.defs)
qed

lemma parse_node_wf [parsed]: "parse_node E path = Inr n \<Longrightarrow> wf_node n"
  using parse_physical_wf parse_composite_wf by (auto simp: parse_node_def split: if_splits)

lemma add_node_wf: "add_node E ns path = Inr ns' \<Longrightarrow> wf_table ns \<Longrightarrow> wf_table ns'"
  using parse_node_wf by (auto simp: add_node_def Let_def wf_table_def map_of_eq_None_iff)

lemma added_nodes_wf: "foldM (add_node E) [] fs = Inr ns \<Longrightarrow> wf_table ns"
  by (erule foldM_invariant [where P = wf_table]) (auto simp: wf_table_def [of "[]"] intro: add_node_wf)

section \<open>Manifests\<close>

text \<open>The uncached manifest.\<close>

fun manifest_spec :: "nat \<Rightarrow> pyenv \<Rightarrow> registry \<Rightarrow> string \<Rightarrow> pydict result" where
  "manifest_spec 0 E R i = Inl RuntimeError"
| "manifest_spec (Suc fuel) E R i =
     bind (case map_of (nodes R) i of
        None \<Rightarrow> Inl RegistryError
      | Some (Physical p) \<Rightarrow> Inr (physical_body R p)
      | Some (Composite c) \<Rightarrow>
          bind (mapM (\<lambda>ch. bind (manifest_spec fuel E R (child_node ch)) (\<lambda>m.
              bind (dindex m ''manifest_hash'') (\<lambda>h. Inr (child_entry ch h m)))) (children c)) (\<lambda>entries.
          bind (physical_descendants (nodes R) (node_id c)) (\<lambda>ps. Inr (composite_body R c entries ps))))
     (\<lambda>body. bind (canonical_cbor_sha256 E (PDict body)) (\<lambda>h. Inr (body @ [(PStr ''manifest_hash'', PStr h)])))"

lemma manifest_spec_mono: "manifest_spec fuel E R i = Inr m \<Longrightarrow> manifest_spec (Suc fuel) E R i = Inr m"
proof (induction fuel arbitrary: i m)
  case (Suc fuel)
  let ?f = "\<lambda>k ch. bind (manifest_spec k E R (child_node ch)) (\<lambda>m.
              bind (dindex m ''manifest_hash'') (\<lambda>h. Inr (child_entry ch h m)))"
  have "mapM (?f fuel) chs = Inr es \<Longrightarrow> mapM (?f (Suc fuel)) chs = Inr es" for chs es
    using Suc.IH by (induction chs arbitrary: es) (auto simp del: manifest_spec.simps)
  then show ?case using Suc.prems
    by (subst manifest_spec.simps) (auto split: option.splits control_node.splits simp del: manifest_spec.simps simp: manifest_spec.simps(2) [of fuel])
qed simp

lemma manifest_spec_le: "k \<le> l \<Longrightarrow> manifest_spec k E R i = Inr m \<Longrightarrow> manifest_spec l E R i = Inr m"
  by (induction l rule: dec_induct) (auto intro: manifest_spec_mono simp del: manifest_spec.simps)

text \<open>Everything in the cache is what the specification computes, and the rest of the registry stays.\<close>

definition same_registry :: "registry \<Rightarrow> registry \<Rightarrow> bool" where
  "same_registry R R' \<longleftrightarrow> server_id R' = server_id R \<and> nodes R' = nodes R \<and> identities R' = identities R"

lemma spec_cong: "same_registry R R' \<Longrightarrow> manifest_spec k E R' i = manifest_spec k E R i"
proof (induction k arbitrary: i)
  case (Suc k)
  then have "common_manifest R' = common_manifest R" by (intro ext) (simp add: common_manifest_def same_registry_def)
  then have "physical_body R' = physical_body R" "composite_body R' = composite_body R"
    by (intro ext, simp add: physical_body_def composite_body_def)+
  with Suc show ?case by (simp add: same_registry_def cong: option.case_cong control_node.case_cong)
qed simp

definition cache_ok :: "pyenv \<Rightarrow> registry \<Rightarrow> bool" where
  "cache_ok E R \<longleftrightarrow> (\<forall>(i, m) \<in> set (manifest_cache R). \<exists>k. manifest_spec k E R i = Inr m)"

lemma cache_okD: "cache_ok E R \<Longrightarrow> map_of (manifest_cache R) i = Some m \<Longrightarrow> \<exists>k. manifest_spec k E R i = Inr m"
  by (auto simp: cache_ok_def dest: map_of_SomeD)

definition spec_entry :: "nat \<Rightarrow> pyenv \<Rightarrow> registry \<Rightarrow> child_ref \<Rightarrow> pyval result" where
  "spec_entry k E R ch = bind (manifest_spec k E R (child_node ch)) (\<lambda>m.
     bind (dindex m ''manifest_hash'') (\<lambda>h. Inr (child_entry ch h m)))"

lemma spec_entry_le: "k \<le> l \<Longrightarrow> spec_entry k E R ch = Inr e \<Longrightarrow> spec_entry l E R ch = Inr e"
  using manifest_spec_le [of k l E R "child_node ch"] by (auto simp: spec_entry_def simp del: manifest_spec.simps)

lemma spec_entries_le: "k \<le> l \<Longrightarrow> mapM (spec_entry k E R) chs = Inr es \<Longrightarrow> mapM (spec_entry l E R) chs = Inr es"
  by (auto simp: mapM_Inr_iff elim!: list_all2_mono intro: spec_entry_le)

lemma manifest_spec_Suc:
  "manifest_spec (Suc k) E R i =
     bind (case map_of (nodes R) i of
        None \<Rightarrow> Inl RegistryError
      | Some (Physical p) \<Rightarrow> Inr (physical_body R p)
      | Some (Composite c) \<Rightarrow> bind (mapM (spec_entry k E R) (children c)) (\<lambda>entries.
          bind (physical_descendants (nodes R) (node_id c)) (\<lambda>ps. Inr (composite_body R c entries ps))))
     (\<lambda>body. bind (canonical_cbor_sha256 E (PDict body)) (\<lambda>h. Inr (body @ [(PStr ''manifest_hash'', PStr h)])))"
proof -
  have *: "spec_entry k E R = (\<lambda>ch. bind (manifest_spec k E R (child_node ch)) (\<lambda>m.
     bind (dindex m ''manifest_hash'') (\<lambda>h. Inr (child_entry ch h m))))"
    by (intro ext) (simp add: spec_entry_def)
  show ?thesis unfolding * manifest_spec.simps(2) by (rule refl)
qed

text \<open>One call keeps the registry, fills the cache correctly, and returns the specified manifest.\<close>

definition call_ok :: "pyenv \<Rightarrow> registry \<Rightarrow> registry \<Rightarrow> bool" where
  "call_ok E R R' \<longleftrightarrow> same_registry R R' \<and> cache_ok E R' \<and>
     fst ` set (manifest_cache R) \<subseteq> fst ` set (manifest_cache R')"

lemma call_ok_refl: "cache_ok E R \<Longrightarrow> call_ok E R R"
  by (simp add: call_ok_def same_registry_def)

lemma call_ok_trans: "call_ok E R R1 \<Longrightarrow> call_ok E R1 R2 \<Longrightarrow> call_ok E R R2"
  by (auto simp: call_ok_def same_registry_def)

lemma call_ok_cache: "call_ok E R R' \<Longrightarrow> cache_ok E R'"
  by (simp add: call_ok_def)

lemma store_ok:
  assumes "store_manifest E R1 i body = Inr (m, R')" "call_ok E R R1"
    and "\<exists>k. manifest_spec k E R i = bind (canonical_cbor_sha256 E (PDict body)) (\<lambda>h. Inr (body @ [(PStr ''manifest_hash'', PStr h)]))"
  shows "call_ok E R R' \<and> i \<in> fst ` set (manifest_cache R') \<and> (\<exists>k. manifest_spec k E R i = Inr m)"
proof -
  obtain h where h: "canonical_cbor_sha256 E (PDict body) = Inr h" "m = body @ [(PStr ''manifest_hash'', PStr h)]"
    "R' = R1\<lparr>manifest_cache := (i, m) # manifest_cache R1\<rparr>"
    using assms(1) by (auto simp: store_manifest_def Let_def)
  then obtain k where k: "manifest_spec k E R i = Inr m" using assms(3) by auto
  have same: "same_registry R R'" "same_registry R R1"
    using assms(2) h(3) by (simp_all add: call_ok_def same_registry_def)
  have "cache_ok E R1" using assms(2) by (simp add: call_ok_def)
  then have "cache_ok E R'"
    using k unfolding cache_ok_def h(3) spec_cong [OF same(1), unfolded h(3)] spec_cong [OF same(2)] by auto
  then show ?thesis using same k assms(2) h(3) by (auto simp: call_ok_def)
qed

lemma manifest_refines:
  "manifest fuel E R i = Inr (m, R') \<Longrightarrow> cache_ok E R \<Longrightarrow>
     call_ok E R R' \<and> i \<in> fst ` set (manifest_cache R') \<and> (\<exists>k. manifest_spec k E R i = Inr m)"
proof (induction fuel arbitrary: R i m R')
  case (Suc fuel)
  show ?case
  proof (cases "map_of (manifest_cache R) i")
    case (Some cached)
    then have "i \<in> fst ` set (manifest_cache R)" by (force dest: map_of_SomeD)
    with Some Suc.prems call_ok_refl cache_okD [OF Suc.prems(2) Some] show ?thesis by auto
  next
    case None
    with Suc.prems(1) obtain n where n: "map_of (nodes R) i = Some n" by (auto simp: node_iff)
    show ?thesis
    proof (cases n)
      case (Physical p)
      have "store_manifest E R i (physical_body R p) = Inr (m, R')"
        using Suc.prems(1) None n Physical by (auto simp: node_def node_index_def)
      moreover have "manifest_spec 1 E R i = bind (canonical_cbor_sha256 E (PDict (physical_body R p)))
          (\<lambda>h. Inr (physical_body R p @ [(PStr ''manifest_hash'', PStr h)]))"
        using n Physical by simp
      ultimately show ?thesis using store_ok call_ok_refl Suc.prems(2) by blast
    next
      case (Composite c)
      let ?step = "\<lambda>(entries, R1) ch. bind (manifest fuel E R1 (child_node ch)) (\<lambda>(m, R2).
                bind (dindex m ''manifest_hash'') (\<lambda>h. Inr (entries @ [child_entry ch h m], R2)))"
      obtain entries R1 ps where *: "foldM ?step ([], R) (children c) = Inr (entries, R1)"
        "physical_descendants (nodes R) (node_id c) = Inr ps" "store_manifest E R1 i (composite_body R c entries ps) = Inr (m, R')"
        using Suc.prems(1) None n Composite by (auto simp: node_def node_index_def split: prod.splits)
      have fold: "foldM ?step (es, Q) chs = Inr (es', R1) \<Longrightarrow> call_ok E R Q \<Longrightarrow>
          call_ok E R R1 \<and> (\<exists>k es2. mapM (spec_entry k E R) chs = Inr es2 \<and> es' = es @ es2)" for chs es es' Q R1
      proof (induction chs arbitrary: es Q)
        case (Cons ch chs)
        then obtain m' Q' h where s: "manifest fuel E Q (child_node ch) = Inr (m', Q')" "dindex m' ''manifest_hash'' = Inr h"
          "foldM ?step (es @ [child_entry ch h m'], Q') chs = Inr (es', R1)" by (auto split: prod.splits)
        from Suc.IH [OF s(1) call_ok_cache [OF Cons.prems(2)]] obtain k where
          k: "call_ok E Q Q'" "manifest_spec k E Q (child_node ch) = Inr m'" by blast
        have "call_ok E R Q'" using call_ok_trans Cons.prems(2) k(1) .
        from Cons.IH [OF s(3) this] obtain l es2 where l: "call_ok E R R1" "mapM (spec_entry l E R) chs = Inr es2"
          "es' = es @ child_entry ch h m' # es2" by auto
        have "manifest_spec k E R (child_node ch) = Inr m'"
          using k(2) spec_cong [of R Q k E "child_node ch"] Cons.prems(2) by (simp add: call_ok_def)
        then have "spec_entry k E R ch = Inr (child_entry ch h m')" using s(2) by (simp add: spec_entry_def)
        then have "mapM (spec_entry (max k l) E R) (ch # chs) = Inr (child_entry ch h m' # es2)"
          using spec_entry_le [of k "max k l"] spec_entries_le [OF _ l(2), of "max k l"] by simp
        with l show ?case by blast
      qed (auto intro: exI [of _ 0])
      from fold [OF *(1) call_ok_refl [OF Suc.prems(2)]] obtain k where
        k: "call_ok E R R1" "mapM (spec_entry k E R) (children c) = Inr entries" by auto
      have "manifest_spec (Suc k) E R i = bind (canonical_cbor_sha256 E (PDict (composite_body R c entries ps)))
          (\<lambda>h. Inr (composite_body R c entries ps @ [(PStr ''manifest_hash'', PStr h)]))"
        unfolding manifest_spec_Suc using n Composite k(2) *(2) by simp
      then show ?thesis using store_ok [OF *(3) k(1)] by blast
    qed
  qed
qed simp

section \<open>Loaded registries\<close>

definition loaded_ok :: "pyenv \<Rightarrow> registry \<Rightarrow> bool" where
  "loaded_ok E R \<longleftrightarrow> wf_table (nodes R) \<and> nodes R \<noteq> [] \<and> validate (R\<lparr>manifest_cache := []\<rparr>) = Inr () \<and>
     cache_ok E R \<and> fst ` set (nodes R) \<subseteq> fst ` set (manifest_cache R)"

lemma constructed_ok:
  assumes "CapabilityRegistry E sid ns ids = Inr R"
  shows "nodes R = ns \<and> server_id R = sid \<and> identities R = ids \<and> validate (R\<lparr>manifest_cache := []\<rparr>) = Inr () \<and> cache_ok E R \<and>
    fst ` set ns \<subseteq> fst ` set (manifest_cache R)"
proof -
  let ?R0 = "\<lparr>server_id = sid, nodes = ns, identities = ids, manifest_cache = []\<rparr>"
  let ?step = "\<lambda>R i. bind (manifest (depth_limit ns) E R i) (\<lambda>(m, R'). Inr R')"
  have v: "validate ?R0 = Inr ()" and f: "foldM ?step ?R0 (node_ids ?R0) = Inr R"
    using assms by (auto simp: CapabilityRegistry_def Let_def)
  have fold: "foldM ?step Q is = Inr Q' \<Longrightarrow> call_ok E ?R0 Q \<Longrightarrow>
      call_ok E ?R0 Q' \<and> set is \<union> fst ` set (manifest_cache Q) \<subseteq> fst ` set (manifest_cache Q')" for Q Q' "is"
  proof (induction "is" arbitrary: Q)
    case (Cons i "is")
    then obtain m Q1 where m: "manifest (depth_limit ns) E Q i = Inr (m, Q1)" "foldM ?step Q1 is = Inr Q'"
      by (auto split: prod.splits)
    note r = manifest_refines [OF m(1) call_ok_cache [OF Cons.prems(2)]]
    then have "call_ok E ?R0 Q1" using call_ok_trans Cons.prems(2) by blast
    from Cons.IH [OF m(2) this] have "call_ok E ?R0 Q'" "set is \<union> fst ` set (manifest_cache Q1) \<subseteq> fst ` set (manifest_cache Q')"
      by simp_all
    moreover have "insert i (fst ` set (manifest_cache Q)) \<subseteq> fst ` set (manifest_cache Q1)" using r by (simp add: call_ok_def)
    ultimately show ?case unfolding list.set by blast
  qed simp
  have "call_ok E ?R0 ?R0" by (rule call_ok_refl) (simp add: cache_ok_def)
  from fold [OF f this] have c: "call_ok E ?R0 R" "fst ` set ns \<subseteq> fst ` set (manifest_cache R)"
    by (auto simp: node_ids_def)
  then have "R\<lparr>manifest_cache := []\<rparr> = ?R0" by (simp add: call_ok_def same_registry_def)
  then have "validate (R\<lparr>manifest_cache := []\<rparr>) = Inr ()" using v by metis
  with c show ?thesis by (simp add: call_ok_def same_registry_def)
qed

lemma load_Inr:
  assumes "load E dir = Inr R"
  shows "loaded_ok E R"
proof -
  obtain fs ns ids sid where *: "foldM (add_node E) [] fs = Inr ns" "ns \<noteq> []" "CapabilityRegistry E sid ns ids = Inr R"
    using assms unfolding load_def bind_eq_Inr raise_if_eq_Inr as_registry_error_Inr
    by (elim exE conjE) (auto split: option.splits)
  with constructed_ok [OF *(3)] added_nodes_wf [OF *(1)] show ?thesis by (simp add: loaded_ok_def)
qed

lemma loaded_graph: "loaded_ok E R \<Longrightarrow> validate_graph (nodes R) = Inr ()"
  by (simp add: loaded_ok_def validate_def)

lemma manifest_spec_depth:
  assumes "validate_graph (nodes R) = Inr ()" "i \<in> fst ` set (nodes R)" "card (below (nodes R) i) \<le> fuel"
  shows "\<forall>k m. manifest_spec k E R i = Inr m \<longrightarrow> manifest_spec fuel E R i = Inr m"
  using assms
proof (induction rule: depth_induct)
  case (node i n fuel)
  show ?case
  proof (intro allI impI)
    fix k m assume "manifest_spec k E R i = Inr m"
    then obtain k' where k: "k = Suc k'" "manifest_spec (Suc k') E R i = Inr m" by (cases k) auto
    have "mapM (spec_entry k' E R) chs = Inr es \<Longrightarrow> set chs \<subseteq> set (node_children n) \<Longrightarrow> mapM (spec_entry fuel E R) chs = Inr es" for chs es
      by (induction chs arbitrary: es) (use node(2) in \<open>auto simp: spec_entry_def\<close>)
    then show "manifest_spec (Suc fuel) E R i = Inr m"
      using k(2) node(1) unfolding manifest_spec_Suc by (auto split: control_node.splits)
  qed
qed

lemma manifest_of_spec:
  assumes "loaded_ok E R" "i \<in> fst ` set (nodes R)"
  shows "manifest_of E R i = manifest_spec (depth_limit (nodes R)) E R i" "\<exists>m. manifest_of E R i = Inr m"
proof -
  have "i \<in> fst ` set (manifest_cache R)" using assms unfolding loaded_ok_def by blast
  then obtain m where m: "map_of (manifest_cache R) i = Some m" by (metis map_of_eq_None_iff not_None_eq)
  then have of: "manifest_of E R i = Inr m" by (simp add: manifest_of_def)
  obtain k where "manifest_spec k E R i = Inr m" using cache_okD [OF _ m, of E] assms(1) unfolding loaded_ok_def by blast
  moreover have "card (below (nodes R) i) \<le> depth_limit (nodes R)"
    using below_limit assms(2) loaded_graph [OF assms(1)] by (simp add: validated_graph)
  ultimately have "manifest_spec (depth_limit (nodes R)) E R i = Inr m"
    using manifest_spec_depth [OF loaded_graph [OF assms(1)] assms(2)] by blast
  then show "manifest_of E R i = manifest_spec (depth_limit (nodes R)) E R i" "\<exists>m. manifest_of E R i = Inr m"
    using of by metis+
qed

lemma manifest_of_unknown:
  assumes "loaded_ok E R" "i \<notin> fst ` set (nodes R)"
  shows "manifest_of E R i = Inl RegistryError"
proof -
  have none: "map_of (nodes R) i = None" using assms(2) by (simp add: map_of_eq_None_iff)
  have "map_of (manifest_cache R) i = None"
  proof (rule ccontr)
    assume "map_of (manifest_cache R) i \<noteq> None"
    then obtain m where m: "map_of (manifest_cache R) i = Some m" by blast
    obtain k where "manifest_spec k E R i = Inr m" using cache_okD [OF _ m, of E] assms(1) unfolding loaded_ok_def by blast
    then show False using none by (cases k) auto
  qed
  then show ?thesis using none by (simp add: manifest_of_def node_def node_index_def catch_def del: map_of_eq_None_iff)
qed

end
