(* ===== verification/RegistrySafety.thy ===== *)
theory RegistrySafety
  imports RegistryLoad
begin

text \<open>
  What clients of a loaded registry rely on: well-formed capabilities, role paths that mean one
  leaf, identities that name existing targets, honest assurances and manifests without secrets.
\<close>

section \<open>Well-formed capabilities\<close>

lemma forM_InrD: "forM f xs = Inr u \<Longrightarrow> x \<in> set xs \<Longrightarrow> f x = Inr ()"
  using forM_Inr_iff [of f xs] by simp

lemma loaded_validate:
  assumes "loaded_ok E R"
  shows "\<And>i c. map_of (nodes R) i = Some (Composite c) \<Longrightarrow> validate_composite_aliases (nodes R) i = Inr ()"
    and "\<And>k x. (k, x) \<in> set (identities R) \<Longrightarrow> validate_identity_scopes (R\<lparr>manifest_cache := []\<rparr>) x = Inr ()"
proof -
  have v: "validate (R\<lparr>manifest_cache := []\<rparr>) = Inr ()" and wf: "wf_table (nodes R)" using assms by (simp_all add: loaded_ok_def)
  fix i c assume i: "map_of (nodes R) i = Some (Composite c)"
  have "forM (\<lambda>(i, n). case n of Composite c \<Rightarrow> validate_composite_aliases (nodes R) (node_id c) | Physical p \<Rightarrow> Inr ()) (nodes R) = Inr ()"
    using v by (simp add: validate_def)
  from forM_InrD [OF this map_of_SomeD [OF i]] have "validate_composite_aliases (nodes R) (node_id c) = Inr ()" by simp
  moreover have "node_id c = i" using wf_tableD [OF wf i] by (simp add: node_common.defs)
  ultimately show "validate_composite_aliases (nodes R) i = Inr ()" by simp
next
  have v: "validate (R\<lparr>manifest_cache := []\<rparr>) = Inr ()" using assms by (simp add: loaded_ok_def)
  fix k x assume "(k, x) \<in> set (identities R)"
  moreover have "forM (\<lambda>(i, x). validate_identity_scopes (R\<lparr>manifest_cache := []\<rparr>) x) (identities R) = Inr ()"
    using v by (simp add: validate_def)
  ultimately show "validate_identity_scopes (R\<lparr>manifest_cache := []\<rparr>) x = Inr ()" using forM_InrD by fastforce
qed

lemma resolve_uncached: "resolve_group (R\<lparr>manifest_cache := c\<rparr>) = resolve_group R"
proof -
  have nd: "node (R\<lparr>manifest_cache := c\<rparr>) = node R" for R by (intro ext) (simp add: node_def)
  have "walk_roles (R\<lparr>manifest_cache := c\<rparr>) n segs = walk_roles R n segs" for n segs
  proof (induction R n segs rule: walk_roles.induct)
    case (3 R c' role segments)
    show ?case unfolding walk_roles.simps nd by (intro bind_cong refl) (use 3 in auto)
  qed simp_all
  then show ?thesis by (intro ext) (simp add: resolve_group_def node_def)
qed

text \<open>
  C25. What loading guarantees. Every node of a loaded registry is stored under its own id, every
  physical node has well-formed groups (canonical units, finite ordered bounds, positive rates),
  every child exists and the graph is acyclic; and every scope an identity holds names an existing
  node or, for a role path, a group that resolves.
\<close>

theorem loaded_registry_wellformed:
  assumes "load E dir = Inr R"
  shows "(\<forall>(i, n) \<in> set (nodes R). node_id (common n) = i \<and>
      (case n of Physical p \<Rightarrow> \<forall>g \<in> set (groups p). wf_group g
        | Composite c \<Rightarrow> \<forall>ch \<in> set (children c). child_node ch \<in> fst ` set (nodes R))) \<and>
    distinct (map fst (nodes R)) \<and> acyclic (edges (nodes R)) \<and>
    (\<forall>(k, x) \<in> set (identities R).
      (\<forall>v \<in> set (discover x @ observe x @ estop x). v = ''*'' \<or> v \<in> fst ` set (nodes R)) \<and>
      (\<forall>v \<in> set (control x). v = ''*'' \<or> v \<in> fst ` set (nodes R) \<or>
        (\<exists>r path. py_partition (CHR ''.'') v = (r, True, path) \<and> r \<in> fst ` set (nodes R) \<and>
           (path = ''*'' \<or> ok (resolve_group R r path)))))"
proof -
  have l: "loaded_ok E R" using load_Inr assms .
  then have wf: "wf_table (nodes R)" by (simp add: loaded_ok_def)
  have g: "children_exist (nodes R)" "acyclic (edges (nodes R))" using loaded_graph [OF l] by (simp_all add: validated_graph)
  have 1: "node_id (common n) = i \<and> (case n of Physical p \<Rightarrow> \<forall>g \<in> set (groups p). wf_group g
        | Composite c \<Rightarrow> \<forall>ch \<in> set (children c). child_node ch \<in> fst ` set (nodes R))" if "(i, n) \<in> set (nodes R)" for i n
  proof -
    have m: "map_of (nodes R) i = Some n" using wf that by (simp add: wf_table_def)
    from wf_tableD [OF wf m] child_present [OF g(1) m] show ?thesis
      by (cases n) (auto simp: wf_node_def list_all_iff)
  qed
  have part: "py_partition c v = (r, False, path) \<Longrightarrow> r = v" for c v r path
    by (induction v arbitrary: r path) (auto split: if_splits prod.splits)
  have mem: "map_of (nodes R) v = None \<longleftrightarrow> v \<notin> fst ` set (nodes R)" for v by (simp add: map_of_eq_None_iff)
  have 2: "(\<forall>v \<in> set (discover x @ observe x @ estop x). v = ''*'' \<or> v \<in> fst ` set (nodes R)) \<and>
      (\<forall>v \<in> set (control x). v = ''*'' \<or> v \<in> fst ` set (nodes R) \<or>
        (\<exists>r path. py_partition (CHR ''.'') v = (r, True, path) \<and> r \<in> fst ` set (nodes R) \<and>
           (path = ''*'' \<or> ok (resolve_group R r path))))" if "(k, x) \<in> set (identities R)" for k x
  proof (intro conjI ballI)
    note v = loaded_validate(2) [OF l that]
    show "s = ''*'' \<or> s \<in> fst ` set (nodes R)" if "s \<in> set (discover x @ observe x @ estop x)" for s
      using v that by (auto simp: validate_identity_scopes_def check_scopes_def mem dest!: forM_InrD)
    show "s = ''*'' \<or> s \<in> fst ` set (nodes R) \<or> (\<exists>r path. py_partition (CHR ''.'') s = (r, True, path) \<and>
        r \<in> fst ` set (nodes R) \<and> (path = ''*'' \<or> ok (resolve_group R r path)))" if "s \<in> set (control x)" for s
    proof -
      have "check_control_scope (R\<lparr>manifest_cache := []\<rparr>) s = Inr ()"
        using v that by (auto simp: validate_identity_scopes_def dest: forM_InrD)
      moreover obtain r sep path where p: "py_partition (CHR ''.'') s = (r, sep, path)" by (cases "py_partition (CHR ''.'') s")
      ultimately show ?thesis using part [of "CHR ''.''" s r path]
        by (cases sep) (auto simp: check_control_scope_def mem resolve_uncached ok_iff split: if_splits)
    qed
  qed
  have all: "(\<And>k x. (k, x) \<in> S \<Longrightarrow> P k x) \<Longrightarrow> \<forall>(k, x) \<in> S. P k x" for S :: "('a \<times> 'b) set" and P by auto
  show ?thesis
    by (intro conjI all 1 [THEN conjunct1] 1 [THEN conjunct2] 2 [THEN conjunct1] 2 [THEN conjunct2] g(2))
      (use wf in \<open>simp_all add: wf_table_def\<close>)
qed

section \<open>Role paths\<close>

text \<open>
  C26. Resolving and enumerating role paths agree. For every node of a loaded registry the leaf
  enumeration of the code succeeds, and \<^verbatim>\<open>resolve_group\<close> accepts a path exactly if the enumeration
  lists it, with the same physical node and group.
\<close>

theorem resolve_matches_leaves:
  assumes "load E dir = Inr R" "i \<in> fst ` set (nodes R)"
  shows "\<exists>leaves. leaf_paths (depth_limit (nodes R)) (nodes R) i [] False = Inr leaves \<and>
    (\<forall>path a b. (\<exists>al. ((a, b), path, al) \<in> set leaves) \<longleftrightarrow>
      (\<exists>rg. resolve_group R i path = Inr rg \<and> physical_node_id rg = a \<and> resolved_group_id rg = b))"
proof -
  have l: "loaded_ok E R" using load_Inr assms(1) .
  then have wf: "wf_table (nodes R)" by (simp add: loaded_ok_def)
  note g = loaded_graph [OF l]
  obtain leaves where leaves: "leaf_paths (depth_limit (nodes R)) (nodes R) i [] False = Inr leaves"
  proof -
    have "card (below (nodes R) i) \<le> depth_limit (nodes R)" using below_limit assms(2) g by (simp add: validated_graph)
    from leaf_paths_total [OF g assms(2) this] that show ?thesis by blast
  qed
  have "(\<exists>al. ((a, b), path, al) \<in> set leaves) \<longleftrightarrow>
      (\<exists>rg. resolve_group R i path = Inr rg \<and> physical_node_id rg = a \<and> resolved_group_id rg = b)" for path a b
  proof
    assume "\<exists>al. ((a, b), path, al) \<in> set leaves"
    then obtain segs al p g where "route (nodes R) i segs al p g" "a = node_id p" "b = group_id g" "path = py_join (CHR ''.'') segs"
      unfolding leaf_paths_routes [OF leaves] by auto
    then show "\<exists>rg. resolve_group R i path = Inr rg \<and> physical_node_id rg = a \<and> resolved_group_id rg = b"
      unfolding resolve_group_routes [OF wf] by (metis resolved_group.select_convs(3,4))
  next
    assume "\<exists>rg. resolve_group R i path = Inr rg \<and> physical_node_id rg = a \<and> resolved_group_id rg = b"
    then obtain segs al p g where "route (nodes R) i segs al p g" "a = node_id p" "b = group_id g" "path = py_join (CHR ''.'') segs"
      unfolding resolve_group_routes [OF wf] by fastforce
    then show "\<exists>al. ((a, b), path, al) \<in> set leaves"
      unfolding leaf_paths_routes [OF leaves] by (metis append_Nil)
  qed
  with leaves show ?thesis by blast
qed

text \<open>
  A leaf has one primary path. If two different role paths from a composite of a loaded
  registry reach the same leaf, exactly one of the paths to that leaf avoids every alias.
\<close>

theorem one_primary_path:
  assumes "load E dir = Inr R" "map_of (nodes R) i = Some (Composite c)"
    and "route (nodes R) i segs al p g" "route (nodes R) i segs' al' p' g'" "segs \<noteq> segs'"
    and "node_id p' = node_id p" "group_id g' = group_id g"
  shows "\<exists>!path. \<exists>q h. route (nodes R) i path False q h \<and> node_id q = node_id p \<and> group_id h = group_id g"
proof -
  have l: "loaded_ok E R" using load_Inr assms(1) .
  then have wf: "wf_table (nodes R)" by (simp add: loaded_ok_def)
  let ?c = "(node_id p, group_id g)"
  obtain leaves where leaves: "leaf_paths (depth_limit (nodes R)) (nodes R) i [] False = Inr leaves"
    and check: "forM (\<lambda>canonical. let paths = paths_to leaves canonical in if length paths = 1 then Inr ()
         else raise_if (length (filter (\<lambda>(path, aliased). \<not> aliased) paths) \<noteq> 1) RegistryError (Inr ()))
       (rev (remdups (rev (map fst leaves)))) = Inr ()"
    using loaded_validate(1) [OF l assms(2)] by (auto simp: validate_composite_aliases_def)
  have mem: "((node_id p, group_id g), path, al) \<in> set leaves \<longleftrightarrow> (\<exists>segments q h. route (nodes R) i segments al q h \<and>
      node_id p = node_id q \<and> group_id g = group_id h \<and> path = py_join (CHR ''.'') segments)" for path al
    using leaf_paths_routes [OF leaves, of "node_id p" "group_id g" path al] by auto
  have split: "py_split (CHR ''.'') (py_join (CHR ''.'') s) = s" if "route (nodes R) i s a q h" for s a q h
    by (rule py_split_join) (use route_identifiers [OF wf that] identifier_no_dot route_segments [OF that] in auto)
  have paths: "(path, a) \<in> set (paths_to leaves ?c) \<longleftrightarrow> (?c, path, a) \<in> set leaves" for path a
    by (force simp: paths_to_def)
  have two: "(py_join (CHR ''.'') segs, al) \<in> set (paths_to leaves ?c)" "(py_join (CHR ''.'') segs', al') \<in> set (paths_to leaves ?c)"
    unfolding paths mem using assms(3,4,6,7) by metis+
  have "py_join (CHR ''.'') segs \<noteq> py_join (CHR ''.'') segs'" using split assms(3-5) by metis
  with two have "length (paths_to leaves ?c) \<noteq> 1" by (auto simp: length_Suc_conv)
  moreover have "?c \<in> set (rev (remdups (rev (map fst leaves))))" using two(1) by (force simp: paths)
  ultimately have "length (filter (\<lambda>(path, aliased). \<not> aliased) (paths_to leaves ?c)) = 1"
    using forM_InrD [OF check, of ?c] by (simp add: Let_def)
  then obtain x where "filter (\<lambda>(path, aliased). \<not> aliased) (paths_to leaves ?c) = [x]" by (auto simp: length_Suc_conv)
  moreover have "set (filter (\<lambda>(path, aliased). \<not> aliased) (paths_to leaves ?c)) = {y \<in> set (paths_to leaves ?c). \<not> snd y}"
    by auto
  ultimately have "{y \<in> set (paths_to leaves ?c). \<not> snd y} = {x}" by simp
  then have e: "y \<in> set (paths_to leaves ?c) \<and> \<not> snd y \<longleftrightarrow> y = x" for y by blast
  have "\<not> snd x" using e [of x] by simp
  then have x: "x = (fst x, False)" by (cases x) simp
  have prim: "(?c, path, False) \<in> set leaves \<longleftrightarrow> path = fst x" for path
  proof -
    have "(path, False) = x \<longleftrightarrow> path = fst x" by (subst x) simp
    then show ?thesis using e [of "(path, False)"] paths [of path False] by simp
  qed
  then obtain s q h where s: "route (nodes R) i s False q h" "node_id p = node_id q" "group_id g = group_id h"
    "fst x = py_join (CHR ''.'') s" unfolding mem by blast
  show ?thesis
  proof (rule ex1I [of _ s])
    show "\<exists>q h. route (nodes R) i s False q h \<and> node_id q = node_id p \<and> group_id h = group_id g" using s by metis
    fix t assume "\<exists>q h. route (nodes R) i t False q h \<and> node_id q = node_id p \<and> group_id h = group_id g"
    then obtain q' h' where t: "route (nodes R) i t False q' h'" "node_id q' = node_id p" "group_id h' = group_id g" by blast
    then have "(?c, py_join (CHR ''.'') t, False) \<in> set leaves" unfolding mem by metis
    then have "py_join (CHR ''.'') t = py_join (CHR ''.'') s" using prim s(4) by simp
    then show "t = s" using split s(1) t(1) by metis
  qed
qed

section \<open>Manifests\<close>

text \<open>A node and a registry without what is private: the connections.\<close>

fun public_node :: "control_node \<Rightarrow> control_node" where
  "public_node (Physical p) = Physical (p\<lparr>connection := PNone\<rparr>)"
| "public_node (Composite c) = Composite c"

definition public_table :: "node_table \<Rightarrow> node_table" where
  "public_table ns = map (\<lambda>(i, n). (i, public_node n)) ns"

lemma map_of_public: "map_of (public_table ns) i = map_option public_node (map_of ns i)"
  by (induction ns) (auto simp: public_table_def)

lemma depth_limit_public [simp]: "depth_limit (public_table ns) = depth_limit ns"
  by (simp add: depth_limit_def public_table_def)

lemma mapM_map_result:
  assumes "\<And>x. x \<in> set xs \<Longrightarrow> f x = bind (g x) (\<lambda>y. Inr (h y))"
  shows "mapM f xs = bind (mapM g xs) (\<lambda>ys. Inr (map h ys))"
  using assms
proof (induction xs)
  case (Cons x xs)
  then show ?case by (cases "g x"; cases "mapM g xs") auto
qed simp

lemma collect_public:
  "collect_physical k (public_table ns) i =
     bind (collect_physical k ns i) (\<lambda>ps. Inr (map (\<lambda>p. p\<lparr>connection := PNone\<rparr>) ps))"
proof (induction k arbitrary: i)
  case (Suc k)
  show ?case
  proof (cases "map_of ns i")
    case None
    then show ?thesis by (simp add: node_index_def map_of_public del: map_of_eq_None_iff)
  next
    case (Some n)
    show ?thesis
    proof (cases n)
      case (Composite c)
      have "mapM (\<lambda>ch. collect_physical k (public_table ns) (child_node ch)) (children c) =
          bind (mapM (\<lambda>ch. collect_physical k ns (child_node ch)) (children c)) (\<lambda>ls. Inr (map (map (\<lambda>p. p\<lparr>connection := PNone\<rparr>)) ls))"
        by (rule mapM_map_result) (rule Suc.IH)
      then show ?thesis using Some Composite by (simp add: node_index_def map_of_public map_concat)
    qed (use Some in \<open>simp add: node_index_def map_of_public\<close>)
  qed
qed simp

lemma descendants_public:
  "physical_descendants (public_table ns) i =
     bind (physical_descendants ns i) (\<lambda>ps. Inr (map (\<lambda>p. p\<lparr>connection := PNone\<rparr>) ps))"
proof (cases "collect_physical (depth_limit ns) ns i")
  case (Inr ps)
  have f: "find (\<lambda>p. node_id p = k) (map (\<lambda>p. p\<lparr>connection := PNone\<rparr>) xs) =
      map_option (\<lambda>p. p\<lparr>connection := PNone\<rparr>) (find (\<lambda>p. node_id p = k) xs)" for k xs
    by (induction xs) auto
  have "find (\<lambda>p. node_id p = k) (rev ps) \<noteq> None" if "k \<in> set (map node_id ps)" for k
    using that by (auto simp: find_None_iff)
  then show ?thesis using Inr
    by (auto simp: physical_descendants_def collect_public rev_map f comp_def option.map_sel)
qed (simp add: physical_descendants_def collect_public)

lemma assured_public: "assured (map (\<lambda>p. p\<lparr>connection := PNone\<rparr>) ps) f = assured ps f"
proof -
  have "List.map_filter watchdog (map (\<lambda>p. p\<lparr>connection := PNone\<rparr>) ps) = List.map_filter watchdog ps"
    by (induction ps) (auto simp: List.map_filter_def)
  then show ?thesis by (simp add: assured_def Let_def)
qed

lemma spec_public:
  assumes "server_id R' = server_id R" "nodes R' = public_table (nodes R)"
  shows "manifest_spec k E R' i = manifest_spec k E R i"
proof (induction k arbitrary: i)
  case (Suc k)
  have e: "spec_entry k E R' = spec_entry k E R" by (intro ext) (simp add: spec_entry_def Suc.IH)
  have p: "physical_body R' (p\<lparr>connection := PNone\<rparr>) = physical_body R p" for p
    by (simp add: physical_body_def common_manifest_def assms node_common.defs)
  have c: "composite_body R' c es (map (\<lambda>p. p\<lparr>connection := PNone\<rparr>) ps) = composite_body R c es ps" for c es ps
    by (simp add: composite_body_def common_manifest_def assms assured_public)
  have d: "bind (physical_descendants (nodes R') j) (\<lambda>ps. Inr (composite_body R' c es ps)) =
      bind (physical_descendants (nodes R) j) (\<lambda>ps. Inr (composite_body R c es ps))" for j c es
    by (simp add: assms descendants_public c)
  show ?case unfolding manifest_spec_Suc e d
    by (cases "map_of (nodes R) i") (auto simp: assms map_of_public p split: control_node.split simp del: map_of_eq_None_iff)
qed simp

lemma public_manifests:
  assumes "loaded_ok E R" "loaded_ok E R'" "server_id R' = server_id R" "public_table (nodes R') = public_table (nodes R)"
  shows "fst ` set (nodes R') = fst ` set (nodes R) \<and> manifest_of E R' i = manifest_of E R i"
proof -
  note l = assms(1,2)
  have dom: "fst ` set (public_table ns) = fst ` set ns" for ns by (force simp: public_table_def)
  have d: "fst ` set (nodes R') = fst ` set (nodes R)" "depth_limit (nodes R') = depth_limit (nodes R)"
    using dom depth_limit_public assms(4) by metis+
  let ?P = "\<lparr>server_id = server_id R, nodes = public_table (nodes R), identities = [], manifest_cache = []\<rparr>"
  have "manifest_spec k E R' i = manifest_spec k E R i" for k
    using spec_public [of ?P R k E i] spec_public [of ?P R' k E i] assms(3,4) by simp
  then show ?thesis
    using manifest_of_spec [OF l(1), of i] manifest_of_spec [OF l(2), of i] manifest_of_unknown [OF l(1), of i]
      manifest_of_unknown [OF l(2), of i] d by (cases "i \<in> fst ` set (nodes R)") simp_all
qed

text \<open>
  Manifests are a function of the public capabilities. Two loaded registries with the same
  server id whose nodes differ at most in their connections (addresses, serial ports, credentials)
  publish identical manifests and hashes for every node id, cached or not, whatever identities are
  configured: no connection detail can leak through discovery.
\<close>

theorem manifests_hide_connections:
  assumes "load E dir = Inr R" "load E dir' = Inr R'" "server_id R' = server_id R"
    and "public_table (nodes R') = public_table (nodes R)"
  shows "manifest_of E R' i = manifest_of E R i \<and>
    manifest_of E R i = (if i \<in> fst ` set (nodes R) then manifest_spec (depth_limit (nodes R)) E R i else Inl RegistryError)"
  using public_manifests [OF load_Inr load_Inr, OF assms, of i] manifest_of_spec [OF load_Inr [OF assms(1)], of i]
    manifest_of_unknown [OF load_Inr [OF assms(1)], of i] by simp

section \<open>Assurances\<close>

lemma assured_iff: "assured ps f \<longleftrightarrow> ps \<noteq> [] \<and> (\<forall>p \<in> set ps. \<exists>w. watchdog p = Some w \<and> f w)"
proof -
  have "length (List.map_filter watchdog ps) = length ps \<longleftrightarrow> (\<forall>p \<in> set ps. watchdog p \<noteq> None)"
  proof (induction ps)
    case (Cons p ps)
    have le: "length (List.map_filter watchdog ps) < Suc (length ps)" by (simp add: List.map_filter_def le_imp_less_Suc)
    show ?case
    proof (cases "watchdog p")
      case None
      then have "List.map_filter watchdog (p # ps) = List.map_filter watchdog ps" by (simp add: List.map_filter_def)
      with le None show ?thesis by auto
    next
      case (Some w)
      then have "List.map_filter watchdog (p # ps) = w # List.map_filter watchdog ps" by (simp add: List.map_filter_def)
      with Cons Some show ?thesis by simp
    qed
  qed (simp add: List.map_filter_def)
  moreover have "set (List.map_filter watchdog ps) = {w. \<exists>p \<in> set ps. watchdog p = Some w}"
    by (induction ps) (auto simp: List.map_filter_def)
  ultimately show ?thesis by (auto simp: assured_def Let_def list_all_iff) fastforce+
qed

lemma collected_routes:
  assumes "wf_table ns"
  shows "collect_physical k ns i = Inr ps \<Longrightarrow> ps \<noteq> [] \<and> (\<forall>p. p \<in> set ps \<longleftrightarrow> (\<exists>segs al g. route ns i segs al p g))"
proof (induction k arbitrary: i ps)
  case (Suc k)
  from Suc.prems obtain n where n: "map_of ns i = Some n" by (auto simp: node_index_def split: option.splits)
  show ?case
  proof (cases n)
    case (Physical p)
    then have "groups p \<noteq> []" using wf_tableD [OF assms n] by (simp add: wf_node_def)
    then obtain g where "g \<in> set (groups p)" by (cases "groups p") auto
    then have r: "route ns i [group_id g] False p g" using n Physical by (simp add: route_leaf)
    have u: "q = p" if "route ns i segs al q g" for segs al q g
      using that n Physical by (auto elim: route.cases)
    have "(\<exists>segs al g. route ns i segs al q g) \<longleftrightarrow> q = p" for q
    proof
      assume "\<exists>segs al g. route ns i segs al q g"
      then show "q = p" by (elim exE) (rule u)
    qed (use r in blast)
    moreover have "ps = [p]" using Suc.prems n Physical by (simp add: node_index_def)
    ultimately show ?thesis by simp
  next
    case (Composite c)
    then obtain lss where m: "mapM (\<lambda>ch. collect_physical k ns (child_node ch)) (children c) = Inr lss" and ps: "ps = concat lss"
      using Suc.prems n by (auto simp: node_index_def)
    have IH: "l \<noteq> [] \<and> (\<forall>p. p \<in> set l \<longleftrightarrow> (\<exists>segs al g. route ns (child_node ch) segs al p g))"
      if "collect_physical k ns (child_node ch) = Inr l" for ch l by (rule Suc.IH [OF that])
    have "children c \<noteq> []" using wf_tableD [OF assms n] Composite by (simp add: wf_node_def)
    then obtain ch where ch: "ch \<in> set (children c)" by (meson list.set_sel(1))
    obtain l where "l \<in> set lss" "collect_physical k ns (child_node ch) = Inr l"
      using mapM_InrD [OF m ch] by blast
    with IH have "ps \<noteq> []" by (auto simp: ps)
    moreover have "p \<in> set ps \<longleftrightarrow> (\<exists>segs al g. route ns i segs al p g)" for p
    proof
      assume "p \<in> set ps"
      then obtain l where l: "l \<in> set lss" "p \<in> set l" by (auto simp: ps)
      then obtain ch where ch: "ch \<in> set (children c)" "collect_physical k ns (child_node ch) = Inr l"
        using set_mapM [OF m, of l] by blast
      with IH [OF ch(2)] l obtain segs al g where "route ns (child_node ch) segs al p g" by blast
      with route_role [of ns i c ch segs al p g] n Composite ch(1) show "\<exists>segs al g. route ns i segs al p g" by blast
    next
      assume "\<exists>segs al g. route ns i segs al p g"
      then obtain segs al g where "route ns i segs al p g" by blast
      then obtain ch segs' al' where r: "ch \<in> set (children c)" "route ns (child_node ch) segs' al' p g"
        using n Composite by cases auto
      then obtain l where l: "l \<in> set lss" "collect_physical k ns (child_node ch) = Inr l" using mapM_InrD [OF m] by blast
      have "p \<in> set l" using IH [OF l(2)] r(2) by blast
      with l(1) show "p \<in> set ps" by (auto simp: ps)
    qed
    ultimately show ?thesis by blast
  qed
qed simp

lemma route_target: "route ns i segs al p g \<Longrightarrow> \<exists>j. map_of ns j = Some (Physical p)"
  by (induction rule: route.induct) auto

lemma descendants_routes:
  assumes "wf_table ns" "physical_descendants ns i = Inr ps"
  shows "ps \<noteq> [] \<and> (\<forall>p. p \<in> set ps \<longleftrightarrow> (\<exists>segs al g. route ns i segs al p g))"
proof -
  obtain qs where q: "collect_physical (depth_limit ns) ns i = Inr qs"
    and ps: "ps = map (\<lambda>k. the (find (\<lambda>p. node_id p = k) (rev qs))) (sorted_set (map node_id qs))"
    using assms(2) by (auto simp: physical_descendants_def)
  note c = collected_routes [OF assms(1) q]
  have uniq: "p = p'" if "p \<in> set qs" "p' \<in> set qs" "node_id p = node_id p'" for p p'
  proof -
    have "map_of ns (node_id r) = Some (Physical r)" if r: "r \<in> set qs" for r
    proof -
      obtain j where j: "map_of ns j = Some (Physical r)" using c r route_target by blast
      then show ?thesis using wf_tableD [OF assms(1) j] by (simp add: node_common.defs)
    qed
    from this [OF that(1)] this [OF that(2)] that(3) show ?thesis by (metis control_node.inject(1) option.inject)
  qed
  have "the (find (\<lambda>p. node_id p = node_id r) (rev qs)) = r" if "r \<in> set qs" for r
  proof -
    have "find (\<lambda>p. node_id p = node_id r) (rev qs) \<noteq> None" using that by (auto simp: find_None_iff)
    then obtain r' where r': "find (\<lambda>p. node_id p = node_id r) (rev qs) = Some r'" by blast
    then have "r' \<in> set (rev qs) \<and> node_id r' = node_id r" by (metis (mono_tags) find_Some_iff nth_mem)
    then show ?thesis using uniq [of r' r] that r' by simp
  qed
  then have "set ps = set qs" by (force simp: ps)
  moreover from this c have "ps \<noteq> []" by (metis set_empty)
  ultimately show ?thesis using c by simp
qed

text \<open>
  C27. The published assurances are honest. In the manifest of a composite node of a loaded
  registry, unattended operation is claimed exactly if every physical node reachable by any role
  path has a watchdog that allows it, and each such watchdog is then safe against a worker crash;
  crash safety is claimed exactly if every reachable node has a crash-safe watchdog.
\<close>

theorem assurances_sound:
  assumes "load E dir = Inr R" "map_of (nodes R) i = Some (Composite c)"
  shows "\<exists>m safe unattended. manifest_of E R i = Inr m \<and>
    dget m ''assurances'' = Some (mkdict [(''worker_crash_safe'', PBool safe), (''unattended_operation_allowed'', PBool unattended)]) \<and>
    (safe \<longleftrightarrow> (\<forall>segs al p g. route (nodes R) i segs al p g \<longrightarrow> (\<exists>w. watchdog p = Some w \<and> worker_crash_safe w))) \<and>
    (unattended \<longleftrightarrow> (\<forall>segs al p g. route (nodes R) i segs al p g \<longrightarrow>
       (\<exists>w. watchdog p = Some w \<and> unattended_operation_allowed w \<and> worker_crash_safe w)))"
proof -
  have l: "loaded_ok E R" using load_Inr assms(1) .
  then have wf: "wf_table (nodes R)" by (simp add: loaded_ok_def)
  have i: "i \<in> fst ` set (nodes R)" using assms(2) by (force dest: map_of_SomeD)
  obtain m where m: "manifest_of E R i = Inr m" "manifest_spec (depth_limit (nodes R)) E R i = Inr m"
    using manifest_of_spec [OF l i] by auto
  then obtain k where "manifest_spec (Suc k) E R i = Inr m" by (cases "depth_limit (nodes R)") auto
  then obtain entries ps h where ps: "physical_descendants (nodes R) (node_id c) = Inr ps"
    and body: "m = composite_body R c entries ps @ [(PStr ''manifest_hash'', PStr h)]"
    unfolding manifest_spec_Suc using assms(2) by auto
  have "node_id c = i" using wf_tableD [OF wf assms(2)] by (simp add: node_common.defs)
  with descendants_routes [OF wf ps] have d: "ps \<noteq> []" "p \<in> set ps \<longleftrightarrow> (\<exists>segs al g. route (nodes R) i segs al p g)" for p
    by simp_all
  have safe: "worker_crash_safe w" if r: "route (nodes R) i segs al p g" "watchdog p = Some w" "unattended_operation_allowed w" for segs al p g w
  proof -
    obtain j where j: "map_of (nodes R) j = Some (Physical p)" using route_target [OF r(1)] by blast
    show ?thesis using wf_tableD [OF wf j] r by (simp add: wf_node_def)
  qed
  have "dget m ''assurances'' = Some (mkdict [(''worker_crash_safe'', PBool (assured ps worker_crash_safe)),
      (''unattended_operation_allowed'', PBool (assured ps unattended_operation_allowed))])"
    unfolding body by (simp add: composite_body_def mkdict_def common_manifest_def Let_def)
  moreover have "assured ps worker_crash_safe \<longleftrightarrow>
      (\<forall>segs al p g. route (nodes R) i segs al p g \<longrightarrow> (\<exists>w. watchdog p = Some w \<and> worker_crash_safe w))"
    unfolding assured_iff using d by blast
  moreover have "assured ps unattended_operation_allowed \<longleftrightarrow> (\<forall>segs al p g. route (nodes R) i segs al p g \<longrightarrow>
       (\<exists>w. watchdog p = Some w \<and> unattended_operation_allowed w \<and> worker_crash_safe w))"
  proof -
    have "(\<exists>w. watchdog p = Some w \<and> unattended_operation_allowed w) \<longleftrightarrow>
        (\<exists>w. watchdog p = Some w \<and> unattended_operation_allowed w \<and> worker_crash_safe w)" if "p \<in> set ps" for p
      using that safe unfolding d(2) by blast
    then show ?thesis unfolding assured_iff using d by blast
  qed
  ultimately show ?thesis using m(1) by blast
qed

section \<open>Instances\<close>

text \<open>A cell that holds one arm twice, once under an alias, and an operator for the arm.\<close>

definition demo_codecs :: pyenv where
  "demo_codecs = \<lparr>cbor_dumps = (\<lambda>v. Inr [0]), cbor_loads = (\<lambda>b. Inl ValueError), sha256 = (\<lambda>b. b),
     json_dumps = (\<lambda>v. []), json_loads = (\<lambda>s. Inl ValueError), py_repr = (\<lambda>v. []), float_of_str = (\<lambda>s. Inl ValueError)\<rparr>"

definition demo_arm :: "string \<Rightarrow> toml_file" where
  "demo_arm port = Document (the_dict (mkdict [(''node'', mkdict
     [(''id'', PStr ''arm''), (''kind'', PStr ''physical''), (''revision'', PInt 1), (''exposed_as_run_root'', PBool True),
      (''cross_collision_checked'', PBool False), (''adapter'', PStr ''sim''), (''adapter_revision'', PInt 1),
      (''configuration_revision'', PInt 1), (''connection'', mkdict [(''port'', PStr port)]),
      (''groups'', PList [mkdict [(''id'', PStr ''joints''), (''control_rate_hz'', PInt 50),
         (''command_schemas'', PList [PStr ''p/v1'']), (''telemetry_schemas'', PList [PStr ''t/v1'']),
         (''axes'', PList [mkdict [(''id'', PStr ''pan''), (''kind'', PStr ''revolute''), (''unit'', PStr ''rad''),
            (''minimum'', PInt (-1)), (''maximum'', PInt 1)]])]]),
      (''watchdog'', mkdict [(''strategy'', PStr ''device''), (''expiry_action'', PStr ''hold''),
         (''worker_crash_safe'', PBool True), (''unattended_operation_allowed'', PBool True)])])]))"

definition demo_cell :: toml_file where
  "demo_cell = Document (the_dict (mkdict [(''node'', mkdict
     [(''id'', PStr ''cell''), (''kind'', PStr ''composite''), (''revision'', PInt 1), (''exposed_as_run_root'', PBool True),
      (''cross_collision_checked'', PBool True),
      (''children'', PList [mkdict [(''role'', PStr ''left''), (''node'', PStr ''arm'')],
         mkdict [(''role'', PStr ''right''), (''node'', PStr ''arm''), (''alias'', PBool True)]])])]))"

definition demo_identity :: toml_file where
  "demo_identity = Document (the_dict (mkdict [(''identity'', mkdict
     [(''id'', PStr ''operator''), (''credential_env'', PStr ''TOKEN''), (''discover'', PList [PStr ''*'']), (''observe'', PList []),
      (''control'', PList [PStr ''cell.left.joints'']), (''emergency_stop'', PList [PStr ''cell''])])]))"

definition demo_dir :: "string \<Rightarrow> registry_dir" where
  "demo_dir port = \<lparr>server_file = Document (the_dict (mkdict [(''server'', mkdict [(''id'', PStr ''lab''), (''registry_version'', PInt 2)])])),
     robot_files = Some [demo_arm port, demo_cell], identity_files = IdentityFiles [demo_identity]\<rparr>"

definition demo_registry :: "string \<Rightarrow> registry" where
  "demo_registry port = projr (load demo_codecs (demo_dir port))"

lemma demo_load:
  "load demo_codecs (demo_dir ''COM3'') = Inr (demo_registry ''COM3'')"
  "load demo_codecs (demo_dir ''COM4'') = Inr (demo_registry ''COM4'')"
proof -
  have "\<not> isl (load demo_codecs (demo_dir ''COM3''))" "\<not> isl (load demo_codecs (demo_dir ''COM4''))" by code_simp+
  then show "load demo_codecs (demo_dir ''COM3'') = Inr (demo_registry ''COM3'')"
    "load demo_codecs (demo_dir ''COM4'') = Inr (demo_registry ''COM4'')" by (simp_all add: demo_registry_def)
qed

lemma demo_nodes: "fst ` set (nodes (demo_registry ''COM3'')) = {''arm'', ''cell''}"
  by code_simp

lemma demo_leaves:
  "leaf_paths (depth_limit (nodes (demo_registry ''COM3''))) (nodes (demo_registry ''COM3'')) ''cell'' [] False =
     Inr [((''arm'', ''joints''), ''left.joints'', False), ((''arm'', ''joints''), ''right.joints'', True)]"
  by code_simp

lemma demo_composite: "\<exists>c. map_of (nodes (demo_registry ''COM3'')) ''cell'' = Some (Composite c)"
proof -
  have "(case map_of (nodes (demo_registry ''COM3'')) ''cell'' of Some (Composite c) \<Rightarrow> True | _ \<Rightarrow> False) = True" by code_simp
  then show ?thesis by (auto split: option.splits control_node.splits)
qed

theorem loaded_registry_wellformed_witness: "acyclic (edges (nodes (demo_registry ''COM3'')))"
  using loaded_registry_wellformed [OF demo_load(1)] by blast

theorem resolve_matches_leaves_witness:
  "\<exists>rg. resolve_group (demo_registry ''COM3'') ''cell'' ''left.joints'' = Inr rg \<and> physical_node_id rg = ''arm'' \<and>
     resolved_group_id rg = ''joints''"
proof -
  have i: "''cell'' \<in> fst ` set (nodes (demo_registry ''COM3''))" by (simp add: demo_nodes)
  obtain leaves where l: "leaf_paths (depth_limit (nodes (demo_registry ''COM3''))) (nodes (demo_registry ''COM3'')) ''cell'' [] False = Inr leaves"
    "\<forall>path a b. (\<exists>al. ((a, b), path, al) \<in> set leaves) \<longleftrightarrow>
      (\<exists>rg. resolve_group (demo_registry ''COM3'') ''cell'' path = Inr rg \<and> physical_node_id rg = a \<and> resolved_group_id rg = b)"
    using resolve_matches_leaves [OF demo_load(1) i] by blast
  have "\<exists>al. ((''arm'', ''joints''), ''left.joints'', al) \<in> set leaves" using l(1) unfolding demo_leaves by auto
  then show ?thesis using l(2) by blast
qed

theorem one_primary_path_witness:
  "\<exists>!path. \<exists>q h. route (nodes (demo_registry ''COM3'')) ''cell'' path False q h \<and> node_id q = ''arm'' \<and> group_id h = ''joints''"
proof -
  obtain c where c: "map_of (nodes (demo_registry ''COM3'')) ''cell'' = Some (Composite c)" using demo_composite by blast
  have "\<exists>s al p g. route (nodes (demo_registry ''COM3'')) ''cell'' s al p g \<and> node_id p = ''arm'' \<and> group_id g = ''joints'' \<and>
      path = py_join (CHR ''.'') s" if "path \<in> {''left.joints'', ''right.joints''}" for path
    using leaf_paths_routes [OF demo_leaves, of "''arm''" "''joints''" path "path = ''right.joints''"] that by fastforce
  from this [of "''left.joints''"] this [of "''right.joints''"] obtain s al p g s' al' p' g' where
    r: "route (nodes (demo_registry ''COM3'')) ''cell'' s al p g" "node_id p = ''arm''" "group_id g = ''joints''"
      "''left.joints'' = py_join (CHR ''.'') s" and
    r': "route (nodes (demo_registry ''COM3'')) ''cell'' s' al' p' g'" "node_id p' = ''arm''" "group_id g' = ''joints''"
      "''right.joints'' = py_join (CHR ''.'') s'" by auto
  have "py_join (CHR ''.'') s \<noteq> py_join (CHR ''.'') s'" unfolding r(4) [symmetric] r'(4) [symmetric] by simp
  then have "s \<noteq> s'" by blast
  from one_primary_path [OF demo_load(1) c r(1) r'(1) this] r r' show ?thesis by simp
qed

theorem manifests_hide_connections_witness:
  "manifest_of demo_codecs (demo_registry ''COM4'') ''cell'' = manifest_of demo_codecs (demo_registry ''COM3'') ''cell'' \<and>
   nodes (demo_registry ''COM4'') \<noteq> nodes (demo_registry ''COM3'')"
proof -
  have "server_id (demo_registry ''COM4'') = server_id (demo_registry ''COM3'')"
    "public_table (nodes (demo_registry ''COM4'')) = public_table (nodes (demo_registry ''COM3''))"
    "nodes (demo_registry ''COM4'') \<noteq> nodes (demo_registry ''COM3'')" by code_simp+
  with manifests_hide_connections [OF demo_load, of "''cell''"] show ?thesis by blast
qed

theorem assurances_sound_witness:
  "\<exists>m safe unattended. manifest_of demo_codecs (demo_registry ''COM3'') ''cell'' = Inr m \<and>
    dget m ''assurances'' = Some (mkdict [(''worker_crash_safe'', PBool safe), (''unattended_operation_allowed'', PBool unattended)])"
proof -
  obtain c where "map_of (nodes (demo_registry ''COM3'')) ''cell'' = Some (Composite c)" using demo_composite by blast
  from assurances_sound [OF demo_load(1) this] show ?thesis by blast
qed

end
