(* ===== verification/ProgramSafety.thy ===== *)
theory ProgramSafety
  imports Program RegistrySafety
begin

text \<open>
  What the compiler guarantees: the samples of a compiled sequence, the program compiled against a
  loaded registry, and the artifacts accepted for execution.
\<close>

lemma case_list_Inr: "(case v of PList xs \<Rightarrow> f xs | _ \<Rightarrow> Inl e) = Inr y \<longleftrightarrow> (\<exists>xs. v = PList xs \<and> f xs = Inr y)"
  by (cases v) auto

lemma case_dict_Inr: "(case v of PDict d \<Rightarrow> f d | _ \<Rightarrow> Inl e) = Inr y \<longleftrightarrow> (\<exists>d. v = PDict d \<and> f d = Inr y)"
  by (cases v) auto

section \<open>Samples\<close>

text \<open>What the checks on one sample establish, given the sample before it.\<close>

definition sample_ok :: "pyenv \<Rightarrow> pydict list \<Rightarrow> string \<Rightarrow> string \<Rightarrow> sample option \<Rightarrow> sample \<Rightarrow> bool" where
  "sample_ok E axs reference schema prev s \<longleftrightarrow>
     0 \<le> fst s \<and> (case prev of None \<Rightarrow> fst s = 0 | Some p \<Rightarrow> fst p < fst s) \<and>
     length (snd s) = length axs \<and> list_all isfinite (snd s) \<and>
     \<not> (reference = ''phase_start_measured'' \<and> prev = None \<and> (\<exists>v \<in> set (snd s). flt (fround (1 / 10 ^ 12)) (fabs v))) \<and>
     (reference = ''absolute'' \<longrightarrow> forM (check_axis_limits E) (zip axs (snd s)) = Inr ()) \<and>
     \<not> (schema = NORMALIZED_POSITION_SCHEMA \<and> invalid_normalized reference (snd s)) \<and>
     (case prev of None \<Rightarrow> True | Some p \<Rightarrow> validate_segment_rates E axs (snd p) (snd s) (fst s - fst p) = Inr ())"

fun samples_ok :: "pyenv \<Rightarrow> pydict list \<Rightarrow> string \<Rightarrow> string \<Rightarrow> sample option \<Rightarrow> sample list \<Rightarrow> bool" where
  "samples_ok E axs reference schema prev [] = True"
| "samples_ok E axs reference schema prev (s # ss) =
     (sample_ok E axs reference schema prev s \<and> samples_ok E axs reference schema (Some s) ss)"

lemma sample_time_Inr:
  "sample_time prev v = Inr t \<longleftrightarrow> v = PInt t \<and> 0 \<le> t \<and> (case prev of None \<Rightarrow> t = 0 | Some p \<Rightarrow> fst p < t)"
  by (auto simp: sample_time_def split: pyval.splits option.splits)

lemma sample_values_Inr:
  "sample_values E n v = Inr values \<Longrightarrow> length values = n \<and> list_all isfinite values"
  by (auto simp: sample_values_def dest: mapM_length split: pyval.splits)

lemma compile_sample_Inr:
  "compile_sample E axs reference schema prev (PDict d) = Inr s \<longleftrightarrow>
     require_exact_fields d [''t_us'', ''values''] [] = Inr () \<and>
     (\<exists>v. dindex d ''t_us'' = Inr v \<and> sample_time prev v = Inr (fst s)) \<and>
     (\<exists>v. dindex d ''values'' = Inr v \<and> sample_values E (length axs) v = Inr (snd s)) \<and>
     \<not> (reference = ''phase_start_measured'' \<and> prev = None \<and> (\<exists>v \<in> set (snd s). flt (fround (1 / 10 ^ 12)) (fabs v))) \<and>
     (reference = ''absolute'' \<longrightarrow> forM (check_axis_limits E) (zip axs (snd s)) = Inr ()) \<and>
     \<not> (schema = NORMALIZED_POSITION_SCHEMA \<and> invalid_normalized reference (snd s)) \<and>
     (case prev of None \<Rightarrow> True | Some p \<Rightarrow> validate_segment_rates E axs (snd p) (snd s) (fst s - fst p) = Inr ())"
  unfolding compile_sample_def pyval.case bind_eq_Inr raise_if_eq_Inr
  by (cases s; cases prev; cases "reference = ''absolute''") auto

lemma compile_sample_ok:
  assumes "compile_sample E axs reference schema prev raw = Inr s"
  shows "sample_ok E axs reference schema prev s"
proof -
  obtain d where d: "raw = PDict d" using assms by (cases raw) (auto simp: compile_sample_def)
  show ?thesis
    using assms unfolding d compile_sample_Inr sample_time_Inr sample_ok_def
    by (auto dest: sample_values_Inr)
qed

lemma compile_samples_ok: "compile_samples E axs reference schema prev raws = Inr ss \<Longrightarrow> samples_ok E axs reference schema prev ss"
  by (induction raws arbitrary: prev ss) (auto intro: compile_sample_ok)

text \<open>Compiled samples compile to themselves.\<close>

lemma mapM_py_float: "mapM (py_float E) (map PFloat vs) = Inr vs"
  by (induction vs) (auto simp: py_float_def)

lemma sample_values_floats:
  "length vs = n \<Longrightarrow> list_all isfinite vs \<Longrightarrow> sample_values E n (PList (map PFloat vs)) = Inr vs"
  by (auto simp: sample_values_def mapM_py_float)

lemma compile_sample_dict:
  assumes "sample_ok E axs reference schema prev s"
  shows "compile_sample E axs reference schema prev (sample_dict s) = Inr s"
proof -
  have "require_exact_fields (the_dict (sample_dict s)) [''t_us'', ''values''] [] = Inr ()"
    by (simp add: require_exact_fields_def exact_keys_def sample_dict_def mkdict_def keys_def)
  with assms show ?thesis
    unfolding sample_dict_def mkdict_def compile_sample_Inr sample_ok_def
    by (simp add: dindex_def sample_time_Inr sample_values_floats)
qed

lemma compile_samples_dict:
  "samples_ok E axs reference schema prev ss \<Longrightarrow> compile_samples E axs reference schema prev (map sample_dict ss) = Inr ss"
  by (induction ss arbitrary: prev) (auto simp: compile_sample_dict)

lemma compile_dense_samples_ok:
  assumes "compile_dense_samples E raw axs reference schema = Inr ss"
  shows "2 \<le> length ss \<and> samples_ok E axs reference schema None ss"
proof -
  have len: "compile_samples E axs reference schema prev raws = Inr ss \<Longrightarrow> length ss = length raws" for prev raws ss
    by (induction raws arbitrary: prev ss) auto
  show ?thesis using assms compile_samples_ok len by (cases raw) (fastforce simp: compile_dense_samples_def)+
qed

lemma compile_dense_samples_dict:
  "2 \<le> length ss \<Longrightarrow> samples_ok E axs reference schema None ss \<Longrightarrow>
     compile_dense_samples E (PList (map sample_dict ss)) axs reference schema = Inr ss"
  by (simp add: compile_dense_samples_def compile_samples_dict)

lemma samples_ok_nth:
  "samples_ok E axs reference schema prev ss \<Longrightarrow> k < length ss \<Longrightarrow>
     sample_ok E axs reference schema (if k = 0 then prev else Some (ss ! (k - 1))) (ss ! k)"
proof (induction ss arbitrary: prev k)
  case (Cons s ss)
  show ?case
  proof (cases k)
    case (Suc l)
    with Cons.IH [of "Some s" l] Cons.prems show ?thesis by (cases l) auto
  qed (use Cons.prems in simp)
qed simp

section \<open>The checks against the axes of a registry\<close>

text \<open>The axis record the compiler works with.\<close>

definition compiler_axis :: "axis_spec \<Rightarrow> pydict" where
  "compiler_axis a = the_dict (axis_asdict a) @ [(PStr ''name'', PStr (axis_id a)), (PStr ''lower'', PFloat (minimum a)),
     (PStr ''upper'', PFloat (maximum a))]"

lemmas asdict_defs = axis_asdict_def group_asdict_def resolved_asdict_def mkdict_def

lemma normalize_axis_asdict: "normalize_axis (plain (axis_asdict a)) = Inr (compiler_axis a)"
  by (cases "max_velocity a") (simp_all add: normalize_axis_def asdict_defs compiler_axis_def rename_field_def)

lemma compiler_axis_fields [simp]:
  "dget (compiler_axis a) ''name'' = Some (PStr (axis_id a))"
  "dget (compiler_axis a) ''kind'' = Some (PStr (axis_kind a))"
  "dget (compiler_axis a) ''unit'' = Some (PStr (axis_unit a))"
  "dget (compiler_axis a) ''lower'' = Some (PFloat (minimum a))"
  "dget (compiler_axis a) ''upper'' = Some (PFloat (maximum a))"
  "dget (compiler_axis a) ''max_velocity'' = Some (case max_velocity a of None \<Rightarrow> PNone | Some v \<Rightarrow> PFloat v)"
  "dget (compiler_axis a) ''max_acceleration'' = None"
  by (simp_all add: compiler_axis_def asdict_defs)

lemma optional_fields [simp]:
  "optional_of (compiler_axis a) ''lower'' (py_float E) = Inr (Some (minimum a))"
  "optional_of (compiler_axis a) ''upper'' (py_float E) = Inr (Some (maximum a))"
  "optional_of (compiler_axis a) ''max_velocity'' (py_float E) = Inr (max_velocity a)"
  "optional_of (compiler_axis a) ''max_acceleration'' (py_float E) = Inr None"
  by (simp_all add: optional_of_def dget_or_def py_float_def split: option.split)

lemma axis_error_compiler [simp]:
  "axis_error (compiler_axis a) [''name''] code = Inl (ProgramError code)"
  "axis_error (compiler_axis a) [''name'', ''unit''] code = Inl (ProgramError code)"
  by (simp_all add: axis_error_def dindex_def)

lemma check_axis_limits_iff:
  "check_axis_limits E (compiler_axis a, v) =
     (if flt v (minimum a) \<or> flt (maximum a) v then Inl (ProgramError ''LIMIT_VIOLATION'') else Inr ())"
  by (simp add: check_axis_limits_def under_limit_def over_limit_def)

lemma check_axis_rates_velocity:
  assumes r: "check_axis_rates E s (compiler_axis a, Fin x, Fin y) = Inr ()"
    and dt: "int_truediv dt 1000000 = Inr s" "1 \<le> dt" and V: "max_velocity a = Some (Fin V)"
  shows "15 / 8 * \<bar>y - x\<bar> / (of_int dt / 1000000) \<le> rate_bound V"
proof -
  define S :: rat where "S = of_int dt / 1000000"
  have S: "1 / 10 ^ 6 \<le> S" using dt(2) by (simp add: S_def divide_simps)
  obtain f where f: "s = Fin f" "fround S = Fin f"
    using dt(1) by (auto simp: int_truediv_def Let_def S_def split: if_splits elim: isfinite.elims)
  have s12: "1 / 10 ^ 12 \<le> S" "1 / 10 ^ 13 \<le> S" by (rule order_trans [OF _ S], simp)+
  note fu = fround_upper [OF f(2) s12(2)]
  have S0: "0 < S" using S by (rule less_le_trans [rotated]) simp
  have "S \<le> cc * S" "cc * S \<le> cc * (cc * S)" "cc * (cc * S) \<le> cc * (cc * (cc * S))" using S0 by simp_all
  then have "f \<le> cc * (cc * (cc * S))" using fu(2) by linarith
  moreover obtain v where "fdiv (fmul (Fin (15 / 8)) (fabs (fsub (Fin y) (Fin x)))) (Fin f) = Inr v" "\<not> flt (Fin V) v"
    using r by (auto simp: check_axis_rates_def Let_def over_limit_def V f(1) split: if_splits)
  ultimately show ?thesis
    using rate_check_sound [of "15 / 8" S f y x v V] s12(1) fu(1) by (simp add: rate_bound_def S_def)
qed

text \<open>What a dense pose and a segment satisfy in terms of the axes.\<close>

definition axis_ok :: "string \<Rightarrow> string \<Rightarrow> axis_spec \<Rightarrow> pyfloat \<Rightarrow> bool" where
  "axis_ok reference schema a v \<longleftrightarrow> (\<exists>q. v = Fin q \<and>
     (reference = ''absolute'' \<longrightarrow> (\<exists>lo hi. minimum a = Fin lo \<and> maximum a = Fin hi \<and> lo \<le> q \<and> q \<le> hi)) \<and>
     (schema = NORMALIZED_POSITION_SCHEMA \<longrightarrow> (if reference = ''absolute'' then 0 \<le> q else -1 \<le> q) \<and> q \<le> 1))"

definition segment_ok :: "axis_spec list \<Rightarrow> sample \<Rightarrow> sample \<Rightarrow> bool" where
  "segment_ok as p s \<longleftrightarrow> fst p < fst s \<and>
     (\<forall>j < length as. \<forall>V x y. max_velocity (as ! j) = Some (Fin V) \<longrightarrow> snd p ! j = Fin x \<longrightarrow> snd s ! j = Fin y \<longrightarrow>
        15 / 8 * \<bar>y - x\<bar> / (of_int (fst s - fst p) / 1000000) \<le> rate_bound V)"

definition trajectory_ok :: "axis_spec list \<Rightarrow> compiled_sequence \<Rightarrow> bool" where
  "trajectory_ok as s \<longleftrightarrow> 2 \<le> length (seq_samples s) \<and> fst (hd (seq_samples s)) = 0 \<and>
     (\<forall>x \<in> set (seq_samples s). list_all2 (axis_ok (seq_reference s) (seq_schema s)) as (snd x)) \<and>
     successively (segment_ok as) (seq_samples s) \<and>
     (seq_reference s = ''phase_start_measured'' \<longrightarrow> (\<forall>v \<in> set (snd (hd (seq_samples s))). \<exists>q. v = Fin q \<and> \<bar>q\<bar> \<le> 2 / 10 ^ 12))"

lemma sample_ok_pose:
  assumes "sample_ok E (map compiler_axis as) reference schema prev s" and wf: "list_all wf_axis as"
  shows "list_all2 (axis_ok reference schema) as (snd s)"
proof (rule list_all2_all_nthI)
  show len: "length as = length (snd s)" using assms(1) by (simp add: sample_ok_def)
  fix j assume j: "j < length as"
  then have j': "j < length (snd s)" and mem: "snd s ! j \<in> set (snd s)" using len by simp_all
  obtain q where q: "snd s ! j = Fin q"
    using assms(1) mem by (auto simp: sample_ok_def list_all_iff isfinite_iff)
  have "check_axis_limits E (compiler_axis (as ! j), Fin q) = Inr ()" if "reference = ''absolute''"
    using assms(1) that j j' q unfolding sample_ok_def forM_Inr_iff
    by (metis (no_types, lifting) in_set_zip fst_conv length_map nth_map snd_conv)
  moreover have "(if reference = ''absolute'' then 0 \<le> q else -1 \<le> q) \<and> q \<le> 1" if "schema = NORMALIZED_POSITION_SCHEMA"
  proof -
    have "\<not> invalid_normalized reference (snd s)" using assms(1) that by (simp add: sample_ok_def)
    with mem show ?thesis unfolding q invalid_normalized_def by (metis flt.simps(1) not_less)
  qed
  moreover have "wf_axis (as ! j)" using wf j by (simp add: list_all_length)
  ultimately show "axis_ok reference schema (as ! j) (snd s ! j)"
    unfolding q check_axis_limits_iff axis_ok_def wf_axis_def by (auto simp: not_less split: if_splits)
qed

lemma sample_ok_segment:
  assumes "sample_ok E (map compiler_axis as) reference schema (Some p) s" and "length (snd p) = length as"
  shows "segment_ok as p s"
  unfolding segment_ok_def
proof (intro conjI allI impI)
  show lt: "fst p < fst s" using assms(1) by (simp add: sample_ok_def)
  fix j V x y
  assume j: "j < length as" "max_velocity (as ! j) = Some (Fin V)" "snd p ! j = Fin x" "snd s ! j = Fin y"
  obtain d where d: "int_truediv (fst s - fst p) 1000000 = Inr d"
    and c: "\<forall>z \<in> set (zip (map compiler_axis as) (zip (snd p) (snd s))). check_axis_rates E d z = Inr ()"
    using assms(1) by (auto simp: sample_ok_def validate_segment_rates_def forM_Inr_iff)
  have "length (snd s) = length as" using assms(1) by (simp add: sample_ok_def)
  then have "(compiler_axis (as ! j), Fin x, Fin y) \<in> set (zip (map compiler_axis as) (zip (snd p) (snd s)))"
    using j assms(2) by (force simp: in_set_zip)
  with c have "check_axis_rates E d (compiler_axis (as ! j), Fin x, Fin y) = Inr ()" by blast
  from check_axis_rates_velocity [OF this d _ j(2)] lt
  show "15 / 8 * \<bar>y - x\<bar> / (of_int (fst s - fst p) / 1000000) \<le> rate_bound V" by simp
qed

lemma samples_ok_trajectory:
  assumes ok: "samples_ok E (map compiler_axis as) (seq_reference s) (seq_schema s) None (seq_samples s)"
    and len: "2 \<le> length (seq_samples s)" and wf: "list_all wf_axis as"
  shows "trajectory_ok as s"
proof -
  let ?ss = "seq_samples s"
  note nth = samples_ok_nth [OF ok]
  have pose: "list_all2 (axis_ok (seq_reference s) (seq_schema s)) as (snd x)" if "x \<in> set ?ss" for x
    using that nth sample_ok_pose wf by (metis in_set_conv_nth)
  have seg: "successively (segment_ok as) ?ss"
    unfolding successively_conv_nth
  proof (intro allI impI)
    fix i assume i: "Suc i < length ?ss"
    then have "length (snd (?ss ! i)) = length as" using pose [of "?ss ! i"] by (auto dest: list_all2_lengthD)
    with sample_ok_segment nth [OF i] show "segment_ok as (?ss ! i) (?ss ! Suc i)" by simp
  qed
  have first: "sample_ok E (map compiler_axis as) (seq_reference s) (seq_schema s) None (hd ?ss)"
    using nth [of 0] len by (cases ?ss) auto
  obtain c where c: "fround (1 / 10 ^ 12) = Fin c" "c \<le> cc * (1 / 10 ^ 12)"
    by (rule fround_finite [of "1 / 10 ^ 12"]) (use fround_upper [of "1 / 10 ^ 12"] in force)+
  have c2: "c \<le> 2 / 10 ^ 12" by (rule order_trans [OF c(2)]) simp
  have "\<exists>q. v = Fin q \<and> \<bar>q\<bar> \<le> 2 / 10 ^ 12"
    if "seq_reference s = ''phase_start_measured''" "v \<in> set (snd (hd ?ss))" for v
    using first that c c2 by (force simp: sample_ok_def list_all_iff isfinite_iff not_less)
  with first pose seg len show ?thesis by (auto simp: trajectory_ok_def sample_ok_def)
qed

section \<open>Sequences and phases\<close>

lemma plain_mkdict: "plain (mkdict kvs) = mkdict (map (\<lambda>(k, v). (k, plain v)) kvs)"
  by (auto simp: mkdict_def)

lemma normalize_resolved:
  "normalize_resolution (resolved_asdict g) = Inr \<lparr>res_node = physical_node_id g, res_group = resolved_group_id g,
     res_schemas = PList (map PStr (command_schemas (resolved_spec g))), res_axes = map compiler_axis (axes (resolved_spec g))\<rparr>"
proof -
  have idem: "plain (plain v) = plain v" for v by (induction v) (auto simp: comp_def)
  have "mapM normalize_axis (map (plain \<circ> (plain \<circ> axis_asdict)) as) = Inr (map compiler_axis as)" for as
    by (induction as) (auto simp: normalize_axis_asdict idem)
  then show ?thesis
    by (simp add: normalize_resolution_def resolved_asdict_def group_asdict_def mkdict_def dget_or_def py_iter_def comp_assoc)
qed

definition target :: "compiled_sequence \<times> string \<Rightarrow> string \<times> string" where
  "target x = (seq_node (fst x), seq_group (fst x))"

definition compiled_axes :: "axis_spec list \<Rightarrow> (string \<times> string \<times> string) list" where
  "compiled_axes as = map (\<lambda>a. (axis_id a, axis_kind a, axis_unit a)) as"

text \<open>
  What a compiled sequence satisfies, relative to how role paths resolve: exactly what makes its
  own template compile to it again.
\<close>

definition sequence_spec :: "pyenv \<Rightarrow> (string \<Rightarrow> resolved_group result) \<Rightarrow> compiled_sequence \<Rightarrow> bool" where
  "sequence_spec E res s \<longleftrightarrow> role_path_of (PStr (seq_role_path s)) = Inr (seq_role_path s) \<and>
     seq_schema s \<in> set POSITION_SCHEMAS \<and> seq_reference s \<in> set REFERENCES \<and> 2 \<le> length (seq_samples s) \<and>
     (\<exists>g. res (seq_role_path s) = Inr g \<and> seq_node s = physical_node_id g \<and> seq_group s = resolved_group_id g \<and>
        seq_schema s \<in> set (command_schemas (resolved_spec g)) \<and> seq_axes s = compiled_axes (axes (resolved_spec g)) \<and>
        axes (resolved_spec g) \<noteq> [] \<and>
        samples_ok E (map compiler_axis (axes (resolved_spec g))) (seq_reference s) (seq_schema s) None (seq_samples s))"

lemma role_path_of_idem: "role_path_of v = Inr s \<Longrightarrow> role_path_of (PStr s) = Inr s"
  by (auto simp: role_path_of_def short_id_def split: pyval.splits)

lemma axis_triples: "mapM (axis_triple E) (map compiler_axis as) = Inr (compiled_axes as)"
  by (induction as) (auto simp: axis_triple_def compiled_axes_def dindex_def py_str_def)

lemma check_schema_strings:
  "check_schema (PList (map PStr cs)) c = Inr () \<longleftrightarrow> c \<in> set cs \<and> c \<in> set POSITION_SCHEMAS"
  by (auto simp: check_schema_def py_iter_def list_all_iff raise_if_def)

lemma sequence_compiles_to_spec:
  assumes c: "compile_sequence E V root_id raw = Inr s"
    and V: "\<And>path. rv_resolve_group V root_id path = bind (res path) (\<lambda>g. Inr (resolved_asdict g))"
  shows "sequence_spec E res s"
proof -
  obtain d where raw: "raw = PDict d" using c by (cases raw) (auto simp: compile_sequence_def)
  obtain vg path g vs vr vsam axs where "role_path_of vg = Inr path" "res path = Inr g"
    and *: "check_schema (PList (map PStr (command_schemas (resolved_spec g)))) (py_str E vs) = Inr ()" "py_str E vr \<in> set REFERENCES"
    "axes (resolved_spec g) \<noteq> []"
    "compile_dense_samples E vsam (map compiler_axis (axes (resolved_spec g))) (py_str E vr) (py_str E vs) = Inr (seq_samples s)"
    "mapM (axis_triple E) (map compiler_axis (axes (resolved_spec g))) = Inr axs"
    "s = \<lparr>seq_role_path = path, seq_node = physical_node_id g, seq_group = resolved_group_id g, seq_schema = py_str E vs,
       seq_reference = py_str E vr, seq_axes = axs, seq_samples = seq_samples s\<rparr>"
    using c unfolding raw compile_sequence_def pyval.case bind_eq_Inr raise_if_eq_Inr V Let_def
    by (elim exE conjE) (auto simp: normalize_resolved)
  from this(1) have "role_path_of (PStr path) = Inr path" by (rule role_path_of_idem)
  with * \<open>res path = Inr g\<close> show ?thesis
    using compile_dense_samples_ok [OF *(4)] unfolding sequence_spec_def check_schema_strings axis_triples
    by (metis (no_types, lifting) compiled_sequence.select_convs(1-6) sum.inject(2))
qed

definition sequence_template :: "compiled_sequence \<Rightarrow> pyval" where
  "sequence_template s = mkdict [(''group'', PStr (seq_role_path s)), (''command_schema'', PStr (seq_schema s)),
     (''reference'', PStr (seq_reference s)), (''samples'', PList (map sample_dict (seq_samples s)))]"

lemma spec_compiles_to_sequence:
  assumes spec: "sequence_spec E res s"
    and V: "\<And>path. rv_resolve_group V root_id path = bind (res path) (\<lambda>g. Inr (resolved_asdict g))"
  shows "compile_sequence E V root_id (sequence_template s) = Inr s"
proof -
  from spec obtain g where g: "res (seq_role_path s) = Inr g" "seq_node s = physical_node_id g" "seq_group s = resolved_group_id g"
    "check_schema (PList (map PStr (command_schemas (resolved_spec g)))) (seq_schema s) = Inr ()"
    "seq_axes s = compiled_axes (axes (resolved_spec g))" "axes (resolved_spec g) \<noteq> []"
    "compile_dense_samples E (PList (map sample_dict (seq_samples s))) (map compiler_axis (axes (resolved_spec g)))
       (seq_reference s) (seq_schema s) = Inr (seq_samples s)"
    unfolding sequence_spec_def check_schema_strings using compile_dense_samples_dict by blast
  have f: "require_exact_fields (the_dict (sequence_template s)) [''group'', ''command_schema'', ''reference'', ''samples''] [] = Inr ()"
    by (simp add: require_exact_fields_def exact_keys_def sequence_template_def mkdict_def keys_def)
  show ?thesis
    using f g spec unfolding sequence_template_def sequence_spec_def
    by (simp add: compile_sequence_def mkdict_def V normalize_resolved dindex_def py_str_def axis_triples)
qed

lemma foldM_add_sequence:
  "foldM (add_sequence E V root_id) (ts, d, ss) raws = Inr (ts', d', all) \<longleftrightarrow>
     (\<exists>new. all = ss @ new \<and> ts' = rev (map target new) @ ts \<and> d' = fold max (map (seq_duration \<circ> fst) new) d \<and>
        list_all2 (\<lambda>raw x. compile_sequence E V root_id raw = Inr (fst x) \<and>
           digest_value E (mkdict (sequence_items (fst x))) = Inr (snd x)) raws new \<and>
        distinct (map target new) \<and> set (map target new) \<inter> set ts = {})"
proof (induction raws arbitrary: ts d ss)
  case Nil
  then show ?case by auto
next
  case (Cons raw raws)
  have step: "add_sequence E V root_id (ts, d, ss) raw = Inr acc \<longleftrightarrow>
      (\<exists>s sha. compile_sequence E V root_id raw = Inr s \<and> digest_value E (mkdict (sequence_items s)) = Inr sha \<and>
         target (s, sha) \<notin> set ts \<and> acc = (target (s, sha) # ts, max d (seq_duration s), ss @ [(s, sha)]))" for acc
    by (auto simp: add_sequence_def target_def Let_def)
  have comm: "max d e = max e d" for d e :: int by (rule max.commute)
  show ?case
    unfolding foldM.simps bind_eq_Inr step
  proof (intro iffI; elim exE conjE)
    fix acc s sha
    assume a: "foldM (add_sequence E V root_id) acc raws = Inr (ts', d', all)" "compile_sequence E V root_id raw = Inr s"
      "digest_value E (mkdict (sequence_items s)) = Inr sha" "target (s, sha) \<notin> set ts"
      "acc = (target (s, sha) # ts, max d (seq_duration s), ss @ [(s, sha)])"
    then obtain new where "all = (ss @ [(s, sha)]) @ new" "ts' = rev (map target new) @ target (s, sha) # ts"
      "d' = fold max (map (seq_duration \<circ> fst) new) (max d (seq_duration s))"
      "list_all2 (\<lambda>raw x. compile_sequence E V root_id raw = Inr (fst x) \<and>
           digest_value E (mkdict (sequence_items (fst x))) = Inr (snd x)) raws new"
      "distinct (map target new)" "set (map target new) \<inter> set (target (s, sha) # ts) = {}"
      unfolding a(5) Cons.IH by blast
    with a show "\<exists>new. all = ss @ new \<and> ts' = rev (map target new) @ ts \<and> d' = fold max (map (seq_duration \<circ> fst) new) d \<and>
        list_all2 (\<lambda>raw x. compile_sequence E V root_id raw = Inr (fst x) \<and>
           digest_value E (mkdict (sequence_items (fst x))) = Inr (snd x)) (raw # raws) new \<and>
        distinct (map target new) \<and> set (map target new) \<inter> set ts = {}"
      by (intro exI [of _ "(s, sha) # new"]) (auto simp: comm)
  next
    fix new
    assume a: "all = ss @ new" "ts' = rev (map target new) @ ts" "d' = fold max (map (seq_duration \<circ> fst) new) d"
      "list_all2 (\<lambda>raw x. compile_sequence E V root_id raw = Inr (fst x) \<and>
         digest_value E (mkdict (sequence_items (fst x))) = Inr (snd x)) (raw # raws) new"
      "distinct (map target new)" "set (map target new) \<inter> set ts = {}"
    then obtain s sha rest where n: "new = (s, sha) # rest" by (cases new) auto
    have "foldM (add_sequence E V root_id) (target (s, sha) # ts, max d (seq_duration s), ss @ [(s, sha)]) raws = Inr (ts', d', all)"
      unfolding Cons.IH using a n by (intro exI [of _ rest]) (auto simp: comm)
    with a n show "\<exists>acc. (\<exists>s sha. compile_sequence E V root_id raw = Inr s \<and> digest_value E (mkdict (sequence_items s)) = Inr sha \<and>
         target (s, sha) \<notin> set ts \<and> acc = (target (s, sha) # ts, max d (seq_duration s), ss @ [(s, sha)])) \<and>
        foldM (add_sequence E V root_id) acc raws = Inr (ts', d', all)"
      by auto
  qed
qed

text \<open>What a compiled phase satisfies.\<close>

definition phase_spec :: "pyenv \<Rightarrow> (string \<Rightarrow> resolved_group result) \<Rightarrow> compiled_phase \<Rightarrow> bool" where
  "phase_spec E res p \<longleftrightarrow> short_id (PStr (ph_id p)) = Inr (ph_id p) \<and> ph_completion p = DEFAULT_COMPLETION \<and>
     ph_transitions p = [] \<and> ph_sequences p \<noteq> [] \<and> distinct (map target (ph_sequences p)) \<and>
     ph_duration p = fold max (map (seq_duration \<circ> fst) (ph_sequences p)) 0 \<and>
     (\<forall>x \<in> set (ph_sequences p). sequence_spec E res (fst x) \<and>
        digest_value E (mkdict (sequence_items (fst x))) = Inr (snd x)) \<and>
     digest_value E (mkdict (phase_items p)) = Inr (ph_sha256 p)"

lemma short_id_Inr: "short_id v = Inr s \<Longrightarrow> short_id (PStr s) = Inr s"
  by (auto simp: short_id_def split: pyval.splits)

lemma default_completion_unique: "py_eq v DEFAULT_COMPLETION \<longleftrightarrow> v = DEFAULT_COMPLETION"
proof
  assume "py_eq v DEFAULT_COMPLETION"
  then show "v = DEFAULT_COMPLETION"
    by (cases v) (auto simp: DEFAULT_COMPLETION_def mkdict_def py_eq.simps [of "PDict _"] py_eq.simps [of _ "PDict _"] length_Suc_conv
        py_eq_str_right py_eq_str_left)
next
  show "v = DEFAULT_COMPLETION \<Longrightarrow> py_eq v DEFAULT_COMPLETION"
    by (auto simp: DEFAULT_COMPLETION_def mkdict_def intro!: py_eq_refl)
qed

lemma phase_items_sha [simp]: "phase_items (p\<lparr>ph_sha256 := h\<rparr>) = phase_items p"
  by (simp add: phase_items_def)

lemma phase_compiles_to_spec:
  assumes c: "compile_phase E V root_id raw = Inr p"
    and V: "\<And>path. rv_resolve_group V root_id path = bind (res path) (\<lambda>g. Inr (resolved_asdict g))"
  shows "phase_spec E res p"
proof -
  obtain d where raw: "raw = PDict d" using c by (cases raw) (auto simp: compile_phase_def)
  obtain v i raws ts dur seqs sha where *: "short_id v = Inr i" "raws \<noteq> []"
    "foldM (add_sequence E V root_id) ([], 0, []) raws = Inr (ts, dur, seqs)"
    "p = \<lparr>ph_id = i, ph_duration = dur, ph_completion = DEFAULT_COMPLETION, ph_transitions = [], ph_sequences = seqs, ph_sha256 = sha\<rparr>"
    and sha: "digest_value E (mkdict (phase_items p)) = Inr sha"
    using c unfolding raw compile_phase_def
    by (auto simp: Let_def default_completion_unique phase_items_def case_list_Inr)
  from *(3) have seqs: "list_all2 (\<lambda>raw x. compile_sequence E V root_id raw = Inr (fst x) \<and>
       digest_value E (mkdict (sequence_items (fst x))) = Inr (snd x)) raws seqs" "distinct (map target seqs)"
    "dur = fold max (map (seq_duration \<circ> fst) seqs) 0"
    unfolding foldM_add_sequence by auto
  have "sequence_spec E res (fst x) \<and> digest_value E (mkdict (sequence_items (fst x))) = Inr (snd x)" if "x \<in> set seqs" for x
  proof -
    from that seqs(1) obtain r where "compile_sequence E V root_id r = Inr (fst x)"
      "digest_value E (mkdict (sequence_items (fst x))) = Inr (snd x)"
      by (auto simp: list_all2_conv_all_nth in_set_conv_nth)
    with sequence_compiles_to_spec V show ?thesis by blast
  qed
  moreover have "seqs \<noteq> []" using seqs(1) *(2) by auto
  ultimately show ?thesis
    using seqs sha short_id_Inr [OF *(1)] unfolding phase_spec_def *(4) by simp
qed

definition phase_template :: "compiled_phase \<Rightarrow> pyval" where
  "phase_template p = mkdict [(''phase_id'', PStr (ph_id p)), (''completion'', ph_completion p),
     (''transitions'', PList (ph_transitions p)), (''sequences'', PList (map (sequence_template \<circ> fst) (ph_sequences p)))]"

lemma spec_compiles_to_phase:
  assumes spec: "phase_spec E res p"
    and V: "\<And>path. rv_resolve_group V root_id path = bind (res path) (\<lambda>g. Inr (resolved_asdict g))"
  shows "compile_phase E V root_id (phase_template p) = Inr p"
proof -
  have "list_all2 (\<lambda>raw x. compile_sequence E V root_id raw = Inr (fst x) \<and>
       digest_value E (mkdict (sequence_items (fst x))) = Inr (snd x)) (map (sequence_template \<circ> fst) (ph_sequences p)) (ph_sequences p)"
    using spec spec_compiles_to_sequence [OF _ V] by (auto simp: phase_spec_def list_all2_conv_all_nth)
  then have "foldM (add_sequence E V root_id) ([], 0, []) (map (sequence_template \<circ> fst) (ph_sequences p)) =
      Inr (rev (map target (ph_sequences p)), ph_duration p, ph_sequences p)"
    using spec by (simp add: foldM_add_sequence phase_spec_def)
  moreover have "require_exact_fields (the_dict (phase_template p)) [''phase_id'', ''sequences''] [''completion'', ''transitions''] = Inr ()"
    by (simp add: require_exact_fields_def exact_keys_def phase_template_def mkdict_def keys_def)
  moreover have "py_eq DEFAULT_COMPLETION DEFAULT_COMPLETION" by (simp add: default_completion_unique)
  moreover have "p\<lparr>ph_sha256 := []\<rparr> = \<lparr>ph_id = ph_id p, ph_duration = ph_duration p, ph_completion = DEFAULT_COMPLETION,
      ph_transitions = [], ph_sequences = ph_sequences p, ph_sha256 = []\<rparr>"
    using spec by (simp add: phase_spec_def)
  then have "phase_items \<lparr>ph_id = ph_id p, ph_duration = ph_duration p, ph_completion = DEFAULT_COMPLETION,
      ph_transitions = [], ph_sequences = ph_sequences p, ph_sha256 = []\<rparr> = phase_items p"
    by (metis phase_items_sha)
  ultimately show ?thesis
    using spec unfolding phase_template_def
    by (simp add: compile_phase_def mkdict_def phase_spec_def dindex_def dget_or_def)
qed

lemma foldM_add_phase:
  "foldM (add_phase E V root_id) ps raws = Inr all \<longleftrightarrow>
     (\<exists>new. all = ps @ new \<and> list_all2 (\<lambda>raw p. compile_phase E V root_id raw = Inr p) raws new \<and>
        distinct (map ph_id new) \<and> set (map ph_id new) \<inter> set (map ph_id ps) = {})"
proof (induction raws arbitrary: ps)
  case (Cons raw raws)
  have "foldM (add_phase E V root_id) ps (raw # raws) = Inr all \<longleftrightarrow>
      (\<exists>p new. compile_phase E V root_id raw = Inr p \<and> ph_id p \<notin> ph_id ` set ps \<and> all = (ps @ [p]) @ new \<and>
        list_all2 (\<lambda>raw p. compile_phase E V root_id raw = Inr p) raws new \<and> distinct (map ph_id new) \<and>
        set (map ph_id new) \<inter> set (map ph_id (ps @ [p])) = {})"
    unfolding foldM.simps bind_eq_Inr Cons.IH by (auto simp: add_phase_def)
  also have "\<dots> \<longleftrightarrow> (\<exists>new. all = ps @ new \<and> list_all2 (\<lambda>raw p. compile_phase E V root_id raw = Inr p) (raw # raws) new \<and>
        distinct (map ph_id new) \<and> set (map ph_id new) \<inter> set (map ph_id ps) = {})"
    (is "?L \<longleftrightarrow> ?R")
  proof
    assume ?L
    then obtain p new where "compile_phase E V root_id raw = Inr p" "ph_id p \<notin> ph_id ` set ps" "all = (ps @ [p]) @ new"
      "list_all2 (\<lambda>raw p. compile_phase E V root_id raw = Inr p) raws new" "distinct (map ph_id new)"
      "set (map ph_id new) \<inter> set (map ph_id (ps @ [p])) = {}" by blast
    then show ?R by (intro exI [of _ "p # new"]) auto
  next
    assume ?R
    then obtain new where n: "all = ps @ new" "list_all2 (\<lambda>raw p. compile_phase E V root_id raw = Inr p) (raw # raws) new"
      "distinct (map ph_id new)" "set (map ph_id new) \<inter> set (map ph_id ps) = {}" by blast
    then obtain p rest where "new = p # rest" by (cases new) auto
    with n show ?L by (intro exI [of _ p] exI [of _ rest]) auto
  qed
  finally show ?case .
qed auto

section \<open>Programs\<close>

record program_parts =
  pp_root :: string
  pp_id :: string
  pp_manifest :: string
  pp_outline :: string
  pp_phases :: "compiled_phase list"

definition parts_body :: "registry_view \<Rightarrow> program_parts \<Rightarrow> pydict" where
  "parts_body V x = the_dict (mkdict (body_items (pp_id x) (rv_server_id V) (pp_root x) (pp_manifest x) (pp_outline x) (pp_phases x)))"

definition program_spec :: "pyenv \<Rightarrow> registry_view \<Rightarrow> (string \<Rightarrow> string \<Rightarrow> resolved_group result) \<Rightarrow> program_parts \<Rightarrow> bool" where
  "program_spec E V res x \<longleftrightarrow> short_id (PStr (pp_root x)) = Inr (pp_root x) \<and> short_id (PStr (pp_id x)) = Inr (pp_id x) \<and>
     (\<exists>m. rv_describe V (pp_root x) = Inr (PDict m) \<and> dget_or m ''exposed_as_run_root'' PNone = PBool True) \<and>
     rv_manifest_hash V (pp_root x) = Inr (pp_manifest x) \<and> pp_phases x \<noteq> [] \<and> distinct (map ph_id (pp_phases x)) \<and>
     (\<forall>p \<in> set (pp_phases x). phase_spec E (res (pp_root x)) p) \<and> digest_value E (outline_dict (pp_phases x)) = Inr (pp_outline x)"

lemma program_compiles_to_spec:
  assumes c: "compile_program E V template = Inr p"
    and V: "\<And>root_id path. rv_resolve_group V root_id path = bind (res root_id path) (\<lambda>g. Inr (resolved_asdict g))"
  obtains x where "program_spec E V res x" "cp_body p = parts_body V x" "digest_value E (PDict (cp_body p)) = Inr (cp_sha256 p)"
proof -
  obtain root_id mh raws phases pid osha vr vp m where *: "short_id vr = Inr root_id" "rv_describe V root_id = Inr (PDict m)"
    "dget_or m ''exposed_as_run_root'' PNone = PBool True" "rv_manifest_hash V root_id = Inr mh" "raws \<noteq> []"
    "foldM (add_phase E V root_id) [] raws = Inr phases" "short_id vp = Inr pid" "digest_value E (outline_dict phases) = Inr osha"
    and p: "cp_body p = the_dict (mkdict (body_items pid (rv_server_id V) root_id mh osha phases))"
    "digest_value E (mkdict (body_items pid (rv_server_id V) root_id mh osha phases)) = Inr (cp_sha256 p)"
    using c unfolding compile_program_def compile_root_def by (auto simp: Let_def case_list_Inr case_dict_Inr)
  from *(6) have phases: "list_all2 (\<lambda>raw p. compile_phase E V root_id raw = Inr p) raws phases" "distinct (map ph_id phases)"
    unfolding foldM_add_phase by auto
  have "phase_spec E (res root_id) ph" if "ph \<in> set phases" for ph
    using that phases(1) phase_compiles_to_spec [OF _ V] by (auto simp: list_all2_conv_all_nth in_set_conv_nth)
  moreover have "phases \<noteq> []" using phases(1) *(5) by auto
  ultimately have "program_spec E V res \<lparr>pp_root = root_id, pp_id = pid, pp_manifest = mh, pp_outline = osha, pp_phases = phases\<rparr>"
    using * phases(2) short_id_Inr [OF *(1)] short_id_Inr [OF *(7)] by (simp add: program_spec_def)
  moreover have "PDict (the_dict (mkdict kvs)) = mkdict kvs" for kvs by (simp add: mkdict_def)
  ultimately show thesis using p that by (simp add: parts_body_def)
qed

definition parts_template :: "program_parts \<Rightarrow> pydict" where
  "parts_template x = the_dict (mkdict [(''format'', PStr TEMPLATE_FORMAT), (''version'', PInt PROGRAM_VERSION),
     (''program_id'', PStr (pp_id x)), (''root_id'', PStr (pp_root x)), (''phases'', PList (map phase_template (pp_phases x)))])"

lemma spec_compiles_to_program:
  assumes spec: "program_spec E V res x"
    and V: "\<And>root_id path. rv_resolve_group V root_id path = bind (res root_id path) (\<lambda>g. Inr (resolved_asdict g))"
    and sha: "digest_value E (PDict (parts_body V x)) = Inr sha"
  shows "compile_program E V (parts_template x) = Inr \<lparr>cp_body = parts_body V x, cp_sha256 = sha\<rparr>"
proof -
  have "list_all2 (\<lambda>raw p. compile_phase E V (pp_root x) raw = Inr p) (map phase_template (pp_phases x)) (pp_phases x)"
    using spec spec_compiles_to_phase [OF _ V] by (auto simp: program_spec_def list_all2_conv_all_nth)
  then have f: "foldM (add_phase E V (pp_root x)) [] (map phase_template (pp_phases x)) = Inr (pp_phases x)"
    using spec by (simp add: foldM_add_phase program_spec_def)
  have r: "require_exact_fields (parts_template x) [''format'', ''version'', ''root_id'', ''phases''] [''program_id''] = Inr ()"
    by (simp add: require_exact_fields_def exact_keys_def parts_template_def mkdict_def keys_def)
  have "compile_root E V (parts_template x) = Inr (pp_root x, pp_manifest x)"
    using r spec by (auto simp: compile_root_def parts_template_def mkdict_def dget_or_def dindex_def program_spec_def)
  with f spec sha show ?thesis
    by (auto simp: compile_program_def program_spec_def parts_template_def parts_body_def mkdict_def dindex_def dget_or_def Let_def)
qed

text \<open>What the parts of a program promise.\<close>

definition sound_sequence :: "(string \<Rightarrow> resolved_group result) \<Rightarrow> compiled_sequence \<Rightarrow> bool" where
  "sound_sequence res s \<longleftrightarrow> (\<exists>g. res (seq_role_path s) = Inr g \<and> seq_node s = physical_node_id g \<and> seq_group s = resolved_group_id g \<and>
     seq_schema s \<in> set (command_schemas (resolved_spec g)) \<inter> set POSITION_SCHEMAS \<and> seq_reference s \<in> set REFERENCES \<and>
     seq_axes s = compiled_axes (axes (resolved_spec g)) \<and> trajectory_ok (axes (resolved_spec g)) s)"

definition sound_phase :: "(string \<Rightarrow> resolved_group result) \<Rightarrow> compiled_phase \<Rightarrow> bool" where
  "sound_phase res p \<longleftrightarrow> distinct (map target (ph_sequences p)) \<and> (\<forall>x \<in> set (ph_sequences p). sound_sequence res (fst x)) \<and>
     ph_duration p = Max ((seq_duration \<circ> fst) ` set (ph_sequences p)) \<and> ph_sequences p \<noteq> []"

lemma trajectory_duration: "trajectory_ok as s \<Longrightarrow> 0 < seq_duration s"
proof -
  have "successively (segment_ok as) ss \<Longrightarrow> 2 \<le> length ss \<Longrightarrow> fst (hd ss) < fst (last ss)" for ss
  proof (induction ss)
    case (Cons a ss)
    then obtain b bs where ss: "ss = b # bs" by (cases ss) auto
    with Cons.prems have "fst a < fst b" by (simp add: segment_ok_def)
    with Cons ss show ?case by (cases bs) auto
  qed simp
  then show "trajectory_ok as s \<Longrightarrow> 0 < seq_duration s"
    by (fastforce simp: trajectory_ok_def seq_duration_def)
qed

lemma spec_sound_phase:
  assumes spec: "phase_spec E res p" and wf: "\<And>path g. res path = Inr g \<Longrightarrow> wf_group (resolved_spec g)"
  shows "sound_phase res p"
proof -
  have sound: "sound_sequence res (fst x)" if "x \<in> set (ph_sequences p)" for x
  proof -
    from spec that have "sequence_spec E res (fst x)" by (simp add: phase_spec_def)
    then obtain g where "res (seq_role_path (fst x)) = Inr g" "trajectory_ok (axes (resolved_spec g)) (fst x)"
      unfolding sequence_spec_def using wf samples_ok_trajectory by (auto simp: wf_group_def)
    with \<open>sequence_spec E res (fst x)\<close> show ?thesis by (auto simp: sound_sequence_def sequence_spec_def)
  qed
  let ?D = "(seq_duration \<circ> fst) ` set (ph_sequences p)"
  have ne: "ph_sequences p \<noteq> []" using spec by (simp add: phase_spec_def)
  have "Max (insert 0 ?D) = Max ?D"
  proof -
    obtain x where x: "x \<in> set (ph_sequences p)" using ne by (cases "ph_sequences p") auto
    then have "0 < seq_duration (fst x)" using sound [OF x] trajectory_duration unfolding sound_sequence_def by blast
    also have "\<dots> \<le> Max ?D" using x by (intro Max_ge) auto
    finally show ?thesis using x by (subst Max_insert) auto
  qed
  moreover have "ph_duration p = Max (insert 0 ?D)"
    using spec Max.set_eq_fold [of 0 "map (seq_duration \<circ> fst) (ph_sequences p)"] by (simp add: phase_spec_def)
  ultimately show ?thesis using spec sound ne by (auto simp: sound_phase_def phase_spec_def)
qed

section \<open>Artifacts\<close>

lemma ddel_last: "k \<notin> fst ` set kvs \<Longrightarrow> ddel (map (\<lambda>(k, v). (PStr k, v)) (kvs @ [(k, v)])) k = map (\<lambda>(k, v). (PStr k, v)) kvs"
  by (induction kvs) (auto simp: ddel_def)

text \<open>The canonical form of a dictionary with string keys answers every lookup with the canonical form of the value.\<close>

lemma keys_mkdict: "keys (the_dict (mkdict kvs)) = map (PStr \<circ> fst) kvs"
  by (auto simp: keys_def mkdict_def)

lemma canon_mkdict_items: "canon (mkdict kvs) = PDict (the_dict (canon (mkdict kvs)))"
  by (simp add: mkdict_def)

lemma dget_canon_mkdict:
  "distinct (map fst kvs) \<Longrightarrow> dget (the_dict (canon (mkdict kvs))) k = map_option canon (map_of kvs k)"
  using dget_canon [of "the_dict (mkdict kvs)" k] keys_mkdict [of kvs]
  by (simp add: mkdict_def dget_mkdict distinct_map inj_on_def)

lemma ddel_canon: "ddel (the_dict (canon (PDict d))) k = the_dict (canon (PDict (ddel d k)))"
proof -
  have "filter (\<lambda>(k', v). k' \<noteq> PStr k) (map (\<lambda>p. (fst p, canon (snd p))) d) =
      map (\<lambda>p. (fst p, canon (snd p))) (filter (\<lambda>(k', v). k' \<noteq> PStr k) d)"
    by (induction d) auto
  then show ?thesis by (simp add: ddel_def filter_sort)
qed

lemma digest_canon: "codec_at E v \<Longrightarrow> digest_value E (canon v) = digest_value E v"
  by (auto simp: codec_at_def digest_value_def)

lemma the_dict_mkdict [simp]: "PDict (the_dict (mkdict kvs)) = mkdict kvs"
  by (simp add: mkdict_def)

lemma ddel_canon_last:
  assumes "k \<notin> fst ` set kvs"
  shows "PDict (ddel (the_dict (canon (mkdict (kvs @ [(k, v)])))) k) = canon (mkdict kvs)"
proof -
  have "ddel (the_dict (canon (mkdict (kvs @ [(k, v)])))) k = the_dict (canon (PDict (ddel (the_dict (mkdict (kvs @ [(k, v)]))) k)))"
    unfolding ddel_canon [symmetric] by simp
  also have "ddel (the_dict (mkdict (kvs @ [(k, v)]))) k = the_dict (mkdict kvs)"
    using ddel_last [OF assms, of v] by (simp add: mkdict_def)
  finally show ?thesis by (simp only: the_dict_mkdict canon_mkdict_items [symmetric])
qed

text \<open>The digests that the reader of an artifact recomputes; the reader may see the values in canonical order.\<close>

definition digested :: "program_parts \<Rightarrow> pyval list" where
  "digested x = outline_dict (pp_phases x) # map (mkdict \<circ> phase_items) (pp_phases x) @
     concat (map (\<lambda>p. map (mkdict \<circ> sequence_items \<circ> fst) (ph_sequences p)) (pp_phases x))"

lemma check_sequence_hash_ok:
  assumes h: "digest_value E (mkdict (sequence_items (fst x))) = Inr (snd x)" and c: "codec_at E (mkdict (sequence_items (fst x)))"
  shows "check_sequence_hash E (canon (sequence_dict x)) = Inr ()"
proof -
  obtain s sha where x: "x = (s, sha)" by force
  let ?kvs = "sequence_items s @ [(''sha256'', PStr sha)]"
  have d: "distinct (map fst ?kvs)" by (simp add: sequence_items_def)
  have "dget (the_dict (canon (mkdict ?kvs))) ''sha256'' = Some (PStr sha)"
    unfolding dget_canon_mkdict [OF d] by (simp add: sequence_items_def)
  moreover have "PDict (ddel (the_dict (canon (mkdict ?kvs))) ''sha256'') = canon (mkdict (sequence_items s))"
    by (rule ddel_canon_last) (simp add: sequence_items_def)
  moreover obtain sd where sd: "canon (mkdict ?kvs) = PDict sd" by (simp add: mkdict_def)
  ultimately show ?thesis
    using h digest_canon [OF c]
    by (simp add: check_sequence_hash_def sequence_dict_def x dget_or_def py_items_def sd del: canon.simps)
qed

lemma check_phase_hash_ok:
  assumes spec: "phase_spec E res p" and c: "codec_at E (mkdict (phase_items p))"
    "\<forall>x \<in> set (ph_sequences p). codec_at E (mkdict (sequence_items (fst x)))"
  shows "check_phase_hash E (canon (phase_dict p), canon (outline_phase p)) = Inr ()"
proof -
  let ?kvs = "phase_items p @ [(''sha256'', PStr (ph_sha256 p))]"
  have d: "distinct (map fst ?kvs)" by (simp add: phase_items_def)
  have get: "dget (the_dict (canon (mkdict ?kvs))) ''sha256'' = Some (PStr (ph_sha256 p))"
    "dget (the_dict (canon (mkdict ?kvs))) ''sequences'' = Some (PList (map (canon \<circ> sequence_dict) (ph_sequences p)))"
    unfolding dget_canon_mkdict [OF d] by (simp_all add: phase_items_def)
  have out: "dget (the_dict (canon (outline_phase p))) ''payload_sha256'' = Some (PStr (ph_sha256 p))"
    unfolding outline_phase_def by (subst dget_canon_mkdict) simp_all
  have del: "PDict (ddel (the_dict (canon (mkdict ?kvs))) ''sha256'') = canon (mkdict (phase_items p))"
    by (rule ddel_canon_last) (simp add: phase_items_def)
  have seqs: "forM (check_sequence_hash E) (map (canon \<circ> sequence_dict) (ph_sequences p)) = Inr ()"
    using spec c(2) check_sequence_hash_ok by (auto simp: forM_Inr_iff phase_spec_def)
  have h: "digest_value E (mkdict (phase_items p)) = Inr (ph_sha256 p)" using spec by (simp add: phase_spec_def)
  obtain po where po: "canon (outline_phase p) = PDict po" by (simp add: outline_phase_def mkdict_def)
  obtain pd where pd: "canon (mkdict ?kvs) = PDict pd" by (simp add: mkdict_def)
  show ?thesis
    using get out seqs h digest_canon [OF c(1)] del
    by (simp add: check_phase_hash_def phase_dict_def pd po dget_or_def py_iter_def del: canon.simps)
qed

lemma distinct_body: "distinct (map fst (body_items i sid r m h ps))"
  by (simp add: body_items_def)

lemma canonical_body:
  obtains b where "canon (PDict (parts_body V x)) = PDict b"
    "\<And>k. dget b k = map_option canon (map_of (body_items (pp_id x) (rv_server_id V) (pp_root x) (pp_manifest x) (pp_outline x) (pp_phases x)) k)"
proof -
  let ?kvs = "body_items (pp_id x) (rv_server_id V) (pp_root x) (pp_manifest x) (pp_outline x) (pp_phases x)"
  have b: "PDict (parts_body V x) = mkdict ?kvs" by (simp add: parts_body_def)
  show thesis
    by (rule that [of "the_dict (canon (mkdict ?kvs))"])
      (simp_all only: b canon_mkdict_items [symmetric] dget_canon_mkdict [OF distinct_body])
qed

lemma internal_hashes_ok:
  assumes spec: "program_spec E V res x" and codec: "\<forall>v \<in> set (digested x). codec_at E v"
    and b: "canon (PDict (parts_body V x)) = PDict b"
  shows "validate_compiled_internal_hashes E b = Inr ()"
proof -
  obtain b' where "PDict b = PDict b'"
    and get: "\<And>k. dget b' k = map_option canon (map_of (body_items (pp_id x) (rv_server_id V) (pp_root x) (pp_manifest x) (pp_outline x) (pp_phases x)) k)"
    by (rule canonical_body [of V x]) (simp only: b)
  then have b': "b' = b" by simp
  obtain od where od: "canon (outline_dict (pp_phases x)) = PDict od" by (simp add: outline_dict_def mkdict_def)
  have "dget (the_dict (canon (outline_dict (pp_phases x)))) ''phases'' = Some (PList (map (canon \<circ> outline_phase) (pp_phases x)))"
    unfolding outline_dict_def by (subst dget_canon_mkdict) simp_all
  then have ops: "dget od ''phases'' = Some (PList (map (canon \<circ> outline_phase) (pp_phases x)))" by (simp add: od)
  have lookups: "dget b ''outline'' = Some (PDict od)" "dget b ''outline_sha256'' = Some (PStr (pp_outline x))"
    "dget b ''phases'' = Some (PList (map (canon \<circ> phase_dict) (pp_phases x)))"
    using get unfolding b' by (simp_all add: body_items_def od)
  have "codec_at E (outline_dict (pp_phases x))" using codec by (simp add: digested_def)
  then have "digest_value E (PDict od) = Inr (pp_outline x)"
    using digest_canon [of E "outline_dict (pp_phases x)"] spec by (simp add: program_spec_def od)
  moreover have "forM (check_phase_hash E) (zip (map (canon \<circ> phase_dict) (pp_phases x)) (map (canon \<circ> outline_phase) (pp_phases x))) = Inr ()"
  proof -
    have "check_phase_hash E (canon (phase_dict p), canon (outline_phase p)) = Inr ()" if "p \<in> set (pp_phases x)" for p
      using that spec codec by (intro check_phase_hash_ok) (auto simp: program_spec_def digested_def)
    then show ?thesis by (auto simp: forM_Inr_iff set_zip)
  qed
  ultimately show ?thesis
    using lookups ops by (simp add: validate_compiled_internal_hashes_def dget_or_def)
qed

lemma canon_sample: "canon (sample_dict s) = sample_dict s"
  by (simp add: sample_dict_def mkdict_def comp_def)

lemma canon_completion: "canon DEFAULT_COMPLETION = DEFAULT_COMPLETION"
  by (simp add: DEFAULT_COMPLETION_def mkdict_def)

lemma template_sequence_canon: "template_sequence (canon (sequence_dict x)) = Inr (sequence_template (fst x))"
proof -
  obtain s sha where x: "x = (s, sha)" by force
  let ?kvs = "sequence_items s @ [(''sha256'', PStr sha)]"
  have d: "distinct (map fst ?kvs)" by (simp add: sequence_items_def)
  obtain sd where sd: "canon (mkdict ?kvs) = PDict sd" by (simp add: mkdict_def)
  have "dget sd k = map_option canon (map_of ?kvs k)" for k using dget_canon_mkdict [OF d, of k] by (simp add: sd)
  then have "dget sd ''role_path'' = Some (PStr (seq_role_path s))" "dget sd ''command_schema'' = Some (PStr (seq_schema s))"
    "dget sd ''reference'' = Some (PStr (seq_reference s))" "dget sd ''samples'' = Some (PList (map sample_dict (seq_samples s)))"
    by (simp_all add: sequence_items_def canon_sample)
  then show ?thesis by (simp add: template_sequence_def sequence_dict_def x sd dindex_def sequence_template_def)
qed

lemma template_phase_canon:
  assumes "phase_spec E res p"
  shows "template_phase (canon (phase_dict p)) = Inr (phase_template p)"
proof -
  let ?kvs = "phase_items p @ [(''sha256'', PStr (ph_sha256 p))]"
  have d: "distinct (map fst ?kvs)" by (simp add: phase_items_def)
  obtain pd where pd: "canon (mkdict ?kvs) = PDict pd" by (simp add: mkdict_def)
  have "dget pd k = map_option canon (map_of ?kvs k)" for k using dget_canon_mkdict [OF d, of k] by (simp add: pd)
  then have "dget pd ''phase_id'' = Some (PStr (ph_id p))" "dget pd ''completion'' = Some DEFAULT_COMPLETION"
    "dget pd ''transitions'' = Some (PList [])" "dget pd ''sequences'' = Some (PList (map (canon \<circ> sequence_dict) (ph_sequences p)))"
    using assms by (simp_all add: phase_items_def phase_spec_def canon_completion)
  moreover have "mapM template_sequence (map (canon \<circ> sequence_dict) xs) = Inr (map (sequence_template \<circ> fst) xs)" for xs
    by (induction xs) (simp_all add: template_sequence_canon)
  ultimately show ?thesis
    using assms by (simp add: template_phase_def phase_dict_def pd dindex_def phase_template_def phase_spec_def)
qed

lemma template_from_canonical_body:
  assumes spec: "program_spec E V res x" and b: "canon (PDict (parts_body V x)) = PDict b"
  shows "template_from_compiled b = Inr (parts_template x)"
proof -
  obtain b' where "PDict b = PDict b'"
    and get: "\<And>k. dget b' k = map_option canon (map_of (body_items (pp_id x) (rv_server_id V) (pp_root x) (pp_manifest x) (pp_outline x) (pp_phases x)) k)"
    by (rule canonical_body [of V x]) (simp only: b)
  then have b': "b' = b" by simp
  have "mapM template_phase (map (canon \<circ> phase_dict) ps) = Inr (map phase_template ps)" if "set ps \<subseteq> set (pp_phases x)" for ps
    using that spec by (induction ps) (auto simp: program_spec_def template_phase_canon)
  moreover have "dget b ''phases'' = Some (PList (map (canon \<circ> phase_dict) (pp_phases x)))"
    "dget b ''program_id'' = Some (PStr (pp_id x))" "dget b ''root_id'' = Some (PStr (pp_root x))"
    using get unfolding b' by (simp_all add: body_items_def)
  ultimately show ?thesis by (simp add: template_from_compiled_def dindex_def parts_template_def)
qed

text \<open>Data without tuples and NaN equals its canonical form.\<close>

fun regular :: "pyval \<Rightarrow> bool" where
  "regular (PFloat f) = (f \<noteq> NaN)"
| "regular (PTuple xs) = False"
| "regular (PList xs) = (\<forall>x \<in> set xs. regular x)"
| "regular (PDict d) = (\<forall>p \<in> set d. nan_free (fst p) \<and> regular (snd p))"
| "regular _ = True"

lemma py_eq_canon: "regular v \<Longrightarrow> py_eq v (canon v)"
proof (induction v)
  case (PList xs)
  then show ?case by (simp add: py_eq_list list_all2_map2 list_all2_same)
next
  case (PDict d)
  have "\<exists>(k', v') \<in> set (the_dict (canon (PDict d))). py_eq k k' \<and> py_eq v v'" if "(k, v) \<in> set d" for k v
  proof -
    have "py_eq k k" using PDict.prems that by (intro py_eq_refl) auto
    moreover have "py_eq v (canon v)" using PDict.IH [OF that] PDict.prems that by fastforce
    moreover have "(k, canon v) \<in> set (the_dict (canon (PDict d)))" using that by force
    ultimately show ?thesis by blast
  qed
  then show ?case by (fastforce simp: py_eq_dict)
next
  case (PFloat f)
  then show ?case by (simp add: py_eq_refl)
qed (simp_all add: py_eq_refl)

lemma regular_mkdict: "regular (mkdict kvs) \<longleftrightarrow> (\<forall>p \<in> set kvs. regular (snd p))"
  by (auto simp: mkdict_def)

lemma regular_body:
  assumes spec: "program_spec E V res x"
  shows "regular (PDict (parts_body V x))"
proof -
  have target: "regular (resolved_target s)" for s by (simp add: resolved_target_def regular_mkdict)
  have axis: "regular (axis_dict a)" for a by (cases a) (simp add: axis_dict_def regular_mkdict)
  have seq: "regular (sequence_dict y)" if "sequence_spec E r (fst y)" for y r
  proof -
    obtain s sha where y: "y = (s, sha)" by force
    have "regular (sample_dict z)" if z: "z \<in> set (seq_samples s)" for z
    proof -
      obtain axs where "samples_ok E axs (seq_reference s) (seq_schema s) None (seq_samples s)"
        using \<open>sequence_spec E r (fst y)\<close> y by (auto simp: sequence_spec_def)
      then have "list_all isfinite (snd z)" using samples_ok_nth z unfolding in_set_conv_nth sample_ok_def by blast
      then show ?thesis by (auto simp: sample_dict_def regular_mkdict list_all_iff)
    qed
    then show ?thesis using target axis by (auto simp: sequence_dict_def y regular_mkdict sequence_items_def)
  qed
  have "regular (phase_dict p) \<and> regular (outline_phase p)" if "phase_spec E r p" for p r
  proof -
    have "regular (sequence_dict y)" if "y \<in> set (ph_sequences p)" for y
      using that \<open>phase_spec E r p\<close> seq unfolding phase_spec_def by blast
    moreover have "regular DEFAULT_COMPLETION" by (simp add: DEFAULT_COMPLETION_def regular_mkdict)
    ultimately show ?thesis using that target
      by (auto simp: phase_dict_def phase_items_def outline_phase_def outline_sequence_def phase_spec_def regular_mkdict)
  qed
  then have "\<forall>p \<in> set (pp_phases x). regular (phase_dict p) \<and> regular (outline_phase p)"
    using spec by (auto simp: program_spec_def)
  then show ?thesis by (auto simp: parts_body_def body_items_def outline_dict_def regular_mkdict)
qed

definition envelope :: "compiled_program \<Rightarrow> pyval" where
  "envelope p = mkdict [(''body'', PDict (cp_body p)), (''sha256'', PStr (cp_sha256 p))]"

lemma stored_program_reads_back:
  assumes spec: "program_spec E V res x" and p: "cp_body p = parts_body V x" "digest_value E (PDict (cp_body p)) = Inr (cp_sha256 p)"
    and codec: "\<forall>v \<in> set (envelope p # PDict (cp_body p) # digested x). codec_at E v"
    and b: "canon (PDict (cp_body p)) = PDict b"
  shows "\<exists>data. to_bytes E p = Inr data \<and> from_bytes E data = Inr \<lparr>cp_body = b, cp_sha256 = cp_sha256 p\<rparr>"
proof -
  obtain data where data: "cbor_dumps E (envelope p) = Inr data" "cbor_loads E data = Inr (canon (envelope p))"
    "cbor_dumps E (canon (envelope p)) = Inr data"
    using codec by (auto simp: codec_at_def)
  obtain d where d: "canon (envelope p) = PDict d" by (simp add: envelope_def mkdict_def)
  have get: "dget d k = map_option canon (map_of [(''body'', PDict (cp_body p)), (''sha256'', PStr (cp_sha256 p))] k)" for k
    using dget_canon_mkdict [of "[(''body'', PDict (cp_body p)), (''sha256'', PStr (cp_sha256 p))]" k] d by (simp add: envelope_def)
  have "set (keys d) = {PStr ''body'', PStr ''sha256''}"
    using set_keys_canon [of "the_dict (envelope p)"] unfolding envelope_def the_dict_mkdict d [unfolded envelope_def]
    by (simp add: mkdict_def keys_def)
  with get have keys: "exact_keys d [''body'', ''sha256''] []" by (auto simp: exact_keys_def)
  obtain b' where "PDict b = PDict b'"
    and body: "\<And>k. dget b' k = map_option canon (map_of (body_items (pp_id x) (rv_server_id V) (pp_root x) (pp_manifest x) (pp_outline x) (pp_phases x)) k)"
    by (rule canonical_body [of V x]) (use b p(1) in simp)
  then have "dget b ''format'' = Some (PStr COMPILED_FORMAT)" "dget b ''version'' = Some (PInt PROGRAM_VERSION)"
    by (simp_all add: body_items_def)
  moreover have "digest_value E (PDict b) = Inr (cp_sha256 p)"
    using digest_canon [of E "PDict (cp_body p)"] codec p(2) b by simp
  moreover have "validate_compiled_internal_hashes E b = Inr ()"
    using internal_hashes_ok [OF spec] codec b p(1) by simp
  ultimately have "from_bytes E data = Inr \<lparr>cp_body = b, cp_sha256 = cp_sha256 p\<rparr>"
    using data d keys get b by (simp add: from_bytes_def dget_or_def)
  with data(1) show ?thesis by (auto simp: to_bytes_def envelope_def)
qed

lemma stored_program_validates:
  assumes spec: "program_spec E V res x" and p: "cp_body p = parts_body V x" "digest_value E (PDict (cp_body p)) = Inr (cp_sha256 p)"
    and codec: "\<forall>v \<in> set (PDict (cp_body p) # digested x). codec_at E v"
    and b: "canon (PDict (cp_body p)) = PDict b"
    and V: "\<And>root_id path. rv_resolve_group V root_id path = bind (res root_id path) (\<lambda>g. Inr (resolved_asdict g))"
  shows "validate_for_current_registry E V \<lparr>cp_body = b, cp_sha256 = cp_sha256 p\<rparr> = Inr ()"
proof -
  obtain b' where "PDict b = PDict b'"
    and body: "\<And>k. dget b' k = map_option canon (map_of (body_items (pp_id x) (rv_server_id V) (pp_root x) (pp_manifest x) (pp_outline x) (pp_phases x)) k)"
    by (rule canonical_body [of V x]) (use b p(1) in simp)
  then have "dget b ''server_id'' = Some (PStr (rv_server_id V))" "dget b ''root_id'' = Some (PStr (pp_root x))"
    "dget b ''manifest_hash'' = Some (PStr (pp_manifest x))"
    by (simp_all add: body_items_def)
  moreover have "digest_value E (PDict b) = Inr (cp_sha256 p)"
    using digest_canon [of E "PDict (cp_body p)"] codec p(2) b by simp
  moreover have "validate_compiled_internal_hashes E b = Inr ()"
    using internal_hashes_ok [OF spec] codec b p(1) by simp
  moreover have "template_from_compiled b = Inr (parts_template x)"
    using template_from_canonical_body [OF spec] b p(1) by simp
  moreover have "compile_program E V (parts_template x) = Inr \<lparr>cp_body = parts_body V x, cp_sha256 = cp_sha256 p\<rparr>"
    using spec_compiles_to_program [OF spec V] p by simp
  moreover have "py_eq (PDict (parts_body V x)) (PDict b)"
    using py_eq_canon [OF regular_body [OF spec]] b p(1) by simp
  moreover have "rv_manifest_hash V (pp_root x) = Inr (pp_manifest x)" using spec by (simp add: program_spec_def)
  ultimately show ?thesis
    by (simp add: validate_for_current_registry_def program_server_id_def program_root_id_def program_manifest_hash_def
        dindex_def py_str_def)
qed

text \<open>The digests a body contains do not depend on how its parts are read off.\<close>

lemma mkdict_inject: "mkdict kvs = mkdict kvs' \<longleftrightarrow> kvs = kvs'"
proof -
  have "inj (\<lambda>(k, v :: pyval). (PStr k, v))" by (auto simp: inj_on_def)
  then show ?thesis by (simp add: mkdict_def inj_map_eq_map)
qed

lemma same_body_same_digests:
  assumes "parts_body V x = parts_body V y"
  shows "digested x = digested y"
proof -
  have seq: "sequence_dict s = sequence_dict t \<Longrightarrow> sequence_items (fst s) = sequence_items (fst t)" for s t
    by (cases s; cases t) (simp add: sequence_dict_def mkdict_inject)
  have seqs: "map sequence_dict ss = map sequence_dict ts \<Longrightarrow>
      map (mkdict \<circ> sequence_items \<circ> fst) ss = map (mkdict \<circ> sequence_items \<circ> fst) ts" for ss ts
  proof (induction ss arbitrary: ts)
    case (Cons s ss)
    then obtain t rest where t: "ts = t # rest" "sequence_dict s = sequence_dict t" "map sequence_dict ss = map sequence_dict rest"
      by (cases ts) auto
    have "sequence_items (fst s) = sequence_items (fst t)" by (rule seq [OF t(2)])
    with Cons.IH [OF t(3)] t(1) show ?case by simp
  qed simp
  have phases: "map phase_dict ps = map phase_dict qs \<Longrightarrow> map (mkdict \<circ> phase_items) ps = map (mkdict \<circ> phase_items) qs \<and>
      map (\<lambda>p. map (mkdict \<circ> sequence_items \<circ> fst) (ph_sequences p)) ps = map (\<lambda>p. map (mkdict \<circ> sequence_items \<circ> fst) (ph_sequences p)) qs" for ps qs
  proof (induction ps arbitrary: qs)
    case (Cons p ps)
    then obtain q rest where q: "qs = q # rest" "phase_dict p = phase_dict q" "map phase_dict ps = map phase_dict rest" by (cases qs) auto
    then have "phase_items p = phase_items q" "map sequence_dict (ph_sequences p) = map sequence_dict (ph_sequences q)"
      by (simp_all add: phase_dict_def mkdict_inject) (simp add: phase_items_def)
    with Cons.IH [OF q(3)] q(1) seqs [of "ph_sequences p" "ph_sequences q"] show ?case by (simp add: comp_def)
  qed simp
  have "map phase_dict (pp_phases x) = map phase_dict (pp_phases y)" "outline_dict (pp_phases x) = outline_dict (pp_phases y)"
    using assms mkdict_inject by (simp_all add: parts_body_def body_items_def) (simp_all add: mkdict_def)
  with phases show ?thesis unfolding digested_def by metis
qed

section \<open>The registry as the source of capabilities\<close>

text \<open>
  \<^verbatim>\<open>class RegistryView(Protocol)\<close> as an interface: role paths resolve to groups of well-formed axes.
  The guarantees of the compiler follow from these laws alone.
\<close>

locale capability_source =
  fixes accepted :: "'r \<Rightarrow> bool" and view_of :: "'r \<Rightarrow> registry_view"
    and resolution_of :: "'r \<Rightarrow> string \<Rightarrow> string \<Rightarrow> resolved_group result"
  assumes resolves: "rv_resolve_group (view_of r) root_id path = bind (resolution_of r root_id path) (\<lambda>g. Inr (resolved_asdict g))"
    and well_formed: "accepted r \<Longrightarrow> resolution_of r root_id path = Inr g \<Longrightarrow> wf_group (resolved_spec g)"
begin

lemma compiled_parts:
  assumes "compile_program E (view_of r) template = Inr p"
  obtains x where "program_spec E (view_of r) (resolution_of r) x" "cp_body p = parts_body (view_of r) x"
    "digest_value E (PDict (cp_body p)) = Inr (cp_sha256 p)"
  by (rule program_compiles_to_spec [OF assms resolves])

lemma parts_sound:
  assumes "accepted r" "program_spec E (view_of r) (resolution_of r) x"
  shows "distinct (map ph_id (pp_phases x)) \<and> pp_phases x \<noteq> [] \<and> rv_manifest_hash (view_of r) (pp_root x) = Inr (pp_manifest x) \<and>
    (\<forall>ph \<in> set (pp_phases x). sound_phase (resolution_of r (pp_root x)) ph)"
  using assms spec_sound_phase well_formed unfolding program_spec_def by blast

lemma compiled_sound:
  assumes "accepted r" "compile_program E (view_of r) template = Inr p"
  shows "\<exists>x. cp_body p = parts_body (view_of r) x \<and> distinct (map ph_id (pp_phases x)) \<and> pp_phases x \<noteq> [] \<and>
    rv_manifest_hash (view_of r) (pp_root x) = Inr (pp_manifest x) \<and>
    (\<forall>ph \<in> set (pp_phases x). sound_phase (resolution_of r (pp_root x)) ph)"
proof -
  obtain x where x: "program_spec E (view_of r) (resolution_of r) x" "cp_body p = parts_body (view_of r) x"
    by (rule compiled_parts [OF assms(2)])
  from parts_sound [OF assms(1) x(1)] x(2) show ?thesis by blast
qed

lemma accepted_sound:
  assumes "accepted r" "validate_for_current_registry E (view_of r) p = Inr ()"
  shows "\<exists>q x. compile_program E (view_of r) (parts_template x) = Inr q \<and> py_eq (PDict (cp_body q)) (PDict (cp_body p)) \<and>
    cp_sha256 q = cp_sha256 p \<and> cp_body q = parts_body (view_of r) x \<and>
    rv_manifest_hash (view_of r) (pp_root x) = Inr (pp_manifest x) \<and>
    (\<forall>ph \<in> set (pp_phases x). sound_phase (resolution_of r (pp_root x)) ph)"
proof -
  obtain template q where q: "compile_program E (view_of r) template = Inr q"
    "py_eq (PDict (cp_body q)) (PDict (cp_body p))" "cp_sha256 q = cp_sha256 p"
    using assms(2) unfolding validate_for_current_registry_def by auto
  obtain x where x: "program_spec E (view_of r) (resolution_of r) x" "cp_body q = parts_body (view_of r) x"
    "digest_value E (PDict (cp_body q)) = Inr (cp_sha256 q)"
    by (rule compiled_parts [OF q(1)])
  have "q = \<lparr>cp_body = parts_body (view_of r) x, cp_sha256 = cp_sha256 q\<rparr>" using x(2) by simp
  then have "compile_program E (view_of r) (parts_template x) = Inr q"
    using spec_compiles_to_program [OF x(1) resolves] x(2,3) by metis
  with q x parts_sound [OF assms(1) x(1)] show ?thesis by blast
qed

lemma stored_and_accepted:
  assumes "compile_program E (view_of r) template = Inr p"
    and codec: "\<And>x. cp_body p = parts_body (view_of r) x \<Longrightarrow> \<forall>v \<in> set (envelope p # PDict (cp_body p) # digested x). codec_at E v"
  shows "\<exists>data stored. to_bytes E p = Inr data \<and> from_bytes E data = Inr stored \<and> cp_sha256 stored = cp_sha256 p \<and>
    PDict (cp_body stored) = canon (PDict (cp_body p)) \<and> validate_for_current_registry E (view_of r) stored = Inr ()"
proof -
  obtain x where x: "program_spec E (view_of r) (resolution_of r) x" "cp_body p = parts_body (view_of r) x"
    "digest_value E (PDict (cp_body p)) = Inr (cp_sha256 p)"
    by (rule compiled_parts [OF assms(1)])
  obtain b where b: "canon (PDict (cp_body p)) = PDict b" by simp
  from stored_program_reads_back [OF x _ b] stored_program_validates [OF x _ b resolves] codec [OF x(2)] b show ?thesis
    by (metis compiled_program.select_convs list.set_intros(2))
qed

end

lemma loaded_resolution_wf:
  assumes "load E dir = Inr R" "resolve_group R root_id path = Inr g"
  shows "wf_group (resolved_spec g)"
proof -
  have wf: "wf_table (nodes R)" using load_Inr [OF assms(1)] by (simp add: loaded_ok_def)
  have "route (nodes R) i segs al p g \<Longrightarrow> wf_group g" for i segs al p g
  proof (induction rule: route.induct)
    case (route_leaf i p g)
    then show ?case using wf_tableD [OF wf route_leaf(1)] by (auto simp: wf_node_def list_all_iff)
  qed
  with assms(2) show ?thesis unfolding resolve_group_routes [OF wf] by auto
qed

interpretation registries: capability_source "\<lambda>(E, R). \<exists>dir. load E dir = Inr R" "\<lambda>(E, R). view E R" "\<lambda>(E, R). resolve_group R"
  by unfold_locales (auto simp: view_def dest: loaded_resolution_wf)

text \<open>
  C28. Whatever compiles against a loaded registry is sound: phases have distinct names, a phase
  commands each group at most once and lasts as long as its longest sequence, every sequence
  addresses the group its role path resolves to with a schema the group supports, its samples
  start at zero and advance strictly in time, every pose has one finite value per axis of the group,
  and between two samples no axis exceeds its maximum velocity up to the rounding of the float check.
  The poses of a sequence with absolute reference are inside the axis limits. Those of a sequence
  relative to the measured start of its phase are not checked against them, their first pose is zero up
  to a tolerance. Normalized values are at most 1 and at least 0, or -1 when they are relative.
\<close>

theorem compiled_program_sound:
  assumes "load E dir = Inr R" "compile_program E (view E R) template = Inr p"
  shows "\<exists>x. cp_body p = parts_body (view E R) x \<and> distinct (map ph_id (pp_phases x)) \<and> pp_phases x \<noteq> [] \<and>
    rv_manifest_hash (view E R) (pp_root x) = Inr (pp_manifest x) \<and>
    (\<forall>ph \<in> set (pp_phases x). sound_phase (resolve_group R (pp_root x)) ph)"
  using registries.compiled_sound [of "(E, R)" E template p] assms by auto

text \<open>
  C10. An artifact that is accepted for execution, whoever made it, equals what compiling its own
  template against the current registry gives, so all guarantees of compilation hold for it.
\<close>

theorem accepted_artifact_is_compiled:
  assumes "load E dir = Inr R" "validate_for_current_registry E (view E R) p = Inr ()"
  shows "\<exists>q x. compile_program E (view E R) (parts_template x) = Inr q \<and> py_eq (PDict (cp_body q)) (PDict (cp_body p)) \<and>
    cp_sha256 q = cp_sha256 p \<and> cp_body q = parts_body (view E R) x \<and>
    rv_manifest_hash (view E R) (pp_root x) = Inr (pp_manifest x) \<and>
    (\<forall>ph \<in> set (pp_phases x). sound_phase (resolve_group R (pp_root x)) ph)"
  using registries.accepted_sound [of "(E, R)" E p] assms by auto

text \<open>
  C29. A compiled program can be written, read back and accepted by the registry it was compiled
  for: the bytes decode to the same body in canonical key order with the same digest, every digest
  inside is found correct, and validation against the registry succeeds.
\<close>

theorem compiled_program_is_accepted:
  assumes "compile_program E (view E R) template = Inr p"
    and "\<forall>x. cp_body p = parts_body (view E R) x \<longrightarrow>
      (\<forall>v \<in> set (envelope p # PDict (cp_body p) # digested x). codec_at E v)"
  shows "\<exists>data stored. to_bytes E p = Inr data \<and> from_bytes E data = Inr stored \<and> cp_sha256 stored = cp_sha256 p \<and>
    PDict (cp_body stored) = canon (PDict (cp_body p)) \<and> validate_for_current_registry E (view E R) stored = Inr ()"
  using registries.stored_and_accepted [of E "(E, R)" template p] assms by simp

section \<open>Instances\<close>

text \<open>One arm with one joint, a program that moves it, and the artifact the compiler makes of it.\<close>

definition demo_sequence :: compiled_sequence where
  "demo_sequence = \<lparr>seq_role_path = ''joints'', seq_node = ''arm'', seq_group = ''joints'', seq_schema = POSITION_SCHEMA,
     seq_reference = ''absolute'', seq_axes = [(''pan'', ''revolute'', ''rad'')],
     seq_samples = [(0, [Fin 0]), (1000000, [Fin (1 / 2)])]\<rparr>"

definition demo_phase :: compiled_phase where
  "demo_phase = \<lparr>ph_id = ''reach'', ph_duration = 1000000, ph_completion = DEFAULT_COMPLETION, ph_transitions = [],
     ph_sequences = [(demo_sequence, ''01'')], ph_sha256 = ''02''\<rparr>"

definition demo_parts :: program_parts where
  "demo_parts = \<lparr>pp_root = ''arm'', pp_id = ''program'', pp_manifest = ''00'', pp_outline = ''03'', pp_phases = [demo_phase]\<rparr>"

definition demo_program :: compiled_program where
  "demo_program = \<lparr>cp_body = the_dict (mkdict (body_items ''program'' ''lab'' ''arm'' ''00'' ''03'' [demo_phase])), cp_sha256 = ''04''\<rparr>"

text \<open>A codec for the values of the demonstration, recognised by a key only they have.\<close>

definition demo_tag :: "pyval \<Rightarrow> nat" where
  "demo_tag v = (let has = (\<lambda>k. dget (the_dict v) k \<noteq> None) in
     if has ''role_path'' then 1 else if has ''completion'' then 2 else if has ''phase_count'' then 3
     else if has ''program_id'' then 4 else if has ''body'' then 5 else 0)"

definition demo_items :: "nat \<Rightarrow> (string \<times> pyval) list" where
  "demo_items n = (if n = 1 then sequence_items demo_sequence else if n = 2 then phase_items demo_phase
     else if n = 3 then [(''phase_count'', PInt 1), (''phases'', PList [outline_phase demo_phase])]
     else if n = 4 then body_items ''program'' ''lab'' ''arm'' ''00'' ''03'' [demo_phase]
     else [(''body'', PDict (cp_body demo_program)), (''sha256'', PStr (cp_sha256 demo_program))])"

definition demo_value :: "nat \<Rightarrow> pyval" where
  "demo_value n = mkdict (demo_items n)"

definition demo_coder :: pyenv where
  "demo_coder = \<lparr>cbor_dumps = (\<lambda>v. Inr [of_nat (demo_tag v)]), cbor_loads = (\<lambda>b. Inr (canon (demo_value (unat (hd b))))),
     sha256 = (\<lambda>b. b), json_dumps = (\<lambda>v. []), json_loads = (\<lambda>s. Inl ValueError), py_repr = (\<lambda>v. []),
     float_of_str = (\<lambda>s. Inl ValueError)\<rparr>"

definition demo_robot :: toml_file where
  "demo_robot = Document (the_dict (mkdict [(''node'', mkdict
     [(''id'', PStr ''arm''), (''kind'', PStr ''physical''), (''revision'', PInt 1), (''exposed_as_run_root'', PBool True),
      (''cross_collision_checked'', PBool False), (''adapter'', PStr ''sim''), (''adapter_revision'', PInt 1),
      (''configuration_revision'', PInt 1),
      (''groups'', PList [mkdict [(''id'', PStr ''joints''), (''control_rate_hz'', PInt 50),
         (''command_schemas'', PList [PStr POSITION_SCHEMA]), (''telemetry_schemas'', PList [PStr ''t/v1'']),
         (''axes'', PList [mkdict [(''id'', PStr ''pan''), (''kind'', PStr ''revolute''), (''unit'', PStr ''rad''),
            (''minimum'', PInt (-1)), (''maximum'', PInt 1), (''max_velocity'', PInt 1)]])]]),
      (''watchdog'', mkdict [(''strategy'', PStr ''device''), (''expiry_action'', PStr ''hold''),
         (''worker_crash_safe'', PBool True), (''unattended_operation_allowed'', PBool True)])])]))"

definition demo_files :: registry_dir where
  "demo_files = \<lparr>server_file = Document (the_dict (mkdict [(''server'', mkdict [(''id'', PStr ''lab''), (''registry_version'', PInt 2)])])),
     robot_files = Some [demo_robot], identity_files = NoIdentities\<rparr>"

definition demo_follower :: physical_node where
  "demo_follower = \<lparr>node_id = ''arm'', revision = 1, exposed_as_run_root = True, resources = [], safety_domains = [],
     safety_policies = [], cross_collision_checked = False, adapter = ''sim'', adapter_revision = 1, configuration_revision = 1,
     groups = [\<lparr>group_id = ''joints'', axes = [\<lparr>axis_id = ''pan'', axis_kind = ''revolute'', axis_unit = ''rad'',
       minimum = Fin (-1), maximum = Fin 1, max_velocity = Some (Fin 1)\<rparr>], command_schemas = [POSITION_SCHEMA],
       telemetry_schemas = [''t/v1''], control_rate_hz = Fin 50\<rparr>],
     watchdog = Some \<lparr>strategy = ''device'', deadline_ms = None, expiry_action = ''hold'', worker_crash_safe = True,
       unattended_operation_allowed = True\<rparr>, connection = PDict []\<rparr>"

definition demo_lab :: registry where
  "demo_lab = (let R = \<lparr>server_id = ''lab'', nodes = [(''arm'', Physical demo_follower)], identities = [], manifest_cache = []\<rparr>
     in R\<lparr>manifest_cache := [(''arm'', physical_body R demo_follower @ [(PStr ''manifest_hash'', PStr ''00'')])]\<rparr>)"

definition demo_template :: pydict where
  "demo_template = the_dict (mkdict [(''format'', PStr TEMPLATE_FORMAT), (''version'', PInt 2), (''root_id'', PStr ''arm''),
     (''phases'', PList [mkdict [(''phase_id'', PStr ''reach''), (''sequences'', PList [mkdict
        [(''group'', PStr ''joints''), (''command_schema'', PStr POSITION_SCHEMA), (''reference'', PStr ''absolute''),
         (''samples'', PList [mkdict [(''t_us'', PInt 0), (''values'', PList [PInt 0])],
            mkdict [(''t_us'', PInt 1000000), (''values'', PList [PFloat (Fin (1 / 2))])]])]])]])])"

lemma demo_lab_loaded: "load demo_coder demo_files = Inr demo_lab"
  by code_simp

lemma demo_compiles: "compile_program demo_coder (view demo_coder demo_lab) demo_template = Inr demo_program"
  by code_simp

lemma demo_codec_program: "v \<in> set (envelope demo_program # PDict (cp_body demo_program) # digested demo_parts) \<Longrightarrow> codec_at demo_coder v"
proof -
  assume v: "v \<in> set (envelope demo_program # PDict (cp_body demo_program) # digested demo_parts)"
  have "set (envelope demo_program # PDict (cp_body demo_program) # digested demo_parts) = demo_value ` {1, 2, 3, 4, 5}"
    by (auto simp: digested_def demo_value_def demo_items_def demo_parts_def demo_phase_def outline_dict_def envelope_def demo_program_def)
  then obtain n where n: "v = demo_value n" "n \<in> {1, 2, 3, 4, 5}" using v by auto
  have canon_tag: "demo_tag (canon (mkdict kvs)) = demo_tag (mkdict kvs)" if d: "distinct (map fst kvs)" for kvs
  proof -
    have "dget (the_dict (mkdict kvs)) k = map_of kvs k" for k by (simp add: mkdict_def dget_mkdict)
    then show ?thesis by (simp add: demo_tag_def Let_def dget_canon_mkdict [OF d])
  qed
  have "distinct (map fst (demo_items n))" by (simp add: demo_items_def sequence_items_def phase_items_def distinct_body)
  then have "demo_tag (canon (demo_value n)) = demo_tag (demo_value n)" unfolding demo_value_def by (rule canon_tag)
  moreover have "\<forall>n \<in> {1, 2, 3, 4, 5}. demo_tag (demo_value n) = n \<and> unat (of_nat n :: 8 word) = n"
    by code_simp
  then have "demo_tag (demo_value n) = n" "unat (of_nat n :: 8 word) = n" using n(2) by blast+
  ultimately show ?thesis unfolding codec_at_def n(1) by (simp add: demo_coder_def)
qed

lemma demo_body: "cp_body demo_program = parts_body (view demo_coder demo_lab) demo_parts"
  by (simp add: demo_program_def parts_body_def demo_parts_def view_def demo_lab_def Let_def)

theorem compiled_program_is_accepted_witness:
  "\<exists>data stored. to_bytes demo_coder demo_program = Inr data \<and> from_bytes demo_coder data = Inr stored \<and>
     validate_for_current_registry demo_coder (view demo_coder demo_lab) stored = Inr ()"
proof -
  have "\<forall>x. cp_body demo_program = parts_body (view demo_coder demo_lab) x \<longrightarrow>
      (\<forall>v \<in> set (envelope demo_program # PDict (cp_body demo_program) # digested x). codec_at demo_coder v)"
    using demo_codec_program same_body_same_digests demo_body by metis
  from compiled_program_is_accepted [OF demo_compiles this] show ?thesis by blast
qed

theorem compiled_program_sound_witness:
  "\<exists>x. cp_body demo_program = parts_body (view demo_coder demo_lab) x \<and>
     (\<forall>ph \<in> set (pp_phases x). sound_phase (resolve_group demo_lab (pp_root x)) ph)"
  using compiled_program_sound [OF demo_lab_loaded demo_compiles] by blast

lemma demo_validates: "validate_for_current_registry demo_coder (view demo_coder demo_lab) demo_program = Inr ()"
  by code_simp

theorem accepted_artifact_is_compiled_witness:
  "\<exists>q x. compile_program demo_coder (view demo_coder demo_lab) (parts_template x) = Inr q \<and> cp_sha256 q = ''04''"
  using accepted_artifact_is_compiled [OF demo_lab_loaded demo_validates] by (auto simp: demo_program_def)

end
