(* ===== verification/OrchestratorSafety.thy ===== *)
theory OrchestratorSafety
  imports Orchestrator ProgramSafety
begin

text \<open>
  What the orchestrator guarantees: the phases of a run advance in lockstep behind barriers, every
  way out of a run stops its workers and gives the leases back, and concurrent runs never command
  the same actuator group.
\<close>

section \<open>The phase protocol\<close>

text \<open>What a run is about never changes; plans and waits depend on nothing else.\<close>

definition same_run :: "run \<Rightarrow> run \<Rightarrow> bool" where
  "same_run r r' \<longleftrightarrow> rn_id r' = rn_id r \<and> rn_program r' = rn_program r \<and> rn_phases r' = rn_phases r \<and>
     rn_receipt r' = rn_receipt r \<and> rn_workers r' = rn_workers r"

lemma same_run_refl [simp]: "same_run r r"
  by (simp add: same_run_def)

lemma same_run_updates [simp]:
  "same_run r (r'\<lparr>rn_log := l\<rparr>) = same_run r r'" "same_run r (r'\<lparr>rn_pc := p\<rparr>) = same_run r r'"
  "same_run r (r'\<lparr>rn_phase := ph\<rparr>) = same_run r r'" "same_run r (r'\<lparr>rn_execution := x\<rparr>) = same_run r r'"
  "same_run r (r'\<lparr>rn_phase_workers := ws\<rparr>) = same_run r r'"
  by (auto simp: same_run_def)

lemma same_run_ask [simp]: "same_run r (ask r' calls pc) = same_run r r'"
  by (simp add: ask_def)

lemma same_run_fault [simp]: "same_run r (fault r' e) = same_run r r'"
  by (simp add: fault_def stop_all_def)

lemma plans_cong: "same_run r r' \<Longrightarrow> worker_phase_plans C r' k phase = worker_phase_plans C r k phase"
proof -
  assume "same_run r r'"
  then have "phase_plan r' = phase_plan r" "execution_id_of r' = execution_id_of r" "rn_program r' = rn_program r"
    by (auto simp: same_run_def phase_plan_def execution_id_of_def intro!: ext)
  then show ?thesis by (simp add: worker_phase_plans_def cong: pyval.case_cong)
qed

text \<open>The plans of phase \<open>k\<close>: its execution identifier and the plan of each worker.\<close>

definition plans_of :: "orch_config \<Rightarrow> run \<Rightarrow> nat \<Rightarrow> string \<Rightarrow> (string \<times> pyval) list \<Rightarrow> bool" where
  "plans_of C r k x plans \<longleftrightarrow> k < length (rn_phases r) \<and> worker_phase_plans C r k (rn_phases r ! k) = Inr (x, plans) \<and>
     plans \<noteq> [] \<and> set (map fst plans) \<subseteq> set (rn_workers r)"

definition prepare_calls :: "(string \<times> pyval) list \<Rightarrow> (string \<times> worker_call) list" where
  "prepare_calls plans = map (\<lambda>w. (w, PreparePhase (the (map_of plans w)))) (sorted_set (map fst plans))"

definition start_calls :: "(string \<times> pyval) list \<Rightarrow> int \<Rightarrow> (string \<times> worker_call) list" where
  "start_calls plans t = map (\<lambda>w. (w, StartPhase t)) (sorted_set (map fst plans))"

definition wait_calls :: "(string \<times> pyval) list \<Rightarrow> string \<Rightarrow> string \<Rightarrow> pyfloat \<Rightarrow> (string \<times> worker_call) list" where
  "wait_calls plans event_kind x t = map (\<lambda>w. (w, NextEvent event_kind x t)) (sorted_set (map fst plans))"

definition disable_calls :: "run \<Rightarrow> (string \<times> worker_call) list" where
  "disable_calls r = map (\<lambda>w. (w, PrepareDisabled)) (rn_workers r)"

text \<open>Every worker asked replied without an exception; every worker acknowledged; every worker reported the event.\<close>

definition replied :: "string list \<Rightarrow> outcome \<Rightarrow> bool" where
  "replied ws out \<longleftrightarrow> \<not> out_cancelled out \<and> (\<forall>w \<in> set ws. ok (out_replies out w))"

definition acknowledged :: "run \<Rightarrow> string \<Rightarrow> string list \<Rightarrow> outcome \<Rightarrow> bool" where
  "acknowledged r x ws out \<longleftrightarrow> replied ws out \<and> (\<forall>w \<in> set ws. scheduled_ack (r\<lparr>rn_execution := Some x\<rparr>) (out_replies out w))"

definition reported :: "run \<Rightarrow> string \<Rightarrow> string \<Rightarrow> string list \<Rightarrow> outcome \<Rightarrow> bool" where
  "reported r x event_kind ws out \<longleftrightarrow> \<not> out_cancelled out \<and>
     (\<forall>w \<in> set ws. ok (wait_one (r\<lparr>rn_execution := Some x\<rparr>) event_kind (out_events out w)))"

text \<open>A phase from its preparation to the last completion, and the log of a run after \<open>k\<close> phases.\<close>

definition phase_log :: "orch_config \<Rightarrow> run \<Rightarrow> nat \<Rightarrow> log_entry list \<Rightarrow> bool" where
  "phase_log C r k l \<longleftrightarrow> (\<exists>x plans t t1 t2 o1 o2 o3 o4. let ws = sorted_set (map fst plans) in
     plans_of C r k x plans \<and>
     l = [Asked (prepare_calls plans), Answered o1, Asked (start_calls plans t), Answered o2,
       Asked (wait_calls plans ''phase_started'' x t1), Answered o3, Asked (wait_calls plans ''phase_completed'' x t2), Answered o4] \<and>
     replied ws o1 \<and> acknowledged r x ws o2 \<and> reported r x ''phase_started'' ws o3 \<and> reported r x ''phase_completed'' ws o4)"

fun phases_done :: "orch_config \<Rightarrow> run \<Rightarrow> nat \<Rightarrow> log_entry list \<Rightarrow> bool" where
  "phases_done C r 0 l = (\<exists>out. l = [Asked (disable_calls r), Answered out] \<and> replied (rn_workers r) out)"
| "phases_done C r (Suc k) l = (\<exists>l1 l2. l = l1 @ l2 \<and> phases_done C r k l1 \<and> phase_log C r k l2)"

text \<open>The log of a run that waits, without a fault so far.\<close>

fun awaiting :: "orch_config \<Rightarrow> run \<Rightarrow> run_pc \<Rightarrow> log_entry list \<Rightarrow> bool" where
  "awaiting C r Disabling l = (l = [Asked (disable_calls r)])"
| "awaiting C r (Preparing k) l = (\<exists>l1 x plans. phases_done C r k l1 \<and> plans_of C r k x plans \<and>
     rn_execution r = Some x \<and> rn_phase_workers r = sorted_set (map fst plans) \<and> l = l1 @ [Asked (prepare_calls plans)])"
| "awaiting C r (Scheduling k t) l = (\<exists>l1 x plans o1. phases_done C r k l1 \<and> plans_of C r k x plans \<and>
     rn_execution r = Some x \<and> rn_phase_workers r = sorted_set (map fst plans) \<and> replied (rn_phase_workers r) o1 \<and>
     l = l1 @ [Asked (prepare_calls plans), Answered o1, Asked (start_calls plans t)])"
| "awaiting C r (Starting k t) l = (\<exists>l1 x plans o1 o2 t1. phases_done C r k l1 \<and> plans_of C r k x plans \<and>
     rn_execution r = Some x \<and> rn_phase_workers r = sorted_set (map fst plans) \<and> replied (rn_phase_workers r) o1 \<and>
     acknowledged r x (rn_phase_workers r) o2 \<and>
     l = l1 @ [Asked (prepare_calls plans), Answered o1, Asked (start_calls plans t), Answered o2,
       Asked (wait_calls plans ''phase_started'' x t1)])"
| "awaiting C r (Completing k) l = (\<exists>l1 x plans o1 o2 o3 t t1 t2. phases_done C r k l1 \<and> plans_of C r k x plans \<and>
     rn_execution r = Some x \<and> rn_phase_workers r = sorted_set (map fst plans) \<and> replied (rn_phase_workers r) o1 \<and>
     acknowledged r x (rn_phase_workers r) o2 \<and> reported r x ''phase_started'' (rn_phase_workers r) o3 \<and>
     l = l1 @ [Asked (prepare_calls plans), Answered o1, Asked (start_calls plans t), Answered o2,
       Asked (wait_calls plans ''phase_started'' x t1), Answered o3, Asked (wait_calls plans ''phase_completed'' x t2)])"
| "awaiting C r Idling l = (\<exists>l1. phases_done C r (length (rn_phases r)) l1 \<and>
     l = l1 @ [Asked (map (\<lambda>w. (w, Stop (stop_context r ''RUN_COMPLETED''))) (rn_workers r))])"
| "awaiting C r (Stopping e) l = False"
| "awaiting C r (Done x) l = False"

lemma scheduled_ack_only: "rn_id r' = rn_id r \<Longrightarrow> rn_execution r' = rn_execution r \<Longrightarrow> scheduled_ack r' = scheduled_ack r"
  by (intro ext) (simp only: scheduled_ack_def)

lemma wait_one_only: "rn_id r' = rn_id r \<Longrightarrow> rn_execution r' = rn_execution r \<Longrightarrow> wait_one r' = wait_one r"
proof (intro ext)
  fix event_kind es
  assume "rn_id r' = rn_id r" "rn_execution r' = rn_execution r"
  then show "wait_one r' event_kind es = wait_one r event_kind es" by (induction es) (simp_all only: wait_one.simps)
qed

lemma scheduled_ack_cong: "same_run r r' \<Longrightarrow> scheduled_ack (r'\<lparr>rn_execution := x\<rparr>) = scheduled_ack (r\<lparr>rn_execution := x\<rparr>)"
  by (rule scheduled_ack_only) (simp_all add: same_run_def)

lemma wait_one_cong: "same_run r r' \<Longrightarrow> wait_one (r'\<lparr>rn_execution := x\<rparr>) = wait_one (r\<lparr>rn_execution := x\<rparr>)"
  by (rule wait_one_only) (simp_all add: same_run_def)

lemma plans_of_cong: "same_run r r' \<Longrightarrow> plans_of C r' k x plans = plans_of C r k x plans"
  using plans_cong [of r r' C k] by (auto simp: plans_of_def same_run_def)

lemma phase_log_cong: "same_run r r' \<Longrightarrow> phase_log C r' k l = phase_log C r k l"
  by (simp add: phase_log_def plans_of_cong acknowledged_def reported_def scheduled_ack_cong wait_one_cong)

lemma phases_done_cong: "same_run r r' \<Longrightarrow> phases_done C r' k l = phases_done C r k l"
proof (induction k arbitrary: l)
  case 0
  then show ?case by (simp add: same_run_def disable_calls_def)
next
  case (Suc k)
  then show ?case by (simp add: phase_log_cong)
qed

lemma phases_done_le: "phases_done C r k l \<Longrightarrow> k \<le> length (rn_phases r)"
  by (cases k) (auto simp: phase_log_def plans_of_def Let_def)

text \<open>The log of a run that faulted: it was waiting, the await ended somehow, and every worker was told to stop.\<close>

definition stopped :: "orch_config \<Rightarrow> run \<Rightarrow> log_entry list \<Rightarrow> bool" where
  "stopped C r l \<longleftrightarrow> (\<exists>pc r0 l0 out ctx. same_run r r0 \<and> awaiting C r0 pc l0 \<and>
     l = l0 @ [Answered out, Asked (map (\<lambda>w. (w, Stop ctx)) (rn_workers r))])"

definition completed_run :: "orch_config \<Rightarrow> run \<Rightarrow> log_entry list \<Rightarrow> bool" where
  "completed_run C r l \<longleftrightarrow> (\<exists>l1 ctx out. phases_done C r (length (rn_phases r)) l1 \<and> replied (rn_workers r) out \<and>
     l = l1 @ [Asked (map (\<lambda>w. (w, Stop ctx)) (rn_workers r)), Answered out])"

definition run_inv :: "orch_config \<Rightarrow> run \<Rightarrow> bool" where
  "run_inv C r = (case rn_pc r of
      Stopping e \<Rightarrow> stopped C r (rn_log r)
    | Done (Inl e) \<Rightarrow> (\<exists>l out. stopped C r l \<and> rn_log r = l @ [Answered out]) \<and>
        (e = CancelledError \<or> (\<exists>c. e = RunExecutionError (rn_id r) c))
    | Done (Inr res) \<Rightarrow> completed_run C r (rn_log r) \<and> rr_status res = ''completed'' \<and> rr_phase_count res = length (rn_phases r) \<and>
        rr_run_id res = rn_id r \<and> rr_program_sha256 res = cp_sha256 (rn_program r)
    | pc \<Rightarrow> awaiting C r pc (rn_log r))"

lemma stopped_cong: "same_run r r' \<Longrightarrow> stopped C r' l = stopped C r l"
  by (simp add: stopped_def same_run_def)

lemma fault_inv:
  assumes "awaiting C r pc (rn_log r)" "same_run r r1" "rn_log r1 = rn_log r @ [Answered out]"
  shows "run_inv C (fault r1 e)"
proof -
  have "stopped C r1 (rn_log (fault r1 e))"
    unfolding stopped_def using assms
    by (intro exI [of _ pc] exI [of _ r] exI [of _ "rn_log r"] exI [of _ out] exI [of _ "stop_context r1 ''ORCHESTRATION_FAILURE''"])
      (auto simp: same_run_def fault_def stop_all_def ask_def)
  moreover have "stopped C (fault r1 e) l = stopped C r1 l" for l by (rule stopped_cong) simp
  ultimately have "stopped C (fault r1 e) (rn_log (fault r1 e))" by blast
  then show ?thesis by (simp add: run_inv_def fault_def stop_all_def ask_def)
qed

lemma record_event_cases:
  assumes "record_event C j now r kvs k = (r', j')"
  obtains item where "r' = k item" | e where "r' = fault r e"
  using assms by (auto simp: record_event_def split: prod.splits sum.splits)

lemma begin_phase_inv:
  assumes a: "awaiting C r pc (rn_log r)" "same_run r r1" "rn_log r1 = rn_log r @ [Answered out]"
    and d: "phases_done C r k (rn_log r1)"
  shows "run_inv C (begin_phase C r1 k)"
proof -
  have d1: "phases_done C r1 k (rn_log r1)" using d phases_done_cong [OF a(2)] by simp
  show ?thesis
  proof (cases "length (rn_phases r1) \<le> k")
    case True
    then have "k = length (rn_phases r1)" using phases_done_le [OF d1] by simp
    moreover have "phases_done C (stop_all r1 ''RUN_COMPLETED'' Idling) k l = phases_done C r1 k l" for l
      by (rule phases_done_cong) (simp add: stop_all_def)
    ultimately show ?thesis
      using d1 True by (auto simp: begin_phase_def run_inv_def stop_all_def ask_def stop_context_def)
  next
    case False
    note flt = fault_inv [OF a]
    show ?thesis
    proof (cases "py_getitem (rn_phases r1 ! k) ''phase_id''")
      case (Inl e)
      with False flt show ?thesis by (simp add: begin_phase_def)
    next
      case (Inr i)
      let ?r2 = "r1\<lparr>rn_phase := Some (py_str (oc_env C) i)\<rparr>"
      have flt2: "run_inv C (fault ?r2 e)" for e
        using a by (intro fault_inv [of C r pc ?r2 out]) (auto simp: same_run_def)
      show ?thesis
      proof (cases "worker_phase_plans C ?r2 k (rn_phases r1 ! k)")
        case (Inl e)
        with False Inr flt2 show ?thesis by (simp add: begin_phase_def Let_def)
      next
        case (Inr xp)
        then obtain x plans where xp: "worker_phase_plans C ?r2 k (rn_phases r1 ! k) = Inr (x, plans)" by (cases xp) auto
        then have plans: "worker_phase_plans C r1 k (rn_phases r1 ! k) = Inr (x, plans)"
          using plans_cong [of r1 ?r2] by simp
        show ?thesis
        proof (cases "set (map fst plans) \<subseteq> set (rn_workers r1) \<and> plans \<noteq> []")
          case True
          let ?r3 = "ask (?r2\<lparr>rn_execution := Some x, rn_phase_workers := sorted_set (map fst plans)\<rparr>) (prepare_calls plans) (Preparing k)"
          have s: "same_run r1 ?r3" by (simp add: same_run_def ask_def)
          have "plans_of C r1 k x plans" using True False plans by (auto simp: plans_of_def)
          with d1 have "awaiting C ?r3 (Preparing k) (rn_log ?r3)"
            unfolding awaiting.simps phases_done_cong [OF s] plans_of_cong [OF s] by (auto simp: ask_def)
          then have "run_inv C ?r3" by (simp add: run_inv_def ask_def)
          with True False \<open>py_getitem _ _ = Inr i\<close> xp show ?thesis by (auto simp: begin_phase_def Let_def prepare_calls_def)
        next
          case F: False
          with False \<open>py_getitem _ _ = Inr i\<close> xp flt2 show ?thesis by (auto simp: begin_phase_def Let_def)
        qed
      qed
    qed
  qed
qed

section \<open>Every step follows the protocol\<close>

abbreviation answered :: "run \<Rightarrow> outcome \<Rightarrow> run" where
  "answered r out \<equiv> r\<lparr>rn_log := rn_log r @ [Answered out]\<rparr>"

lemma all_ok_iff: "all_ok ws f \<longleftrightarrow> (\<forall>w \<in> set ws. ok (f w))"
  by (simp add: all_ok_def list_all_iff)

lemma rn_execution_id [simp]: "rn_execution r = Some x \<Longrightarrow> r\<lparr>rn_execution := Some x\<rparr> = r"
  by simp

lemma answered_fault:
  assumes "awaiting C r pc (rn_log r)"
  shows "run_inv C (fault (answered r out) e)"
  by (rule fault_inv [OF assms]) simp_all

lemma resume_disabling_inv:
  assumes a: "awaiting C r Disabling (rn_log r)" "\<not> out_cancelled out"
    and s: "resume_disabling C j now (answered r out) out = (r', j')"
  shows "run_inv C r'"
proof (cases "all_ok (rn_workers r) (out_replies out)")
  case True
  then have d: "phases_done C r 0 (rn_log (answered r out))" using a by (auto simp: replied_def all_ok_iff)
  have "run_inv C (begin_phase C (answered r out) 0)"
    by (rule begin_phase_inv [OF a(1), of "answered r out" out]) (use d in simp_all)
  with True s answered_fault [OF a(1)] show ?thesis
    by (auto simp: resume_disabling_def elim!: record_event_cases)
qed (use s answered_fault [OF a(1)] in \<open>auto simp: resume_disabling_def\<close>)

lemma resume_preparing_inv:
  assumes a: "awaiting C r (Preparing k) (rn_log r)" "\<not> out_cancelled out"
    and s: "resume_preparing C j now mono_us (answered r out) k out = (r', j')"
  shows "run_inv C r'"
proof (cases "all_ok (rn_phase_workers r) (out_replies out)")
  case True
  obtain l1 x plans where l: "phases_done C r k l1" "plans_of C r k x plans" "rn_execution r = Some x"
    "rn_phase_workers r = sorted_set (map fst plans)" "rn_log r = l1 @ [Asked (prepare_calls plans)]" using a(1) by auto
  let ?n = "ask (answered r out) (map (\<lambda>w. (w, StartPhase (mono_us + oc_start_lead_us C))) (rn_phase_workers r))
    (Scheduling k (mono_us + oc_start_lead_us C))"
  have sr: "same_run r ?n" by simp
  have "awaiting C ?n (Scheduling k (mono_us + oc_start_lead_us C)) (rn_log ?n)"
    unfolding awaiting.simps phases_done_cong [OF sr] plans_of_cong [OF sr] using l True a(2)
    by (intro exI [of _ l1] exI [of _ x] exI [of _ plans] exI [of _ out])
      (auto simp: ask_def start_calls_def replied_def all_ok_iff)
  then have "run_inv C ?n" by (simp add: run_inv_def ask_def)
  with True s answered_fault [OF a(1)] show ?thesis
    by (auto simp: resume_preparing_def Let_def elim!: record_event_cases)
qed (use s answered_fault [OF a(1)] in \<open>auto simp: resume_preparing_def\<close>)

lemma resume_scheduling_inv:
  assumes a: "awaiting C r (Scheduling k t) (rn_log r)" "\<not> out_cancelled out"
    and s: "resume_scheduling C j now mono_us (answered r out) k t out = (r', j')"
  shows "run_inv C r'"
proof (cases "all_ok (rn_phase_workers r) (out_replies out) \<and> list_all (\<lambda>w. scheduled_ack r (out_replies out w)) (rn_phase_workers r)")
  case True
  obtain l1 x plans o1 where l: "phases_done C r k l1" "plans_of C r k x plans" "rn_execution r = Some x"
    "rn_phase_workers r = sorted_set (map fst plans)" "replied (rn_phase_workers r) o1"
    "rn_log r = l1 @ [Asked (prepare_calls plans), Answered o1, Asked (start_calls plans t)]" using a(1) by auto
  have ack: "scheduled_ack (answered r out) = scheduled_ack r" by (rule scheduled_ack_only) simp_all
  have "run_inv C (ask (answered r out) (map (\<lambda>w. (w, NextEvent ''phase_started'' x t1)) (rn_phase_workers r)) (Starting k t))" for t1
  proof -
    let ?n = "ask (answered r out) (map (\<lambda>w. (w, NextEvent ''phase_started'' x t1)) (rn_phase_workers r)) (Starting k t)"
    have sr: "same_run r ?n" by simp
    have "acknowledged ?n x (rn_phase_workers r) out"
      using True a(2) l(3) unfolding acknowledged_def scheduled_ack_cong [OF sr] by (simp add: replied_def all_ok_iff list_all_iff)
    then have "awaiting C ?n (Starting k t) (rn_log ?n)"
      unfolding awaiting.simps phases_done_cong [OF sr] plans_of_cong [OF sr] using l
      by (intro exI [of _ l1] exI [of _ x] exI [of _ plans] exI [of _ o1] exI [of _ out] exI [of _ t1])
        (auto simp: ask_def wait_calls_def)
    then show ?thesis by (simp add: run_inv_def ask_def)
  qed
  with True s answered_fault [OF a(1)] l(3) show ?thesis
    by (auto simp: resume_scheduling_def ack elim!: record_event_cases split: sum.splits)
next
  case False
  have ack: "scheduled_ack (answered r out) = scheduled_ack r" by (rule scheduled_ack_only) simp_all
  show ?thesis using False s answered_fault [OF a(1)] by (auto simp: resume_scheduling_def ack)
qed

lemma waited_answered: "waited (answered r out) = waited r"
  using wait_one_only [of "answered r out" r] by (intro ext) (simp add: waited_def)

lemma resume_starting_inv:
  assumes a: "awaiting C r (Starting k t) (rn_log r)" "\<not> out_cancelled out"
    and s: "resume_starting C j now (answered r out) k t out = (r', j')"
  shows "run_inv C r'"
proof (cases "all_ok (rn_phase_workers r) (waited r ''phase_started'' out)")
  case True
  obtain l1 x plans o1 o2 t1 where l: "phases_done C r k l1" "plans_of C r k x plans" "rn_execution r = Some x"
    "rn_phase_workers r = sorted_set (map fst plans)" "replied (rn_phase_workers r) o1" "acknowledged r x (rn_phase_workers r) o2"
    "rn_log r = l1 @ [Asked (prepare_calls plans), Answered o1, Asked (start_calls plans t), Answered o2,
       Asked (wait_calls plans ''phase_started'' x t1)]" using a(1) by auto
  have "run_inv C (ask (answered r out) (map (\<lambda>w. (w, NextEvent ''phase_completed'' x t2)) (rn_phase_workers r)) (Completing k))" for t2
  proof -
    let ?n = "ask (answered r out) (map (\<lambda>w. (w, NextEvent ''phase_completed'' x t2)) (rn_phase_workers r)) (Completing k)"
    have sr: "same_run r ?n" by simp
    have "reported ?n x ''phase_started'' (rn_phase_workers r) out" "acknowledged ?n x (rn_phase_workers r) o2"
      using True a(2) l(3,6) unfolding reported_def acknowledged_def scheduled_ack_cong [OF sr] wait_one_cong [OF sr]
      by (simp_all add: all_ok_iff waited_def)
    then have "awaiting C ?n (Completing k) (rn_log ?n)"
      unfolding awaiting.simps phases_done_cong [OF sr] plans_of_cong [OF sr] using l
      by (intro exI [of _ l1] exI [of _ x] exI [of _ plans] exI [of _ o1] exI [of _ o2] exI [of _ out] exI [of _ t]
          exI [of _ t1] exI [of _ t2]) (auto simp: ask_def wait_calls_def)
    then show ?thesis by (simp add: run_inv_def ask_def)
  qed
  with True s answered_fault [OF a(1)] l(3) show ?thesis
    by (auto simp: resume_starting_def Let_def waited_answered elim!: record_event_cases split: sum.splits if_splits)
qed (use s answered_fault [OF a(1)] in \<open>auto simp: resume_starting_def Let_def waited_answered\<close>)

lemma resume_completing_inv:
  assumes a: "awaiting C r (Completing k) (rn_log r)" "\<not> out_cancelled out"
    and s: "resume_completing C j now (answered r out) k out = (r', j')"
  shows "run_inv C r'"
proof (cases "all_ok (rn_phase_workers r) (waited r ''phase_completed'' out)")
  case True
  obtain l1 x plans o1 o2 o3 t t1 t2 where l: "phases_done C r k l1" "plans_of C r k x plans" "rn_execution r = Some x"
    "rn_phase_workers r = sorted_set (map fst plans)" "replied (rn_phase_workers r) o1" "acknowledged r x (rn_phase_workers r) o2"
    "reported r x ''phase_started'' (rn_phase_workers r) o3"
    "rn_log r = l1 @ [Asked (prepare_calls plans), Answered o1, Asked (start_calls plans t), Answered o2,
       Asked (wait_calls plans ''phase_started'' x t1), Answered o3, Asked (wait_calls plans ''phase_completed'' x t2)]"
    using a(1) by auto
  have "reported r x ''phase_completed'' (rn_phase_workers r) out"
    using True a(2) l(3) by (simp add: reported_def all_ok_iff waited_def)
  with l have "phase_log C r k [Asked (prepare_calls plans), Answered o1, Asked (start_calls plans t), Answered o2,
       Asked (wait_calls plans ''phase_started'' x t1), Answered o3, Asked (wait_calls plans ''phase_completed'' x t2), Answered out]"
    unfolding phase_log_def Let_def
    by (intro exI [of _ x] exI [of _ plans] exI [of _ t] exI [of _ t1] exI [of _ t2] exI [of _ o1] exI [of _ o2] exI [of _ o3] exI [of _ out]) simp
  with l(1) have d: "phases_done C r (Suc k) (rn_log (answered r out))" unfolding l(8) by fastforce
  have "run_inv C (begin_phase C (answered r out) (Suc k))"
    by (rule begin_phase_inv [OF a(1), of "answered r out" out]) (use d in simp_all)
  with True s answered_fault [OF a(1)] show ?thesis
    by (auto simp: resume_completing_def Let_def waited_answered elim!: record_event_cases)
qed (use s answered_fault [OF a(1)] in \<open>auto simp: resume_completing_def Let_def waited_answered\<close>)

lemma resume_idling_inv:
  assumes a: "awaiting C r Idling (rn_log r)" "\<not> out_cancelled out"
    and s: "resume_idling C j now (answered r out) out = (r', j')"
  shows "run_inv C r'"
proof (cases "all_ok (rn_workers r) (out_replies out)")
  case True
  obtain l1 where l: "phases_done C r (length (rn_phases r)) l1"
    "rn_log r = l1 @ [Asked (map (\<lambda>w. (w, Stop (stop_context r ''RUN_COMPLETED''))) (rn_workers r))]" using a(1) by auto
  have "run_inv C (answered r out\<lparr>rn_pc := Done (Inr res)\<rparr>)"
    if res: "res = \<lparr>rr_run_id = rn_id r, rr_status = ''completed'', rr_phase_count = length (rn_phases r),
      rr_program_sha256 = cp_sha256 (rn_program r), rr_terminal_event_seq = n\<rparr>" for n res
  proof -
    let ?n = "answered r out\<lparr>rn_pc := Done (Inr res)\<rparr>"
    have sr: "same_run r ?n" by simp
    have "completed_run C ?n (rn_log ?n)"
      unfolding completed_run_def phases_done_cong [OF sr] using l True a(2)
      by (intro exI [of _ l1] exI [of _ "stop_context r ''RUN_COMPLETED''"] exI [of _ out]) (simp add: replied_def all_ok_iff)
    then show ?thesis by (simp add: run_inv_def res)
  qed
  with True s answered_fault [OF a(1)] show ?thesis
    by (auto simp: resume_idling_def elim!: record_event_cases)
qed (use s answered_fault [OF a(1)] in \<open>auto simp: resume_idling_def\<close>)

lemma stopped_answered:
  assumes "stopped C r (rn_log r)" "e = CancelledError \<or> (\<exists>c. e = RunExecutionError (rn_id r) c)"
  shows "run_inv C (answered r out\<lparr>rn_pc := Done (Inl e)\<rparr>)"
proof -
  have "stopped C (answered r out\<lparr>rn_pc := Done (Inl e)\<rparr>) l = stopped C r l" for l by (rule stopped_cong) simp
  with assms show ?thesis by (auto simp: run_inv_def)
qed

lemma resume_inv:
  assumes inv: "run_inv C r" and live: "\<not> is_done r" and s: "resume C j now mono_us r out = (r', j')"
  shows "run_inv C r'"
proof (cases "\<exists>e. rn_pc r = Stopping e")
  case True
  then obtain e where e: "rn_pc r = Stopping e" by blast
  with inv have st: "stopped C r (rn_log r)" by (simp add: run_inv_def)
  show ?thesis
    using s e stopped_answered [OF st] by (auto simp: resume_def resume_stopping_def Let_def split: if_splits)
next
  case False
  with inv live have a: "awaiting C r (rn_pc r) (rn_log r)"
    by (auto simp: run_inv_def is_done_def split: run_pc.splits)
  show ?thesis
  proof (cases "out_cancelled out")
    case True
    with s a False live answered_fault [OF a] show ?thesis
      by (auto simp: resume_def is_done_def split: run_pc.splits)
  next
    case nc: False
    note step = s [unfolded resume_def Let_def]
    show ?thesis
    proof (cases "rn_pc r")
      case Disabling
      have "resume_disabling C j now (answered r out) out = (r', j')" using step nc Disabling by simp
      then show ?thesis by (rule resume_disabling_inv [OF a [unfolded Disabling] nc])
    next
      case (Preparing k)
      have "resume_preparing C j now mono_us (answered r out) k out = (r', j')" using step nc Preparing by simp
      then show ?thesis by (rule resume_preparing_inv [OF a [unfolded Preparing] nc])
    next
      case (Scheduling k t)
      have "resume_scheduling C j now mono_us (answered r out) k t out = (r', j')" using step nc Scheduling by simp
      then show ?thesis by (rule resume_scheduling_inv [OF a [unfolded Scheduling] nc])
    next
      case (Starting k t)
      have "resume_starting C j now (answered r out) k t out = (r', j')" using step nc Starting by simp
      then show ?thesis by (rule resume_starting_inv [OF a [unfolded Starting] nc])
    next
      case (Completing k)
      have "resume_completing C j now (answered r out) k out = (r', j')" using step nc Completing by simp
      then show ?thesis by (rule resume_completing_inv [OF a [unfolded Completing] nc])
    next
      case Idling
      have "resume_idling C j now (answered r out) out = (r', j')" using step nc Idling by simp
      then show ?thesis by (rule resume_idling_inv [OF a [unfolded Idling] nc])
    qed (use False live in \<open>auto simp: is_done_def\<close>)
  qed
qed

lemma same_run_begin_phase [simp]: "same_run r (begin_phase C r' k) = same_run r r'"
  by (auto simp: begin_phase_def stop_all_def Let_def split: sum.splits)

lemma record_event_same: "record_event C j now r kvs k = (r', j') \<Longrightarrow> (\<And>item. same_run r (k item)) \<Longrightarrow> same_run r r'"
  by (erule record_event_cases) simp_all

lemma resume_same: "resume C j now mono_us r out = (r', j') \<Longrightarrow> same_run r r'"
proof -
  assume s: "resume C j now mono_us r out = (r', j')"
  have t: "same_run r x \<longleftrightarrow> same_run (answered r out) x" for x by (simp add: same_run_def)
  have "same_run (answered r out) r' \<or> r' = r"
    using s by (auto simp: resume_def Let_def resume_disabling_def resume_preparing_def resume_scheduling_def resume_starting_def
        resume_completing_def resume_idling_def resume_stopping_def split: if_splits run_pc.splits sum.splits
        elim!: record_event_same)
  then show ?thesis by (auto simp: t [symmetric])
qed

lemma record_event_grows: "record_event C j now r kvs k = (r', j') \<Longrightarrow> prefix (run_events j i) (run_events j' i)"
  using append_extends [of j i "oc_env C" "PStr (rn_id r)" "mkdict kvs" now]
  by (auto simp: record_event_def split: prod.splits sum.splits)

lemma resume_grows: "resume C j now mono_us r out = (r', j') \<Longrightarrow> prefix (run_events j i) (run_events j' i)"
  by (auto simp: resume_def Let_def resume_disabling_def resume_preparing_def resume_scheduling_def resume_starting_def
      resume_completing_def resume_idling_def resume_stopping_def append_extends split: if_splits run_pc.splits sum.splits
      elim!: record_event_grows)

section \<open>The orchestrator's invariant\<close>

definition live_runs :: "orchestrator \<Rightarrow> run set" where
  "live_runs S = {r \<in> set (or_runs S). \<not> is_done r}"

text \<open>What a run was admitted with.\<close>

definition admitted :: "orch_config \<Rightarrow> run \<Rightarrow> bool" where
  "admitted C r \<longleftrightarrow> (\<exists>who program locks. preflight C who program = Inr (rn_program r) \<and>
     lock_requirements_of C (rn_program r) = Inr locks \<and> participant_worker_ids (rn_program r) = Inr (rn_workers r) \<and>
     set (rn_workers r) \<subseteq> set (oc_workers C) \<and> program_phases (rn_program r) = Inr (rn_phases r) \<and>
     set (rc_leaves (rn_receipt r)) = set (lk_leaves locks) \<and> set (rc_resources (rn_receipt r)) = set (lk_resources locks) \<and>
     set (rc_safety_domains (rn_receipt r)) = set (lk_safety_domains locks))"

lemma admitted_cong: "same_run r r' \<Longrightarrow> admitted C r' = admitted C r"
  by (simp add: admitted_def same_run_def)

definition sys_inv :: "orch_config \<Rightarrow> orchestrator \<Rightarrow> bool" where
  "sys_inv C S \<longleftrightarrow> wf_manager (or_leases S) \<and> distinct (map rn_id (or_runs S)) \<and>
     (\<forall>r \<in> set (or_runs S). run_inv C r \<and> admitted C r \<and> run_events (or_journal S) (rn_id r) \<noteq> []) \<and>
     set (or_active S) = rn_id ` live_runs S \<and>
     (\<forall>i g. Mapping.lookup (grants (or_leases S)) i = Some g \<longleftrightarrow> (\<exists>r \<in> live_runs S. rn_id r = i \<and> rn_receipt r = g))"

lemma sys_invD:
  assumes "sys_inv C S"
  shows "wf_manager (or_leases S)" "distinct (map rn_id (or_runs S))" "set (or_active S) = rn_id ` live_runs S"
    "r \<in> set (or_runs S) \<Longrightarrow> run_inv C r \<and> admitted C r \<and> run_events (or_journal S) (rn_id r) \<noteq> []"
    "Mapping.lookup (grants (or_leases S)) i = Some g \<longleftrightarrow> (\<exists>r \<in> live_runs S. rn_id r = i \<and> rn_receipt r = g)"
  using assms by (auto simp: sys_inv_def)

lemma sys_inv_start: "sys_inv C (start_orchestrator j)"
  by (simp add: sys_inv_def start_orchestrator_def live_runs_def wf_manager_new) (simp add: new_manager_def)

text \<open>What a call of \<^verbatim>\<open>acquire\<close> for a run without a grant does to the grants, and \<^verbatim>\<open>release\<close> undoes it.\<close>

lemma acquire_fresh:
  assumes fresh: "Mapping.lookup (grants m) i = None"
    and a: "acquire m (PStr i) (strs l) (strs rs) (strs d) now = (res, m')"
  obtains (refused) e where "res = Inl e" "m' = m"
  | (granted) g where "res = Inr g" "rc_run_id g = i" "set (rc_leaves g) = set l" "set (rc_resources g) = set rs"
      "set (rc_safety_domains g) = set d" "\<not> bad_key i"
      "\<And>k. Mapping.lookup (grants m') k = (if k = i then Some g else Mapping.lookup (grants m) k)"
proof (rule acquire_cases [of m "PStr i" "strs l" "strs rs" "strs d" now])
  fix r q
  assume *: "PStr i = PStr r" "\<not> bad_key r" "LeaseRequest (strs l) (strs rs) (strs d) = Inr q"
    "acquire m (PStr i) (strs l) (strs rs) (strs d) now = (Inr (fst (grant m r q now)), snd (grant m r q now))"
  have keys: "canonical_keys (strs ks) = Inr ks' \<Longrightarrow> set ks' = set ks" for ks ks'
    by (auto simp: canonical_keys_def mapM_canonical_key inj_map_eq_map [of PStr] inj_def)
  have "set (leaf_ids q) = set l" "set (resource_keys q) = set rs" "set (safety_domain_keys q) = set d"
    using *(3) keys by (auto simp: LeaseRequest_def)
  then show thesis
    using * a by (intro granted [of "fst (grant m r q now)"]) (auto simp: grant_def Let_def lookup_update')
qed (use fresh a refused in auto)

lemma release_grants:
  assumes "wf_manager m" "\<not> bad_key i"
  shows "Mapping.lookup (grants (snd (release m (PStr i)))) k = (if k = i then None else Mapping.lookup (grants m) k)"
  using assms(1)
proof (cases rule: release_cases [of m "PStr i"])
  case (nothing x)
  with assms(2) show ?thesis by auto
next
  case (released r g)
  then show ?thesis by (auto simp: lookup_delete_if)
qed

lemma sys_inv_journal:
  assumes "sys_inv C S" "\<And>i. prefix (run_events (or_journal S) i) (run_events j i)"
  shows "sys_inv C (S\<lparr>or_journal := j\<rparr>)"
proof -
  have "run_events j i \<noteq> []" if "run_events (or_journal S) i \<noteq> []" for i
    using assms(2) [of i] that by (auto simp: prefix_def)
  with assms(1) show ?thesis by (auto simp: sys_inv_def live_runs_def)
qed

lemma sys_inv_leases:
  assumes "sys_inv C S" "wf_manager m" "\<And>k. Mapping.lookup (grants m) k = Mapping.lookup (grants (or_leases S)) k"
  shows "sys_inv C (S\<lparr>or_leases := m\<rparr>)"
  using assms by (simp add: sys_inv_def live_runs_def)

lemma sys_inv_open:
  assumes inv: "sys_inv C S"
  shows "sys_inv C (snd (open_execution C S run_id who program lease_ns now))"
proof (cases "run_id \<in> set (or_active S) \<or> isl (admit C (or_journal S) run_id who program)")
  case True
  then show ?thesis using inv by (auto simp: open_execution_def split: sum.splits)
next
  case False
  note I = sys_invD [OF inv]
  obtain checked locks workers phases where ad: "admit C (or_journal S) run_id who program = Inr (checked, locks, workers, phases)"
    using False by (cases "admit C (or_journal S) run_id who program") auto
  then have no_history: "run_events (or_journal S) run_id = []"
    by (auto simp: admit_def latest_def Let_def split: if_splits dest!: validate_run_id_Inr)
  have fresh: "Mapping.lookup (grants (or_leases S)) run_id = None"
    using False I(3) I(5) [of run_id] by (cases "Mapping.lookup (grants (or_leases S)) run_id") auto
  obtain res m where aq: "acquire (or_leases S) (PStr run_id) (strs (lk_leaves locks)) (strs (lk_resources locks))
      (strs (lk_safety_domains locks)) lease_ns = (res, m)" by fastforce
  have wf: "wf_manager m" using wf_acquire [OF I(1)] aq by (metis snd_conv)
  show ?thesis
  proof (rule acquire_fresh [OF fresh aq])
    fix e assume "res = Inl e" "m = or_leases S"
    then show ?thesis using inv ad aq False by (simp add: open_execution_def)
  next
    fix g
    assume g: "res = Inr g" "rc_run_id g = run_id" "set (rc_leaves g) = set (lk_leaves locks)"
      "set (rc_resources g) = set (lk_resources locks)" "set (rc_safety_domains g) = set (lk_safety_domains locks)" "\<not> bad_key run_id"
      "\<And>k. Mapping.lookup (grants m) k = (if k = run_id then Some g else Mapping.lookup (grants (or_leases S)) k)"
    have undone: "sys_inv C (S\<lparr>or_leases := snd (release m (PStr run_id))\<rparr>)"
      using sys_inv_leases [OF inv wf_release [OF wf]] release_grants [OF wf g(6)] g(7) fresh by auto
    show ?thesis
    proof (cases "opened_event C who checked g")
      case (Inl e)
      then show ?thesis using undone ad aq g(1) False by (simp add: open_execution_def)
    next
      case (Inr event)
      obtain ares j where ap: "append_event (oc_env C) (or_journal S) (PStr run_id) event now = (ares, j)" by fastforce
      have grows: "prefix (run_events (or_journal S) i) (run_events j i)" for i using append_extends ap by (metis snd_conv)
      show ?thesis
      proof (rule append_cases [OF ap])
        fix e assume "ares = Inl e"
        moreover have "sys_inv C (S\<lparr>or_leases := snd (release m (PStr run_id)), or_journal := j\<rparr>)"
          using sys_inv_journal [OF undone, of j] grows by simp
        ultimately show ?thesis using Inr ad aq g(1) ap False by (simp add: open_execution_def)
      next
        fix owner item
        assume it: "ares = Inr item" "PStr run_id = PStr owner"
          "\<And>r. run_events j r = (if r = owner then run_events (or_journal S) owner @ [item] else run_events (or_journal S) r)"
        let ?r = "\<lparr>rn_id = run_id, rn_program = checked, rn_phases = phases, rn_receipt = g, rn_workers = workers, rn_phase_workers = [],
          rn_phase = None, rn_execution = None, rn_pc = Disabling, rn_log = [Asked (map (\<lambda>w. (w, PrepareDisabled)) workers)]\<rparr>"
        let ?S = "S\<lparr>or_leases := m, or_journal := j, or_active := run_id # or_active S, or_runs := or_runs S @ [?r]\<rparr>"
        have "snd (open_execution C S run_id who program lease_ns now) = ?S"
          using Inr ad aq g(1) ap False it(1) by (simp add: open_execution_def)
        moreover have "run_id \<notin> rn_id ` set (or_runs S)" using I(4) no_history by auto
        moreover have "run_inv C ?r" by (simp add: run_inv_def disable_calls_def)
        moreover have "admitted C ?r"
          using ad g(3-5) unfolding admitted_def admit_def by (auto simp: Let_def)
        moreover have "live_runs ?S = insert ?r (live_runs S)" by (auto simp: live_runs_def is_done_def)
        moreover have "run_events j i \<noteq> []" if "run_events (or_journal S) i \<noteq> []" for i using that it(3) by auto
        moreover have "run_events j run_id \<noteq> []" using it(2,3) by simp
        ultimately show ?thesis
          using I wf g(7) by (auto simp: sys_inv_def live_runs_def)
      qed
    qed
  qed
qed

lemma sys_inv_resume:
  assumes inv: "sys_inv C S" and i: "i < length (or_runs S)" and live: "\<not> is_done (or_runs S ! i)"
  shows "sys_inv C (resume_execution C S i out now mono_us)"
proof -
  let ?r = "or_runs S ! i"
  note I = sys_invD [OF inv]
  obtain r' j where s: "resume C (or_journal S) now mono_us ?r out = (r', j)" by fastforce
  let ?runs = "(or_runs S)[i := r']"
  have same: "same_run ?r r'" by (rule resume_same [OF s])
  have rin: "?r \<in> set (or_runs S)" using i by simp
  have ids: "map rn_id ?runs = map rn_id (or_runs S)"
  proof -
    have "rn_id r' = rn_id ?r" using same by (simp add: same_run_def)
    then show ?thesis using i by (metis list_update_id map_update nth_map)
  qed
  have dist: "distinct (map rn_id ?runs)" using ids I(2) by simp
  have mem: "r \<in> set ?runs \<longleftrightarrow> r = r' \<or> (r \<in> set (or_runs S) \<and> rn_id r \<noteq> rn_id ?r)" for r
  proof -
    have uniq: "rn_id (or_runs S ! k) = rn_id ?r \<longleftrightarrow> k = i" if "k < length (or_runs S)" for k
      using that i I(2) by (metis distinct_conv_nth length_map nth_map)
    show ?thesis
      unfolding in_set_conv_nth using i uniq by (auto simp: nth_list_update) metis
  qed
  have grows: "run_events j k \<noteq> []" if "run_events (or_journal S) k \<noteq> []" for k
    using resume_grows [OF s, of k] that by (auto simp: prefix_def)
  have runs: "run_inv C r \<and> admitted C r \<and> run_events j (rn_id r) \<noteq> []" if "r \<in> set ?runs" for r
    using that I(4) [OF rin] I(4) [of r] resume_inv [OF _ live s] admitted_cong [OF same, of C] same grows
    by (auto simp: mem same_run_def)
  have liveS: "live_runs S = insert ?r {r \<in> set (or_runs S). \<not> is_done r \<and> rn_id r \<noteq> rn_id ?r}"
  proof -
    have "r = ?r" if "r \<in> set (or_runs S)" "rn_id r = rn_id ?r" for r
      using that rin I(2) by (metis distinct_map inj_on_def)
    then show ?thesis using rin live by (auto simp: live_runs_def)
  qed
  have live': "live_runs (S'\<lparr>or_runs := ?runs\<rparr>) = (if is_done r' then {} else {r'}) \<union> {r \<in> set (or_runs S). \<not> is_done r \<and> rn_id r \<noteq> rn_id ?r}" for S'
    by (auto simp: live_runs_def mem)
  have rid: "rn_id r' = rn_id ?r" "rn_receipt r' = rn_receipt ?r" using same by (simp_all add: same_run_def)
  show ?thesis
  proof (cases "is_done r'")
    case False
    then show ?thesis
      using s I(1) dist runs I(3,5) live' [of "S\<lparr>or_journal := j\<rparr>"] liveS rid
      by (simp add: resume_execution_def sys_inv_def)
  next
    case True
    have good: "\<not> bad_key (rn_id ?r)"
      using I(5) [of "rn_id ?r" "rn_receipt ?r"] liveS wf_managerD(1,2) [OF I(1)] by (fastforce simp: wf_receipt_def)
    have rel: "Mapping.lookup (grants (snd (release (or_leases S) (PStr (rn_id r'))))) k =
        (if k = rn_id ?r then None else Mapping.lookup (grants (or_leases S)) k)" for k
      using release_grants [OF I(1) good] rid by simp
    have g: "Mapping.lookup (grants (snd (release (or_leases S) (PStr (rn_id r'))))) k = Some g \<longleftrightarrow>
        (\<exists>r \<in> {r \<in> set (or_runs S). \<not> is_done r \<and> rn_id r \<noteq> rn_id ?r}. rn_id r = k \<and> rn_receipt r = g)" for k g
      unfolding rel using I(5) [of k g] unfolding liveS by auto
    have act: "set (removeAll (rn_id r') (or_active S)) = rn_id ` {r \<in> set (or_runs S). \<not> is_done r \<and> rn_id r \<noteq> rn_id ?r}"
      using I(3) unfolding liveS rid(1) set_removeAll by auto
    show ?thesis
      using True s dist runs g act wf_release [OF I(1)] live' [of "S\<lparr>or_leases := _, or_journal := j, or_active := _\<rparr>"]
      unfolding resume_execution_def sys_inv_def by (simp add: live_runs_def mem)
  qed
qed

lemma orch_reachable_inv: "orch_reachable C S \<Longrightarrow> sys_inv C S"
  by (induction rule: orch_reachable.induct) (auto intro: sys_inv_start sys_inv_open sys_inv_resume)

end
