(* ===== verification/RunSafety.thy ===== *)
theory RunSafety
  imports OrchestratorSafety
begin

text \<open>
  Consequences of the orchestrator's invariant: which calls a log can hold and in which order, how
  many steps a run can take, and that the tracks of an accepted artifact address leased groups only.
\<close>

section \<open>The calls of a log\<close>

text \<open>\<open>barrier\<close>: whenever workers are told to start, the log before is that of complete phases and answered preparations.\<close>

definition ready :: "orch_config \<Rightarrow> run \<Rightarrow> log_entry list \<Rightarrow> (string \<times> worker_call) list \<Rightarrow> int \<Rightarrow> bool" where
  "ready C r before calls t \<longleftrightarrow> (\<exists>k l x plans out. before = l @ [Asked (prepare_calls plans), Answered out] \<and> phases_done C r k l \<and>
     plans_of C r k x plans \<and> replied (sorted_set (map fst plans)) out \<and> calls = start_calls plans t)"

definition barrier :: "orch_config \<Rightarrow> run \<Rightarrow> log_entry list \<Rightarrow> bool" where
  "barrier C r l \<longleftrightarrow> (\<forall>before calls after w t. l = before @ Asked calls # after \<longrightarrow> (w, StartPhase t) \<in> set calls \<longrightarrow>
     ready C r before calls t)"

lemma barrier_Nil [simp]: "barrier C r []"
  by (simp add: barrier_def)

lemma barrier_snoc:
  "barrier C r (l @ [e]) \<longleftrightarrow> barrier C r l \<and>
     (\<forall>calls w t. e = Asked calls \<longrightarrow> (w, StartPhase t) \<in> set calls \<longrightarrow> ready C r l calls t)"
proof -
  have "l @ [e] = before @ Asked calls # after \<longleftrightarrow>
      (after = [] \<and> before = l \<and> e = Asked calls) \<or> (\<exists>rest. after = rest @ [e] \<and> l = before @ Asked calls # rest)"
    for before calls after
    by (cases after rule: rev_cases) auto
  then have "(\<forall>before calls after w t. l @ [e] = before @ Asked calls # after \<longrightarrow> P before calls w t) \<longleftrightarrow>
      (\<forall>before calls after w t. l = before @ Asked calls # after \<longrightarrow> P before calls w t) \<and> (\<forall>calls w t. e = Asked calls \<longrightarrow> P l calls w t)"
    for P by metis
  then show ?thesis unfolding barrier_def .
qed

lemma barrier_answered [simp]: "barrier C r (l @ [Answered out]) = barrier C r l"
  by (simp add: barrier_snoc)

lemma barrier_quiet:
  "(\<And>w t. (w, StartPhase t) \<notin> set calls) \<Longrightarrow> barrier C r (l @ [Asked calls]) = barrier C r l"
  by (auto simp: barrier_snoc)

lemma quiet_calls [simp]:
  "(w, StartPhase t) \<notin> set (prepare_calls plans)" "(w, StartPhase t) \<notin> set (wait_calls plans k x t1)"
  "(w, StartPhase t) \<notin> set (disable_calls r)" "(w, StartPhase t) \<notin> set (map (\<lambda>w. (w, Stop ctx)) ws)"
  by (auto simp: prepare_calls_def wait_calls_def disable_calls_def)

lemma start_calls_time: "(w, StartPhase t') \<in> set (start_calls plans t) \<Longrightarrow> t' = t"
  by (auto simp: start_calls_def)

lemma barrier_start:
  assumes "barrier C r l" "phases_done C r k l" "plans_of C r k x plans" "replied (sorted_set (map fst plans)) out"
  shows "barrier C r (l @ [Asked (prepare_calls plans), Answered out, Asked (start_calls plans t)])"
proof -
  have "barrier C r ((l @ [Asked (prepare_calls plans)]) @ [Answered out])"
    using assms(1) by (simp only: barrier_answered barrier_quiet [OF quiet_calls(1)])
  then have "barrier C r (l @ [Asked (prepare_calls plans), Answered out])" by simp
  moreover have "ready C r (l @ [Asked (prepare_calls plans), Answered out]) (start_calls plans t) t"
    unfolding ready_def using assms(2-4) by blast
  ultimately have "barrier C r ((l @ [Asked (prepare_calls plans), Answered out]) @ [Asked (start_calls plans t)])"
    unfolding barrier_snoc by (auto dest: start_calls_time)
  then show ?thesis by simp
qed

lemma barrier_phases: "phases_done C r k l \<Longrightarrow> barrier C r l"
proof (induction k arbitrary: l)
  case 0
  then obtain out where "l = ([] @ [Asked (disable_calls r)]) @ [Answered out]" by auto
  then show ?case by (simp only: barrier_answered barrier_quiet [OF quiet_calls(3)] barrier_Nil)
next
  case (Suc k)
  then obtain l1 x plans t t1 t2 o1 o2 o3 o4 where l: "phases_done C r k l1" "plans_of C r k x plans"
    "replied (sorted_set (map fst plans)) o1"
    "l = (((((l1 @ [Asked (prepare_calls plans), Answered o1, Asked (start_calls plans t)]) @ [Answered o2]) @
       [Asked (wait_calls plans ''phase_started'' x t1)]) @ [Answered o3]) @
       [Asked (wait_calls plans ''phase_completed'' x t2)]) @ [Answered o4]"
    unfolding phases_done.simps phase_log_def Let_def by fastforce
  show ?case
    unfolding l(4) barrier_answered barrier_quiet [OF quiet_calls(2)]
    by (rule barrier_start [OF Suc.IH [OF l(1)] l(1-3)])
qed

lemma barrier_awaiting:
  assumes "awaiting C r pc l"
  shows "barrier C r l"
  using assms
proof (cases pc)
  case (Starting k t)
  with assms obtain l1 x plans o1 o2 t1 where l: "phases_done C r k l1" "plans_of C r k x plans" "replied (sorted_set (map fst plans)) o1"
    "l = ((l1 @ [Asked (prepare_calls plans), Answered o1, Asked (start_calls plans t)]) @ [Answered o2]) @
       [Asked (wait_calls plans ''phase_started'' x t1)]" by fastforce
  show ?thesis
    unfolding l(4) barrier_answered barrier_quiet [OF quiet_calls(2)]
    by (rule barrier_start [OF barrier_phases [OF l(1)] l(1-3)])
next
  case (Completing k)
  with assms obtain l1 x plans o1 o2 o3 t t1 t2 where l: "phases_done C r k l1" "plans_of C r k x plans" "replied (sorted_set (map fst plans)) o1"
    "l = ((((l1 @ [Asked (prepare_calls plans), Answered o1, Asked (start_calls plans t)]) @ [Answered o2]) @
       [Asked (wait_calls plans ''phase_started'' x t1)]) @ [Answered o3]) @ [Asked (wait_calls plans ''phase_completed'' x t2)]" by fastforce
  show ?thesis
    unfolding l(4) barrier_answered barrier_quiet [OF quiet_calls(2)]
    by (rule barrier_start [OF barrier_phases [OF l(1)] l(1-3)])
next
  case Disabling
  with assms have "l = [] @ [Asked (disable_calls r)]" by simp
  then show ?thesis by (simp only: barrier_quiet [OF quiet_calls(3)] barrier_Nil)
qed (auto simp: barrier_quiet [OF quiet_calls(1)] barrier_quiet [OF quiet_calls(4)] dest: barrier_phases intro: barrier_start)

lemma ready_cong: "same_run r r' \<Longrightarrow> ready C r' = ready C r"
  by (intro ext) (simp add: ready_def phases_done_cong plans_of_cong)

lemma barrier_cong: "same_run r r' \<Longrightarrow> barrier C r' l = barrier C r l"
  by (simp add: barrier_def ready_cong)

lemma barrier_stopped:
  assumes "stopped C r l"
  shows "barrier C r l"
proof -
  obtain pc r0 l0 out ctx where l: "same_run r r0" "awaiting C r0 pc l0"
    "l = (l0 @ [Answered out]) @ [Asked (map (\<lambda>w. (w, Stop ctx)) (rn_workers r))]"
    using assms unfolding stopped_def append_assoc append.simps by blast
  then show ?thesis
    using barrier_awaiting [OF l(2)] barrier_cong [OF l(1)] by (simp only: barrier_quiet [OF quiet_calls(4)] barrier_answered)
qed

lemma barrier_run:
  assumes "run_inv C r"
  shows "barrier C r (rn_log r)"
proof (cases "rn_pc r")
  case (Stopping e)
  with assms show ?thesis by (auto simp: run_inv_def intro: barrier_stopped)
next
  case (Done res)
  show ?thesis
  proof (cases res)
    case (Inl e)
    with assms Done obtain l out where "stopped C r l" "rn_log r = l @ [Answered out]" by (auto simp: run_inv_def)
    then show ?thesis by (simp add: barrier_stopped)
  next
    case (Inr x)
    with assms Done obtain l1 ctx out where "phases_done C r (length (rn_phases r)) l1"
      "rn_log r = (l1 @ [Asked (map (\<lambda>w. (w, Stop ctx)) (rn_workers r))]) @ [Answered out]"
      by (auto simp: run_inv_def completed_run_def)
    then show ?thesis by (simp only: barrier_answered barrier_quiet [OF quiet_calls(4)] barrier_phases)
  qed
qed (use assms in \<open>auto simp: run_inv_def simp del: awaiting.simps intro: barrier_awaiting\<close>)

text \<open>Only the workers that take part are ever called, and they are only given plans of the run's phases.\<close>

definition permitted :: "orch_config \<Rightarrow> run \<Rightarrow> (string \<times> worker_call) set" where
  "permitted C r = {(w, c). w \<in> set (rn_workers r) \<and>
     (\<forall>p. c = PreparePhase p \<longrightarrow> (\<exists>k x plans. plans_of C r k x plans \<and> (w, p) \<in> set plans))}"

definition calls_of :: "log_entry list \<Rightarrow> (string \<times> worker_call) set" where
  "calls_of l = {c. \<exists>calls. Asked calls \<in> set l \<and> c \<in> set calls}"

lemma calls_of_simps [simp]:
  "calls_of [] = {}" "calls_of (Answered out # l) = calls_of l" "calls_of (Asked calls # l) = set calls \<union> calls_of l"
  "calls_of (l @ m) = calls_of l \<union> calls_of m"
  by (auto simp: calls_of_def)

lemma permitted_calls [simp]:
  "set (disable_calls r) \<subseteq> permitted C r" "set (map (\<lambda>w. (w, Stop ctx)) (rn_workers r)) \<subseteq> permitted C r"
  "(\<lambda>w. (w, Stop ctx)) ` set (rn_workers r) \<subseteq> permitted C r"
  by (auto simp: permitted_def disable_calls_def)

lemma permitted_plans:
  assumes "plans_of C r k x plans"
  shows "set (prepare_calls plans) \<subseteq> permitted C r \<and> (\<forall>t. set (start_calls plans t) \<subseteq> permitted C r) \<and>
    (\<forall>e y t1. set (wait_calls plans e y t1) \<subseteq> permitted C r)"
proof -
  have "w \<in> set (rn_workers r)" if "(w, p) \<in> set plans" for w p
    using assms that by (force simp: plans_of_def)
  moreover have "(w, the (map_of plans w)) \<in> set plans" if "(w, p) \<in> set plans" for w p
    using that by (cases "map_of plans w") (auto dest: map_of_SomeD simp: map_of_eq_None_iff, force)
  ultimately show ?thesis
    using assms by (fastforce simp: permitted_def prepare_calls_def start_calls_def wait_calls_def)
qed

lemma permitted_cong: "same_run r r' \<Longrightarrow> permitted C r' = permitted C r"
  unfolding permitted_def by (simp add: plans_of_cong) (simp add: same_run_def)

lemma calls_phases: "phases_done C r k l \<Longrightarrow> calls_of l \<subseteq> permitted C r"
proof (induction k arbitrary: l)
  case 0
  then show ?case by (auto del: subsetI)
next
  case (Suc k)
  then obtain l1 l2 where l: "l = l1 @ l2" "calls_of l1 \<subseteq> permitted C r" "phase_log C r k l2" by auto
  from l(3) have "calls_of l2 \<subseteq> permitted C r" by (auto simp: phase_log_def Let_def dest!: permitted_plans del: subsetI)
  with l show ?case by simp
qed

lemma calls_awaiting:
  assumes "awaiting C r pc l"
  shows "calls_of l \<subseteq> permitted C r"
  by (cases pc) (use assms in \<open>auto dest!: permitted_plans calls_phases del: subsetI\<close>)

lemma calls_run:
  assumes "run_inv C r"
  shows "calls_of (rn_log r) \<subseteq> permitted C r"
proof -
  have st: "calls_of l \<subseteq> permitted C r" if stop: "stopped C r l" for l
  proof -
    obtain pc r0 l0 out ctx where l: "same_run r r0" "awaiting C r0 pc l0"
      "l = l0 @ [Answered out, Asked (map (\<lambda>w. (w, Stop ctx)) (rn_workers r))]"
      using stop unfolding stopped_def by blast
    show ?thesis unfolding l(3) using calls_awaiting [OF l(2)] permitted_cong [OF l(1)] by simp
  qed
  show ?thesis
  proof (cases "rn_pc r")
    case (Stopping e)
    with assms st show ?thesis by (simp add: run_inv_def)
  next
    case (Done res)
    with assms st show ?thesis
      by (cases res) (auto simp: run_inv_def completed_run_def dest!: calls_phases del: subsetI)
  qed (use assms in \<open>auto simp: run_inv_def simp del: awaiting.simps dest!: calls_awaiting del: subsetI\<close>)
qed

section \<open>The number of steps\<close>

text \<open>How many awaits a run has before it at most: four per phase, three around them.\<close>

definition awaits_left :: "run \<Rightarrow> nat" where
  "awaits_left r = (let left = (\<lambda>k. 4 * (length (rn_phases r) - k)) in case rn_pc r of
      Disabling \<Rightarrow> left 0 + 3 | Preparing k \<Rightarrow> left k + 2 | Scheduling k t \<Rightarrow> left k + 1 | Starting k t \<Rightarrow> left k
    | Completing k \<Rightarrow> left k - 1 | Idling \<Rightarrow> 2 | Stopping e \<Rightarrow> 1 | Done x \<Rightarrow> 0)"

lemma awaits_left_simps [simp]:
  "awaits_left (fault r e) = 1" "awaits_left (r\<lparr>rn_pc := Done x\<rparr>) = 0"
  "awaits_left (ask r calls (Scheduling k t)) = 4 * (length (rn_phases r) - k) + 1"
  "awaits_left (ask r calls (Starting k t)) = 4 * (length (rn_phases r) - k)"
  "awaits_left (ask r calls (Completing k)) = 4 * (length (rn_phases r) - k) - 1"
  by (simp_all add: awaits_left_def fault_def stop_all_def ask_def)

lemma awaits_left_begin: "awaits_left (begin_phase C r k) \<le> 4 * (length (rn_phases r) - k) + 2"
  by (auto simp: begin_phase_def Let_def split: sum.splits) (auto simp: awaits_left_def stop_all_def ask_def)

lemma awaiting_phase:
  "awaiting C r (Preparing k) l \<Longrightarrow> k < length (rn_phases r)" "awaiting C r (Scheduling k t) l \<Longrightarrow> k < length (rn_phases r)"
  "awaiting C r (Starting k t) l \<Longrightarrow> k < length (rn_phases r)" "awaiting C r (Completing k) l \<Longrightarrow> k < length (rn_phases r)"
  by (auto simp: plans_of_def)

lemma resume_left:
  assumes inv: "run_inv C r" and live: "\<not> is_done r" and s: "resume C j now mono_us r out = (r', j')"
  shows "awaits_left r' < awaits_left r"
proof -
  have le: "awaits_left r' \<le> awaits_left r - 1 \<and> 1 \<le> awaits_left r"
  proof (cases "out_cancelled out")
    case True
    have k: "rn_pc r = Scheduling k t \<Longrightarrow> k < length (rn_phases r)" "rn_pc r = Completing k \<Longrightarrow> k < length (rn_phases r)" "rn_pc r = Starting k t \<Longrightarrow> k < length (rn_phases r)" for k t
      using inv awaiting_phase by (force simp: run_inv_def)+
    show ?thesis
      using True s live k by (auto simp: resume_def is_done_def split: run_pc.splits) (auto simp: awaits_left_def)
  next
    case nc: False
    note step = s [unfolded resume_def Let_def]
    show ?thesis
    proof (cases "rn_pc r")
      case Disabling
      then show ?thesis using step nc awaits_left_begin [of C "answered r out" 0]
        by (auto simp: resume_disabling_def awaits_left_def [of r] split: if_splits elim!: record_event_cases)
    next
      case (Preparing k)
      then show ?thesis using step nc
        by (auto simp: resume_preparing_def awaits_left_def [of r] Let_def split: if_splits elim!: record_event_cases)
    next
      case (Scheduling k t)
      with inv have "k < length (rn_phases r)" using awaiting_phase(2) by (force simp: run_inv_def)
      with Scheduling show ?thesis using step nc
        by (auto simp: resume_scheduling_def awaits_left_def [of r] Let_def split: if_splits sum.splits elim!: record_event_cases)
    next
      case (Starting k t)
      with inv have "k < length (rn_phases r)" using awaiting_phase(3) by (force simp: run_inv_def)
      with Starting show ?thesis using step nc
        by (auto simp: resume_starting_def awaits_left_def [of r] Let_def split: if_splits sum.splits elim!: record_event_cases)
    next
      case (Completing k)
      with inv have "k < length (rn_phases r)" using awaiting_phase(4) by (force simp: run_inv_def)
      with Completing show ?thesis using step nc awaits_left_begin [of C "answered r out" "Suc k"]
        by (auto simp: resume_completing_def awaits_left_def [of r] Let_def split: if_splits elim!: record_event_cases)
    next
      case Idling
      then show ?thesis using step nc
        by (auto simp: resume_idling_def awaits_left_def [of r] split: if_splits elim!: record_event_cases)
    next
      case (Stopping e)
      then show ?thesis using step nc by (auto simp: resume_stopping_def awaits_left_def [of r])
    qed (use live in \<open>auto simp: is_done_def\<close>)
  qed
  then show ?thesis by linarith
qed

text \<open>A schedule says which run goes on with which outcome; a run that has ended is left alone.\<close>

definition advance :: "orch_config \<Rightarrow> orchestrator \<Rightarrow> nat \<times> outcome \<times> int \<times> int \<Rightarrow> orchestrator" where
  "advance C S step = (case step of (i, out, now, mono_us) \<Rightarrow>
     if i < length (or_runs S) \<and> \<not> is_done (or_runs S ! i) then resume_execution C S i out now mono_us else S)"

lemma advance_reachable: "orch_reachable C S \<Longrightarrow> orch_reachable C (advance C S step)"
  by (auto simp: advance_def intro: orch_resume split: prod.splits)

lemma run_invI: "orch_reachable C S \<Longrightarrow> r \<in> set (or_runs S) \<Longrightarrow> run_inv C r"
  using orch_reachable_inv sys_invD(4) by blast

lemma awaits_left_bound: "awaits_left r \<le> 4 * length (rn_phases r) + 3"
  by (auto simp: awaits_left_def split: run_pc.splits)

lemma awaits_left_done: "run_inv C r \<Longrightarrow> awaits_left r = 0 \<Longrightarrow> is_done r"
  by (auto simp: awaits_left_def is_done_def run_inv_def simp del: awaiting.simps split: run_pc.splits dest!: awaiting_phase)

lemma resume_execution_runs:
  "or_runs (resume_execution C S i out now mono_us) = (or_runs S)[i := fst (resume C (or_journal S) now mono_us (or_runs S ! i) out)]"
  by (auto simp: resume_execution_def Let_def split: prod.splits)

lemma advance_runs:
  assumes "orch_reachable C S" "i < length (or_runs S)"
  shows "length (or_runs (advance C S step)) = length (or_runs S)"
    "awaits_left (or_runs (advance C S step) ! i) \<le> awaits_left (or_runs S ! i) - (if fst step = i then 1 else 0)"
proof -
  obtain j out now mono_us where step: "step = (j, out, now, mono_us)" by (cases step)
  show "length (or_runs (advance C S step)) = length (or_runs S)"
    by (simp add: step advance_def resume_execution_runs)
  show "awaits_left (or_runs (advance C S step) ! i) \<le> awaits_left (or_runs S ! i) - (if fst step = i then 1 else 0)"
  proof (cases "j = i \<and> \<not> is_done (or_runs S ! i)")
    case True
    have "run_inv C (or_runs S ! i)" using assms by (simp add: run_invI)
    from resume_left [OF this _ surjective_pairing [of "resume C (or_journal S) now mono_us (or_runs S ! i) out"]] True
    show ?thesis using assms(2) by (simp add: step advance_def resume_execution_runs)
  next
    case False
    then show ?thesis by (auto simp: step advance_def resume_execution_runs awaits_left_def is_done_def split: run_pc.splits)
  qed
qed

lemma schedule_ends:
  assumes "orch_reachable C S" "i < length (or_runs S)"
    "awaits_left (or_runs S ! i) \<le> length (filter (\<lambda>step. fst step = i) steps)"
  shows "i < length (or_runs (foldl (advance C) S steps)) \<and> is_done (or_runs (foldl (advance C) S steps) ! i) \<and>
    orch_reachable C (foldl (advance C) S steps)"
  using assms
proof (induction steps arbitrary: S)
  case Nil
  then show ?case using awaits_left_done [OF run_invI [OF Nil.prems(1)]] by simp
next
  case (Cons step steps)
  have "awaits_left (or_runs (advance C S step) ! i) \<le> length (filter (\<lambda>step. fst step = i) steps)"
    using advance_runs(2) [OF Cons.prems(1,2), of step] Cons.prems(3) by (auto split: if_splits)
  with Cons.IH [OF advance_reachable [OF Cons.prems(1)]] advance_runs(1) [OF Cons.prems(1,2)] Cons.prems(2) show ?case by simp
qed

section \<open>What an accepted artifact commands\<close>

text \<open>Equal dictionaries have equal values under every key, when one of them was made from distinct keys.\<close>

lemma py_eq_lookup:
  assumes eq: "py_eq (mkdict kvs) v" and d: "distinct (map fst kvs)" and k: "map_of kvs k = Some x"
  obtains e y where "v = PDict e" "dget e k = Some y" "py_eq x y"
proof -
  obtain e where e: "v = PDict e" using eq by (cases v) (auto simp: mkdict_def py_eq.simps)
  let ?d = "map (\<lambda>(k, v). (PStr k, v)) kvs"
  have len: "length e = length kvs" and sub: "\<And>k v. (k, v) \<in> set kvs \<Longrightarrow> \<exists>w. (PStr k, w) \<in> set e \<and> py_eq v w"
    using eq by (fastforce simp: e mkdict_def py_eq_dict py_eq_str_left)+
  have "PStr ` fst ` set kvs \<subseteq> fst ` set e" using sub by force
  moreover have "card (PStr ` fst ` set kvs) = length kvs"
    using d distinct_card [of "map fst kvs"] by (simp add: card_image inj_on_def)
  ultimately have "length (map fst e) \<le> card (set (map fst e))" using len by (metis card_mono finite_set length_map list.set_map)
  then have dist: "distinct (map fst e)" using card_distinct card_length le_antisym by metis
  obtain y where y: "(PStr k, y) \<in> set e" "py_eq x y" using sub map_of_SomeD [OF k] by blast
  have "dget e k = Some y" using dget_distinct [of e k y] dist y(1) by (simp add: PyVal.keys_def)
  with e y(2) that show thesis by blast
qed

lemma compiled_body:
  assumes "compile_program E V template = Inr q"
  obtains i root_id m oh phases where "PDict (cp_body q) = mkdict (body_items i (rv_server_id V) root_id m oh phases)"
  using assms by (auto simp: compile_program_def Let_def case_list_Inr split: prod.splits)

text \<open>The target of a track, as \<^verbatim>\<open>_worker_phase_plans\<close> and \<^verbatim>\<open>lock_requirements\<close> read it.\<close>

definition track_target :: "pyval \<Rightarrow> (string \<times> string) result" where
  "track_target t = bind (bind (py_get t ''resolved_target'' PNone) plain_mapping) (\<lambda>d.
     case (dget_or d ''physical_node_id'' PNone, dget_or d ''group_id'' PNone) of
       (PStr p, PStr g) \<Rightarrow> Inr (p, g)
     | _ \<Rightarrow> Inl (ProgramError ''INVALID_ARTIFACT''))"

lemma equal_target:
  assumes eq: "py_eq (mkdict kvs) t" and d: "distinct (map fst kvs)" and r: "map_of kvs ''resolved_target'' = Some (resolved_target s)"
  shows "track_target t = Inr (seq_node s, seq_group s) \<and>
    (\<exists>d e. t = PDict d \<and> dget d ''resolved_target'' = Some (PDict e) \<and> dget e ''physical_node_id'' = Some (PStr (seq_node s)) \<and>
      dget e ''group_id'' = Some (PStr (seq_group s)))"
proof -
  obtain td v where t: "t = PDict td" "dget td ''resolved_target'' = Some v" "py_eq (resolved_target s) v"
    by (rule py_eq_lookup [OF eq d r])
  from t(3) have v: "py_eq (mkdict [(''physical_node_id'', PStr (seq_node s)), (''group_id'', PStr (seq_group s))]) v"
    by (simp add: resolved_target_def)
  obtain e y where e: "v = PDict e" "dget e ''physical_node_id'' = Some y" "py_eq (PStr (seq_node s)) y"
    by (rule py_eq_lookup [OF v, of "''physical_node_id''" "PStr (seq_node s)"]) auto
  obtain e' y' where e': "v = PDict e'" "dget e' ''group_id'' = Some y'" "py_eq (PStr (seq_group s)) y'"
    by (rule py_eq_lookup [OF v, of "''group_id''" "PStr (seq_group s)"]) auto
  from t e e' show ?thesis
    by (auto simp: track_target_def py_get_def py_items_def plain_mapping_def dget_or_def py_eq_str_left)
qed

lemma py_eq_PList: "py_eq (PList (map f xs)) v \<longleftrightarrow> (\<exists>ys. v = PList ys \<and> list_all2 (\<lambda>x. py_eq (f x)) xs ys)"
proof (cases v)
  case (PList ys)
  then show ?thesis by (simp add: py_eq_list list_all2_map1)
qed (simp_all add: py_eq.simps [of "PList _"])

text \<open>The phases and the outline of an accepted artifact name the same targets.\<close>

definition phase_targets :: "pyval \<Rightarrow> (string \<times> string) list result" where
  "phase_targets phase = bind (bind (py_getitem phase ''sequences'') py_iter) (mapM track_target)"

lemma equal_phase:
  assumes eq: "py_eq (mkdict kvs) phase" and d: "distinct (map fst kvs)"
    and k: "map_of kvs ''sequences'' = Some (PList (map f ss))"
    and f: "\<And>x. x \<in> set ss \<Longrightarrow> \<exists>kvs. f x = mkdict kvs \<and> distinct (map fst kvs) \<and> map_of kvs ''resolved_target'' = Some (resolved_target (fst x))"
  obtains pd seqs where "phase = PDict pd" "dget pd ''sequences'' = Some (PList seqs)"
    "list_all2 (\<lambda>x t. py_eq (f x) t) ss seqs" "mapM track_target seqs = Inr (map (\<lambda>x. (seq_node (fst x), seq_group (fst x))) ss)"
proof -
  obtain pd v where p: "phase = PDict pd" "dget pd ''sequences'' = Some v" "py_eq (PList (map f ss)) v"
    by (rule py_eq_lookup [OF eq d k])
  obtain seqs where v: "v = PList seqs" "list_all2 (\<lambda>x t. py_eq (f x) t) ss seqs"
    using p(3) unfolding py_eq_PList by blast
  have "track_target t = Inr (seq_node (fst x), seq_group (fst x))" if "x \<in> set ss" "py_eq (f x) t" for x t
    using f [OF that(1)] that(2) equal_target by metis
  then have "mapM track_target seqs = Inr (map (\<lambda>x. (seq_node (fst x), seq_group (fst x))) ss)"
    using v(2) unfolding mapM_Inr_iff list_all2_map2 by (auto simp: list_all2_conv_all_nth)
  with p v that show thesis by blast
qed

lemma accepted_phases:
  assumes acc: "validate_for_current_registry E V p = Inr ()" and ph: "program_phases p = Inr phases"
  obtains parts outline outlines where "list_all2 (\<lambda>x. py_eq (phase_dict x)) parts phases"
    "program_outline p = Inr (PDict outline)" "dget outline ''phases'' = Some (PList outlines)"
    "list_all2 (\<lambda>x. py_eq (outline_phase x)) parts outlines"
proof -
  obtain template q where q: "compile_program E V template = Inr q" "py_eq (PDict (cp_body q)) (PDict (cp_body p))"
    using acc unfolding validate_for_current_registry_def by auto
  obtain i root_id m oh parts where b: "PDict (cp_body q) = mkdict (body_items i (rv_server_id V) root_id m oh parts)"
    by (rule compiled_body [OF q(1)])
  note eq = q(2) [unfolded b]
  obtain pv where pv: "dget (cp_body p) ''phases'' = Some pv" "py_eq (PList (map phase_dict parts)) pv"
    by (rule py_eq_lookup [OF eq distinct_body, of "''phases''" "PList (map phase_dict parts)"]) (auto simp: body_items_def)
  obtain ov where ov: "dget (cp_body p) ''outline'' = Some ov" "py_eq (outline_dict parts) ov"
    by (rule py_eq_lookup [OF eq distinct_body, of "''outline''" "outline_dict parts"]) (auto simp: body_items_def)
  obtain outline opv where o: "ov = PDict outline" "dget outline ''phases'' = Some opv" "py_eq (PList (map outline_phase parts)) opv"
    by (rule py_eq_lookup [OF ov(2) [unfolded outline_dict_def], of "''phases''"]) auto
  from pv(2) o(3) obtain ps outlines where l: "pv = PList ps" "list_all2 (\<lambda>x. py_eq (phase_dict x)) parts ps"
    "opv = PList outlines" "list_all2 (\<lambda>x. py_eq (outline_phase x)) parts outlines"
    unfolding py_eq_PList by blast
  have "phases = ps" using ph pv(1) l(1) by (simp add: program_phases_def dindex_def py_iter_def)
  with l o ov(1) that show thesis by (simp add: program_outline_def dindex_def)
qed

definition leaf_of :: "string \<times> string \<Rightarrow> string" where
  "leaf_of t = fst t @ ''.'' @ snd t"

lemma sequence_locks_leaf:
  assumes "sequence_locks m acc t = Inr l"
  shows "set (lk_leaves acc) \<subseteq> set (lk_leaves l) \<and> (\<forall>x. track_target t = Inr x \<longrightarrow> leaf_of x \<in> set (lk_leaves l))"
  using assms
  by (auto simp: sequence_locks_def track_target_def py_get_def py_items_def plain_mapping_def leaf_of_def
      split: pyval.splits prod.splits)

lemma foldM_sequence_locks:
  "foldM (sequence_locks m) acc ts = Inr l \<Longrightarrow> set (lk_leaves acc) \<subseteq> set (lk_leaves l) \<and>
     (\<forall>t \<in> set ts. \<forall>x. track_target t = Inr x \<longrightarrow> leaf_of x \<in> set (lk_leaves l))"
proof (induction ts arbitrary: acc)
  case (Cons t ts)
  then obtain l1 where "sequence_locks m acc t = Inr l1" "foldM (sequence_locks m) l1 ts = Inr l" by auto
  with Cons.IH [of l1] sequence_locks_leaf [of m acc t l1] show ?case by auto
qed simp

lemma foldM_phase_locks:
  "foldM (phase_locks m) acc ps = Inr l \<Longrightarrow> set (lk_leaves acc) \<subseteq> set (lk_leaves l) \<and>
     (\<forall>pd ts t x. PDict pd \<in> set ps \<longrightarrow> dget pd ''sequences'' = Some (PList ts) \<longrightarrow> t \<in> set ts \<longrightarrow> track_target t = Inr x \<longrightarrow>
        leaf_of x \<in> set (lk_leaves l))"
proof (induction ps arbitrary: acc)
  case (Cons q ps)
  then obtain l1 where l1: "phase_locks m acc q = Inr l1" "foldM (phase_locks m) l1 ps = Inr l" by auto
  from l1(1) obtain qd ts where q: "q = PDict qd" "dget_or qd ''sequences'' PNone = PList ts" "foldM (sequence_locks m) acc ts = Inr l1"
    by (auto simp: phase_locks_def plain_mapping_def case_dict_Inr case_list_Inr)
  then have "dget qd ''sequences'' = Some (PList ts)" by (simp add: dget_or_def split: option.splits)
  with Cons.IH [OF l1(2)] foldM_sequence_locks [OF q(3)] q(1) show ?case by fastforce
qed simp

text \<open>Every track of a plan addresses the worker it is sent to, and a leased group of it.\<close>

definition plan_tracks :: "pyval \<Rightarrow> pyval list" where
  "plan_tracks plan = (case dget_or (the_dict plan) ''tracks'' PNone of PList ts \<Rightarrow> ts | _ \<Rightarrow> [])"

lemma add_track_mem:
  "(w, ts) \<in> set (foldl add_track acc xs) \<Longrightarrow> t \<in> set ts \<Longrightarrow> (w, t) \<in> set xs \<or> (\<exists>us. (w, us) \<in> set acc \<and> t \<in> set us)"
proof (induction xs arbitrary: acc)
  case (Cons y ys)
  have "(w, t) = y \<or> (\<exists>us. (w, us) \<in> set acc \<and> t \<in> set us)" if "(w, us) \<in> set (add_track acc y)" "t \<in> set us" for us
    using that by (cases y) (auto simp: add_track_def split: option.splits if_splits dest: map_of_SomeD)
  with Cons.IH [of "add_track acc y"] Cons.prems show ?case by auto
qed auto

lemma plan_of_tracks: "phase_plan r phase x root_id mh ts = Inr plan \<Longrightarrow> plan_tracks plan = ts"
  by (auto simp: phase_plan_def plan_tracks_def mkdict_def dget_or_def)

lemma case_str_Inr: "(case v of PStr s \<Rightarrow> f s | _ \<Rightarrow> Inl e) = Inr y \<longleftrightarrow> (\<exists>s. v = PStr s \<and> f s = Inr y)"
  by (cases v) auto

lemma plan_track_sequence:
  assumes w: "worker_phase_plans C r k phase = Inr (x, plans)" and m: "(w, plan) \<in> set plans" "t \<in> set (plan_tracks plan)"
    and s: "dget pd ''sequences'' = Some (PList seqs)" "phase = PDict pd"
  shows "\<exists>sq \<in> set seqs. sequence_track (oc_env C) sq = Inr (w, t)"
proof -
  obtain tracked root_id mh where w: "mapM (sequence_track (oc_env C)) seqs = Inr tracked"
    "mapM (\<lambda>(w, ts). bind (phase_plan r phase x root_id mh ts) (\<lambda>p. Inr (w, p))) (foldl add_track [] tracked) = Inr plans"
    using w s by (auto simp: worker_phase_plans_def py_getitem_def dindex_def py_iter_def Let_def case_str_Inr)
  from m(1) obtain ts where ts: "(w, ts) \<in> set (foldl add_track [] tracked)" "phase_plan r phase x root_id mh ts = Inr plan"
    unfolding set_mapM [OF w(2)] by auto
  have "(w, t) \<in> set tracked" using add_track_mem [OF ts(1)] m(2) plan_of_tracks [OF ts(2)] by auto
  then show ?thesis unfolding set_mapM [OF w(1)] by auto
qed

lemma target_rows [simp]:
  "sequence_dict y = mkdict (sequence_items (fst y) @ [(''sha256'', PStr (snd y))])"
  "outline_sequence y = mkdict [(''role_path'', PStr (seq_role_path (fst y))), (''resolved_target'', resolved_target (fst y)),
      (''command_schema'', PStr (seq_schema (fst y))), (''reference'', PStr (seq_reference (fst y))),
      (''duration_us'', PInt (seq_duration (fst y))), (''sha256'', PStr (snd y))]"
  by (simp_all add: sequence_dict_def outline_sequence_def split: prod.splits)

lemma accepted_phase_targets:
  assumes acc: "validate_for_current_registry (oc_env C) (oc_view C) p = Inr ()" and ph: "program_phases p = Inr phases"
    and locks: "lock_requirements_of C p = Inr locks" and k: "k < length phases"
  obtains pd seqs where "phases ! k = PDict pd" "dget pd ''sequences'' = Some (PList seqs)"
    "\<And>sq. sq \<in> set seqs \<Longrightarrow> \<exists>d e n g. sq = PDict d \<and> dget d ''resolved_target'' = Some (PDict e) \<and>
      dget e ''physical_node_id'' = Some (PStr n) \<and> track_target sq = Inr (n, g) \<and> leaf_of (n, g) \<in> set (lk_leaves locks)"
proof -
  obtain parts outline outlines where A: "list_all2 (\<lambda>x. py_eq (phase_dict x)) parts phases"
    "program_outline p = Inr (PDict outline)" "dget outline ''phases'' = Some (PList outlines)"
    "list_all2 (\<lambda>x. py_eq (outline_phase x)) parts outlines"
    by (rule accepted_phases [OF acc ph])
  let ?ph = "parts ! k"
  have kp: "k < length parts" "k < length outlines" using k list_all2_lengthD [OF A(1)] list_all2_lengthD [OF A(4)] by simp_all
  obtain pd seqs where P: "phases ! k = PDict pd" "dget pd ''sequences'' = Some (PList seqs)"
    "list_all2 (\<lambda>x t. py_eq (sequence_dict x) t) (ph_sequences ?ph) seqs"
    "mapM track_target seqs = Inr (map (\<lambda>x. (seq_node (fst x), seq_group (fst x))) (ph_sequences ?ph))"
    by (rule equal_phase [of _ "phases ! k" sequence_dict, OF list_all2_nthD [OF A(1) kp(1), unfolded phase_dict_def]])
      (auto simp: phase_items_def sequence_items_def)
  obtain od oseqs where O: "outlines ! k = PDict od" "dget od ''sequences'' = Some (PList oseqs)"
    "mapM track_target oseqs = Inr (map (\<lambda>x. (seq_node (fst x), seq_group (fst x))) (ph_sequences ?ph))"
    by (rule equal_phase [of _ "outlines ! k" outline_sequence, OF list_all2_nthD [OF A(4) kp(1), unfolded outline_phase_def]]) auto
  obtain m l where L: "foldM (phase_locks m) \<lparr>lk_leaves = [], lk_resources = [], lk_safety_domains = []\<rparr> outlines = Inr l"
    "set (lk_leaves locks) = set (lk_leaves l)"
    using locks A(2,3) by (auto simp: lock_requirements_of_def plain_mapping_def dget_or_def)
  have leased: "leaf_of (seq_node (fst y), seq_group (fst y)) \<in> set (lk_leaves locks)" if "y \<in> set (ph_sequences ?ph)" for y
  proof -
    have "(seq_node (fst y), seq_group (fst y)) \<in> set (map (\<lambda>x. (seq_node (fst x), seq_group (fst x))) (ph_sequences ?ph))" using that by simp
    then obtain t where "t \<in> set oseqs" "track_target t = Inr (seq_node (fst y), seq_group (fst y))"
      unfolding set_mapM [OF O(3)] by blast
    moreover have "PDict od \<in> set outlines" using O(1) kp(2) by (metis nth_mem)
    ultimately show ?thesis using foldM_phase_locks [OF L(1)] O(2) L(2) by blast
  qed
  have "\<exists>d e n g. sq = PDict d \<and> dget d ''resolved_target'' = Some (PDict e) \<and>
      dget e ''physical_node_id'' = Some (PStr n) \<and> track_target sq = Inr (n, g) \<and> leaf_of (n, g) \<in> set (lk_leaves locks)"
    if m: "sq \<in> set seqs" for sq
  proof -
    obtain i where i: "i < length seqs" "sq = seqs ! i" using m by (metis in_set_conv_nth)
    obtain y where y: "y \<in> set (ph_sequences ?ph)" "py_eq (sequence_dict y) sq"
      using i list_all2_lengthD [OF P(3)] list_all2_nthD2 [OF P(3) i(1)] by (metis nth_mem)
    have "distinct (map fst (sequence_items (fst y) @ [(''sha256'', PStr (snd y))]))"
      "map_of (sequence_items (fst y) @ [(''sha256'', PStr (snd y))]) ''resolved_target'' = Some (resolved_target (fst y))"
      by (simp_all add: sequence_items_def)
    from equal_target [OF y(2) [unfolded target_rows] this] leased [OF y(1)] show ?thesis by blast
  qed
  with P(1,2) that show thesis by blast
qed

lemma plan_tracks_leased:
  assumes ad: "admitted C r" and pl: "plans_of C r k x plans" "(w, plan) \<in> set plans" and t: "t \<in> set (plan_tracks plan)"
  shows "\<exists>g. track_target t = Inr (w, g) \<and> leaf_of (w, g) \<in> set (rc_leaves (rn_receipt r))"
proof -
  obtain locks where a: "validate_for_current_registry (oc_env C) (oc_view C) (rn_program r) = Inr ()"
    "program_phases (rn_program r) = Inr (rn_phases r)" "lock_requirements_of C (rn_program r) = Inr locks"
    "set (rc_leaves (rn_receipt r)) = set (lk_leaves locks)"
    using ad by (auto simp: admitted_def preflight_def)
  have k: "k < length (rn_phases r)" "worker_phase_plans C r k (rn_phases r ! k) = Inr (x, plans)" using pl(1) by (auto simp: plans_of_def)
  obtain pd seqs where P: "rn_phases r ! k = PDict pd" "dget pd ''sequences'' = Some (PList seqs)"
    "\<And>sq. sq \<in> set seqs \<Longrightarrow> \<exists>d e n g. sq = PDict d \<and> dget d ''resolved_target'' = Some (PDict e) \<and>
      dget e ''physical_node_id'' = Some (PStr n) \<and> track_target sq = Inr (n, g) \<and> leaf_of (n, g) \<in> set (lk_leaves locks)"
    by (rule accepted_phase_targets [OF a(1-3) k(1)]) blast
  obtain sq where sq: "sq \<in> set seqs" "sequence_track (oc_env C) sq = Inr (w, t)"
    using plan_track_sequence [OF k(2) pl(2) t P(2,1)] by blast
  from P(3) [OF sq(1)] sq(2) a(4) show ?thesis
    by (auto simp: sequence_track_def py_getitem_def dindex_def plain_mapping_def py_items_def py_str_def)
qed

text \<open>The tracks a log sends out, with the worker each goes to.\<close>

fun prepared :: "log_entry list \<Rightarrow> (string \<times> pyval) list" where
  "prepared [] = []"
| "prepared (Asked calls # l) = concat (map (\<lambda>(w, c). case c of PreparePhase p \<Rightarrow> map (Pair w) (plan_tracks p) | _ \<Rightarrow> []) calls) @ prepared l"
| "prepared (Answered out # l) = prepared l"

lemma prepared_calls: "(w, t) \<in> set (prepared l) \<Longrightarrow> \<exists>p. (w, PreparePhase p) \<in> calls_of l \<and> t \<in> set (plan_tracks p)"
  by (induction l rule: prepared.induct) (fastforce split: worker_call.splits)+

lemma prepared_leased:
  assumes "orch_reachable C S" "r \<in> set (or_runs S)" "(w, t) \<in> set (prepared (rn_log r))"
  shows "\<exists>g. track_target t = Inr (w, g) \<and> leaf_of (w, g) \<in> set (rc_leaves (rn_receipt r))"
proof -
  have I: "run_inv C r" "admitted C r" using sys_invD(4) [OF orch_reachable_inv [OF assms(1)] assms(2)] by blast+
  obtain p where p: "(w, PreparePhase p) \<in> calls_of (rn_log r)" "t \<in> set (plan_tracks p)" using prepared_calls [OF assms(3)] by blast
  then obtain k x plans where "plans_of C r k x plans" "(w, p) \<in> set plans"
    using subsetD [OF calls_run [OF I(1)] p(1)] by (auto simp: permitted_def)
  with plan_tracks_leased [OF I(2)] p(2) show ?thesis by blast
qed

lemma live_receipts:
  assumes "orch_reachable C S" "r1 \<in> set (or_runs S)" "r2 \<in> set (or_runs S)" "\<not> is_done r1" "\<not> is_done r2" "rn_id r1 \<noteq> rn_id r2"
  shows "held (rn_receipt r1) \<inter> held (rn_receipt r2) = {}"
proof -
  note I = sys_invD [OF orch_reachable_inv [OF assms(1)]]
  have "Mapping.lookup (grants (or_leases S)) (rn_id r) = Some (rn_receipt r)" if "r \<in> set (or_runs S)" "\<not> is_done r" for r
    using I(5) [of "rn_id r" "rn_receipt r"] that by (auto simp: live_runs_def)
  with assms held_unique [OF I(1)] show ?thesis by blast
qed

end
