(* ===== verification/RunGuarantees.thy ===== *)
theory RunGuarantees
  imports RunSafety
begin

text \<open>
  The promises of the run orchestrator to its clients, in every state that any interleaving of
  runs, replies, cancellations and clocks can reach.
\<close>

lemma require_control_iff:
  "require_control R who root_id paths = Inr () \<longleftrightarrow>
     (\<exists>ident. identity_named R who = Inr ident \<and> (\<forall>path \<in> set paths. can_control ident root_id (Some path)))"
proof -
  have "sorted_set xs = [] \<longleftrightarrow> xs = []" for xs :: "string list" by (metis set_empty set_sorted_set)
  then show ?thesis
    by (cases "identity_named R who") (auto simp: require_control_def catch_def Let_def filter_empty_conv)
qed

section \<open>Guarantees\<close>

text \<open>
  C1. Barriers: when a run tells workers to start a phase, everything it did before is exactly the
  complete protocol of all earlier phases, in which every worker acknowledged, started and
  completed, followed by the preparation of this phase, to which every one of its workers replied;
  and it starts all workers of the phase, with the same start time.
\<close>

theorem start_is_a_barrier:
  assumes "orch_reachable C S" "r \<in> set (or_runs S)" "i < length (rn_log r)" "rn_log r ! i = Asked calls"
    "(w, StartPhase t) \<in> set calls"
  shows "\<exists>k l x plans out. take i (rn_log r) = l @ [Asked (prepare_calls plans), Answered out] \<and> phases_done C r k l \<and>
    plans_of C r k x plans \<and> replied (sorted_set (map fst plans)) out \<and> calls = start_calls plans t"
proof -
  have "rn_log r = take i (rn_log r) @ Asked calls # drop (Suc i) (rn_log r)" using assms(3,4) by (metis id_take_nth_drop)
  with barrier_run [OF run_invI [OF assms(1,2)]] assms(5) have "ready C r (take i (rn_log r)) calls t"
    unfolding barrier_def by blast
  then show ?thesis unfolding ready_def by blast
qed

text \<open>
  C3. A run that has ended holds no lease and is not active. It ended with a result only if all
  phases completed and every worker then replied to the stop; on an exception, which is its
  cancellation or a \<^verbatim>\<open>RunExecutionError\<close> for its identifier, the last thing it did was to tell every
  participating worker to stop and to wait for the answers. No other worker was ever called.
\<close>

theorem ended_run_is_safe:
  assumes "orch_reachable C S" "r \<in> set (or_runs S)" "rn_pc r = Done res"
  shows "rn_id r \<notin> set (or_active S) \<and> Mapping.lookup (grants (or_leases S)) (rn_id r) = None \<and>
    (\<forall>(w, c) \<in> calls_of (rn_log r). w \<in> set (rn_workers r)) \<and>
    (case res of
       Inr x \<Rightarrow> completed_run C r (rn_log r) \<and> rr_status x = ''completed'' \<and> rr_run_id x = rn_id r \<and>
         rr_phase_count x = length (rn_phases r) \<and> rr_program_sha256 x = cp_sha256 (rn_program r)
     | Inl e \<Rightarrow> (e = CancelledError \<or> (\<exists>c. e = RunExecutionError (rn_id r) c)) \<and>
         (\<exists>l ctx out. rn_log r = l @ [Asked (map (\<lambda>w. (w, Stop ctx)) (rn_workers r)), Answered out]))"
proof -
  note I = sys_invD [OF orch_reachable_inv [OF assms(1)]]
  have inv: "run_inv C r" by (rule run_invI [OF assms(1,2)])
  have "x \<in> live_runs S \<Longrightarrow> rn_id x \<noteq> rn_id r" for x
    using I(2) assms(2,3) by (auto simp: live_runs_def is_done_def distinct_map inj_on_def)
  with I(3) I(5) [of "rn_id r"] have "rn_id r \<notin> set (or_active S)" "Mapping.lookup (grants (or_leases S)) (rn_id r) = None"
    by (auto, cases "Mapping.lookup (grants (or_leases S)) (rn_id r)", auto)
  moreover have "\<forall>(w, c) \<in> calls_of (rn_log r). w \<in> set (rn_workers r)"
    using calls_run [OF inv] by (auto simp: permitted_def)
  moreover have "\<exists>k ctx out. l = k @ [Answered out, Asked (map (\<lambda>w. (w, Stop ctx)) (rn_workers r))]" if "stopped C r l" for l
    using that unfolding stopped_def by blast
  ultimately show ?thesis
    using inv assms(3) by (cases res) (fastforce simp: run_inv_def)+
qed

text \<open>
  C4. Every run ends: whatever the workers answer, however late, and whatever the other runs do, a
  run has returned or raised after at most four awaits per phase and three more.
\<close>

theorem run_ends:
  assumes "orch_reachable C S" "i < length (or_runs S)"
    "4 * length (rn_phases (or_runs S ! i)) + 3 \<le> length (filter (\<lambda>step. fst step = i) steps)"
  shows "is_done (or_runs (foldl (advance C) S steps) ! i)"
  using schedule_ends [OF assms(1,2), of steps] assms(3) awaits_left_bound [of "or_runs S ! i"] by simp

text \<open>
  C2. Runs at the same time never command the same actuator: the leases of two unfinished runs are
  disjoint, every track a run sends to a worker addresses a group of that worker the run has
  leased, and so no group gets tracks from both.
\<close>

theorem concurrent_runs_disjoint:
  assumes "orch_reachable C S" "r1 \<in> set (or_runs S)" "r2 \<in> set (or_runs S)" "\<not> is_done r1" "\<not> is_done r2" "rn_id r1 \<noteq> rn_id r2"
    and "(w1, t1) \<in> set (prepared (rn_log r1))" "(w2, t2) \<in> set (prepared (rn_log r2))"
  shows "held (rn_receipt r1) \<inter> held (rn_receipt r2) = {} \<and>
    (\<exists>g1 g2. track_target t1 = Inr (w1, g1) \<and> leaf_of (w1, g1) \<in> set (rc_leaves (rn_receipt r1)) \<and>
       track_target t2 = Inr (w2, g2) \<and> leaf_of (w2, g2) \<in> set (rc_leaves (rn_receipt r2)) \<and> leaf_of (w1, g1) \<noteq> leaf_of (w2, g2))"
proof -
  have d: "held (rn_receipt r1) \<inter> held (rn_receipt r2) = {}" by (rule live_receipts [OF assms(1-6)])
  obtain g1 where g1: "track_target t1 = Inr (w1, g1)" "leaf_of (w1, g1) \<in> set (rc_leaves (rn_receipt r1))"
    using prepared_leased [OF assms(1,2,7)] by blast
  obtain g2 where g2: "track_target t2 = Inr (w2, g2)" "leaf_of (w2, g2) \<in> set (rc_leaves (rn_receipt r2))"
    using prepared_leased [OF assms(1,3,8)] by blast
  have "leaf_of (w1, g1) \<noteq> leaf_of (w2, g2)" using d g1(2) g2(2) by (auto simp: held_def)
  with d g1 g2 show ?thesis by blast
qed

text \<open>
  A worker is called only for a program that is valid for the current registry and that somebody
  may run: some identity of the registry has control of every role its phases address.
\<close>

theorem run_is_authorized:
  assumes "orch_reachable C S" "r \<in> set (or_runs S)" "oc_authorize C = require_control R"
  shows "validate_for_current_registry (oc_env C) (oc_view C) (rn_program r) = Inr () \<and>
    (\<exists>who ident root_id roles. identity_named R who = Inr ident \<and> program_root_id (oc_env C) (rn_program r) = Inr root_id \<and>
       mapM phase_roles (rn_phases r) = Inr roles \<and> (\<forall>path \<in> set (concat roles). can_control ident root_id (Some path)))"
proof -
  have "admitted C r" using sys_invD(4) [OF orch_reachable_inv [OF assms(1)] assms(2)] by blast
  then obtain who root_id roles where a: "validate_for_current_registry (oc_env C) (oc_view C) (rn_program r) = Inr ()"
    "program_root_id (oc_env C) (rn_program r) = Inr root_id" "mapM phase_roles (rn_phases r) = Inr roles"
    "oc_authorize C who root_id (sorted_set (concat roles)) = Inr ()"
    by (auto simp: admitted_def preflight_def)
  from a(4) obtain ident where "identity_named R who = Inr ident" "\<forall>path \<in> set (concat roles). can_control ident root_id (Some path)"
    unfolding assms(3) require_control_iff by auto
  with a(1-3) show ?thesis by blast
qed

section \<open>A laboratory with two arms\<close>

text \<open>Two arms with one joint each, and for each arm a program of one phase that moves it.\<close>

definition unit_seal :: "string \<Rightarrow> nat \<Rightarrow> string" where
  "unit_seal n k = (if n = ''leg''
     then (if k = 1 then ''060000000000'' else if k = 2 then ''070000000000'' else if k = 3 then ''080000000000'' else ''090000000000'')
     else (if k = 1 then ''010000000000'' else if k = 2 then ''020000000000'' else if k = 3 then ''030000000000'' else ''040000000000''))"

definition unit_sequence :: "string \<Rightarrow> compiled_sequence" where
  "unit_sequence n = demo_sequence\<lparr>seq_node := n\<rparr>"

definition unit_phase :: "string \<Rightarrow> compiled_phase" where
  "unit_phase n = demo_phase\<lparr>ph_sequences := [(unit_sequence n, unit_seal n 1)], ph_sha256 := unit_seal n 2\<rparr>"

definition unit_program :: "string \<Rightarrow> compiled_program" where
  "unit_program n = \<lparr>cp_body = the_dict (mkdict (body_items ''program'' ''lab'' n ''00'' (unit_seal n 3) [unit_phase n])),
     cp_sha256 = unit_seal n 4\<rparr>"

definition inner :: "pyval \<Rightarrow> string \<Rightarrow> pyval" where
  "inner v k = (case dget_or (the_dict v) k PNone of PList (x # xs) \<Rightarrow> x | x \<Rightarrow> x)"

text \<open>The codec numbers the ten values of the two programs.\<close>

definition unit_tag :: "pyval \<Rightarrow> nat" where
  "unit_tag v = (let t = demo_tag v in t + (if (if t = 1 then inner (inner v ''resolved_target'') ''physical_node_id''
     else if t = 2 then inner (inner (inner v ''sequences'') ''resolved_target'') ''physical_node_id''
     else if t = 3 then inner (inner (inner v ''phases'') ''participants'') ''physical_node_id''
     else if t = 4 then inner v ''root_id'' else inner (inner v ''body'') ''root_id'') = PStr ''leg'' then 5 else 0))"

definition unit_coder :: pyenv where
  "unit_coder = demo_coder\<lparr>cbor_dumps := \<lambda>v. Inr [nth [0, 1, 2, 3, 4, 5, 6, 7, 8, 9, 10] (unit_tag v)],
     cbor_loads := \<lambda>b. Inr (envelope (unit_program (if b = [5] then ''arm'' else ''leg''))),
     sha256 := \<lambda>b. b @ [0, 0, 0, 0, 0]\<rparr>"

definition unit_lab :: registry where
  "unit_lab = (let leg = demo_follower\<lparr>node_id := ''leg''\<rparr>;
       R = \<lparr>server_id = ''lab'', nodes = [(''arm'', Physical demo_follower), (''leg'', Physical leg)],
         identities = [(''ann'', \<lparr>identity_id = ''ann'', credential_env = ''K'', discover = [''*''], observe = [''*''],
           control = [''*''], estop = [''*'']\<rparr>)], manifest_cache = []\<rparr>
     in R\<lparr>manifest_cache := [(''arm'', physical_body R demo_follower @ [(PStr ''manifest_hash'', PStr ''00'')]),
       (''leg'', physical_body R leg @ [(PStr ''manifest_hash'', PStr ''00'')])]\<rparr>)"

definition unit_config :: orch_config where
  "unit_config = \<lparr>oc_env = unit_coder, oc_view = view unit_coder unit_lab, oc_authorize = require_control unit_lab,
     oc_workers = [''arm'', ''leg''], oc_start_lead_us = 100000, oc_timeout_margin_s = Fin 2\<rparr>"

text \<open>Both programs are opened; every worker answers, and acknowledges its schedule.\<close>

definition unit_opened :: orchestrator where
  "unit_opened = snd (open_execution unit_config (snd (open_execution unit_config (start_orchestrator InMemoryRunJournal)
     ''a'' ''ann'' (unit_program ''arm'') 0 0)) ''b'' ''ann'' (unit_program ''leg'') 1 1)"

definition fine :: outcome where
  "fine = \<lparr>out_cancelled = False, out_replies = (\<lambda>w. Inr (mkdict [(''status'', PStr ''scheduled'')])), out_events = (\<lambda>w. [])\<rparr>"

definition unit_running :: orchestrator where
  "unit_running = foldl (advance unit_config) unit_opened [(0, fine, 2, 2), (1, fine, 3, 3), (0, fine, 4, 4)]"

lemma foldl_advance_reachable: "orch_reachable C S \<Longrightarrow> orch_reachable C (foldl (advance C) S steps)"
  by (induction steps arbitrary: S) (simp_all add: advance_reachable)

lemma unit_reachable: "orch_reachable unit_config unit_running"
  unfolding unit_running_def unit_opened_def
  by (rule foldl_advance_reachable, rule orch_open, rule orch_open, rule orch_start, rule wf_in_memory)

text \<open>After three steps both programs are prepared and the first one is told to start.\<close>

lemma unit_observed:
  "map (\<lambda>r. (rn_id r, is_done r, length (rn_phases r), map (\<lambda>(w, t). (w, track_target t)) (prepared (rn_log r)),
      case drop 4 (rn_log r) of [Asked calls] \<Rightarrow> calls | _ \<Rightarrow> [])) (or_runs unit_running) =
    [(''a'', False, 1, [(''arm'', Inr (''arm'', ''joints''))], [(''arm'', StartPhase 100004)]), (''b'', False, 1, [(''leg'', Inr (''leg'', ''joints''))], [])]"
  by code_simp

lemma unit_runs:
  obtains a b calls t u where "or_runs unit_running = [a, b]" "rn_id a = ''a''" "rn_id b = ''b''" "\<not> is_done a" "\<not> is_done b"
    "length (rn_phases a) = 1" "4 < length (rn_log a)" "rn_log a ! 4 = Asked [(''arm'', StartPhase 100004)]"
    "(''arm'', t) \<in> set (prepared (rn_log a))" "(''leg'', u) \<in> set (prepared (rn_log b))"
    "track_target t = Inr (''arm'', ''joints'')"
proof -
  obtain a b where ab: "or_runs unit_running = [a, b]"
    using arg_cong [OF unit_observed, of length] by (auto simp: length_Suc_conv)
  note obs = unit_observed [unfolded ab]
  have prep: "map (\<lambda>(w, t). (w, track_target t)) ps = [(w, x)] \<Longrightarrow> \<exists>t. (w, t) \<in> set ps \<and> track_target t = x"
    for w x and ps :: "(string \<times> pyval) list" by auto
  obtain t where t: "(''arm'', t) \<in> set (prepared (rn_log a))" "track_target t = Inr (''arm'', ''joints'')"
    using prep [of "prepared (rn_log a)"] obs by auto
  obtain u where u: "(''leg'', u) \<in> set (prepared (rn_log b))" using prep [of "prepared (rn_log b)"] obs by auto
  have "drop 4 (rn_log a) = [Asked [(''arm'', StartPhase 100004)]]"
    using obs by (auto split: list.splits log_entry.splits)
  then have "4 < length (rn_log a)" "rn_log a ! 4 = Asked [(''arm'', StartPhase 100004)]"
    by (metis drop_all leI list.distinct(1), metis nth_via_drop)
  with ab obs t u that show thesis by auto
qed

theorem start_is_a_barrier_witness:
  "\<exists>r \<in> set (or_runs unit_running). \<exists>k l x plans out. take 4 (rn_log r) = l @ [Asked (prepare_calls plans), Answered out] \<and>
     phases_done unit_config r k l \<and> [(''arm'', StartPhase 100004)] = start_calls plans 100004"
proof -
  obtain a b calls t u where r: "or_runs unit_running = [a, b]" "4 < length (rn_log a)"
    "rn_log a ! 4 = Asked [(''arm'', StartPhase 100004)]" by (rule unit_runs)
  from start_is_a_barrier [OF unit_reachable, of a 4 _ "''arm''" 100004] r show ?thesis by auto
qed

definition steady :: "(nat \<times> outcome \<times> int \<times> int) list" where
  "steady = replicate 7 (0, fine, 5, 5)"

theorem run_ends_witness: "is_done (or_runs (foldl (advance unit_config) unit_running steady) ! 0)"
proof -
  obtain a b calls t u where r: "or_runs unit_running = [a, b]" "length (rn_phases a) = 1" by (rule unit_runs)
  show ?thesis by (rule run_ends [OF unit_reachable]) (simp_all add: r steady_def)
qed

theorem ended_run_is_safe_witness:
  "\<exists>r \<in> set (or_runs (foldl (advance unit_config) unit_running steady)). is_done r \<and>
     rn_id r \<notin> set (or_active (foldl (advance unit_config) unit_running steady))"
proof -
  let ?S = "foldl (advance unit_config) unit_running steady"
  obtain a b calls t u where r: "or_runs unit_running = [a, b]" "length (rn_phases a) = 1" by (rule unit_runs)
  have d: "0 < length (or_runs ?S)" "is_done (or_runs ?S ! 0)" "orch_reachable unit_config ?S"
    using schedule_ends [OF unit_reachable, of 0 steady] r awaits_left_bound [of a] by (auto simp: steady_def)
  then obtain res where "rn_pc (or_runs ?S ! 0) = Done res" by (auto simp: is_done_def split: run_pc.splits)
  from ended_run_is_safe [OF d(3) nth_mem [OF d(1)] this] d(1,2) show ?thesis by (metis nth_mem)
qed

theorem concurrent_runs_disjoint_witness:
  "\<exists>a b. or_runs unit_running = [a, b] \<and> held (rn_receipt a) \<inter> held (rn_receipt b) = {}"
proof -
  obtain a b calls t u where r: "or_runs unit_running = [a, b]" "rn_id a = ''a''" "rn_id b = ''b''" "\<not> is_done a" "\<not> is_done b"
    "(''arm'', t) \<in> set (prepared (rn_log a))" "(''leg'', u) \<in> set (prepared (rn_log b))" by (rule unit_runs)
  from concurrent_runs_disjoint [OF unit_reachable _ _ r(4,5) _ r(6,7)] r(1-3) show ?thesis by auto
qed

theorem run_is_authorized_witness:
  "\<exists>r \<in> set (or_runs unit_running). \<exists>who ident root_id. identity_named unit_lab who = Inr ident \<and>
     program_root_id unit_coder (rn_program r) = Inr root_id"
proof -
  obtain a b calls t u where r: "or_runs unit_running = [a, b]" by (rule unit_runs)
  from run_is_authorized [OF unit_reachable, of a unit_lab] r show ?thesis by (auto simp: unit_config_def)
qed

end
