(* ===== verification/Operations.thy ===== *)
theory Operations
  imports RegistrySafety RunSafety
begin

text \<open>
  The read-only view of a server for its observers, \<^verbatim>\<open>remote_robot/operations.py\<close>: the state of every
  node, lease and run, computed from the registry's manifests, the active leases, the journal and
  what the workers answered when they were polled, and the ring of published snapshots with its
  subscribers. The caches of the traversals only save time and are left out; their recursion is
  bounded by the number of nodes, and a deeper one raises as it does at Python's recursion limit.
  Poll answers and clock readings are arguments.
\<close>

section \<open>Plain copies\<close>

text \<open>A dictionary display or comprehension whose keys may repeat.\<close>

definition dict_of :: "(string \<times> pyval) list \<Rightarrow> pydict" where
  "dict_of kvs = foldl (\<lambda>d (k, v). dset d k v) [] kvs"

fun json_safe :: "pyenv \<Rightarrow> pyval \<Rightarrow> pyval" where
  "json_safe E (PBytes b) = mkdict [(''encoding'', PStr ''hex''), (''value'', PStr (hex b))]"
| "json_safe E (PDict d) = PDict (dict_of (map (\<lambda>p. (py_str E (fst p), json_safe E (snd p))) d))"
| "json_safe E (PList xs) = PList (map (json_safe E) xs)"
| "json_safe E (PTuple xs) = PList (map (json_safe E) xs)"
| "json_safe E (POther c) = PStr (py_str E (POther c))"
| "json_safe E v = v"

fun stable :: "pyenv \<Rightarrow> pyval \<Rightarrow> pyval" where
  "stable E (PDict d) = PDict (dict_of (map (\<lambda>p. (py_str E (fst p), snd p))
     (filter (\<lambda>p. fst p \<noteq> PStr ''polled_at_ns'') (map (\<lambda>p. (fst p, stable E (snd p))) d))))"
| "stable E (PList xs) = PList (map (stable E) xs)"
| "stable E (PTuple xs) = PList (map (stable E) xs)"
| "stable E v = v"

definition fingerprint :: "pyenv \<Rightarrow> pyval \<Rightarrow> string" where
  "fingerprint E v = hex (sha256 E (json_dumps E (json_safe E (stable E v))))"

section \<open>Display states\<close>

definition worker_display_state :: "string \<Rightarrow> string" where
  "worker_display_state raw_status = (case map_of
     [(''created'', ''offline''), (''disabled'', ''idle''), (''stopped'', ''idle''), (''completed'', ''idle''),
      (''prepared'', ''preparing''), (''scheduled'', ''scheduled''), (''running'', ''running''), (''closed'', ''offline'')] raw_status of
     None \<Rightarrow> ''unknown'' | Some s \<Rightarrow> s)"

definition run_display_state :: "string option \<Rightarrow> bool \<Rightarrow> string" where
  "run_display_state event active =
     (if event = Some ''run.completed'' then ''completed''
      else if event = Some ''run.faulted'' then ''faulted''
      else if event = Some ''phase.started'' then ''running''
      else if event = Some ''phase.scheduled'' then ''scheduled''
      else if event \<in> Some ` {''run.opened'', ''workers.disabled'', ''phase.prepared'', ''phase.completed''} then
        (if active then ''preparing'' else ''interrupted'')
      else if active then ''occupied'' else ''unknown'')"

definition STATE_PRIORITY :: "(string \<times> int) list" where
  "STATE_PRIORITY = [(''faulted'', 90), (''running'', 80), (''scheduled'', 70), (''preparing'', 60), (''occupied'', 50),
     (''offline'', 40), (''unknown'', 30), (''idle'', 10)]"

definition priority :: "string \<Rightarrow> int" where
  "priority s = (case map_of STATE_PRIORITY s of None \<Rightarrow> 0 | Some n \<Rightarrow> n)"

text \<open>\<^verbatim>\<open>max\<close> with a key: the first of the greatest.\<close>

fun max_state :: "string \<Rightarrow> string list \<Rightarrow> string" where
  "max_state best [] = best"
| "max_state best (s # ss) = max_state (if priority best < priority s then s else best) ss"

definition worst_state :: "string list \<Rightarrow> string" where
  "worst_state states = (case states of [] \<Rightarrow> ''idle'' | s # ss \<Rightarrow> max_state s ss)"

section \<open>Nodes\<close>

text \<open>
  What a worker answered when it was polled at time \<open>t\<close>. A cancellation and the end of the process are
  no answers: they end the polling of all workers.
\<close>

definition poll :: "pyenv \<Rightarrow> pyval result \<Rightarrow> int \<Rightarrow> pydict" where
  "poll E answer t = the_dict (case answer of
      Inr state \<Rightarrow> mkdict [(''reachable'', PBool True), (''polled_at_ns'', PInt t), (''state'', json_safe E state)]
    | Inl e \<Rightarrow> mkdict [(''reachable'', PBool False), (''polled_at_ns'', PInt t), (''error_type'', PStr (exn_name e))])"

definition poll_workers :: "pyenv \<Rightarrow> (string \<times> pyval result \<times> int) list \<Rightarrow> (string \<times> pydict) list result" where
  "poll_workers E polls = mapM (\<lambda>(w, answer, t). case answer of
      Inl e \<Rightarrow> raise_if (e \<in> {SystemExit, CancelledError}) e (Inr (w, poll E answer t))
    | Inr state \<Rightarrow> Inr (w, poll E answer t)) polls"

type_synonym manifests = "(string \<times> pydict) list"

definition manifest_at :: "manifests \<Rightarrow> string \<Rightarrow> pydict result" where
  "manifest_at ms i = (case map_of ms i of None \<Rightarrow> Inl KeyError | Some m \<Rightarrow> Inr m)"

definition mappings :: "pyval list \<Rightarrow> pydict list" where
  "mappings vs = List.map_filter (\<lambda>v. case v of PDict d \<Rightarrow> Some d | _ \<Rightarrow> None) vs"

definition group_leaves :: "string \<Rightarrow> pyval list \<Rightarrow> string list" where
  "group_leaves i gs = List.map_filter (\<lambda>d. case dget d ''group_id'' of Some (PStr g) \<Rightarrow> Some (i @ ''.'' @ g) | _ \<Rightarrow> None) (mappings gs)"

definition child_ids :: "pyenv \<Rightarrow> pydict \<Rightarrow> string list result" where
  "child_ids E m = bind (py_iter (dget_or m ''children'' (PList []))) (\<lambda>cs.
     Inr (map (\<lambda>d. py_str E (dget_or d ''node_id'' PNone)) (mappings cs)))"

fun leaves_for :: "nat \<Rightarrow> pyenv \<Rightarrow> manifests \<Rightarrow> string \<Rightarrow> string list result" where
  "leaves_for 0 E ms i = Inl RuntimeError"
| "leaves_for (Suc fuel) E ms i =
     bind (manifest_at ms i) (\<lambda>m.
     if dget_or m ''kind'' PNone = PStr ''physical'' then
       bind (py_iter (dget_or m ''groups'' (PList []))) (\<lambda>gs. Inr (remdups (group_leaves i gs)))
     else bind (child_ids E m) (\<lambda>cs. bind (mapM (leaves_for fuel E ms) cs) (\<lambda>ls. Inr (remdups (concat ls)))))"

text \<open>\<^verbatim>\<open>set(v)\<close>\<close>

fun hashable :: "pyval \<Rightarrow> bool" where
  "hashable (PList xs) = False"
| "hashable (PDict d) = False"
| "hashable (PTuple xs) = list_all hashable xs"
| "hashable v = True"

definition py_set :: "pyval \<Rightarrow> pyval list result" where
  "py_set v = bind (py_iter v) (\<lambda>xs. raise_if (\<not> list_all hashable xs) TypeError (Inr xs))"

definition meets :: "pyval list \<Rightarrow> string list \<Rightarrow> bool" where
  "meets xs ks \<longleftrightarrow> list_ex (\<lambda>k. PStr k \<in> set xs) ks"

definition recursion_limit :: "manifests \<Rightarrow> nat" where
  "recursion_limit ms = length ms"

definition occupying_runs :: "pyenv \<Rightarrow> manifests \<Rightarrow> lease_receipt list \<Rightarrow> string \<Rightarrow> string list result" where
  "occupying_runs E ms receipts i =
     bind (manifest_at ms i) (\<lambda>m.
     bind (leaves_for (recursion_limit ms) E ms i) (\<lambda>leaves.
     bind (py_set (dget_or m ''resources'' (PList []))) (\<lambda>rs.
     bind (py_set (dget_or m ''safety_domains'' (PList []))) (\<lambda>domains.
     Inr (sort (map rc_run_id (filter (\<lambda>r. meets (map PStr leaves) (rc_leaves r) \<or> meets rs (rc_resources r) \<or>
       meets domains (rc_safety_domains r)) receipts)))))))"

definition runtime_state :: "pyenv \<Rightarrow> pydict option \<Rightarrow> string" where
  "runtime_state E polled = (case polled of
      None \<Rightarrow> ''offline''
    | Some d \<Rightarrow>
        if dget_or d ''reachable'' PNone = PBool True then
          worker_display_state (case dget_or d ''state'' (mkdict []) of
              PDict raw \<Rightarrow> py_str E (dget_or raw ''status'' (PStr ''unknown'')) | _ \<Rightarrow> ''unknown'')
        else ''faulted'')"

definition runtime_for :: "pyenv \<Rightarrow> (string \<times> pydict) list \<Rightarrow> string \<Rightarrow> pyval" where
  "runtime_for E states i = (let shown = (''display_state'', PStr (runtime_state E (map_of states i))) in
     case map_of states i of
       None \<Rightarrow> mkdict [(''reachable'', PBool False), (''registered'', PBool False), shown, (''freshness'', PStr ''unavailable'')]
     | Some d \<Rightarrow> PDict (d @ the_dict (mkdict [(''registered'', PBool True), shown,
         (''freshness'', PStr (if dget_or d ''reachable'' PNone = PBool True then ''fresh'' else ''stale''))])))"

fun display_for :: "nat \<Rightarrow> pyenv \<Rightarrow> manifests \<Rightarrow> (string \<times> pydict) list \<Rightarrow> lease_receipt list \<Rightarrow> string \<Rightarrow> string result" where
  "display_for 0 E ms states receipts i = Inl RuntimeError"
| "display_for (Suc fuel) E ms states receipts i =
     bind (manifest_at ms i) (\<lambda>m.
     bind (occupying_runs E ms receipts i) (\<lambda>occupied_by.
     bind (if dget_or m ''kind'' PNone = PStr ''physical'' then Inr (runtime_state E (map_of states i))
           else bind (child_ids E m) (\<lambda>cs. bind (mapM (display_for fuel E ms states receipts) cs) (\<lambda>ss. Inr (worst_state ss)))) (\<lambda>state.
     Inr (if occupied_by \<noteq> [] \<and> state \<in> {''idle'', ''offline''} then ''occupied'' else state))))"


definition is_mapping_get :: "pyval \<Rightarrow> string \<Rightarrow> pyval" where
  "is_mapping_get v k = (case v of PDict d \<Rightarrow> dget_or d k PNone | _ \<Rightarrow> PNone)"

definition attention_of :: "pyval \<Rightarrow> pyval \<Rightarrow> pyval \<Rightarrow> string list" where
  "attention_of safety watch assurances =
     (let unattended = is_mapping_get assurances ''unattended_operation_allowed'';
          unattended = if unattended = PNone then is_mapping_get watch ''unattended_operation_allowed'' else unattended
      in (if is_mapping_get safety ''cross_collision_checked'' = PBool False then [''cross_collision_unchecked''] else []) @
         (if unattended = PBool False then [''supervised_only''] else []))"

definition child_record :: "pydict \<Rightarrow> pyval" where
  "child_record d = mkdict [(''role'', dget_or d ''role'' PNone), (''node_id'', dget_or d ''node_id'' PNone),
     (''alias'', PBool (dget_or d ''alias'' PNone = PBool True))]"

definition node_record :: "pyenv \<Rightarrow> manifests \<Rightarrow> (string \<times> pydict) list \<Rightarrow> lease_receipt list \<Rightarrow> string \<Rightarrow> pydict result" where
  "node_record E ms states receipts i =
     bind (manifest_at ms i) (\<lambda>m.
     let node_kind = py_str E (dget_or m ''kind'' (PStr ''unknown'')) in
     bind (occupying_runs E ms receipts i) (\<lambda>occupied_by.
     let runtime = (if node_kind = ''physical'' then runtime_for E states i else PNone) in
     bind (display_for (recursion_limit ms) E ms states receipts i) (\<lambda>display_state.
     let safety = dget_or m ''safety'' (mkdict []); watch = dget_or m ''watchdog'' PNone;
         assurances = dget_or m ''assurances'' (mkdict []) in
     bind (leaves_for (recursion_limit ms) E ms i) (\<lambda>leaves.
     bind (py_iter (dget_or m ''resources'' (PList []))) (\<lambda>rs.
     bind (py_iter (dget_or m ''safety_domains'' (PList []))) (\<lambda>domains.
     bind (py_iter (dget_or m ''children'' (PList []))) (\<lambda>cs.
     Inr (the_dict (mkdict
       [(''node_id'', PStr i), (''kind'', PStr node_kind), (''revision'', dget_or m ''revision'' PNone),
        (''manifest_hash'', dget_or m ''manifest_hash'' PNone),
        (''exposed_as_run_root'', PBool (dget_or m ''exposed_as_run_root'' PNone = PBool True)),
        (''display_state'', PStr display_state), (''occupied_by'', str_list occupied_by),
        (''canonical_leaves'', str_list (sort leaves)), (''resources'', PList rs), (''safety_domains'', PList domains),
        (''safety'', json_safe E safety), (''watchdog'', json_safe E watch), (''assurances'', json_safe E assurances),
        (''attention'', str_list (attention_of safety watch assurances)),
        (''groups'', json_safe E (dget_or m ''groups'' (PList []))), (''children'', PList (map child_record (mappings cs))),
        (''runtime'', runtime),
        (''telemetry'', mkdict [(''available'', PBool False), (''last_update_ns'', PNone), (''freshness'', PStr ''unavailable'')])])))))))))"

section \<open>Runs\<close>

text \<open>The clock readings for a run that has a lease and no events, and those of a refresh.\<close>

record view_clock =
  vc_wall :: "string \<Rightarrow> int"
  vc_monotonic :: "string \<Rightarrow> int"
  vc_generated :: int
  vc_uptime :: int
  vc_recorded :: int

definition payload_get :: "journal_event \<Rightarrow> string \<Rightarrow> pyval" where
  "payload_get e k = dget_or (je_event e) k PNone"

definition opened_get :: "journal_event list \<Rightarrow> string \<Rightarrow> pyval" where
  "opened_get events k = (case find (\<lambda>e. event_type e = Some ''run.opened'') events of None \<Rightarrow> PNone | Some e \<Rightarrow> payload_get e k)"

definition current_phase :: "journal_event list \<Rightarrow> pyval" where
  "current_phase events = (case find (\<lambda>e. payload_get e ''phase_id'' \<noteq> PNone) (rev events) of
     None \<Rightarrow> PNone | Some e \<Rightarrow> payload_get e ''phase_id'')"

definition opt_text :: "string option \<Rightarrow> pyval" where
  "opt_text s = (case s of None \<Rightarrow> PNone | Some x \<Rightarrow> PStr x)"

text \<open>Records of runs and events with the key they are sorted by.\<close>

definition run_record :: "string \<Rightarrow> bool \<Rightarrow> journal_event list \<Rightarrow> (int \<times> string) \<times> pydict" where
  "run_record run_id active events = (let latest = last events in
     ((je_recorded_at_ns latest, run_id), the_dict (mkdict
       [(''run_id'', PStr run_id), (''identity_id'', opened_get events ''identity_id''), (''root_id'', opened_get events ''root_id''),
        (''program_sha256'', opened_get events ''program_sha256''),
        (''state'', PStr (run_display_state (event_type latest) active)), (''active'', PBool active),
        (''current_phase'', current_phase events), (''latest_event_type'', opt_text (event_type latest)),
        (''latest_event_seq'', PInt (je_event_seq latest)), (''updated_at_ns'', PInt (je_recorded_at_ns latest)),
        (''event_count'', PInt (int (length events)))])))"

definition event_record :: "journal_event \<Rightarrow> (int \<times> string \<times> int) \<times> pydict" where
  "event_record e = ((je_recorded_at_ns e, je_run_id e, je_event_seq e), the_dict (mkdict
     [(''run_id'', PStr (je_run_id e)), (''event_seq'', PInt (je_event_seq e)), (''recorded_at_ns'', PInt (je_recorded_at_ns e)),
      (''type'', opt_text (event_type e)), (''phase_id'', payload_get e ''phase_id''), (''error_type'', payload_get e ''error_type'')]))"

definition occupied_record :: "view_clock \<Rightarrow> lease_receipt \<Rightarrow> (int \<times> string) \<times> pydict" where
  "occupied_record c r = (let i = rc_run_id r; updated = vc_wall c i - max 0 (vc_monotonic c i - rc_acquired_at r) in
     ((updated, i), the_dict (mkdict
       [(''run_id'', PStr i), (''identity_id'', PNone), (''root_id'', PNone), (''program_sha256'', PNone), (''state'', PStr ''occupied''),
        (''active'', PBool True), (''current_phase'', PNone), (''latest_event_type'', PNone), (''latest_event_seq'', PInt 0),
        (''updated_at_ns'', PInt updated), (''event_count'', PInt 0)])))"

text \<open>\<^verbatim>\<open>sort(key=..., reverse=True)\<close> keeps the order of equal elements.\<close>

definition sort_descending :: "('k::linorder \<times> 'a) list \<Rightarrow> ('k \<times> 'a) list" where
  "sort_descending xs = rev (sort_key fst (rev xs))"

definition project_runs :: "run_journal \<Rightarrow> lease_receipt list \<Rightarrow> view_clock \<Rightarrow> int \<Rightarrow> int \<Rightarrow> (pydict list \<times> pydict list) result" where
  "project_runs j receipts c recent_runs recent_events =
     bind (mapM (\<lambda>i. bind (replay j (PStr i) (PInt 0)) (\<lambda>events. Inr (i, events))) (journal_run_ids j)) (\<lambda>replayed.
     let histories = filter (\<lambda>(i, events). events \<noteq> []) replayed;
         active_ids = map rc_run_id receipts;
         journalled = map (\<lambda>(i, events). run_record i (i \<in> set active_ids) events) histories;
         silent = map (occupied_record c) (filter (\<lambda>r. rc_run_id r \<notin> fst ` set histories) receipts);
         all_events = concat (map (\<lambda>(i, events). map event_record events) histories)
     in Inr (take (nat recent_runs) (map snd (sort_descending (journalled @ silent))),
             take (nat recent_events) (map snd (sort_descending all_events))))"

definition lease_dict :: "lease_receipt \<Rightarrow> pyval" where
  "lease_dict r = mkdict [(''run_id'', PStr (rc_run_id r)), (''leaves'', str_list (sorted_set (rc_leaves r))),
     (''resources'', str_list (sorted_set (rc_resources r))), (''safety_domains'', str_list (sorted_set (rc_safety_domains r))),
     (''acquired_at_monotonic_ns'', PInt (rc_acquired_at r))]"

section \<open>The snapshot\<close>

record operations_event =
  ov_event_seq :: int
  ov_recorded_at :: int
  ov_event_type :: string
  ov_snapshot :: pydict

definition event_public_dict :: "operations_event \<Rightarrow> pyval" where
  "event_public_dict e = mkdict [(''event_seq'', PInt (ov_event_seq e)), (''recorded_at_ns'', PInt (ov_recorded_at e)),
     (''type'', PStr (ov_event_type e)), (''snapshot'', PDict (ov_snapshot e))]"

record projection =
  pj_registry :: registry
  pj_execution_available :: bool
  pj_capacity :: int
  pj_recent_runs :: int
  pj_recent_events :: int
  pj_started :: int
  pj_events :: "operations_event list"
  pj_event_seq :: int
  pj_snapshot :: "pydict option"
  pj_fingerprint :: "string option"
  pj_closed :: bool

definition OperationsProjection :: "registry \<Rightarrow> bool \<Rightarrow> int \<Rightarrow> int \<Rightarrow> int \<Rightarrow> int \<Rightarrow> projection result" where
  "OperationsProjection R execution_available event_capacity recent_runs recent_events started =
     raise_if (event_capacity \<le> 0 \<or> recent_runs \<le> 0 \<or> recent_events \<le> 0) ValueError
     (Inr \<lparr>pj_registry = R, pj_execution_available = execution_available, pj_capacity = event_capacity,
        pj_recent_runs = recent_runs, pj_recent_events = recent_events, pj_started = started, pj_events = [], pj_event_seq = 0,
        pj_snapshot = None, pj_fingerprint = None, pj_closed = False\<rparr>)"

definition count_of :: "('a \<Rightarrow> bool) \<Rightarrow> 'a list \<Rightarrow> pyval" where
  "count_of f xs = PInt (int (length (filter f xs)))"

definition all_manifests :: "pyenv \<Rightarrow> registry \<Rightarrow> manifests result" where
  "all_manifests E R = mapM (\<lambda>i. bind (describe E R i None) (\<lambda>m. Inr (i, m))) (node_ids R)"

definition state_dict :: "projection \<Rightarrow> lease_receipt list \<Rightarrow> pydict list \<Rightarrow> pydict list \<Rightarrow> pydict list \<Rightarrow> (string \<times> pyval) list" where
  "state_dict P receipts runs recent records =
     (let roots = filter (\<lambda>n. dget_or n ''exposed_as_run_root'' PNone = PBool True) records in
     [(''format'', PStr ''remote-robot-operations''), (''version'', PInt 1),
      (''server'', mkdict [(''server_id'', PStr (server_id (pj_registry P))), (''protocol'', PStr ''robot-stream.v2''),
         (''execution_available'', PBool (pj_execution_available P)), (''dashboard_read_only'', PBool True)]),
      (''summary'', mkdict
        [(''root_count'', PInt (int (length roots))), (''physical_count'', count_of (\<lambda>n. dget_or n ''kind'' PNone = PStr ''physical'') records),
         (''active_run_count'', count_of (\<lambda>r. dget_or r ''active'' PNone = PBool True) runs),
         (''occupied_leaf_count'', PInt (int (length (remdups (concat (map rc_leaves receipts)))))),
         (''faulted_run_count'', count_of (\<lambda>r. dget_or r ''state'' PNone = PStr ''faulted'') runs),
         (''attention_count'', PInt (sum_list (map (\<lambda>n. int (length (the_list (dget_or n ''attention'' PNone)))) records)))]),
      (''roots'', PList (map PDict roots)), (''nodes'', PList (map PDict records)), (''leases'', PList (map lease_dict receipts)),
      (''runs'', PList (map PDict runs)), (''recent_events'', PList (map PDict recent))])"

definition build_state :: "pyenv \<Rightarrow> projection \<Rightarrow> lease_manager \<Rightarrow> run_journal \<Rightarrow> view_clock \<Rightarrow> (string \<times> pydict) list \<Rightarrow>
    (string \<times> pyval) list result" where
  "build_state E P leases j c states =
     (let receipts = active_grants leases in
     bind (project_runs j receipts c (pj_recent_runs P) (pj_recent_events P)) (\<lambda>(runs, recent).
     bind (all_manifests E (pj_registry P)) (\<lambda>ms.
     bind (mapM (node_record E ms states receipts) (node_ids (pj_registry P))) (\<lambda>records.
     Inr (state_dict P receipts runs recent records)))))"

section \<open>Publication\<close>

text \<open>\<^verbatim>\<open>deque.append\<close> with a maximal length.\<close>

definition push_event :: "int \<Rightarrow> operations_event list \<Rightarrow> operations_event \<Rightarrow> operations_event list" where
  "push_event capacity events e = (let all_events = events @ [e] in drop (length all_events - nat capacity) all_events)"

text \<open>
  \<^verbatim>\<open>refresh\<close> after the workers were polled, under the lock that lets one refresh at a time get here;
  a projection that was closed while they were polled is still refreshed.
\<close>

definition publish :: "pyenv \<Rightarrow> projection \<Rightarrow> view_clock \<Rightarrow> (string \<times> pyval) list \<Rightarrow> bool \<times> projection" where
  "publish E P c state =
     (let print = fingerprint E (mkdict state);
          changed = (Some print \<noteq> pj_fingerprint P);
          event_seq = (if changed then pj_event_seq P + 1 else pj_event_seq P);
          snapshot = the_dict (mkdict (state @ [(''generated_at_ns'', PInt (vc_generated c)),
            (''uptime_ms'', PInt ((vc_uptime c - pj_started P) div 1000000)), (''operations_event_seq'', PInt event_seq)]));
          P1 = P\<lparr>pj_event_seq := event_seq, pj_snapshot := Some snapshot\<rparr>
      in (changed,
          if changed then P1\<lparr>pj_fingerprint := Some print, pj_events := push_event (pj_capacity P) (pj_events P)
            \<lparr>ov_event_seq = event_seq, ov_recorded_at = vc_recorded c, ov_event_type = ''operations.snapshot'', ov_snapshot = snapshot\<rparr>\<rparr>
          else P1))"

definition refresh_polled :: "pyenv \<Rightarrow> projection \<Rightarrow> lease_manager \<Rightarrow> run_journal \<Rightarrow> view_clock \<Rightarrow>
    (string \<times> pyval result \<times> int) list \<Rightarrow> bool result \<times> projection" where
  "refresh_polled E P leases j c polls = (case bind (poll_workers E polls) (build_state E P leases j c) of
      Inl e \<Rightarrow> (Inl e, P)
    | Inr state \<Rightarrow> (case publish E P c state of (changed, P1) \<Rightarrow> (Inr changed, P1)))"

definition refresh :: "pyenv \<Rightarrow> projection \<Rightarrow> lease_manager \<Rightarrow> run_journal \<Rightarrow> view_clock \<Rightarrow>
    (string \<times> pyval result \<times> int) list \<Rightarrow> bool result \<times> projection" where
  "refresh E P leases j c polls =
     (if pj_closed P then (Inl OperationsError, P) else refresh_polled E P leases j c polls)"

definition operations_snapshot :: "pyenv \<Rightarrow> projection \<Rightarrow> lease_manager \<Rightarrow> run_journal \<Rightarrow> view_clock \<Rightarrow>
    (string \<times> pyval result \<times> int) list \<Rightarrow> pydict result \<times> projection" where
  "operations_snapshot E P leases j c polls = (case refresh E P leases j c polls of
      (Inl e, P1) \<Rightarrow> (Inl e, P1)
    | (Inr u, P1) \<Rightarrow> (case pj_snapshot P1 of None \<Rightarrow> (Inl OperationsError, P1) | Some d \<Rightarrow> (Inr d, P1)))"

definition close_projection :: "projection \<Rightarrow> projection" where
  "close_projection P = P\<lparr>pj_closed := True\<rparr>"

section \<open>Subscribers\<close>

text \<open>The generator between two events: its cursor, what it still has to yield, and whether it has returned.\<close>

record subscriber =
  sb_cursor :: int
  sb_pending :: "operations_event list"
  sb_ended :: bool

definition subscribe :: "pyval \<Rightarrow> subscriber result" where
  "subscribe after_event_seq = (case after_event_seq of
      PInt n \<Rightarrow> raise_if (n < 0) ValueError (Inr \<lparr>sb_cursor = n, sb_pending = [], sb_ended = False\<rparr>)
    | _ \<Rightarrow> Inl TypeError)"

definition yield_first :: "subscriber \<Rightarrow> operations_event list \<Rightarrow> operations_event option \<times> subscriber" where
  "yield_first s pending = (case pending of
      [] \<Rightarrow> (None, s)
    | e # es \<Rightarrow> (Some e, s\<lparr>sb_cursor := ov_event_seq e, sb_pending := es\<rparr>))"

text \<open>\<^verbatim>\<open>__anext__\<close> as far as it gets now: an event, or none because it returned or has to wait.\<close>

definition next_published :: "projection \<Rightarrow> subscriber \<Rightarrow> operations_event option \<times> subscriber" where
  "next_published P s =
     (if sb_ended s then (None, s)
      else if sb_pending s \<noteq> [] then yield_first s (sb_pending s)
      else if pj_closed P then (None, s\<lparr>sb_ended := True\<rparr>)
      else yield_first s (filter (\<lambda>e. ov_event_seq e > sb_cursor s) (pj_events P)))"

end
