(* ===== verification/OperationsSafety.thy ===== *)
theory OperationsSafety
  imports Operations
begin

text \<open>
  What observers can rely on: the view of a node tells exactly which runs occupy it and whether a
  worker below it does not answer, it depends on public manifests only, and subscribers receive
  every published snapshot that is still in the ring, once and in order.
\<close>

section \<open>Manifests of nodes\<close>

lemma dget_append: "dget (d @ e) k = (case dget d k of None \<Rightarrow> dget e k | Some v \<Rightarrow> Some v)"
  by (induction d k rule: dget.induct) auto

lemma mkdict_items: "the_dict (mkdict kvs) = map (\<lambda>(k, v). (PStr k, v)) kvs"
  by (simp add: mkdict_def)

definition node_manifest :: "control_node \<Rightarrow> pydict \<Rightarrow> bool" where
  "node_manifest n m \<longleftrightarrow> dget m ''kind'' = Some (PStr (Model.kind n)) \<and> dget m ''resources'' = Some (str_list (resources (common n))) \<and>
     dget m ''safety_domains'' = Some (str_list (safety_domains (common n))) \<and>
     (case n of
        Physical p \<Rightarrow> dget m ''groups'' = Some (PList (map group_public_dict (groups p))) \<and> dget m ''children'' = None
      | Composite c \<Rightarrow> \<exists>entries. dget m ''children'' = Some (PList entries) \<and>
          map (\<lambda>d. dget_or d ''node_id'' PNone) (mappings entries) = map (\<lambda>ch. PStr (child_node ch)) (children c))"

lemma physical_manifest: "node_manifest (Physical p) (physical_body R p @ [(PStr ''manifest_hash'', h)])"
  by (simp add: node_manifest_def physical_body_def dget_append mkdict_items common_manifest_def Let_def)

lemma entries_children:
  "mapM (spec_entry k E R) chs = Inr entries \<Longrightarrow>
     map (\<lambda>d. dget_or d ''node_id'' PNone) (mappings entries) = map (\<lambda>ch. PStr (child_node ch)) chs"
  by (induction chs arbitrary: entries)
     (auto simp: spec_entry_def child_entry_def mkdict_def mappings_def List.map_filter_simps dget_or_def simp del: manifest_spec.simps)

lemma composite_manifest:
  assumes "mapM (spec_entry k E R) (children c) = Inr entries"
  shows "node_manifest (Composite c) (composite_body R c entries ps @ [(PStr ''manifest_hash'', h)])"
  using entries_children [OF assms]
  by (simp add: node_manifest_def composite_body_def dget_append mkdict_items common_manifest_def Let_def)

lemma loaded_manifest:
  assumes "loaded_ok E R" "map_of (nodes R) i = Some n"
  shows "\<exists>m. describe E R i None = Inr m \<and> node_manifest n m"
proof -
  have i: "i \<in> fst ` set (nodes R)" using assms(2) by (force dest: map_of_SomeD)
  obtain m where m: "describe E R i None = Inr m" "manifest_spec (depth_limit (nodes R)) E R i = Inr m"
    using manifest_of_spec [OF assms(1) i] by (auto simp: describe_def)
  then obtain k where "manifest_spec (Suc k) E R i = Inr m" by (cases "depth_limit (nodes R)") auto
  with assms(2) have "node_manifest n m"
    unfolding manifest_spec_Suc by (cases n) (auto simp: physical_manifest composite_manifest)
  with m(1) show ?thesis by blast
qed

definition shown_by :: "registry \<Rightarrow> manifests \<Rightarrow> bool" where
  "shown_by R ms \<longleftrightarrow> (\<forall>i n. map_of (nodes R) i = Some n \<longrightarrow> (\<exists>m. map_of ms i = Some m \<and> node_manifest n m)) \<and>
     length ms = card (fst ` set (nodes R))"

lemma map_of_graph: "i \<in> set is \<Longrightarrow> map_of (map (\<lambda>i. (i, g i)) is) i = Some (g i)"
  by (induction "is") auto

lemma all_manifests_shown:
  assumes "loaded_ok E R"
  shows "\<exists>ms. all_manifests E R = Inr ms \<and> shown_by R ms"
proof -
  define g where "g i = (case describe E R i None of Inr m \<Rightarrow> m | Inl e \<Rightarrow> [])" for i
  have g: "describe E R i None = Inr (g i) \<and> (\<forall>n. map_of (nodes R) i = Some n \<longrightarrow> node_manifest n (g i))" if "i \<in> set (node_ids R)" for i
  proof -
    have "i \<in> fst ` set (nodes R)" using that by (simp add: node_ids_def)
    then obtain n where "map_of (nodes R) i = Some n" by (metis map_of_eq_None_iff not_None_eq)
    moreover from loaded_manifest [OF assms this] obtain m where "describe E R i None = Inr m" "node_manifest n m" by blast
    ultimately show ?thesis by (simp add: g_def)
  qed
  have "all_manifests E R = Inr (map (\<lambda>i. (i, g i)) (node_ids R))"
    unfolding all_manifests_def by (rule mapM_Inr_all) (use g in simp)
  moreover have "length (node_ids R) = card (fst ` set (nodes R))" by (simp add: node_ids_def sorted_set_def length_remdups_card_conv)
  moreover have "i \<in> set (node_ids R)" if "map_of (nodes R) i = Some n" for i n
    using map_of_SomeD [OF that] by (force simp: node_ids_def)
  ultimately show ?thesis using g by (auto simp: shown_by_def map_of_graph)
qed


section \<open>Leaves of a node\<close>

text \<open>The canonical names of the groups below a node, as leases name them.\<close>

definition node_leaves :: "node_table \<Rightarrow> string \<Rightarrow> string set" where
  "node_leaves ns i = {node_id p @ ''.'' @ group_id g | segs al p g. route ns i segs al p g}"

lemma node_leaves_physical: "map_of ns i = Some (Physical p) \<Longrightarrow> node_leaves ns i = (\<lambda>g. node_id p @ ''.'' @ group_id g) ` set (groups p)"
  using route_leaf [of ns i p] by (fastforce simp: node_leaves_def elim: route.cases)

lemma node_leaves_composite: "map_of ns i = Some (Composite c) \<Longrightarrow> node_leaves ns i = (\<Union>ch \<in> set (children c). node_leaves ns (child_node ch))"
  by (fastforce simp: node_leaves_def intro: route_role elim: route.cases)

lemma node_leaves_resolve:
  assumes "wf_table (nodes R)"
  shows "node_leaves (nodes R) i = {canonical_id rg | path rg. resolve_group R i path = Inr rg}"
proof (intro subset_antisym subsetI)
  fix x assume "x \<in> node_leaves (nodes R) i"
  then obtain segs al p g where x: "route (nodes R) i segs al p g" "x = node_id p @ ''.'' @ group_id g" by (auto simp: node_leaves_def)
  from x(1) have "resolve_group R i (py_join (CHR ''.'') segs) = Inr \<lparr>root_node_id = i, role_path = py_join (CHR ''.'') segs,
      physical_node_id = node_id p, resolved_group_id = group_id g, resolved_spec = g\<rparr>"
    using resolve_group_routes [OF assms] by blast
  moreover from x(2) have "x = canonical_id \<lparr>root_node_id = i, role_path = py_join (CHR ''.'') segs,
      physical_node_id = node_id p, resolved_group_id = group_id g, resolved_spec = g\<rparr>" by (simp add: canonical_id_def)
  ultimately show "x \<in> {canonical_id rg | path rg. resolve_group R i path = Inr rg}" by blast
next
  fix x assume "x \<in> {canonical_id rg | path rg. resolve_group R i path = Inr rg}"
  then obtain path rg where x: "x = canonical_id rg" "resolve_group R i path = Inr rg" by blast
  from x(2) obtain segs al p g where "route (nodes R) i segs al p g"
    "rg = \<lparr>root_node_id = i, role_path = path, physical_node_id = node_id p, resolved_group_id = group_id g, resolved_spec = g\<rparr>"
    unfolding resolve_group_routes [OF assms] by blast
  with x(1) show "x \<in> node_leaves (nodes R) i" unfolding node_leaves_def canonical_id_def by auto
qed

lemma group_leaves_public: "group_leaves i (map group_public_dict gs) = map (\<lambda>g. i @ ''.'' @ group_id g) gs"
  by (induction gs) (auto simp: group_leaves_def mappings_def List.map_filter_simps group_public_dict_def mkdict_def)

lemma child_ids_composite: "node_manifest (Composite c) m \<Longrightarrow> child_ids E m = Inr (map child_node (children c))"
proof -
  assume "node_manifest (Composite c) m"
  then obtain entries where e: "dget m ''children'' = Some (PList entries)"
    "map (\<lambda>d. dget_or d ''node_id'' PNone) (mappings entries) = map (\<lambda>ch. PStr (child_node ch)) (children c)"
    by (auto simp: node_manifest_def)
  have "map (\<lambda>d. py_str E (dget_or d ''node_id'' PNone)) (mappings entries) =
      map (py_str E) (map (\<lambda>d. dget_or d ''node_id'' PNone) (mappings entries))" by simp
  with e show ?thesis by (simp add: child_ids_def dget_or_def py_iter_def py_str_def)
qed

lemma leaves_for_exact:
  assumes "validate_graph (nodes R) = Inr ()" "i \<in> fst ` set (nodes R)" "card (below (nodes R) i) \<le> fuel"
    and shown: "shown_by R ms" and wf: "wf_table (nodes R)"
  shows "\<exists>ls. leaves_for fuel E ms i = Inr ls \<and> set ls = node_leaves (nodes R) i \<and> distinct ls"
  using assms(1-3)
proof (induction rule: depth_induct)
  case (node i n fuel)
  obtain m where m: "manifest_at ms i = Inr m" "node_manifest n m"
    using shown node(1) by (fastforce simp: shown_by_def manifest_at_def)
  show ?case
  proof (cases n)
    case (Physical p)
    with m node(1) wf_tableD [OF wf node(1)] show ?thesis
      by (auto simp: node_manifest_def dget_or_def py_iter_def group_leaves_public node_leaves_physical node_common.defs)
  next
    case (Composite c)
    have "\<exists>ls. mapM (leaves_for fuel E ms) chs = Inr ls \<and> set (concat ls) = (\<Union>j \<in> set chs. node_leaves (nodes R) j)"
      if "set chs \<subseteq> child_node ` set (children c)" for chs
      using that by (induction chs) (use node(2) Composite in fastforce)+
    from this [of "map child_node (children c)"] obtain ls where
      "mapM (leaves_for fuel E ms) (map child_node (children c)) = Inr ls" "set (concat ls) = node_leaves (nodes R) i"
      using node(1) Composite node_leaves_composite by auto
    with m Composite show ?thesis by (simp add: child_ids_composite) (simp add: node_manifest_def dget_or_def)
  qed
qed

lemma limit_enough:
  assumes "validate_graph (nodes R) = Inr ()" "i \<in> fst ` set (nodes R)" "shown_by R ms"
  shows "card (below (nodes R) i) \<le> recursion_limit ms"
  using assms below_subset [of "nodes R" i] card_mono [of "fst ` set (nodes R)" "below (nodes R) i"]
  by (simp add: shown_by_def recursion_limit_def validated_graph)

section \<open>Occupation\<close>

text \<open>The lease takes a group below the node, or one of the resources or safety domains it declares.\<close>

definition occupies :: "registry \<Rightarrow> lease_receipt \<Rightarrow> string \<Rightarrow> bool" where
  "occupies R r i \<longleftrightarrow> (\<exists>n. map_of (nodes R) i = Some n \<and>
     (set (rc_leaves r) \<inter> {canonical_id rg | path rg. resolve_group R i path = Inr rg} \<noteq> {} \<or>
      set (rc_resources r) \<inter> set (resources (common n)) \<noteq> {} \<or> set (rc_safety_domains r) \<inter> set (safety_domains (common n)) \<noteq> {}))"

lemma py_set_strs: "py_set (str_list ks) = Inr (map PStr ks)"
  by (simp add: py_set_def str_list_def py_iter_def list_all_iff)

lemma meets_strs: "meets (map PStr ks) ls \<longleftrightarrow> set ls \<inter> set ks \<noteq> {}"
  by (auto simp: meets_def list_ex_iff)

lemma occupying_runs_exact:
  assumes "loaded_ok E R" "shown_by R ms" "i \<in> fst ` set (nodes R)"
  shows "occupying_runs E ms receipts i = Inr (sort (map rc_run_id (filter (\<lambda>r. occupies R r i) receipts)))"
proof -
  have wf: "wf_table (nodes R)" using assms(1) by (simp add: loaded_ok_def)
  note g = loaded_graph [OF assms(1)]
  obtain n where n: "map_of (nodes R) i = Some n" using assms(3) by (metis map_of_eq_None_iff not_None_eq)
  then obtain m where m: "manifest_at ms i = Inr m" "node_manifest n m"
    using assms(2) by (fastforce simp: shown_by_def manifest_at_def)
  obtain ls where ls: "leaves_for (recursion_limit ms) E ms i = Inr ls" "set ls = node_leaves (nodes R) i"
    using leaves_for_exact [OF g assms(3) limit_enough [OF g assms(3,2)] assms(2) wf] by blast
  have "filter (\<lambda>r. meets (map PStr ls) (rc_leaves r) \<or> meets (map PStr (resources (common n))) (rc_resources r) \<or>
      meets (map PStr (safety_domains (common n))) (rc_safety_domains r)) receipts = filter (\<lambda>r. occupies R r i) receipts"
    by (intro filter_cong refl) (simp add: occupies_def n meets_strs ls(2) node_leaves_resolve [OF wf])
  with m ls(1) show ?thesis by (simp add: occupying_runs_def node_manifest_def dget_or_def py_set_strs)
qed

section \<open>Display states\<close>

lemma priority_faulted: "priority s \<le> 90 \<and> (priority s = 90 \<longleftrightarrow> s = ''faulted'')"
  by (auto simp: priority_def STATE_PRIORITY_def)

lemma max_state_faulted: "max_state best ss = ''faulted'' \<longleftrightarrow> best = ''faulted'' \<or> ''faulted'' \<in> set ss"
proof (induction ss arbitrary: best)
  case (Cons s ss)
  show ?case unfolding max_state.simps Cons.IH using priority_faulted [of s] priority_faulted [of best] by auto
qed simp

lemma worst_state_faulted: "worst_state ss = ''faulted'' \<longleftrightarrow> ''faulted'' \<in> set ss"
  by (cases ss) (auto simp: worst_state_def max_state_faulted)

lemma runtime_state_faulted:
  "runtime_state E polled = ''faulted'' \<longleftrightarrow> (\<exists>d. polled = Some d \<and> dget_or d ''reachable'' PNone \<noteq> PBool True)"
  by (auto simp: runtime_state_def worker_display_state_def split: option.splits)

text \<open>Some physical node at or below the node has a worker that was polled in vain.\<close>

definition unanswered :: "node_table \<Rightarrow> (string \<times> pydict) list \<Rightarrow> string \<Rightarrow> bool" where
  "unanswered ns states i \<longleftrightarrow> (\<exists>j p d. (i, j) \<in> (edges ns)\<^sup>* \<and> map_of ns j = Some (Physical p) \<and> map_of states j = Some d \<and>
     dget_or d ''reachable'' PNone \<noteq> PBool True)"

lemma unanswered_physical:
  assumes "map_of ns i = Some (Physical p)"
  shows "unanswered ns states i \<longleftrightarrow> (\<exists>d. map_of states i = Some d \<and> dget_or d ''reachable'' PNone \<noteq> PBool True)"
proof -
  have "(i, j) \<notin> edges ns" for j using assms by (auto simp: edges_def)
  then have "(i, j) \<in> (edges ns)\<^sup>* \<longleftrightarrow> i = j" for j by (auto elim: converse_rtranclE)
  with assms show ?thesis by (auto simp: unanswered_def)
qed

lemma rtrancl_from:
  assumes "\<And>k. (i, k) \<in> r \<longleftrightarrow> k \<in> K"
  shows "(\<exists>j. (i, j) \<in> r\<^sup>* \<and> Q j) \<longleftrightarrow> Q i \<or> (\<exists>k \<in> K. \<exists>j. (k, j) \<in> r\<^sup>* \<and> Q j)"
proof
  assume "\<exists>j. (i, j) \<in> r\<^sup>* \<and> Q j"
  then obtain j where "(i, j) \<in> r\<^sup>*" "Q j" by blast
  then show "Q i \<or> (\<exists>k \<in> K. \<exists>j. (k, j) \<in> r\<^sup>* \<and> Q j)" using assms by (cases rule: converse_rtranclE) auto
next
  assume "Q i \<or> (\<exists>k \<in> K. \<exists>j. (k, j) \<in> r\<^sup>* \<and> Q j)"
  then show "\<exists>j. (i, j) \<in> r\<^sup>* \<and> Q j" using assms by (meson converse_rtrancl_into_rtrancl rtrancl.rtrancl_refl)
qed

lemma unanswered_composite:
  assumes "map_of ns i = Some (Composite c)"
  shows "unanswered ns states i \<longleftrightarrow> (\<exists>ch \<in> set (children c). unanswered ns states (child_node ch))"
proof -
  have e: "(i, k) \<in> edges ns \<longleftrightarrow> k \<in> child_node ` set (children c)" for k
    using assms by (auto simp: edges_def)
  show ?thesis unfolding unanswered_def
    using rtrancl_from [OF e, of "\<lambda>j. \<exists>p d. map_of ns j = Some (Physical p) \<and> map_of states j = Some d \<and>
      dget_or d ''reachable'' PNone \<noteq> PBool True"] assms by simp
qed

text \<open>A node is shown as faulted exactly if a worker below it does not answer, and never as idle while occupied.\<close>

lemma display_for_exact:
  assumes l: "loaded_ok E R" and shown: "shown_by R ms"
    and "i \<in> fst ` set (nodes R)" "card (below (nodes R) i) \<le> fuel"
  shows "\<exists>s. display_for fuel E ms states receipts i = Inr s \<and> (s = ''faulted'' \<longleftrightarrow> unanswered (nodes R) states i) \<and>
    ((\<exists>r \<in> set receipts. occupies R r i) \<longrightarrow> s \<noteq> ''idle'' \<and> s \<noteq> ''offline'')"
  using loaded_graph [OF l] assms(3,4)
proof (induction rule: depth_induct)
  case (node i n fuel)
  have i: "i \<in> fst ` set (nodes R)" using node(1) by (force dest: map_of_SomeD)
  obtain m where m: "manifest_at ms i = Inr m" "node_manifest n m"
    using shown node(1) by (fastforce simp: shown_by_def manifest_at_def)
  define who where "who = sort (map rc_run_id (filter (\<lambda>r. occupies R r i) receipts))"
  have o: "occupying_runs E ms receipts i = Inr who" unfolding who_def by (rule occupying_runs_exact [OF l shown i])
  have some: "who \<noteq> [] \<longleftrightarrow> (\<exists>r \<in> set receipts. occupies R r i)"
    unfolding who_def by (metis (no_types, lifting) filter_empty_conv list.map_disc_iff set_empty set_sort)
  have finish: ?case if "display_for (Suc fuel) E ms states receipts i =
      Inr (if who \<noteq> [] \<and> s \<in> {''idle'', ''offline''} then ''occupied'' else s)" "s = ''faulted'' \<longleftrightarrow> unanswered (nodes R) states i" for s
    using that some by (auto simp del: display_for.simps)
  show ?case
  proof (cases n)
    case (Physical p)
    with m o node(1) show ?thesis
      by (intro finish [of "runtime_state E (map_of states i)"])
         (simp_all add: node_manifest_def dget_or_def runtime_state_faulted unanswered_physical)
  next
    case (Composite c)
    have "\<exists>ss. mapM (display_for fuel E ms states receipts) chs = Inr ss \<and>
        (''faulted'' \<in> set ss \<longleftrightarrow> (\<exists>j \<in> set chs. unanswered (nodes R) states j))" if "set chs \<subseteq> child_node ` set (children c)" for chs
      using that by (induction chs) (use node(2) Composite in fastforce)+
    from this [of "map child_node (children c)"] obtain ss where
      "mapM (display_for fuel E ms states receipts) (map child_node (children c)) = Inr ss"
      "''faulted'' \<in> set ss \<longleftrightarrow> unanswered (nodes R) states i"
      using unanswered_composite [of "nodes R" i c states] node(1) Composite by auto
    with m o Composite show ?thesis
      by (intro finish [of "worst_state ss"]) (simp_all add: child_ids_composite worst_state_faulted, simp add: node_manifest_def dget_or_def)
  qed
qed


lemma map_of_record: "dget (the_dict (mkdict kvs)) k = map_of kvs k"
  by (simp add: mkdict_items dget_mkdict)

lemma node_record_exact:
  assumes l: "loaded_ok E R" and i: "i \<in> fst ` set (nodes R)"
  shows "\<exists>ms rec s ls. all_manifests E R = Inr ms \<and> node_record E ms states receipts i = Inr rec \<and>
    dget rec ''occupied_by'' = Some (str_list (sort (map rc_run_id (filter (\<lambda>r. occupies R r i) receipts)))) \<and>
    dget rec ''canonical_leaves'' = Some (str_list ls) \<and> sorted ls \<and> distinct ls \<and>
    set ls = {canonical_id rg | path rg. resolve_group R i path = Inr rg} \<and>
    dget rec ''display_state'' = Some (PStr s) \<and> (s = ''faulted'' \<longleftrightarrow> unanswered (nodes R) states i) \<and>
    ((\<exists>r \<in> set receipts. occupies R r i) \<longrightarrow> s \<noteq> ''idle'' \<and> s \<noteq> ''offline'')"
proof -
  have wf: "wf_table (nodes R)" using l by (simp add: loaded_ok_def)
  note g = loaded_graph [OF l]
  obtain ms where ms: "all_manifests E R = Inr ms" "shown_by R ms" using all_manifests_shown [OF l] by blast
  obtain n where "map_of (nodes R) i = Some n" using i by (metis map_of_eq_None_iff not_None_eq)
  then obtain m where m: "manifest_at ms i = Inr m" "node_manifest n m"
    using ms(2) by (fastforce simp: shown_by_def manifest_at_def)
  note limit = limit_enough [OF g i ms(2)]
  obtain ls where ls: "leaves_for (recursion_limit ms) E ms i = Inr ls" "set ls = node_leaves (nodes R) i" "distinct ls"
    using leaves_for_exact [OF g i limit ms(2) wf] by blast
  obtain s where s: "display_for (recursion_limit ms) E ms states receipts i = Inr s" "s = ''faulted'' \<longleftrightarrow> unanswered (nodes R) states i"
    "(\<exists>r \<in> set receipts. occupies R r i) \<longrightarrow> s \<noteq> ''idle'' \<and> s \<noteq> ''offline''"
    using display_for_exact [OF l ms(2) i limit] by blast
  note o = occupying_runs_exact [OF l ms(2) i, of receipts]
  have "\<exists>cs. py_iter (dget_or m ''children'' (PList [])) = Inr cs" "\<exists>rs. py_iter (dget_or m ''resources'' (PList [])) = Inr rs"
    "\<exists>ds. py_iter (dget_or m ''safety_domains'' (PList [])) = Inr ds"
    using m(2) by (cases n; auto simp: node_manifest_def dget_or_def py_iter_def str_list_def)+
  then obtain rec where rec: "node_record E ms states receipts i = Inr rec"
    "dget rec ''occupied_by'' = Some (str_list (sort (map rc_run_id (filter (\<lambda>r. occupies R r i) receipts))))"
    "dget rec ''canonical_leaves'' = Some (str_list (sort ls))" "dget rec ''display_state'' = Some (PStr s)"
    by (auto simp: node_record_def m(1) o s(1) ls(1) Let_def map_of_record)
  have "set (sort ls) = {canonical_id rg | path rg. resolve_group R i path = Inr rg}"
    using ls(2) node_leaves_resolve [OF wf, of i] by simp
  with ms(1) rec s(2,3) ls(3) show ?thesis
    by (intro exI [of _ ms] exI [of _ rec] exI [of _ s] exI [of _ "sort ls"]) (simp del: set_sort)
qed

text \<open>
  C32. The view of a node is complete. For every node of a loaded registry, whatever the leases and
  poll answers: the view names exactly the runs whose lease takes a group below the node or a
  resource or safety domain of it; its leaves are exactly the groups that role paths from it resolve
  to; a node with such a run is never shown as idle or offline; and it is shown as faulted exactly
  if some worker at or below it did not answer.
\<close>

theorem node_view_exact:
  assumes "load E dir = Inr R" "i \<in> fst ` set (nodes R)"
  shows "\<exists>ms rec s ls. all_manifests E R = Inr ms \<and> node_record E ms states receipts i = Inr rec \<and>
    dget rec ''occupied_by'' = Some (str_list (sort (map rc_run_id (filter (\<lambda>r. occupies R r i) receipts)))) \<and>
    dget rec ''canonical_leaves'' = Some (str_list ls) \<and> sorted ls \<and> distinct ls \<and>
    set ls = {canonical_id rg | path rg. resolve_group R i path = Inr rg} \<and>
    dget rec ''display_state'' = Some (PStr s) \<and> (s = ''faulted'' \<longleftrightarrow> unanswered (nodes R) states i) \<and>
    ((\<exists>r \<in> set receipts. occupies R r i) \<longrightarrow> s \<noteq> ''idle'' \<and> s \<noteq> ''offline'')"
  by (rule node_record_exact [OF load_Inr [OF assms(1)] assms(2)])

theorem node_view_exact_witness:
  "\<exists>ms rec s. all_manifests demo_codecs (demo_registry ''COM3'') = Inr ms \<and>
     node_record demo_codecs ms [(''arm'', poll demo_codecs (Inl TimeoutError) 5)] [] ''cell'' = Inr rec \<and>
     dget rec ''display_state'' = Some (PStr ''faulted'')"
proof -
  have u: "unanswered (nodes (demo_registry ''COM3'')) [(''arm'', poll demo_codecs (Inl TimeoutError) 5)] ''cell''"
  proof -
    have "(case map_of (nodes (demo_registry ''COM3'')) ''cell'' of Some (Composite c) \<Rightarrow> map child_node (children c) | _ \<Rightarrow> []) = [''arm'', ''arm'']"
      "(case map_of (nodes (demo_registry ''COM3'')) ''arm'' of Some (Physical p) \<Rightarrow> True | _ \<Rightarrow> False) = True" by code_simp+
    then obtain c p where n: "map_of (nodes (demo_registry ''COM3'')) ''cell'' = Some (Composite c)"
      "map_of (nodes (demo_registry ''COM3'')) ''arm'' = Some (Physical p)" "map child_node (children c) = [''arm'', ''arm'']"
      by (cases "map_of (nodes (demo_registry ''COM3'')) ''cell''"; cases "map_of (nodes (demo_registry ''COM3'')) ''arm''")
         (simp_all split: control_node.splits)
    have "''arm'' \<in> child_node ` set (children c)" using arg_cong [OF n(3), of set] by simp
    then obtain ch where "ch \<in> set (children c)" "child_node ch = ''arm''" by auto
    moreover have "unanswered (nodes (demo_registry ''COM3'')) [(''arm'', poll demo_codecs (Inl TimeoutError) 5)] ''arm''"
      by (simp add: unanswered_physical [OF n(2)] poll_def map_of_record dget_or_def)
    ultimately show ?thesis unfolding unanswered_composite [OF n(1)] by metis
  qed
  have "''cell'' \<in> fst ` set (nodes (demo_registry ''COM3''))" by (simp add: demo_nodes)
  from node_view_exact [OF demo_load(1) this, of "[(''arm'', poll demo_codecs (Inl TimeoutError) 5)]" "[]"] u show ?thesis by auto
qed

section \<open>What the view depends on\<close>

lemma view_public:
  assumes "loaded_ok E R" "loaded_ok E R'" "server_id R' = server_id R" "public_table (nodes R') = public_table (nodes R)"
    and "pj_registry P = R"
  shows "build_state E (P\<lparr>pj_registry := R'\<rparr>) leases j c states = build_state E P leases j c states"
proof -
  note p = public_manifests [OF assms(1-4)]
  have "fst ` set (nodes R') = fst ` set (nodes R)" using p by blast
  then have "set (map fst (nodes R')) = set (map fst (nodes R))" by simp
  moreover have "distinct (map fst (nodes R'))" "distinct (map fst (nodes R))" using assms(1,2) by (simp_all add: loaded_ok_def wf_table_def)
  ultimately have ids: "node_ids R' = node_ids R"
    by (simp add: node_ids_def sorted_set_def distinct_remdups_id sorted_distinct_set_unique)
  have "describe E R' i None = describe E R i None" for i using p by (simp add: describe_def)
  then have ms: "all_manifests E R' = all_manifests E R" by (simp add: all_manifests_def ids)
  have "state_dict (P\<lparr>pj_registry := R'\<rparr>) = state_dict P" by (intro ext) (simp add: state_dict_def assms(3,5))
  then show ?thesis using assms(5) ids ms by (simp add: build_state_def)
qed

text \<open>
  Observers see no connection. Two projections that differ only in the registry, whose nodes
  differ at most in their connections and whose identities may differ in everything, compute the
  same state, and so publish the same snapshots.
\<close>

theorem view_hides_connections:
  assumes "load E dir = Inr R" "load E dir' = Inr R'" "server_id R' = server_id R"
    and "public_table (nodes R') = public_table (nodes R)" "pj_registry P = R"
  shows "build_state E (P\<lparr>pj_registry := R'\<rparr>) leases j c states = build_state E P leases j c states"
  by (rule view_public [OF load_Inr load_Inr, OF assms])

definition quiet_projection :: projection where
  "quiet_projection = \<lparr>pj_registry = demo_registry ''COM3'', pj_execution_available = False, pj_capacity = 2, pj_recent_runs = 24,
     pj_recent_events = 80, pj_started = 0, pj_events = [], pj_event_seq = 0, pj_snapshot = None, pj_fingerprint = None, pj_closed = False\<rparr>"

theorem view_hides_connections_witness:
  "build_state demo_codecs (quiet_projection\<lparr>pj_registry := demo_registry ''COM4''\<rparr>) new_manager InMemoryRunJournal c [] =
     build_state demo_codecs quiet_projection new_manager InMemoryRunJournal c [] \<and>
   nodes (demo_registry ''COM4'') \<noteq> nodes (demo_registry ''COM3'')"
proof -
  have "server_id (demo_registry ''COM4'') = server_id (demo_registry ''COM3'')"
    "public_table (nodes (demo_registry ''COM4'')) = public_table (nodes (demo_registry ''COM3''))"
    "nodes (demo_registry ''COM4'') \<noteq> nodes (demo_registry ''COM3'')" by code_simp+
  with view_hides_connections [OF demo_load, of quiet_projection] show ?thesis by (simp add: quiet_projection_def)
qed


section \<open>Publication\<close>

text \<open>The events are numbered in order, and each carries a snapshot with its own number.\<close>

definition numbered_events :: "int \<Rightarrow> operations_event list \<Rightarrow> bool" where
  "numbered_events first es \<longleftrightarrow> map ov_event_seq es = [first .. first + int (length es) - 1] \<and>
     (\<forall>e \<in> set es. dget (ov_snapshot e) ''operations_event_seq'' = Some (PInt (ov_event_seq e)))"

definition ring_ok :: "projection \<Rightarrow> bool" where
  "ring_ok P \<longleftrightarrow> 0 < pj_capacity P \<and> 0 \<le> pj_event_seq P \<and> int (length (pj_events P)) = min (pj_capacity P) (pj_event_seq P) \<and>
     numbered_events (pj_event_seq P - int (length (pj_events P)) + 1) (pj_events P)"

lemma numbered_events_Cons:
  "numbered_events first (e # es) \<longleftrightarrow> ov_event_seq e = first \<and> dget (ov_snapshot e) ''operations_event_seq'' = Some (PInt first) \<and>
     numbered_events (first + 1) es"
proof -
  have "[first .. first + int (length (e # es)) - 1] = first # [first + 1 .. first + 1 + int (length es) - 1]"
    by (subst upto.simps) simp
  then show ?thesis unfolding numbered_events_def by auto
qed

lemma numbered_events_Nil: "numbered_events first []"
  by (simp add: numbered_events_def)

lemma numbered_events_snoc:
  "numbered_events first es \<Longrightarrow> ov_event_seq e = first + int (length es) \<Longrightarrow>
     dget (ov_snapshot e) ''operations_event_seq'' = Some (PInt (ov_event_seq e)) \<Longrightarrow> numbered_events first (es @ [e])"
  by (induction es arbitrary: first) (simp_all add: numbered_events_Cons numbered_events_Nil algebra_simps)

lemma numbered_events_drop: "numbered_events first es \<Longrightarrow> k \<le> length es \<Longrightarrow> numbered_events (first + int k) (drop k es)"
proof (induction k arbitrary: first es)
  case (Suc k)
  then obtain e es' where es: "es = e # es'" by (cases es) auto
  with Suc.prems Suc.IH [of "first + 1" es'] show ?case by (simp add: numbered_events_Cons add.assoc)
qed simp

lemma numbered_events_last: "numbered_events first es \<Longrightarrow> es \<noteq> [] \<Longrightarrow> ov_event_seq (last es) = first + int (length es) - 1"
proof (induction es arbitrary: first)
  case (Cons e es)
  then show ?case by (cases "es = []") (auto simp: numbered_events_Cons)
qed simp

text \<open>The events behind a cursor are the last ones.\<close>

lemma numbered_events_after:
  assumes "numbered_events first es"
  shows "numbered_events (max first (c + 1)) (filter (\<lambda>e. ov_event_seq e > c) es)"
  using assms
proof (induction es arbitrary: first)
  case (Cons e es)
  then have e: "ov_event_seq e = first" and es: "numbered_events (first + 1) es" by (simp_all add: numbered_events_Cons)
  show ?case
  proof (cases "first > c")
    case True
    then have "filter (\<lambda>e. ov_event_seq e > c) es = es"
      using es by (auto simp: filter_id_conv numbered_events_def) (metis atLeastAtMost_iff image_eqI list.set_map set_upto zless_add1_eq less_le_trans order.strict_implies_order)
    with True Cons.prems e show ?thesis by simp
  next
    case False
    with Cons.IH [OF es] e show ?thesis by (cases "first = c") (simp_all add: max_def split: if_splits)
  qed
qed (simp add: numbered_events_Nil)


lemma publish_ring:
  assumes "ring_ok P" "map_of state ''operations_event_seq'' = None"
  shows "ring_ok (snd (publish E P c state))"
proof (cases "Some (fingerprint E (mkdict state)) = pj_fingerprint P")
  case True
  then show ?thesis using assms(1) by (auto simp: publish_def ring_ok_def Let_def)
next
  case False
  define e where "e = \<lparr>ov_event_seq = pj_event_seq P + 1, ov_recorded_at = vc_recorded c, ov_event_type = ''operations.snapshot'',
    ov_snapshot = the_dict (mkdict (state @ [(''generated_at_ns'', PInt (vc_generated c)),
      (''uptime_ms'', PInt ((vc_uptime c - pj_started P) div 1000000)), (''operations_event_seq'', PInt (pj_event_seq P + 1))]))\<rparr>"
  let ?es = "pj_events P @ [e]" and ?first = "pj_event_seq P - int (length (pj_events P)) + 1"
  have ring: "0 < pj_capacity P" "0 \<le> pj_event_seq P" "int (length (pj_events P)) = min (pj_capacity P) (pj_event_seq P)"
    "numbered_events ?first (pj_events P)" using assms(1) unfolding ring_ok_def by blast+
  have "dget (ov_snapshot e) ''operations_event_seq'' = Some (PInt (ov_event_seq e))"
    using assms(2) by (simp add: e_def map_of_record map_add_Some_iff map_add_def)
  then have es: "numbered_events ?first ?es" using ring(4) by (intro numbered_events_snoc) (simp_all add: e_def)
  define k where "k = length ?es - nat (pj_capacity P)"
  define ds where "ds = drop k ?es"
  have ds: "k \<le> length ?es" "int (length ds) = min (pj_capacity P) (pj_event_seq P + 1)" "?first + int k = pj_event_seq P + 1 - int (length ds) + 1"
    using ring(1-3) by (auto simp: ds_def k_def min_def split: if_splits)
  have "numbered_events (pj_event_seq P + 1 - int (length ds) + 1) ds"
    using numbered_events_drop [OF es ds(1)] unfolding ds(3) ds_def .
  moreover have "snd (publish E P c state) = P\<lparr>pj_event_seq := pj_event_seq P + 1, pj_snapshot := Some (ov_snapshot e),
      pj_fingerprint := Some (fingerprint E (mkdict state)), pj_events := ds\<rparr>"
    using False by (simp add: publish_def push_event_def Let_def e_def ds_def k_def)
  ultimately show ?thesis unfolding ring_ok_def using ring(1,2) ds(2) by simp
qed

lemma refresh_ring: "ring_ok P \<Longrightarrow> ring_ok (snd (refresh_polled E P leases j c polls))"
proof -
  assume ring: "ring_ok P"
  have "map_of (state_dict P receipts runs recent records) ''operations_event_seq'' = None" for receipts runs recent records
    by (simp add: state_dict_def Let_def)
  then have "map_of state ''operations_event_seq'' = None" if "build_state E P leases j c states = Inr state" for states state
    using that by (auto simp: build_state_def Let_def)
  with publish_ring [OF ring] show ?thesis by (auto simp: refresh_polled_def ring split: sum.split prod.split) (metis snd_conv)
qed

text \<open>
  A projection and one of its subscribers: refreshes, even those that were polling while it was
  closed, the closing, and the subscriber asking for the next event, in any order.
\<close>

inductive watched :: "pyenv \<Rightarrow> projection \<Rightarrow> subscriber \<Rightarrow> bool" for E where
  watch_start: "OperationsProjection R x capacity recent_runs recent_events t = Inr P \<Longrightarrow> subscribe after = Inr s \<Longrightarrow> watched E P s"
| watch_refresh: "watched E P s \<Longrightarrow> watched E (snd (refresh_polled E P leases j c polls)) s"
| watch_close: "watched E P s \<Longrightarrow> watched E (close_projection P) s"
| watch_next: "watched E P s \<Longrightarrow> watched E P (snd (next_published P s))"

definition watch_inv :: "projection \<Rightarrow> subscriber \<Rightarrow> bool" where
  "watch_inv P s \<longleftrightarrow> ring_ok P \<and> 0 \<le> sb_cursor s \<and> numbered_events (sb_cursor s + 1) (sb_pending s) \<and>
     (sb_ended s \<longrightarrow> pj_closed P \<and> sb_pending s = [])"

lemma yield_first_inv:
  "numbered_events first es \<Longrightarrow> yield_first s es = (case es of [] \<Rightarrow> (None, s)
     | e # es' \<Rightarrow> (Some e, s\<lparr>sb_cursor := first, sb_pending := es'\<rparr>))"
  by (cases es) (simp_all add: yield_first_def numbered_events_Cons)

lemma refresh_closed: "pj_closed (snd (refresh_polled E P leases j c polls)) = pj_closed P"
  by (simp add: refresh_polled_def publish_def Let_def split: sum.split)

lemma next_published_inv:
  assumes "watch_inv P s"
  shows "watch_inv P (snd (next_published P s))"
proof -
  have r: "ring_ok P" using assms by (simp add: watch_inv_def)
  have "watch_inv P (snd (yield_first s es))" if "numbered_events first es" "\<not> sb_ended s" "0 \<le> first" for first es
    using that r assms by (cases es) (auto simp: yield_first_def numbered_events_Cons watch_inv_def)
  with assms numbered_events_after [of "pj_event_seq P - int (length (pj_events P)) + 1" "pj_events P" "sb_cursor s"] r
  show ?thesis by (auto simp: next_published_def ring_ok_def watch_inv_def)
qed

lemma watched_inv: "watched E P s \<Longrightarrow> watch_inv P s"
proof (induction rule: watched.induct)
  case (watch_start R x capacity recent_runs recent_events t P "after" s)
  then show ?case
    by (auto simp: watch_inv_def ring_ok_def OperationsProjection_def subscribe_def numbered_events_Nil split: pyval.splits)
next
  case (watch_refresh P s leases j c polls)
  then show ?case using refresh_ring by (auto simp: watch_inv_def refresh_closed)
next
  case (watch_close P s)
  then show ?case by (auto simp: watch_inv_def close_projection_def ring_ok_def)
qed (rule next_published_inv)

text \<open>
  Subscribers miss nothing that is still there. Whatever refreshes, closings and requests came
  before: the next event a subscriber gets carries a snapshot with its own number, and this is the
  number after the last one it got, unless that event has already fallen out of a full ring, when
  it is the oldest of the ring; and when it gets none, it has seen the latest event or the
  projection is closed.
\<close>

theorem subscriber_gets_next:
  assumes "watched E P s"
  shows "case next_published P s of
     (Some e, s') \<Rightarrow> sb_cursor s' = ov_event_seq e \<and> dget (ov_snapshot e) ''operations_event_seq'' = Some (PInt (ov_event_seq e)) \<and>
       (ov_event_seq e = sb_cursor s + 1 \<or>
        ov_event_seq e > sb_cursor s + 1 \<and> pj_events P \<noteq> [] \<and> e = hd (pj_events P) \<and> int (length (pj_events P)) = pj_capacity P)
   | (None, s') \<Rightarrow> pj_closed P \<or> pj_event_seq P \<le> sb_cursor s"
proof -
  have inv: "watch_inv P s" by (rule watched_inv [OF assms])
  let ?first = "pj_event_seq P - int (length (pj_events P)) + 1" and ?new = "filter (\<lambda>e. ov_event_seq e > sb_cursor s) (pj_events P)"
  have ring: "ring_ok P" using inv by (simp add: watch_inv_def)
  then have ev: "numbered_events ?first (pj_events P)" "int (length (pj_events P)) = min (pj_capacity P) (pj_event_seq P)"
    unfolding ring_ok_def by blast+
  note new = numbered_events_after [OF ev(1), of "sb_cursor s"]
  have none: "pj_event_seq P \<le> sb_cursor s" if empty: "?new = []"
  proof (cases "pj_events P")
    case Nil
    with ev(2) ring inv show ?thesis by (auto simp: watch_inv_def ring_ok_def min_def split: if_splits)
  next
    case (Cons e es)
    then have "ov_event_seq (last (pj_events P)) = pj_event_seq P" using numbered_events_last [OF ev(1)] by simp
    moreover have "last (pj_events P) \<in> set (pj_events P)" using Cons by simp
    ultimately show ?thesis using empty by (metis (mono_tags, lifting) filter_empty_conv linorder_not_less)
  qed
  have oldest: "e = hd (pj_events P) \<and> pj_events P \<noteq> [] \<and> int (length (pj_events P)) = pj_capacity P"
    if some: "?new = e # es" and late: "ov_event_seq e > sb_cursor s + 1" for e es
  proof -
    have e: "ov_event_seq e = ?first" "sb_cursor s + 1 < ?first" using new late unfolding some by (auto simp: numbered_events_Cons)
    obtain d ds where d: "pj_events P = d # ds" using some by (cases "pj_events P") auto
    then have "ov_event_seq d = ?first" using ev(1) by (simp add: numbered_events_Cons)
    then have "e = d" using some e(2) unfolding d by simp
    with d ev(2) e(2) inv show ?thesis by (auto simp: watch_inv_def min_def split: if_splits)
  qed
  have fresh: "ov_event_seq e \<ge> sb_cursor s + 1 \<and> dget (ov_snapshot e) ''operations_event_seq'' = Some (PInt (ov_event_seq e))"
    if some: "?new = e # es" for e es
    using new unfolding some by (auto simp: numbered_events_Cons)
  show ?thesis
  proof (cases "sb_ended s \<or> sb_pending s \<noteq> [] \<or> pj_closed P")
    case True
    with inv show ?thesis
      by (cases "sb_pending s") (auto simp: next_published_def yield_first_def watch_inv_def numbered_events_Cons)
  next
    case False
    show ?thesis
    proof (cases ?new)
      case Nil
      with False none show ?thesis by (simp add: next_published_def yield_first_def)
    next
      case (Cons e es)
      with False oldest [OF Cons] fresh [OF Cons] show ?thesis by (auto simp: next_published_def yield_first_def)
    qed
  qed
qed


definition still_clock :: view_clock where
  "still_clock = \<lparr>vc_wall = (\<lambda>_. 0), vc_monotonic = (\<lambda>_. 0), vc_generated = 7, vc_uptime = 3000000, vc_recorded = 8\<rparr>"

definition shown_projection :: projection where
  "shown_projection = snd (refresh_polled demo_codecs quiet_projection new_manager InMemoryRunJournal still_clock
     [(''arm'', Inr (mkdict [(''status'', PStr ''running'')]), 5)])"

definition early_subscriber :: subscriber where
  "early_subscriber = \<lparr>sb_cursor = 0, sb_pending = [], sb_ended = False\<rparr>"

theorem subscriber_gets_next_witness:
  "\<exists>e s'. next_published shown_projection early_subscriber = (Some e, s') \<and>
     dget (ov_snapshot e) ''operations_event_seq'' = Some (PInt (ov_event_seq e)) \<and> sb_cursor s' = ov_event_seq e"
proof -
  have "watched demo_codecs quiet_projection early_subscriber"
    by (rule watch_start [of "demo_registry ''COM3''" False 2 24 80 0 _ "PInt 0"])
       (simp_all add: OperationsProjection_def quiet_projection_def subscribe_def early_subscriber_def)
  then have w: "watched demo_codecs shown_projection early_subscriber" unfolding shown_projection_def by (rule watch_refresh)
  have "\<not> pj_closed shown_projection \<and> pj_event_seq shown_projection = 1" by code_simp
  with subscriber_gets_next [OF w] show ?thesis
    by (cases "next_published shown_projection early_subscriber") (auto simp: early_subscriber_def split: option.splits)
qed

end
