(* ===== verification/Composition.thy ===== *)
theory Composition
  imports RunGuarantees OperationsSafety
begin

text \<open>
  The components together: what observers see while the orchestrator runs programs.
\<close>

section \<open>Orchestrator and observers\<close>

lemma active_grants_set:
  assumes "wf_manager m"
  shows "r \<in> set (active_grants m) \<longleftrightarrow> Mapping.lookup (grants m) (rc_run_id r) = Some r"
proof -
  have "set (Mapping.ordered_keys (grants m)) = Mapping.keys (grants m)"
    using assms by (simp add: wf_manager_def ordered_keys_def)
  then have "r \<in> set (active_grants m) \<longleftrightarrow> (\<exists>k g. Mapping.lookup (grants m) k = Some g \<and> r = g)"
    by (auto simp: active_grants_def keys_dom_lookup image_iff dom_def)
  moreover have "Mapping.lookup (grants m) k = Some g \<Longrightarrow> k = rc_run_id g" for k g using assms unfolding wf_manager_def by blast
  ultimately show ?thesis by blast
qed

text \<open>The active grants are the leases of the unfinished runs.\<close>

lemma active_grants_live:
  assumes "orch_reachable C S"
  shows "set (active_grants (or_leases S)) = rn_receipt ` live_runs S" "r \<in> live_runs S \<Longrightarrow> rc_run_id (rn_receipt r) = rn_id r"
proof -
  note I = sys_invD [OF orch_reachable_inv [OF assms]]
  have id: "rc_run_id (rn_receipt r) = rn_id r" if "r \<in> live_runs S" for r
    using I(1) I(5) [of "rn_id r" "rn_receipt r"] that unfolding wf_manager_def by blast
  then show "r \<in> live_runs S \<Longrightarrow> rc_run_id (rn_receipt r) = rn_id r" by blast
  show "set (active_grants (or_leases S)) = rn_receipt ` live_runs S"
    using id by (auto simp: active_grants_set [OF I(1)] I(5))
qed

text \<open>
  C5. Observers see every running program. While a run is not over, every node from which a role
  path leads to a group the run has sent a track to names the run as occupying it and is neither
  shown as idle nor as offline; and every run named by a node is not over.
\<close>

theorem commanded_nodes_shown_occupied:
  assumes "load E dir = Inr R" "i \<in> fst ` set (nodes R)"
    and "orch_reachable C S" "r \<in> set (or_runs S)" "\<not> is_done r" "(w, t) \<in> set (prepared (rn_log r))"
    and "track_target t = Inr (w, g)" "resolve_group R i path = Inr rg" "physical_node_id rg = w" "resolved_group_id rg = g"
  shows "\<exists>ms rec ids s. all_manifests E R = Inr ms \<and> node_record E ms states (active_grants (or_leases S)) i = Inr rec \<and>
    dget rec ''occupied_by'' = Some (str_list ids) \<and> rn_id r \<in> set ids \<and>
    (\<forall>x \<in> set ids. \<exists>q \<in> set (or_runs S). rn_id q = x \<and> \<not> is_done q) \<and>
    dget rec ''display_state'' = Some (PStr s) \<and> s \<noteq> ''idle'' \<and> s \<noteq> ''offline''"
proof -
  let ?grants = "active_grants (or_leases S)"
  have live: "r \<in> live_runs S" using assms(4,5) by (simp add: live_runs_def)
  note G = active_grants_live [OF assms(3)]
  obtain n where "map_of (nodes R) i = Some n" using assms(2) by (metis map_of_eq_None_iff not_None_eq)
  moreover have "leaf_of (w, g) \<in> set (rc_leaves (rn_receipt r))"
    using prepared_leased [OF assms(3,4,6)] assms(7) by auto
  moreover have "leaf_of (w, g) = canonical_id rg" using assms(9,10) by (simp add: leaf_of_def canonical_id_def)
  ultimately have o: "occupies R (rn_receipt r) i" using assms(8) unfolding occupies_def by blast
  have mem: "rn_receipt r \<in> set ?grants" using G(1) live by blast
  obtain ms rec s ls where v: "all_manifests E R = Inr ms" "node_record E ms states ?grants i = Inr rec"
    "dget rec ''occupied_by'' = Some (str_list (sort (map rc_run_id (filter (\<lambda>r. occupies R r i) ?grants))))"
    "dget rec ''display_state'' = Some (PStr s)" "(\<exists>r \<in> set ?grants. occupies R r i) \<longrightarrow> s \<noteq> ''idle'' \<and> s \<noteq> ''offline''"
    using node_record_exact [OF load_Inr [OF assms(1)] assms(2), of states ?grants] by blast
  have "rn_id r \<in> set (sort (map rc_run_id (filter (\<lambda>r. occupies R r i) ?grants)))"
    using mem o G(2) [OF live] by (force simp: image_iff)
  moreover have "\<exists>q \<in> set (or_runs S). rn_id q = x \<and> \<not> is_done q"
    if "x \<in> set (sort (map rc_run_id (filter (\<lambda>r. occupies R r i) ?grants)))" for x
    using that G by (auto simp: live_runs_def)
  ultimately show ?thesis using v mem o by blast
qed

theorem commanded_nodes_shown_occupied_witness:
  "\<exists>ms rec ids s. all_manifests demo_codecs (demo_registry ''COM3'') = Inr ms \<and>
     node_record demo_codecs ms [] (active_grants (or_leases unit_running)) ''cell'' = Inr rec \<and>
     dget rec ''occupied_by'' = Some (str_list ids) \<and> ''a'' \<in> set ids"
proof -
  obtain a b calls t u where r: "or_runs unit_running = [a, b]" "rn_id a = ''a''" "\<not> is_done a" "(''arm'', t) \<in> set (prepared (rn_log a))"
    and t: "track_target t = Inr (''arm'', ''joints'')" by (rule unit_runs)
  have i: "''cell'' \<in> fst ` set (nodes (demo_registry ''COM3''))" by (simp add: demo_nodes)
  have rg: "(case resolve_group (demo_registry ''COM3'') ''cell'' ''left.joints'' of Inr rg \<Rightarrow> (physical_node_id rg, resolved_group_id rg) | _ \<Rightarrow> ([], [])) =
    (''arm'', ''joints'')" by code_simp
  then obtain rg where g: "resolve_group (demo_registry ''COM3'') ''cell'' ''left.joints'' = Inr rg" "physical_node_id rg = ''arm''"
    "resolved_group_id rg = ''joints''" by (auto split: sum.splits)
  have a: "a \<in> set (or_runs unit_running)" using r(1) by simp
  show ?thesis
    using commanded_nodes_shown_occupied [where states = "[]", OF demo_load(1) i unit_reachable a r(3,4) t g] unfolding r(2) by blast
qed

end
