(* ===== verification/Framing.thy ===== *)
theory Framing
  imports PyVal "HOL-Library.Sublist"
begin

text \<open>
  Streams of length-prefixed frames, the shape shared by the worker protocol and the journal
  file. The locale states what one frame's reader has to guarantee and derives what a reading
  loop sees of a stream that was written frame by frame and possibly cut short.
\<close>

text \<open>
  A loop that reads frames until a clean end or an error: the values read and the error, if any.
  The number bounds the iterations; one more than the number of bytes is always enough.
\<close>

fun read_loop :: "(bytes \<Rightarrow> ('v option \<times> bytes) result) \<Rightarrow> nat \<Rightarrow> bytes \<Rightarrow> 'v list \<times> exn option" where
  "read_loop read 0 s = ([], None)"
| "read_loop read (Suc n) s = (case read s of
      Inl e \<Rightarrow> ([], Some e)
    | Inr (None, s') \<Rightarrow> ([], None)
    | Inr (Some v, s') \<Rightarrow> (case read_loop read n s' of (vs, e) \<Rightarrow> (v # vs, e)))"

locale framed_stream =
  fixes good :: "'m \<Rightarrow> bool"
    and frame :: "'m \<Rightarrow> bytes"
    and decoded :: "'m \<Rightarrow> 'v"
    and read :: "bytes \<Rightarrow> ('v option \<times> bytes) result"
    and torn :: exn
  assumes read_whole: "good m \<Longrightarrow> read (frame m @ rest) = Inr (Some (decoded m), rest)"
    and frame_nonempty: "good m \<Longrightarrow> frame m \<noteq> []"
    and read_end: "read [] = Inr (None, [])"
    and read_torn: "good m \<Longrightarrow> 0 < k \<Longrightarrow> k < length (frame m) \<Longrightarrow> read (take k (frame m)) = Inl torn"
begin

definition stream_of :: "'m list \<Rightarrow> bytes" where
  "stream_of ms = concat (map frame ms)"

text \<open>A stream cut after \<open>n\<close> bytes shows the frames that are whole, and then an error unless the cut is at a boundary.\<close>

lemma read_cut_stream:
  assumes "\<forall>m \<in> set ms. good m" "length (take n (stream_of ms)) < fuel"
  shows "\<exists>k \<le> length ms. length (stream_of (take k ms)) \<le> n \<and> (k < length ms \<longrightarrow> n < length (stream_of (take (Suc k) ms))) \<and>
     read_loop read fuel (take n (stream_of ms)) = (map decoded (take k ms),
       if take n (stream_of ms) = stream_of (take k ms) then None else Some torn)"
  using assms
proof (induction ms arbitrary: n fuel)
  case Nil
  then show ?case by (cases fuel) (simp_all add: stream_of_def read_end)
next
  case (Cons m ms)
  have good: "good m" "\<forall>m \<in> set ms. good m" using Cons.prems(1) by auto
  obtain f where f: "fuel = Suc f" using Cons.prems(2) by (cases fuel) auto
  let ?l = "length (frame m)"
  have s: "stream_of (m # ms) = frame m @ stream_of ms" by (simp add: stream_of_def)
  show ?case
  proof (cases "n < ?l")
    case True
    then have t: "take n (stream_of (m # ms)) = take n (frame m)" by (simp add: s)
    show ?thesis
    proof (cases "n = 0")
      case True
      then show ?thesis using frame_nonempty [OF good(1)] by (intro exI [of _ 0]) (simp add: f read_end stream_of_def)
    next
      case False
      with True good(1) have "read (take n (frame m)) = Inl torn" "take n (frame m) \<noteq> []"
        by (auto intro: read_torn)
      then show ?thesis using \<open>n < ?l\<close> unfolding t by (intro exI [of _ 0]) (simp add: f stream_of_def)
    qed
  next
    case False
    define n' where "n' = n - ?l"
    have t: "take n (stream_of (m # ms)) = frame m @ take n' (stream_of ms)"
      using False by (simp add: s n'_def)
    have "frame m \<noteq> []" using good(1) by (rule frame_nonempty)
    then have "length (take n' (stream_of ms)) < f"
      using Cons.prems(2) unfolding t f by (cases "frame m") auto
    then obtain k where k: "k \<le> length ms" "length (stream_of (take k ms)) \<le> n'"
      "k < length ms \<longrightarrow> n' < length (stream_of (take (Suc k) ms))"
      "read_loop read f (take n' (stream_of ms)) = (map decoded (take k ms),
         if take n' (stream_of ms) = stream_of (take k ms) then None else Some torn)"
      using Cons.IH [OF good(2)] by blast
    then show ?thesis unfolding t f using good(1) False
      by (intro exI [of _ "Suc k"]) (auto simp: read_whole stream_of_def n'_def)
  qed
qed

lemma read_whole_stream:
  assumes "\<forall>m \<in> set ms. good m" "length (stream_of ms) < fuel"
  shows "read_loop read fuel (stream_of ms) = (map decoded ms, None)"
  using assms
proof (induction ms arbitrary: fuel)
  case Nil
  then show ?case by (cases fuel) (simp_all add: stream_of_def read_end)
next
  case (Cons m ms)
  then obtain f where f: "fuel = Suc f" by (cases fuel) auto
  have "frame m \<noteq> []" using Cons.prems(1) by (auto dest: frame_nonempty)
  then have "length (stream_of ms) < f" using Cons.prems(2) unfolding f
    by (cases "frame m") (auto simp: stream_of_def)
  with Cons.IH [of f] Cons.prems(1) show ?case by (simp add: f read_whole stream_of_def)
qed

end

end
