(* ===== verification/Ipc.thy ===== *)
theory Ipc
  imports Framing
begin

text \<open>
  The framing and the message schema of the local robot-worker protocol:
  \<^verbatim>\<open>remote_robot/ipc.py\<close>. A stream is the list of the bytes that will arrive before its end, so
  that \<^verbatim>\<open>readexactly\<close> succeeds iff enough bytes are left; reading and writing are functions on it.
\<close>

section \<open>Admissible values\<close>

definition DEFAULT_MAX_FRAME_BYTES :: int where
  "DEFAULT_MAX_FRAME_BYTES = 4 * 1024 * 1024"

definition MAX_VALUE_DEPTH :: nat where
  "MAX_VALUE_DEPTH = 32"

definition PROTOCOL_VERSION :: int where
  "PROTOCOL_VERSION = 1"

definition PROTOCOL_NAME :: string where
  "PROTOCOL_NAME = ''remote-robot-worker''"

fun validate_value :: "pyval \<Rightarrow> nat \<Rightarrow> unit result" where
  "validate_value v depth = raise_if (depth > MAX_VALUE_DEPTH) IPCSchemaError
     (case v of
        PNone \<Rightarrow> Inr ()
      | PStr s \<Rightarrow> Inr ()
      | PBytes b \<Rightarrow> Inr ()
      | PBool b \<Rightarrow> Inr ()
      | PInt n \<Rightarrow> raise_if (\<not> (- (2 ^ 63) \<le> n \<and> n < 2 ^ 63)) IPCSchemaError (Inr ())
      | PFloat f \<Rightarrow> raise_if (\<not> isfinite f) IPCSchemaError (Inr ())
      | PList xs \<Rightarrow> forM (\<lambda>x. validate_value x (depth + 1)) xs
      | PDict d \<Rightarrow> forM (\<lambda>p. if is_str (fst p) then validate_value (snd p) (depth + 1) else Inl IPCSchemaError) d
      | PTuple xs \<Rightarrow> Inl IPCSchemaError
      | POther c \<Rightarrow> Inl IPCSchemaError)"

declare validate_value.simps [simp del]

section \<open>Frames\<close>

definition canonical_payload :: "pyenv \<Rightarrow> pyval \<Rightarrow> bytes result" where
  "canonical_payload E message = (case message of
      PDict d \<Rightarrow> bind (validate_value message 0) (\<lambda>_. cbor_dumps E message)
    | _ \<Rightarrow> Inl IPCSchemaError)"

definition encode_frame :: "pyenv \<Rightarrow> pyval \<Rightarrow> pyval \<Rightarrow> bytes result" where
  "encode_frame E message max_frame_bytes = (case max_frame_bytes of
      PInt limit \<Rightarrow>
        raise_if (limit \<le> 0 \<or> limit > 0xFFFFFFFF) ValueError
        (bind (canonical_payload E message) (\<lambda>payload.
          raise_if (payload = []) IPCSchemaError
          (raise_if (int (length payload) > limit) FrameTooLargeError
            (Inr (pack_u32 (length payload) @ payload)))))
    | _ \<Rightarrow> Inl ValueError)"

definition decode_payload :: "pyenv \<Rightarrow> bytes \<Rightarrow> int \<Rightarrow> pydict result" where
  "decode_payload E payload limit =
     raise_if (payload = []) IPCSchemaError
     (raise_if (int (length payload) > limit) FrameTooLargeError
       (case cbor_loads E payload of
          Inl e \<Rightarrow> Inl IPCSchemaError
        | Inr (PDict d) \<Rightarrow>
            bind (validate_value (PDict d) 0) (\<lambda>_.
            bind (cbor_dumps E (PDict d)) (\<lambda>canonical_form.
              raise_if (canonical_form \<noteq> payload) NonCanonicalFrameError (Inr d)))
        | Inr _ \<Rightarrow> Inl IPCSchemaError))"

definition decode_frame :: "pyenv \<Rightarrow> bytes \<Rightarrow> int \<Rightarrow> pydict result" where
  "decode_frame E frame limit =
     raise_if (length frame < 4) TruncatedFrameError
     (let length_field = unpack_u32 (take 4 frame) in
      raise_if (int length_field > limit) FrameTooLargeError
      (raise_if (length frame < 4 + length_field) TruncatedFrameError
       (raise_if (length frame > 4 + length_field) IPCSchemaError
         (decode_payload E (drop 4 frame) limit))))"

text \<open>The message read, or \<open>None\<close> at a clean end of the stream, and the bytes left.\<close>

definition read_frame :: "pyenv \<Rightarrow> bytes \<Rightarrow> int \<Rightarrow> bool \<Rightarrow> (pydict option \<times> bytes) result" where
  "read_frame E stream limit allow_eof =
     (if length stream < 4 then
        (if allow_eof \<and> stream = [] then Inr (None, []) else Inl TruncatedFrameError)
      else
        (let length_field = unpack_u32 (take 4 stream); stream1 = drop 4 stream in
         raise_if (int length_field > limit) FrameTooLargeError
         (raise_if (length stream1 < length_field) TruncatedFrameError
           (bind (decode_payload E (take length_field stream1) limit) (\<lambda>d.
             Inr (Some d, drop length_field stream1))))))"

text \<open>\<^verbatim>\<open>write_frame\<close> on the bytes written so far.\<close>

definition write_frame :: "pyenv \<Rightarrow> bytes \<Rightarrow> pyval \<Rightarrow> pyval \<Rightarrow> bytes result" where
  "write_frame E written message limit = bind (encode_frame E message limit) (\<lambda>f. Inr (written @ f))"

section \<open>Message schema\<close>

definition expect_exact_keys :: "pydict \<Rightarrow> string list \<Rightarrow> unit result" where
  "expect_exact_keys message required =
     raise_if (\<not> exact_keys message required []) IPCSchemaError (Inr ())"

definition expect_int :: "pyval \<Rightarrow> int \<Rightarrow> unit result" where
  "expect_int v minimum = (case v of
      PInt n \<Rightarrow> raise_if (n < minimum) IPCSchemaError (Inr ())
    | _ \<Rightarrow> Inl IPCSchemaError)"

definition validate_hello :: "pydict \<Rightarrow> unit result" where
  "validate_hello d =
     bind (expect_exact_keys d [''kind'', ''protocol'', ''version'', ''adapter'', ''capabilities'']) (\<lambda>_.
     raise_if (\<not> py_eq (dget_or d ''protocol'' PNone) (PStr PROTOCOL_NAME)) IPCSchemaError
     (bind (expect_int (dget_or d ''version'' PNone) 1) (\<lambda>_.
      raise_if (dget_or d ''version'' PNone \<noteq> PInt PROTOCOL_VERSION) IPCSchemaError
      (raise_if (\<not> is_str (dget_or d ''adapter'' PNone) \<or> dget_or d ''adapter'' PNone = PStr []) IPCSchemaError
       (raise_if (\<not> is_list (dget_or d ''capabilities'' PNone) \<or>
           \<not> list_all is_str (the_list (dget_or d ''capabilities'' PNone))) IPCSchemaError
         (Inr ()))))))"

definition validate_request :: "pydict \<Rightarrow> unit result" where
  "validate_request d =
     bind (expect_exact_keys d [''kind'', ''version'', ''request_id'', ''method'', ''params'']) (\<lambda>_.
     bind (expect_int (dget_or d ''request_id'' PNone) 1) (\<lambda>_.
     raise_if (\<not> is_str (dget_or d ''method'' PNone) \<or> dget_or d ''method'' PNone = PStr []) IPCSchemaError
     (raise_if (\<not> is_dict (dget_or d ''params'' PNone)) IPCSchemaError (Inr ()))))"

definition validate_error_body :: "pyval \<Rightarrow> unit result" where
  "validate_error_body v = (case v of
      PDict e \<Rightarrow>
        raise_if (\<not> exact_keys e [''code'', ''message''] []) IPCSchemaError
        (raise_if (\<not> (is_str (dget_or e ''code'' PNone) \<and> is_str (dget_or e ''message'' PNone))) IPCSchemaError
          (Inr ()))
    | _ \<Rightarrow> Inl IPCSchemaError)"

definition validate_response :: "pydict \<Rightarrow> unit result" where
  "validate_response d =
     bind (if dget_or d ''ok'' PNone = PBool True then
             bind (expect_exact_keys d [''kind'', ''version'', ''request_id'', ''ok'', ''result'']) (\<lambda>_.
             raise_if (\<not> is_dict (dget_or d ''result'' PNone)) IPCSchemaError (Inr ()))
           else if dget_or d ''ok'' PNone = PBool False then
             bind (expect_exact_keys d [''kind'', ''version'', ''request_id'', ''ok'', ''error'']) (\<lambda>_.
             validate_error_body (dget_or d ''error'' PNone))
           else Inl IPCSchemaError) (\<lambda>_.
     expect_int (dget_or d ''request_id'' PNone) 1)"

definition validate_event :: "pydict \<Rightarrow> unit result" where
  "validate_event d =
     bind (expect_exact_keys d [''kind'', ''version'', ''event'']) (\<lambda>_.
     raise_if (\<not> is_dict (dget_or d ''event'' PNone)) IPCSchemaError (Inr ()))"

definition validate_wire_message :: "pyval \<Rightarrow> pydict result" where
  "validate_wire_message message = (case message of
      PDict d \<Rightarrow>
        bind (validate_value message 0) (\<lambda>_.
        case dget_or d ''kind'' PNone of
          PStr k \<Rightarrow>
            if k = ''hello'' then bind (validate_hello d) (\<lambda>_. Inr d)
            else
              bind (expect_int (dget_or d ''version'' PNone) 1) (\<lambda>_.
              raise_if (dget_or d ''version'' PNone \<noteq> PInt PROTOCOL_VERSION) IPCSchemaError
              (if k = ''request'' then bind (validate_request d) (\<lambda>_. Inr d)
               else if k = ''response'' then bind (validate_response d) (\<lambda>_. Inr d)
               else if k = ''event'' then bind (validate_event d) (\<lambda>_. Inr d)
               else Inl IPCSchemaError))
        | _ \<Rightarrow> Inl IPCSchemaError)
    | _ \<Rightarrow> Inl IPCSchemaError)"

section \<open>Which values pass\<close>

text \<open>Nesting depth, and the conditions on one value regardless of what it contains.\<close>

fun vdepth :: "pyval \<Rightarrow> nat" where
  "vdepth (PList xs) = foldr (\<lambda>x m. max (Suc (vdepth x)) m) xs 0"
| "vdepth (PDict d) = foldr (\<lambda>p m. max (Suc (vdepth (snd p))) m) d 0"
| "vdepth _ = 0"

fun wire_scalar :: "pyval \<Rightarrow> bool" where
  "wire_scalar (PInt n) = (- (2 ^ 63) \<le> n \<and> n < 2 ^ 63)"
| "wire_scalar (PFloat f) = isfinite f"
| "wire_scalar (PDict d) = (\<forall>p \<in> set d. is_str (fst p))"
| "wire_scalar (PTuple xs) = False"
| "wire_scalar (POther c) = False"
| "wire_scalar _ = True"

lemma foldr_max_le: "foldr (\<lambda>x m. max (f x) m) xs 0 \<le> (n::nat) \<longleftrightarrow> (\<forall>x \<in> set xs. f x \<le> n)"
  by (induction xs) auto

lemma vdepth_list: "vdepth (PList xs) \<le> n \<longleftrightarrow> (\<forall>x \<in> set xs. Suc (vdepth x) \<le> n)"
  by (simp only: vdepth.simps foldr_max_le)

lemma vdepth_dict: "vdepth (PDict d) \<le> n \<longleftrightarrow> (\<forall>p \<in> set d. Suc (vdepth (snd p)) \<le> n)"
  by (simp only: vdepth.simps foldr_max_le)

lemma subvalue_list_iff: "(\<forall>w. subvalue w (PList xs) \<longrightarrow> P w) \<longleftrightarrow> P (PList xs) \<and> (\<forall>x \<in> set xs. \<forall>w. subvalue w x \<longrightarrow> P w)"
  by (auto simp: subvalue_in_list)

lemma subvalue_dict_iff: "(\<forall>w. subvalue w (PDict d) \<longrightarrow> P w) \<longleftrightarrow> P (PDict d) \<and> (\<forall>p \<in> set d. \<forall>w. subvalue w (snd p) \<longrightarrow> P w)"
proof -
  have "subvalue w (PDict d) \<longleftrightarrow> w = PDict d \<or> (\<exists>p \<in> set d. subvalue w (snd p))" for w
    unfolding subvalue_in_dict [of w d] by force
  then show ?thesis by (simp only:) blast
qed

lemma validate_value_cases: "validate_value v n = Inr () \<or> validate_value v n = Inl IPCSchemaError"
proof -
  have loop: "forM f xs = Inr () \<or> forM f xs = Inl IPCSchemaError"
    if "\<And>x. x \<in> set xs \<Longrightarrow> f x = Inr () \<or> f x = Inl IPCSchemaError" for f :: "'x \<Rightarrow> unit result" and xs
    using that by (induction xs) (auto, fastforce+)
  show ?thesis
  proof (induction v arbitrary: n)
    case (PList xs)
    then show ?case
      using loop [of xs "\<lambda>x. validate_value x (n + 1)"] by (auto simp: validate_value.simps [of "PList xs"] raise_if_def)
  next
    case (PDict d)
    have "(if is_str (fst p) then validate_value (snd p) (n + 1) else Inl IPCSchemaError) = Inr () \<or>
        (if is_str (fst p) then validate_value (snd p) (n + 1) else Inl IPCSchemaError) = Inl IPCSchemaError"
      if "p \<in> set d" for p
      using PDict [of p "snd p" "n + 1"] that by (auto simp: snds.simps)
    from loop [of d, OF this] show ?case
      by (auto simp: validate_value.simps [of "PDict d"] raise_if_def)
  qed (auto simp: validate_value.simps raise_if_def)
qed

lemma validate_value_list: "validate_value (PList xs) n = Inr () \<longleftrightarrow>
    n \<le> MAX_VALUE_DEPTH \<and> (\<forall>x \<in> set xs. validate_value x (n + 1) = Inr ())"
  by (auto simp: validate_value.simps [of "PList xs"] forM_Inr_iff)

lemma validate_value_dict: "validate_value (PDict d) n = Inr () \<longleftrightarrow>
    n \<le> MAX_VALUE_DEPTH \<and> (\<forall>p \<in> set d. is_str (fst p) \<and> validate_value (snd p) (n + 1) = Inr ())"
  by (auto simp: validate_value.simps [of "PDict d"] forM_Inr_iff)

lemma validate_value_spec:
  "validate_value v n = Inr () \<longleftrightarrow>
     n + vdepth v \<le> MAX_VALUE_DEPTH \<and> (\<forall>w. subvalue w v \<longrightarrow> wire_scalar w)"
proof (induction v arbitrary: n)
  case (PList xs)
  have "n + vdepth (PList xs) \<le> MAX_VALUE_DEPTH \<longleftrightarrow>
      n \<le> MAX_VALUE_DEPTH \<and> vdepth (PList xs) \<le> MAX_VALUE_DEPTH - n" by linarith
  with PList show ?case unfolding validate_value_list subvalue_list_iff vdepth_list by fastforce
next
  case (PDict d)
  have "n + vdepth (PDict d) \<le> MAX_VALUE_DEPTH \<longleftrightarrow>
      n \<le> MAX_VALUE_DEPTH \<and> vdepth (PDict d) \<le> MAX_VALUE_DEPTH - n" by linarith
  moreover have "validate_value (snd p) (n + 1) = Inr () \<longleftrightarrow>
     n + 1 + vdepth (snd p) \<le> MAX_VALUE_DEPTH \<and> (\<forall>w. subvalue w (snd p) \<longrightarrow> wire_scalar w)" if "p \<in> set d" for p
    using PDict [of p "snd p"] that by (auto simp: snds.simps)
  ultimately show ?case unfolding validate_value_dict subvalue_dict_iff vdepth_dict by fastforce
next
  case (PTuple xs)
  then show ?case by (auto simp: validate_value.simps intro: subvalue_refl)
qed (auto simp: validate_value.simps)

text \<open>
  What may cross the process boundary. A value passes the check iff it is nested at most 32
  levels deep and, at every level, integers are signed 64-bit, floats are finite, mapping keys
  are strings and no other type (tuples and foreign objects included) occurs; a value that does
  not pass raises \<^verbatim>\<open>IPCSchemaError\<close> and nothing else.
\<close>

theorem wire_value_characterised:
  "validate_value v 0 = (if vdepth v \<le> 32 \<and> (\<forall>w. subvalue w v \<longrightarrow> wire_scalar w)
     then Inr () else Inl IPCSchemaError)"
  using validate_value_cases [of v 0] validate_value_spec [of v 0] by (auto simp: MAX_VALUE_DEPTH_def)

section \<open>Frames written and read\<close>

lemma validate_value_canon: "validate_value v n = Inr () \<Longrightarrow> validate_value (canon v) n = Inr ()"
proof (induction v arbitrary: n)
  case (PList xs)
  then show ?case by (simp add: validate_value_list)
next
  case (PDict d)
  have "is_str (fst p) \<and> validate_value (canon (snd p)) (n + 1) = Inr ()" if "p \<in> set d" for p
    using PDict.IH [of p "snd p" "n + 1"] PDict.prems that by (auto simp: validate_value_dict snds.simps)
  with PDict.prems show ?case by (auto simp: validate_value_dict)
next
  case (PTuple xs)
  then show ?case by (simp add: validate_value.simps)
qed simp_all

definition wire_frame :: "pyenv \<Rightarrow> int \<Rightarrow> pyval \<Rightarrow> bytes" where
  "wire_frame E limit m = (case encode_frame E m (PInt limit) of Inl e \<Rightarrow> [] | Inr f \<Rightarrow> f)"

definition sendable :: "pyenv \<Rightarrow> int \<Rightarrow> pyval \<Rightarrow> bool" where
  "sendable E limit m \<longleftrightarrow> codec_at E m \<and> ok (encode_frame E m (PInt limit))"

lemma encode_frame_Inr:
  assumes "encode_frame E m (PInt limit) = Inr f"
  obtains d payload where "m = PDict d" "validate_value m 0 = Inr ()" "cbor_dumps E m = Inr payload"
    "payload \<noteq> []" "int (length payload) \<le> limit" "limit \<le> 0xFFFFFFFF" "f = pack_u32 (length payload) @ payload"
    "unpack_u32 (pack_u32 (length payload)) = length payload"
proof -
  obtain d where d: "m = PDict d"
    using assms by (cases m) (auto simp: encode_frame_def canonical_payload_def)
  with assms obtain payload where p: "validate_value m 0 = Inr ()" "cbor_dumps E m = Inr payload"
    "payload \<noteq> []" "int (length payload) \<le> limit" "limit \<le> 0xFFFFFFFF" "f = pack_u32 (length payload) @ payload"
    by (auto simp: encode_frame_def canonical_payload_def)
  then have "length payload < 2 ^ 32" by simp
  with that d p show thesis by (simp add: unpack_pack_u32)
qed

lemma decode_payload_sent:
  assumes "codec_at E (PDict d)" "validate_value (PDict d) 0 = Inr ()" "cbor_dumps E (PDict d) = Inr payload"
    "int (length payload) \<le> limit"
  shows "decode_payload E payload limit = Inr (the_dict (canon (PDict d)))"
proof -
  obtain c where c: "canon (PDict d) = PDict c" by simp
  from assms(1,3) c have "payload \<noteq> []" "cbor_loads E payload = Inr (PDict c)" "cbor_dumps E (PDict c) = Inr payload"
    by (auto simp: codec_at_def)
  with validate_value_canon [OF assms(2)] assms(4) show ?thesis
    unfolding c by (simp add: decode_payload_def)
qed

lemma sendable_frame:
  assumes "sendable E limit m"
  obtains d payload where "m = PDict d" "wire_frame E limit m = pack_u32 (length payload) @ payload"
    "int (length payload) \<le> limit" "payload \<noteq> []"
    "unpack_u32 (pack_u32 (length payload)) = length payload"
    "decode_payload E payload limit = Inr (the_dict (canon m))"
proof -
  from assms obtain f where f: "encode_frame E m (PInt limit) = Inr f" by (auto simp: sendable_def ok_iff)
  show thesis
    by (rule encode_frame_Inr [OF f])
       (use that f assms decode_payload_sent in \<open>auto simp: sendable_def wire_frame_def\<close>)
qed

lemma read_sent_frame:
  assumes "sendable E limit m"
  shows "read_frame E (wire_frame E limit m @ rest) limit True = Inr (Some (the_dict (canon m)), rest)"
  by (rule sendable_frame [OF assms]) (simp add: read_frame_def Let_def)

lemma read_torn_frame:
  assumes "sendable E limit m" "0 < k" "k < length (wire_frame E limit m)"
  shows "read_frame E (take k (wire_frame E limit m)) limit True = Inl TruncatedFrameError"
proof (rule sendable_frame [OF assms(1)])
  fix payload
  assume p: "wire_frame E limit m = pack_u32 (length payload) @ payload" "int (length payload) \<le> limit"
    "unpack_u32 (pack_u32 (length payload)) = length payload"
  have ne: "take k (wire_frame E limit m) \<noteq> []" using assms(2,3) by auto
  show ?thesis
  proof (cases "k < 4")
    case True
    then have "length (take k (wire_frame E limit m)) < 4" by simp
    with ne show ?thesis unfolding read_frame_def by (simp only: if_True if_False simp_thms)
  next
    case False
    then have "take 4 (take k (wire_frame E limit m)) = pack_u32 (length payload)" by (simp add: p(1) min_def)
    moreover have "k - 4 < length payload" using False assms(3) p(1) by simp
    ultimately show ?thesis using False assms(3) p by (simp add: read_frame_def Let_def del: take_take)
  qed
qed

interpretation wire: framed_stream "sendable E limit" "wire_frame E limit" "\<lambda>m. the_dict (canon m)"
    "\<lambda>s. read_frame E s limit True" TruncatedFrameError for E limit
proof unfold_locales
  fix m show "sendable E limit m \<Longrightarrow> wire_frame E limit m \<noteq> []"
    by (erule sendable_frame) simp
next
  show "read_frame E [] limit True = Inr (None, [])" by (simp add: read_frame_def)
qed (auto intro: read_sent_frame read_torn_frame)

text \<open>
  Frame round trip. A frame that \<^verbatim>\<open>encode_frame\<close> produced decodes, with the same limit, to the
  message it was made from (keys in canonical order), provided the CBOR codec decodes what it
  encoded.
\<close>

theorem frame_roundtrip:
  assumes "codec_at E m" "encode_frame E m (PInt limit) = Inr f"
  shows "decode_frame E f limit = Inr (the_dict (canon m))"
proof (rule sendable_frame [of E limit m])
  show "sendable E limit m" using assms by (simp add: sendable_def)
qed (use assms in \<open>auto simp: wire_frame_def decode_frame_def Let_def\<close>)

text \<open>
  Only canonical frames are accepted. Every frame that \<^verbatim>\<open>decode_frame\<close> accepts is the very
  byte string \<^verbatim>\<open>encode_frame\<close> makes of the decoded message, so no two different frames carry the
  same message; nothing is assumed of the codec.
\<close>

theorem accepted_frame_is_canonical:
  assumes "decode_frame E f limit = Inr d" "limit \<le> 0xFFFFFFFF"
  shows "encode_frame E (PDict d) (PInt limit) = Inr f"
proof -
  let ?n = "unpack_u32 (take 4 f)"
  from assms(1) have len: "4 \<le> length f" "length f = 4 + ?n" and dp: "decode_payload E (drop 4 f) limit = Inr d"
    by (auto simp: decode_frame_def Let_def)
  from dp obtain v where v: "cbor_loads E (drop 4 f) = Inr v" "drop 4 f \<noteq> []" "int (length (drop 4 f)) \<le> limit"
    by (cases "cbor_loads E (drop 4 f)") (auto simp: decode_payload_def)
  with dp have p: "validate_value (PDict d) 0 = Inr ()" "cbor_dumps E (PDict d) = Inr (drop 4 f)"
    by (cases v; auto simp: decode_payload_def)+
  have "pack_u32 (length (drop 4 f)) = take 4 f"
    using len pack_unpack_u32 [of "take 4 f"] by simp
  moreover have "0 < length (drop 4 f)" using v(2) by (rule length_greater_0_conv [THEN iffD2])
  then have "0 < limit" using v(3) by linarith
  ultimately show ?thesis using p v(2,3) assms(2)
    by (auto simp: encode_frame_def canonical_payload_def raise_if_def simp del: length_drop)
qed

text \<open>
  C16. Streams. Messages written one after another to a pipe are read back in order. If the
  writer dies and only the first \<open>n\<close> bytes arrive, the reader gets exactly the messages whose
  frames are complete: the first \<open>k\<close> of them fit into \<open>n\<close> bytes, and one more does not. Then there is a clean end iff the cut falls between two frames, and
  \<^verbatim>\<open>TruncatedFrameError\<close> otherwise. Reading always ends: one iteration more than there are bytes
  suffices.
\<close>

theorem stream_of_frames_read_back:
  assumes "\<forall>m \<in> set ms. codec_at E m \<and> encode_frame E m (PInt limit) = Inr (frame m)"
    and "stream = concat (map frame ms)"
  shows "read_loop (\<lambda>s. read_frame E s limit True) (length stream + 1) stream = (map (\<lambda>m. the_dict (canon m)) ms, None)
    \<and> (\<forall>n. \<exists>k \<le> length ms. length (concat (map frame (take k ms))) \<le> n \<and>
        (k < length ms \<longrightarrow> n < length (concat (map frame (take (Suc k) ms)))) \<and>
        read_loop (\<lambda>s. read_frame E s limit True) (n + 1) (take n stream) =
          (map (\<lambda>m. the_dict (canon m)) (take k ms),
           if take n stream = concat (map frame (take k ms)) then None else Some TruncatedFrameError))"
proof -
  have good: "\<forall>m \<in> set ms. sendable E limit m" using assms(1) by (simp add: sendable_def)
  have f: "wire_frame E limit m = frame m" if "m \<in> set ms" for m
    using assms(1) that by (simp add: wire_frame_def)
  then have s: "wire.stream_of E limit (take k ms) = concat (map frame (take k ms))" for k
    unfolding wire.stream_of_def by (metis (mono_tags, lifting) in_set_takeD map_eq_conv)
  have all: "wire.stream_of E limit ms = stream" using s [of "length ms"] assms(2) by simp
  have "read_loop (\<lambda>s. read_frame E s limit True) (length stream + 1) stream = (map (\<lambda>m. the_dict (canon m)) ms, None)"
    using wire.read_whole_stream [OF good, of "length stream + 1"] by (simp add: all)
  moreover have "\<exists>k \<le> length ms. length (concat (map frame (take k ms))) \<le> n \<and>
        (k < length ms \<longrightarrow> n < length (concat (map frame (take (Suc k) ms)))) \<and>
        read_loop (\<lambda>s. read_frame E s limit True) (n + 1) (take n stream) =
          (map (\<lambda>m. the_dict (canon m)) (take k ms),
           if take n stream = concat (map frame (take k ms)) then None else Some TruncatedFrameError)" for n
    using wire.read_cut_stream [OF good, of n "n + 1"] unfolding all s by simp
  ultimately show ?thesis by blast
qed

section \<open>The message grammar\<close>

text \<open>What the protocol's messages mean, and the mapping that carries each of them.\<close>

datatype wire_message =
    Hello string "string list"
  | Request int string pydict
  | Result int pydict
  | Failure int string string
  | Event pydict

fun wire_ok :: "wire_message \<Rightarrow> bool" where
  "wire_ok (Hello adapter capabilities) = (adapter \<noteq> [])"
| "wire_ok (Request n method_name params) = (1 \<le> n \<and> method_name \<noteq> [])"
| "wire_ok (Result n r) = (1 \<le> n)"
| "wire_ok (Failure n code msg) = (1 \<le> n)"
| "wire_ok (Event e) = True"

fun wire_items :: "wire_message \<Rightarrow> (string \<times> (pyval \<Rightarrow> bool)) list" where
  "wire_items (Hello adapter capabilities) = [(''kind'', \<lambda>v. v = PStr ''hello''), (''protocol'', \<lambda>v. v = PStr ''remote-robot-worker''),
     (''version'', \<lambda>v. v = PInt 1), (''adapter'', \<lambda>v. v = PStr adapter), (''capabilities'', \<lambda>v. v = PList (map PStr capabilities))]"
| "wire_items (Request n method_name params) = [(''kind'', \<lambda>v. v = PStr ''request''), (''version'', \<lambda>v. v = PInt 1),
     (''request_id'', \<lambda>v. v = PInt n), (''method'', \<lambda>v. v = PStr method_name), (''params'', \<lambda>v. v = PDict params)]"
| "wire_items (Result n r) = [(''kind'', \<lambda>v. v = PStr ''response''), (''version'', \<lambda>v. v = PInt 1),
     (''request_id'', \<lambda>v. v = PInt n), (''ok'', \<lambda>v. v = PBool True), (''result'', \<lambda>v. v = PDict r)]"
| "wire_items (Failure n code msg) = [(''kind'', \<lambda>v. v = PStr ''response''), (''version'', \<lambda>v. v = PInt 1),
     (''request_id'', \<lambda>v. v = PInt n), (''ok'', \<lambda>v. v = PBool False),
     (''error'', \<lambda>v. \<exists>e. v = PDict e \<and> exact_keys e [''code'', ''message''] [] \<and>
        dget e ''code'' = Some (PStr code) \<and> dget e ''message'' = Some (PStr msg))]"
| "wire_items (Event e) = [(''kind'', \<lambda>v. v = PStr ''event''), (''version'', \<lambda>v. v = PInt 1), (''event'', \<lambda>v. v = PDict e)]"

text \<open>The mapping has exactly the message's fields, with values as the message says.\<close>

definition carries :: "pydict \<Rightarrow> wire_message \<Rightarrow> bool" where
  "carries d w \<longleftrightarrow> exact_keys d (map fst (wire_items w)) [] \<and>
     (\<forall>(k, test) \<in> set (wire_items w). \<exists>v. dget d k = Some v \<and> test v)"

lemma expect_int_Inr: "expect_int v m = Inr () \<longleftrightarrow> (\<exists>n. v = PInt n \<and> m \<le> n)"
  by (cases v) (auto simp: expect_int_def)

lemma expect_exact_keys_Inr: "expect_exact_keys d ks = Inr () \<longleftrightarrow> exact_keys d ks []"
  by (simp add: expect_exact_keys_def)

lemma is_str_iff: "is_str v \<longleftrightarrow> (\<exists>s. v = PStr s)"
  by (cases v) auto

lemma is_dict_iff: "is_dict v \<longleftrightarrow> (\<exists>d. v = PDict d)"
  by (cases v) auto

lemma is_str_list_iff: "is_list v \<and> list_all is_str (the_list v) \<longleftrightarrow> (\<exists>ss. v = PList (map PStr ss))"
proof -
  have "list_all is_str xs \<longleftrightarrow> (\<exists>ss. xs = map PStr ss)" for xs
    by (induction xs) (auto simp: is_str_iff Cons_eq_map_conv)
  then show ?thesis by (cases v) auto
qed

lemma dget_or_iff: "v \<noteq> PNone \<Longrightarrow> dget_or d k PNone = v \<longleftrightarrow> dget d k = Some v"
  by (auto simp: dget_or_def split: option.splits)

lemma validate_hello_iff:
  "dget d ''kind'' = Some (PStr ''hello'') \<Longrightarrow>
   validate_hello d = Inr () \<longleftrightarrow> (\<exists>a c. wire_ok (Hello a c) \<and> carries d (Hello a c))"
  unfolding validate_hello_def carries_def
  by (auto simp: expect_int_Inr expect_exact_keys_Inr is_str_iff py_eq_str_right PROTOCOL_NAME_def PROTOCOL_VERSION_def
      is_str_list_iff dget_or_iff simp flip: de_Morgan_conj)

lemma validate_request_iff:
  "dget d ''kind'' = Some (PStr ''request'') \<Longrightarrow> dget d ''version'' = Some (PInt 1) \<Longrightarrow>
   validate_request d = Inr () \<longleftrightarrow> (\<exists>n s p. wire_ok (Request n s p) \<and> carries d (Request n s p))"
  unfolding validate_request_def carries_def
  by (auto simp: expect_int_Inr expect_exact_keys_Inr is_str_iff is_dict_iff dget_or_iff)

lemma validate_event_iff:
  "dget d ''kind'' = Some (PStr ''event'') \<Longrightarrow> dget d ''version'' = Some (PInt 1) \<Longrightarrow>
   validate_event d = Inr () \<longleftrightarrow> (\<exists>e. wire_ok (Event e) \<and> carries d (Event e))"
  unfolding validate_event_def carries_def
  by (auto simp: expect_exact_keys_Inr is_dict_iff dget_or_iff)

lemma validate_error_body_iff:
  "validate_error_body v = Inr () \<longleftrightarrow> (\<exists>e c m. v = PDict e \<and> exact_keys e [''code'', ''message''] [] \<and>
     dget e ''code'' = Some (PStr c) \<and> dget e ''message'' = Some (PStr m))"
  by (cases v) (auto simp: validate_error_body_def is_str_iff dget_or_iff)

lemma validate_response_iff:
  "dget d ''kind'' = Some (PStr ''response'') \<Longrightarrow> dget d ''version'' = Some (PInt 1) \<Longrightarrow>
   validate_response d = Inr () \<longleftrightarrow>
     (\<exists>n r. wire_ok (Result n r) \<and> carries d (Result n r)) \<or> (\<exists>n c m. wire_ok (Failure n c m) \<and> carries d (Failure n c m))"
  unfolding validate_response_def carries_def
  by (auto simp: expect_int_Inr expect_exact_keys_Inr validate_error_body_iff is_dict_iff dget_or_iff)

lemma expect_errors:
  "expect_int v m = Inr () \<or> expect_int v m = Inl IPCSchemaError"
  "expect_exact_keys d ks = Inr () \<or> expect_exact_keys d ks = Inl IPCSchemaError"
  by (cases v) (auto simp: expect_int_def expect_exact_keys_def raise_if_def)

lemma validator_errors:
  "validate_hello d = Inr () \<or> validate_hello d = Inl IPCSchemaError"
  "validate_request d = Inr () \<or> validate_request d = Inl IPCSchemaError"
  "validate_response d = Inr () \<or> validate_response d = Inl IPCSchemaError"
  "validate_event d = Inr () \<or> validate_event d = Inl IPCSchemaError"
proof -
  have seq: "bind r f = Inr () \<or> bind r f = Inl IPCSchemaError"
    if "r = Inr () \<or> r = Inl IPCSchemaError" "f () = Inr () \<or> f () = Inl IPCSchemaError" for r f
    using that by auto
  have grd: "raise_if b IPCSchemaError r = Inr () \<or> raise_if b IPCSchemaError r = Inl IPCSchemaError"
    if "r = Inr () \<or> r = Inl IPCSchemaError" for b and r :: "unit result"
    using that by (simp add: raise_if_def)
  have ite: "(if b then r else r') = Inr () \<or> (if b then r else r') = Inl IPCSchemaError"
    if "r = Inr () \<or> r = Inl IPCSchemaError" "r' = Inr () \<or> r' = Inl IPCSchemaError" for b and r r' :: "unit result"
    using that by simp
  have err: "validate_error_body v = Inr () \<or> validate_error_body v = Inl IPCSchemaError" for v
    by (cases v) (simp_all add: validate_error_body_def raise_if_def)
  note rules = seq grd ite expect_errors err
  show "validate_hello d = Inr () \<or> validate_hello d = Inl IPCSchemaError"
    unfolding validate_hello_def by (intro rules disjI1 [OF refl])
  show "validate_request d = Inr () \<or> validate_request d = Inl IPCSchemaError"
    unfolding validate_request_def by (intro rules disjI1 [OF refl])
  show "validate_event d = Inr () \<or> validate_event d = Inl IPCSchemaError"
    unfolding validate_event_def by (intro rules disjI1 [OF refl])
  show "validate_response d = Inr () \<or> validate_response d = Inl IPCSchemaError"
    unfolding validate_response_def by (intro rules disjI1 [OF refl] disjI2 [OF refl])
qed

lemma carries_kind: "carries d w \<Longrightarrow> dget d ''kind'' = Some (PStr (case w of
    Hello a c \<Rightarrow> ''hello'' | Request n s p \<Rightarrow> ''request'' | Result n r \<Rightarrow> ''response''
  | Failure n c m \<Rightarrow> ''response'' | Event e \<Rightarrow> ''event''))"
  by (cases w) (auto simp: carries_def)

lemma carries_version: "carries d w \<Longrightarrow> dget d ''version'' = Some (PInt 1)"
  by (cases w) (auto simp: carries_def)

lemma wire_message_no_kind:
  assumes "\<not> (\<exists>k. dget d ''kind'' = Some (PStr k))"
  shows "validate_wire_message (PDict d) = Inl IPCSchemaError"
proof -
  have "(case dget_or d ''kind'' PNone of PStr k \<Rightarrow> f k | _ \<Rightarrow> Inl IPCSchemaError) = Inl IPCSchemaError" for f :: "string \<Rightarrow> pydict result"
    using assms by (auto simp: dget_or_def split: option.splits pyval.splits)
  then show ?thesis
    using validate_value_cases [of "PDict d" 0] unfolding validate_wire_message_def by auto
qed

lemma wire_message_by_kind:
  assumes "dget d ''kind'' = Some (PStr k)"
  shows "validate_wire_message (PDict d) = bind (validate_value (PDict d) 0) (\<lambda>_.
     bind (if k = ''hello'' then validate_hello d
           else if dget d ''version'' \<noteq> Some (PInt 1) then Inl IPCSchemaError
           else if k = ''request'' then validate_request d
           else if k = ''response'' then validate_response d
           else if k = ''event'' then validate_event d
           else Inl IPCSchemaError) (\<lambda>_. Inr d))"
proof -
  have kind: "dget_or d ''kind'' PNone = PStr k" using assms by (simp add: dget_or_iff)
  have ver: "bind (expect_int (dget_or d ''version'' PNone) 1) (\<lambda>_.
      raise_if (dget_or d ''version'' PNone \<noteq> PInt PROTOCOL_VERSION) IPCSchemaError r) =
      (if dget d ''version'' \<noteq> Some (PInt 1) then Inl IPCSchemaError else r)" for r :: "pydict result"
    by (auto simp: raise_if_def expect_int_def PROTOCOL_VERSION_def dget_or_def split: option.splits pyval.splits)
  show ?thesis unfolding validate_wire_message_def pyval.case kind ver
    by (cases "validate_value (PDict d) 0") (simp_all only: bind_simps, simp)
qed

lemma validate_wire_message_Inr:
  "validate_wire_message (PDict d) = Inr d \<longleftrightarrow>
     validate_value (PDict d) 0 = Inr () \<and> (\<exists>w. wire_ok w \<and> carries d w)"
proof (cases "\<exists>k. dget d ''kind'' = Some (PStr k)")
  case False
  then show ?thesis using carries_kind wire_message_no_kind by auto
next
  case True
  then obtain k where k: "dget d ''kind'' = Some (PStr k)" by blast
  have w: "(\<exists>w. wire_ok w \<and> carries d w) \<longleftrightarrow>
      k = ''hello'' \<and> (\<exists>a c. wire_ok (Hello a c) \<and> carries d (Hello a c)) \<or>
      dget d ''version'' = Some (PInt 1) \<and>
        (k = ''request'' \<and> (\<exists>n s p. wire_ok (Request n s p) \<and> carries d (Request n s p)) \<or>
         k = ''response'' \<and> ((\<exists>n r. wire_ok (Result n r) \<and> carries d (Result n r)) \<or>
            (\<exists>n c m. wire_ok (Failure n c m) \<and> carries d (Failure n c m))) \<or>
         k = ''event'' \<and> (\<exists>e. wire_ok (Event e) \<and> carries d (Event e)))" (is "?l \<longleftrightarrow> ?r")
  proof
    assume ?l
    then obtain w where w: "wire_ok w" "carries d w" by blast
    with carries_kind [OF w(2)] carries_version [OF w(2)] k show ?r by (cases w) auto
  qed blast
  show ?thesis
    unfolding w wire_message_by_kind [OF k]
    using k validate_hello_iff [of d] validate_request_iff [of d] validate_response_iff [of d] validate_event_iff [of d]
    by (auto split: if_splits)
qed

text \<open>
  The message grammar. A mapping is accepted as a wire message iff its values may cross the
  boundary and it is, field for field and without any further field, one of the five messages of
  the protocol: a hello of version 1, a request or a response with a positive id and a non-empty
  method, a success with a result mapping or a failure with a code and a message, or an event.
  It is returned unchanged; everything else raises \<^verbatim>\<open>IPCSchemaError\<close>.
\<close>

theorem wire_message_grammar:
  "validate_wire_message (PDict d) =
     (if validate_value (PDict d) 0 = Inr () \<and> (\<exists>w. wire_ok w \<and> carries d w)
      then Inr d else Inl IPCSchemaError)"
proof (cases "validate_value (PDict d) 0 = Inr () \<and> (\<exists>w. wire_ok w \<and> carries d w)")
  case True
  then show ?thesis using validate_wire_message_Inr [of d] by simp
next
  case False
  have "validate_wire_message (PDict d) = Inr d \<or> validate_wire_message (PDict d) = Inl IPCSchemaError"
  proof (cases "\<exists>k. dget d ''kind'' = Some (PStr k)")
    case True
    then obtain k where k: "dget d ''kind'' = Some (PStr k)" by blast
    define r where "r = (if k = ''hello'' then validate_hello d
           else if dget d ''version'' \<noteq> Some (PInt 1) then Inl IPCSchemaError
           else if k = ''request'' then validate_request d
           else if k = ''response'' then validate_response d
           else if k = ''event'' then validate_event d
           else Inl IPCSchemaError)"
    have "r = Inr () \<or> r = Inl IPCSchemaError"
      unfolding r_def using validator_errors [of d] by (simp split: if_split)
    then show ?thesis unfolding wire_message_by_kind [OF k] r_def [symmetric]
      using validate_value_cases [of "PDict d" 0] by auto
  qed (simp add: wire_message_no_kind)
  with False show ?thesis using validate_wire_message_Inr [of d] by auto
qed

section \<open>Instances\<close>

definition ping :: pyval where
  "ping = mkdict [(''kind'', PStr ''request''), (''version'', PInt 1), (''request_id'', PInt 1),
     (''method'', PStr ''ping''), (''params'', PDict [])]"

definition ping_env :: pyenv where
  "ping_env = \<lparr>
     cbor_dumps = (\<lambda>v. if v = ping \<or> v = canon ping then Inr [1, 2] else Inl TypeError),
     cbor_loads = (\<lambda>b. if b = [1, 2] then Inr (canon ping) else Inl ValueError),
     sha256 = (\<lambda>b. []), json_dumps = (\<lambda>v. []), json_loads = (\<lambda>s. Inl ValueError), py_repr = (\<lambda>v. []), float_of_str = (\<lambda>s. Inl ValueError)\<rparr>"

lemma ping_codec: "codec_at ping_env ping"
  by (simp add: codec_at_def ping_env_def)

lemma ping_frame: "encode_frame ping_env ping (PInt 10) = Inr [0, 0, 0, 2, 1, 2]"
  by code_simp

theorem wire_value_characterised_witness:
  "validate_value ping 0 = Inr () \<and> vdepth ping \<le> 32 \<and> wire_scalar (PStr ''ping'')"
proof -
  have p: "validate_value ping 0 = Inr ()" by code_simp
  have "subvalue (PStr ''ping'') ping" unfolding ping_def mkdict_def
    by (simp add: subvalue_in_dict) (rule exI [of _ "PStr ''ping''"], simp add: subvalue_refl)
  with p wire_value_characterised [of ping] show ?thesis by (auto split: if_splits)
qed

theorem frame_roundtrip_witness: "decode_frame ping_env [0, 0, 0, 2, 1, 2] 10 = Inr (the_dict (canon ping))"
  by (rule frame_roundtrip [OF ping_codec ping_frame])

theorem accepted_frame_is_canonical_witness:
  "encode_frame ping_env (canon ping) (PInt 10) = Inr [0, 0, 0, 2, 1, 2]"
proof -
  have "decode_frame ping_env [0, 0, 0, 2, 1, 2] 10 = Inr (the_dict (canon ping))" by code_simp
  from accepted_frame_is_canonical [OF this] show ?thesis by (simp add: ping_def mkdict_def)
qed

theorem stream_of_frames_read_back_witness:
  "read_loop (\<lambda>s. read_frame ping_env s 10 True) (12 + 1) [0, 0, 0, 2, 1, 2, 0, 0, 0, 2, 1, 2] =
     ([the_dict (canon ping), the_dict (canon ping)], None)"
proof -
  have "\<forall>m \<in> set [ping, ping]. codec_at ping_env m \<and> encode_frame ping_env m (PInt 10) = Inr [0, 0, 0, 2, 1, 2]"
    using ping_codec ping_frame by simp
  from stream_of_frames_read_back [OF this refl, THEN conjunct1] show ?thesis
    by (simp del: read_loop.simps add: eval_nat_numeral)
qed

end
