(* ===== verification/Worker.thy ===== *)
theory Worker
  imports Ipc Model
begin

text \<open>
  The worker that executes the phases of one physical node: \<^verbatim>\<open>InMemoryWorker\<close> of
  \<^verbatim>\<open>remote_robot/worker.py\<close>. Its calls run without interruption, because the worker process serves
  one request after the other; only the task that executes a phase interleaves with them, and it
  advances from one sleep to the next. A cancelled task never runs again, even if its sleep has
  ended, so cancelling it and awaiting it is one step. Clock readings are arguments.
\<close>

section \<open>The state of a worker\<close>

datatype worker_status = Created | Disabled | Prepared | Scheduled | Running | Completed | Stopped | Closed

fun status_name :: "worker_status \<Rightarrow> string" where
  "status_name Created = ''created''" | "status_name Disabled = ''disabled''" | "status_name Prepared = ''prepared''"
| "status_name Scheduled = ''scheduled''" | "status_name Running = ''running''" | "status_name Completed = ''completed''"
| "status_name Stopped = ''stopped''" | "status_name Closed = ''closed''"

text \<open>The phase task before its first step, in the sleep before the start, and in the sleep that is the motion.\<close>

datatype phase_task = Entered int | Delayed int | Moving int int

record worker =
  wk_adapter :: string
  wk_event_limit :: int
  wk_events :: "pydict list"
  wk_status :: worker_status
  wk_plan :: "pydict option"
  wk_deadline :: "int option"
  wk_last_stop :: "pydict option"
  wk_task :: "phase_task option"

definition InMemoryWorker :: "string \<Rightarrow> int \<Rightarrow> worker result" where
  "InMemoryWorker adapter_name event_limit = raise_if (event_limit \<le> 0) ValueError
     (Inr \<lparr>wk_adapter = adapter_name, wk_event_limit = event_limit, wk_events = [], wk_status = Created, wk_plan = None,
           wk_deadline = None, wk_last_stop = None, wk_task = None\<rparr>)"

definition data_copy :: "pyenv \<Rightarrow> pyval \<Rightarrow> pydict result" where
  "data_copy E v = bind (canonical_payload E v) (\<lambda>payload. decode_payload E payload DEFAULT_MAX_FRAME_BYTES)"

definition emit :: "pyenv \<Rightarrow> worker \<Rightarrow> pyval \<Rightarrow> unit result \<times> worker" where
  "emit E w event = (case data_copy E event of
      Inl e \<Rightarrow> (Inl e, w)
    | Inr d \<Rightarrow> if wk_event_limit w \<le> int (length (wk_events w)) then (Inl WorkerError, w)
               else (Inr (), w\<lparr>wk_events := wk_events w @ [d]\<rparr>))"

definition plan_or_empty :: "worker \<Rightarrow> pydict" where
  "plan_or_empty w = (case wk_plan w of None \<Rightarrow> [] | Some d \<Rightarrow> d)"

definition phase_identity :: "pyenv \<Rightarrow> worker \<Rightarrow> (string \<times> pyval) list" where
  "phase_identity E w = map (\<lambda>k. (k, PStr (py_str E (dget_or (plan_or_empty w) k (PStr []))))) [''run_id'', ''phase_id'', ''phase_execution_id'']"

text \<open>A reply that is also emitted as an event of the given type.\<close>

definition reply :: "pyenv \<Rightarrow> worker \<Rightarrow> string \<Rightarrow> (string \<times> pyval) list \<Rightarrow> pyval result \<times> worker" where
  "reply E w event_kind result = (case emit E w (mkdict ((''type'', PStr event_kind) # result)) of
      (Inl e, w') \<Rightarrow> (Inl e, w')
    | (Inr u, w') \<Rightarrow> (Inr (mkdict result), w'))"

section \<open>Calls\<close>

definition prepare_disabled :: "pyenv \<Rightarrow> worker \<Rightarrow> pyval result \<times> worker" where
  "prepare_disabled E w =
     (if wk_status w = Closed then (Inl WorkerClosedError, w)
      else if wk_status w \<in> {Scheduled, Running} then (Inl WorkerStateError, w)
      else reply E (w\<lparr>wk_status := Disabled, wk_plan := None\<rparr>) ''worker_disabled''
        [(''status'', PStr (status_name Disabled)), (''adapter'', PStr (wk_adapter w))])"

definition nonempty_str :: "pyval \<Rightarrow> bool" where
  "nonempty_str v \<longleftrightarrow> is_str v \<and> v \<noteq> PStr []"

definition prepare_phase :: "pyenv \<Rightarrow> worker \<Rightarrow> pyval \<Rightarrow> pyval result \<times> worker" where
  "prepare_phase E w phase_plan =
     (if wk_status w = Closed then (Inl WorkerClosedError, w)
      else if wk_status w \<notin> {Disabled, Stopped, Prepared, Completed} then (Inl WorkerStateError, w)
      else if \<not> is_dict phase_plan then (Inl IPCSchemaError, w)
      else case data_copy E phase_plan of
        Inl e \<Rightarrow> (Inl e, w)
      | Inr d \<Rightarrow>
          let w1 = w\<lparr>wk_plan := Some d\<rparr> in
          if \<not> list_all (\<lambda>k. nonempty_str (dget_or d k PNone)) [''run_id'', ''phase_id'', ''phase_execution_id'']
          then (Inl IPCSchemaError, w1\<lparr>wk_plan := None\<rparr>)
          else (case dget_or d ''duration_us'' (PInt 0) of
             PInt n \<Rightarrow>
               if n < 0 then (Inl IPCSchemaError, w1\<lparr>wk_plan := None\<rparr>)
               else let w2 = w1\<lparr>wk_status := Prepared\<rparr> in
                 reply E w2 ''phase_prepared'' ((''status'', PStr (status_name Prepared)) # phase_identity E w2)
           | _ \<Rightarrow> (Inl IPCSchemaError, w1\<lparr>wk_plan := None\<rparr>)))"

definition start_phase :: "pyenv \<Rightarrow> worker \<Rightarrow> pyval \<Rightarrow> pyval result \<times> worker" where
  "start_phase E w monotonic_deadline_us =
     (if wk_status w = Closed then (Inl WorkerClosedError, w)
      else if wk_status w \<noteq> Prepared then (Inl WorkerStateError, w)
      else case monotonic_deadline_us of
        PInt n \<Rightarrow>
          if n < 0 then (Inl IPCSchemaError, w)
          else let w1 = w\<lparr>wk_deadline := Some n, wk_status := Scheduled\<rparr> in
            (Inr (mkdict ((''status'', PStr (status_name Scheduled)) # phase_identity E w1 @ [(''requested_start_us'', PInt n)])),
             w1\<lparr>wk_task := Some (Entered n)\<rparr>)
      | _ \<Rightarrow> (Inl IPCSchemaError, w))"

definition stop :: "pyenv \<Rightarrow> worker \<Rightarrow> pyval \<Rightarrow> pyval result \<times> worker" where
  "stop E w fault_context =
     (if wk_status w = Closed then (Inl WorkerClosedError, w)
      else if \<not> is_dict fault_context then (Inl IPCSchemaError, w)
      else let w1 = w\<lparr>wk_task := None\<rparr> in
        case data_copy E fault_context of
          Inl e \<Rightarrow> (Inl e, w1)
        | Inr d \<Rightarrow>
            let w2 = w1\<lparr>wk_last_stop := Some d, wk_status := Stopped\<rparr> in
            reply E w2 ''worker_stopped'' ((''status'', PStr (status_name Stopped)) # phase_identity E w2 @ [(''fault_context'', PDict d)]))"

definition worker_state :: "pyenv \<Rightarrow> worker \<Rightarrow> pyval result" where
  "worker_state E w = raise_if (wk_status w = Closed) WorkerClosedError
     (bind (data_copy E (mkdict ([(''status'', PStr (status_name (wk_status w))), (''adapter'', PStr (wk_adapter w))] @ phase_identity E w @
       [(''last_start_deadline_us'', opt_int (wk_deadline w)),
        (''last_stop'', case wk_last_stop w of None \<Rightarrow> PNone | Some d \<Rightarrow> PDict d)]))) (\<lambda>d. Inr (PDict d)))"

text \<open>The next event, or the timeout if there is none.\<close>

definition next_event :: "worker \<Rightarrow> pydict result \<times> worker" where
  "next_event w =
     (if wk_status w = Closed then (Inl WorkerClosedError, w)
      else case wk_events w of
        [] \<Rightarrow> (Inl WorkerTimeoutError, w)
      | e # es \<Rightarrow> (Inr e, w\<lparr>wk_events := es\<rparr>))"

definition close_worker :: "worker \<Rightarrow> worker" where
  "close_worker w = (if wk_status w = Closed then w else w\<lparr>wk_task := None, wk_status := Closed\<rparr>)"

section \<open>The phase task\<close>

text \<open>The readings of the monotonic clock in one step, in microseconds, in the order the code takes them.\<close>

record readings =
  rd_now :: int
  rd_actual :: int
  rd_completed :: int
  rd_recorded :: int

text \<open>An exception, for example of a full event queue, ends the task and is lost.\<close>

definition end_task :: "worker \<Rightarrow> worker" where
  "end_task w = w\<lparr>wk_task := None\<rparr>"

definition started_event :: "pyenv \<Rightarrow> worker \<Rightarrow> int \<Rightarrow> int \<Rightarrow> pyval" where
  "started_event E w deadline actual = mkdict ([(''type'', PStr ''phase_started''), (''status'', PStr (status_name (wk_status w)))] @
     phase_identity E w @ [(''requested_start_us'', PInt deadline), (''actual_start_us'', PInt actual),
       (''start_skew_us'', PInt (actual - deadline))])"

definition completed_event :: "pyenv \<Rightarrow> worker \<Rightarrow> int \<Rightarrow> int \<Rightarrow> readings \<Rightarrow> pyval" where
  "completed_event E w deadline actual c = mkdict ([(''type'', PStr ''phase_completed''), (''status'', PStr (status_name (wk_status w)))] @
     phase_identity E w @ [(''requested_start_us'', PInt deadline), (''actual_start_us'', PInt actual),
       (''actual_completed_us'', PInt (rd_completed c)), (''completed_at_us'', PInt (rd_recorded c))])"

definition finish_phase :: "pyenv \<Rightarrow> worker \<Rightarrow> int \<Rightarrow> int \<Rightarrow> readings \<Rightarrow> worker" where
  "finish_phase E w deadline actual c =
     (if wk_status w \<noteq> Running then end_task w
      else let w1 = w\<lparr>wk_status := Completed\<rparr> in
        end_task (snd (emit E w1 (completed_event E w1 deadline actual c))))"

definition phase_duration :: "worker \<Rightarrow> int result" where
  "phase_duration w = bind (py_int (dget_or (plan_or_empty w) ''duration_us'' (PInt 0))) (\<lambda>n.
     bind (int_truediv n 1000000) (\<lambda>seconds. Inr n))"

definition begin_motion :: "pyenv \<Rightarrow> worker \<Rightarrow> int \<Rightarrow> readings \<Rightarrow> worker" where
  "begin_motion E w deadline c =
     (if wk_status w \<noteq> Scheduled then end_task w
      else let w1 = w\<lparr>wk_status := Running\<rparr> in
        case emit E w1 (started_event E w1 deadline (rd_actual c)) of
          (Inl e, w2) \<Rightarrow> end_task w2
        | (Inr u, w2) \<Rightarrow>
            (case phase_duration w2 of
               Inl e \<Rightarrow> end_task w2
             | Inr n \<Rightarrow> if n \<noteq> 0 then w2\<lparr>wk_task := Some (Moving deadline (rd_actual c))\<rparr>
                 else finish_phase E w2 deadline (rd_actual c) c))"

definition task_step :: "pyenv \<Rightarrow> worker \<Rightarrow> readings \<Rightarrow> worker" where
  "task_step E w c = (case wk_task w of
      None \<Rightarrow> w
    | Some (Entered deadline) \<Rightarrow>
        if 0 < deadline - rd_now c then (case int_truediv (deadline - rd_now c) 1000000 of
            Inl e \<Rightarrow> end_task w
          | Inr s \<Rightarrow> w\<lparr>wk_task := Some (Delayed deadline)\<rparr>)
        else begin_motion E w deadline c
    | Some (Delayed deadline) \<Rightarrow> begin_motion E w deadline c
    | Some (Moving deadline actual) \<Rightarrow> finish_phase E w deadline actual c)"

text \<open>One step of a worker: a call with any arguments, or the phase task.\<close>

inductive worker_step :: "pyenv \<Rightarrow> worker \<Rightarrow> worker \<Rightarrow> bool" for E where
  step_disable: "worker_step E w (snd (prepare_disabled E w))"
| step_prepare: "worker_step E w (snd (prepare_phase E w plan))"
| step_start: "worker_step E w (snd (start_phase E w t))"
| step_stop: "worker_step E w (snd (stop E w ctx))"
| step_event: "worker_step E w (snd (next_event w))"
| step_close: "worker_step E w (close_worker w)"
| step_task: "worker_step E w (task_step E w c)"

inductive worker_reachable :: "pyenv \<Rightarrow> worker \<Rightarrow> bool" for E where
  worker_init: "InMemoryWorker adapter_name event_limit = Inr w \<Longrightarrow> worker_reachable E w"
| worker_next: "worker_reachable E w \<Longrightarrow> worker_step E w w' \<Longrightarrow> worker_reachable E w'"

section \<open>Life cycle\<close>

text \<open>
  The invariant: a phase task lives only in a scheduled or running worker, in the sleep that
  belongs to the status; a closed worker has none; the queue never exceeds its limit; and a plan
  that is held has been checked.
\<close>

definition plan_ok :: "pydict \<Rightarrow> bool" where
  "plan_ok d \<longleftrightarrow> (\<forall>k \<in> {''run_id'', ''phase_id'', ''phase_execution_id''}. \<exists>s. s \<noteq> [] \<and> dget d k = Some (PStr s)) \<and>
     (\<exists>n. dget_or d ''duration_us'' (PInt 0) = PInt n \<and> 0 \<le> n)"

fun task_ok :: "phase_task option \<Rightarrow> worker_status \<Rightarrow> bool" where
  "task_ok None st = True"
| "task_ok (Some (Entered d)) st = (st = Scheduled)"
| "task_ok (Some (Delayed d)) st = (st = Scheduled)"
| "task_ok (Some (Moving d a)) st = (st = Running)"

definition worker_inv :: "worker \<Rightarrow> bool" where
  "worker_inv w \<longleftrightarrow> int (length (wk_events w)) \<le> wk_event_limit w \<and> task_ok (wk_task w) (wk_status w) \<and>
     (\<forall>d. wk_plan w = Some d \<longrightarrow> plan_ok d)"

lemma task_ok_status: "task_ok t st \<Longrightarrow> t = None \<or> st \<in> {Scheduled, Running}"
  by (cases "(t, st)" rule: task_ok.cases) auto

lemma emit_cases:
  obtains (refused) e where "emit E w v = (Inl e, w)"
  | (queued) d where "data_copy E v = Inr d" "int (length (wk_events w)) < wk_event_limit w"
      "emit E w v = (Inr (), w\<lparr>wk_events := wk_events w @ [d]\<rparr>)"
proof (cases "data_copy E v")
  case (Inl e)
  then show ?thesis by (intro refused) (simp add: emit_def)
next
  case (Inr d)
  show ?thesis
  proof (cases "wk_event_limit w \<le> int (length (wk_events w))")
    case True
    with Inr show ?thesis by (intro refused) (simp add: emit_def)
  next
    case False
    with Inr show ?thesis by (intro queued) (simp_all add: emit_def)
  qed
qed

lemma emit_only_queues:
  obtains es where "snd (emit E w v) = w\<lparr>wk_events := es\<rparr>"
    "int (length (wk_events w)) \<le> wk_event_limit w \<longrightarrow> int (length es) \<le> wk_event_limit w"
proof (rule emit_cases [of E w v])
  fix e assume "emit E w v = (Inl e, w)"
  then show thesis by (intro that [of "wk_events w"]) simp_all
qed (auto intro: that)

lemma worker_inv_emit: "worker_inv w \<Longrightarrow> worker_inv (snd (emit E w v))"
  by (rule emit_cases [of E w v]) (simp_all add: worker_inv_def)

lemma snd_reply: "snd (reply E w event_kind result) = snd (emit E w (mkdict ((''type'', PStr event_kind) # result)))"
  by (simp add: reply_def split: prod.split sum.split)

lemma worker_inv_reply: "worker_inv w \<Longrightarrow> worker_inv (snd (reply E w event_kind result))"
  by (simp add: snd_reply worker_inv_emit)

lemma worker_inv_end_task: "worker_inv w \<Longrightarrow> worker_inv (end_task w)"
  by (simp add: worker_inv_def end_task_def)

lemma worker_inv_no_task: "worker_inv w \<Longrightarrow> worker_inv (w\<lparr>wk_task := None, wk_status := st\<rparr>)"
  by (simp add: worker_inv_def)

lemma worker_inv_finish:
  assumes "worker_inv w"
  shows "worker_inv (finish_phase E w deadline actual c)"
proof -
  let ?w = "w\<lparr>wk_status := Completed\<rparr>" and ?v = "completed_event E (w\<lparr>wk_status := Completed\<rparr>) deadline actual c"
  obtain es where "snd (emit E ?w ?v) = ?w\<lparr>wk_events := es\<rparr>"
    "int (length (wk_events ?w)) \<le> wk_event_limit ?w \<longrightarrow> int (length es) \<le> wk_event_limit ?w" by (rule emit_only_queues [of E ?w ?v])
  with assms show ?thesis by (simp add: finish_phase_def Let_def worker_inv_end_task end_task_def worker_inv_def)
qed

lemma worker_inv_begin:
  assumes "worker_inv w"
  shows "worker_inv (begin_motion E w deadline c)"
proof (cases "wk_status w = Scheduled")
  case True
  let ?w = "w\<lparr>wk_status := Running, wk_task := None\<rparr>"
  have inv: "worker_inv ?w" using assms by (simp add: worker_inv_def)
  show ?thesis
  proof (rule emit_cases [of E "w\<lparr>wk_status := Running\<rparr>" "started_event E (w\<lparr>wk_status := Running\<rparr>) deadline (rd_actual c)"])
    fix e assume "emit E (w\<lparr>wk_status := Running\<rparr>) (started_event E (w\<lparr>wk_status := Running\<rparr>) deadline (rd_actual c)) = (Inl e, w\<lparr>wk_status := Running\<rparr>)"
    with True inv show ?thesis by (simp add: begin_motion_def end_task_def worker_inv_def)
  next
    fix d
    assume d: "int (length (wk_events (w\<lparr>wk_status := Running\<rparr>))) < wk_event_limit (w\<lparr>wk_status := Running\<rparr>)"
      "emit E (w\<lparr>wk_status := Running\<rparr>) (started_event E (w\<lparr>wk_status := Running\<rparr>) deadline (rd_actual c)) =
        (Inr (), w\<lparr>wk_status := Running, wk_events := wk_events (w\<lparr>wk_status := Running\<rparr>) @ [d]\<rparr>)"
    let ?u = "w\<lparr>wk_status := Running, wk_events := wk_events w @ [d]\<rparr>"
    have u: "worker_inv (?u\<lparr>wk_task := t\<rparr>)" if "task_ok t Running" for t
      using assms d(1) that by (simp add: worker_inv_def)
    have "worker_inv (finish_phase E ?u deadline (rd_actual c) c)"
    proof -
      have "finish_phase E ?u deadline (rd_actual c) c = finish_phase E (?u\<lparr>wk_task := None\<rparr>) deadline (rd_actual c) c"
        by (simp add: finish_phase_def Let_def end_task_def emit_def completed_event_def phase_identity_def plan_or_empty_def split: sum.split)
      with worker_inv_finish [OF u [of None]] show ?thesis by simp
    qed
    with True d(2) u [of None] u [of "Some (Moving deadline (rd_actual c))"] show ?thesis
      by (simp add: begin_motion_def end_task_def Let_def split: sum.split)
  qed
qed (use assms in \<open>simp add: begin_motion_def worker_inv_end_task\<close>)

lemma nonempty_str_iff: "nonempty_str v \<longleftrightarrow> (\<exists>s. v = PStr s \<and> s \<noteq> [])"
  by (cases v) (simp_all add: nonempty_str_def)

lemma worker_inv_prepare: "worker_inv w \<Longrightarrow> worker_inv (snd (prepare_phase E w plan))"
proof -
  assume inv: "worker_inv w"
  show ?thesis
  proof (cases "wk_status w \<in> {Disabled, Stopped, Prepared, Completed} \<and> is_dict plan \<and> ok (data_copy E plan)")
    case True
    then obtain d where d: "data_copy E plan = Inr d" by (auto simp: ok_iff)
    have no_task: "wk_task w = None" using True inv task_ok_status [of "wk_task w" "wk_status w"] by (auto simp: worker_inv_def)
    have "worker_inv (w\<lparr>wk_plan := Some d, wk_status := Prepared\<rparr>)"
      if "list_all (\<lambda>k. nonempty_str (dget_or d k PNone)) [''run_id'', ''phase_id'', ''phase_execution_id'']"
        "dget_or d ''duration_us'' (PInt 0) = PInt n" "\<not> n < 0" for n
      using inv that no_task
      by (auto simp: worker_inv_def plan_ok_def nonempty_str_iff dget_or_def split: option.splits)
    moreover have "worker_inv (w\<lparr>wk_plan := None\<rparr>)" using inv by (simp add: worker_inv_def)
    ultimately show ?thesis
      using True d inv by (auto simp: prepare_phase_def Let_def worker_inv_reply split: pyval.splits)
  qed (use inv in \<open>auto simp: prepare_phase_def split: sum.splits\<close>)
qed

lemma worker_inv_step:
  assumes "worker_step E w w'" "worker_inv w"
  shows "worker_inv w'"
  using assms
proof (induction rule: worker_step.induct)
  case (step_disable w)
  have "wk_status w \<notin> {Scheduled, Running} \<Longrightarrow> worker_inv (w\<lparr>wk_status := Disabled, wk_plan := None\<rparr>)"
    using step_disable task_ok_status [of "wk_task w" "wk_status w"] by (auto simp: worker_inv_def)
  with step_disable show ?case by (auto simp: prepare_disabled_def worker_inv_reply)
next
  case (step_stop w ctx)
  have "worker_inv (w\<lparr>wk_task := None\<rparr>)" "worker_inv (w\<lparr>wk_task := None, wk_last_stop := x, wk_status := Stopped\<rparr>)" for x
    using step_stop by (auto simp: worker_inv_def)
  with step_stop show ?case by (auto simp: stop_def Let_def worker_inv_reply split: sum.split)
next
  case (step_task w c)
  have "worker_inv (w\<lparr>wk_task := Some (Delayed deadline)\<rparr>)" if "wk_task w = Some (Entered deadline)" for deadline
    using step_task that by (simp add: worker_inv_def)
  with step_task show ?case
    by (auto simp: task_step_def worker_inv_begin worker_inv_finish worker_inv_end_task split: option.split phase_task.split sum.split)
next
  case (step_start w t)
  then show ?case by (auto simp: start_phase_def Let_def worker_inv_def split: pyval.split)
next
  case (step_event w)
  then show ?case by (auto simp: next_event_def worker_inv_def split: list.split)
next
  case (step_close w)
  then show ?case by (simp add: close_worker_def worker_inv_no_task)
qed (rule worker_inv_prepare)

lemma worker_reachable_inv: "worker_reachable E w \<Longrightarrow> worker_inv w"
proof (induction rule: worker_reachable.induct)
  case (worker_init adapter_name event_limit w)
  then show ?case by (auto simp: InMemoryWorker_def worker_inv_def)
qed (rule worker_inv_step)

text \<open>
  C30. One phase at a time. While the task of a phase lives, scheduled or moving, no call can
  disable the hardware, replace the plan or start another phase: these raise and change nothing.
  Only \<^verbatim>\<open>stop\<close> and \<^verbatim>\<open>close\<close> end it, and after them, even if \<^verbatim>\<open>stop\<close> itself raises, no time that passes
  starts a motion, ends one or emits an event.
\<close>

theorem live_phase_is_exclusive:
  assumes "worker_reachable E w" "wk_task w \<noteq> None"
  shows "prepare_disabled E w = (Inl WorkerStateError, w) \<and> prepare_phase E w plan = (Inl WorkerStateError, w) \<and>
    start_phase E w t = (Inl WorkerStateError, w) \<and>
    foldl (task_step E) (snd (stop E w (PDict ctx))) cs = snd (stop E w (PDict ctx)) \<and>
    foldl (task_step E) (close_worker w) cs = close_worker w"
proof -
  have st: "wk_status w \<in> {Scheduled, Running}"
    using worker_reachable_inv [OF assms(1)] assms(2) task_ok_status by (fastforce simp: worker_inv_def)
  have idle: "foldl (task_step E) v cs = v" if "wk_task v = None" for v
    by (induction cs) (simp_all add: task_step_def that)
  have "wk_task (snd (reply E v k r)) = wk_task v" for v k r
    unfolding snd_reply by (rule emit_only_queues [of E v "mkdict ((''type'', PStr k) # r)"]) simp
  then have "wk_task (snd (stop E w (PDict ctx))) = None" using st by (auto simp: stop_def Let_def split: sum.split)
  moreover have "wk_task (close_worker w) = None" using st by (auto simp: close_worker_def)
  ultimately show ?thesis
    using st by (auto simp: prepare_disabled_def prepare_phase_def start_phase_def idle)
qed

text \<open>
  A rejected plan is forgotten while the worker stays prepared for it: after a prepared phase, a
  second \<^verbatim>\<open>prepare_phase\<close> that raises because a field is missing leaves a worker that still accepts
  \<^verbatim>\<open>start_phase\<close>, and then runs a phase that belongs to no run.
\<close>

theorem rejected_plan_still_starts:
  assumes "prepare_phase E w plan = (Inr r, w1)" "data_copy E (PDict bad) = Inr d" "\<not> nonempty_str (dget_or d ''run_id'' PNone)"
    and "prepare_phase E w1 (PDict bad) = (x, w2)" "0 \<le> t"
  shows "x = Inl IPCSchemaError \<and> fst (start_phase E w2 (PInt t)) = Inr (mkdict [(''status'', PStr ''scheduled''), (''run_id'', PStr []),
    (''phase_id'', PStr []), (''phase_execution_id'', PStr []), (''requested_start_us'', PInt t)])"
proof -
  have "wk_status w1 = Prepared"
    using assms(1) by (auto simp: prepare_phase_def Let_def reply_def emit_def split: if_splits sum.splits pyval.splits)
  with assms(2-4) have "x = Inl IPCSchemaError" "w2 = w1\<lparr>wk_plan := None\<rparr>" "wk_status w2 = Prepared"
    by (auto simp: prepare_phase_def Let_def)
  with assms(5) show ?thesis
    by (simp add: start_phase_def Let_def phase_identity_def plan_or_empty_def dget_or_def py_str_def)
qed

section \<open>Instances\<close>

definition small_plan :: pyval where
  "small_plan = mkdict [(''run_id'', PStr ''r''), (''phase_id'', PStr ''p''), (''phase_execution_id'', PStr ''x''), (''duration_us'', PInt 10)]"

definition copy_env :: pyenv where
  "copy_env = \<lparr>cbor_dumps = (\<lambda>v. Inr [if v = small_plan then 1 else 2]),
     cbor_loads = (\<lambda>b. Inr (if b = [1] then small_plan else mkdict [])), sha256 = (\<lambda>b. b), json_dumps = (\<lambda>v. []),
     json_loads = (\<lambda>s. Inl ValueError), py_repr = (\<lambda>v. []), float_of_str = (\<lambda>s. Inl ValueError)\<rparr>"

definition fresh_worker :: worker where
  "fresh_worker = \<lparr>wk_adapter = ''simulator'', wk_event_limit = 256, wk_events = [], wk_status = Created, wk_plan = None,
     wk_deadline = None, wk_last_stop = None, wk_task = None\<rparr>"

definition scheduled_worker :: worker where
  "scheduled_worker = snd (start_phase copy_env (snd (prepare_phase copy_env (snd (prepare_disabled copy_env fresh_worker)) small_plan)) (PInt 5))"

lemma scheduled_reachable: "worker_reachable copy_env scheduled_worker"
  unfolding scheduled_worker_def
  by (rule worker_next [OF _ step_start], rule worker_next [OF _ step_prepare], rule worker_next [OF _ step_disable],
      rule worker_init [of "''simulator''" 256]) code_simp

theorem live_phase_is_exclusive_witness:
  "prepare_phase copy_env scheduled_worker small_plan = (Inl WorkerStateError, scheduled_worker) \<and>
     foldl (task_step copy_env) (close_worker scheduled_worker) [] = close_worker scheduled_worker"
proof -
  have "wk_task scheduled_worker = Some (Entered 5)" by code_simp
  with live_phase_is_exclusive [OF scheduled_reachable, of small_plan _ _ "[]"] show ?thesis by simp
qed

end
