(* ===== verification/WorkerProcess.thy ===== *)
theory WorkerProcess
  imports Worker
begin

text \<open>
  The two ends of the pipe to a worker process: the host \<^verbatim>\<open>remote_robot/worker_process.py\<close>, which
  serves requests one after the other, and \<^verbatim>\<open>SubprocessWorker\<close> of \<^verbatim>\<open>remote_robot/worker.py\<close>, which
  sends requests and resolves their futures as responses arrive. Pipes are the bytes written to
  them; starting, killing and awaiting the process itself is not modelled.
\<close>

section \<open>The host\<close>

text \<open>\<^verbatim>\<open>_read_exact\<close> on the bytes that will arrive before the end of the input.\<close>

definition read_exact :: "bytes \<Rightarrow> nat \<Rightarrow> (bytes \<times> bytes) result" where
  "read_exact stream n =
     (if n \<le> length stream then Inr (take n stream, drop n stream)
      else if stream = [] then Inr ([], [])
      else Inl TruncatedFrameError)"

definition read_blocking :: "pyenv \<Rightarrow> bytes \<Rightarrow> int \<Rightarrow> (pydict option \<times> bytes) result" where
  "read_blocking E stream max_frame_bytes =
     bind (read_exact stream 4) (\<lambda>(header, stream1).
     if header = [] then Inr (None, stream1)
     else raise_if (length header \<noteq> 4) TruncatedFrameError
       (let n = unpack_u32 header in
        raise_if (int n > max_frame_bytes) FrameTooLargeError
        (bind (read_exact stream1 n) (\<lambda>(payload, stream2).
         raise_if (length payload \<noteq> n) TruncatedFrameError
         (bind (decode_payload E payload max_frame_bytes) (\<lambda>d. Inr (Some d, stream2)))))))"

definition require_params :: "pydict \<Rightarrow> string list \<Rightarrow> pydict result" where
  "require_params params required = raise_if (\<not> exact_keys params required []) IPCSchemaError (Inr params)"

text \<open>\<^verbatim>\<open>_dispatch\<close>; a call that raises keeps what it did to the worker.\<close>

definition with_params :: "worker \<Rightarrow> pydict \<Rightarrow> string list \<Rightarrow> (pydict \<Rightarrow> pyval result \<times> worker) \<Rightarrow> pyval result \<times> worker" where
  "with_params w params required f = (case require_params params required of Inl e \<Rightarrow> (Inl e, w) | Inr values \<Rightarrow> f values)"

definition mapping_param :: "worker \<Rightarrow> pydict \<Rightarrow> string \<Rightarrow> (pyval \<Rightarrow> pyval result \<times> worker) \<Rightarrow> pyval result \<times> worker" where
  "mapping_param w values k f = (let v = dget_or values k PNone in if is_dict v then f v else (Inl IPCSchemaError, w))"

definition dispatch :: "pyenv \<Rightarrow> worker \<Rightarrow> string \<Rightarrow> pydict \<Rightarrow> pyval result \<times> worker" where
  "dispatch E w method_name params =
     (if method_name = ''prepare_disabled'' then with_params w params [] (\<lambda>_. prepare_disabled E w)
      else if method_name = ''prepare_phase'' then
        with_params w params [''phase_plan''] (\<lambda>values. mapping_param w values ''phase_plan'' (prepare_phase E w))
      else if method_name = ''start_phase'' then
        with_params w params [''monotonic_deadline_us''] (\<lambda>values. start_phase E w (dget_or values ''monotonic_deadline_us'' PNone))
      else if method_name = ''stop'' then
        with_params w params [''fault_context''] (\<lambda>values. mapping_param w values ''fault_context'' (stop E w))
      else if method_name = ''state'' then with_params w params [] (\<lambda>_. (worker_state E w, w))
      else if method_name = ''close'' then with_params w params [] (\<lambda>_. (Inr (mkdict [(''status'', PStr ''closed'')]), close_worker w))
      else (Inl WorkerError, w))"

definition error_code :: "exn \<Rightarrow> string" where
  "error_code e =
     (if e = IPCSchemaError then ''INVALID_ARGUMENT''
      else if e = WorkerClosedError then ''WORKER_CLOSED''
      else if is_WorkerError e then ''WORKER_ERROR''
      else ''INTERNAL_ERROR'')"

text \<open>The message text of an error is \<open>text_of e\<close>.\<close>

definition error_record :: "(exn \<Rightarrow> string) \<Rightarrow> exn \<Rightarrow> pyval" where
  "error_record text_of e = mkdict [(''code'', PStr (error_code e)), (''message'', PStr (text_of e))]"

definition response :: "(exn \<Rightarrow> string) \<Rightarrow> pyval \<Rightarrow> pyval result \<Rightarrow> pyval" where
  "response text_of request_id outcome = (case outcome of
      Inr result \<Rightarrow> mkdict [(''kind'', PStr ''response''), (''version'', PInt PROTOCOL_VERSION), (''request_id'', request_id),
        (''ok'', PBool True), (''result'', result)]
    | Inl e \<Rightarrow> mkdict [(''kind'', PStr ''response''), (''version'', PInt PROTOCOL_VERSION), (''request_id'', request_id),
        (''ok'', PBool False), (''error'', error_record text_of e)])"

text \<open>The host: its worker, the input not yet read, the output, and how it ended.\<close>

datatype host_end = Exited int | Crashed exn

record host =
  ho_worker :: worker
  ho_input :: bytes
  ho_output :: bytes
  ho_end :: "host_end option"

definition METHODS :: "string list" where
  "METHODS = [''prepare_disabled'', ''prepare_phase'', ''start_phase'', ''stop'', ''state'', ''close'']"

text \<open>Leaving the loop closes the worker.\<close>

definition leave :: "host \<Rightarrow> host_end \<Rightarrow> host" where
  "leave h reason = h\<lparr>ho_worker := close_worker (ho_worker h), ho_end := Some reason\<rparr>"

definition serve_request :: "pyenv \<Rightarrow> (exn \<Rightarrow> string) \<Rightarrow> int \<Rightarrow> host \<Rightarrow> pydict \<Rightarrow> host" where
  "serve_request E text_of limit h request =
     (let method_name = the_str (dget_or request ''method'' PNone) in
      case dispatch E (ho_worker h) method_name (the_dict (dget_or request ''params'' PNone)) of (outcome, w) \<Rightarrow>
        (case write_frame E (ho_output h) (response text_of (dget_or request ''request_id'' PNone) outcome) (PInt limit) of
           Inl e \<Rightarrow> leave (h\<lparr>ho_worker := w\<rparr>) (Crashed e)
         | Inr output \<Rightarrow>
             let h1 = h\<lparr>ho_worker := w, ho_output := output\<rparr> in
             if method_name = ''close'' \<and> ok outcome then leave h1 (Exited 0) else h1))"

definition serve_step :: "pyenv \<Rightarrow> (exn \<Rightarrow> string) \<Rightarrow> int \<Rightarrow> host \<Rightarrow> host" where
  "serve_step E text_of limit h =
     (if ho_end h \<noteq> None then h
      else case read_blocking E (ho_input h) limit of
        Inl e \<Rightarrow> if is_IPCError e then leave h (Exited 2) else leave h (Crashed e)
      | Inr (None, rest) \<Rightarrow> leave (h\<lparr>ho_input := rest\<rparr>) (Exited 0)
      | Inr (Some raw, rest) \<Rightarrow>
          let h1 = h\<lparr>ho_input := rest\<rparr> in
          (case validate_wire_message (PDict raw) of
             Inl e \<Rightarrow> if is_IPCError e then leave h1 (Exited 2) else leave h1 (Crashed e)
           | Inr request \<Rightarrow>
               if dget_or request ''kind'' PNone \<noteq> PStr ''request'' then leave h1 (Exited 2)
               else serve_request E text_of limit h1 request))"

definition hello_message :: "string \<Rightarrow> pyval" where
  "hello_message adapter_name = mkdict [(''kind'', PStr ''hello''), (''protocol'', PStr PROTOCOL_NAME), (''version'', PInt PROTOCOL_VERSION),
     (''adapter'', PStr adapter_name), (''capabilities'', PList (map PStr METHODS))]"

text \<open>\<^verbatim>\<open>serve\<close> up to its loop, and one round of \<^verbatim>\<open>_pump_events\<close>; an exception ends the pump and is lost.\<close>

definition serve :: "pyenv \<Rightarrow> string \<Rightarrow> int \<Rightarrow> bytes \<Rightarrow> host result" where
  "serve E adapter_name limit input =
     bind (InMemoryWorker adapter_name 256) (\<lambda>w.
     bind (write_frame E [] (hello_message adapter_name) (PInt limit)) (\<lambda>output.
     Inr \<lparr>ho_worker = w, ho_input = input, ho_output = output, ho_end = None\<rparr>))"

definition pump_event :: "pyenv \<Rightarrow> int \<Rightarrow> host \<Rightarrow> unit result \<times> host" where
  "pump_event E limit h = (case next_event (ho_worker h) of
      (Inl e, w) \<Rightarrow> (Inl e, h\<lparr>ho_worker := w\<rparr>)
    | (Inr event, w) \<Rightarrow>
        let h1 = h\<lparr>ho_worker := w\<rparr> in
        (case write_frame E (ho_output h) (mkdict [(''kind'', PStr ''event''), (''version'', PInt PROTOCOL_VERSION), (''event'', PDict event)])
            (PInt limit) of
           Inl e \<Rightarrow> (Inl e, h1)
         | Inr output \<Rightarrow> (Inr (), h1\<lparr>ho_output := output\<rparr>)))"

section \<open>The client\<close>

text \<open>
  Futures are numbered by request: those waiting, and how each other call ended. \<open>tr_output\<close> are the
  bytes written to the worker.
\<close>

record transport =
  tr_limit :: int
  tr_event_limit :: int
  tr_events :: "pydict list"
  tr_pending :: "int list"
  tr_ended :: "(int \<times> pyval result) list"
  tr_next_id :: int
  tr_hello :: "pydict result option"
  tr_error :: "exn option"
  tr_closing :: bool
  tr_closed :: bool
  tr_reading :: bool
  tr_output :: bytes

definition SubprocessWorker :: "int \<Rightarrow> int \<Rightarrow> transport" where
  "SubprocessWorker max_frame_bytes event_limit = \<lparr>tr_limit = max_frame_bytes, tr_event_limit = event_limit, tr_events = [],
     tr_pending = [], tr_ended = [], tr_next_id = 1, tr_hello = None, tr_error = None, tr_closing = False, tr_closed = False,
     tr_reading = True, tr_output = []\<rparr>"

definition fail_transport :: "transport \<Rightarrow> exn \<Rightarrow> transport" where
  "fail_transport t e = t\<lparr>tr_error := (case tr_error t of None \<Rightarrow> Some e | Some f \<Rightarrow> Some f),
     tr_hello := (case tr_hello t of None \<Rightarrow> Some (Inl e) | Some x \<Rightarrow> Some x),
     tr_ended := tr_ended t @ map (\<lambda>i. (i, Inl e)) (tr_pending t), tr_pending := []\<rparr>"

text \<open>The reader loop fails the transport with the exception that ends it.\<close>

definition reader_fails :: "transport \<Rightarrow> exn \<Rightarrow> transport" where
  "reader_fails t e = fail_transport (t\<lparr>tr_reading := False\<rparr>) e"

definition resolve_call :: "transport \<Rightarrow> int \<Rightarrow> pyval result \<Rightarrow> transport" where
  "resolve_call t i res = t\<lparr>tr_pending := removeAll i (tr_pending t), tr_ended := tr_ended t @ [(i, res)]\<rparr>"

definition receive_response :: "transport \<Rightarrow> pydict \<Rightarrow> transport" where
  "receive_response t message = (case dget_or message ''request_id'' PNone of
      PInt i \<Rightarrow>
        if i \<notin> set (tr_pending t) then t
        else if dget_or message ''ok'' PNone = PBool True then resolve_call t i (Inr (dget_or message ''result'' PNone))
        else resolve_call t i (Inl (WorkerRemoteError (the_str (dget_or (the_dict (dget_or message ''error'' PNone)) ''code'' PNone))))
    | _ \<Rightarrow> t)"

definition receive_message :: "transport \<Rightarrow> pydict \<Rightarrow> transport" where
  "receive_message t message =
     (if dget_or message ''kind'' PNone = PStr ''hello'' then
        (if tr_hello t \<noteq> None then reader_fails t WorkerProtocolError else t\<lparr>tr_hello := Some (Inr message)\<rparr>)
      else if dget_or message ''kind'' PNone = PStr ''response'' then receive_response t message
      else if dget_or message ''kind'' PNone = PStr ''event'' then
        (if tr_event_limit t \<le> int (length (tr_events t)) then reader_fails t WorkerProtocolError
         else t\<lparr>tr_events := tr_events t @ [the_dict (dget_or message ''event'' PNone)]\<rparr>)
      else reader_fails t WorkerProtocolError)"

text \<open>One round of the reader loop on what \<^verbatim>\<open>read_frame\<close> gives.\<close>

definition reader_step :: "transport \<Rightarrow> pydict option result \<Rightarrow> transport" where
  "reader_step t frame =
     (if \<not> tr_reading t then t
      else case frame of
        Inl e \<Rightarrow> reader_fails t e
      | Inr None \<Rightarrow> if tr_closing t then t\<lparr>tr_reading := False\<rparr> else reader_fails t WorkerClosedError
      | Inr (Some raw) \<Rightarrow>
          (case validate_wire_message (PDict raw) of
             Inl e \<Rightarrow> reader_fails t (if is_IPCError e then WorkerProtocolError else e)
           | Inr message \<Rightarrow> receive_message t message))"

text \<open>
  \<^verbatim>\<open>_rpc\<close> up to waiting for its future; \<open>broken\<close> is the exception with which \<^verbatim>\<open>drain\<close> ends, if it raises,
  after the frame was handed to the pipe.
\<close>

definition rpc_request :: "int \<Rightarrow> string \<Rightarrow> pyval \<Rightarrow> pyval" where
  "rpc_request i method_name params = mkdict [(''kind'', PStr ''request''), (''version'', PInt PROTOCOL_VERSION), (''request_id'', PInt i),
     (''method'', PStr method_name), (''params'', params)]"

definition rpc :: "pyenv \<Rightarrow> transport \<Rightarrow> string \<Rightarrow> pyval \<Rightarrow> exn option \<Rightarrow> int result \<times> transport" where
  "rpc E t method_name params broken =
     (if tr_closed t then (Inl WorkerClosedError, t)
      else if tr_error t \<noteq> None then (Inl WorkerClosedError, t)
      else let i = tr_next_id t; t1 = t\<lparr>tr_next_id := i + 1, tr_pending := tr_pending t @ [i]\<rparr> in
        case encode_frame E (rpc_request i method_name params) (PInt (tr_limit t)) of
          Inl e \<Rightarrow> (Inl e, t1\<lparr>tr_pending := removeAll i (tr_pending t1)\<rparr>)
        | Inr frame \<Rightarrow>
            let t2 = t1\<lparr>tr_output := tr_output t1 @ frame\<rparr> in
            (case broken of
               Some e \<Rightarrow> (Inl e, t2\<lparr>tr_pending := removeAll i (tr_pending t2)\<rparr>)
             | None \<Rightarrow> (Inr i, t2)))"

definition abort_transport :: "transport \<Rightarrow> exn \<Rightarrow> transport" where
  "abort_transport t e = (fail_transport (t\<lparr>tr_closing := True, tr_closed := True\<rparr>) e)\<lparr>tr_reading := False\<rparr>"

text \<open>The timeout of a call that still waits.\<close>

definition rpc_timeout :: "transport \<Rightarrow> int \<Rightarrow> transport" where
  "rpc_timeout t i =
     (if i \<in> set (tr_pending t) then abort_transport (resolve_call t i (Inl WorkerTimeoutError)) WorkerTimeoutError else t)"

text \<open>\<^verbatim>\<open>close\<close>: before and after the exchange with the process, which is a call like any other.\<close>

definition close_begins :: "transport \<Rightarrow> transport" where
  "close_begins t = (if tr_closed t then t else t\<lparr>tr_closing := True\<rparr>)"

definition close_ends :: "transport \<Rightarrow> transport" where
  "close_ends t = (fail_transport (t\<lparr>tr_closed := True\<rparr>) WorkerClosedError)\<lparr>tr_reading := False\<rparr>"

definition receive_event :: "transport \<Rightarrow> pydict result \<times> transport" where
  "receive_event t =
     (if tr_closed t then (Inl WorkerClosedError, t)
      else case tr_events t of
        [] \<Rightarrow> (Inl WorkerTimeoutError, t)
      | e # es \<Rightarrow> (Inr e, t\<lparr>tr_events := es\<rparr>))"

text \<open>\<^verbatim>\<open>spawn\<close>: its argument checks, and what it makes of the handshake.\<close>

definition spawn :: "pyfloat \<Rightarrow> pyfloat \<Rightarrow> int \<Rightarrow> int \<Rightarrow> transport result" where
  "spawn request_timeout handshake_timeout max_frame_bytes event_limit =
     raise_if (fle request_timeout (Fin 0) \<or> fle handshake_timeout (Fin 0)) ValueError
     (raise_if (event_limit \<le> 0) ValueError
     (raise_if (max_frame_bytes \<le> 0 \<or> max_frame_bytes > 0xFFFFFFFF) ValueError
     (Inr (SubprocessWorker max_frame_bytes event_limit))))"

definition handshake :: "transport \<Rightarrow> (string \<times> string list) result" where
  "handshake t = (case tr_hello t of
      None \<Rightarrow> Inl WorkerTimeoutError
    | Some (Inl e) \<Rightarrow> Inl e
    | Some (Inr hello) \<Rightarrow>
        raise_if (\<not> py_eq (dget_or hello ''protocol'' PNone) (PStr PROTOCOL_NAME) \<or>
            \<not> py_eq (dget_or hello ''version'' PNone) (PInt PROTOCOL_VERSION)) WorkerProtocolError
        (Inr (the_str (dget_or hello ''adapter'' PNone), map the_str (the_list (dget_or hello ''capabilities'' PNone)))))"

section \<open>Both ends read the same frames\<close>

text \<open>
  The host's blocking reader and the client's asynchronous reader agree on every byte
  sequence: the same message and the same rest, a clean end at the same places, and the same
  exception for every torn, oversized, non-canonical or malformed frame.
\<close>

theorem readers_agree: "read_blocking E stream limit = read_frame E stream limit True"
proof (cases "length stream < 4")
  case True
  then show ?thesis by (simp add: read_blocking_def read_frame_def read_exact_def)
next
  case False
  let ?n = "unpack_u32 (take 4 stream)" and ?s = "drop 4 stream"
  have h: "take 4 stream \<noteq> []" "length (take 4 stream) = 4" using False by auto
  show ?thesis
  proof (cases "length ?s < ?n")
    case True
    then have "?n \<noteq> 0" by simp
    with True False h show ?thesis by (auto simp: read_blocking_def read_frame_def read_exact_def Let_def raise_if_def)
  next
    case F: False
    with False h show ?thesis by (simp add: read_blocking_def read_frame_def read_exact_def Let_def min_def)
  qed
qed

section \<open>Every call ends once, with its own answer\<close>

text \<open>What can happen to a transport.\<close>

datatype transport_event =
    Call string pyval "exn option"
  | Frame "pydict option result"
  | Timeout int
  | TakeEvent
  | CloseBegins
  | CloseEnds

definition transport_step :: "pyenv \<Rightarrow> transport \<Rightarrow> transport_event \<Rightarrow> transport" where
  "transport_step E t ev = (case ev of
      Call method_name params broken \<Rightarrow> snd (rpc E t method_name params broken)
    | Frame frame \<Rightarrow> reader_step t frame
    | Timeout i \<Rightarrow> rpc_timeout t i
    | TakeEvent \<Rightarrow> snd (receive_event t)
    | CloseBegins \<Rightarrow> close_begins t
    | CloseEnds \<Rightarrow> close_ends t)"

text \<open>The message answers request \<open>i\<close> with \<open>v\<close>, and the calls a transport knows of.\<close>

definition answers :: "transport_event \<Rightarrow> int \<Rightarrow> pyval \<Rightarrow> bool" where
  "answers ev i v \<longleftrightarrow> (\<exists>d r. ev = Frame (Inr (Some d)) \<and> carries d (Result i r) \<and> v = PDict r)"

definition known_calls :: "transport \<Rightarrow> int set" where
  "known_calls t = set (tr_pending t) \<union> fst ` set (tr_ended t)"

definition transport_inv :: "transport \<Rightarrow> bool" where
  "transport_inv t \<longleftrightarrow> distinct (tr_pending t @ map fst (tr_ended t)) \<and> (\<forall>i \<in> known_calls t. i < tr_next_id t) \<and>
     (tr_closed t \<or> tr_error t \<noteq> None \<longrightarrow> tr_pending t = [])"

lemma fail_transport_sel [simp]:
  "tr_pending (fail_transport t e) = []" "tr_next_id (fail_transport t e) = tr_next_id t" "tr_closed (fail_transport t e) = tr_closed t"
  "tr_ended (fail_transport t e) = tr_ended t @ map (\<lambda>i. (i, Inl e)) (tr_pending t)"
  by (simp_all add: fail_transport_def)

lemma known_fail [simp]: "known_calls (fail_transport t e) = known_calls t"
  by (auto simp: known_calls_def image_Un image_image)

lemma known_updates [simp]:
  "known_calls (t\<lparr>tr_reading := b\<rparr>) = known_calls t" "known_calls (t\<lparr>tr_closing := b\<rparr>) = known_calls t"
  "known_calls (t\<lparr>tr_closed := b\<rparr>) = known_calls t" "known_calls (t\<lparr>tr_hello := h\<rparr>) = known_calls t"
  "known_calls (t\<lparr>tr_events := es\<rparr>) = known_calls t" "known_calls (t\<lparr>tr_output := out\<rparr>) = known_calls t"
  by (simp_all add: known_calls_def)

lemma inv_fail: "transport_inv t \<Longrightarrow> transport_inv (fail_transport t e)"
  by (auto simp: transport_inv_def comp_def)

lemma inv_updates [simp]:
  "transport_inv (t\<lparr>tr_reading := b\<rparr>) = transport_inv t" "transport_inv (t\<lparr>tr_closing := b\<rparr>) = transport_inv t"
  "transport_inv (t\<lparr>tr_hello := h\<rparr>) = transport_inv t" "transport_inv (t\<lparr>tr_events := es\<rparr>) = transport_inv t"
  "transport_inv (t\<lparr>tr_output := out\<rparr>) = transport_inv t"
  by (simp_all add: transport_inv_def)

lemma inv_close: "transport_inv t \<Longrightarrow> transport_inv (fail_transport (t\<lparr>tr_closed := b\<rparr>) e)"
  by (auto simp: transport_inv_def comp_def)

lemma known_resolve: "i \<in> set (tr_pending t) \<Longrightarrow> known_calls (resolve_call t i res) = known_calls t"
  by (auto simp: known_calls_def resolve_call_def)

lemma inv_resolve:
  assumes "transport_inv t" "i \<in> set (tr_pending t)"
  shows "transport_inv (resolve_call t i res)"
proof -
  have "distinct (removeAll i (tr_pending t) @ map fst (tr_ended t) @ [i])"
    using assms by (auto simp: transport_inv_def distinct_removeAll)
  moreover have "tr_next_id (resolve_call t i res) = tr_next_id t" "tr_pending (resolve_call t i res) = removeAll i (tr_pending t)"
    "map fst (tr_ended (resolve_call t i res)) = map fst (tr_ended t) @ [i]" "tr_closed (resolve_call t i res) = tr_closed t"
    "tr_error (resolve_call t i res) = tr_error t" by (simp_all add: resolve_call_def)
  ultimately show ?thesis
    using assms(1) by (auto simp: transport_inv_def known_resolve [OF assms(2)])
qed

lemma reader_fails_ok: "transport_inv t \<Longrightarrow> transport_inv (reader_fails t e) \<and> known_calls (reader_fails t e) = known_calls t"
  by (simp add: reader_fails_def inv_fail)

lemma receive_response_ok:
  "transport_inv t \<Longrightarrow> transport_inv (receive_response t m) \<and> known_calls (receive_response t m) = known_calls t"
  by (auto simp: receive_response_def inv_resolve known_resolve split: pyval.split)

lemma receive_message_ok:
  "transport_inv t \<Longrightarrow> transport_inv (receive_message t m) \<and> known_calls (receive_message t m) = known_calls t"
  using receive_response_ok reader_fails_ok by (simp add: receive_message_def)

lemma reader_step_ok:
  "transport_inv t \<Longrightarrow> transport_inv (reader_step t frame) \<and> known_calls (reader_step t frame) = known_calls t"
  using receive_message_ok reader_fails_ok by (auto simp: reader_step_def split: sum.split option.split)

lemma rpc_cases:
  obtains (refused) "tr_closed t \<or> tr_error t \<noteq> None" "rpc E t m p broken = (Inl WorkerClosedError, t)"
  | (failed) e out where "\<not> tr_closed t" "tr_error t = None"
      "rpc E t m p broken = (Inl e, t\<lparr>tr_next_id := tr_next_id t + 1, tr_pending := removeAll (tr_next_id t) (tr_pending t @ [tr_next_id t]), tr_output := out\<rparr>)"
  | (sent) frame where "\<not> tr_closed t" "tr_error t = None"
      "encode_frame E (rpc_request (tr_next_id t) m p) (PInt (tr_limit t)) = Inr frame"
      "rpc E t m p broken = (Inr (tr_next_id t), t\<lparr>tr_next_id := tr_next_id t + 1, tr_pending := tr_pending t @ [tr_next_id t], tr_output := tr_output t @ frame\<rparr>)"
proof (cases "tr_closed t \<or> tr_error t \<noteq> None")
  case True
  then show ?thesis by (intro refused) (auto simp: rpc_def)
next
  case False
  show ?thesis
  proof (cases "encode_frame E (rpc_request (tr_next_id t) m p) (PInt (tr_limit t))")
    case (Inl e)
    with False show ?thesis by (intro failed [of e "tr_output t"]) (auto simp: rpc_def Let_def)
  next
    case (Inr frame)
    with False show ?thesis
      by (cases broken) (auto simp: rpc_def Let_def intro: sent [of frame] failed [of _ "tr_output t @ frame"])
  qed
qed

lemma rpc_ok:
  assumes inv: "transport_inv t"
  shows "transport_inv (snd (rpc E t m p broken)) \<and> known_calls t \<subseteq> known_calls (snd (rpc E t m p broken)) \<and>
    (\<forall>i. fst (rpc E t m p broken) = Inr i \<longrightarrow> i \<in> known_calls (snd (rpc E t m p broken)))"
proof (rule rpc_cases [of t E m p broken])
  assume "rpc E t m p broken = (Inl WorkerClosedError, t)"
  with inv show ?thesis by simp
next
  have new: "tr_next_id t \<notin> known_calls t" using inv by (auto simp: transport_inv_def)
  have below: "\<forall>i \<in> known_calls t. i < tr_next_id t + 1" using inv by (fastforce simp: transport_inv_def)
  {
    fix e out assume "rpc E t m p broken = (Inl e, t\<lparr>tr_next_id := tr_next_id t + 1,
      tr_pending := removeAll (tr_next_id t) (tr_pending t @ [tr_next_id t]), tr_output := out\<rparr>)"
    moreover have "removeAll (tr_next_id t) (tr_pending t @ [tr_next_id t]) = tr_pending t" using new by (simp add: known_calls_def)
    moreover have "transport_inv (t\<lparr>tr_next_id := tr_next_id t + 1, tr_output := out\<rparr>)"
      using inv below by (simp add: transport_inv_def known_calls_def)
    ultimately show ?thesis by (simp add: known_calls_def)
  next
    fix frame assume "\<not> tr_closed t" "tr_error t = None" "rpc E t m p broken = (Inr (tr_next_id t), t\<lparr>tr_next_id := tr_next_id t + 1,
      tr_pending := tr_pending t @ [tr_next_id t], tr_output := tr_output t @ frame\<rparr>)"
    with inv new below show ?thesis by (simp add: transport_inv_def known_calls_def) blast
  }
qed

lemma transport_step_ok:
  assumes "transport_inv t"
  shows "transport_inv (transport_step E t ev) \<and> known_calls t \<subseteq> known_calls (transport_step E t ev)"
proof (cases ev)
  case (Timeout i)
  have "transport_inv (fail_transport (resolve_call t i (Inl WorkerTimeoutError)\<lparr>tr_closing := True, tr_closed := True\<rparr>) WorkerTimeoutError)"
    if "i \<in> set (tr_pending t)"
    using inv_close [of "resolve_call t i (Inl WorkerTimeoutError)\<lparr>tr_closing := True\<rparr>"] inv_resolve [OF assms that] by simp
  with Timeout assms show ?thesis
    by (simp add: transport_step_def rpc_timeout_def abort_transport_def known_resolve)
next
  case (Call m p b)
  with rpc_ok [OF assms] show ?thesis by (simp add: transport_step_def)
next
  case (Frame f)
  with reader_step_ok [OF assms] show ?thesis by (simp add: transport_step_def)
next
  case CloseEnds
  with inv_close [OF assms] show ?thesis by (simp add: transport_step_def close_ends_def)
qed (use assms in \<open>auto simp: transport_step_def receive_event_def close_begins_def split: list.split\<close>)

lemma validate_wire_message_same: "validate_wire_message (PDict d) = Inr m \<Longrightarrow> m = d"
  by (auto simp: validate_wire_message_def split: pyval.splits if_splits)

lemma response_carries:
  assumes "validate_wire_message (PDict d) = Inr d" "dget d ''kind'' = Some (PStr ''response'')" "dget d ''ok'' = Some (PBool True)"
    "dget d ''request_id'' = Some (PInt i)"
  obtains r where "carries d (Result i r)" "dget d ''result'' = Some (PDict r)"
proof -
  obtain w where w: "wire_ok w" "carries d w" using assms(1) validate_wire_message_Inr by blast
  from w(2) assms(2-4) obtain r where "w = Result i r" by (cases w) (auto simp: carries_def)
  moreover from this w(2) have "dget d ''result'' = Some (PDict r)" by (auto simp: carries_def)
  ultimately show thesis using w(2) that by blast
qed

lemma fail_answers [simp]: "(i, Inr v) \<in> set (tr_ended (fail_transport t e)) \<longleftrightarrow> (i, Inr v) \<in> set (tr_ended t)"
  by auto

lemma reader_fails_answers [simp]: "(i, Inr v) \<in> set (tr_ended (reader_fails t e)) \<longleftrightarrow> (i, Inr v) \<in> set (tr_ended t)"
  by (auto simp: reader_fails_def)

lemma resolve_answers: "(i, Inr v) \<in> set (tr_ended (resolve_call t j res)) \<Longrightarrow> (i, Inr v) \<in> set (tr_ended t) \<or> i = j \<and> res = Inr v"
  by (auto simp: resolve_call_def)

lemma dget_or_Some: "dget_or d k PNone = v \<Longrightarrow> v \<noteq> PNone \<Longrightarrow> dget d k = Some v"
  by (auto simp: dget_or_def split: option.splits)

lemma receive_response_answers:
  assumes "validate_wire_message (PDict d) = Inr d" "dget d ''kind'' = Some (PStr ''response'')"
    and "(i, Inr v) \<in> set (tr_ended (receive_response t d))"
  shows "(i, Inr v) \<in> set (tr_ended t) \<or> answers (Frame (Inr (Some d))) i v"
proof (rule ccontr)
  assume new: "\<not> ?thesis"
  obtain j where j: "dget_or d ''request_id'' PNone = PInt j" "dget_or d ''ok'' PNone = PBool True" "i = j" "v = dget_or d ''result'' PNone"
    using new assms(3) by (auto simp: receive_response_def resolve_call_def split: pyval.splits if_splits)
  obtain r where "carries d (Result j r)" "dget d ''result'' = Some (PDict r)"
    by (rule response_carries [OF assms(1,2) dget_or_Some [OF j(2)] dget_or_Some [OF j(1)]]) simp_all
  with new j(3,4) show False by (auto simp: answers_def dget_or_def)
qed

lemma reader_step_answers:
  assumes "(i, Inr v) \<in> set (tr_ended (reader_step t frame))"
  shows "(i, Inr v) \<in> set (tr_ended t) \<or> answers (Frame frame) i v"
proof (cases "\<exists>raw. frame = Inr (Some raw) \<and> validate_wire_message (PDict raw) = Inr raw \<and> dget_or raw ''kind'' PNone = PStr ''response''")
  case True
  then obtain raw where raw: "frame = Inr (Some raw)" "validate_wire_message (PDict raw) = Inr raw" "dget_or raw ''kind'' PNone = PStr ''response''"
    by blast
  have k: "dget raw ''kind'' = Some (PStr ''response'')" by (rule dget_or_Some [OF raw(3)]) simp
  show ?thesis
    using assms receive_response_answers [OF raw(2) k, of i v t] raw by (auto simp: reader_step_def receive_message_def split: if_splits)
next
  case False
  then show ?thesis
    using assms by (auto simp: reader_step_def receive_message_def split: if_splits sum.splits option.splits dest: validate_wire_message_same)
qed

lemma transport_step_answers:
  "(i, Inr v) \<in> set (tr_ended (transport_step E t ev)) \<Longrightarrow> (i, Inr v) \<in> set (tr_ended t) \<or> answers ev i v"
proof (cases ev)
  case (Call m p b)
  then show "(i, Inr v) \<in> set (tr_ended (transport_step E t ev)) \<Longrightarrow> ?thesis"
    by (cases rule: rpc_cases [of t E m p b]) (auto simp: transport_step_def)
next
  case (Frame f)
  then show "(i, Inr v) \<in> set (tr_ended (transport_step E t ev)) \<Longrightarrow> ?thesis"
    using reader_step_answers by (simp add: transport_step_def)
next
  case (Timeout j)
  then show "(i, Inr v) \<in> set (tr_ended (transport_step E t ev)) \<Longrightarrow> ?thesis"
    by (auto simp: transport_step_def rpc_timeout_def abort_transport_def dest!: resolve_answers split: if_splits)
qed (auto simp: transport_step_def receive_event_def close_begins_def close_ends_def split: if_splits list.splits)

lemma foldl_transport:
  "transport_inv t \<Longrightarrow> transport_inv (foldl (transport_step E) t evs) \<and> known_calls t \<subseteq> known_calls (foldl (transport_step E) t evs) \<and>
     (\<forall>i v. (i, Inr v) \<in> set (tr_ended (foldl (transport_step E) t evs)) \<longrightarrow> (i, Inr v) \<in> set (tr_ended t) \<or> (\<exists>ev \<in> set evs. answers ev i v))"
proof (induction evs arbitrary: t)
  case (Cons ev evs)
  note step = transport_step_ok [OF Cons.prems, of E ev]
  with Cons.IH [of "transport_step E t ev"] transport_step_answers show ?case by (auto; blast)
qed simp

lemma inv_spawned: "transport_inv (SubprocessWorker limit event_limit)"
  by (simp add: transport_inv_def known_calls_def SubprocessWorker_def)

text \<open>
  C31. Calls and answers. Whatever arrives from the worker, whenever calls time out, the pipe
  breaks or the port is closed: a call that was sent is from then on either waiting or ended, never
  both and never ended twice; it ends with a result only if the worker sent a well-formed response
  with its number and this result; and once the port is closed or failed, no call waits any more
  and every further call raises \<^verbatim>\<open>WorkerClosedError\<close>.
\<close>

theorem calls_end_once_with_their_answer:
  assumes "t = foldl (transport_step E) (SubprocessWorker limit event_limit) evs"
  shows "distinct (tr_pending t @ map fst (tr_ended t)) \<and>
    (\<forall>i v. (i, Inr v) \<in> set (tr_ended t) \<longrightarrow> (\<exists>d r. Frame (Inr (Some d)) \<in> set evs \<and> carries d (Result i r) \<and> v = PDict r)) \<and>
    (\<forall>m p i later. fst (rpc E t m p None) = Inr i \<longrightarrow>
       i \<in> known_calls (foldl (transport_step E) (snd (rpc E t m p None)) later) \<and> i \<notin> known_calls t) \<and>
    (tr_closed t \<or> tr_error t \<noteq> None \<longrightarrow> tr_pending t = [] \<and> (\<forall>m p b. rpc E t m p b = (Inl WorkerClosedError, t)))"
proof -
  note F = foldl_transport [OF inv_spawned, of E limit event_limit evs, folded assms]
  have inv: "transport_inv t" using F by blast
  have known: "i \<in> known_calls (foldl (transport_step E) (snd (rpc E t m p None)) later)" if "fst (rpc E t m p None) = Inr i" for m p i later
    using rpc_ok [OF inv, of E m p None] foldl_transport [of "snd (rpc E t m p None)" E later] that by blast
  have fresh: "i \<notin> known_calls t" if "fst (rpc E t m p None) = Inr i" for m p i
    using that inv by (cases rule: rpc_cases [of t E m p None]) (auto simp: transport_inv_def)
  have "rpc E t m p b = (Inl WorkerClosedError, t)" if "tr_closed t \<or> tr_error t \<noteq> None" for m p b
    using that by (auto simp: rpc_def)
  moreover have "\<exists>d r. Frame (Inr (Some d)) \<in> set evs \<and> carries d (Result i r) \<and> v = PDict r" if "(i, Inr v) \<in> set (tr_ended t)" for i v
  proof -
    from F that have "\<exists>ev \<in> set evs. answers ev i v" by (auto simp: SubprocessWorker_def)
    then show ?thesis unfolding answers_def by blast
  qed
  ultimately show ?thesis using inv known fresh unfolding transport_inv_def by blast
qed


definition one_call :: "transport_event list" where
  "one_call = [Call ''get_state'' (PDict []) None, Call ''stop'' (PDict []) None,
     Frame (Inr (Some [(PStr ''kind'', PStr ''response''), (PStr ''version'', PInt 1), (PStr ''request_id'', PInt 1), (PStr ''ok'', PBool True),
       (PStr ''result'', PDict [(PStr ''x'', PInt 7)])])), Timeout 2]"

lemma calls_end_once_witness:
  "\<exists>d r. Frame (Inr (Some d)) \<in> set one_call \<and> carries d (Result 1 r) \<and> PDict [(PStr ''x'', PInt 7)] = PDict r"
proof -
  define t where "t = foldl (transport_step copy_env) (SubprocessWorker 4194304 8) one_call"
  have "(1, Inr (PDict [(PStr ''x'', PInt 7)])) \<in> set (tr_ended t)"
    unfolding t_def by code_simp
  with calls_end_once_with_their_answer [of t copy_env 4194304 8 one_call] show ?thesis
    unfolding t_def by blast
qed

end
