(* ===== verification/RobotClient.thy ===== *)
theory RobotClient
  imports ServerSafety
begin

text \<open>
  The v1 client, \<^verbatim>\<open>robot_client.py\<close>: the connection with its receiver task, the upload of a program in
  chunks, the streaming of the rest while it runs, and the loop that waits for the end of the run.
  A connection is a record; each piece of a coroutine between two awaits is one function on it. A
  future is a value of the datatype \<open>future\<close>; messages sent are recorded in order.
\<close>

section \<open>Splitting a program\<close>

definition split_chunks :: "'a list \<Rightarrow> int \<Rightarrow> 'a list list result" where
  "split_chunks ps chunk_points =
     (if chunk_points = 0 then Inl ValueError
      else if chunk_points < 0 then Inr []
      else let n = nat chunk_points in Inr (map (\<lambda>k. take n (drop (k * n) ps)) [0..<(length ps + n - 1) div n]))"

section \<open>The connection\<close>

datatype future = Waiting | Resolved pydict | Rejected exn

record stream_client =
  sc_sent :: "pyval list"
  sc_events :: "pydict list"
  sc_receipts :: "(int \<times> future) list"
  sc_progress_changed :: bool
  sc_cursor_us :: int
  sc_accepted_until_us :: int
  sc_receiving :: bool
  sc_open :: bool

definition RobotStreamClient :: stream_client where
  "RobotStreamClient = \<lparr>sc_sent = [], sc_events = [], sc_receipts = [], sc_progress_changed = False, sc_cursor_us = 0,
     sc_accepted_until_us = 0, sc_receiving = True, sc_open = True\<rparr>"

text \<open>A message sent is appended to the log; on a connection that is closed the socket raises.\<close>

definition client_send :: "stream_client \<Rightarrow> pyval \<Rightarrow> stream_client result" where
  "client_send c message = raise_if (\<not> sc_open c) ConnectionClosed (Inr (c\<lparr>sc_sent := sc_sent c @ [message]\<rparr>))"

definition hello_of :: "string \<Rightarrow> pyval" where
  "hello_of token = mkdict [(''type'', PStr ''hello''), (''protocol'', PStr PROTOCOL), (''token'', PStr token)]"

text \<open>\<^verbatim>\<open>open\<close>: the greeting, and what it makes of the welcome.\<close>

definition client_open :: "string \<Rightarrow> stream_client result" where
  "client_open token = client_send RobotStreamClient (hello_of token)"

definition check_welcome :: "pydict \<Rightarrow> unit result" where
  "check_welcome welcome = raise_if (\<not> py_eq (dget_or welcome ''protocol'' PNone) (PStr PROTOCOL)) RuntimeError (Inr ())"

text \<open>\<^verbatim>\<open>wait_for\<close> on the queued events: an event, an exception, or nothing yet; events passed over are gone.\<close>

fun wait_for :: "string \<Rightarrow> pydict list \<Rightarrow> pydict result option \<times> pydict list" where
  "wait_for wanted [] = (None, [])"
| "wait_for wanted (e # es) =
     (if py_eq (dget_or e ''type'' PNone) (PStr ''error'') then (Some (Inl RuntimeError), es)
      else if py_eq (dget_or e ''type'' PNone) (PStr wanted) then (Some (Inr e), es)
      else wait_for wanted es)"

definition chunk_message :: "pyenv \<Rightarrow> int \<Rightarrow> trajectory_point list \<Rightarrow> bool \<Rightarrow> pyval" where
  "chunk_message E chunk_seq ps final = mkdict [(''type'', PStr ''chunk''), (''chunk_seq'', PInt chunk_seq),
     (''points'', PList (map point_record ps)), (''final'', PBool final), (''digest'', PStr (chunk_digest E chunk_seq ps final))]"

text \<open>\<^verbatim>\<open>send_chunk\<close> before and after it awaits the receipt.\<close>

definition begin_chunk :: "pyenv \<Rightarrow> stream_client \<Rightarrow> int \<Rightarrow> trajectory_point list \<Rightarrow> bool \<Rightarrow> unit result \<times> stream_client" where
  "begin_chunk E c chunk_seq ps final =
     (let c1 = c\<lparr>sc_receipts := AList.update chunk_seq Waiting (sc_receipts c)\<rparr>
      in case client_send c1 (chunk_message E chunk_seq ps final) of Inl e \<Rightarrow> (Inl e, c1) | Inr c2 \<Rightarrow> (Inr (), c2))"

definition end_chunk :: "stream_client \<Rightarrow> int \<Rightarrow> pydict result option \<times> stream_client" where
  "end_chunk c chunk_seq = (let c' = c\<lparr>sc_receipts := AList.delete chunk_seq (sc_receipts c)\<rparr> in
     case map_of (sc_receipts c) chunk_seq of
       Some (Resolved d) \<Rightarrow> (Some (Inr d), c')
     | Some (Rejected e) \<Rightarrow> (Some (Inl e), c')
     | _ \<Rightarrow> (None, c))"

section \<open>The receiver task\<close>

definition reject_waiting :: "stream_client \<Rightarrow> stream_client" where
  "reject_waiting c = c\<lparr>sc_receipts := map (\<lambda>(k, f). (k, if f = Waiting then Rejected RuntimeError else f)) (sc_receipts c)\<rparr>"

definition resolve_receipt :: "stream_client \<Rightarrow> int \<Rightarrow> pydict \<Rightarrow> stream_client" where
  "resolve_receipt c chunk_seq event =
     (if map_of (sc_receipts c) chunk_seq = Some Waiting
      then c\<lparr>sc_receipts := AList.update chunk_seq (Resolved event) (sc_receipts c)\<rparr> else c)"

text \<open>One event, up to an exception.\<close>

definition note_receipts :: "stream_client \<Rightarrow> pydict \<Rightarrow> unit result \<times> stream_client" where
  "note_receipts c event =
     (if py_eq (dget_or event ''type'' PNone) (PStr ''chunk_accepted'') then
        (case bind (dindex event ''chunk_seq'') py_int of
           Inl e \<Rightarrow> (Inl e, c)
         | Inr chunk_seq \<Rightarrow> (Inr (), resolve_receipt c chunk_seq event))
      else if py_eq (dget_or event ''type'' PNone) (PStr ''error'') then (Inr (), reject_waiting c)
      else (Inr (), c))"

definition note_cursor :: "stream_client \<Rightarrow> pydict \<Rightarrow> unit result \<times> stream_client" where
  "note_cursor c event = (case dget event ''execution_cursor_us'' of
      None \<Rightarrow> (Inr (), c)
    | Some v \<Rightarrow> (case py_int v of Inl e \<Rightarrow> (Inl e, c) | Inr n \<Rightarrow> (Inr (), c\<lparr>sc_cursor_us := n\<rparr>)))"

definition note_accepted :: "stream_client \<Rightarrow> pydict \<Rightarrow> unit result \<times> stream_client" where
  "note_accepted c event = (case dget event ''accepted_until_us'' of
      None \<Rightarrow> (Inr (), c)
    | Some v \<Rightarrow> (case py_int v of Inl e \<Rightarrow> (Inl e, c) | Inr n \<Rightarrow> (Inr (), c\<lparr>sc_accepted_until_us := n\<rparr>)))"

definition seq_steps :: "unit result \<times> stream_client \<Rightarrow> (stream_client \<Rightarrow> unit result \<times> stream_client) \<Rightarrow> unit result \<times> stream_client" where
  "seq_steps x f = (case x of (Inl e, c) \<Rightarrow> (Inl e, c) | (Inr u, c) \<Rightarrow> f c)"

definition receive_client_event :: "stream_client \<Rightarrow> pydict \<Rightarrow> unit result \<times> stream_client" where
  "receive_client_event c event =
     seq_steps (seq_steps (seq_steps (note_receipts c event) (\<lambda>c. note_cursor c event)) (\<lambda>c. note_accepted c event))
       (\<lambda>c. (Inr (), c\<lparr>sc_progress_changed := True, sc_events := sc_events c @ [event]\<rparr>))"

definition lost_event :: "string \<Rightarrow> string \<Rightarrow> pydict" where
  "lost_event code text = the_dict (mkdict [(''type'', PStr ''connection_closed''), (''code'', PStr code), (''message'', PStr text)])"

text \<open>
  The end of the task: the iteration over the socket ends silently when the peer closes normally,
  and raises otherwise; \<open>text\<close> is the text of the exception. Only the first two close the socket.
\<close>

datatype stream_end = ClosedNormally | ClosedAbnormally string | ReceiveFailed string

definition end_receiver :: "stream_client \<Rightarrow> stream_end \<Rightarrow> stream_client" where
  "end_receiver c how =
     (let c1 = (case how of
            ClosedNormally \<Rightarrow> c
          | ClosedAbnormally text \<Rightarrow> c\<lparr>sc_events := sc_events c @ [lost_event ''CONNECTION_CLOSED'' text]\<rparr>
          | ReceiveFailed text \<Rightarrow> c\<lparr>sc_events := sc_events c @ [lost_event ''CLIENT_RECEIVE_FAILED'' text]\<rparr>)
      in (reject_waiting c1)\<lparr>sc_receiving := False\<rparr>)"

text \<open>The socket ends: the receiver, when it still runs, notices.\<close>

definition socket_ends :: "stream_client \<Rightarrow> stream_end \<Rightarrow> stream_client" where
  "socket_ends c how =
     (if sc_receiving c then end_receiver c how else c)
       \<lparr>sc_open := (case how of ReceiveFailed text \<Rightarrow> sc_open c | _ \<Rightarrow> False)\<rparr>"

definition receive_raw :: "pyenv \<Rightarrow> (exn \<Rightarrow> string) \<Rightarrow> stream_client \<Rightarrow> string \<Rightarrow> stream_client" where
  "receive_raw E text_of c raw =
     (if \<not> sc_receiving c then c
      else case json_loads E raw of
        Inl e \<Rightarrow> end_receiver c (ReceiveFailed (text_of e))
      | Inr (PDict event) \<Rightarrow>
          (case receive_client_event c event of
             (Inl e, c1) \<Rightarrow> end_receiver c1 (ReceiveFailed (text_of e))
           | (Inr u, c1) \<Rightarrow> c1)
      | Inr _ \<Rightarrow> c)"

section \<open>Running a program\<close>

definition open_message :: "pyenv \<Rightarrow> string \<Rightarrow> program_header \<Rightarrow> string \<Rightarrow> trajectory_point list \<Rightarrow> string \<Rightarrow> pyval" where
  "open_message E rid h mode ps disconnect = mkdict [(''type'', PStr ''open_run''), (''run_id'', PStr rid), (''header'', header_record h),
     (''run_mode'', PStr mode), (''program_digest'', PStr (program_digest E h ps)), (''disconnect_policy'', PStr disconnect)]"

definition start_message :: pyval where
  "start_message = mkdict [(''type'', PStr ''start'')]"

definition heartbeat_message :: pyval where
  "heartbeat_message = mkdict [(''type'', PStr ''heartbeat'')]"

definition cancel_message :: "string \<Rightarrow> pyval" where
  "cancel_message reason = mkdict [(''type'', PStr ''cancel''), (''reason'', PStr reason)]"

definition micros :: "pyfloat \<Rightarrow> int result" where
  "micros seconds = float_to_int (fmul seconds (Fin 1000000))"

text \<open>
  Where \<^verbatim>\<open>run_program\<close> waits: for the welcome, for the run to be opened, for the receipt of chunk
  \<open>k\<close>, in its event loop, in the pause after a cancellation, or nowhere any more. The producer task
  is before it starts, waiting for progress before chunk \<open>k\<close>, waiting for the receipt of chunk \<open>k\<close>,
  or over.
\<close>

datatype client_pc = Greeting | Opening | Uploading nat | Watching | Cancelling | Finished "int result"

datatype producer = NoProducer | ProducerStarts nat | WaitingProgress nat | WaitingReceipt nat | Ended "unit result"

record client_run =
  cn_header :: program_header
  cn_points :: "trajectory_point list"
  cn_chunks :: "trajectory_point list list"
  cn_sealed :: bool
  cn_target_ahead :: pyfloat
  cn_open_run :: pyval
  cn_client :: stream_client
  cn_pc :: client_pc
  cn_producer :: producer
  cn_last_second :: int

definition last_chunk :: "client_run \<Rightarrow> nat \<Rightarrow> bool" where
  "last_chunk r k \<longleftrightarrow> k = length (cn_chunks r) - 1"

definition with_client :: "client_run \<Rightarrow> stream_client \<Rightarrow> client_run" where
  "with_client r c = r\<lparr>cn_client := c\<rparr>"

text \<open>\<^verbatim>\<open>run_program\<close> up to its first await; the request to open the run is sent after the welcome.\<close>

definition run_program :: "pyenv \<Rightarrow> string \<Rightarrow> program_header \<Rightarrow> trajectory_point list \<Rightarrow> int \<Rightarrow> bool \<Rightarrow> string \<Rightarrow> pyfloat \<Rightarrow> string
    \<Rightarrow> client_run result" where
  "run_program E rid h ps chunk_points sealed disconnect target_ahead token =
     bind (split_chunks ps chunk_points) (\<lambda>chunks. bind (client_open token) (\<lambda>c.
     Inr \<lparr>cn_header = h, cn_points = ps, cn_chunks = chunks, cn_sealed = sealed, cn_target_ahead = target_ahead,
          cn_open_run = open_message E rid h (if sealed then ''sealed'' else ''streaming'') ps disconnect,
          cn_client = c, cn_pc = Greeting, cn_producer = NoProducer, cn_last_second = -1\<rparr>))"

definition close_client :: "stream_client \<Rightarrow> stream_client" where
  "close_client c = (if sc_receiving c then end_receiver c ClosedNormally else c)\<lparr>sc_open := False\<rparr>"

text \<open>The end of the run: both tasks end and the connection is closed.\<close>

definition finish_run :: "client_run \<Rightarrow> int result \<Rightarrow> client_run" where
  "finish_run r res = r\<lparr>cn_client := close_client (cn_client r), cn_pc := Finished res, cn_producer := NoProducer\<rparr>"

text \<open>
  An exception: during the greeting it passes through, before the start the connection is closed,
  after it the run is cancelled first, with a pause when the client was interrupted.
\<close>

definition run_fails :: "client_run \<Rightarrow> exn \<Rightarrow> client_run" where
  "run_fails r e = (case cn_pc r of
      Greeting \<Rightarrow> r\<lparr>cn_pc := Finished (Inl e)\<rparr>
    | Watching \<Rightarrow>
        (case client_send (cn_client r)
            (cancel_message (if e = CancelledError then ''client interrupted'' else ''client-side failure'')) of
           Inl e' \<Rightarrow> finish_run r (Inl e)
         | Inr c \<Rightarrow> if e = CancelledError then (with_client r c)\<lparr>cn_pc := Cancelling\<rparr>
             else finish_run (with_client r c) (Inl e))
    | _ \<Rightarrow> finish_run r (Inl e))"

definition welcomed :: "client_run \<Rightarrow> pydict \<Rightarrow> client_run" where
  "welcomed r welcome = (case check_welcome welcome of
      Inl e \<Rightarrow> finish_run r (Inl e)
    | Inr u \<Rightarrow> (case client_send (cn_client r) (cn_open_run r) of
          Inl e \<Rightarrow> finish_run r (Inl e)
        | Inr c \<Rightarrow> (with_client r c)\<lparr>cn_pc := Opening\<rparr>))"

definition send_next :: "pyenv \<Rightarrow> client_run \<Rightarrow> nat \<Rightarrow> unit result \<times> client_run" where
  "send_next E r k = (case begin_chunk E (cn_client r) (int k) (cn_chunks r ! k) (last_chunk r k) of
      (res, c) \<Rightarrow> (res, with_client r c))"

text \<open>The producer from chunk \<open>k\<close> on, up to its next await; its look-ahead is computed when it is created.\<close>

definition look_ahead_us :: "client_run \<Rightarrow> int" where
  "look_ahead_us r = (case micros (cn_target_ahead r) of Inr n \<Rightarrow> n | Inl e \<Rightarrow> 0)"

definition produce :: "pyenv \<Rightarrow> client_run \<Rightarrow> nat \<Rightarrow> client_run" where
  "produce E r k =
     (if length (cn_chunks r) \<le> k then r\<lparr>cn_producer := Ended (Inr ())\<rparr>
      else if t_us (last (cn_chunks r ! k)) - sc_cursor_us (cn_client r) > look_ahead_us r
      then (with_client r ((cn_client r)\<lparr>sc_progress_changed := False\<rparr>))\<lparr>cn_producer := WaitingProgress k\<rparr>
      else (case send_next E r k of
          (Inl e, r1) \<Rightarrow> r1\<lparr>cn_producer := Ended (Inl e)\<rparr>
        | (Inr u, r1) \<Rightarrow> r1\<lparr>cn_producer := WaitingReceipt k\<rparr>))"

definition start_run :: "client_run \<Rightarrow> nat \<Rightarrow> client_run" where
  "start_run r next_chunk = (case client_send (cn_client r) start_message of
      Inl e \<Rightarrow> run_fails r e
    | Inr c \<Rightarrow> (let r1 = (with_client r c)\<lparr>cn_pc := Watching\<rparr> in
         case micros (cn_target_ahead r) of
           Inl e \<Rightarrow> run_fails r1 e
         | Inr n \<Rightarrow> r1\<lparr>cn_producer := ProducerStarts next_chunk\<rparr>))"

text \<open>The upload before the start: all chunks of a sealed run, else until the prebuffer is acknowledged.\<close>

definition upload_from :: "pyenv \<Rightarrow> client_run \<Rightarrow> nat \<Rightarrow> client_run" where
  "upload_from E r k =
     (if k < length (cn_chunks r) then
        (case send_next E r k of (Inl e, r1) \<Rightarrow> run_fails r1 e | (Inr u, r1) \<Rightarrow> r1\<lparr>cn_pc := Uploading k\<rparr>)
      else start_run r (length (cn_chunks r)))"

definition prebuffer_us :: "client_run \<Rightarrow> int result" where
  "prebuffer_us r = bind (micros (cn_target_ahead r)) (\<lambda>n. Inr (min n (t_us (last (cn_points r)))))"

definition opened :: "pyenv \<Rightarrow> client_run \<Rightarrow> pydict \<Rightarrow> client_run" where
  "opened E r event = (case dindex event ''run_id'' of
      Inl e \<Rightarrow> run_fails r e
    | Inr v \<Rightarrow> if cn_sealed r then upload_from E r 0
        else (case prebuffer_us r of Inl e \<Rightarrow> run_fails r e | Inr n \<Rightarrow> upload_from E r 0))"

text \<open>
  A field that is printed: divided by a float, or only with a number format, which a string refuses
  with another exception.
\<close>

definition as_number :: "exn \<Rightarrow> pyval \<Rightarrow> pyfloat result" where
  "as_number text_error v = (case v of
      PInt n \<Rightarrow> int_to_float n
    | PBool b \<Rightarrow> Inr (Fin (if b then 1 else 0))
    | PFloat f \<Rightarrow> Inr f
    | PStr s \<Rightarrow> Inl text_error
    | _ \<Rightarrow> Inl TypeError)"

definition printed :: "pydict \<Rightarrow> string \<Rightarrow> pyfloat result" where
  "printed d k = bind (dindex d k) (as_number TypeError)"

definition print_progress :: "pydict \<Rightarrow> unit result" where
  "print_progress event = bind (printed event ''execution_cursor_us'') (\<lambda>_. bind (printed event ''queued_ahead_us'') (\<lambda>_.
     bind (bind (dindex event ''tracking_error_deg'') (as_number ValueError)) (\<lambda>_. Inr ())))"

definition print_receipt :: "pydict \<Rightarrow> unit result" where
  "print_receipt receipt = bind (printed receipt ''accepted_until_us'') (\<lambda>_. bind (printed receipt ''queued_ahead_us'') (\<lambda>_. Inr ()))"

definition uploaded :: "pyenv \<Rightarrow> client_run \<Rightarrow> nat \<Rightarrow> pydict \<Rightarrow> client_run" where
  "uploaded E r k receipt = (case printed receipt ''accepted_until_us'' of
      Inl e \<Rightarrow> run_fails r e
    | Inr u \<Rightarrow>
        if cn_sealed r then upload_from E r (Suc k)
        else (case prebuffer_us r of
           Inl e \<Rightarrow> run_fails r e
         | Inr n \<Rightarrow> if (case dget_or receipt ''accepted_until_us'' PNone of
                 PInt m \<Rightarrow> n \<le> m | PFloat f \<Rightarrow> fle (Fin (of_int n)) f | PBool b \<Rightarrow> n \<le> (if b then 1 else 0) | _ \<Rightarrow> False)
             then start_run r (Suc k) else upload_from E r (Suc k)))"


section \<open>The event loop and the producer\<close>

definition watch_event :: "client_run \<Rightarrow> pydict \<Rightarrow> client_run" where
  "watch_event r event =
     (let k = dget_or event ''type'' PNone in
      if py_eq k (PStr ''telemetry'') then
        (case py_int (dget_or event ''execution_cursor_us'' (PInt 0)) of
           Inl e \<Rightarrow> run_fails r e
         | Inr n \<Rightarrow>
             let second = n div 1000000 in
             if second = cn_last_second r then r
             else (case print_progress event of
                Inl e \<Rightarrow> run_fails r e
              | Inr u \<Rightarrow> r\<lparr>cn_last_second := second\<rparr>))
      else if py_eq k (PStr ''fault'') then r
      else if py_eq k (PStr ''run_finished'') then
        finish_run r (Inr (if py_eq (dget_or event ''outcome'' PNone) (PStr ''completed'') then 0 else 1))
      else if py_eq k (PStr ''error'') \<or> py_eq k (PStr ''connection_closed'') then run_fails r RuntimeError
      else r)"

definition take_events :: "client_run \<Rightarrow> pydict list \<Rightarrow> client_run" where
  "take_events r es = r\<lparr>cn_client := (cn_client r)\<lparr>sc_events := es\<rparr>\<rparr>"

text \<open>\<^verbatim>\<open>run_program\<close> from one await to the next, as far as it gets now.\<close>

definition main_step :: "pyenv \<Rightarrow> client_run \<Rightarrow> client_run" where
  "main_step E r = (case cn_pc r of
      Greeting \<Rightarrow> (case wait_for ''welcome'' (sc_events (cn_client r)) of
          (None, es) \<Rightarrow> take_events r es
        | (Some (Inl e), es) \<Rightarrow> run_fails (take_events r es) e
        | (Some (Inr event), es) \<Rightarrow> welcomed (take_events r es) event)
    | Opening \<Rightarrow> (case wait_for ''run_opened'' (sc_events (cn_client r)) of
          (None, es) \<Rightarrow> take_events r es
        | (Some (Inl e), es) \<Rightarrow> run_fails (take_events r es) e
        | (Some (Inr event), es) \<Rightarrow> opened E (take_events r es) event)
    | Uploading k \<Rightarrow> (case end_chunk (cn_client r) (int k) of
          (None, c) \<Rightarrow> with_client r c
        | (Some (Inl e), c) \<Rightarrow> run_fails (with_client r c) e
        | (Some (Inr receipt), c) \<Rightarrow> uploaded E (with_client r c) k receipt)
    | Watching \<Rightarrow> (case cn_producer r of
          Ended (Inl e) \<Rightarrow> run_fails r e
        | _ \<Rightarrow> (case sc_events (cn_client r) of
              [] \<Rightarrow> r
            | event # es \<Rightarrow> watch_event (take_events r es) event))
    | Cancelling \<Rightarrow> finish_run r (Inl CancelledError)
    | Finished res \<Rightarrow> r)"

definition producer_step :: "pyenv \<Rightarrow> client_run \<Rightarrow> client_run" where
  "producer_step E r = (case cn_producer r of
      ProducerStarts k \<Rightarrow> produce E r k
    | WaitingProgress k \<Rightarrow> if sc_progress_changed (cn_client r) then produce E r k else r
    | WaitingReceipt k \<Rightarrow> (case end_chunk (cn_client r) (int k) of
          (None, c) \<Rightarrow> with_client r c
        | (Some (Inl e), c) \<Rightarrow> (with_client r c)\<lparr>cn_producer := Ended (Inl e)\<rparr>
        | (Some (Inr receipt), c) \<Rightarrow>
            (case print_receipt receipt of
               Inl e \<Rightarrow> (with_client r c)\<lparr>cn_producer := Ended (Inl e)\<rparr>
             | Inr u \<Rightarrow> produce E (with_client r c) (Suc k)))
    | _ \<Rightarrow> r)"

text \<open>The heartbeat runs from the opening of the run to its end; it dies silently with the connection.\<close>

fun has_heartbeat :: "client_pc \<Rightarrow> bool" where
  "has_heartbeat (Uploading k) = True"
| "has_heartbeat Watching = True"
| "has_heartbeat Cancelling = True"
| "has_heartbeat _ = False"

definition heartbeat_step :: "client_run \<Rightarrow> client_run" where
  "heartbeat_step r =
     (if has_heartbeat (cn_pc r)
      then (case client_send (cn_client r) heartbeat_message of Inl e \<Rightarrow> r | Inr c \<Rightarrow> with_client r c) else r)"

datatype client_event =
    MainRuns | ProducerRuns | HeartbeatDue | Interrupted
  | Received string
  | Ends stream_end

definition client_step :: "pyenv \<Rightarrow> (exn \<Rightarrow> string) \<Rightarrow> client_run \<Rightarrow> client_event \<Rightarrow> client_run" where
  "client_step E text_of r ev = (case ev of
      MainRuns \<Rightarrow> main_step E r
    | ProducerRuns \<Rightarrow> producer_step E r
    | HeartbeatDue \<Rightarrow> heartbeat_step r
    | Interrupted \<Rightarrow> (case cn_pc r of Finished res \<Rightarrow> r | _ \<Rightarrow> run_fails r CancelledError)
    | Received raw \<Rightarrow> with_client r (receive_raw E text_of (cn_client r) raw)
    | Ends how \<Rightarrow> with_client r (socket_ends (cn_client r) how))"

section \<open>The command line\<close>

definition validate_cli :: "pyenv \<Rightarrow> program_header \<Rightarrow> trajectory_point list \<Rightarrow> pyval result" where
  "validate_cli E h ps = bind (int_truediv (t_us (last ps)) 1000000) (\<lambda>duration.
     Inr (mkdict [(''valid'', PBool True), (''program_id'', PStr (ph_program_id h)), (''coordinate_mode'', PStr (ph_coordinate_mode h)),
       (''points'', PInt (int (length ps))), (''duration_s'', PFloat duration), (''sha256'', PStr (program_digest E h ps))]))"

definition check_run_arguments :: "string \<Rightarrow> int \<Rightarrow> pyfloat \<Rightarrow> unit result" where
  "check_run_arguments token chunk_points target_ahead =
     raise_if (length token < 32) SystemExit
     (raise_if (\<not> (1 \<le> chunk_points \<and> chunk_points \<le> max_chunk_points SafetyPolicy)) SystemExit
     (raise_if (\<not> (fle (Fin 2) target_ahead \<and> fle target_ahead (Fin 25))) SystemExit (Inr ())))"

text \<open>\<^verbatim>\<open>one_shot\<close> after the welcome: the message it sends, and the reply it waits for.\<close>

definition one_shot_request :: "string \<Rightarrow> (pyval \<times> string) option" where
  "one_shot_request command =
     (if command = ''status'' then Some (mkdict [(''type'', PStr ''status'')], ''status'')
      else if command = ''stop'' then Some (mkdict [(''type'', PStr ''emergency_stop'')], ''stop_accepted'') else None)"

definition one_shot_send :: "stream_client \<Rightarrow> pyval \<Rightarrow> unit result \<times> stream_client" where
  "one_shot_send c message = (case client_send c message of
      Inl e \<Rightarrow> (Inl e, close_client c) | Inr c1 \<Rightarrow> (Inr (), c1))"

definition one_shot_result :: "stream_client \<Rightarrow> string \<Rightarrow> pydict result option \<times> stream_client" where
  "one_shot_result c reply = (case wait_for reply (sc_events c) of
      (None, es) \<Rightarrow> (None, c\<lparr>sc_events := es\<rparr>)
    | (Some res, es) \<Rightarrow> (Some res, close_client (c\<lparr>sc_events := es\<rparr>)))"

end
