(* ===== verification/RobotClientSafety.thy ===== *)
theory RobotClientSafety
  imports RobotClient
begin

text \<open>
  What the v1 client sends, in every interleaving of its tasks, and that what it uploads arrives.
\<close>

section \<open>The protocol of the client\<close>

definition chunk_messages :: "pyenv \<Rightarrow> trajectory_point list list \<Rightarrow> nat \<Rightarrow> nat \<Rightarrow> pyval list" where
  "chunk_messages E chunks a b = map (\<lambda>k. chunk_message E (int k) (chunks ! k) (k = length chunks - 1)) [a..<b]"

definition spoken :: "client_run \<Rightarrow> pyval list" where
  "spoken r = filter (\<lambda>m. m \<noteq> heartbeat_message) (sc_sent (cn_client r))"

lemma chunk_messages_snoc: "a \<le> b \<Longrightarrow> chunk_messages E chunks a (Suc b) =
    chunk_messages E chunks a b @ [chunk_message E (int b) (chunks ! b) (b = length chunks - 1)]"
  by (simp add: chunk_messages_def)

lemma chunk_messages_empty [simp]: "chunk_messages E chunks a a = []"
  by (simp add: chunk_messages_def)

lemma not_heartbeat [simp]:
  "chunk_message E k ps final \<noteq> heartbeat_message" "start_message \<noteq> heartbeat_message" "cancel_message reason \<noteq> heartbeat_message"
  "hello_of token \<noteq> heartbeat_message" "open_message E rid h mode ps disconnect \<noteq> heartbeat_message"
  by (simp_all add: chunk_message_def heartbeat_message_def start_message_def cancel_message_def hello_of_def open_message_def mkdict_def)

text \<open>
  The messages after the greeting \<open>hi\<close> and the opening \<open>op\<close>: some chunks; then, once the run is
  started, the start, more chunks from there on, and once it is cancelled, the cancellation and more.
\<close>

definition upload_log :: "pyenv \<Rightarrow> pyval \<Rightarrow> client_run \<Rightarrow> nat \<Rightarrow> pyval list" where
  "upload_log E hi r m = [hi, cn_open_run r] @ chunk_messages E (cn_chunks r) 0 m"

definition started_log :: "pyenv \<Rightarrow> pyval \<Rightarrow> client_run \<Rightarrow> nat \<Rightarrow> nat \<Rightarrow> pyval list" where
  "started_log E hi r m j = upload_log E hi r m @ start_message # chunk_messages E (cn_chunks r) m j"

definition cancelled_log :: "pyenv \<Rightarrow> pyval \<Rightarrow> client_run \<Rightarrow> nat \<Rightarrow> nat \<Rightarrow> nat \<Rightarrow> string \<Rightarrow> pyval list" where
  "cancelled_log E hi r m j l reason =
     started_log E hi r m j @ cancel_message reason # chunk_messages E (cn_chunks r) j l"

definition closed_log :: "pyenv \<Rightarrow> pyval \<Rightarrow> client_run \<Rightarrow> bool" where
  "closed_log E hi r \<longleftrightarrow> spoken r = [hi] \<or> (\<exists>m \<le> length (cn_chunks r). spoken r = upload_log E hi r m) \<or>
     (\<exists>m j l. m \<le> j \<and> j \<le> l \<and> l \<le> length (cn_chunks r) \<and> (cn_sealed r \<longrightarrow> m = length (cn_chunks r)) \<and>
       (spoken r = started_log E hi r m j \<or> (\<exists>reason. spoken r = cancelled_log E hi r m j l reason)))"

lemma closed_logI:
  "spoken r = upload_log E hi r m \<Longrightarrow> m \<le> length (cn_chunks r) \<Longrightarrow> closed_log E hi r"
  "spoken r = started_log E hi r m j \<Longrightarrow> m \<le> j \<Longrightarrow> j \<le> length (cn_chunks r) \<Longrightarrow>
     cn_sealed r \<longrightarrow> m = length (cn_chunks r) \<Longrightarrow> closed_log E hi r"
  "spoken r = cancelled_log E hi r m j l reason \<Longrightarrow> m \<le> j \<Longrightarrow> j \<le> l \<Longrightarrow> l \<le> length (cn_chunks r) \<Longrightarrow>
     cn_sealed r \<longrightarrow> m = length (cn_chunks r) \<Longrightarrow> closed_log E hi r"
  unfolding closed_log_def by blast+

text \<open>The number of chunks sent, as the producer's state tells it.\<close>

fun produced :: "producer \<Rightarrow> nat \<Rightarrow> bool" where
  "produced NoProducer j = False"
| "produced (ProducerStarts k) j = (j = k)"
| "produced (WaitingProgress k) j = (j = k)"
| "produced (WaitingReceipt k) j = (j = Suc k)"
| "produced (Ended res) j = True"

definition client_inv :: "pyenv \<Rightarrow> pyval \<Rightarrow> client_run \<Rightarrow> bool" where
  "client_inv E hi r \<longleftrightarrow> (case cn_pc r of
      Greeting \<Rightarrow> spoken r = [hi] \<and> cn_producer r = NoProducer
    | Opening \<Rightarrow> spoken r = upload_log E hi r 0 \<and> cn_producer r = NoProducer
    | Uploading k \<Rightarrow> spoken r = upload_log E hi r (Suc k) \<and> k < length (cn_chunks r) \<and> cn_producer r = NoProducer
    | Watching \<Rightarrow> \<exists>m j. m \<le> j \<and> j \<le> length (cn_chunks r) \<and> (cn_sealed r \<longrightarrow> m = length (cn_chunks r)) \<and>
        produced (cn_producer r) j \<and> spoken r = started_log E hi r m j
    | Cancelling \<Rightarrow> \<exists>m j l reason. m \<le> j \<and> j \<le> l \<and> l \<le> length (cn_chunks r) \<and> (cn_sealed r \<longrightarrow> m = length (cn_chunks r)) \<and>
        produced (cn_producer r) l \<and> spoken r = cancelled_log E hi r m j l reason
    | Finished res \<Rightarrow> closed_log E hi r \<and> cn_producer r = NoProducer)"

lemma running_invI:
  "cn_pc r = Watching \<Longrightarrow> spoken r = started_log E hi r m j \<Longrightarrow> m \<le> j \<Longrightarrow> j \<le> length (cn_chunks r) \<Longrightarrow>
     cn_sealed r \<longrightarrow> m = length (cn_chunks r) \<Longrightarrow> produced (cn_producer r) j \<Longrightarrow> client_inv E hi r"
  "cn_pc r = Cancelling \<Longrightarrow> spoken r = cancelled_log E hi r m j l reason \<Longrightarrow> m \<le> j \<Longrightarrow> j \<le> l \<Longrightarrow> l \<le> length (cn_chunks r) \<Longrightarrow>
     cn_sealed r \<longrightarrow> m = length (cn_chunks r) \<Longrightarrow> produced (cn_producer r) l \<Longrightarrow> client_inv E hi r"
  unfolding client_inv_def by simp_all blast+

lemma client_sends [simp]:
  "sc_sent (reject_waiting c) = sc_sent c" "sc_sent (resolve_receipt c k d) = sc_sent c" "sc_sent (end_receiver c how) = sc_sent c"
  "sc_sent (close_client c) = sc_sent c" "sc_sent (socket_ends c how) = sc_sent c" "sc_sent (snd (end_chunk c k)) = sc_sent c"
  by (simp_all add: reject_waiting_def resolve_receipt_def end_receiver_def close_client_def socket_ends_def end_chunk_def Let_def
      split: stream_end.split option.split future.split)

lemma sent_once: "client_send c m = Inr c' \<Longrightarrow> sc_sent c' = sc_sent c @ [m]"
  by (auto simp: client_send_def)

lemma receive_sends [simp]: "sc_sent (receive_raw E text_of c raw) = sc_sent c"
proof -
  have "sc_sent c' = sc_sent c" if "receive_client_event c d = (x, c')" for d x c'
    using that by (auto simp: receive_client_event_def seq_steps_def note_receipts_def note_cursor_def note_accepted_def
        split: sum.splits option.splits prod.splits if_splits)
  then show ?thesis by (auto simp: receive_raw_def split: sum.split pyval.split prod.split)
qed

text \<open>What the parts of the state say does not depend on what the client has received.\<close>

lemma logs_cong:
  assumes "cn_open_run r' = cn_open_run r" "cn_chunks r' = cn_chunks r"
  shows "upload_log E hi r' m = upload_log E hi r m" "started_log E hi r' m j = started_log E hi r m j"
    "cancelled_log E hi r' m j l reason = cancelled_log E hi r m j l reason"
  using assms by (simp_all add: upload_log_def started_log_def cancelled_log_def)

lemma closed_log_cong:
  assumes "cn_open_run r' = cn_open_run r" "cn_chunks r' = cn_chunks r" "cn_sealed r' = cn_sealed r" "spoken r' = spoken r"
  shows "closed_log E hi r' = closed_log E hi r"
  using logs_cong [OF assms(1,2)] assms by (simp add: closed_log_def)

lemma inv_same:
  assumes "client_inv E hi r" "cn_pc r' = cn_pc r" "cn_producer r' = cn_producer r" "cn_chunks r' = cn_chunks r"
    "cn_sealed r' = cn_sealed r" "cn_open_run r' = cn_open_run r" "spoken r' = spoken r"
  shows "client_inv E hi r'"
  using assms logs_cong [OF assms(6,4)] closed_log_cong [OF assms(6,4,5,7)]
  by (simp add: client_inv_def split: client_pc.splits)

lemma inv_with_client: "client_inv E hi r \<Longrightarrow> sc_sent c = sc_sent (cn_client r) \<Longrightarrow> client_inv E hi (with_client r c)"
  by (erule inv_same) (simp_all add: with_client_def spoken_def)

lemma inv_take_events: "client_inv E hi r \<Longrightarrow> client_inv E hi (take_events r es)"
  by (erule inv_same) (simp_all add: take_events_def spoken_def)

text \<open>Ending a run from any state.\<close>

lemma inv_closed_log:
  assumes "client_inv E hi r"
  shows "closed_log E hi r"
proof (cases "cn_pc r")
  case (Uploading k)
  then have "Suc k \<le> length (cn_chunks r)" "spoken r = upload_log E hi r (Suc k)" using assms by (simp_all add: client_inv_def)
  then show ?thesis by (intro closed_logI(1))
next
  case Watching
  with assms obtain m j where "m \<le> j" "j \<le> length (cn_chunks r)" "cn_sealed r \<longrightarrow> m = length (cn_chunks r)"
    "spoken r = started_log E hi r m j" by (auto simp: client_inv_def)
  then show ?thesis unfolding closed_log_def by blast
next
  case Cancelling
  with assms obtain m j l reason where "m \<le> j" "j \<le> l" "l \<le> length (cn_chunks r)" "cn_sealed r \<longrightarrow> m = length (cn_chunks r)"
    "spoken r = cancelled_log E hi r m j l reason" by (auto simp: client_inv_def)
  then show ?thesis by (intro closed_logI(3))
qed (use assms in \<open>auto simp: client_inv_def closed_log_def\<close>)

lemma inv_finish_log: "closed_log E hi r \<Longrightarrow> client_inv E hi (finish_run r res)"
  using closed_log_cong [of "finish_run r res" r E hi] by (simp add: client_inv_def finish_run_def spoken_def)

lemma inv_finish: "client_inv E hi r \<Longrightarrow> client_inv E hi (finish_run r res)"
  by (rule inv_finish_log) (rule inv_closed_log)

lemma sel_with_client [simp]:
  "cn_pc (with_client r c) = cn_pc r" "cn_producer (with_client r c) = cn_producer r" "cn_chunks (with_client r c) = cn_chunks r"
  "cn_sealed (with_client r c) = cn_sealed r" "cn_open_run (with_client r c) = cn_open_run r" "cn_client (with_client r c) = c"
  by (simp_all add: with_client_def)

lemma spoken_update [simp]:
  "spoken (r\<lparr>cn_pc := p\<rparr>) = spoken r" "spoken (r\<lparr>cn_producer := q\<rparr>) = spoken r" "spoken (r\<lparr>cn_last_second := s\<rparr>) = spoken r"
  by (simp_all add: spoken_def)

lemma spoken_sent:
  "client_send (cn_client r) m = Inr c \<Longrightarrow> spoken (with_client r c) = (if m = heartbeat_message then spoken r else spoken r @ [m])"
  by (simp add: spoken_def sent_once)

lemma inv_fails_watching:
  assumes "spoken r = started_log E hi r m j" "m \<le> j" "j \<le> length (cn_chunks r)" "cn_sealed r \<longrightarrow> m = length (cn_chunks r)"
    "cn_pc r = Watching" "produced (cn_producer r) j \<or> e \<noteq> CancelledError"
  shows "client_inv E hi (run_fails r e)"
proof -
  have closed: "closed_log E hi r" unfolding closed_log_def using assms by blast
  define reason where "reason = (if e = CancelledError then ''client interrupted'' else ''client-side failure'')"
  show ?thesis
  proof (cases "client_send (cn_client r) (cancel_message reason)")
    case (Inl e')
    with inv_finish_log [OF closed] assms show ?thesis by (simp add: run_fails_def reason_def)
  next
    case (Inr c)
    let ?r = "with_client r c"
    have said: "spoken ?r = cancelled_log E hi ?r m j j reason"
      using assms(1) by (simp add: spoken_sent [OF Inr] cancelled_log_def started_log_def upload_log_def)
    then have "closed_log E hi ?r" using closed_logI(3) [OF said] assms by simp
    moreover have "client_inv E hi (?r\<lparr>cn_pc := Cancelling\<rparr>)" if "e = CancelledError"
      by (rule running_invI(2) [where m = m and j = j and l = j and reason = reason])
         (use assms said that logs_cong [of "?r\<lparr>cn_pc := Cancelling\<rparr>" ?r] in simp_all)
    ultimately show ?thesis using inv_finish_log Inr assms(5) by (simp add: run_fails_def reason_def)
  qed
qed

lemma inv_fails:
  assumes "client_inv E hi r"
  shows "client_inv E hi (run_fails r e)"
proof (cases "cn_pc r")
  case Greeting
  then show ?thesis using inv_closed_log [OF assms] assms closed_log_cong [of "r\<lparr>cn_pc := Finished (Inl e)\<rparr>" r E hi]
    by (simp add: run_fails_def client_inv_def)
next
  case Watching
  then obtain m j where "m \<le> j" "j \<le> length (cn_chunks r)" "cn_sealed r \<longrightarrow> m = length (cn_chunks r)"
    "spoken r = started_log E hi r m j" "produced (cn_producer r) j" using assms by (auto simp: client_inv_def)
  with Watching show ?thesis by (intro inv_fails_watching) auto
qed (use inv_finish [OF assms] in \<open>simp_all add: run_fails_def\<close>)

section \<open>Steps\<close>

lemma chunk_sent:
  assumes "send_next E r k = (res, r')"
  shows "cn_pc r' = cn_pc r" "cn_producer r' = cn_producer r" "cn_chunks r' = cn_chunks r" "cn_sealed r' = cn_sealed r"
    "cn_open_run r' = cn_open_run r"
    "spoken r' = (if res = Inr () then spoken r @ [chunk_message E (int k) (cn_chunks r ! k) (k = length (cn_chunks r) - 1)] else spoken r)"
proof -
  obtain c where c: "begin_chunk E (cn_client r) (int k) (cn_chunks r ! k) (last_chunk r k) = (res, c)" and r': "r' = with_client r c"
    using assms by (auto simp: send_next_def split: prod.splits)
  have "sc_sent c = (if res = Inr () then sc_sent (cn_client r) @ [chunk_message E (int k) (cn_chunks r ! k) (last_chunk r k)]
      else sc_sent (cn_client r))"
    using c by (auto simp: begin_chunk_def Let_def client_send_def raise_if_def split: if_splits)
  then show "spoken r' = (if res = Inr () then spoken r @ [chunk_message E (int k) (cn_chunks r ! k) (k = length (cn_chunks r) - 1)] else spoken r)"
    by (simp add: r' spoken_def last_chunk_def)
qed (use assms in \<open>auto simp: send_next_def split: prod.splits\<close>)

lemma inv_start:
  assumes "client_inv E hi r" "spoken r = upload_log E hi r m" "m \<le> length (cn_chunks r)" "cn_sealed r \<longrightarrow> m = length (cn_chunks r)"
  shows "client_inv E hi (start_run r m)"
proof (cases "client_send (cn_client r) start_message")
  case (Inl e)
  with inv_fails [OF assms(1)] show ?thesis by (simp add: start_run_def)
next
  case (Inr c)
  define r1 where "r1 = (with_client r c)\<lparr>cn_pc := Watching\<rparr>"
  have r1: "cn_pc r1 = Watching" "cn_chunks r1 = cn_chunks r" "cn_sealed r1 = cn_sealed r" by (simp_all add: r1_def)
  have said: "spoken r1 = started_log E hi r1 m m"
    using assms(2) by (simp add: r1_def spoken_sent [OF Inr] started_log_def upload_log_def)
  then have p: "client_inv E hi (r1\<lparr>cn_producer := ProducerStarts m\<rparr>)"
    by (intro running_invI(1) [where m = m and j = m])
       (use assms r1 logs_cong [of "r1\<lparr>cn_producer := ProducerStarts m\<rparr>" r1] in simp_all)
  have q: "client_inv E hi (run_fails r1 e)" if "e \<noteq> CancelledError" for e
    by (rule inv_fails_watching [OF said]) (use assms that r1 in auto)
  have "e \<noteq> CancelledError" if "micros (cn_target_ahead r) = Inl e" for e
    using that by (auto simp: micros_def elim!: float_to_int.elims)
  with p q Inr show ?thesis by (auto simp: start_run_def Let_def r1_def [symmetric] split: sum.split)
qed

lemma inv_upload:
  assumes "client_inv E hi r" "spoken r = upload_log E hi r k" "k \<le> length (cn_chunks r)" "cn_producer r = NoProducer"
  shows "client_inv E hi (upload_from E r k)"
proof (cases "k < length (cn_chunks r)")
  case True
  obtain res r1 where n: "send_next E r k = (res, r1)" by (cases "send_next E r k")
  note n' = chunk_sent [OF n]
  show ?thesis
  proof (cases res)
    case (Inl e)
    then have "client_inv E hi r1" by (intro inv_same [OF assms(1)]) (use n' in auto)
    then show ?thesis using True n Inl inv_fails by (simp add: upload_from_def)
  next
    case (Inr u)
    then have "spoken r1 = upload_log E hi r1 (Suc k)"
      using n' assms(2) by (simp add: upload_log_def chunk_messages_snoc)
    then have "client_inv E hi (r1\<lparr>cn_pc := Uploading k\<rparr>)"
      using n' True assms(4) logs_cong [of "r1\<lparr>cn_pc := Uploading k\<rparr>" r1] by (simp add: client_inv_def)
    then show ?thesis using True n Inr by (simp add: upload_from_def)
  qed
next
  case False
  with assms inv_start [of E hi r k] show ?thesis by (simp add: upload_from_def)
qed

text \<open>The producer, while the run is watched or being cancelled.\<close>

definition running_inv :: "pyenv \<Rightarrow> pyval \<Rightarrow> client_run \<Rightarrow> nat \<Rightarrow> bool" where
  "running_inv E hi r k \<longleftrightarrow> client_inv E hi (r\<lparr>cn_producer := ProducerStarts k\<rparr>) \<and> cn_pc r \<in> {Watching, Cancelling}"

lemma running_invE:
  assumes "running_inv E hi r k"
  obtains (watching) m where "cn_pc r = Watching" "m \<le> k" "k \<le> length (cn_chunks r)" "cn_sealed r \<longrightarrow> m = length (cn_chunks r)"
      "spoken r = started_log E hi r m k"
  | (cancelling) m j reason where "cn_pc r = Cancelling" "m \<le> j" "j \<le> k" "k \<le> length (cn_chunks r)"
      "cn_sealed r \<longrightarrow> m = length (cn_chunks r)" "spoken r = cancelled_log E hi r m j k reason"
proof -
  let ?r = "r\<lparr>cn_producer := ProducerStarts k\<rparr>"
  from assms consider "cn_pc r = Watching" | "cn_pc r = Cancelling" by (auto simp: running_inv_def)
  then show thesis
  proof cases
    case 1
    with assms have "\<exists>m j. m \<le> j \<and> j \<le> length (cn_chunks r) \<and> (cn_sealed r \<longrightarrow> m = length (cn_chunks r)) \<and> j = k \<and>
        spoken r = started_log E hi r m j"
      by (simp add: running_inv_def client_inv_def logs_cong [of ?r r])
    with 1 watching show thesis by blast
  next
    case 2
    with assms have "\<exists>m j l reason. m \<le> j \<and> j \<le> l \<and> l \<le> length (cn_chunks r) \<and> (cn_sealed r \<longrightarrow> m = length (cn_chunks r)) \<and>
        l = k \<and> spoken r = cancelled_log E hi r m j l reason"
      by (simp add: running_inv_def client_inv_def logs_cong [of ?r r])
    with 2 cancelling show thesis by blast
  qed
qed

lemma running_invD:
  assumes "running_inv E hi r k" "produced q k"
  shows "client_inv E hi (r\<lparr>cn_producer := q\<rparr>)"
  using assms(1)
proof (cases rule: running_invE)
  case (watching m)
  then show ?thesis
    by (intro running_invI(1) [where m = m and j = k]) (use assms(2) logs_cong [of "r\<lparr>cn_producer := q\<rparr>" r] in simp_all)
next
  case (cancelling m j reason)
  then show ?thesis
    by (intro running_invI(2) [where m = m and j = j and l = k and reason = reason])
       (use assms(2) logs_cong [of "r\<lparr>cn_producer := q\<rparr>" r] in simp_all)
qed

lemma running_le: "running_inv E hi r k \<Longrightarrow> k \<le> length (cn_chunks r)"
  by (auto simp: running_inv_def client_inv_def)

lemma running_with_client: "running_inv E hi r k \<Longrightarrow> sc_sent c = sc_sent (cn_client r) \<Longrightarrow> running_inv E hi (with_client r c) k"
  unfolding running_inv_def by (auto elim!: inv_same simp: spoken_def)

lemma running_sent:
  assumes "running_inv E hi r k" "send_next E r k = (Inr (), r')" "k < length (cn_chunks r)"
  shows "running_inv E hi r' (Suc k)"
proof -
  note n = chunk_sent [OF assms(2)]
  have logs: "upload_log E hi r' i = upload_log E hi r i" "started_log E hi r' i j = started_log E hi r i j"
    "cancelled_log E hi r' i j l reason = cancelled_log E hi r i j l reason" for i j l reason
    using logs_cong [of r' r] n by simp_all
  from assms(1) show ?thesis
  proof (cases rule: running_invE)
    case (watching m)
    then have "client_inv E hi (r'\<lparr>cn_producer := ProducerStarts (Suc k)\<rparr>)"
      by (intro running_invI(1) [where m = m and j = "Suc k"])
         (use assms(3) n logs logs_cong [of "r'\<lparr>cn_producer := ProducerStarts (Suc k)\<rparr>" r'] in
           \<open>simp_all add: started_log_def chunk_messages_snoc\<close>)
    then show ?thesis using watching n by (simp add: running_inv_def)
  next
    case (cancelling m j reason)
    then have "client_inv E hi (r'\<lparr>cn_producer := ProducerStarts (Suc k)\<rparr>)"
      by (intro running_invI(2) [where m = m and j = j and l = "Suc k" and reason = reason])
         (use assms(3) n logs logs_cong [of "r'\<lparr>cn_producer := ProducerStarts (Suc k)\<rparr>" r'] in
           \<open>simp_all add: cancelled_log_def chunk_messages_snoc\<close>)
    then show ?thesis using cancelling n by (simp add: running_inv_def)
  qed
qed

lemma inv_produce:
  assumes "running_inv E hi r k"
  shows "client_inv E hi (produce E r k)"
proof (cases "length (cn_chunks r) \<le> k \<or> t_us (last (cn_chunks r ! k)) - sc_cursor_us (cn_client r) > look_ahead_us r")
  case True
  have "running_inv E hi (with_client r ((cn_client r)\<lparr>sc_progress_changed := False\<rparr>)) k"
    by (rule running_with_client [OF assms]) simp
  with True assms show ?thesis by (auto simp: produce_def intro: running_invD)
next
  case False
  obtain res r1 where n: "send_next E r k = (res, r1)" by (cases "send_next E r k")
  show ?thesis
  proof (cases res)
    case (Inl e)
    then have "client_inv E hi (r1\<lparr>cn_producer := Ended (Inl e)\<rparr>)"
      by (intro inv_same [OF running_invD [OF assms, of "Ended (Inl e)"]]) (use chunk_sent [OF n] in auto)
    with False n Inl show ?thesis by (simp add: produce_def)
  next
    case (Inr u)
    then have "running_inv E hi r1 (Suc k)" using running_sent [OF assms, of r1] n False by simp
    then have "client_inv E hi (r1\<lparr>cn_producer := WaitingReceipt k\<rparr>)" by (rule running_invD) simp
    with False n Inr show ?thesis by (simp add: produce_def)
  qed
qed

lemma running_from:
  assumes "client_inv E hi r" "produced (cn_producer r) k" "\<And>j. produced (cn_producer r) j \<Longrightarrow> j = k"
  shows "running_inv E hi r k"
proof -
  let ?r = "r\<lparr>cn_producer := ProducerStarts k\<rparr>"
  from assms consider "cn_pc r = Watching" | "cn_pc r = Cancelling" by (cases "cn_pc r") (auto simp: client_inv_def)
  then show ?thesis
  proof cases
    case 1
    with assms(1) obtain m j where "m \<le> j" "j \<le> length (cn_chunks r)" "cn_sealed r \<longrightarrow> m = length (cn_chunks r)"
      "produced (cn_producer r) j" "spoken r = started_log E hi r m j" by (auto simp: client_inv_def)
    moreover from this assms(3) have "j = k" by blast
    ultimately have "client_inv E hi ?r"
      by (intro running_invI(1) [where m = m and j = k]) (use 1 logs_cong [of ?r r] in simp_all)
    with 1 show ?thesis by (simp add: running_inv_def)
  next
    case 2
    with assms(1) obtain m j l reason where "m \<le> j" "j \<le> l" "l \<le> length (cn_chunks r)" "cn_sealed r \<longrightarrow> m = length (cn_chunks r)"
      "produced (cn_producer r) l" "spoken r = cancelled_log E hi r m j l reason" unfolding client_inv_def by auto
    moreover from this assms(3) have "l = k" by blast
    ultimately have "client_inv E hi ?r"
      by (intro running_invI(2) [where m = m and j = j and l = k and reason = reason]) (use 2 logs_cong [of ?r r] in simp_all)
    with 2 show ?thesis by (simp add: running_inv_def)
  qed
qed

lemma received_chunk:
  assumes "end_chunk c k = (res, c')"
  shows "sc_sent c' = sc_sent c"
  using client_sends(6) [of c k] assms by simp

lemma inv_producer_step:
  assumes "client_inv E hi r"
  shows "client_inv E hi (producer_step E r)"
proof (cases "cn_producer r")
  case (ProducerStarts k)
  then have "running_inv E hi r k" by (intro running_from [OF assms]) simp_all
  with ProducerStarts show ?thesis by (simp add: producer_step_def inv_produce)
next
  case (WaitingProgress k)
  then have "running_inv E hi r k" by (intro running_from [OF assms]) simp_all
  with WaitingProgress assms show ?thesis by (simp add: producer_step_def inv_produce)
next
  case (WaitingReceipt k)
  then have run: "running_inv E hi r (Suc k)" by (intro running_from [OF assms]) simp_all
  obtain res c where e: "end_chunk (cn_client r) (int k) = (res, c)" by (cases "end_chunk (cn_client r) (int k)")
  have same: "sc_sent c = sc_sent (cn_client r)" by (rule received_chunk [OF e])
  note run' = running_with_client [OF run same]
  have "client_inv E hi ((with_client r c)\<lparr>cn_producer := Ended (Inl x)\<rparr>)" for x
    by (rule running_invD [OF run']) simp
  with inv_with_client [OF assms same] inv_produce [OF run'] WaitingReceipt e show ?thesis
    by (auto simp: producer_step_def split: option.split sum.split)
qed (use assms in \<open>simp_all add: producer_step_def\<close>)

lemma inv_watch_event:
  assumes "client_inv E hi r"
  shows "client_inv E hi (watch_event r d)"
proof -
  have "client_inv E hi (r\<lparr>cn_last_second := s\<rparr>)" for s by (rule inv_same [OF assms]) simp_all
  then show ?thesis using assms inv_fails [OF assms] inv_finish [OF assms]
    by (simp add: watch_event_def Let_def split: sum.split)
qed

lemma inv_uploaded:
  assumes "client_inv E hi r" "cn_pc r = Uploading k"
  shows "client_inv E hi (uploaded E r k receipt)"
proof -
  have s: "spoken r = upload_log E hi r (Suc k)" "Suc k \<le> length (cn_chunks r)" "cn_producer r = NoProducer"
    using assms by (simp_all add: client_inv_def)
  have "client_inv E hi (start_run r (Suc k))" if "\<not> cn_sealed r" using inv_start [OF assms(1) s(1,2)] that by simp
  then show ?thesis using inv_fails [OF assms(1)] inv_upload [OF assms(1) s]
    by (auto simp: uploaded_def split: sum.split)
qed

lemma inv_opened:
  assumes "client_inv E hi r" "cn_pc r = Opening"
  shows "client_inv E hi (opened E r d)"
  using inv_fails [OF assms(1)] inv_upload [OF assms(1), of 0] assms
  by (auto simp: opened_def client_inv_def split: sum.split)

lemma inv_welcomed:
  assumes "client_inv E hi r" "cn_pc r = Greeting" "cn_open_run r \<noteq> heartbeat_message"
  shows "client_inv E hi (welcomed r d)"
proof -
  have "client_inv E hi ((with_client r c)\<lparr>cn_pc := Opening\<rparr>)" if "client_send (cn_client r) (cn_open_run r) = Inr c" for c
    using assms spoken_sent [OF that] by (simp add: client_inv_def upload_log_def)
  then show ?thesis using inv_finish [OF assms(1)] by (simp add: welcomed_def split: sum.split)
qed

lemma inv_main_step:
  assumes "client_inv E hi r" "cn_open_run r \<noteq> heartbeat_message"
  shows "client_inv E hi (main_step E r)"
proof -
  note t = inv_take_events [OF assms(1)]
  have sel: "cn_pc (take_events r es) = cn_pc r" "cn_open_run (take_events r es) = cn_open_run r" for es by (simp_all add: take_events_def)
  show ?thesis
  proof (cases "cn_pc r")
    case Greeting
    then show ?thesis using inv_welcomed [OF t] inv_fails [OF t] t sel assms(2)
      by (auto simp: main_step_def split: prod.split option.split sum.split)
  next
    case Opening
    then show ?thesis using inv_opened [OF t] inv_fails [OF t] t sel
      by (auto simp: main_step_def split: prod.split option.split sum.split)
  next
    case (Uploading k)
    obtain res c where e: "end_chunk (cn_client r) (int k) = (res, c)" by (cases "end_chunk (cn_client r) (int k)")
    note w = inv_with_client [OF assms(1) received_chunk [OF e]]
    show ?thesis using Uploading w inv_fails [OF w] inv_uploaded [OF w, of k] e
      by (auto simp: main_step_def split: option.split sum.split)
  next
    case Watching
    then show ?thesis using inv_fails [OF assms(1)] inv_watch_event [OF t] assms(1)
      by (auto simp: main_step_def split: producer.split sum.split list.split)
  next
    case Cancelling
    then show ?thesis using inv_finish [OF assms(1)] by (simp add: main_step_def)
  next
    case (Finished res)
    with assms show ?thesis by (simp add: main_step_def)
  qed
qed

lemma inv_heartbeat:
  assumes "client_inv E hi r"
  shows "client_inv E hi (heartbeat_step r)"
proof -
  have "client_inv E hi (with_client r c)" if "client_send (cn_client r) heartbeat_message = Inr c" for c
    by (rule inv_same [OF assms]) (simp_all add: spoken_sent [OF that])
  with assms show ?thesis by (simp add: heartbeat_step_def split: sum.split)
qed

lemma inv_client_step:
  assumes "client_inv E hi r" "cn_open_run r \<noteq> heartbeat_message"
  shows "client_inv E hi (client_step E text_of r ev)"
  using inv_main_step [OF assms] inv_producer_step [OF assms(1)] inv_heartbeat [OF assms(1)] inv_fails [OF assms(1)]
    inv_with_client [OF assms(1)] assms(1)
  by (simp add: client_step_def split: client_event.split client_pc.split)

section \<open>The protocol, in every interleaving\<close>

definition same_plan :: "client_run \<Rightarrow> client_run \<Rightarrow> bool" where
  "same_plan r r' \<longleftrightarrow> cn_open_run r' = cn_open_run r \<and> cn_chunks r' = cn_chunks r \<and> cn_sealed r' = cn_sealed r"

lemma same_plan_refl [simp]: "same_plan r r"
  by (simp add: same_plan_def)

lemma same_plan_updates [simp]:
  "same_plan r0 (r\<lparr>cn_client := c\<rparr>) = same_plan r0 r" "same_plan r0 (r\<lparr>cn_pc := p\<rparr>) = same_plan r0 r"
  "same_plan r0 (r\<lparr>cn_producer := q\<rparr>) = same_plan r0 r" "same_plan r0 (r\<lparr>cn_last_second := s\<rparr>) = same_plan r0 r"
  "same_plan r0 (with_client r c) = same_plan r0 r" "same_plan r0 (take_events r es) = same_plan r0 r"
  "same_plan r0 (finish_run r res) = same_plan r0 r"
  by (simp_all add: same_plan_def take_events_def finish_run_def)

lemma same_plan_fails [simp]: "same_plan r0 (run_fails r e) = same_plan r0 r"
  by (simp add: run_fails_def split: client_pc.split sum.split)

lemma same_plan_send: "send_next E r k = (res, r') \<Longrightarrow> same_plan r0 r' = same_plan r0 r"
  using chunk_sent(3,4,5) [of E r k res r'] by (simp add: same_plan_def)

lemma same_plan_parts [simp]:
  "same_plan r0 (start_run r k) = same_plan r0 r" "same_plan r0 (upload_from E r k) = same_plan r0 r"
  "same_plan r0 (produce E r k) = same_plan r0 r" "same_plan r0 (watch_event r d) = same_plan r0 r"
  "same_plan r0 (welcomed r d) = same_plan r0 r"
proof -
  show st: "same_plan r0 (start_run r k) = same_plan r0 r" for r k
    by (simp add: start_run_def Let_def split: sum.split)
  show "same_plan r0 (upload_from E r k) = same_plan r0 r"
    using same_plan_send [of E r k _ _ r0] st by (auto simp: upload_from_def split: prod.split sum.split)
  show "same_plan r0 (produce E r k) = same_plan r0 r"
    using same_plan_send [of E r k _ _ r0] by (auto simp: produce_def split: prod.split sum.split)
  show "same_plan r0 (watch_event r d) = same_plan r0 r"
    by (auto simp: watch_event_def Let_def split: sum.split)
  show "same_plan r0 (welcomed r d) = same_plan r0 r"
    by (cases "check_welcome d"; cases "client_send (cn_client r) (cn_open_run r)") (simp_all add: welcomed_def)
qed

lemma same_plan_step: "same_plan r0 (client_step E text_of r ev) = same_plan r0 r"
proof -
  have opened: "same_plan r0 (opened E r d) = same_plan r0 r" for r d
    by (simp add: opened_def split: sum.split)
  have uploaded: "same_plan r0 (uploaded E r k d) = same_plan r0 r" for r k d
    by (cases "printed d ''accepted_until_us''"; cases "prebuffer_us r") (simp_all add: uploaded_def)
  have "same_plan r0 (main_step E r) = same_plan r0 r"
    by (cases "cn_pc r") (simp_all add: main_step_def opened uploaded split: option.split sum.split prod.split list.split producer.split)
  moreover have "same_plan r0 (producer_step E r) = same_plan r0 r"
    by (cases "cn_producer r") (simp_all add: producer_step_def split: option.split sum.split prod.split)
  moreover have "same_plan r0 (heartbeat_step r) = same_plan r0 r"
    by (simp add: heartbeat_step_def split: sum.split)
  ultimately show ?thesis by (simp add: client_step_def split: client_event.split client_pc.split)
qed

lemma client_run_inv:
  assumes "client_inv E hi r" "cn_open_run r \<noteq> heartbeat_message"
  shows "client_inv E hi (foldl (client_step E text_of) r evs) \<and> same_plan r (foldl (client_step E text_of) r evs)"
proof (induction evs rule: rev_induct)
  case (snoc ev evs)
  let ?r = "foldl (client_step E text_of) r evs"
  have "cn_open_run ?r \<noteq> heartbeat_message" using snoc assms(2) by (simp add: same_plan_def)
  with snoc show ?case by (simp add: inv_client_step same_plan_step)
qed (use assms in simp)

lemma run_program_start:
  assumes "run_program E rid h ps n sealed disconnect ahead token = Inr r0"
  shows "client_inv E (hello_of token) r0" "cn_sealed r0 = sealed" "split_chunks ps n = Inr (cn_chunks r0)"
    "cn_open_run r0 = open_message E rid h (if sealed then ''sealed'' else ''streaming'') ps disconnect"
  using assms by (auto simp: run_program_def client_open_def client_send_def RobotStreamClient_def client_inv_def spoken_def)

lemma client_reaches:
  assumes "run_program E rid h ps n sealed disconnect ahead token = Inr r0" "r = foldl (client_step E text_of) r0 evs"
  shows "closed_log E (hello_of token) r" "cn_sealed r = sealed" "split_chunks ps n = Inr (cn_chunks r)"
    "cn_open_run r = open_message E rid h (if sealed then ''sealed'' else ''streaming'') ps disconnect"
proof -
  note s = run_program_start [OF assms(1)]
  have "cn_open_run r0 \<noteq> heartbeat_message" using s(4) by simp
  from client_run_inv [OF s(1) this] have "client_inv E (hello_of token) r" "same_plan r0 r" unfolding assms(2) by blast+
  then show "closed_log E (hello_of token) r" "cn_sealed r = sealed" "split_chunks ps n = Inr (cn_chunks r)"
    "cn_open_run r = open_message E rid h (if sealed then ''sealed'' else ''streaming'') ps disconnect"
    using s inv_closed_log by (simp_all add: same_plan_def)
qed

text \<open>
  C33. The v1 client follows the protocol. In every interleaving of its tasks with replies, losses of
  the connection and interruptions, the messages it sends (heartbeats aside) are: the greeting; the
  opening of the run; the chunks of the program in order from the first, each at most once and none
  left out; possibly the start; after the start the next chunks in the same order; and at most one
  cancellation, which never comes before the start. The start of a sealed run comes after all its chunks.
\<close>

theorem client_follows_protocol:
  assumes "run_program E rid h ps n sealed disconnect ahead token = Inr r0" "r = foldl (client_step E text_of) r0 evs"
  shows "let hi = hello_of token; op = open_message E rid h (if sealed then ''sealed'' else ''streaming'') ps disconnect;
             upto = chunk_messages E (cn_chunks r) in
    split_chunks ps n = Inr (cn_chunks r) \<and>
    (spoken r = [hi] \<or>
     (\<exists>m j l. m \<le> j \<and> j \<le> l \<and> l \<le> length (cn_chunks r) \<and>
       (spoken r = [hi, op] @ upto 0 m \<or>
        (sealed \<longrightarrow> m = length (cn_chunks r)) \<and>
        (spoken r = [hi, op] @ upto 0 m @ [start_message] @ upto m j \<or>
         (\<exists>reason. spoken r = [hi, op] @ upto 0 m @ [start_message] @ upto m j @ [cancel_message reason] @ upto j l)))))"
proof -
  note c = client_reaches [OF assms]
  from c(1) show ?thesis
    unfolding closed_log_def cancelled_log_def started_log_def upload_log_def Let_def c(2-4) append_Cons append_Nil append_assoc
    by (blast intro: order_refl)
qed

section \<open>A loss of the connection that goes unnoticed\<close>

definition is_lost :: "pydict \<Rightarrow> bool" where
  "is_lost d \<longleftrightarrow> dget d ''type'' = Some (PStr ''connection_closed'')"

definition waits_for_ever :: "client_run \<Rightarrow> bool" where
  "waits_for_ever r \<longleftrightarrow>
     cn_pc r \<in> {Greeting, Opening} \<and> cn_producer r = NoProducer \<and> list_all is_lost (sc_events (cn_client r)) \<or>
     cn_pc r = Watching \<and> sc_events (cn_client r) = [] \<and>
       (cn_producer r = Ended (Inr ()) \<or> (\<exists>k. cn_producer r = WaitingProgress k) \<and> \<not> sc_progress_changed (cn_client r))"

lemma wait_for_lost: "list_all is_lost es \<Longrightarrow> wanted \<in> {''welcome'', ''run_opened''} \<Longrightarrow> wait_for wanted es = (None, [])"
  by (induction es) (auto simp: dget_or_def is_lost_def)

lemma waits_cong:
  assumes "waits_for_ever r" "cn_pc r' = cn_pc r" "cn_producer r' = cn_producer r" "sc_events (cn_client r') = sc_events (cn_client r)"
    "sc_progress_changed (cn_client r') = sc_progress_changed (cn_client r)"
  shows "waits_for_ever r'"
  using assms by (simp add: waits_for_ever_def)

lemma waits_step:
  assumes "waits_for_ever r" "\<not> sc_receiving (cn_client r)" "ev \<noteq> Interrupted"
  shows "waits_for_ever (client_step E text_of r ev) \<and> \<not> sc_receiving (cn_client (client_step E text_of r ev)) \<and>
    cn_pc (client_step E text_of r ev) = cn_pc r"
proof (cases ev)
  case MainRuns
  show ?thesis
  proof (cases "cn_pc r = Watching")
    case True
    then have "main_step E r = r" using assms by (auto simp: waits_for_ever_def main_step_def)
    with MainRuns assms show ?thesis by (simp add: client_step_def)
  next
    case False
    then have "main_step E r = take_events r []" using assms
      by (auto simp: waits_for_ever_def main_step_def wait_for_lost)
    with MainRuns assms False show ?thesis by (auto simp: client_step_def waits_for_ever_def take_events_def)
  qed
next
  case ProducerRuns
  then have "client_step E text_of r ev = r" using assms by (auto simp: waits_for_ever_def client_step_def producer_step_def)
  with assms show ?thesis by simp
next
  case HeartbeatDue
  have "waits_for_ever (with_client r c) \<and> \<not> sc_receiving c" if "client_send (cn_client r) m = Inr c" for c m
    using waits_cong [OF assms(1), of "with_client r c"] that assms(2) by (auto simp: client_send_def)
  with HeartbeatDue assms show ?thesis by (auto simp: client_step_def heartbeat_step_def split: sum.split)
next
  case (Received raw)
  with assms waits_cong [OF assms(1), of "with_client r (cn_client r)"] show ?thesis by (simp add: client_step_def receive_raw_def)
next
  case (Ends how)
  with assms waits_cong [OF assms(1), of "with_client r (socket_ends (cn_client r) how)"] show ?thesis
    by (simp add: client_step_def socket_ends_def)
qed (use assms in simp)

lemma waits_steps:
  assumes "waits_for_ever r" "\<not> sc_receiving (cn_client r)" "Interrupted \<notin> set evs"
  shows "cn_pc (foldl (client_step E text_of) r evs) = cn_pc r"
  using assms
proof (induction evs arbitrary: r)
  case (Cons ev evs)
  with waits_step [of r ev E text_of] show ?case by fastforce
qed simp

text \<open>
  C34. A lost connection can go unnoticed. The receiver task ends silently when the server closes the
  connection normally, and while the client waits for the welcome or for the run to be opened it drops
  the event that reports any other loss. So take a
  client whose receiver runs and that has nothing left to react to: it waits for the welcome or the opened run and no event but
  such losses is queued, or it watches its run, no event is queued, and its producer has ended or waits for
  a progress that was not reported. From the loss on, as long as nobody interrupts it, the client stays
  where it is: nothing that its tasks do makes it end.
\<close>

theorem lost_connection_unnoticed:
  assumes "waits_for_ever r" "sc_receiving (cn_client r)"
    and "how = ClosedNormally \<or> cn_pc r \<noteq> Watching" "Interrupted \<notin> set evs"
  shows "cn_pc (foldl (client_step E text_of) r (Ends how # evs)) = cn_pc r"
proof -
  let ?r = "client_step E text_of r (Ends how)"
  have r: "?r = with_client r (socket_ends (cn_client r) how)" by (simp add: client_step_def)
  have "waits_for_ever ?r"
    using assms(1-3) unfolding r
    by (auto simp: waits_for_ever_def socket_ends_def end_receiver_def reject_waiting_def lost_event_def is_lost_def mkdict_def
        Let_def split: stream_end.split)
  moreover have "\<not> sc_receiving (cn_client ?r)" using assms(2) by (simp add: r socket_ends_def end_receiver_def Let_def)
  ultimately have "cn_pc (foldl (client_step E text_of) ?r evs) = cn_pc ?r" by (rule waits_steps) (rule assms(4))
  then show ?thesis by (simp add: r)
qed

end
