(* ===== verification/ClientUpload.thy ===== *)
theory ClientUpload
  imports RobotClientSafety "HOL-Library.Sublist"
begin

text \<open>
  The v1 client and the v1 server together: what the client uploads is what the server has
  buffered. The text of a message is a parameter; that the server's JSON parser gives the message
  back is a hypothesis.
\<close>

section \<open>Serving a list of messages\<close>

primrec serve_all :: "pyenv \<Rightarrow> (pyval \<Rightarrow> string) \<Rightarrow> controller \<times> nat option \<Rightarrow> (pyval \<times> pyfloat) list
    \<Rightarrow> reply result list \<times> controller \<times> nat option" where
  "serve_all E dumps st [] = ([], st)"
| "serve_all E dumps st (x # xs) =
     (case serve_message E (fst st) (snd st) (dumps (fst x)) (snd x) of (rep, st') \<Rightarrow>
      case serve_all E dumps st' xs of (reps, st'') \<Rightarrow> (rep # reps, st''))"

lemma serve_all_snoc:
  "serve_all E dumps st (xs @ [x]) = (case serve_all E dumps st xs of (reps, st') \<Rightarrow>
     case serve_message E (fst st') (snd st') (dumps (fst x)) (snd x) of (rep, st'') \<Rightarrow> (reps @ [rep], st''))"
  by (induction xs arbitrary: st) (simp_all split: prod.splits)

section \<open>Chunks\<close>

lemma split_chunks_Inr:
  assumes "split_chunks ps n = Inr chunks" "1 \<le> n"
  shows "concat chunks = ps" "\<And>k. k < length chunks \<Longrightarrow> chunks ! k \<noteq> [] \<and> int (length (chunks ! k)) \<le> n"
    "ps \<noteq> [] \<Longrightarrow> chunks \<noteq> []"
proof -
  define w where "w = nat n"
  have w: "0 < w" "int w = n" using assms(2) by (auto simp: w_def)
  define total where "total = (length ps + w - 1) div w"
  have chunks: "chunks = map (\<lambda>k. take w (drop (k * w) ps)) [0..<total]"
    using assms w by (simp add: split_chunks_def w_def total_def Let_def)
  have join: "concat (map (\<lambda>k. take w (drop (k * w) ps)) [0..<i]) = take (i * w) ps" for i
    by (induction i) (simp_all add: take_add [symmetric] add.commute)
  have "length ps \<le> total * w"
    using div_mult_mod_eq [of "length ps + w - 1" w] mod_less_divisor [OF w(1), of "length ps + w - 1"] w(1)
    unfolding total_def by linarith
  then show "concat chunks = ps" by (simp add: chunks join)
  show "chunks ! k \<noteq> [] \<and> int (length (chunks ! k)) \<le> n" if "k < length chunks" for k
  proof -
    have k: "k < total" using that by (simp add: chunks)
    then have "Suc k * w \<le> length ps + w - 1"
      unfolding total_def using w(1) by (metis Suc_leI less_eq_div_iff_mult_less_eq)
    then have "k * w < length ps" using w(1) by simp
    with k w show ?thesis by (auto simp: chunks)
  qed
  show "chunks \<noteq> []" if "ps \<noteq> []" using \<open>concat chunks = ps\<close> that by auto
qed

section \<open>The state of the server during an upload\<close>

record upload =
  up_id :: string
  up_header :: program_header
  up_points :: "trajectory_point list"
  up_chunks :: "trajectory_point list list"
  up_policy :: safety_policy
  up_disconnect :: string

definition uploadable :: "pyenv \<Rightarrow> upload \<Rightarrow> bool" where
  "uploadable E u \<longleftrightarrow> up_id u \<noteq> [] \<and> length (up_id u) \<le> 128 \<and>
     up_disconnect u \<in> {''stop_after_timeout'', ''complete_if_sealed''} \<and>
     header_from_record E (the_dict (header_record (up_header u))) = Inr (up_header u) \<and>
     validate_points (up_header u) (up_points u) (up_policy u) True = Inr () \<and>
     (\<forall>p \<in> set (up_points u). length (q_deg p) = 6 \<and> list_all isfinite (q_deg p)) \<and>
     (\<forall>b. length (sha256 E b) = 32) \<and>
     concat (up_chunks u) = up_points u \<and> up_chunks u \<noteq> [] \<and>
     (\<forall>ch \<in> set (up_chunks u). ch \<noteq> [] \<and> int (length ch) \<le> max_chunk_points (up_policy u))"

definition uploading :: "pyenv \<Rightarrow> upload \<Rightarrow> nat \<Rightarrow> program_run \<Rightarrow> bool" where
  "uploading E u m r \<longleftrightarrow> header r = up_header u \<and> policy r = up_policy u \<and> run_mode r = ''sealed'' \<and>
     expected_digest r = program_digest E (up_header u) (up_points u) \<and> points r = concat (take m (up_chunks u)) \<and>
     expected_chunk_seq r = int m \<and> final_received r = (m = length (up_chunks u)) \<and> state r = Buffering \<and>
     origin_q r = None \<and> (\<forall>k \<ge> m. Mapping.lookup (chunk_receipts r) (int k) = None)"

lemma next_chunk_accepted:
  assumes u: "uploadable E u" and r: "uploading E u m r" and m: "m < length (up_chunks u)"
    and final: "final \<longleftrightarrow> m = length (up_chunks u) - 1"
  obtains receipt r' where "append_chunk E r (int m) (up_chunks u ! m) final (chunk_digest E (int m) (up_chunks u ! m) final) = (Inr receipt, r')"
    "uploading E u (Suc m) r'" "cr_accepted_until_us receipt = t_us (last (up_chunks u ! m))"
proof -
  let ?ch = "up_chunks u ! m"
  have ch: "?ch \<noteq> []" "int (length ?ch) \<le> max_chunk_points (policy r)"
    using u r m by (auto simp: uploadable_def uploading_def)
  have grown: "points r @ ?ch = concat (take (Suc m) (up_chunks u))"
    using r m by (simp add: uploading_def take_Suc_conv_app_nth)
  have whole: "up_points u = concat (take (Suc m) (up_chunks u)) @ concat (drop (Suc m) (up_chunks u))"
    using u by (metis append_take_drop_id concat_append uploadable_def)
  then have pre: "up_points u = (points r @ ?ch) @ concat (drop (Suc m) (up_chunks u))" using grown by simp
  have v: "checked_trajectory (header r) (policy r) (up_points u)" "int (length (up_points u)) \<le> max_points (policy r)"
    "\<forall>p \<in> set (up_points u). t_us p \<le> max_duration_us (policy r)" "2 \<le> length (up_points u)"
    using u r by (auto simp: uploadable_def uploading_def validate_points_iff)
  define rest where "rest = concat (drop (Suc m) (up_chunks u))"
  note pre = pre [folded rest_def]
  have fields: "state r = Buffering" "\<not> final_received r" "expected_chunk_seq r = int m" "run_mode r = ''sealed''" "origin_q r = None"
    "Mapping.lookup (chunk_receipts r) (int m) = None" "expected_digest r = program_digest E (header r) (up_points u)"
    using r m by (simp_all add: uploading_def)
  have last_in: "last ?ch \<in> set (up_points u)" using ch(1) pre by (metis UnI1 UnI2 last_in_set set_append)
  have valid: "validate_chunk_points r (if points r = [] then None else Some (last (points r))) ?ch = Inr ()"
  proof -
    have "successively (\<lambda>p q. validate_segment (policy r) p q = Inr ()) (points r @ ?ch)"
      using v(1) unfolding pre checked_trajectory_def successively_append_iff [of _ "points r @ ?ch"] by blast
    then have "successively (\<lambda>p q. validate_segment (policy r) p q = Inr ())
        ((case if points r = [] then None else Some (last (points r)) of None \<Rightarrow> [] | Some p \<Rightarrow> [p]) @ ?ch)"
      by (cases "points r" rule: rev_cases) (simp_all add: successively_append_iff [of _ _ "_ # _"])
    then show ?thesis using v(1) unfolding pre checked_trajectory_def validate_chunk_points_iff
      by (auto simp: validate_resolved_position_def fields)
  qed
  have whole: "m = length (up_chunks u) - 1 \<Longrightarrow> points r @ ?ch = up_points u" using pre m by (auto simp: rest_def)
  have count: "int (length (points r)) + int (length ?ch) \<le> max_points (policy r)" using v(2) pre by simp
  have check: "check_chunk r (int m) ?ch final = Inr ()"
  proof -
    have "t_us (last ?ch) \<le> max_duration_us (policy r)" using v(3) last_in by blast
    moreover have "final \<longrightarrow> 2 \<le> length (points r @ ?ch)" using v(4) whole final by auto
    ultimately show ?thesis using fields ch valid count
      by (auto simp: check_chunk_def Let_def)
  qed
  define r1 where "r1 = r\<lparr>points := points r @ ?ch, expected_chunk_seq := int m + 1, final_received := final\<rparr>"
  obtain receipt where c: "commit_chunk E r (int m) ?ch final (chunk_digest E (int m) ?ch final) =
      (Inr receipt, r1\<lparr>chunk_receipts := Mapping.update (int m) (chunk_digest E (int m) ?ch final, receipt) (chunk_receipts r)\<rparr>)"
    "cr_accepted_until_us receipt = t_us (last ?ch)"
    using fields whole final by (auto simp: commit_chunk_def Let_def r1_def compare_digest_ascii [OF ascii_digests(1) ascii_digests(1)])
  let ?r' = "r1\<lparr>chunk_receipts := Mapping.update (int m) (chunk_digest E (int m) ?ch final, receipt) (chunk_receipts r)\<rparr>"
  have "append_chunk E r (int m) ?ch final (chunk_digest E (int m) ?ch final) = (Inr receipt, ?r')"
    using c(1) check fields by (simp add: append_chunk_def Let_def compare_digest_ascii [OF ascii_digests(2) ascii_digests(2)])
  moreover have "uploading E u (Suc m) ?r'"
    using r m final grown by (auto simp: uploading_def r1_def lookup_update_neq)
  ultimately show thesis using that c(2) by blast
qed

text \<open>The messages of the upload as the server decodes them.\<close>

definition up_open :: "pyenv \<Rightarrow> upload \<Rightarrow> pyval" where
  "up_open E u = open_message E (up_id u) (up_header u) ''sealed'' (up_points u) (up_disconnect u)"

lemma serve_decoded:
  assumes "json_loads E raw = Inr (PDict d)" "dget d ''type'' = Some (PStr k)" "handle_message E c run d now = (Inr rep, c', run')"
  shows "serve_message E c run raw now = (Inr rep, c', run')"
  using assms by (simp add: serve_message_def decode_message_def catch_def dget_or_def)

lemma serve_heartbeat:
  assumes "json_loads E raw = Inr heartbeat_message"
  shows "\<exists>s. serve_message E c run raw now = (Inr (HeartbeatAck s),
     case run of None \<Rightarrow> c | Some i \<Rightarrow> update_run c i (heartbeat (runs c ! i) now), run)"
  using assms by (cases run) (simp_all add: serve_message_def decode_message_def catch_def dget_or_def heartbeat_message_def mkdict_def
      handle_message_def Let_def)

lemma serve_open:
  assumes "uploadable E u" "json_loads E raw = Inr (up_open E u)" "ctl_policy c = up_policy u"
    "\<forall>r. active_run c = Some r \<longrightarrow> state r \<in> set TERMINAL_STATES"
  obtains s c' where "serve_message E c None raw now = (Inr (RunOpened s), c', Some (length (runs c)))"
    "length (runs c') = Suc (length (runs c))" "uploading E u 0 (runs c' ! length (runs c))"
proof -
  let ?r = "ProgramRun (up_id u) (up_header u) ''sealed'' (program_digest E (up_header u) (up_points u)) (up_disconnect u) (ctl_policy c)
      (ctl_control_hz c) (ctl_telemetry_hz c) (ctl_heartbeat_timeout_s c) (ctl_hold_after_run_s c) now"
  let ?c = "c\<lparr>runs := runs c @ [?r], active := Some (length (runs c))\<rparr>"
  have len: "length (program_digest E (up_header u) (up_points u)) = 64"
    using assms(1) by (simp add: program_digest_def length_hex uploadable_def)
  have "open_run c (up_id u) (up_header u) ''sealed'' (program_digest E (up_header u) (up_points u)) (up_disconnect u) now
      = (Inr (length (runs c)), ?c)"
    using assms len by (auto simp: open_run_def uploadable_def RUN_MODES_def split: option.split)
  moreover obtain hv where hv: "header_record (up_header u) = PDict hv" by (simp add: header_record_def mkdict_def)
  moreover have "header_from_record E hv = Inr (up_header u)"
    using assms(1) hv by (simp add: uploadable_def)
  ultimately have "handle_message E c None (the_dict (up_open E u)) now = (Inr (RunOpened (snapshot ?r)), ?c, Some (length (runs c)))"
    by (simp add: handle_message_def Let_def up_open_def open_message_def mkdict_def dget_or_def handle_open_def py_str_def)
  with assms(2) have "serve_message E c None raw now = (Inr (RunOpened (snapshot ?r)), ?c, Some (length (runs c)))"
    by (intro serve_decoded [where d = "the_dict (up_open E u)"]) (simp_all add: up_open_def open_message_def mkdict_def)
  moreover have "uploading E u 0 (runs ?c ! length (runs c))"
    using assms(1,3) by (auto simp: uploading_def ProgramRun_def uploadable_def lookup_empty)
  ultimately show thesis using that by simp
qed

lemma serve_chunk:
  assumes "uploadable E u" "uploading E u m (runs c ! i)" "m < length (up_chunks u)" "i < length (runs c)"
    and "json_loads E raw = Inr (chunk_message E (int m) (up_chunks u ! m) (m = length (up_chunks u) - 1))"
  obtains receipt c' where "serve_message E c (Some i) raw now = (Inr (ChunkAccepted receipt), c', Some i)"
    "length (runs c') = length (runs c)" "uploading E u (Suc m) (runs c' ! i)"
    "cr_accepted_until_us receipt = t_us (last (up_chunks u ! m))"
proof -
  let ?ch = "up_chunks u ! m" let ?final = "m = length (up_chunks u) - 1"
  obtain receipt r' where r': "append_chunk E (runs c ! i) (int m) ?ch ?final (chunk_digest E (int m) ?ch ?final) = (Inr receipt, r')"
    "uploading E u (Suc m) r'" "cr_accepted_until_us receipt = t_us (last ?ch)"
    by (rule next_chunk_accepted [OF assms(1-3) refl])
  have "up_points u = concat (up_chunks u)" using assms(1) by (simp add: uploadable_def)
  with nth_mem [OF assms(3)] have "set ?ch \<subseteq> set (up_points u)" by auto
  then have "point_from_value E (point_record p) = Inr p" if "p \<in> set ?ch" for p
    using that assms(1) point_reparse [of p E] unfolding uploadable_def by (auto simp: point_from_value_def point_record_def mkdict_def)
  then have "mapM (point_from_value E) (map point_record ?ch) = Inr ?ch"
    by (simp add: mapM_Inr_iff list_all2_map1 list_all2_same)
  then have "handle_chunk E (the_dict (chunk_message E (int m) ?ch ?final)) (runs c ! i) = (Inr receipt, r')"
    using r'(1) by (simp add: handle_chunk_def chunk_message_def mkdict_def dget_or_def py_str_def)
  then have "handle_message E c (Some i) (the_dict (chunk_message E (int m) ?ch ?final)) now =
      (Inr (ChunkAccepted receipt), update_run c i r', Some i)"
    by (simp add: handle_message_def Let_def on_run_def dget_or_def chunk_message_def mkdict_def)
  with assms(5) have "serve_message E c (Some i) raw now = (Inr (ChunkAccepted receipt), update_run c i r', Some i)"
    by (intro serve_decoded [where d = "the_dict (chunk_message E (int m) ?ch ?final)"]) (simp_all add: chunk_message_def mkdict_def)
  with that r'(2,3) assms(4) show thesis by (simp add: update_run_def)
qed

section \<open>The whole upload\<close>

fun answered :: "reply result \<Rightarrow> bool" where
  "answered (Inl e) = False"
| "answered (Inr (ErrorReply code)) = False"
| "answered (Inr rep) = True"

definition upload_state :: "pyenv \<Rightarrow> upload \<Rightarrow> controller \<Rightarrow> pyval list \<Rightarrow> controller \<times> nat option \<Rightarrow> bool" where
  "upload_state E u c0 said st \<longleftrightarrow>
     (if said = [] then st = (c0, None)
      else snd st = Some (length (runs c0)) \<and> length (runs (fst st)) = Suc (length (runs c0)) \<and>
        uploading E u (length said - 1) (runs (fst st) ! length (runs c0)))"

lemma uploading_heartbeat: "uploading E u m r \<Longrightarrow> uploading E u m (heartbeat r now)"
  by (simp add: uploading_def heartbeat_def)

lemma prefix_snoc_filter:
  assumes "prefix (filter P (xs @ [x])) ys"
  shows "prefix (filter P xs) ys" "P x \<Longrightarrow> x = ys ! length (filter P xs)" "P x \<Longrightarrow> length (filter P xs) < length ys"
  using assms by (auto simp: prefix_def nth_append split: if_splits)

lemma upload_served:
  assumes u: "uploadable E u" and "ctl_policy c0 = up_policy u" "\<forall>r. active_run c0 = Some r \<longrightarrow> state r \<in> set TERMINAL_STATES"
    and "\<forall>x \<in> set xs. json_loads E (dumps (fst x)) = Inr (fst x)"
    and "prefix (filter (\<lambda>m. m \<noteq> heartbeat_message) (map fst xs)) (up_open E u # chunk_messages E (up_chunks u) 0 (length (up_chunks u)))"
  shows "list_all answered (fst (serve_all E dumps (c0, None) xs)) \<and>
    upload_state E u c0 (filter (\<lambda>m. m \<noteq> heartbeat_message) (map fst xs)) (snd (serve_all E dumps (c0, None) xs))"
  using assms(4,5)
proof (induction xs rule: rev_induct)
  case Nil
  then show ?case by (simp add: upload_state_def)
next
  case (snoc x xs)
  let ?P = "\<lambda>m. m \<noteq> heartbeat_message" let ?said = "filter ?P (map fst xs)"
  let ?all = "up_open E u # chunk_messages E (up_chunks u) 0 (length (up_chunks u))"
  have pre: "prefix (filter ?P (map fst xs @ [fst x])) ?all" using snoc.prems(2) by simp
  obtain reps c run where before: "serve_all E dumps (c0, None) xs = (reps, c, run)" by (cases "serve_all E dumps (c0, None) xs") auto
  have IH: "list_all answered reps" "upload_state E u c0 ?said (c, run)"
    using snoc.IH snoc.prems(1) prefix_snoc_filter(1) [OF pre] before by simp_all
  have decoded: "json_loads E (dumps (fst x)) = Inr (fst x)" using snoc.prems(1) by simp
  consider (beat) "fst x = heartbeat_message" | (first) "?P (fst x)" "?said = []" | (chunk) "?P (fst x)" "?said \<noteq> []" by blast
  then show ?case
  proof cases
    case beat
    obtain s where "serve_message E c run (dumps (fst x)) (snd x) = (Inr (HeartbeatAck s),
        case run of None \<Rightarrow> c | Some i \<Rightarrow> update_run c i (heartbeat (runs c ! i) (snd x)), run)"
      using serve_heartbeat [of E "dumps (fst x)" c run "snd x"] decoded beat by auto
    with IH before beat show ?thesis
      by (auto simp: serve_all_snoc upload_state_def update_run_def uploading_heartbeat split: if_splits)
  next
    case first
    have "fst x = up_open E u" using prefix_snoc_filter(2) [OF pre first(1)] first(2) by simp
    with decoded have "json_loads E (dumps (fst x)) = Inr (up_open E u)" by simp
    from serve_open [OF u this assms(2,3)] obtain s c' where
      "serve_message E c0 None (dumps (fst x)) (snd x) = (Inr (RunOpened s), c', Some (length (runs c0)))"
      "length (runs c') = Suc (length (runs c0))" "uploading E u 0 (runs c' ! length (runs c0))" by blast
    with IH before first show ?thesis by (simp add: serve_all_snoc upload_state_def)
  next
    case chunk
    define m where "m = length ?said - 1"
    have m: "length ?said = Suc m" unfolding m_def using chunk(2) by (metis One_nat_def Suc_pred length_greater_0_conv)
    then have lt: "m < length (up_chunks u)" using prefix_snoc_filter(3) [OF pre chunk(1)] by (simp add: chunk_messages_def)
    then have x: "fst x = chunk_message E (int m) (up_chunks u ! m) (m = length (up_chunks u) - 1)"
      using prefix_snoc_filter(2) [OF pre chunk(1)] m by (simp add: chunk_messages_def)
    have st: "run = Some (length (runs c0))" "length (runs c) = Suc (length (runs c0))" "uploading E u m (runs c ! length (runs c0))"
      using IH(2) chunk(2) m by (simp_all add: upload_state_def)
    have i: "length (runs c0) < length (runs c)" using st(2) by simp
    have "json_loads E (dumps (fst x)) = Inr (chunk_message E (int m) (up_chunks u ! m) (m = length (up_chunks u) - 1))"
      using decoded x by simp
    from serve_chunk [OF u st(3) lt i this, of "snd x"] obtain receipt c' where
      "serve_message E c (Some (length (runs c0))) (dumps (fst x)) (snd x) = (Inr (ChunkAccepted receipt), c', Some (length (runs c0)))"
      "length (runs c') = length (runs c)" "uploading E u (Suc m) (runs c' ! length (runs c0))"
      by blast
    moreover have "filter ?P (map fst (xs @ [x])) = ?said @ [fst x]" using chunk(1) by simp
    then have "length (filter ?P (map fst (xs @ [x]))) - 1 = Suc m" "filter ?P (map fst (xs @ [x])) \<noteq> []" using m by (simp_all del: filter_map)
    ultimately show ?thesis using IH(1) before st
      unfolding upload_state_def by (simp add: serve_all_snoc del: map_append filter_append filter.simps)
  qed
qed

section \<open>From the client's program to the server's buffer\<close>

definition plan_of :: "string \<Rightarrow> program_header \<Rightarrow> trajectory_point list \<Rightarrow> trajectory_point list list \<Rightarrow> safety_policy \<Rightarrow> string \<Rightarrow> upload" where
  "plan_of rid h ps chunks pol disconnect = \<lparr>up_id = rid, up_header = h, up_points = ps, up_chunks = chunks, up_policy = pol,
     up_disconnect = disconnect\<rparr>"

lemma not_start [simp]: "chunk_message E k ps final \<noteq> start_message" "open_message E rid h mode ps disconnect \<noteq> start_message"
  "hello_of token \<noteq> start_message" "cancel_message reason \<noteq> start_message"
  by (simp_all add: chunk_message_def start_message_def open_message_def hello_of_def cancel_message_def mkdict_def)

lemma chunks_not_start: "start_message \<notin> set (chunk_messages E chunks a b)"
  by (auto simp: chunk_messages_def dest: not_start(1) [THEN not_sym, THEN notE])

lemma chunks_prefix:
  assumes "m \<le> n"
  shows "prefix (chunk_messages E chunks 0 m) (chunk_messages E chunks 0 n)"
proof -
  have "[0..<n] = [0..<m] @ [m..<n]" using assms by (metis le_add_diff_inverse upt_add_eq_append zero_le)
  then show ?thesis by (simp add: chunk_messages_def)
qed

lemma before_start:
  assumes "closed_log E hi r" "cn_open_run r \<noteq> start_message" "hi \<noteq> start_message" "cn_sealed r"
  shows "takeWhile (\<lambda>m. m \<noteq> start_message) (tl (spoken r)) = [] \<and> start_message \<notin> set (spoken r) \<or>
    (\<exists>m \<le> length (cn_chunks r). takeWhile (\<lambda>m. m \<noteq> start_message) (tl (spoken r)) = cn_open_run r # chunk_messages E (cn_chunks r) 0 m \<and>
      (start_message \<in> set (spoken r) \<longrightarrow> m = length (cn_chunks r)))"
proof -
  have upload: "takeWhile (\<lambda>x. x \<noteq> start_message) (chunk_messages E (cn_chunks r) 0 m @ rest) =
      chunk_messages E (cn_chunks r) 0 m @ takeWhile (\<lambda>x. x \<noteq> start_message) rest" for m rest
    using chunks_not_start [of E "cn_chunks r" 0 m] by (intro takeWhile_append2) auto
  from assms(1) consider "spoken r = [hi]" | m where "m \<le> length (cn_chunks r)" "spoken r = upload_log E hi r m"
    | j l reason where "spoken r = started_log E hi r (length (cn_chunks r)) j \<or>
        spoken r = cancelled_log E hi r (length (cn_chunks r)) j l reason"
    using assms(4) unfolding closed_log_def by blast
  then show ?thesis
  proof cases
    case 2
    then show ?thesis using assms(2,3) upload [of m "[]"] chunks_not_start [of E "cn_chunks r" 0 m]
      by (auto simp: upload_log_def)
  next
    case 3
    then have "takeWhile (\<lambda>m. m \<noteq> start_message) (tl (spoken r)) = cn_open_run r # chunk_messages E (cn_chunks r) 0 (length (cn_chunks r))"
      using assms(2) upload by (auto simp: upload_log_def started_log_def cancelled_log_def)
    then show ?thesis by blast
  qed (use assms(3) in simp)
qed

lemma plan_uploadable:
  assumes "load_program E ls SafetyPolicy = Inr (h, ps)" "validate_points h ps pol True = Inr ()"
    and "split_chunks ps n = Inr chunks" "1 \<le> n" "n \<le> max_chunk_points pol"
    and "rid \<noteq> []" "length rid \<le> 128" "disconnect \<in> {''stop_after_timeout'', ''complete_if_sealed''}" "\<forall>b. length (sha256 E b) = 32"
  shows "uploadable E (plan_of rid h ps chunks pol disconnect)"
proof -
  note load = loaded_program_reparses [OF assms(1)]
  note split = split_chunks_Inr [OF assms(3,4)]
  have "ch \<noteq> [] \<and> int (length ch) \<le> max_chunk_points pol" if "ch \<in> set chunks" for ch
    using that split(2) assms(5) by (metis in_set_conv_nth order_trans)
  moreover have "ps \<noteq> []" using assms(2) by (simp add: validate_points_iff)
  ultimately show ?thesis
    using assms(2,6-9) load split(1,3)
    by (simp add: uploadable_def plan_of_def)
qed

text \<open>
  C7. What the v1 client uploads is what the v1 server runs. Take a program that the client loaded, in
  sealed mode, that validation under the server's own policy accepts too, with chunks of at least one and
  at most as many points as the server takes, a run identifier of 1 to 128 characters and one of the two
  disconnect policies. Take any behaviour of the client, codecs under which every message sent is
  parsed back, and digests of 32 bytes. Let the server be idle and process what it receives of the client's messages before the start, with any heartbeats in
  between and at any times. It refuses none of them; and when the client has sent the start and all that
  came before it has arrived, the server's run holds exactly the points of the program, is complete, and accepts
  the start.
\<close>

theorem client_upload_arrives:
  assumes "run_program E rid h ps n True disconnect ahead token = Inr r0" "r = foldl (client_step E text_of) r0 evs"
    and "load_program E ls SafetyPolicy = Inr (h, ps)" "validate_points h ps (ctl_policy c) True = Inr ()"
    and "1 \<le> n" "n \<le> max_chunk_points (ctl_policy c)"
    and "rid \<noteq> []" "length rid \<le> 128" "disconnect \<in> {''stop_after_timeout'', ''complete_if_sealed''}" "\<forall>b. length (sha256 E b) = 32"
    and "\<forall>r. active_run c = Some r \<longrightarrow> state r \<in> set TERMINAL_STATES"
    and "\<forall>x \<in> set xs. json_loads E (dumps (fst x)) = Inr (fst x)"
    and "prefix (filter (\<lambda>m. m \<noteq> heartbeat_message) (map fst xs)) (takeWhile (\<lambda>m. m \<noteq> start_message) (tl (spoken r)))"
  shows "case serve_all E dumps (c, None) xs of (replies, c', run) \<Rightarrow>
    list_all answered replies \<and>
    (start_message \<in> set (spoken r) \<and>
       filter (\<lambda>m. m \<noteq> heartbeat_message) (map fst xs) = takeWhile (\<lambda>m. m \<noteq> start_message) (tl (spoken r)) \<longrightarrow>
     (\<exists>i s. run = Some i \<and> points (runs c' ! i) = ps \<and> final_received (runs c' ! i) \<and> fst (start (runs c' ! i)) = Inr s))"
proof -
  note reach = client_reaches [OF assms(1,2)]
  define u where "u = plan_of rid h ps (cn_chunks r) (ctl_policy c) disconnect"
  let ?all = "up_open E u # chunk_messages E (up_chunks u) 0 (length (up_chunks u))"
  let ?said = "filter (\<lambda>m. m \<noteq> heartbeat_message) (map fst xs)" let ?sent = "takeWhile (\<lambda>m. m \<noteq> start_message) (tl (spoken r))"
  have u: "uploadable E u" unfolding u_def
    by (rule plan_uploadable [OF assms(3,4) reach(3) assms(5-10)])
  have sel: "up_chunks u = cn_chunks r" "up_open E u = cn_open_run r" "ctl_policy c = up_policy u" "up_points u = ps"
    using reach(4) by (simp_all add: u_def plan_of_def up_open_def)
  have "cn_open_run r \<noteq> start_message" using reach(4) by simp
  from before_start [OF reach(1) this not_start(3) reach(2) [THEN iffD2, OF TrueI, simplified]]
  have "?sent = [] \<and> start_message \<notin> set (spoken r) \<or>
      (\<exists>m \<le> length (cn_chunks r). ?sent = cn_open_run r # chunk_messages E (cn_chunks r) 0 m \<and>
         (start_message \<in> set (spoken r) \<longrightarrow> m = length (cn_chunks r)))" .
  then have sent: "prefix ?sent ?all" and whole: "start_message \<in> set (spoken r) \<Longrightarrow> ?sent = ?all"
    using chunks_prefix sel by auto
  obtain replies c' run where s: "serve_all E dumps (c, None) xs = (replies, c', run)" by (cases "serve_all E dumps (c, None) xs") auto
  have served: "list_all answered replies" "upload_state E u c ?said (c', run)"
    using upload_served [OF u sel(3) assms(11,12) prefix_order.trans [OF assms(13) sent]] by (simp_all add: s)
  have "\<exists>i s. run = Some i \<and> points (runs c' ! i) = ps \<and> final_received (runs c' ! i) \<and> fst (start (runs c' ! i)) = Inr s"
    if "start_message \<in> set (spoken r)" "?said = ?sent"
  proof -
    have "uploading E u (length (up_chunks u)) (runs c' ! length (runs c))" "run = Some (length (runs c))"
      using served(2) whole [OF that(1)] that(2) by (simp_all add: upload_state_def chunk_messages_def del: filter_map)
    then show ?thesis using u sel(4)
      by (auto simp: uploading_def uploadable_def start_def Let_def validate_points_iff)
  qed
  with s served(1) show ?thesis by auto
qed

section \<open>An instance\<close>

text \<open>The program of two points, uploaded in two chunks with a heartbeat in between.\<close>

definition demo_chunks :: "trajectory_point list list" where
  "demo_chunks = [[demo_points ! 0], [demo_points ! 1]]"

definition hashed :: pyenv where
  "hashed = demo_json\<lparr>sha256 := (\<lambda>b. replicate 32 0)\<rparr>"

definition demo_open :: pyval where
  "demo_open = open_message hashed ''run-1'' demo_header ''sealed'' demo_points ''stop_after_timeout''"

definition demo_chunk :: "nat \<Rightarrow> pyval" where
  "demo_chunk k = chunk_message hashed (int k) (demo_chunks ! k) (k = 1)"

definition demo_ack :: "int \<Rightarrow> pyval" where
  "demo_ack k = mkdict [(''type'', PStr ''chunk_accepted''), (''chunk_seq'', PInt k), (''accepted_until_us'', PInt (k * 1000000))]"

definition demo_net :: pyenv where
  "demo_net = hashed\<lparr>json_loads := (\<lambda>s.
     if s = ''welcome'' then Inr (mkdict [(''type'', PStr ''welcome''), (''protocol'', PStr PROTOCOL)])
     else if s = ''opened'' then Inr (mkdict [(''type'', PStr ''run_opened''), (''run_id'', PStr ''run-1'')])
     else if s = ''ack0'' then Inr (demo_ack 0) else if s = ''ack1'' then Inr (demo_ack 1)
     else if s = ''open'' then Inr demo_open else if s = ''chunk0'' then Inr (demo_chunk 0)
     else if s = ''chunk1'' then Inr (demo_chunk 1) else if s = ''beat'' then Inr heartbeat_message
     else json_loads demo_json s)\<rparr>"

definition demo_dumps :: "pyval \<Rightarrow> string" where
  "demo_dumps m = (if m = demo_open then ''open'' else if m = demo_chunk 0 then ''chunk0'' else if m = demo_chunk 1 then ''chunk1''
     else ''beat'')"

definition demo_start_of :: "client_run result" where
  "demo_start_of = run_program demo_net ''run-1'' demo_header demo_points 1 True ''stop_after_timeout'' (Fin 5) ''secret''"

definition demo_history :: "client_event list" where
  "demo_history = [Received ''welcome'', MainRuns, Received ''opened'', MainRuns, HeartbeatDue, Received ''ack0'', MainRuns,
     Received ''ack1'', MainRuns, ProducerRuns, MainRuns, MainRuns]"

definition demo_client_run :: client_run where
  "demo_client_run = foldl (client_step demo_net (\<lambda>e. [])) (projr demo_start_of) demo_history"

definition demo_sent :: "(pyval \<times> pyfloat) list" where
  "demo_sent = [(demo_open, Fin 0), (demo_chunk 0, Fin 1), (heartbeat_message, Fin 1), (demo_chunk 1, Fin 2)]"

lemma demo_client_started: "demo_start_of = Inr (projr demo_start_of)"
proof -
  have "isl demo_start_of = False" by code_simp
  then show ?thesis by (cases demo_start_of) simp_all
qed

lemma demo_client_pc: "cn_pc demo_client_run = Watching" "sc_events (cn_client demo_client_run) = []" "sc_receiving (cn_client demo_client_run)"
  "cn_producer demo_client_run = Ended (Inr ())"
  by code_simp+

lemma demo_client_sent: "sc_sent (cn_client demo_client_run) =
  [hello_of ''secret'', demo_open, demo_chunk 0, heartbeat_message, demo_chunk 1, start_message]"
  by code_simp

theorem client_follows_protocol_witness:
  "split_chunks demo_points 1 = Inr (cn_chunks demo_client_run) \<and> hd (spoken demo_client_run) = hello_of ''secret''"
proof -
  have "demo_client_run = foldl (client_step demo_net (\<lambda>e. [])) (projr demo_start_of) demo_history"
    by (simp add: demo_client_run_def)
  from client_follows_protocol [OF demo_client_started [unfolded demo_start_of_def] this [unfolded demo_start_of_def]]
  show ?thesis by (auto simp: Let_def)
qed

theorem lost_connection_unnoticed_witness:
  "cn_pc (foldl (client_step demo_net (\<lambda>e. [])) demo_client_run
     (Ends ClosedNormally # [MainRuns, ProducerRuns, HeartbeatDue, Received ''opened'', MainRuns])) = Watching"
proof -
  have "waits_for_ever demo_client_run" by (simp add: waits_for_ever_def demo_client_pc)
  from lost_connection_unnoticed [OF this demo_client_pc(3), of ClosedNormally
      "[MainRuns, ProducerRuns, HeartbeatDue, Received ''opened'', MainRuns]" demo_net "\<lambda>e. []"]
  show ?thesis by (simp only: demo_client_pc) simp
qed

theorem client_upload_arrives_witness:
  "case serve_all demo_net demo_dumps (ProgramController SafetyPolicy (Fin 50) (Fin 10) (Fin 1) (Fin 0), None) demo_sent of
     (replies, c, run) \<Rightarrow> list_all answered replies \<and> (\<exists>i s. run = Some i \<and> points (runs c ! i) = demo_points \<and> fst (start (runs c ! i)) = Inr s)"
proof -
  let ?c = "ProgramController SafetyPolicy (Fin 50) (Fin 10) (Fin 1) (Fin 0)"
  have run: "demo_client_run = foldl (client_step demo_net (\<lambda>e. [])) (projr demo_start_of) demo_history"
    by (simp add: demo_client_run_def)
  have load: "load_program demo_net [''header'', ''first'', ''second''] SafetyPolicy = Inr (demo_header, demo_points)" by code_simp
  have differ: "demo_chunk 0 \<noteq> demo_open" "demo_chunk 1 \<noteq> demo_open" "demo_chunk 1 \<noteq> demo_chunk 0"
    by (simp_all add: demo_open_def demo_chunk_def open_message_def chunk_message_def mkdict_def)
  have beats: "demo_open \<noteq> heartbeat_message" "demo_chunk k \<noteq> heartbeat_message" "demo_open \<noteq> start_message" "demo_chunk k \<noteq> start_message" for k
    by (simp_all add: demo_open_def demo_chunk_def)
  have decoded: "\<forall>x \<in> set demo_sent. json_loads demo_net (demo_dumps (fst x)) = Inr (fst x)"
    by (simp add: demo_sent_def demo_dumps_def demo_net_def differ beats beats [symmetric])
  have sent: "filter (\<lambda>m. m \<noteq> heartbeat_message) (map fst demo_sent) = takeWhile (\<lambda>m. m \<noteq> start_message) (tl (spoken demo_client_run))"
    "start_message \<in> set (spoken demo_client_run)"
    by (simp_all add: demo_sent_def spoken_def demo_client_sent beats)
  have idle: "\<forall>r. active_run ?c = Some r \<longrightarrow> state r \<in> set TERMINAL_STATES" "ctl_policy ?c = SafetyPolicy"
    by (simp_all add: ProgramController_def active_run_def)
  have small: "validate_points demo_header demo_points (ctl_policy ?c) True = Inr ()" "1 \<le> max_chunk_points (ctl_policy ?c)"
    "\<forall>b. length (sha256 demo_net b) = 32"
    unfolding idle by (rule demo_valid, simp add: SafetyPolicy_def, simp add: demo_net_def hashed_def)
  show ?thesis
    using client_upload_arrives [OF demo_client_started [unfolded demo_start_of_def] run [unfolded demo_start_of_def] load small(1) _ small(2)
        _ _ _ small(3) idle(1) decoded] sent
    by (auto split: prod.splits)
qed

end
