(* ===== verification/Hardware.thy ===== *)
theory Hardware
  imports ServerSafety
begin

text \<open>
  The motor backend of the physical arm, \<^verbatim>\<open>SO101Backend\<close> in \<^verbatim>\<open>robot_server.py\<close>. The motor library is a
  parameter: a bus is a function from the commands given so far to the reply of the next one. The
  commands are recorded with their success.
\<close>

section \<open>The motor bus\<close>

datatype bus_cmd =
    BConnect | BCheckCalibration | BDisable | BConfigure
  | BWrite string string int
  | BReadPresent | BGoals "(string \<times> pyfloat) list"
  | BEnable | BDisconnect

datatype bus_reply = Done | Calibrated bool | Present "(string \<times> pyfloat) list" | Breaks exn

type_synonym bus_log = "(bus_cmd \<times> bool) list"

record robot_config =
  rb_calibrated :: bool
  rb_motors :: "string list"
  rb_position_mode :: int
  rb_p_coefficient :: int
  rb_i_coefficient :: int
  rb_d_coefficient :: int

record hardware =
  hw_config :: robot_config
  hw_bus :: "bus_log \<Rightarrow> bus_cmd \<Rightarrow> bus_reply"
  hw_connected :: bool
  hw_log :: bus_log

definition SO101Backend :: "robot_config \<Rightarrow> (bus_log \<Rightarrow> bus_cmd \<Rightarrow> bus_reply) \<Rightarrow> hardware" where
  "SO101Backend cfg bus = \<lparr>hw_config = cfg, hw_bus = bus, hw_connected = False, hw_log = []\<rparr>"

definition bus_call :: "bus_cmd \<Rightarrow> hardware \<Rightarrow> bus_reply result \<times> hardware" where
  "bus_call cmd h = (case hw_bus h (hw_log h) cmd of
      Breaks e \<Rightarrow> (Inl e, h\<lparr>hw_log := hw_log h @ [(cmd, False)]\<rparr>)
    | rep \<Rightarrow> (Inr rep, h\<lparr>hw_log := hw_log h @ [(cmd, True)]\<rparr>))"

text \<open>Statements in sequence; the first exception ends it.\<close>

definition hbind :: "'a result \<times> hardware \<Rightarrow> ('a \<Rightarrow> hardware \<Rightarrow> 'b result \<times> hardware) \<Rightarrow> 'b result \<times> hardware" where
  "hbind m f = (case m of (Inl e, h) \<Rightarrow> (Inl e, h) | (Inr x, h) \<Rightarrow> f x h)"

fun bus_calls :: "bus_cmd list \<Rightarrow> hardware \<Rightarrow> unit result \<times> hardware" where
  "bus_calls [] h = (Inr (), h)"
| "bus_calls (cmd # cmds) h = hbind (bus_call cmd h) (\<lambda>_. bus_calls cmds)"

section \<open>Positions\<close>

definition present_values :: "bus_reply \<Rightarrow> (string \<times> pyfloat) list" where
  "present_values rep = (case rep of Present vs \<Rightarrow> vs | _ \<Rightarrow> [])"

text \<open>\<^verbatim>\<open>np.array([values[name] for name in JOINTS])\<close>\<close>

definition joint_array :: "(string \<times> pyfloat) list \<Rightarrow> pyfloat list result" where
  "joint_array vs = mapM (\<lambda>name. case map_of vs name of None \<Rightarrow> Inl KeyError | Some v \<Rightarrow> Inr v) JOINTS"

definition goal_dict :: "pyfloat list \<Rightarrow> (string \<times> pyfloat) list result" where
  "goal_dict q = (if length q = length JOINTS then Inr (zip JOINTS q) else Inl ValueError)"

section \<open>Connecting\<close>

definition motor_writes :: "robot_config \<Rightarrow> string \<Rightarrow> bus_cmd list" where
  "motor_writes cfg m =
     [BWrite ''Operating_Mode'' m (rb_position_mode cfg), BWrite ''P_Coefficient'' m (rb_p_coefficient cfg),
      BWrite ''I_Coefficient'' m (rb_i_coefficient cfg), BWrite ''D_Coefficient'' m (rb_d_coefficient cfg)] @
     (if m = ''gripper'' then [BWrite ''Max_Torque_Limit'' m 500, BWrite ''Protection_Current'' m 250, BWrite ''Overload_Torque'' m 25] else [])"

definition prepare_connected_robot_disabled :: "hardware \<Rightarrow> pyfloat list result \<times> hardware" where
  "prepare_connected_robot_disabled h =
     hbind (bus_calls ([BDisable, BConfigure] @ concat (map (motor_writes (hw_config h)) (rb_motors (hw_config h)))) h) (\<lambda>_ h.
     hbind (bus_call BReadPresent h) (\<lambda>rep h.
     hbind (bus_call (BGoals (present_values rep)) h) (\<lambda>_ h. (joint_array (present_values rep), h))))"

definition configure_connected_robot_safely :: "bool \<Rightarrow> hardware \<Rightarrow> unit result \<times> hardware" where
  "configure_connected_robot_safely should_continue h =
     hbind (prepare_connected_robot_disabled h) (\<lambda>_ h.
     if \<not> should_continue then (Inl RuntimeError, h) else hbind (bus_call BEnable h) (\<lambda>_ h. (Inr (), h)))"

text \<open>\<^verbatim>\<open>close\<close>: both steps are attempted, whatever they raise.\<close>

definition close_hardware :: "hardware \<Rightarrow> hardware" where
  "close_hardware h =
     (if \<not> hw_connected h then h
      else snd (bus_call BDisconnect (snd (bus_call BDisable (h\<lparr>hw_connected := False\<rparr>)))))"

definition check_calibrated :: "hardware \<Rightarrow> unit result \<times> hardware" where
  "check_calibrated h = hbind (bus_call BCheckCalibration h) (\<lambda>rep h. (if rep = Calibrated True then Inr () else Inl RuntimeError, h))"

definition prepare_disabled_hw :: "hardware \<Rightarrow> pyfloat list result \<times> hardware" where
  "prepare_disabled_hw h =
     (if hw_connected h then (Inl RuntimeError, h)
      else if \<not> rb_calibrated (hw_config h) then (Inl RuntimeError, h)
      else hbind (bus_call BConnect h) (\<lambda>_ h.
        case hbind (check_calibrated (h\<lparr>hw_connected := True\<rparr>)) (\<lambda>_. prepare_connected_robot_disabled) of
          (Inl e, h') \<Rightarrow> (Inl e, close_hardware h')
        | (Inr q, h') \<Rightarrow> (Inr q, h')))"

section \<open>Moving\<close>

definition require_robot :: "hardware \<Rightarrow> unit result \<times> hardware" where
  "require_robot h = (if hw_connected h then Inr () else Inl RuntimeError, h)"

definition write_goals :: "pyfloat list \<Rightarrow> hardware \<Rightarrow> unit result \<times> hardware" where
  "write_goals q h = hbind (require_robot h) (\<lambda>_ h.
     hbind (goal_dict q, h) (\<lambda>goals h. hbind (bus_call (BGoals goals) h) (\<lambda>_ h. (Inr (), h))))"

definition enable_at_current :: "pyfloat list \<Rightarrow> hardware \<Rightarrow> unit result \<times> hardware" where
  "enable_at_current q h = hbind (write_goals q h) (\<lambda>_ h. hbind (bus_call BEnable h) (\<lambda>_ h. (Inr (), h)))"

definition read_q :: "hardware \<Rightarrow> pyfloat list result \<times> hardware" where
  "read_q h = hbind (require_robot h) (\<lambda>_ h. hbind (bus_call BReadPresent h) (\<lambda>rep h. (joint_array (present_values rep), h)))"

section \<open>The calls of a run\<close>

datatype backend_call = Motor motor_call | ReadPose

definition no_value :: "'a result \<times> hardware \<Rightarrow> unit result \<times> hardware" where
  "no_value m = (bind (fst m) (\<lambda>_. Inr ()), snd m)"

fun hw_call :: "hardware \<Rightarrow> backend_call \<Rightarrow> unit result \<times> hardware" where
  "hw_call h (Motor MPrepare) = no_value (prepare_disabled_hw h)"
| "hw_call h (Motor (MEnable q)) = enable_at_current q h"
| "hw_call h (Motor (MSend q)) = write_goals q h"
| "hw_call h (Motor (MHold q)) = write_goals q h"
| "hw_call h (Motor MClose) = (Inr (), close_hardware h)"
| "hw_call h ReadPose = no_value (read_q h)"

section \<open>What the bus sees\<close>

text \<open>
  A connection as the servos see it: no connection; a connection whose motors may still be powered by
  an earlier process and hold any goal; torque switched off; goals written since; powered.
\<close>

datatype wire = Unplugged | Unknown | Dark | Aimed | Lit

fun wire_step :: "wire \<Rightarrow> bus_cmd \<times> bool \<Rightarrow> wire option" where
  "wire_step Unplugged (BConnect, good) = Some (if good then Unknown else Unplugged)"
| "wire_step Unplugged _ = None"
| "wire_step w (BConnect, good) = None"
| "wire_step Aimed (BDisconnect, good) = None"
| "wire_step Lit (BDisconnect, good) = None"
| "wire_step w (BDisconnect, good) = Some Unplugged"
| "wire_step w (BDisable, good) = Some (if good then Dark else Unknown)"
| "wire_step w (BReadPresent, good) = Some w"
| "wire_step Unknown (BCheckCalibration, good) = Some Unknown"
| "wire_step Unknown _ = None"
| "wire_step Dark (BGoals g, good) = Some (if good then Aimed else Dark)"
| "wire_step Dark (BConfigure, good) = Some Dark"
| "wire_step Dark (BWrite r m v, good) = Some Dark"
| "wire_step Dark _ = None"
| "wire_step Aimed (BGoals g, good) = Some (if good then Aimed else Dark)"
| "wire_step Aimed (BEnable, good) = Some Lit"
| "wire_step Aimed _ = None"
| "wire_step Lit (BGoals g, good) = Some Lit"
| "wire_step Lit (BEnable, good) = Some Lit"
| "wire_step Lit _ = None"

fun wire_run :: "wire \<Rightarrow> bus_log \<Rightarrow> wire option" where
  "wire_run w [] = Some w"
| "wire_run w (x # xs) = (case wire_step w x of None \<Rightarrow> None | Some w' \<Rightarrow> wire_run w' xs)"

end
