(* ===== verification/HardwareSafety.thy ===== *)
theory HardwareSafety
  imports Hardware
begin

text \<open>
  What the physical backend does on its bus, whatever the bus answers: motors are powered only with
  goals written on the same connection, and every connection is switched off before it is closed.
\<close>

section \<open>The bus in order\<close>

lemma wire_run_snoc: "wire_run w (xs @ [x]) = (case wire_run w xs of None \<Rightarrow> None | Some w' \<Rightarrow> wire_step w' x)"
  by (induction w xs rule: wire_run.induct) (auto split: option.split)

definition wired :: "hardware \<Rightarrow> wire \<Rightarrow> bool" where
  "wired h w \<longleftrightarrow> wire_run Unplugged (hw_log h) = Some w"

text \<open>After a statement from \<open>w\<close>: the bus is in order, in one of the states given for success and failure.\<close>

definition runs_to :: "hardware \<Rightarrow> 'a result \<times> hardware \<Rightarrow> wire set \<Rightarrow> wire set \<Rightarrow> bool" where
  "runs_to h m good bad \<longleftrightarrow> hw_connected (snd m) = hw_connected h \<and> hw_config (snd m) = hw_config h \<and> hw_bus (snd m) = hw_bus h \<and>
     (\<exists>w. wired (snd m) w \<and> (case fst m of Inr x \<Rightarrow> w \<in> good | Inl e \<Rightarrow> w \<in> bad))"

lemma runs_bus_call:
  assumes "wired h w" "wire_step w (cmd, True) = Some g" "wire_step w (cmd, False) = Some b"
  shows "runs_to h (bus_call cmd h) {g} {b}"
  using assms by (simp add: runs_to_def bus_call_def wired_def wire_run_snoc split: bus_reply.split)

lemma runs_hbind:
  assumes m: "runs_to h m good bad" and f: "\<And>x h' w. wired h' w \<Longrightarrow> w \<in> good \<Longrightarrow> runs_to h' (f x h') good' bad'" and "bad \<subseteq> bad'"
  shows "runs_to h (hbind m f) good' bad'"
proof (cases m)
  case (Pair r h')
  then obtain w where w: "hw_connected h' = hw_connected h" "hw_config h' = hw_config h" "hw_bus h' = hw_bus h" "wired h' w"
    "case r of Inr x \<Rightarrow> w \<in> good | Inl e \<Rightarrow> w \<in> bad" using m by (auto simp: runs_to_def)
  show ?thesis
  proof (cases r)
    case (Inl e)
    with w Pair assms(3) show ?thesis by (auto simp: runs_to_def hbind_def)
  next
    case (Inr x)
    with w f [of h' w x] Pair show ?thesis by (simp add: runs_to_def hbind_def)
  qed
qed

lemma runs_value: "wired h w \<Longrightarrow> w \<in> good \<Longrightarrow> w \<in> bad \<Longrightarrow> runs_to h (r, h) good bad"
  by (auto simp: runs_to_def split: sum.split)

lemma runs_error: "wired h w \<Longrightarrow> w \<in> bad \<Longrightarrow> runs_to h (Inl e, h) good bad"
  by (auto simp: runs_to_def)

lemma runs_toD: "runs_to h m good bad \<Longrightarrow> \<exists>w. wired (snd m) w \<and> w \<in> good \<union> bad \<and> hw_connected (snd m) = hw_connected h"
  by (cases "fst m") (auto simp: runs_to_def)

lemma runs_mono: "runs_to h m good bad \<Longrightarrow> good \<subseteq> good' \<Longrightarrow> bad \<subseteq> bad' \<Longrightarrow> runs_to h m good' bad'"
  by (fastforce simp: runs_to_def split: sum.splits)

section \<open>Connecting\<close>

lemma runs_dark_calls:
  assumes "wired h Dark" "\<forall>cmd \<in> set cmds. \<exists>r m v. cmd = BConfigure \<or> cmd = BWrite r m v"
  shows "runs_to h (bus_calls cmds h) {Dark} {Dark}"
  using assms
proof (induction cmds arbitrary: h)
  case (Cons cmd cmds)
  have "runs_to h (bus_call cmd h) {Dark} {Dark}"
    by (rule runs_bus_call [OF Cons.prems(1)]) (use Cons.prems(2) in auto)
  then have "runs_to h (hbind (bus_call cmd h) (\<lambda>_. bus_calls cmds)) {Dark} {Dark}"
    by (rule runs_hbind) (use Cons in auto)
  then show ?case by simp
qed (simp add: runs_value)

lemma runs_configuration:
  assumes "wired h w" "w \<noteq> Unplugged"
  shows "runs_to h (bus_calls ([BDisable, BConfigure] @ concat (map (motor_writes cfg) ms)) h) {Dark} {Dark, Unknown}"
proof -
  have "runs_to h (bus_call BDisable h) {Dark} {Unknown}"
    by (rule runs_bus_call [OF assms(1)]) (use assms(2) in \<open>cases w; simp\<close>)+
  then have "runs_to h (hbind (bus_call BDisable h) (\<lambda>_. bus_calls ([BConfigure] @ concat (map (motor_writes cfg) ms)))) {Dark} {Dark, Unknown}"
  proof (rule runs_hbind)
    fix x h' w' assume "wired h' w'" "w' \<in> {Dark}"
    then have "runs_to h' (bus_calls ([BConfigure] @ concat (map (motor_writes cfg) ms)) h') {Dark} {Dark}"
      by (intro runs_dark_calls) (auto simp: motor_writes_def split: if_splits)
    then show "runs_to h' (bus_calls ([BConfigure] @ concat (map (motor_writes cfg) ms)) h') {Dark} {Dark, Unknown}"
      by (rule runs_mono) auto
  qed simp
  then show ?thesis by simp
qed

lemma runs_prepare_connected:
  assumes "wired h w" "w \<noteq> Unplugged"
  shows "runs_to h (prepare_connected_robot_disabled h) {Aimed} {Aimed, Dark, Unknown}"
  unfolding prepare_connected_robot_disabled_def
proof (rule runs_hbind [OF runs_configuration [OF assms]])
  fix x :: unit and h' w' assume 1: "wired h' w'" "w' \<in> {Dark}"
  then have "runs_to h' (bus_call BReadPresent h') {Dark} {Dark}" by (intro runs_bus_call [OF 1(1)]) auto
  then show "runs_to h' (hbind (bus_call BReadPresent h') (\<lambda>rep h. hbind (bus_call (BGoals (present_values rep)) h)
      (\<lambda>_ h. (joint_array (present_values rep), h)))) {Aimed} {Aimed, Dark, Unknown}"
  proof (rule runs_hbind)
    fix rep h'' w'' assume 2: "wired h'' w''" "w'' \<in> {Dark}"
    then have "runs_to h'' (bus_call (BGoals (present_values rep)) h'') {Aimed} {Dark}" by (intro runs_bus_call [OF 2(1)]) auto
    then show "runs_to h'' (hbind (bus_call (BGoals (present_values rep)) h'') (\<lambda>_ h. (joint_array (present_values rep), h)))
        {Aimed} {Aimed, Dark, Unknown}"
      by (rule runs_hbind) (auto intro: runs_value)
  qed simp
qed simp

section \<open>The invariant of the backend\<close>

definition hw_inv :: "hardware \<Rightarrow> bool" where
  "hw_inv h \<longleftrightarrow> (\<exists>w. wired h w \<and> (if hw_connected h then w \<in> {Dark, Aimed, Lit} else w = Unplugged))"

lemma runs_inv:
  assumes "runs_to h m good bad" "hw_connected h" "good \<subseteq> {Dark, Aimed, Lit}" "bad \<subseteq> {Dark, Aimed, Lit}"
  shows "hw_inv (snd m)"
proof -
  from assms(1) obtain w where "wired (snd m) w" "case fst m of Inr x \<Rightarrow> w \<in> good | Inl e \<Rightarrow> w \<in> bad" "hw_connected (snd m) = hw_connected h"
    by (auto simp: runs_to_def)
  then show ?thesis using assms(2-4) unfolding hw_inv_def by (intro exI [of _ w]) (auto split: sum.splits)
qed

lemma close_unplugs:
  assumes "wired h w" "hw_connected h" "w \<noteq> Unplugged"
  shows "hw_inv (close_hardware h) \<and> \<not> hw_connected (close_hardware h)"
proof -
  let ?h = "h\<lparr>hw_connected := False\<rparr>"
  have "wired ?h w" using assms(1) by (simp add: wired_def)
  then have "runs_to ?h (bus_call BDisable ?h) {Dark} {Unknown}" by (rule runs_bus_call) (use assms(3) in \<open>cases w; simp\<close>)+
  then obtain w' where w': "wired (snd (bus_call BDisable ?h)) w'" "w' \<in> {Dark, Unknown}" "\<not> hw_connected (snd (bus_call BDisable ?h))"
    using runs_toD [of ?h "bus_call BDisable ?h"] by fastforce
  have "runs_to (snd (bus_call BDisable ?h)) (bus_call BDisconnect (snd (bus_call BDisable ?h))) {Unplugged} {Unplugged}"
    by (rule runs_bus_call [OF w'(1)]) (use w'(2) in auto)
  then show ?thesis using assms(2) w'(3)
    by (auto simp: runs_to_def close_hardware_def hw_inv_def split: sum.splits)
qed

lemma close_inv: "hw_inv h \<Longrightarrow> hw_inv (close_hardware h) \<and> \<not> hw_connected (close_hardware h)"
proof (cases "hw_connected h")
  case True
  assume "hw_inv h"
  with True obtain w where "wired h w" "w \<noteq> Unplugged" by (auto simp: hw_inv_def)
  with True show ?thesis by (intro close_unplugs)
qed (simp add: close_hardware_def)

lemma prepare_inv:
  assumes "hw_inv h"
  shows "hw_inv (snd (prepare_disabled_hw h))"
proof (cases "hw_connected h \<or> \<not> rb_calibrated (hw_config h)")
  case True
  with assms show ?thesis by (auto simp: prepare_disabled_hw_def)
next
  case False
  then have un: "wired h Unplugged" using assms by (auto simp: hw_inv_def)
  obtain r h1 where c: "bus_call BConnect h = (r, h1)" by (cases "bus_call BConnect h")
  have "runs_to h (bus_call BConnect h) {Unknown} {Unplugged}" by (rule runs_bus_call [OF un]) simp_all
  then have h1: "\<not> hw_connected h1" "case r of Inr x \<Rightarrow> wired h1 Unknown | Inl e \<Rightarrow> wired h1 Unplugged"
    using False by (auto simp: runs_to_def c split: sum.splits)
  show ?thesis
  proof (cases r)
    case (Inl e)
    with False c h1 show ?thesis by (simp add: prepare_disabled_hw_def hbind_def hw_inv_def)
  next
    case (Inr x)
    let ?h = "h1\<lparr>hw_connected := True\<rparr>" let ?m = "hbind (check_calibrated ?h) (\<lambda>_. prepare_connected_robot_disabled)"
    have "wired ?h Unknown" using h1(2) Inr by (simp add: wired_def)
    then have "runs_to ?h (bus_call BCheckCalibration ?h) {Unknown} {Unknown}" by (rule runs_bus_call) simp_all
    then have "runs_to ?h (check_calibrated ?h) {Unknown} {Unknown}"
      unfolding check_calibrated_def by (rule runs_hbind) (auto intro: runs_value)
    then have m: "runs_to ?h ?m {Aimed} {Aimed, Dark, Unknown}"
      by (rule runs_hbind) (auto intro: runs_prepare_connected)
    obtain r' h' where h': "?m = (r', h')" by (cases ?m)
    with m obtain w where w: "wired h' w" "hw_connected h'" "case r' of Inr x \<Rightarrow> w \<in> {Aimed} | Inl e \<Rightarrow> w \<in> {Aimed, Dark, Unknown}"
      unfolding runs_to_def by auto
    show ?thesis
    proof (cases r')
      case (Inl e)
      then have "hw_inv (close_hardware h')" using close_unplugs [OF w(1,2)] w(3) by auto
      with False c Inr h' Inl show ?thesis by (simp add: prepare_disabled_hw_def hbind_def [of "(Inr x, h1)"])
    next
      case (Inr q)
      with w have "hw_inv h'" by (auto simp: hw_inv_def)
      with False c \<open>r = Inr x\<close> h' Inr show ?thesis by (simp add: prepare_disabled_hw_def hbind_def [of "(Inr x, h1)"])
    qed
  qed
qed

lemma runs_write_goals:
  assumes "wired h w" "hw_connected h" "w \<in> {Dark, Aimed, Lit}"
  shows "runs_to h (write_goals q h) {Aimed, Lit} {Dark, Aimed, Lit}"
proof -
  have goals: "runs_to h (bus_call (BGoals g) h) {Aimed, Lit} {Dark, Aimed, Lit}" for g
    by (rule runs_mono [OF runs_bus_call [OF assms(1), of _ "if w = Lit then Lit else Aimed" "if w = Lit then Lit else Dark"]])
       (use assms(3) in auto)
  have "runs_to h (hbind (bus_call (BGoals g) h) (\<lambda>_ h. (Inr (), h))) {Aimed, Lit} {Dark, Aimed, Lit}" for g
    by (rule runs_hbind [OF goals]) (auto intro: runs_value)
  then show ?thesis using assms
    by (auto simp: write_goals_def require_robot_def hbind_def [of "(Inr (), h)"] goal_dict_def hbind_def [of "(Inr g, h)" for g]
        hbind_def [of "(Inl e, h)" for e] intro: runs_error)
qed

lemma runs_enable:
  assumes "wired h w" "hw_connected h" "w \<in> {Dark, Aimed, Lit}"
  shows "runs_to h (enable_at_current q h) {Lit} {Dark, Aimed, Lit}"
  unfolding enable_at_current_def
proof (rule runs_hbind [OF runs_write_goals [OF assms]])
  fix x :: unit and h' w' assume 1: "wired h' w'" "w' \<in> {Aimed, Lit}"
  then have "runs_to h' (bus_call BEnable h') {Lit} {Lit}" by (intro runs_bus_call [OF 1(1)]) auto
  then show "runs_to h' (hbind (bus_call BEnable h') (\<lambda>_ h. (Inr (), h))) {Lit} {Dark, Aimed, Lit}"
    by (rule runs_hbind) (auto intro: runs_value)
qed simp

lemma runs_read:
  assumes "wired h w" "hw_connected h" "w \<in> {Dark, Aimed, Lit}"
  shows "runs_to h (read_q h) {w} {w}"
proof -
  have "runs_to h (bus_call BReadPresent h) {w} {w}" by (rule runs_bus_call [OF assms(1)]) (use assms(3) in auto)
  then have "runs_to h (hbind (bus_call BReadPresent h) (\<lambda>rep h. (joint_array (present_values rep), h))) {w} {w}"
    by (rule runs_hbind) (auto intro: runs_value)
  with assms show ?thesis by (simp add: read_q_def require_robot_def hbind_def [of "(Inr (), h)"])
qed

lemma disconnected_refuses:
  assumes "\<not> hw_connected h"
  shows "snd (write_goals q h) = h" "snd (enable_at_current q h) = h" "snd (read_q h) = h"
  using assms by (simp_all add: write_goals_def enable_at_current_def read_q_def require_robot_def hbind_def)

lemma hw_call_inv:
  assumes "hw_inv h"
  shows "hw_inv (snd (hw_call h c))"
proof -
  have moves: "hw_inv (snd (write_goals q h)) \<and> hw_inv (snd (enable_at_current q h)) \<and> hw_inv (snd (read_q h))" for q
  proof (cases "hw_connected h")
    case True
    with assms obtain w where "wired h w" "hw_connected h" "w \<in> {Dark, Aimed, Lit}" by (auto simp: hw_inv_def)
    note w = this
    show ?thesis
      using runs_inv [OF runs_write_goals [OF w, of q] True] runs_inv [OF runs_enable [OF w, of q] True] runs_inv [OF runs_read [OF w] True] w(3)
      by auto
  qed (simp add: disconnected_refuses assms)
  show ?thesis
    by (cases "(h, c)" rule: hw_call.cases) (use moves prepare_inv [OF assms] close_inv [OF assms] in \<open>auto simp: no_value_def\<close>)
qed

section \<open>Guarantees\<close>

definition hw_run :: "hardware \<Rightarrow> backend_call list \<Rightarrow> hardware" where
  "hw_run h cs = foldl (\<lambda>h c. snd (hw_call h c)) h cs"

lemma fresh_inv: "hw_inv (SO101Backend cfg bus)"
  by (simp add: hw_inv_def wired_def SO101Backend_def)

lemma hw_run_inv: "hw_inv (hw_run (SO101Backend cfg bus) cs)"
proof -
  have "hw_inv (SO101Backend cfg bus)" by (rule fresh_inv)
  then show ?thesis by (induction cs rule: rev_induct) (simp_all add: hw_run_def hw_call_inv)
qed

text \<open>Torque was switched off on this connection, and goals have been written to the servos since.\<close>

definition same_connection :: "bus_log \<Rightarrow> bool" where
  "same_connection xs \<longleftrightarrow> (\<forall>x \<in> set xs. fst x \<noteq> BConnect \<and> fst x \<noteq> BDisconnect)"

definition darkened :: "bus_log \<Rightarrow> bool" where
  "darkened bl \<longleftrightarrow> (\<exists>before since. bl = before @ (BDisable, True) # since \<and> same_connection since)"

definition armed :: "bus_log \<Rightarrow> bool" where
  "armed bl \<longleftrightarrow> (\<exists>before goals since. bl = before @ (BGoals goals, True) # since \<and> same_connection since \<and> darkened before)"

lemma darkened_snoc: "darkened bl \<Longrightarrow> same_connection [x] \<Longrightarrow> darkened (bl @ [x])"
proof -
  assume "darkened bl" "same_connection [x]"
  then obtain before since where "bl = before @ (BDisable, True) # since" "same_connection since" by (auto simp: darkened_def)
  with \<open>same_connection [x]\<close> show ?thesis unfolding darkened_def
    by (intro exI [of _ before] exI [of _ "since @ [x]"]) (simp add: same_connection_def)
qed

lemma armed_snoc: "armed bl \<Longrightarrow> same_connection [x] \<Longrightarrow> armed (bl @ [x])"
proof -
  assume "armed bl" "same_connection [x]"
  then obtain before goals since where "bl = before @ (BGoals goals, True) # since" "same_connection since" "darkened before"
    by (auto simp: armed_def)
  with \<open>same_connection [x]\<close> show ?thesis unfolding armed_def
    by (intro exI [of _ before] exI [of _ goals] exI [of _ "since @ [x]"]) (simp add: same_connection_def)
qed

lemma darkened_now: "darkened (bl @ [(BDisable, True)])"
  unfolding darkened_def by (intro exI [of _ bl] exI [of _ "[]"]) (simp add: same_connection_def)

lemma armed_now: "darkened bl \<Longrightarrow> armed (bl @ [(BGoals goals, True)])"
  unfolding armed_def by (intro exI [of _ bl] exI [of _ goals] exI [of _ "[]"]) (simp add: same_connection_def)

lemma wire_armed:
  "wire_run Unplugged bl = Some w \<Longrightarrow> (w \<in> {Dark, Aimed, Lit} \<longrightarrow> darkened bl) \<and> (w \<in> {Aimed, Lit} \<longrightarrow> armed bl)"
proof (induction bl arbitrary: w rule: rev_induct)
  case (snoc x bl)
  then obtain v where v: "wire_run Unplugged bl = Some v" "wire_step v x = Some w" by (auto simp: wire_run_snoc split: option.splits)
  note keep = darkened_snoc armed_snoc
  show ?case using v(2) snoc.IH [OF v(1)] darkened_now [of bl] armed_now [of bl]
    by (cases "(v, x)" rule: wire_step.cases) (auto intro: keep simp: same_connection_def split: if_splits)
qed simp

lemma wire_prefix: "wire_run w (xs @ ys) = Some v \<Longrightarrow> \<exists>u. wire_run w xs = Some u \<and> wire_run u ys = Some v"
  by (induction w xs rule: wire_run.induct) (auto split: option.splits)

text \<open>
  C8. The arm is never powered on a stale goal. Whatever calls are made on the physical backend, in any
  order, and whatever the bus answers or fails to do: before every command that enables torque,
  torque was switched off on the same connection, and after that goals were written successfully, so
  that no goal left in the servos by an earlier process or a broken session is executed. A backend
  that is not connected has closed every connection it opened.
\<close>

theorem no_stale_goal_energised:
  assumes "hw_log (hw_run (SO101Backend cfg bus) cs) = pre @ (BEnable, success) # post"
  shows "armed pre \<and> (\<not> hw_connected (hw_run (SO101Backend cfg bus) cs) \<longrightarrow>
     wire_run Unplugged (hw_log (hw_run (SO101Backend cfg bus) cs)) = Some Unplugged)"
proof -
  let ?h = "hw_run (SO101Backend cfg bus) cs"
  obtain w where w: "wire_run Unplugged (hw_log ?h) = Some w" "\<not> hw_connected ?h \<longrightarrow> w = Unplugged"
    using hw_run_inv [of cfg bus cs] by (auto simp: hw_inv_def wired_def)
  then obtain u where u: "wire_run Unplugged pre = Some u" "wire_run u ((BEnable, success) # post) = Some w"
    using wire_prefix assms by metis
  then have "u \<in> {Aimed, Lit}" by (cases u) auto
  with wire_armed [OF u(1)] w show ?thesis by blast
qed

section \<open>Runs on the physical arm\<close>

fun motor_of :: "backend_call \<Rightarrow> motor_call option" where
  "motor_of (Motor c) = Some c"
| "motor_of ReadPose = None"

lemma bus_closed_last: "bus_run BusOff cs = Some s \<Longrightarrow> s \<in> {BusOff, BusClosed} \<Longrightarrow> cs = [] \<or> last cs = MClose"
proof (induction cs rule: rev_induct)
  case (snoc c cs)
  then obtain v where "bus_step v c = Some s" by (auto simp: bus_run_snoc split: option.splits)
  with snoc.prems(2) show ?case by (cases "(v, c)" rule: bus_step.cases) auto
qed simp

text \<open>
  What the two backends have in common: they stay in order, close on \<^verbatim>\<open>close\<close>, and reading the pose
  connects nothing.
\<close>

locale closing_backend =
  fixes call :: "'b \<Rightarrow> backend_call \<Rightarrow> 'b" and connected :: "'b \<Rightarrow> bool" and in_order :: "'b \<Rightarrow> bool"
  assumes keeps: "in_order b \<Longrightarrow> in_order (call b c)"
    and closes: "in_order b \<Longrightarrow> \<not> connected (call b (Motor MClose))"
    and reads: "in_order b \<Longrightarrow> \<not> connected b \<Longrightarrow> \<not> connected (call b ReadPose)"
begin

lemma stays_in_order: "in_order b \<Longrightarrow> in_order (foldl call b cs)"
  by (induction cs arbitrary: b) (simp_all add: keeps)

lemma connected_calls:
  "in_order b \<Longrightarrow> \<not> connected b \<Longrightarrow> connected (foldl call b cs) \<Longrightarrow>
     List.map_filter motor_of cs \<noteq> [] \<and> last (List.map_filter motor_of cs) \<noteq> MClose"
proof (induction cs rule: rev_induct)
  case (snoc c cs)
  have ord: "in_order (foldl call b cs)" by (rule stays_in_order [OF snoc.prems(1)])
  show ?case
  proof (cases c)
    case (Motor m)
    then have "m \<noteq> MClose" using snoc.prems(3) closes [OF ord] by auto
    then show ?thesis by (simp add: Motor map_filter_def)
  next
    case ReadPose
    then have "connected (foldl call b cs)" using snoc.prems(3) reads [OF ord] by auto
    with snoc ReadPose show ?thesis by (simp add: map_filter_def)
  qed
qed simp

lemma closed_after:
  assumes "in_order b" "\<not> connected b" "bus_run BusOff (List.map_filter motor_of cs) = Some s" "s \<in> {BusOff, BusClosed}"
  shows "\<not> connected (foldl call b cs)"
  using connected_calls [OF assms(1,2)] bus_closed_last [OF assms(3,4)] by metis

end

text \<open>The simulated backend keeps its state when a call raises.\<close>

fun sim_next :: "sim_backend \<Rightarrow> backend_call \<Rightarrow> sim_backend" where
  "sim_next b (Motor c) = (case sim_call b c of Inl e \<Rightarrow> b | Inr b' \<Rightarrow> b')"
| "sim_next b ReadPose = b"

interpretation simulated_arm: closing_backend sim_next sim_connected "\<lambda>b. True"
  by unfold_locales auto

interpretation physical_arm: closing_backend "\<lambda>h c. snd (hw_call h c)" hw_connected hw_inv
  by unfold_locales (auto simp: hw_call_inv close_inv disconnected_refuses no_value_def)

text \<open>
  C38. A run that is over has let go of the arm. Take any run the server can reach, in any interleaving
  of requests and motor thread, and let the physical backend execute its calls, with any readings of
  the pose in between and any behaviour of the bus. Once the run is in a terminal state, the backend is
  disconnected and its last connection was closed. The simulated backend is disconnected as well.
\<close>

theorem finished_run_disconnects:
  assumes "run_reachable E (ProgramRun rid h mode digest disconnect pol chz thz hb hold now) r" "state r \<in> set TERMINAL_STATES"
    and "List.map_filter motor_of cs = calls r"
  shows "\<not> hw_connected (hw_run (SO101Backend cfg bus) cs) \<and>
    wire_run Unplugged (hw_log (hw_run (SO101Backend cfg bus) cs)) = Some Unplugged \<and>
    \<not> sim_connected (foldl sim_next SimulatedBackend cs)"
proof -
  have "phase_ok r" by (rule reachable_phase_ok [OF assms(1) fresh_phase_ok])
  from phase_bus [OF this] assms(2,3) obtain s where s: "bus_run BusOff (List.map_filter motor_of cs) = Some s" "s \<in> {BusOff, BusClosed}" by auto
  have "\<not> hw_connected (hw_run (SO101Backend cfg bus) cs)" unfolding hw_run_def
    by (rule physical_arm.closed_after [OF fresh_inv _ s]) (simp add: SO101Backend_def)
  moreover have "\<not> sim_connected (foldl sim_next SimulatedBackend cs)"
    by (rule simulated_arm.closed_after [OF _ _ s]) (simp_all add: SimulatedBackend_def)
  ultimately show ?thesis using hw_run_inv [of cfg bus cs] by (auto simp: hw_inv_def wired_def)
qed

section \<open>Instances\<close>

definition demo_bus :: "bus_log \<Rightarrow> bus_cmd \<Rightarrow> bus_reply" where
  "demo_bus bl cmd = (case cmd of
      BCheckCalibration \<Rightarrow> Calibrated True
    | BReadPresent \<Rightarrow> Present (map (\<lambda>n. (n, Fin 10)) JOINTS)
    | _ \<Rightarrow> Done)"

definition demo_robot :: robot_config where
  "demo_robot = \<lparr>rb_calibrated = True, rb_motors = [''gripper''], rb_position_mode = 0, rb_p_coefficient = 16,
     rb_i_coefficient = 0, rb_d_coefficient = 32\<rparr>"

theorem no_stale_goal_energised_witness:
  "armed (butlast (hw_log (hw_run (SO101Backend demo_robot demo_bus) [Motor MPrepare, Motor (MEnable (replicate 6 (Fin 10)))])))"
proof -
  let ?h = "hw_run (SO101Backend demo_robot demo_bus) [Motor MPrepare, Motor (MEnable (replicate 6 (Fin 10)))]"
  have "last (hw_log ?h) = (BEnable, True) \<and> hw_log ?h \<noteq> []" by code_simp
  then have "hw_log ?h = butlast (hw_log ?h) @ (BEnable, True) # []" by (metis append_butlast_last_id)
  from no_stale_goal_energised [OF this] show ?thesis by blast
qed

lemma motors_only: "List.map_filter motor_of (map Motor cs) = cs"
  by (induction cs) (simp_all add: map_filter_def)

theorem finished_run_disconnects_witness:
  "\<not> hw_connected (hw_run (SO101Backend demo_robot demo_bus)
    (map Motor (calls (fold thread_step (replicate 6 (demo_world 0)) (request_stop (demo_at [0, 0, 0]))))))"
proof -
  let ?r = "fold thread_step (replicate 6 (demo_world 0)) (request_stop (demo_at [0, 0, 0]))"
  have "run_reachable demo_json demo_run ?r" by (intro reachable_fold reach_step [OF demo_run_reachable(2) step_stop])
  moreover have "state ?r \<in> set TERMINAL_STATES" by code_simp
  ultimately show ?thesis
    using finished_run_disconnects [of demo_json, folded demo_run_def] motors_only unfolding demo_run_def by blast
qed

end
