(* ===== verification/Dashboard.thy ===== *)
theory Dashboard
  imports OperationsSafety Server
begin

text \<open>
  The read-only dashboard, \<^verbatim>\<open>dashboard.py\<close>: its construction and life cycle, the routes, and the event
  stream. The web framework, the sockets and the classification of IP literals are parameters; the
  text of a response is a string, before it is encoded.
\<close>

section \<open>The server\<close>

record dashboard =
  db_host :: string
  db_port :: int
  db_interval :: pyfloat
  db_bound :: "int option"
  db_runner :: bool
  db_polling :: bool
  db_closed :: bool

text \<open>\<open>is_loopback\<close> stands for \<^verbatim>\<open>ipaddress.ip_address(value).is_loopback\<close>.\<close>

definition loopback_host :: "(string \<Rightarrow> bool result) \<Rightarrow> string \<Rightarrow> string result" where
  "loopback_host is_loopback value =
     bind (catch (is_loopback value) (\<lambda>e. e = ValueError) ValueError) (\<lambda>loopback.
     raise_if (\<not> loopback) ValueError (Inr value))"

definition DashboardServer :: "(string \<Rightarrow> bool result) \<Rightarrow> string \<Rightarrow> pyval \<Rightarrow> pyfloat \<Rightarrow> dashboard result" where
  "DashboardServer is_loopback host port refresh_interval_s =
     bind (loopback_host is_loopback host) (\<lambda>h.
     case port of
       PInt p \<Rightarrow>
         raise_if (\<not> (0 \<le> p \<and> p \<le> 65535)) ValueError
         (raise_if (flt refresh_interval_s (fround (1 / 10))) ValueError
         (Inr \<lparr>db_host = h, db_port = p, db_interval = refresh_interval_s, db_bound = None, db_runner = False,
            db_polling = False, db_closed = False\<rparr>))
     | _ \<Rightarrow> Inl ValueError)"

definition dashboard_url :: "dashboard \<Rightarrow> string result" where
  "dashboard_url D = (case db_bound D of
      None \<Rightarrow> Inl RuntimeError
    | Some p \<Rightarrow> Inr (''http://'' @ (if CHR '':'' \<in> set (db_host D) then ''['' @ db_host D @ '']'' else db_host D) @ '':'' @ decimal (nat p)))"

text \<open>
  \<^verbatim>\<open>start\<close>: \<open>refreshed\<close> is the outcome of the first refresh, \<open>listening\<close> that of opening the socket: an
  exception, no socket, or the port. A failure takes the runner down again.
\<close>

definition start_dashboard :: "dashboard \<Rightarrow> bool result \<Rightarrow> int option result \<Rightarrow> unit result \<times> dashboard" where
  "start_dashboard D refreshed listening =
     (if db_runner D then (Inr (), D)
      else if db_closed D then (Inl RuntimeError, D)
      else case refreshed of
        Inl e \<Rightarrow> (Inl e, D)
      | Inr changed \<Rightarrow> (case listening of
            Inl e \<Rightarrow> (Inl e, D)
          | Inr None \<Rightarrow> (Inl RuntimeError, D)
          | Inr (Some p) \<Rightarrow> (Inr (), D\<lparr>db_runner := True, db_bound := Some p, db_polling := True\<rparr>)))"

definition close_dashboard :: "dashboard \<Rightarrow> dashboard" where
  "close_dashboard D = (if db_closed D then D
     else D\<lparr>db_closed := True, db_polling := False, db_runner := False, db_bound := None\<rparr>)"

text \<open>One round of \<^verbatim>\<open>_poll\<close>: an exception of the refresh is swallowed.\<close>

definition poll_dashboard :: "pyenv \<Rightarrow> projection \<Rightarrow> lease_manager \<Rightarrow> run_journal \<Rightarrow> view_clock \<Rightarrow>
    (string \<times> pyval result \<times> int) list \<Rightarrow> projection" where
  "poll_dashboard E P leases j c polls = snd (refresh E P leases j c polls)"

section \<open>Responses\<close>

datatype route = Asset string | Health | SnapshotRoute | Events

definition routes :: "(string \<times> route) list" where
  "routes = [(''/'', Asset ''index.html''), (''/favicon.svg'', Asset ''favicon.svg''), (''/assets/dashboard.css'', Asset ''dashboard.css''),
     (''/assets/dashboard.js'', Asset ''dashboard.js''), (''/api/health'', Health), (''/api/snapshot'', SnapshotRoute), (''/api/events'', Events)]"

text \<open>The headers that \<^verbatim>\<open>_security_headers\<close> puts on a response the handler returned.\<close>

definition security_headers :: "(string \<times> string) list" where
  "security_headers = [(''Cache-Control'', ''no-store''), (''X-Content-Type-Options'', ''nosniff''), (''X-Frame-Options'', ''DENY''),
     (''Referrer-Policy'', ''no-referrer''),
     (''Content-Security-Policy'', ''default-src 'self'; base-uri 'none'; frame-ancestors 'none'; connect-src 'self'; img-src 'self' data:; script-src 'self'; style-src 'self'' @ [char_of (39 :: nat)])]"

datatype response = FileResponse string | JsonResponse pyval | HttpError int | StreamResponse subscriber | Crash exn

definition health_dict :: "pydict \<Rightarrow> pyval result" where
  "health_dict d = bind (bind (dindex d ''server'') (\<lambda>s. case s of PDict server \<Rightarrow> dindex server ''server_id'' | _ \<Rightarrow> Inl TypeError)) (\<lambda>sid.
     bind (dindex d ''operations_event_seq'') (\<lambda>n. bind (dindex d ''generated_at_ns'') (\<lambda>t.
     Inr (mkdict [(''ok'', PBool True), (''read_only'', PBool True), (''server_id'', sid), (''operations_event_seq'', n),
       (''generated_at_ns'', t)]))))"

definition json_response :: "pyval result \<Rightarrow> response" where
  "json_response r = (case r of Inl e \<Rightarrow> Crash e | Inr v \<Rightarrow> JsonResponse v)"

text \<open>The cursor of \<^verbatim>\<open>/api/events\<close>: the header of a reconnecting browser wins over the query.\<close>

definition event_cursor :: "string option \<Rightarrow> string option \<Rightarrow> int result" where
  "event_cursor last_event_id after_query =
     int_of_str (case last_event_id of Some s \<Rightarrow> s | None \<Rightarrow> (case after_query of Some s \<Rightarrow> s | None \<Rightarrow> ''0''))"

definition open_events :: "string option \<Rightarrow> string option \<Rightarrow> response" where
  "open_events last_event_id after_query = (case event_cursor last_event_id after_query of
      Inl e \<Rightarrow> HttpError 400
    | Inr n \<Rightarrow> if n < 0 then HttpError 400
        else (case subscribe (PInt n) of Inl e \<Rightarrow> Crash e | Inr s \<Rightarrow> StreamResponse s))"

definition handle_get :: "pyenv \<Rightarrow> (string \<Rightarrow> bool) \<Rightarrow> projection \<Rightarrow> lease_manager \<Rightarrow> run_journal \<Rightarrow> view_clock \<Rightarrow>
    (string \<times> pyval result \<times> int) list \<Rightarrow> string \<Rightarrow> string option \<Rightarrow> string option \<Rightarrow> response \<times> projection" where
  "handle_get E is_file P leases j c polls path last_event_id after_query = (case map_of routes path of
      None \<Rightarrow> (HttpError 404, P)
    | Some (Asset name) \<Rightarrow> (if is_file name then FileResponse name else HttpError 404, P)
    | Some Health \<Rightarrow> (case operations_snapshot E P leases j c polls of (r, P1) \<Rightarrow> (json_response (bind r health_dict), P1))
    | Some SnapshotRoute \<Rightarrow> (case operations_snapshot E P leases j c polls of (r, P1) \<Rightarrow> (json_response (bind r (\<lambda>d. Inr (PDict d))), P1))
    | Some Events \<Rightarrow> (open_events last_event_id after_query, P))"

section \<open>The event stream\<close>

definition newline :: char where
  "newline = CHR 0x0A"

text \<open>A frame; \<open>dumps\<close> is \<^verbatim>\<open>json.dumps\<close>. Between events the stream writes a comment.\<close>

definition event_frame :: "(pyval \<Rightarrow> string) \<Rightarrow> operations_event \<Rightarrow> string" where
  "event_frame dumps e = ''id: '' @ decimal (nat (ov_event_seq e)) @ [newline] @ ''event: operations'' @ [newline] @
     ''data: '' @ dumps (event_public_dict e) @ [newline, newline]"

definition keepalive :: string where
  "keepalive = '': operations keepalive'' @ [newline, newline]"

record event_stream =
  es_subscriber :: subscriber
  es_text :: string
  es_open :: bool

text \<open>
  One round of the loop: the next event, the comment after fifteen seconds without one, or the end
  because the projection was closed.
\<close>

definition stream_turn :: "(pyval \<Rightarrow> string) \<Rightarrow> projection \<Rightarrow> event_stream \<Rightarrow> event_stream" where
  "stream_turn dumps P st =
     (if \<not> es_open st then st
      else case next_published P (es_subscriber st) of
        (Some e, s) \<Rightarrow> st\<lparr>es_subscriber := s, es_text := es_text st @ event_frame dumps e\<rparr>
      | (None, s) \<Rightarrow> if sb_ended s then st\<lparr>es_subscriber := s, es_open := False\<rparr>
          else st\<lparr>es_subscriber := s, es_text := es_text st @ keepalive\<rparr>)"

definition client_leaves :: "event_stream \<Rightarrow> event_stream" where
  "client_leaves st = st\<lparr>es_open := False\<rparr>"

end
