(* ===== verification/DashboardSafety.thy ===== *)
theory DashboardSafety
  imports Dashboard
begin

text \<open>
  What a browser reads from the event stream: it is cut into events as the standard of server-sent events
  prescribes, and compared with the events of the projection.
\<close>

section \<open>Reading a stream of events\<close>

text \<open>
  The browser: the lines up to the last line end, an event on every empty line behind some data,
  comments skipped, one space after the colon dropped. An event is its last identifier, its type and
  its data.
\<close>

record sse_state =
  sse_id :: string
  sse_type :: string
  sse_data :: "string option"

type_synonym sse_event = "string \<times> string \<times> string"

definition sse_field :: "string \<Rightarrow> string \<times> string" where
  "sse_field line = (case py_partition (CHR '':'') line of (name, found, v) \<Rightarrow>
     (name, if v \<noteq> [] \<and> hd v = CHR '' '' then tl v else v))"

definition sse_line :: "sse_state \<times> sse_event list \<Rightarrow> string \<Rightarrow> sse_state \<times> sse_event list" where
  "sse_line x line = (case x of (st, events) \<Rightarrow>
     if line = [] then
       (st\<lparr>sse_type := [], sse_data := None\<rparr>,
        case sse_data st of None \<Rightarrow> events | Some d \<Rightarrow> events @ [(sse_id st, sse_type st, d)])
     else if hd line = CHR '':'' then x
     else case sse_field line of (name, v) \<Rightarrow>
       if name = ''id'' then (st\<lparr>sse_id := v\<rparr>, events)
       else if name = ''event'' then (st\<lparr>sse_type := v\<rparr>, events)
       else if name = ''data'' then
         (st\<lparr>sse_data := Some (case sse_data st of None \<Rightarrow> v | Some d \<Rightarrow> d @ newline # v)\<rparr>, events)
       else x)"

definition sse_read :: "string \<Rightarrow> sse_state \<times> sse_event list" where
  "sse_read text = foldl sse_line (\<lparr>sse_id = [], sse_type = [], sse_data = None\<rparr>, []) (butlast (py_split newline text))"

definition sse_events :: "string \<Rightarrow> sse_event list" where
  "sse_events text = snd (sse_read text)"

lemma split_line: "c \<notin> set x \<Longrightarrow> py_split c (x @ c # y) = x # py_split c y"
  by (induction x) auto

lemma split_not_Nil: "py_split c s \<noteq> []"
  by (cases s) (auto split: list.split)

lemma split_append: "py_split c s = xs @ [[]] \<Longrightarrow> py_split c (s @ y) = xs @ py_split c y"
proof (induction s arbitrary: xs)
  case (Cons x s)
  show ?case
  proof (cases "x = c")
    case True
    with Cons.prems obtain xs' where "xs = [] # xs'" "py_split c s = xs' @ [[]]"
      using split_not_Nil [of c s] by (cases xs) auto
    with True Cons.IH show ?thesis by simp
  next
    case False
    with Cons.prems split_not_Nil [of c s] obtain z zs where z: "py_split c s = z # zs" "(x # z) # zs = xs @ [[]]"
      by (cases "py_split c s") auto
    then obtain xs' where xs: "xs = (x # z) # xs'" "zs = xs' @ [[]]" by (cases xs) auto
    then have "py_split c s = (z # xs') @ [[]]" using z(1) by simp
    from Cons.IH [OF this] xs False show ?thesis by simp
  qed
qed simp

definition complete_text :: "string \<Rightarrow> bool" where
  "complete_text s \<longleftrightarrow> s = [] \<or> last s = newline"

lemma split_complete: "complete_text s \<Longrightarrow> \<exists>xs. py_split newline s = xs @ [[]]"
  by (cases s rule: rev_cases) (auto simp: complete_text_def py_split_snoc)

lemma sse_append: "complete_text s \<Longrightarrow> sse_read (s @ y) = foldl sse_line (sse_read s) (butlast (py_split newline y))"
  using split_complete [of s] split_append [of newline s] split_not_Nil [of newline y] by (auto simp: sse_read_def butlast_append)

section \<open>What the dashboard writes\<close>

text \<open>The dumps of the standard library escape control characters.\<close>

definition one_line :: "(pyval \<Rightarrow> string) \<Rightarrow> bool" where
  "one_line dumps \<longleftrightarrow> (\<forall>v. newline \<notin> set (dumps v))"

lemma digit_no_newline: "k < 10 \<Longrightarrow> char_of (48 + k :: nat) \<noteq> newline"
proof
  assume "k < 10" "char_of (48 + k :: nat) = newline"
  then have "of_char (char_of (48 + k :: nat)) = (of_char newline :: nat)" by simp
  moreover have "(of_char newline :: nat) = 10" by (simp add: newline_def)
  ultimately show False using \<open>k < 10\<close> by simp
qed

lemma decimal_no_newline: "newline \<notin> set (decimal n)"
proof (induction n rule: decimal.induct)
  case (1 n)
  then show ?case using digit_no_newline [of n] digit_no_newline [of "n mod 10"] by (subst decimal.simps) auto
qed

lemma frame_lines:
  assumes "one_line dumps"
  shows "butlast (py_split newline (event_frame dumps e)) =
    [''id: '' @ decimal (nat (ov_event_seq e)), ''event: operations'', ''data: '' @ dumps (event_public_dict e), []]"
proof -
  have f: "newline \<notin> set ''id: ''" "newline \<notin> set ''event: operations''" "newline \<notin> set ''data: ''"
    by (simp_all add: newline_def)
  have n: "newline \<notin> set (''id: '' @ decimal (nat (ov_event_seq e)))" "newline \<notin> set (''data: '' @ dumps (event_public_dict e))"
    unfolding set_append Un_iff using f assms decimal_no_newline by (auto simp only: one_line_def)
  have "event_frame dumps e = (''id: '' @ decimal (nat (ov_event_seq e))) @ newline # ''event: operations'' @ newline #
      (''data: '' @ dumps (event_public_dict e)) @ newline # [newline]" by (simp add: event_frame_def)
  then show ?thesis by (simp only: split_line [OF n(1)] split_line [OF f(2)] split_line [OF n(2)]) (simp add: newline_def)
qed

lemma keepalive_lines: "butlast (py_split newline keepalive) = ['': operations keepalive'', []]"
  by code_simp

definition reader_idle :: "sse_state \<Rightarrow> bool" where
  "reader_idle st \<longleftrightarrow> sse_type st = [] \<and> sse_data st = None"

lemma read_lines:
  "sse_line (st, events) (''id: '' @ x) = (st\<lparr>sse_id := x\<rparr>, events)"
  "sse_line (st, events) ''event: operations'' = (st\<lparr>sse_type := ''operations''\<rparr>, events)"
  "sse_data st = None \<Longrightarrow> sse_line (st, events) (''data: '' @ x) = (st\<lparr>sse_data := Some x\<rparr>, events)"
  "sse_line (st, events) '': operations keepalive'' = (st, events)"
  by (simp_all add: sse_line_def sse_field_def)

lemma read_frame:
  assumes "one_line dumps" "complete_text s" "reader_idle (fst (sse_read s))"
  shows "complete_text (s @ event_frame dumps e)" "reader_idle (fst (sse_read (s @ event_frame dumps e)))"
    "sse_events (s @ event_frame dumps e) =
       sse_events s @ [(decimal (nat (ov_event_seq e)), ''operations'', dumps (event_public_dict e))]"
proof -
  show "complete_text (s @ event_frame dumps e)" by (simp add: complete_text_def event_frame_def)
  obtain st events where r: "sse_read s = (st, events)" by (cases "sse_read s")
  have "sse_read (s @ event_frame dumps e) = (st\<lparr>sse_id := decimal (nat (ov_event_seq e)), sse_type := [], sse_data := None\<rparr>,
      events @ [(decimal (nat (ov_event_seq e)), ''operations'', dumps (event_public_dict e))])"
    using assms(3) unfolding sse_append [OF assms(2)] frame_lines [OF assms(1)] foldl.simps r read_lines(1,2)
    by (subst read_lines(3)) (simp_all add: reader_idle_def r sse_line_def)
  then show "reader_idle (fst (sse_read (s @ event_frame dumps e)))" "sse_events (s @ event_frame dumps e) =
       sse_events s @ [(decimal (nat (ov_event_seq e)), ''operations'', dumps (event_public_dict e))]"
    by (simp_all add: reader_idle_def sse_events_def r)
qed

lemma read_keepalive:
  assumes "complete_text s" "reader_idle (fst (sse_read s))"
  shows "complete_text (s @ keepalive)" "reader_idle (fst (sse_read (s @ keepalive)))" "sse_events (s @ keepalive) = sse_events s"
proof -
  show "complete_text (s @ keepalive)" by (simp add: complete_text_def keepalive_def)
  obtain st events where r: "sse_read s = (st, events)" by (cases "sse_read s")
  have "sse_read (s @ keepalive) = (st\<lparr>sse_type := [], sse_data := None\<rparr>, events)"
    using assms(2) unfolding sse_append [OF assms(1)] keepalive_lines foldl.simps r read_lines(4)
    by (simp add: reader_idle_def r sse_line_def)
  then show "reader_idle (fst (sse_read (s @ keepalive)))" "sse_events (s @ keepalive) = sse_events s"
    by (simp_all add: reader_idle_def sse_events_def r)
qed

section \<open>Identifiers\<close>

lemma decimal_set: "set (decimal n) \<subseteq> (\<lambda>k. char_of (48 + k :: nat)) ` {..<10}"
proof (induction n rule: decimal.induct)
  case (1 n)
  show ?case
  proof (cases "n < 10")
    case True
    then have "char_of (48 + n :: nat) \<in> (\<lambda>k. char_of (48 + k :: nat)) ` {..<10}" by (intro imageI) simp
    with True show ?thesis by (subst decimal.simps) simp
  next
    case False
    have "char_of (48 + n mod 10 :: nat) \<in> (\<lambda>k. char_of (48 + k :: nat)) ` {..<10}" by (rule imageI) simp
    with 1 [OF False] False show ?thesis by (subst decimal.simps) simp
  qed
qed

lemma decimal_code: "c \<in> set (decimal n) \<Longrightarrow> 48 \<le> (of_char c :: nat) \<and> (of_char c :: nat) \<le> 57"
  using decimal_set [of n] by auto

lemma decimal_value: "digits_value 0 d (decimal n @ cs) = digits_value (int n) True cs"
proof (induction n arbitrary: d cs rule: decimal.induct)
  case (1 n)
  show ?case
  proof (cases "n < 10")
    case True
    then show ?thesis by (subst decimal.simps) (simp add: Let_def)
  next
    case False
    have "digits_value 0 d (decimal n @ cs) = digits_value (int (n div 10)) True (char_of (48 + n mod 10) # cs)"
      using 1 [OF False] False by (subst decimal.simps) simp
    also have "\<dots> = digits_value (int (n div 10) * 10 + int (n mod 10)) True cs"
    proof -
      have "n mod 10 \<le> 9" using mod_less_divisor [of 10 n] by linarith
      then show ?thesis by (simp add: Let_def)
    qed
    also have "int (n div 10) * 10 + int (n mod 10) = int n" by presburger
    finally show ?thesis .
  qed
qed

lemma int_of_decimal: "int_of_str (decimal n) = Inr (int n)"
proof -
  have space: "\<not> py_isspace c" if "c \<in> set (decimal n)" for c
    using decimal_code [OF that] by (simp add: py_isspace_def Let_def)
  have strip: "py_strip (decimal n) = decimal n"
  proof -
    have "dropWhile py_isspace xs = xs" if "set xs \<subseteq> set (decimal n)" for xs
      using that space by (cases xs) auto
    then show ?thesis by (simp add: py_strip_def)
  qed
  have ne: "decimal n \<noteq> []" by (subst decimal.simps) simp
  then have "hd (decimal n) \<in> set (decimal n)" by simp
  from decimal_code [OF this] have sign: "hd (decimal n) \<noteq> CHR ''-''" "hd (decimal n) \<noteq> CHR ''+''" by auto
  have "digits_value 0 False (decimal n) = Some (int n)" using decimal_value [of False n "[]"] by simp
  with strip sign show ?thesis by (simp add: int_of_str_def Let_def)
qed

section \<open>Streams\<close>

text \<open>
  A projection and a stream that was opened behind event \<open>n\<close>: refreshes, the closing, rounds of the
  stream and the browser leaving, in any order. Two histories are kept beside them: the events that
  \<^verbatim>\<open>anext\<close> of the subscriber returned in the rounds of the stream, whatever the stream then wrote,
  and the events that have been in the ring of the projection since the stream was opened.
\<close>

definition returned :: "projection \<Rightarrow> event_stream \<Rightarrow> operations_event list" where
  "returned P st = (if es_open st then (case fst (next_published P (es_subscriber st)) of None \<Rightarrow> [] | Some e \<Rightarrow> [e]) else [])"

inductive streamed :: "pyenv \<Rightarrow> (pyval \<Rightarrow> string) \<Rightarrow> int \<Rightarrow> projection \<Rightarrow> event_stream \<Rightarrow> operations_event list \<Rightarrow>
    operations_event set \<Rightarrow> bool" for E dumps n where
  stream_opens: "watched E P s \<Longrightarrow> event_cursor last_id query = Inr n \<Longrightarrow> open_events last_id query = StreamResponse s \<Longrightarrow>
    streamed E dumps n P \<lparr>es_subscriber = s, es_text = [], es_open = True\<rparr> [] (set (pj_events P))"
| stream_refresh: "streamed E dumps n P st es shown \<Longrightarrow> P' = snd (refresh_polled E P leases j c polls) \<Longrightarrow>
    streamed E dumps n P' st es (shown \<union> set (pj_events P'))"
| stream_close: "streamed E dumps n P st es shown \<Longrightarrow> streamed E dumps n (close_projection P) st es shown"
| stream_round: "streamed E dumps n P st es shown \<Longrightarrow> streamed E dumps n P (stream_turn dumps P st) (es @ returned P st) shown"
| stream_leave: "streamed E dumps n P st es shown \<Longrightarrow> streamed E dumps n P (client_leaves st) es shown"

definition seen :: "(pyval \<Rightarrow> string) \<Rightarrow> operations_event \<Rightarrow> sse_event" where
  "seen dumps e = (decimal (nat (ov_event_seq e)), ''operations'', dumps (event_public_dict e))"

definition stream_inv :: "(pyval \<Rightarrow> string) \<Rightarrow> int \<Rightarrow> projection \<Rightarrow> event_stream \<Rightarrow> operations_event list \<Rightarrow> bool" where
  "stream_inv dumps n P st es \<longleftrightarrow> watch_inv P (es_subscriber st) \<and> complete_text (es_text st) \<and>
     reader_idle (fst (sse_read (es_text st))) \<and> sse_events (es_text st) = map (seen dumps) es \<and>
     sorted_wrt (<) (n # map ov_event_seq es) \<and> sb_cursor (es_subscriber st) = last (n # map ov_event_seq es) \<and>
     (pj_event_seq P \<le> n \<longrightarrow> es = [] \<and> sb_pending (es_subscriber st) = [])"

lemma ring_bound:
  assumes "ring_ok P" "e \<in> set (pj_events P)"
  shows "ov_event_seq e \<le> pj_event_seq P"
proof -
  let ?k = "int (length (pj_events P))"
  have "map ov_event_seq (pj_events P) = [pj_event_seq P - ?k + 1 .. (pj_event_seq P - ?k + 1) + ?k - 1]"
    using assms(1) unfolding ring_ok_def numbered_events_def by blast
  moreover have "ov_event_seq e \<in> set (map ov_event_seq (pj_events P))" using assms(2) by simp
  ultimately have "ov_event_seq e \<in> set [pj_event_seq P - ?k + 1 .. (pj_event_seq P - ?k + 1) + ?k - 1]" by simp
  then show ?thesis by simp
qed

lemma increasing_last: "sorted_wrt (<) xs \<Longrightarrow> x \<in> set xs \<Longrightarrow> x \<le> last xs" for xs :: "int list"
proof (induction xs)
  case (Cons y ys)
  then show ?case by (cases "ys = []") (auto intro: less_imp_le)
qed simp

lemma refresh_seq: "pj_event_seq P \<le> pj_event_seq (snd (refresh_polled E P leases j c polls))"
  by (simp add: refresh_polled_def publish_def Let_def split: sum.split)

lemma next_after_cursor:
  assumes "watch_inv P s" "next_published P s = (Some e, s')"
  shows "sb_cursor s < ov_event_seq e" "sb_cursor s' = ov_event_seq e"
  using assms by (auto simp: next_published_def yield_first_def watch_inv_def numbered_events_Cons split: if_splits list.splits
      dest!: filter_eq_ConsD)

lemma next_none: "next_published P s = (None, s') \<Longrightarrow> sb_cursor s' = sb_cursor s \<and> sb_pending s' = sb_pending s"
  by (auto simp: next_published_def yield_first_def split: if_splits list.splits)

lemma nothing_ahead:
  assumes "watch_inv P s" "sb_pending s = []" "pj_event_seq P \<le> sb_cursor s"
  shows "fst (next_published P s) = None"
proof -
  have "filter (\<lambda>e. ov_event_seq e > sb_cursor s) (pj_events P) = []"
    using assms ring_bound by (fastforce simp: filter_empty_conv watch_inv_def)
  with assms(2) show ?thesis by (auto simp: next_published_def yield_first_def)
qed

lemma turn_inv:
  assumes "stream_inv dumps n P st es" "one_line dumps"
  shows "stream_inv dumps n P (stream_turn dumps P st) (es @ returned P st)"
proof (cases "es_open st")
  case True
  note inv = assms(1) [unfolded stream_inv_def]
  obtain r s where r: "next_published P (es_subscriber st) = (r, s)" by (cases "next_published P (es_subscriber st)")
  have w: "watch_inv P s" using next_published_inv [of P "es_subscriber st"] inv r by simp
  show ?thesis
  proof (cases r)
    case None
    then show ?thesis using inv r w next_none [of P "es_subscriber st" s] read_keepalive [of "es_text st"] True
      by (simp add: stream_inv_def stream_turn_def returned_def)
  next
    case (Some e)
    note n = next_after_cursor [OF inv [THEN conjunct1], of e s, OF r [unfolded Some]]
    have low: "\<not> pj_event_seq P \<le> n"
      using nothing_ahead [of P "es_subscriber st"] inv r Some by auto
    have "sorted_wrt (<) ((n # map ov_event_seq es) @ [ov_event_seq e])"
    proof -
      have up: "sorted_wrt (<) (n # map ov_event_seq es)" using inv by blast
      have "x < ov_event_seq e" if "x \<in> set (n # map ov_event_seq es)" for x
        using increasing_last [OF up that] n(1) inv by linarith
      with up show ?thesis unfolding sorted_wrt_append by simp
    qed
    then show ?thesis using inv r w Some n(2) low read_frame [OF assms(2), of "es_text st" e] True
      by (simp add: stream_inv_def stream_turn_def seen_def returned_def)
  qed
qed (use assms(1) in \<open>simp add: stream_turn_def returned_def\<close>)

lemma streamed_inv:
  assumes "streamed E dumps n P st es shown" "one_line dumps"
  shows "stream_inv dumps n P st es"
  using assms(1)
proof (induction rule: streamed.induct)
  case (stream_opens P s last_id query)
  then have "s = \<lparr>sb_cursor = n, sb_pending = [], sb_ended = False\<rparr>"
    by (auto simp: open_events_def subscribe_def split: if_splits)
  with watched_inv [OF stream_opens(1)] show ?case
    by (simp add: stream_inv_def complete_text_def reader_idle_def sse_events_def sse_read_def)
next
  case (stream_refresh P st es shown P' leases j c polls)
  then show ?case using refresh_ring [of P] refresh_seq [of P E leases j c polls]
    by (auto simp: stream_inv_def watch_inv_def refresh_closed)
next
  case (stream_close P st es shown)
  then show ?case by (auto simp: stream_inv_def watch_inv_def close_projection_def ring_ok_def)
next
  case (stream_round P st es shown)
  then show ?case using turn_inv assms(2) by blast
next
  case (stream_leave P st es shown)
  then show ?case by (auto simp: stream_inv_def client_leaves_def)
qed

lemma next_from_ring:
  "set (sb_pending (snd (next_published P s))) \<union> set_option (fst (next_published P s)) \<subseteq> set (sb_pending s) \<union> set (pj_events P)"
proof -
  have "set (sb_pending (snd (yield_first s es))) \<union> set_option (fst (yield_first s es)) \<subseteq> set (sb_pending s) \<union> set es" for es
    by (cases es) (auto simp: yield_first_def)
  from this [of "sb_pending s"] this [of "filter (\<lambda>e. ov_event_seq e > sb_cursor s) (pj_events P)"]
  show ?thesis unfolding next_published_def by (cases "sb_ended s"; cases "sb_pending s = []"; cases "pj_closed P"; fastforce)
qed

lemma streamed_shown:
  assumes "streamed E dumps n P st es shown"
  shows "set es \<union> set (sb_pending (es_subscriber st)) \<union> set (pj_events P) \<subseteq> shown"
  using assms
proof (induction rule: streamed.induct)
  case (stream_opens P s last_id query)
  then show ?case by (auto simp: open_events_def subscribe_def split: if_splits)
next
  case (stream_round P st es shown)
  obtain r s where r: "next_published P (es_subscriber st) = (r, s)" by fastforce
  show ?case
  proof (cases "es_open st")
    case True
    then show ?thesis using stream_round.IH next_from_ring [of P "es_subscriber st"] r
      by (cases r) (auto simp: returned_def stream_turn_def)
  qed (use stream_round.IH in \<open>simp add: returned_def stream_turn_def\<close>)
qed (auto simp: close_projection_def client_leaves_def)

text \<open>
  C40. The browser sees the events of the projection. Let the projection refresh and close, and the
  stream write, in any order. Cut into events as a browser does, the text of the stream is exactly the
  sequence of events the projection returned to its subscriber, each with its number and its own
  content; comments between them make no difference. All of them were published in the ring of the
  projection, their numbers increase strictly behind the cursor the stream was opened with, and the
  identifier with which the browser reconnects is read as the number of the last event.
\<close>

theorem event_stream_faithful:
  assumes "streamed E dumps n P st es shown" "one_line dumps"
  shows "sse_events (es_text st) = map (\<lambda>e. (decimal (nat (ov_event_seq e)), ''operations'', dumps (event_public_dict e))) es \<and>
    set es \<subseteq> shown \<and> sorted_wrt (<) (n # map ov_event_seq es) \<and>
    (es \<noteq> [] \<longrightarrow> event_cursor (Some (fst (last (sse_events (es_text st))))) query = Inr (ov_event_seq (last es)) \<and>
       sb_cursor (es_subscriber st) = ov_event_seq (last es))"
proof -
  have inv: "stream_inv dumps n P st es" by (rule streamed_inv [OF assms])
  have "0 \<le> n" using assms(1)
    by (induction rule: streamed.induct) (auto simp: open_events_def split: if_splits)
  have "event_cursor (Some (fst (last (sse_events (es_text st))))) query = Inr (ov_event_seq (last es))" if "es \<noteq> []"
  proof -
    have "ov_event_seq (last es) \<in> set (map ov_event_seq es)" using that by simp
    then have "0 \<le> ov_event_seq (last es)" using inv \<open>0 \<le> n\<close> by (fastforce simp: stream_inv_def)
    with that inv show ?thesis by (simp add: stream_inv_def seen_def last_map event_cursor_def int_of_decimal)
  qed
  with inv streamed_shown [OF assms(1)] show ?thesis by (auto simp: stream_inv_def seen_def last_map)
qed

text \<open>
  A browser that reconnects to a restarted server is starved. The numbers of the events start again
  with the process, but the browser reconnects with the number of the last event it saw. However
  often the new projection changes, and whatever it publishes: until its own numbers have passed
  that cursor, the stream contains no event.
\<close>

theorem stale_cursor_starves:
  assumes "streamed E dumps n P st es shown" "one_line dumps" "pj_event_seq P \<le> n"
  shows "sse_events (es_text st) = [] \<and> fst (next_published P (es_subscriber st)) = None"
proof -
  have "stream_inv dumps n P st es" by (rule streamed_inv [OF assms(1,2)])
  then show ?thesis using nothing_ahead [of P "es_subscriber st"] assms(3) by (simp add: stream_inv_def)
qed

section \<open>Instances\<close>

definition demo_dumps :: "pyval \<Rightarrow> string" where
  "demo_dumps v = ''{}''"

lemma demo_one_line: "one_line demo_dumps"
  by (simp add: one_line_def demo_dumps_def newline_def)

lemma demo_stream:
  assumes "int_of_str s = Inr n" "0 \<le> n"
  defines "st \<equiv> \<lparr>es_subscriber = \<lparr>sb_cursor = n, sb_pending = [], sb_ended = False\<rparr>, es_text = [], es_open = True\<rparr>"
  shows "streamed demo_codecs demo_dumps n shown_projection (stream_turn demo_dumps shown_projection st)
    ([] @ returned shown_projection st) (set (pj_events shown_projection))"
proof (rule stream_round)
  have "watched demo_codecs quiet_projection \<lparr>sb_cursor = n, sb_pending = [], sb_ended = False\<rparr>"
    by (rule watch_start [of "demo_registry ''COM3''" False 2 24 80 0 _ "PInt n"])
       (use assms(2) in \<open>simp_all add: OperationsProjection_def quiet_projection_def subscribe_def\<close>)
  then have "watched demo_codecs shown_projection \<lparr>sb_cursor = n, sb_pending = [], sb_ended = False\<rparr>"
    unfolding shown_projection_def by (rule watch_refresh)
  then show "streamed demo_codecs demo_dumps n shown_projection st [] (set (pj_events shown_projection))"
    unfolding st_def by (rule stream_opens [of _ _ _ "Some s" None]) (use assms in \<open>simp_all add: event_cursor_def open_events_def subscribe_def\<close>)
qed

lemma shown_once: "pj_event_seq shown_projection = 1 \<and> \<not> pj_closed shown_projection"
  by code_simp

theorem event_stream_faithful_witness:
  "\<exists>e \<in> set (pj_events shown_projection). sse_events (es_text (stream_turn demo_dumps shown_projection
     \<lparr>es_subscriber = early_subscriber, es_text = [], es_open = True\<rparr>)) = [(decimal (nat (ov_event_seq e)), ''operations'', ''{}'')] \<and>
     0 < ov_event_seq e"
proof -
  let ?st = "stream_turn demo_dumps shown_projection \<lparr>es_subscriber = early_subscriber, es_text = [], es_open = True\<rparr>"
  have "int_of_str ''0'' = Inr 0" by code_simp
  from demo_stream [OF this] obtain es where s: "streamed demo_codecs demo_dumps 0 shown_projection ?st es (set (pj_events shown_projection))"
    by (auto simp: early_subscriber_def)
  have "length (sse_events (es_text ?st)) = 1" by code_simp
  with event_stream_faithful [OF s demo_one_line, of None] show ?thesis
    by (auto simp: demo_dumps_def length_Suc_conv)
qed

theorem stale_cursor_starves_witness:
  "sse_events (es_text (stream_turn demo_dumps shown_projection
     \<lparr>es_subscriber = \<lparr>sb_cursor = 7, sb_pending = [], sb_ended = False\<rparr>, es_text = [], es_open = True\<rparr>)) = [] \<and>
   pj_event_seq shown_projection = 1"
proof -
  have "int_of_str ''7'' = Inr 7" by code_simp
  from demo_stream [OF this] show ?thesis using stale_cursor_starves [OF _ demo_one_line] shown_once by simp
qed

end
