(* ===== verification/Network.thy ===== *)
theory Network
  imports Server RegistrySafety
begin

text \<open>
  Management connections of version 2, \<^verbatim>\<open>network.py\<close>: the endpoint that authenticates an identity and
  answers discovery requests, and the client with its pending requests. The UTF-8 decoder, the
  environment and the texts of exceptions (\<^verbatim>\<open>str(exc)\<close> and \<^verbatim>\<open>exc.message\<close>, by their code) are parameters, like the JSON parser; a \<open>ValueError\<close> of
  the parser stands for \<^verbatim>\<open>json.JSONDecodeError\<close>.
\<close>

section \<open>Messages\<close>

definition PROTOCOL_V2 :: string where
  "PROTOCOL_V2 = ''robot-stream.v2''"

definition MAX_MANAGEMENT_MESSAGE :: int where
  "MAX_MANAGEMENT_MESSAGE = 4 * 1024 * 1024"

datatype frame = TextFrame string | BinaryFrame bytes

record net_env =
  nv_env :: pyenv
  nv_utf8 :: "bytes \<Rightarrow> string result"
  nv_environ :: "string \<Rightarrow> string option"
  nv_text :: "exn \<Rightarrow> string"
  nv_message :: "exn \<Rightarrow> string"

definition frame_text :: "net_env \<Rightarrow> frame \<Rightarrow> string result" where
  "frame_text N raw = (case raw of
      TextFrame s \<Rightarrow> Inr s
    | BinaryFrame b \<Rightarrow> catch (nv_utf8 N b) (\<lambda>e. e = ValueError) (NetworkError ''SCHEMA_INVALID''))"

definition decode_frame :: "net_env \<Rightarrow> frame \<Rightarrow> pydict result" where
  "decode_frame N raw = bind (frame_text N raw) (\<lambda>text.
     bind (catch (json_loads (nv_env N) text) (\<lambda>e. e = ValueError) (NetworkError ''SCHEMA_INVALID'')) (\<lambda>v.
     case v of PDict d \<Rightarrow> Inr d | _ \<Rightarrow> Inl (NetworkError ''SCHEMA_INVALID'')))"

definition exact :: "pydict \<Rightarrow> string list \<Rightarrow> unit result" where
  "exact d required = raise_if (\<not> exact_keys d required []) (NetworkError ''SCHEMA_INVALID'') (Inr ())"

definition response_message :: "pyval \<Rightarrow> pydict \<Rightarrow> pyval" where
  "response_message request_id res = mkdict [(''type'', PStr ''response''), (''request_id'', request_id), (''ok'', PBool True), (''result'', PDict res)]"

definition error_message :: "pyval \<Rightarrow> string \<Rightarrow> string \<Rightarrow> pyval" where
  "error_message request_id code text = mkdict [(''type'', PStr (if request_id = PNone then ''error'' else ''response'')),
     (''request_id'', request_id), (''ok'', PBool False), (''error'', mkdict [(''code'', PStr code), (''message'', PStr text)])]"

section \<open>The endpoint\<close>

definition authenticate :: "net_env \<Rightarrow> registry \<Rightarrow> string \<Rightarrow> string \<Rightarrow> unit result" where
  "authenticate N R who supplied_token =
     bind (catch (identity_named R who) (\<lambda>e. e = RegistryError) (NetworkError ''AUTH_FAILED'')) (\<lambda>ident.
     let expected = (case nv_environ N (credential_env ident) of None \<Rightarrow> [] | Some s \<Rightarrow> s) in
     raise_if (length expected < 32) (NetworkError ''AUTH_FAILED'')
     (bind (compare_digest supplied_token expected) (\<lambda>same.
      raise_if (\<not> same) (NetworkError ''AUTH_FAILED'') (Inr ()))))"

definition server_info :: "registry \<Rightarrow> pydict" where
  "server_info R = the_dict (mkdict [(''protocol'', PStr PROTOCOL_V2), (''server_id'', PStr (server_id R)),
     (''capabilities'', PList [PStr ''registry-discovery/v1'']), (''execution_available'', PBool False)])"

definition dispatch_method :: "net_env \<Rightarrow> registry \<Rightarrow> string \<Rightarrow> string \<Rightarrow> pydict \<Rightarrow> pydict result" where
  "dispatch_method N R who method params =
     (if method = ''list_robots'' then
        bind (exact params []) (\<lambda>_. bind (list_robots (nv_env N) R who) (\<lambda>ms.
        Inr (the_dict (mkdict [(''robots'', PList (map PDict ms))]))))
      else if method = ''describe_robot'' then
        bind (exact params [''node_id'']) (\<lambda>_. case dget_or params ''node_id'' PNone of
          PStr i \<Rightarrow> bind (catch (describe (nv_env N) R i (Some who)) (\<lambda>e. e = RegistryError) (NetworkError ''NOT_FOUND'')) (\<lambda>m.
            Inr (the_dict (mkdict [(''manifest'', PDict m)])))
        | _ \<Rightarrow> Inl (NetworkError ''SCHEMA_INVALID''))
      else if method = ''server_info'' then bind (exact params []) (\<lambda>_. Inr (server_info R))
      else Inl (NetworkError ''METHOD_NOT_FOUND''))"

text \<open>The greeting: the identity it proves.\<close>

definition check_hello :: "net_env \<Rightarrow> registry \<Rightarrow> frame \<Rightarrow> string result" where
  "check_hello N R raw =
     bind (decode_frame N raw) (\<lambda>hello.
     bind (exact hello [''type'', ''protocol'', ''role'', ''identity_id'', ''token'']) (\<lambda>_.
     case (dget_or hello ''identity_id'' PNone, dget_or hello ''token'' PNone) of
       (PStr who, PStr token) \<Rightarrow>
         if \<not> py_eq (dget_or hello ''type'' PNone) (PStr ''hello'') \<or> \<not> py_eq (dget_or hello ''protocol'' PNone) (PStr PROTOCOL_V2) \<or>
            \<not> py_eq (dget_or hello ''role'' PNone) (PStr ''management'')
         then Inl (NetworkError ''AUTH_FAILED'')
         else bind (authenticate N R who token) (\<lambda>_. Inr who)
     | _ \<Rightarrow> Inl (NetworkError ''AUTH_FAILED'')))"

definition welcome_message :: "registry \<Rightarrow> string \<Rightarrow> pyval" where
  "welcome_message R who = mkdict [(''type'', PStr ''welcome''), (''protocol'', PStr PROTOCOL_V2), (''role'', PStr ''management''),
     (''server_id'', PStr (server_id R)), (''identity_id'', PStr who), (''capabilities'', PList [PStr ''registry-discovery/v1'']),
     (''execution_available'', PBool False)]"

text \<open>One request: the number it is answered under, if it got as far, and the result.\<close>

definition positive_int :: "pyval \<Rightarrow> bool" where
  "positive_int v = (case v of PInt n \<Rightarrow> 0 < n | _ \<Rightarrow> False)"

definition read_request :: "net_env \<Rightarrow> frame \<Rightarrow> pydict result" where
  "read_request N raw = bind (decode_frame N raw) (\<lambda>request.
     bind (exact request [''type'', ''request_id'', ''method'', ''params'']) (\<lambda>_. Inr request))"

definition run_request :: "net_env \<Rightarrow> registry \<Rightarrow> string \<Rightarrow> pydict \<Rightarrow> pydict result" where
  "run_request N R who request =
     raise_if (\<not> py_eq (dget_or request ''type'' PNone) (PStr ''request'') \<or> \<not> positive_int (dget_or request ''request_id'' PNone))
       (NetworkError ''SCHEMA_INVALID'')
     (case (dget_or request ''method'' PNone, dget_or request ''params'' PNone) of
        (PStr method, PDict params) \<Rightarrow> dispatch_method N R who method params
      | _ \<Rightarrow> Inl (NetworkError ''SCHEMA_INVALID''))"

text \<open>The answer to a failed request; other exceptions end the connection.\<close>

definition answer_error :: "net_env \<Rightarrow> pyval \<Rightarrow> exn \<Rightarrow> pyval result" where
  "answer_error N request_id e = (case e of
      NetworkError code \<Rightarrow> Inr (error_message request_id code (nv_text N e))
    | RegistryError \<Rightarrow> Inr (error_message request_id ''REGISTRY_ERROR'' (nv_text N e))
    | _ \<Rightarrow> Inl e)"

definition answer :: "net_env \<Rightarrow> registry \<Rightarrow> string \<Rightarrow> frame \<Rightarrow> pyval result" where
  "answer N R who raw = (case read_request N raw of
      Inl e \<Rightarrow> answer_error N PNone e
    | Inr request \<Rightarrow>
        (let request_id = dget_or request ''request_id'' PNone in
         case run_request N R who request of
           Inl e \<Rightarrow> answer_error N request_id e
         | Inr res \<Rightarrow> Inr (response_message request_id res)))"

text \<open>
  A connection: waiting for the greeting, serving an identity, or over. The first frame may not
  arrive in time; a send may find the connection closed.
\<close>

datatype session = Greets | Serves string | Over "unit result"

datatype session_event = FrameArrives frame | GreetingTimeout | PeerGone

definition refuse :: "net_env \<Rightarrow> exn \<Rightarrow> session \<times> pyval list" where
  "refuse N e = (case e of
      NetworkError code \<Rightarrow> (Over (Inr ()), [error_message PNone code (nv_message N e)])
    | _ \<Rightarrow> (Over (Inl e), []))"

definition session_step :: "net_env \<Rightarrow> registry \<Rightarrow> session \<Rightarrow> session_event \<Rightarrow> session \<times> pyval list" where
  "session_step N R s ev = (case (s, ev) of
      (Greets, FrameArrives raw) \<Rightarrow>
        (case check_hello N R raw of Inl e \<Rightarrow> refuse N e | Inr who \<Rightarrow> (Serves who, [welcome_message R who]))
    | (Greets, GreetingTimeout) \<Rightarrow> (Over (Inr ()), [])
    | (Serves who, FrameArrives raw) \<Rightarrow>
        (case answer N R who raw of Inl e \<Rightarrow> (Over (Inl e), []) | Inr m \<Rightarrow> (s, [m]))
    | (Over res, ev) \<Rightarrow> (s, [])
    | (Serves who, GreetingTimeout) \<Rightarrow> (s, [])
    | (s, PeerGone) \<Rightarrow> (Over (Inr ()), []))"

fun session_run :: "net_env \<Rightarrow> registry \<Rightarrow> session \<Rightarrow> session_event list \<Rightarrow> session \<times> pyval list" where
  "session_run N R s [] = (s, [])"
| "session_run N R s (ev # evs) = (case session_step N R s ev of (s', ms) \<Rightarrow>
     case session_run N R s' evs of (s'', ms') \<Rightarrow> (s'', ms @ ms'))"

section \<open>The client\<close>

definition management_hello :: "string \<Rightarrow> string \<Rightarrow> pyval" where
  "management_hello who token = mkdict [(''type'', PStr ''hello''), (''protocol'', PStr PROTOCOL_V2), (''role'', PStr ''management''),
     (''identity_id'', PStr who), (''token'', PStr token)]"

text \<open>The error a peer reports: a field that need not be an object.\<close>

definition remote_error :: "net_env \<Rightarrow> pydict \<Rightarrow> string \<Rightarrow> exn" where
  "remote_error N message fallback = (case dget_or message ''error'' (PDict []) of
      PDict d \<Rightarrow> NetworkError (py_str (nv_env N) (dget_or d ''code'' (PStr fallback)))
    | _ \<Rightarrow> AttributeError)"

definition check_management_welcome :: "net_env \<Rightarrow> frame \<Rightarrow> pydict result" where
  "check_management_welcome N raw = bind (decode_frame N raw) (\<lambda>welcome.
     raise_if (py_eq (dget_or welcome ''type'' PNone) (PStr ''error'')) (remote_error N welcome ''AUTH_FAILED'')
     (raise_if (\<not> py_eq (dget_or welcome ''type'' PNone) (PStr ''welcome'') \<or> \<not> py_eq (dget_or welcome ''protocol'' PNone) (PStr PROTOCOL_V2))
       (NetworkError ''NEGOTIATION_FAILED'') (Inr welcome)))"

text \<open>
  The futures of the calls made so far, by number; \<open>rg_pending\<close> are the numbers in \<^verbatim>\<open>_pending\<close>.
\<close>

datatype call_future = CallWaits | CallResult pydict | CallFails exn

record registry_client =
  rg_next_id :: int
  rg_futures :: "(int \<times> call_future) list"
  rg_pending :: "int list"
  rg_closed :: bool
  rg_reading :: bool
  rg_open :: bool
  rg_sent :: "pyval list"

definition RegistryClient :: registry_client where
  "RegistryClient = \<lparr>rg_next_id = 1, rg_futures = [], rg_pending = [], rg_closed = False, rg_reading = True, rg_open = True, rg_sent = []\<rparr>"

definition request_message :: "int \<Rightarrow> string \<Rightarrow> pydict \<Rightarrow> pyval" where
  "request_message request_id method params = mkdict [(''type'', PStr ''request''), (''request_id'', PInt request_id),
     (''method'', PStr method), (''params'', PDict params)]"

text \<open>\<^verbatim>\<open>request\<close> up to the await of its future; a send that fails leaves the future pending.\<close>

definition begin_request :: "registry_client \<Rightarrow> string \<Rightarrow> pydict \<Rightarrow> int result \<times> registry_client" where
  "begin_request c method params =
     (if rg_closed c then (Inl (NetworkError ''CONNECTION_CLOSED''), c)
      else let i = rg_next_id c;
               c1 = c\<lparr>rg_next_id := i + 1, rg_futures := rg_futures c @ [(i, CallWaits)], rg_pending := rg_pending c @ [i]\<rparr>
           in if \<not> rg_open c then (Inl ConnectionClosed, c1)
              else (Inr i, c1\<lparr>rg_sent := rg_sent c1 @ [request_message i method params]\<rparr>))"

definition settle :: "registry_client \<Rightarrow> int list \<Rightarrow> call_future \<Rightarrow> registry_client" where
  "settle c is f = c\<lparr>rg_futures := map (\<lambda>(i, g). (i, if i \<in> set is \<and> g = CallWaits then f else g)) (rg_futures c)\<rparr>"

definition forget :: "registry_client \<Rightarrow> int \<Rightarrow> registry_client" where
  "forget c i = c\<lparr>rg_pending := removeAll i (rg_pending c)\<rparr>"

text \<open>The five seconds of a call are over.\<close>

definition request_times_out :: "registry_client \<Rightarrow> int \<Rightarrow> registry_client" where
  "request_times_out c i =
     (if map_of (rg_futures c) i = Some CallWaits then settle (forget c i) [i] (CallFails (NetworkError ''TIMEOUT'')) else c)"

text \<open>The end of the reader: every pending future gets its failure.\<close>

definition end_reader :: "registry_client \<Rightarrow> exn \<Rightarrow> registry_client" where
  "end_reader c e = (settle c (rg_pending c) (CallFails e))\<lparr>rg_pending := [], rg_reading := False\<rparr>"

definition as_request_id :: "pyval \<Rightarrow> int option" where
  "as_request_id v = (case v of PInt n \<Rightarrow> Some n | PBool b \<Rightarrow> Some (if b then 1 else 0) | _ \<Rightarrow> None)"

text \<open>A response: its future leaves \<^verbatim>\<open>_pending\<close> first, also when the rest of the message is malformed.\<close>

definition take_response :: "net_env \<Rightarrow> registry_client \<Rightarrow> int \<Rightarrow> pydict \<Rightarrow> registry_client" where
  "take_response N c i message =
     (if i \<notin> set (rg_pending c) then c
      else let c1 = forget c i in
        if map_of (rg_futures c) i \<noteq> Some CallWaits then c1
        else case (dget_or message ''ok'' PNone, dget_or message ''result'' PNone) of
            (PBool True, PDict res) \<Rightarrow> settle c1 [i] (CallResult res)
          | _ \<Rightarrow> (case remote_error N message ''REMOTE_ERROR'' of
                AttributeError \<Rightarrow> end_reader c1 AttributeError
              | e \<Rightarrow> settle c1 [i] (CallFails e)))"

definition read_reply :: "net_env \<Rightarrow> registry_client \<Rightarrow> frame \<Rightarrow> registry_client" where
  "read_reply N c raw =
     (if \<not> rg_reading c then c
      else case decode_frame N raw of
        Inl e \<Rightarrow> end_reader c e
      | Inr message \<Rightarrow>
          if \<not> py_eq (dget_or message ''type'' PNone) (PStr ''response'') then c
          else (case as_request_id (dget_or message ''request_id'' PNone) of
             None \<Rightarrow> c
           | Some i \<Rightarrow> take_response N c i message))"

text \<open>The connection is lost, normally or with an exception; and \<^verbatim>\<open>close\<close>, which may have to cancel the reader.\<close>

definition connection_ends :: "registry_client \<Rightarrow> exn option \<Rightarrow> registry_client" where
  "connection_ends c error =
     (if rg_reading c then end_reader c (case error of None \<Rightarrow> NetworkError ''CONNECTION_CLOSED'' | Some e \<Rightarrow> e) else c)\<lparr>rg_open := False\<rparr>"

definition close_registry_client :: "registry_client \<Rightarrow> exn option \<Rightarrow> registry_client" where
  "close_registry_client c error = (if rg_closed c then c else (connection_ends c error)\<lparr>rg_closed := True\<rparr>)"

datatype registry_event =
    Requests string pydict | CallTimesOut int | FrameReceived frame | ConnectionEnds "exn option" | CloseCalled "exn option"

definition registry_step :: "net_env \<Rightarrow> registry_client \<Rightarrow> registry_event \<Rightarrow> registry_client" where
  "registry_step N c ev = (case ev of
      Requests method params \<Rightarrow> snd (begin_request c method params)
    | CallTimesOut i \<Rightarrow> request_times_out c i
    | FrameReceived raw \<Rightarrow> read_reply N c raw
    | ConnectionEnds error \<Rightarrow> connection_ends c error
    | CloseCalled error \<Rightarrow> close_registry_client c error)"

end
