(* ===== verification/NetworkSafety.thy ===== *)
theory NetworkSafety
  imports Network
begin

text \<open>
  What a management connection discloses and to whom, and what becomes of the calls of the client.
\<close>

section \<open>Authentication\<close>

definition proves :: "net_env \<Rightarrow> registry \<Rightarrow> frame \<Rightarrow> string \<Rightarrow> bool" where
  "proves N R raw who \<longleftrightarrow> (\<exists>hello ident token. decode_frame N raw = Inr hello \<and>
     dget hello ''identity_id'' = Some (PStr who) \<and> dget hello ''token'' = Some (PStr token) \<and>
     map_of (identities R) who = Some ident \<and> nv_environ N (credential_env ident) = Some token \<and> 32 \<le> length token)"

lemma authenticate_Inr:
  assumes "authenticate N R who token = Inr u"
  shows "\<exists>ident. map_of (identities R) who = Some ident \<and> nv_environ N (credential_env ident) = Some token \<and> 32 \<le> length token"
  using assms by (fastforce simp: authenticate_def identity_named_def catch_def compare_digest_def Let_def split: option.splits if_splits)

lemma check_hello_Inr:
  assumes "check_hello N R raw = Inr who"
  shows "proves N R raw who"
proof -
  obtain hello where hello: "decode_frame N raw = Inr hello" "exact hello [''type'', ''protocol'', ''role'', ''identity_id'', ''token''] = Inr ()"
    using assms by (auto simp: check_hello_def)
  then obtain i t where d: "dget hello ''identity_id'' = Some i" "dget hello ''token'' = Some t"
    by (auto simp: exact_def exact_keys_def)
  from assms hello d obtain token where "i = PStr who" "t = PStr token" "authenticate N R who token = Inr ()"
    by (auto simp: check_hello_def dget_or_def split: pyval.splits if_splits)
  with hello d authenticate_Inr show ?thesis unfolding proves_def by blast
qed

lemma session_over: "session_run N R (Over res) evs = (s, ms) \<Longrightarrow> ms = []"
  by (induction evs arbitrary: s ms) (auto simp: session_step_def split: prod.splits)

text \<open>
  C50. Nothing is told to a peer without a credential. Whatever a peer sends, the messages of a management
  connection are none at all, one error that answers no request, or first the welcome of an identity
  of the registry after a frame that carried the credential configured for it, of at least 32
  characters.
\<close>

theorem management_requires_credential:
  assumes "session_run N R Greets evs = (s, ms)"
  shows "ms = [] \<or> (\<exists>code text. ms = [error_message PNone code text]) \<or>
    (\<exists>who raw rest. ms = welcome_message R who # rest \<and> FrameArrives raw \<in> set evs \<and> proves N R raw who)"
proof (cases evs)
  case (Cons ev evs')
  obtain s' m where step: "session_step N R Greets ev = (s', m)" by (cases "session_step N R Greets ev")
  obtain s'' ms' where rest: "session_run N R s' evs' = (s'', ms')" by (cases "session_run N R s' evs'")
  have ms: "ms = m @ ms'" using assms Cons step rest by simp
  show ?thesis
  proof (cases ev)
    case (FrameArrives raw)
    show ?thesis
    proof (cases "check_hello N R raw")
      case (Inl e)
      then have m: "m = [] \<or> (\<exists>code text. m = [error_message PNone code text])" "\<exists>res. s' = Over res"
        using step FrameArrives by (auto simp: session_step_def refuse_def split: exn.splits)
      moreover from this(2) rest session_over have "ms' = []" by blast
      ultimately show ?thesis using ms by blast
    next
      case (Inr who)
      with step FrameArrives ms have "ms = welcome_message R who # ms'" by (auto simp: session_step_def)
      with check_hello_Inr [OF Inr] Cons FrameArrives show ?thesis by auto
    qed
  qed (use step rest ms session_over in \<open>auto simp: session_step_def\<close>)
qed (use assms in simp)

section \<open>Disclosure\<close>

definition exposed :: "registry \<Rightarrow> string \<Rightarrow> bool" where
  "exposed R i \<longleftrightarrow> (case map_of (nodes R) i of None \<Rightarrow> False | Some n \<Rightarrow> exposed_as_run_root (common n))"

definition sees_same :: "pyenv \<Rightarrow> registry \<Rightarrow> registry \<Rightarrow> string \<Rightarrow> bool" where
  "sees_same E R R' who \<longleftrightarrow> server_id R' = server_id R \<and> map_of (identities R') who = map_of (identities R) who \<and>
     (\<forall>ident i. map_of (identities R) who = Some ident \<and> can_discover ident i \<longrightarrow>
        manifest_of E R' i = manifest_of E R i \<and> exposed R' i = exposed R i)"

lemma exposed_node: "exposed R i \<Longrightarrow> i \<in> set (node_ids R)"
  by (force simp: exposed_def node_ids_def split: option.splits dest: map_of_SomeD)

lemma filter_exposed:
  assumes "\<And>i. P i \<Longrightarrow> exposed R' i = exposed R i"
  shows "filter (\<lambda>i. exposed R' i \<and> P i) (node_ids R') = filter (\<lambda>i. exposed R i \<and> P i) (node_ids R)"
proof (rule sorted_distinct_set_unique)
  show "set (filter (\<lambda>i. exposed R' i \<and> P i) (node_ids R')) = set (filter (\<lambda>i. exposed R i \<and> P i) (node_ids R))"
    using assms exposed_node by auto
qed (simp_all add: node_ids_def sorted_wrt_filter)

lemma list_robots_same:
  assumes "sees_same E R R' who"
  shows "list_robots E R' who = list_robots E R who"
proof (cases "map_of (identities R) who")
  case None
  with assms show ?thesis by (simp add: list_robots_def identity_named_def sees_same_def)
next
  case (Some ident)
  have "mapM (manifest_of E R') (filter (\<lambda>i. exposed R i \<and> can_discover ident i) (node_ids R)) =
      mapM (manifest_of E R) (filter (\<lambda>i. exposed R i \<and> can_discover ident i) (node_ids R))"
    using assms Some by (intro mapM_cong) (auto simp: sees_same_def)
  moreover have "filter (\<lambda>i. exposed R' i \<and> can_discover ident i) (node_ids R') = filter (\<lambda>i. exposed R i \<and> can_discover ident i) (node_ids R)"
    using assms Some by (intro filter_exposed) (simp add: sees_same_def)
  ultimately show ?thesis using assms Some
    by (simp add: list_robots_def identity_named_def sees_same_def describe_def exposed_def [symmetric])
qed

lemma describe_same: "sees_same E R R' who \<Longrightarrow> describe E R' i (Some who) = describe E R i (Some who)"
  by (auto simp: describe_def identity_named_def sees_same_def raise_if_def split: option.split)

lemma answer_same:
  assumes "sees_same (nv_env N) R R' who"
  shows "answer N R' who raw = answer N R who raw"
proof -
  have "dispatch_method N R' who = dispatch_method N R who"
    using assms list_robots_same [OF assms] describe_same [OF assms]
    by (intro ext) (simp add: dispatch_method_def server_info_def sees_same_def split: pyval.split)
  then have same: "run_request N R' who = run_request N R who" unfolding run_request_def by metis
  show ?thesis unfolding answer_def same ..
qed

text \<open>
  C35. Discovery is confined to the discovery scope. Let two registries give an identity the same
  record, and agree on the manifests and the exposure of exactly those nodes that it may discover.
  They may differ in everything else: other nodes may exist in only one of them, have other
  capabilities or connections. Then no sequence of requests of that identity tells them apart: the
  answers are the same, errors included.
\<close>

theorem management_noninterference:
  assumes "sees_same (nv_env N) R R' who"
  shows "session_run N R' (Serves who) evs = session_run N R (Serves who) evs"
proof -
  have "session_run N R' s evs = session_run N R s evs" if "s = Serves who \<or> (\<exists>res. s = Over res)" for s
    using that
  proof (induction evs arbitrary: s)
    case (Cons ev evs)
    have step: "session_step N R' s ev = session_step N R s ev"
      using Cons.prems answer_same [OF assms] by (auto simp: session_step_def split: session_event.split)
    moreover have "fst (session_step N R s ev) = Serves who \<or> (\<exists>res. fst (session_step N R s ev) = Over res)"
      using Cons.prems by (auto simp: session_step_def split: session_event.split sum.split)
    ultimately show ?case using Cons.IH [of "fst (session_step N R s ev)"]
      by (cases "session_step N R s ev") simp
  qed simp
  then show ?thesis by simp
qed

section \<open>The calls of the client\<close>

definition futures_ok :: "registry_client \<Rightarrow> bool" where
  "futures_ok c \<longleftrightarrow> 0 < rg_next_id c \<and> (\<forall>i. map_of (rg_futures c) i \<noteq> None \<longrightarrow> i < rg_next_id c) \<and>
     (\<forall>i \<in> set (rg_pending c). map_of (rg_futures c) i = Some CallWaits) \<and>
     (rg_reading c \<longrightarrow> (\<forall>i. map_of (rg_futures c) i = Some CallWaits \<longrightarrow> i \<in> set (rg_pending c)))"

abbreviation future_of :: "registry_client \<Rightarrow> int \<Rightarrow> call_future option" where
  "future_of c \<equiv> map_of (rg_futures c)"

lemma map_of_map_key: "map_of (map (\<lambda>(k, g). (k, h k g)) xs) j = map_option (h j) (map_of xs j)"
  by (induction xs) auto

lemma future_settle: "future_of (settle c is f) i =
    (if i \<in> set is \<and> future_of c i = Some CallWaits then Some f else future_of c i)"
  by (cases "map_of (rg_futures c) i") (simp_all add: settle_def map_of_map_key)

lemma settle_sel [simp]:
  "rg_next_id (settle c is f) = rg_next_id c" "rg_pending (settle c is f) = rg_pending c" "rg_reading (settle c is f) = rg_reading c"
  "rg_closed (settle c is f) = rg_closed c" "rg_open (settle c is f) = rg_open c" "rg_sent (settle c is f) = rg_sent c"
  by (simp_all add: settle_def)

lemma forget_sel [simp]:
  "rg_futures (forget c i) = rg_futures c" "rg_pending (forget c i) = removeAll i (rg_pending c)" "rg_next_id (forget c i) = rg_next_id c"
  "rg_reading (forget c i) = rg_reading c"
  by (simp_all add: forget_def)

lemma futures_ok_settled:
  assumes "futures_ok c" "f \<noteq> CallWaits"
  shows "futures_ok (settle (forget c i) [i] f)"
  using assms unfolding futures_ok_def by (auto simp: future_settle simp del: not_None_eq)

lemma futures_ok_end: "futures_ok c \<Longrightarrow> futures_ok (end_reader c e)" "futures_ok c \<Longrightarrow> futures_ok (end_reader (forget c i) e)"
  unfolding futures_ok_def by (auto simp: end_reader_def future_settle simp del: not_None_eq)

lemma futures_ok_request:
  assumes "futures_ok c"
  shows "futures_ok (snd (begin_request c m p))"
proof -
  have fresh: "future_of c i = None" if "rg_next_id c \<le> i" for i
    using assms that unfolding futures_ok_def by (meson not_le)
  let ?c = "c\<lparr>rg_next_id := rg_next_id c + 1, rg_futures := rg_futures c @ [(rg_next_id c, CallWaits)], rg_pending := rg_pending c @ [rg_next_id c]\<rparr>"
  have new: "future_of ?c = (future_of c)(rg_next_id c \<mapsto> CallWaits)"
    using fresh [of "rg_next_id c"] by (auto simp: map_add_def split: option.split)
  have ok: "futures_ok d" if d: "future_of d = (future_of c)(rg_next_id c \<mapsto> CallWaits)" "rg_next_id d = rg_next_id c + 1"
    "rg_pending d = rg_pending c @ [rg_next_id c]" "rg_reading d = rg_reading c" for d
  proof -
    have n: "0 < rg_next_id c" and c: "\<forall>i. future_of c i \<noteq> None \<longrightarrow> i < rg_next_id c" and waits: "\<forall>i \<in> set (rg_pending c). future_of c i = Some CallWaits"
      and pending: "rg_reading c \<longrightarrow> (\<forall>i. future_of c i = Some CallWaits \<longrightarrow> i \<in> set (rg_pending c))"
      using assms unfolding futures_ok_def by blast+
    have "i < rg_next_id d" if "future_of d i \<noteq> None" for i
    proof (cases "i = rg_next_id c")
      case False
      then have "future_of c i \<noteq> None" using that d(1) by simp
      with c have "i < rg_next_id c" by blast
      then show ?thesis unfolding d(2) by linarith
    qed (simp add: d)
    moreover have "\<forall>i \<in> set (rg_pending d). future_of d i = Some CallWaits" unfolding d(1,3) using waits by simp
    moreover have "rg_reading d \<longrightarrow> (\<forall>i. future_of d i = Some CallWaits \<longrightarrow> i \<in> set (rg_pending d))" unfolding d(1,3,4) using pending by simp
    moreover have "0 < rg_next_id d" unfolding d(2) using n by simp
    ultimately show ?thesis unfolding futures_ok_def by blast
  qed
  have "futures_ok (?c\<lparr>rg_sent := ms\<rparr>)" "futures_ok ?c" for ms
    by (rule ok; use new in simp)+
  with assms show ?thesis by (simp add: begin_request_def Let_def)
qed

lemma futures_ok_response:
  assumes "futures_ok c"
  shows "futures_ok (take_response N c i message)"
proof (cases "i \<in> set (rg_pending c)")
  case True
  then have "future_of c i = Some CallWaits" using assms by (simp add: futures_ok_def)
  then show ?thesis using True futures_ok_settled [OF assms] futures_ok_end(2) [OF assms]
    by (auto simp: take_response_def Let_def split: pyval.split bool.split exn.split)
qed (simp add: take_response_def assms)

lemma futures_ok_flags:
  "futures_ok (c\<lparr>rg_open := b\<rparr>) = futures_ok c" "futures_ok (c\<lparr>rg_closed := b\<rparr>) = futures_ok c"
  by (simp_all add: futures_ok_def)

lemma futures_ok_step:
  assumes "futures_ok c"
  shows "futures_ok (registry_step N c ev)"
proof (cases ev)
  case (CallTimesOut i)
  then show ?thesis using assms futures_ok_settled [OF assms] by (simp add: registry_step_def request_times_out_def)
next
  case (FrameReceived raw)
  then show ?thesis using assms futures_ok_response [OF assms] futures_ok_end(1) [OF assms]
    by (simp add: registry_step_def read_reply_def split: sum.split option.split)
qed (use assms futures_ok_request [OF assms] futures_ok_end(1) [OF assms] in
  \<open>simp_all add: registry_step_def connection_ends_def close_registry_client_def futures_ok_flags\<close>)

lemma futures_ok_run: "futures_ok c \<Longrightarrow> futures_ok (foldl (registry_step N) c evs)"
  by (induction evs arbitrary: c) (simp_all add: futures_ok_step)

lemma futures_ok_fresh: "futures_ok RegistryClient"
  by (simp add: futures_ok_def RegistryClient_def)

section \<open>A call and its answer\<close>

definition outcome_of_call :: "pydict result \<Rightarrow> call_future" where
  "outcome_of_call res = (case res of
      Inr d \<Rightarrow> CallResult d
    | Inl (NetworkError code) \<Rightarrow> CallFails (NetworkError code)
    | Inl e \<Rightarrow> CallFails (NetworkError ''REGISTRY_ERROR''))"

lemma answer_request:
  assumes "json_loads (nv_env N) text = Inr (request_message i method params)" "0 < i"
  shows "answer N R who (TextFrame text) = (case dispatch_method N R who method params of
     Inr d \<Rightarrow> Inr (response_message (PInt i) d) | Inl e \<Rightarrow> answer_error N (PInt i) e)"
proof -
  have "read_request N (TextFrame text) = Inr (the_dict (request_message i method params))"
    using assms(1) by (simp add: read_request_def decode_frame_def frame_text_def catch_def request_message_def mkdict_def exact_def exact_keys_def PyVal.keys_def)
  moreover have "run_request N R who (the_dict (request_message i method params)) = dispatch_method N R who method params"
    using assms(2) by (simp add: run_request_def request_message_def mkdict_def dget_or_def positive_int_def)
  moreover have "dget_or (the_dict (request_message i method params)) ''request_id'' PNone = PInt i"
    by (simp add: request_message_def mkdict_def dget_or_def)
  ultimately show ?thesis by (simp add: answer_def Let_def split: sum.split)
qed

lemma read_response:
  assumes "json_loads (nv_env N) text = Inr rep" "rg_reading c" "i \<in> set (rg_pending c)" "future_of c i = Some CallWaits"
    and "rep = response_message (PInt i) d \<and> f = CallResult d \<or> rep = error_message (PInt i) code msg \<and> f = CallFails (NetworkError code)"
  shows "read_reply N c (TextFrame text) = settle (forget c i) [i] f"
proof -
  have "decode_frame N (TextFrame text) = Inr (the_dict rep)"
    using assms(1,5) by (auto simp: decode_frame_def frame_text_def catch_def response_message_def error_message_def mkdict_def)
  moreover have "dget_or (the_dict rep) ''type'' PNone = PStr ''response''" "dget_or (the_dict rep) ''request_id'' PNone = PInt i"
    using assms(5) by (auto simp: response_message_def error_message_def mkdict_def dget_or_def)
  ultimately have "read_reply N c (TextFrame text) = take_response N c i (the_dict rep)"
    using assms(2) by (simp add: read_reply_def as_request_id_def)
  also have "\<dots> = settle (forget c i) [i] f"
    using assms(3,4,5) by (auto simp: take_response_def Let_def response_message_def error_message_def mkdict_def dget_or_def remote_error_def py_str_def)
  finally show ?thesis .
qed

text \<open>
  C36. A management call returns what the registry answers. Take any reachable client, a call that it
  sends, and anything that happens afterwards, as long as the reader runs and the call still waits.
  The endpoint, serving an authenticated identity, answers the request with the result of the method
  or with its error; and when the client reads that answer, exactly this call ends, with that result or error.
\<close>

theorem management_call_returns_answer:
  assumes "c = foldl (registry_step N) RegistryClient evs" "begin_request c method params = (Inr i, c1)"
    and "c2 = foldl (registry_step N) c1 evs'" "rg_reading c2" "future_of c2 i = Some CallWaits"
    and "json_loads (nv_env N) (dumps (request_message i method params)) = Inr (request_message i method params)"
    and "answer N R who (TextFrame (dumps (request_message i method params))) = Inr rep"
    and "json_loads (nv_env N) (dumps rep) = Inr rep"
  shows "rg_sent c1 = rg_sent c @ [request_message i method params] \<and>
    future_of (read_reply N c2 (TextFrame (dumps rep))) i = Some (outcome_of_call (dispatch_method N R who method params)) \<and>
    (\<forall>j. j \<noteq> i \<longrightarrow> future_of (read_reply N c2 (TextFrame (dumps rep))) j = future_of c2 j)"
proof -
  have i: "i = rg_next_id c" "rg_sent c1 = rg_sent c @ [request_message i method params]" "c1 = registry_step N c (Requests method params)"
    using assms(2) by (auto simp: begin_request_def Let_def registry_step_def split: if_splits)
  have c: "futures_ok c" unfolding assms(1) by (intro futures_ok_run futures_ok_fresh)
  then have "0 < i" unfolding futures_ok_def i(1) by blast
  note ans = answer_request [OF assms(6) this, of R who]
  have "futures_ok c1" unfolding i(3) by (rule futures_ok_step [OF c])
  then have "futures_ok c2" unfolding assms(3) by (rule futures_ok_run)
  then have pending: "i \<in> set (rg_pending c2)" using assms(4,5) unfolding futures_ok_def by blast
  have f: "\<exists>d code msg. rep = response_message (PInt i) d \<and> outcome_of_call (dispatch_method N R who method params) = CallResult d \<or>
      rep = error_message (PInt i) code msg \<and> outcome_of_call (dispatch_method N R who method params) = CallFails (NetworkError code)"
    using ans assms(7) by (auto simp: outcome_of_call_def answer_error_def split: sum.splits exn.splits)
  then have "read_reply N c2 (TextFrame (dumps rep)) = settle (forget c2 i) [i] (outcome_of_call (dispatch_method N R who method params))"
    using read_response [OF assms(8,4) pending assms(5)] by blast
  then show ?thesis using i(2) assms(5) by (simp add: future_settle)
qed

section \<open>A reader that has ended\<close>

text \<open>
  C37. A reader that fails takes the client with it, silently. When a frame arrives that is no JSON
  object, every waiting call ends with the error of that frame, and no other call is touched; but the
  client is as open as before. Unless it is closed or the connection ends, it goes on accepting and
  sending requests. Whatever arrives afterwards, none of them ever gets an answer: it waits until it
  times out.
\<close>

theorem failed_reader_answers_nothing:
  assumes "c = foldl (registry_step N) RegistryClient evs" "decode_frame N raw = Inl e"
    and "c' = foldl (registry_step N) (read_reply N c raw) evs'" "rg_next_id c \<le> i" "rg_reading c"
  shows "future_of c' i \<in> {None, Some CallWaits, Some (CallFails (NetworkError ''TIMEOUT''))} \<and>
    (\<forall>j. future_of (read_reply N c raw) j = (if future_of c j = Some CallWaits then Some (CallFails e) else future_of c j)) \<and>
    ((\<forall>error. ConnectionEnds error \<notin> set evs' \<and> CloseCalled error \<notin> set evs') \<longrightarrow>
       rg_closed c' = rg_closed c \<and> rg_open c' = rg_open c \<and>
       (\<not> rg_closed c \<and> rg_open c \<longrightarrow> (\<forall>method params. \<exists>j c2. begin_request c' method params = (Inr j, c2) \<and>
          rg_next_id c \<le> j \<and> rg_sent c2 = rg_sent c' @ [request_message j method params])))"
proof -
  let ?d = "read_reply N c raw"
  have ok: "futures_ok c" unfolding assms(1) by (intro futures_ok_run futures_ok_fresh)
  have d: "?d = end_reader c e" using assms(2,5) by (simp add: read_reply_def)
  have ended: "future_of ?d j = (if future_of c j = Some CallWaits then Some (CallFails e) else future_of c j)" for j
  proof (cases "future_of c j = Some CallWaits")
    case True
    with ok assms(5) have "j \<in> set (rg_pending c)" unfolding futures_ok_def by blast
    with True show ?thesis by (simp add: d end_reader_def future_settle)
  qed (auto simp: d end_reader_def future_settle map_option_case split: option.split)
  let ?late = "{None, Some CallWaits, Some (CallFails (NetworkError ''TIMEOUT''))}"
  define quiet where "quiet c \<longleftrightarrow> \<not> rg_reading c \<and> future_of c i \<in> ?late" for c
  have step: "quiet (registry_step N c ev)" if "quiet c" for c ev
    using that
    by (cases ev) (auto simp: quiet_def registry_step_def begin_request_def request_times_out_def read_reply_def connection_ends_def
        close_registry_client_def Let_def future_settle map_add_def split: option.splits if_splits)
  have "future_of c i = None" using ok assms(4) unfolding futures_ok_def by (meson not_le)
  then have "quiet ?d" by (simp add: quiet_def d end_reader_def future_settle)
  then have "quiet (foldl (registry_step N) ?d evs')"
    by (induction evs' rule: rev_induct) (simp_all add: step)
  then have late: "future_of c' i \<in> ?late" by (simp add: quiet_def assms(3))
  have idle: "\<not> rg_reading ?d" by (simp add: d end_reader_def)
  have open_step: "rg_closed (registry_step N x ev) = rg_closed x \<and> rg_open (registry_step N x ev) = rg_open x \<and>
      rg_next_id x \<le> rg_next_id (registry_step N x ev) \<and> \<not> rg_reading (registry_step N x ev)"
    if "\<not> rg_reading x" "\<forall>error. ev \<noteq> ConnectionEnds error \<and> ev \<noteq> CloseCalled error" for x ev
    using that by (cases ev) (auto simp: registry_step_def begin_request_def request_times_out_def read_reply_def settle_def forget_def Let_def)
  have "rg_closed c' = rg_closed ?d \<and> rg_open c' = rg_open ?d \<and> rg_next_id ?d \<le> rg_next_id c' \<and> \<not> rg_reading c'"
    if "\<forall>error. ConnectionEnds error \<notin> set evs' \<and> CloseCalled error \<notin> set evs'"
    unfolding assms(3) using that idle
  proof (induction evs' rule: rev_induct)
    case (snoc ev evs')
    then have "\<forall>error. ev \<noteq> ConnectionEnds error \<and> ev \<noteq> CloseCalled error" by auto
    with open_step [of "foldl (registry_step N) ?d evs'" ev] snoc show ?case by fastforce
  qed simp
  then have "rg_closed c' = rg_closed c \<and> rg_open c' = rg_open c \<and> rg_next_id c \<le> rg_next_id c'"
    if "\<forall>error. ConnectionEnds error \<notin> set evs' \<and> CloseCalled error \<notin> set evs'"
    using that by (simp add: d end_reader_def settle_def)
  with late ended show ?thesis by (auto simp: begin_request_def Let_def)
qed

section \<open>Instances\<close>

definition demo_management :: net_env where
  "demo_management = \<lparr>nv_env = demo_codecs\<lparr>json_loads := (\<lambda>s.
       if s = ''hello'' then Inr (management_hello ''operator'' (replicate 32 (CHR ''x'')))
       else if s = ''request'' then Inr (request_message 1 ''server_info'' [])
       else if s = ''reply'' then Inr (response_message (PInt 1) (server_info (demo_registry ''COM3''))) else Inl ValueError)\<rparr>,
     nv_utf8 = (\<lambda>b. Inl ValueError), nv_environ = (\<lambda>k. if k = ''TOKEN'' then Some (replicate 32 (CHR ''x'')) else None),
     nv_text = (\<lambda>e. []), nv_message = (\<lambda>e. [])\<rparr>"

theorem management_requires_credential_witness:
  "proves demo_management (demo_registry ''COM3'') (TextFrame ''hello'') ''operator''"
proof -
  let ?R = "demo_registry ''COM3''"
  have "session_run demo_management ?R Greets [FrameArrives (TextFrame ''hello'')] = (Serves ''operator'', [welcome_message ?R ''operator''])"
    by code_simp
  from management_requires_credential [OF this] show ?thesis
    by (auto simp: welcome_message_def error_message_def mkdict_def)
qed

theorem management_call_returns_answer_witness:
  "future_of (read_reply demo_management (registry_step demo_management RegistryClient (Requests ''server_info'' [])) (TextFrame ''reply'')) 1 =
     Some (CallResult (server_info (demo_registry ''COM3'')))"
proof -
  let ?m = "request_message 1 ''server_info'' []" let ?rep = "response_message (PInt 1) (server_info (demo_registry ''COM3''))"
  let ?dumps = "\<lambda>m. if m = ?m then ''request'' else ''reply''"
  obtain c1 where c1: "begin_request RegistryClient ''server_info'' [] = (Inr 1, c1)" "rg_reading c1" "future_of c1 1 = Some CallWaits"
    by (simp add: begin_request_def RegistryClient_def Let_def)
  have differ: "?rep \<noteq> ?m" by (simp add: request_message_def response_message_def mkdict_def)
  have "answer demo_management (demo_registry ''COM3'') ''operator'' (TextFrame ''request'') = Inr ?rep" by code_simp
  moreover have "json_loads (nv_env demo_management) ''request'' = Inr ?m" "json_loads (nv_env demo_management) ''reply'' = Inr ?rep"
    by (simp_all add: demo_management_def)
  moreover have "dispatch_method demo_management (demo_registry ''COM3'') ''operator'' ''server_info'' [] = Inr (server_info (demo_registry ''COM3''))"
    by (simp add: dispatch_method_def exact_def exact_keys_def PyVal.keys_def)
  ultimately show ?thesis
    using management_call_returns_answer [where evs = "[]" and evs' = "[]" and N = demo_management and dumps = ?dumps and rep = ?rep,
        OF _ c1(1) _ c1(2,3)] differ c1(1)
    by (simp add: registry_step_def outcome_of_call_def)
qed

theorem failed_reader_answers_nothing_witness:
  "future_of (foldl (registry_step demo_management) (read_reply demo_management RegistryClient (TextFrame ''no JSON''))
     [Requests ''server_info'' [], FrameReceived (TextFrame ''reply''), CallTimesOut 1]) 1 \<in>
   {None, Some CallWaits, Some (CallFails (NetworkError ''TIMEOUT''))}"
proof -
  have "decode_frame demo_management (TextFrame ''no JSON'') = Inl (NetworkError ''SCHEMA_INVALID'')"
    by (simp add: decode_frame_def frame_text_def demo_management_def catch_def)
  moreover have "rg_next_id RegistryClient \<le> 1" "rg_reading RegistryClient" by (simp_all add: RegistryClient_def)
  ultimately show ?thesis
    by (intro failed_reader_answers_nothing [where evs = "[]", THEN conjunct1, OF _ _ refl]) simp_all
qed

text \<open>Registries that differ in connections only look the same to every identity with one record in both.\<close>

lemma sees_same_public:
  assumes "loaded_ok E R" "loaded_ok E R'" "server_id R' = server_id R" "public_table (nodes R') = public_table (nodes R)"
    and "map_of (identities R') who = map_of (identities R) who"
  shows "sees_same E R R' who"
proof -
  have "map_option public_node (map_of (nodes R') i) = map_option public_node (map_of (nodes R) i)" for i
    using assms(4) map_of_public by metis
  moreover have "common (public_node n) = common n" for n by (cases n) (simp_all add: node_common.truncate_def)
  then have "exposed R i = (case map_option public_node (map_of (nodes R) i) of None \<Rightarrow> False | Some n \<Rightarrow> exposed_as_run_root (common n))" for R i
    by (cases "map_of (nodes R) i") (simp_all add: exposed_def)
  ultimately have "exposed R' i = exposed R i" for i by (simp only:)
  with public_manifests [OF assms(1-4)] assms(3,5) show ?thesis by (simp add: sees_same_def)
qed

theorem management_noninterference_witness:
  "session_run (demo_management\<lparr>nv_env := demo_codecs\<rparr>) (demo_registry ''COM4'') (Serves ''operator'') [FrameArrives (TextFrame ''request'')] =
     session_run (demo_management\<lparr>nv_env := demo_codecs\<rparr>) (demo_registry ''COM3'') (Serves ''operator'') [FrameArrives (TextFrame ''request'')] \<and>
   nodes (demo_registry ''COM4'') \<noteq> nodes (demo_registry ''COM3'')"
proof -
  have "server_id (demo_registry ''COM4'') = server_id (demo_registry ''COM3'')"
    "public_table (nodes (demo_registry ''COM4'')) = public_table (nodes (demo_registry ''COM3''))"
    "map_of (identities (demo_registry ''COM4'')) ''operator'' = map_of (identities (demo_registry ''COM3'')) ''operator''"
    "nodes (demo_registry ''COM4'') \<noteq> nodes (demo_registry ''COM3'')" by code_simp+
  then show ?thesis
    by (intro conjI management_noninterference) (simp_all add: sees_same_public [OF load_Inr [OF demo_load(1)] load_Inr [OF demo_load(2)]])
qed

end
