(* ===== verification/Discovery.thy ===== *)
theory Discovery
  imports ProgramSafety NetworkSafety
begin

text \<open>
  Compiling against a discovered manifest, \<^verbatim>\<open>examples/client/discover_and_compile.py\<close>, and the management
  command line \<^verbatim>\<open>client_v2.py\<close>. \<^verbatim>\<open>RemoteManifestView\<close> is the second implementation of \<^verbatim>\<open>RegistryView\<close>: it
  answers the compiler from one recursive manifest. The replies of the server are given as the
  function \<open>request\<close>, from a method and its parameters to the result or the exception of
  \<^verbatim>\<open>RegistryClient.request\<close>.
\<close>

section \<open>The manifest as a view\<close>

record manifest_view =
  mv_manifest :: pydict
  mv_server_id :: string
  mv_root_id :: string
  mv_hash :: string

definition required_string :: "pydict \<Rightarrow> string \<Rightarrow> string result" where
  "required_string value key = (case dget_or value key PNone of
      PStr s \<Rightarrow> raise_if (s = []) (ProgramError ''INVALID_MANIFEST'') (Inr s)
    | _ \<Rightarrow> Inl (ProgramError ''INVALID_MANIFEST''))"

definition RemoteManifestView :: "pydict \<Rightarrow> manifest_view result" where
  "RemoteManifestView m =
     bind (required_string m ''server_id'') (\<lambda>s.
     bind (required_string m ''node_id'') (\<lambda>i.
     bind (required_string m ''manifest_hash'') (\<lambda>h.
     Inr \<lparr>mv_manifest = m, mv_server_id = s, mv_root_id = i, mv_hash = h\<rparr>)))"

definition mv_describe :: "manifest_view \<Rightarrow> string \<Rightarrow> pydict result" where
  "mv_describe V i = raise_if (i \<noteq> mv_root_id V) (ProgramError ''GROUP_NOT_FOUND'') (Inr (mv_manifest V))"

definition mv_manifest_hash :: "manifest_view \<Rightarrow> string \<Rightarrow> string result" where
  "mv_manifest_hash V i = bind (mv_describe V i) (\<lambda>_. Inr (mv_hash V))"

text \<open>\<^verbatim>\<open>isinstance(x, Mapping) and x.get(key) == name\<close>\<close>

definition called :: "string \<Rightarrow> string \<Rightarrow> pyval \<Rightarrow> bool" where
  "called key name x = (case x of PDict d \<Rightarrow> py_eq (dget_or d key PNone) (PStr name) | _ \<Rightarrow> False)"

definition is_kind :: "pydict \<Rightarrow> string \<Rightarrow> bool" where
  "is_kind current k = py_eq (dget_or current ''kind'' PNone) (PStr k)"

text \<open>The loop over the roles before the group.\<close>

fun walk_manifest :: "pydict \<Rightarrow> string list \<Rightarrow> pydict result" where
  "walk_manifest current [] = Inr current"
| "walk_manifest current (role # roles) =
     raise_if (\<not> is_kind current ''composite'') (ProgramError ''GROUP_NOT_FOUND'')
     (case dget_or current ''children'' PNone of
        PList entries \<Rightarrow>
          (case filter (called ''role'' role) entries of
             [PDict ch] \<Rightarrow>
               (case dget_or ch ''manifest'' PNone of
                  PDict m \<Rightarrow> walk_manifest m roles
                | _ \<Rightarrow> Inl (ProgramError ''GROUP_NOT_FOUND''))
           | _ \<Rightarrow> Inl (ProgramError ''GROUP_NOT_FOUND''))
      | _ \<Rightarrow> Inl (ProgramError ''INVALID_MANIFEST''))"

definition manifest_group :: "pydict \<Rightarrow> string \<Rightarrow> pyval result" where
  "manifest_group current gid =
     raise_if (\<not> is_kind current ''physical'') (ProgramError ''GROUP_NOT_FOUND'')
     (case dget_or current ''groups'' PNone of
        PList entries \<Rightarrow>
          (case filter (called ''group_id'' gid) entries of
             [PDict g] \<Rightarrow> bind (required_string current ''node_id'') (\<lambda>i.
               Inr (mkdict [(''physical_node_id'', PStr i), (''group_id'', PStr gid), (''group'', PDict g)]))
           | _ \<Rightarrow> Inl (ProgramError ''GROUP_NOT_FOUND''))
      | _ \<Rightarrow> Inl (ProgramError ''INVALID_MANIFEST''))"

definition mv_resolve_group :: "manifest_view \<Rightarrow> string \<Rightarrow> string \<Rightarrow> pyval result" where
  "mv_resolve_group V root_id path =
     bind (mv_describe V root_id) (\<lambda>_.
     let segments = py_split (CHR ''.'') path in
     raise_if (\<exists>s \<in> set segments. s = []) (ProgramError ''GROUP_NOT_FOUND'')
     (bind (walk_manifest (mv_manifest V) (butlast segments)) (\<lambda>current. manifest_group current (last segments))))"

definition remote_view :: "manifest_view \<Rightarrow> registry_view" where
  "remote_view V = \<lparr>rv_server_id = mv_server_id V, rv_describe = (\<lambda>i. bind (mv_describe V i) (\<lambda>m. Inr (PDict m))),
     rv_manifest_hash = mv_manifest_hash V, rv_resolve_group = mv_resolve_group V\<rparr>"

section \<open>Calls to the server\<close>

text \<open>\<^verbatim>\<open>dict(v)\<close>: a mapping, or pairs, of which a later one replaces the value of an equal key.\<close>

definition dict_put :: "pydict \<Rightarrow> pyval \<times> pyval \<Rightarrow> pydict" where
  "dict_put d x = (if \<exists>p \<in> set d. py_eq (fst p) (fst x)
     then map (\<lambda>p. if py_eq (fst p) (fst x) then (fst p, snd x) else p) d else d @ [x])"

definition dict_pair :: "pyval \<Rightarrow> (pyval \<times> pyval) result" where
  "dict_pair v = bind (py_iter v) (\<lambda>xs. case xs of
      [k, x] \<Rightarrow> raise_if (\<not> hashable k) TypeError (Inr (k, x))
    | _ \<Rightarrow> Inl ValueError)"

definition py_dict :: "pyval \<Rightarrow> pydict result" where
  "py_dict v = (case v of
      PDict d \<Rightarrow> Inr d
    | _ \<Rightarrow> bind (py_iter v) (\<lambda>xs. bind (mapM dict_pair xs) (\<lambda>ps. Inr (foldl dict_put [] ps))))"

type_synonym requester = "string \<Rightarrow> pydict \<Rightarrow> pydict result"

definition list_robots_call :: "requester \<Rightarrow> pyval list result" where
  "list_robots_call request = bind (request ''list_robots'' []) (\<lambda>res. bind (dindex res ''robots'') py_iter)"

definition describe_robot_call :: "requester \<Rightarrow> string \<Rightarrow> pydict result" where
  "describe_robot_call request i =
     bind (request ''describe_robot'' [(PStr ''node_id'', PStr i)]) (\<lambda>res. bind (dindex res ''manifest'') py_dict)"

definition server_info_call :: "requester \<Rightarrow> pydict result" where
  "server_info_call request = request ''server_info'' []"

text \<open>\<^verbatim>\<open>str(robot.get("node_id"))\<close>\<close>

definition robot_name :: "pyenv \<Rightarrow> pyval \<Rightarrow> string result" where
  "robot_name E robot = (case robot of PDict d \<Rightarrow> Inr (py_str E (dget_or d ''node_id'' PNone)) | _ \<Rightarrow> Inl AttributeError)"

text \<open>
  \<^verbatim>\<open>run\<close> of the example: \<open>token\<close> is the value of the variable, empty if it is unset, and \<open>template\<close>
  the result of \<^verbatim>\<open>load_template\<close>. The result is the program that is written.
\<close>

definition discover_and_compile :: "pyenv \<Rightarrow> string \<Rightarrow> string \<Rightarrow> requester \<Rightarrow> pydict result \<Rightarrow> compiled_program result" where
  "discover_and_compile E token root_id request template =
     raise_if (length token < 32) SystemExit
     (bind (server_info_call request) (\<lambda>info.
      bind (list_robots_call request) (\<lambda>robots.
      bind (mapM (robot_name E) robots) (\<lambda>visible_ids.
      raise_if (root_id \<notin> set visible_ids) SystemExit
      (bind (describe_robot_call request root_id) (\<lambda>m.
       bind (RemoteManifestView m) (\<lambda>V.
       bind template (compile_program E (remote_view V)))))))))"

datatype management_command = ListCommand | DescribeCommand string | ServerInfoCommand

text \<open>\<^verbatim>\<open>client_v2.run\<close>: the value it prints.\<close>

definition management_client :: "string \<Rightarrow> requester \<Rightarrow> management_command \<Rightarrow> pyval result" where
  "management_client token request cmd =
     raise_if (length token < 32) SystemExit
     (case cmd of
        ListCommand \<Rightarrow> bind (list_robots_call request) (\<lambda>xs. Inr (PList xs))
      | DescribeCommand i \<Rightarrow> bind (describe_robot_call request i) (\<lambda>m. Inr (PDict m))
      | ServerInfoCommand \<Rightarrow> bind (server_info_call request) (\<lambda>d. Inr (PDict d)))"

end
