(* ===== verification/Migrate.thy ===== *)
theory Migrate
  imports ProgramSafety Protocol
begin

text \<open>
  Migration of a version 1 trajectory into a version 2 template, \<^verbatim>\<open>migrate.py\<close>, and what the compiler
  makes of it. A source file is the list of its lines.
\<close>

section \<open>The template\<close>

text \<open>\<^verbatim>\<open>math.radians\<close>: one product with the double nearest to \<open>\<pi>\<close>, divided by 180.\<close>

definition DEG_TO_RAD :: pyfloat where
  "DEG_TO_RAD = fround (884279719003555 / 281474976710656 / 180)"

definition radians :: "pyfloat \<Rightarrow> pyfloat" where
  "radians v = fmul v DEG_TO_RAD"

definition arm_sample :: "trajectory_point \<Rightarrow> pyval" where
  "arm_sample p = sample_dict (t_us p, map radians (take 5 (q_deg p)))"

definition gripper_sample :: "trajectory_point \<Rightarrow> pyval result" where
  "gripper_sample p = bind (py_index (q_deg p) 5) (\<lambda>q. bind (fdiv q (Fin 100)) (\<lambda>v. Inr (sample_dict (t_us p, [v]))))"

definition sequence_entry :: "string \<Rightarrow> string \<Rightarrow> string \<Rightarrow> pyval list \<Rightarrow> pyval" where
  "sequence_entry path schema reference samples = mkdict [(''group'', PStr path), (''command_schema'', PStr schema),
     (''reference'', PStr reference), (''samples'', PList samples)]"

definition reference_of :: "program_header \<Rightarrow> string" where
  "reference_of h = (if ph_coordinate_mode h = ''relative_deg'' then ''phase_start_measured'' else ''absolute'')"

definition migrate_v1_so101_template :: "pyenv \<Rightarrow> string list \<Rightarrow> string \<Rightarrow> string \<Rightarrow> string \<Rightarrow> pydict result" where
  "migrate_v1_so101_template E source root_id arm_role_path gripper_role_path =
     bind (load_program E source SafetyPolicy) (\<lambda>(h, points).
     bind (mapM gripper_sample points) (\<lambda>gripper_samples.
     Inr (the_dict (mkdict [(''format'', PStr TEMPLATE_FORMAT), (''version'', PInt Program.PROGRAM_VERSION),
       (''program_id'', PStr (ph_program_id h @ ''-v2'')), (''root_id'', PStr root_id),
       (''phases'', PList [mkdict [(''phase_id'', PStr ''migrated-v1-trajectory''),
          (''sequences'', PList
            [sequence_entry arm_role_path ''joint_position_trajectory/v1'' (reference_of h) (map arm_sample points),
             sequence_entry gripper_role_path ''normalized_position_trajectory/v1'' (reference_of h) gripper_samples])]])]))))"

section \<open>What the compiler makes of it\<close>

text \<open>A sample of finite values compiles to itself.\<close>

lemma compile_samples_given:
  "compile_samples E axs reference schema prev (map sample_dict xs) = Inr xs' \<Longrightarrow> xs' = xs"
proof (induction xs arbitrary: prev xs')
  case (Cons s xs)
  then obtain s' rest where s': "compile_sample E axs reference schema prev (sample_dict s) = Inr s'" "xs' = s' # rest"
    "compile_samples E axs reference schema (Some s') (map sample_dict xs) = Inr rest" by auto
  have "sample_values E n (PList (map PFloat vs)) = Inr ws \<Longrightarrow> ws = vs" for n vs ws
    by (auto simp: sample_values_def mapM_py_float)
  with s'(1) have "s' = s"
    by (cases s; cases s') (auto simp: sample_dict_def mkdict_def compile_sample_Inr dindex_def sample_time_Inr)
  with Cons.IH s' show ?case by blast
qed simp

lemma compile_entry:
  assumes "compile_sequence E V root_id (sequence_entry path schema reference (map sample_dict xs)) = Inr s"
  shows "seq_role_path s = path" "seq_schema s = schema" "seq_reference s = reference" "seq_samples s = xs"
proof -
  have "role_path_of (PStr path) = Inr p \<Longrightarrow> p = path" for p
    by (auto simp: role_path_of_def short_id_def)
  with assms show "seq_role_path s = path" "seq_schema s = schema" "seq_reference s = reference" "seq_samples s = xs"
    by (auto simp: compile_sequence_def sequence_entry_def mkdict_def dindex_def py_str_def Let_def compile_dense_samples_def
        dest!: compile_samples_given)
qed

text \<open>The gripper value of a point, and the poses of the two groups.\<close>

definition aperture :: "trajectory_point \<Rightarrow> pyfloat" where
  "aperture p = (case fdiv (q_deg p ! 5) (Fin 100) of Inr v \<Rightarrow> v | Inl e \<Rightarrow> NaN)"

definition arm_motion :: "trajectory_point list \<Rightarrow> sample list" where
  "arm_motion ps = map (\<lambda>p. (t_us p, map radians (take 5 (q_deg p)))) ps"

definition gripper_motion :: "trajectory_point list \<Rightarrow> sample list" where
  "gripper_motion ps = map (\<lambda>p. (t_us p, [aperture p])) ps"

lemma gripper_samples_motion: "mapM gripper_sample ps = Inr gs \<Longrightarrow> gs = map sample_dict (gripper_motion ps)"
proof (induction ps arbitrary: gs)
  case (Cons p ps)
  then show ?case by (auto simp: gripper_sample_def gripper_motion_def aperture_def py_index_def split: if_splits)
qed (simp add: gripper_motion_def)

lemma compiled_template:
  assumes "compile_program E V template = Inr p" "dget template ''phases'' = Some (PList [mkdict [(''phase_id'', PStr i), (''sequences'', PList raws)]])"
  obtains x ph where "cp_body p = parts_body V x" "pp_phases x = [ph]" "ph_id ph = i" "dget template ''root_id'' = Some (PStr (pp_root x))"
    "list_all2 (\<lambda>raw y. compile_sequence E V (pp_root x) raw = Inr (fst y)) raws (ph_sequences ph)"
    "ph_duration ph = fold max (map (seq_duration \<circ> fst) (ph_sequences ph)) 0"
    "pp_id x = (case dget template ''program_id'' of Some (PStr s) \<Rightarrow> s | _ \<Rightarrow> ''program'')"
proof -
  let ?raw = "mkdict [(''phase_id'', PStr i), (''sequences'', PList raws)]"
  obtain r h phases pid osha sha where *: "compile_root E V template = Inr (r, h)"
    "foldM (add_phase E V r) [] [?raw] = Inr phases"
    "short_id (dget_or template ''program_id'' (PStr ''program'')) = Inr pid" "digest_value E (outline_dict phases) = Inr osha"
    "p = \<lparr>cp_body = the_dict (mkdict (body_items pid (rv_server_id V) r h osha phases)), cp_sha256 = sha\<rparr>"
    using assms(1,2) by (auto simp: compile_program_def dindex_def Let_def)
  from *(2) obtain ph where ph: "phases = [ph]" "compile_phase E V r ?raw = Inr ph"
    by (auto simp: add_phase_def)
  obtain ts dur seqs sha' where c: "short_id (PStr i) = Inr (ph_id ph)" "foldM (add_sequence E V r) ([], 0, []) raws = Inr (ts, dur, seqs)"
    "ph_sequences ph = seqs" "ph_duration ph = dur"
    using ph(2) unfolding compile_phase_def by (auto simp: mkdict_def Let_def dindex_def dget_or_def)
  have pid: "pid = (case dget template ''program_id'' of Some (PStr s) \<Rightarrow> s | _ \<Rightarrow> ''program'')"
    using *(3) by (auto simp: dget_or_def short_id_def split: option.splits pyval.splits)
  obtain v where v: "dget template ''root_id'' = Some v" "short_id v = Inr r"
    using *(1) by (auto simp: compile_root_def case_dict_Inr dindex_def split: option.splits)
  have "v = PStr r" using v(2) by (auto simp: short_id_def split: pyval.splits)
  moreover have "ph_id ph = i" using c(1) by (auto simp: short_id_def)
  moreover have f: "list_all2 (\<lambda>raw y. compile_sequence E V r raw = Inr (fst y) \<and>
      digest_value E (mkdict (sequence_items (fst y))) = Inr (snd y)) raws seqs"
    "dur = fold max (map (seq_duration \<circ> fst) seqs) 0" using c(2) unfolding foldM_add_sequence by auto
  then have "list_all2 (\<lambda>raw y. compile_sequence E V r raw = Inr (fst y)) raws seqs" by (auto elim: list_all2_mono)
  ultimately show thesis
    using that [of "\<lparr>pp_root = r, pp_id = pid, pp_manifest = h, pp_outline = osha, pp_phases = phases\<rparr>" ph] c(3,4) *(5) ph(1) v(1) pid f(2)
    by (simp add: parts_body_def)
qed

text \<open>The two roundings of a conversion.\<close>

lemma abs_chain: "\<bar>a - b\<bar> \<le> x \<Longrightarrow> \<bar>b - c\<bar> \<le> y \<Longrightarrow> x + y \<le> z \<Longrightarrow> \<bar>a - c\<bar> \<le> z" for a b c x y z :: rat
  by linarith

lemma radians_accurate:
  assumes "\<bar>d\<bar> \<le> 360"
  obtains r where "radians (Fin d) = Fin r" "\<bar>r - d * (884279719003555 / 281474976710656 / 180)\<bar> \<le> 1 / 10 ^ 13"
proof -
  let ?K = "884279719003555 / 281474976710656 / 180 :: rat"
  have eta: "eta \<le> 1 / 10 ^ 20" by (rule order_trans [OF eta_small]) simp
  obtain k where k: "fround ?K = Fin k" "\<bar>k - ?K\<bar> \<le> \<bar>?K\<bar> / 2 ^ 53 + eta" by (rule fround_finite [of ?K]) simp
  have k': "\<bar>k - ?K\<bar> \<le> 1 / 10 ^ 17" using k(2) eta by simp
  then have K: "\<bar>k\<bar> \<le> 1" using abs_triangle_ineq [of "k - ?K" ?K] by simp
  have dk: "\<bar>d * k\<bar> \<le> 360" using mult_mono [OF assms K] by (simp add: abs_mult)
  obtain r where r: "fround (d * k) = Fin r" "\<bar>r - d * k\<bar> \<le> \<bar>d * k\<bar> / 2 ^ 53 + eta"
    by (rule fround_finite [of "d * k"]) (use dk in simp)
  show thesis
  proof
    show "radians (Fin d) = Fin r" using k(1) r(1) by (simp add: radians_def DEG_TO_RAD_def)
    have K: "\<bar>d * k - d * ?K\<bar> \<le> 360 * (1 / 10 ^ 17)"
      unfolding right_diff_distrib [symmetric] abs_mult using mult_mono [OF assms k'] by simp
    have "\<bar>d * k\<bar> / 2 ^ 53 \<le> 360 / 2 ^ 53" using dk by (rule divide_right_mono) simp
    then have "\<bar>r - d * k\<bar> \<le> 360 / 2 ^ 53 + 1 / 10 ^ 20" using r(2) eta by linarith
    then show "\<bar>r - d * ?K\<bar> \<le> 1 / 10 ^ 13" using K by (rule abs_chain) simp
  qed
qed

text \<open>
  C39. Migration keeps the motion. If a version 1 file migrates and the compiler accepts the template for
  a registry, the program has one phase of the length of the file, which commands exactly the arm
  and the gripper group. Its samples are the points of the file at the same times: the first
  five joints in radians, the sixth divided by a hundred. Relative files stay relative. An angle of
  at most one turn is converted with an error below a ten-trillionth of a radian, against the double
  nearest to \<open>\<pi>\<close>.
\<close>

theorem migration_keeps_motion:
  assumes "migrate_v1_so101_template E source root_id arm gripper = Inr template"
    and "compile_program E V template = Inr p"
  shows "\<exists>h ps x ph a g. load_program E source SafetyPolicy = Inr (h, ps) \<and> cp_body p = parts_body V x \<and>
    pp_root x = root_id \<and> pp_id x = ph_program_id h @ ''-v2'' \<and> pp_phases x = [ph] \<and> map fst (ph_sequences ph) = [a, g] \<and>
    ph_duration ph = max 0 (t_us (last ps)) \<and> seq_role_path a = arm \<and> seq_role_path g = gripper \<and>
    seq_reference a = reference_of h \<and> seq_reference g = reference_of h \<and>
    seq_samples a = arm_motion ps \<and> seq_samples g = gripper_motion ps \<and>
    (\<forall>q \<in> set ps. \<forall>d. Fin d \<in> set (q_deg q) \<and> \<bar>d\<bar> \<le> 360 \<longrightarrow> (\<exists>r. radians (Fin d) = Fin r \<and>
       \<bar>r - d * (884279719003555 / 281474976710656 / 180)\<bar> \<le> 1 / 10 ^ 13))"
proof -
  obtain h ps gs where m: "load_program E source SafetyPolicy = Inr (h, ps)" "mapM gripper_sample ps = Inr gs"
    and t: "template = the_dict (mkdict [(''format'', PStr TEMPLATE_FORMAT), (''version'', PInt Program.PROGRAM_VERSION),
       (''program_id'', PStr (ph_program_id h @ ''-v2'')), (''root_id'', PStr root_id),
       (''phases'', PList [mkdict [(''phase_id'', PStr ''migrated-v1-trajectory''),
          (''sequences'', PList
            [sequence_entry arm ''joint_position_trajectory/v1'' (reference_of h) (map arm_sample ps),
             sequence_entry gripper ''normalized_position_trajectory/v1'' (reference_of h) gs])]])])"
    using assms(1) by (auto simp: migrate_v1_so101_template_def)
  have gs: "gs = map sample_dict (gripper_motion ps)" by (rule gripper_samples_motion [OF m(2)])
  have as: "map arm_sample ps = map sample_dict (arm_motion ps)" by (simp add: arm_motion_def arm_sample_def)
  have ps: "ps \<noteq> []" using m(1) by (auto simp: load_program_def validate_points_def)
  obtain x ph where x: "cp_body p = parts_body V x" "pp_phases x = [ph]" "dget template ''root_id'' = Some (PStr (pp_root x))"
    "list_all2 (\<lambda>raw y. compile_sequence E V (pp_root x) raw = Inr (fst y))
       [sequence_entry arm ''joint_position_trajectory/v1'' (reference_of h) (map arm_sample ps),
        sequence_entry gripper ''normalized_position_trajectory/v1'' (reference_of h) gs] (ph_sequences ph)"
    "ph_duration ph = fold max (map (seq_duration \<circ> fst) (ph_sequences ph)) 0"
    "pp_id x = (case dget template ''program_id'' of Some (PStr s) \<Rightarrow> s | _ \<Rightarrow> ''program'')"
    by (rule compiled_template [OF assms(2)]) (auto simp: t mkdict_def)
  then obtain a g where q: "map fst (ph_sequences ph) = [a, g]"
    "compile_sequence E V (pp_root x) (sequence_entry arm ''joint_position_trajectory/v1'' (reference_of h) (map sample_dict (arm_motion ps))) = Inr a"
    "compile_sequence E V (pp_root x) (sequence_entry gripper ''normalized_position_trajectory/v1'' (reference_of h) (map sample_dict (gripper_motion ps))) = Inr g"
    by (auto simp: as gs list_all2_Cons1)
  note a = compile_entry [OF q(2)] and g = compile_entry [OF q(3)]
  have "ph_duration ph = fold max (map seq_duration (map fst (ph_sequences ph))) 0" by (simp add: x(5))
  also have "\<dots> = max 0 (t_us (last ps))"
    using ps by (simp add: q(1) seq_duration_def a(4) g(4) arm_motion_def gripper_motion_def last_map)
  finally have "ph_duration ph = max 0 (t_us (last ps))" .
  moreover have "\<exists>r. radians (Fin d) = Fin r \<and> \<bar>r - d * (884279719003555 / 281474976710656 / 180)\<bar> \<le> 1 / 10 ^ 13"
    if "\<bar>d\<bar> \<le> 360" for d
    by (rule radians_accurate [OF that]) blast
  ultimately show ?thesis
    using m(1) x(1-3,6) q(1) a(1,3,4) g(1,3,4) by (intro exI conjI) (auto simp: t mkdict_def)
qed

section \<open>An instance\<close>

definition demo_axis :: "string \<Rightarrow> string \<Rightarrow> string \<Rightarrow> rat \<Rightarrow> axis_spec" where
  "demo_axis i k u lo = \<lparr>axis_id = i, axis_kind = k, axis_unit = u, minimum = Fin lo, maximum = Fin 1, max_velocity = None\<rparr>"

definition demo_so101 :: physical_node where
  "demo_so101 = demo_follower\<lparr>groups :=
     [\<lparr>group_id = ''arm'', axes = map (\<lambda>i. demo_axis i ''revolute'' ''rad'' (-1)) [''a'', ''b'', ''c'', ''d'', ''e''],
        command_schemas = [''joint_position_trajectory/v1''], telemetry_schemas = [''t/v1''], control_rate_hz = Fin 50\<rparr>,
      \<lparr>group_id = ''gripper'', axes = [demo_axis ''g'' ''normalized'' ''1'' 0],
        command_schemas = [''normalized_position_trajectory/v1''], telemetry_schemas = [''t/v1''], control_rate_hz = Fin 50\<rparr>]\<rparr>"

definition demo_so101_lab :: registry where
  "demo_so101_lab = (let R = \<lparr>server_id = ''lab'', nodes = [(''arm'', Physical demo_so101)], identities = [], manifest_cache = []\<rparr>
     in R\<lparr>manifest_cache := [(''arm'', physical_body R demo_so101 @ [(PStr ''manifest_hash'', PStr ''00'')])]\<rparr>)"

definition demo_gesture :: "trajectory_point list" where
  "demo_gesture = [\<lparr>t_us = 0, q_deg = replicate 6 (Fin 0)\<rparr>, \<lparr>t_us = 5000000, q_deg = replicate 5 (Fin 0) @ [Fin 50]\<rparr>]"

definition demo_both :: pyenv where
  "demo_both = demo_json\<lparr>cbor_dumps := (\<lambda>v. Inr [0]), sha256 := (\<lambda>b. b),
     json_loads := (\<lambda>s. if s = ''header'' then Inr (header_record demo_header) else if s = ''first'' then Inr (point_record (demo_gesture ! 0))
       else Inr (point_record (demo_gesture ! 1)))\<rparr>"

definition demo_source :: "string list" where
  "demo_source = [''header'', ''first'', ''second'']"

definition demo_migrated :: pydict where
  "demo_migrated = (case migrate_v1_so101_template demo_both demo_source ''arm'' ''arm'' ''gripper'' of Inr d \<Rightarrow> d | Inl e \<Rightarrow> [])"

theorem migration_keeps_motion_witness:
  "\<exists>p x ph a g. compile_program demo_both (view demo_both demo_so101_lab) demo_migrated = Inr p \<and>
     pp_phases x = [ph] \<and> map fst (ph_sequences ph) = [a, g] \<and> cp_body p = parts_body (view demo_both demo_so101_lab) x \<and>
     ph_duration ph = max 0 (t_us (last demo_gesture)) \<and> seq_samples a = arm_motion demo_gesture \<and> seq_samples g = gripper_motion demo_gesture"
proof -
  have l: "load_program demo_both demo_source SafetyPolicy = Inr (demo_header, demo_gesture)" by code_simp
  have "\<not> isl (migrate_v1_so101_template demo_both demo_source ''arm'' ''arm'' ''gripper'')" by code_simp
  then have m: "migrate_v1_so101_template demo_both demo_source ''arm'' ''arm'' ''gripper'' = Inr demo_migrated"
    by (cases "migrate_v1_so101_template demo_both demo_source ''arm'' ''arm'' ''gripper''") (simp_all add: demo_migrated_def)
  have "\<not> isl (compile_program demo_both (view demo_both demo_so101_lab) demo_migrated)" by code_simp
  then obtain p where p: "compile_program demo_both (view demo_both demo_so101_lab) demo_migrated = Inr p"
    by (cases "compile_program demo_both (view demo_both demo_so101_lab) demo_migrated") simp_all
  from migration_keeps_motion [OF m p] obtain h ps x ph a g where q: "load_program demo_both demo_source SafetyPolicy = Inr (h, ps)"
    "cp_body p = parts_body (view demo_both demo_so101_lab) x" "pp_phases x = [ph]" "map fst (ph_sequences ph) = [a, g]"
    "ph_duration ph = max 0 (t_us (last ps))" "seq_samples a = arm_motion ps" "seq_samples g = gripper_motion ps"
    by (elim exE conjE) (erule (6) that)
  have "ps = demo_gesture" using l q(1) by simp
  with q(2-7) p show ?thesis by (intro exI [of _ p] exI [of _ x] exI [of _ ph] exI [of _ a] exI [of _ g]) simp
qed

end
