(* ===== verification/Frontends.thy ===== *)
theory Frontends
  imports DashboardSafety Discovery Migrate
begin

text \<open>
  The entry points: the local command line \<^verbatim>\<open>cli.py\<close>, the version 2 server \<^verbatim>\<open>server_v2.py\<close>, and the start
  and the shutdown of the version 1 server in \<^verbatim>\<open>robot_server.py\<close>. Parsed arguments, the contents of files and the
  outcomes of the operating system are arguments; a file that cannot be read or written is \<open>None\<close> or
  \<open>False\<close>.
\<close>

section \<open>The command line\<close>

datatype cli_command =
    CliList string
  | CliDescribe string "string option"
  | CliCompile string "string option" bool
  | CliInspect "bytes option"
  | CliValidate "bytes option"
  | CliMigrate "string list option" string string string bool

text \<open>What a command prints and the file it writes; \<open>None\<close> stands for an \<^verbatim>\<open>OSError\<close>.\<close>

record cli_effect =
  ce_printed :: pyval
  ce_written :: "bytes option"
  ce_template :: "pydict option"

definition prints :: "pyval \<Rightarrow> cli_effect option result" where
  "prints v = Inr (Some \<lparr>ce_printed = v, ce_written = None, ce_template = None\<rparr>)"

definition with_file :: "'a option \<Rightarrow> ('a \<Rightarrow> cli_effect option result) \<Rightarrow> cli_effect option result" where
  "with_file contents f = (case contents of None \<Rightarrow> Inr None | Some x \<Rightarrow> f x)"

text \<open>\<^verbatim>\<open>program.inspect() | {...}\<close>\<close>

definition inspection :: "pyenv \<Rightarrow> compiled_program \<Rightarrow> (string \<times> pyval) list \<Rightarrow> pyval result" where
  "inspection E p extra = bind (inspect E p) (\<lambda>v. Inr (PDict (foldl (\<lambda>d (k, x). dset d k x) (the_dict v) extra)))"

definition cli_inspect :: "pyenv \<Rightarrow> bytes option \<Rightarrow> cli_effect option result" where
  "cli_inspect E file = with_file file (\<lambda>data. bind (from_bytes E data) (\<lambda>p. bind (inspect E p) prints))"

definition cli_migrate :: "pyenv \<Rightarrow> string list option \<Rightarrow> string \<Rightarrow> string \<Rightarrow> string \<Rightarrow> string \<Rightarrow> bool \<Rightarrow> cli_effect option result" where
  "cli_migrate E file root_id arm gripper output writable = with_file file (\<lambda>source.
     bind (migrate_v1_so101_template E source root_id arm gripper) (\<lambda>template.
     Inr (if \<not> writable then None
       else Some \<lparr>ce_printed = mkdict [(''written'', PStr output), (''root_id'', PStr root_id)], ce_written = None,
         ce_template = Some template\<rparr>)))"

definition cli_compile :: "pyenv \<Rightarrow> (string \<Rightarrow> pyval result) \<Rightarrow> registry \<Rightarrow> string \<Rightarrow> string option \<Rightarrow> string \<Rightarrow> bool \<Rightarrow>
    cli_effect option result" where
  "cli_compile E toml_loads R ending file output writable = with_file file (\<lambda>contents.
     bind (compile_file E (view E R) toml_loads ending contents True) (\<lambda>(p, data).
     if \<not> writable then Inr None
     else bind (inspection E p [(''written'', PStr output)]) (\<lambda>v.
       Inr (Some \<lparr>ce_printed = v, ce_written = data, ce_template = None\<rparr>))))"

definition cli_validate :: "pyenv \<Rightarrow> registry \<Rightarrow> bytes option \<Rightarrow> cli_effect option result" where
  "cli_validate E R file = with_file file (\<lambda>data.
     bind (from_bytes E data) (\<lambda>p. bind (validate_for_current_registry E (view E R) p) (\<lambda>_.
     bind (inspection E p [(''valid'', PBool True), (''current_manifest'', PBool True)]) prints)))"

definition cli_run :: "pyenv \<Rightarrow> (string \<Rightarrow> pyval result) \<Rightarrow> registry_dir \<Rightarrow> string \<Rightarrow> cli_command \<Rightarrow> cli_effect option result" where
  "cli_run E toml_loads dir output cmd = (case cmd of
      CliInspect file \<Rightarrow> cli_inspect E file
    | CliMigrate file root_id arm gripper writable \<Rightarrow> cli_migrate E file root_id arm gripper output writable
    | _ \<Rightarrow> bind (load E dir) (\<lambda>R. case cmd of
          CliList who \<Rightarrow> bind (list_robots E R who) (\<lambda>ms. prints (PList (map PDict ms)))
        | CliDescribe i who \<Rightarrow> bind (describe E R i who) (\<lambda>m. prints (PDict m))
        | CliCompile ending file writable \<Rightarrow> cli_compile E toml_loads R ending file output writable
        | CliValidate file \<Rightarrow> cli_validate E R file
        | _ \<Rightarrow> Inl AssertionError))"

text \<open>The exit code: 0, or 2 for the errors that are reported; others propagate.\<close>

definition cli_main :: "pyenv \<Rightarrow> (string \<Rightarrow> pyval result) \<Rightarrow> registry_dir \<Rightarrow> string \<Rightarrow> cli_command \<Rightarrow> (int \<times> cli_effect option) result" where
  "cli_main E toml_loads dir output cmd = (case cli_run E toml_loads dir output cmd of
      Inr None \<Rightarrow> Inr (2, None)
    | Inr (Some x) \<Rightarrow> Inr (0, Some x)
    | Inl e \<Rightarrow> if is_ValueError e then Inr (2, None) else Inl e)"

section \<open>The version 2 server\<close>

text \<open>
  \<^verbatim>\<open>server_v2.run\<close>: \<open>refreshed\<close> and \<open>listening\<close> are the outcomes of the dashboard's start, \<open>served\<close> the way the
  management endpoint ends. The result is followed by the dashboard, the projection and whether the
  journal was closed.
\<close>

definition open_dashboard :: "(string \<Rightarrow> bool result) \<Rightarrow> string \<Rightarrow> int \<Rightarrow> int \<Rightarrow> bool result \<Rightarrow> int option result \<Rightarrow>
    unit result \<times> dashboard option" where
  "open_dashboard is_loopback host port refresh_ms refreshed listening =
     (if port = 0 then (Inr (), None)
      else case bind (int_truediv refresh_ms 1000) (DashboardServer is_loopback host (PInt port)) of
        Inl e \<Rightarrow> (Inl e, None)
      | Inr D \<Rightarrow> (case start_dashboard D refreshed listening of (r, D1) \<Rightarrow> (r, Some D1)))"

definition run_server_v2 :: "pyenv \<Rightarrow> registry_dir \<Rightarrow> int \<Rightarrow> unit result \<times> dashboard option \<Rightarrow> unit result \<Rightarrow>
    unit result \<times> (dashboard option \<times> projection \<times> bool) option" where
  "run_server_v2 E dir start_ns opened served =
     (case bind (load E dir) (\<lambda>R. OperationsProjection R False 256 24 80 start_ns) of
        Inl e \<Rightarrow> (Inl e, None)
      | Inr P \<Rightarrow> (case opened of (outcome, D) \<Rightarrow>
          (bind outcome (\<lambda>_. served), Some (map_option close_dashboard D, close_projection P, True))))"

section \<open>The version 1 server\<close>

text \<open>The checks of \<^verbatim>\<open>run_server\<close>, the policy and the backend it serves with.\<close>

definition check_server_arguments :: "string \<Rightarrow> pyfloat \<Rightarrow> pyfloat \<Rightarrow> pyfloat option \<Rightarrow> unit result" where
  "check_server_arguments token c_hz t_hz gripper_pct =
     raise_if (length token < 32) SystemExit
     (raise_if (fle c_hz (Fin 0) \<or> fle t_hz (Fin 0)) SystemExit
     (raise_if (flt c_hz t_hz) SystemExit
     (raise_if (case gripper_pct of None \<Rightarrow> False | Some x \<Rightarrow> fle x (Fin 0)) SystemExit (Inr ()))))"

text \<open>\<open>calibration\<close> is \<open>None\<close> for the simulated backend, else the parsed file, itself \<open>None\<close> if it is missing.\<close>

definition server_controller :: "pyenv \<Rightarrow> int \<Rightarrow> string \<Rightarrow> pyfloat \<Rightarrow> pyfloat \<Rightarrow> pyfloat option \<Rightarrow> pydict option option \<Rightarrow> pyfloat \<Rightarrow>
    pyfloat \<Rightarrow> pyfloat \<Rightarrow> controller result" where
  "server_controller E resolution token c_hz t_hz gripper_pct calibration margin heartbeat_timeout hold =
     bind (check_server_arguments token c_hz t_hz gripper_pct) (\<lambda>_.
     let policy = SafetyPolicy\<lparr>gripper_tracking_error_pct := gripper_pct\<rparr> in
     bind (case calibration of
         None \<Rightarrow> Inr policy
       | Some None \<Rightarrow> Inl SystemExit
       | Some (Some file) \<Rightarrow> limits_from_calibration E resolution file policy margin) (\<lambda>p.
     Inr (ProgramController p c_hz t_hz heartbeat_timeout hold)))"

text \<open>The signal handler, and the wait for the active run before the process ends.\<close>

definition request_shutdown :: "controller \<Rightarrow> controller" where
  "request_shutdown c = snd (emergency_stop c)"

text \<open>\<open>wait_for_idle\<close> looks up the active run, and later, in \<open>c'\<close>, whether that run has ended.\<close>

definition wait_for_idle :: "controller \<Rightarrow> controller \<Rightarrow> bool" where
  "wait_for_idle c c' = (case active c of None \<Rightarrow> True | Some i \<Rightarrow> state (runs c' ! i) \<in> set TERMINAL_STATES)"

end
