(* ===== verification/DiscoverySafety.thy ===== *)
theory DiscoverySafety
  imports Discovery
begin

text \<open>
  A program compiled against a discovered manifest is the program that the server would compile: the
  manifest of a loaded registry answers every question of the compiler like the registry itself.
\<close>

section \<open>The manifest resolves role paths like the registry\<close>

lemma filter_unique:
  "distinct (map f xs) \<Longrightarrow> x \<in> set xs \<Longrightarrow> f x = k \<Longrightarrow> filter (\<lambda>y. f y = k) xs = [x]"
proof (induction xs)
  case (Cons y ys)
  show ?case
  proof (cases "x = y")
    case True
    then have "filter (\<lambda>z. f z = k) ys = []"
      unfolding filter_empty_conv using Cons.prems by (metis distinct.simps(2) image_eqI list.simps(9) list.set_map)
    with True Cons.prems show ?thesis by simp
  next
    case False
    with Cons.prems have "f y \<noteq> k" by force
    with Cons False show ?thesis by simp
  qed
qed simp

definition group_answer :: "physical_node \<Rightarrow> group_spec \<Rightarrow> pyval" where
  "group_answer p g = mkdict [(''physical_node_id'', PStr (node_id p)), (''group_id'', PStr (group_id g)), (''group'', group_public_dict g)]"

lemma common_fields [simp]: "node_id (node_common.truncate n) = node_id n"
  by (simp add: node_common.truncate_def)

lemma body_fields [simp]:
  "dget (physical_body R p @ hs) ''kind'' = Some (PStr ''physical'')"
  "dget (physical_body R p @ hs) ''groups'' = Some (PList (map group_public_dict (groups p)))"
  "dget (physical_body R p @ hs) ''node_id'' = Some (PStr (node_id p))"
  "dget (composite_body R c es ps @ hs) ''kind'' = Some (PStr ''composite'')"
  "dget (composite_body R c es ps @ hs) ''children'' = Some (PList es)"
  by (simp_all add: physical_body_def composite_body_def common_manifest_def mkdict_def Let_def)

lemma called_group: "called ''group_id'' gid (group_public_dict g) \<longleftrightarrow> group_id g = gid"
  by (simp add: called_def group_public_dict_def mkdict_def dget_or_def)

lemma called_child: "called ''role'' r (child_entry ch h m) \<longleftrightarrow> child_role ch = r"
  by (simp add: called_def child_entry_def mkdict_def dget_or_def)

lemma manifest_group_physical:
  assumes "distinct (map group_id (groups p))" "node_id p \<noteq> []"
  shows "manifest_group (physical_body R p @ hs) gid = Inr r \<longleftrightarrow> (\<exists>g \<in> set (groups p). group_id g = gid \<and> r = group_answer p g)"
proof -
  have f: "filter (called ''group_id'' gid) (map group_public_dict gs) = map group_public_dict (filter (\<lambda>g. group_id g = gid) gs)" for gs
    by (simp add: filter_map comp_def called_group)
  show ?thesis
  proof (cases "\<exists>g \<in> set (groups p). group_id g = gid")
    case True
    then obtain g where g: "g \<in> set (groups p)" "group_id g = gid" by blast
    have "filter (\<lambda>g. group_id g = gid) (groups p) = [g]" by (rule filter_unique [OF assms(1) g])
    moreover obtain d where d: "group_public_dict g = PDict d" by (simp add: group_public_dict_def mkdict_def)
    ultimately have "manifest_group (physical_body R p @ hs) gid = Inr (group_answer p g)"
      using g(2) assms(2) by (simp add: manifest_group_def is_kind_def dget_or_def f required_string_def group_answer_def)
    moreover have "(\<exists>g' \<in> set (groups p). group_id g' = gid \<and> r = group_answer p g') \<longleftrightarrow> r = group_answer p g"
      using g assms(1) by (metis distinct_map inj_onD)
    ultimately show ?thesis by auto
  next
    case False
    then have "filter (\<lambda>g. group_id g = gid) (groups p) = []" by (simp add: filter_empty_conv)
    with False show ?thesis by (simp add: manifest_group_def is_kind_def dget_or_def f)
  qed
qed

lemma manifest_group_composite: "manifest_group (composite_body R c es ps @ hs) gid = Inl (ProgramError ''GROUP_NOT_FOUND'')"
  by (simp add: manifest_group_def is_kind_def dget_or_def)

text \<open>The manifest of a node, by one level.\<close>

lemma spec_cases:
  assumes "manifest_spec k E R i = Inr m" "map_of (nodes R) i = Some n"
  obtains hs where "case n of
      Physical p \<Rightarrow> m = physical_body R p @ hs
    | Composite c \<Rightarrow> (\<exists>l es ps. k = Suc l \<and> mapM (spec_entry l E R) (children c) = Inr es \<and> m = composite_body R c es ps @ hs)"
  using assms by (cases k) (auto simp: manifest_spec_Suc simp del: manifest_spec.simps(2) split: control_node.splits)

lemma child_of_role:
  assumes "distinct (map child_role chs)" "mapM (spec_entry l E R) chs = Inr es" "ch \<in> set chs"
  obtains h m where "filter (called ''role'' (child_role ch)) es = [child_entry ch h m]" "manifest_spec l E R (child_node ch) = Inr m"
proof -
  have "list_all2 (\<lambda>ch e. \<exists>h m. e = child_entry ch h m \<and> manifest_spec l E R (child_node ch) = Inr m) chs es"
    using assms(2) unfolding mapM_Inr_iff by (rule list_all2_mono) (auto simp: spec_entry_def)
  then have "\<exists>h m. filter (called ''role'' (child_role ch)) es = [child_entry ch h m] \<and> manifest_spec l E R (child_node ch) = Inr m"
    using assms(1,3)
  proof (induction rule: list_all2_induct)
    case (Cons c cs e es)
    then obtain h m where e: "e = child_entry c h m" "manifest_spec l E R (child_node c) = Inr m" by blast
    show ?case
    proof (cases "c = ch")
      case True
      have "\<forall>x \<in> set es. \<not> called ''role'' (child_role ch) x"
      proof
        fix x assume "x \<in> set es"
        then obtain c' h' m' where "c' \<in> set cs" "x = child_entry c' h' m'"
          using Cons.hyps(2) by (fastforce simp: list_all2_conv_all_nth in_set_conv_nth)
        moreover have "child_role c' \<noteq> child_role c"
          using Cons.prems(1) \<open>c' \<in> set cs\<close> by (metis distinct.simps(2) image_eqI list.simps(9) list.set_map)
        ultimately show "\<not> called ''role'' (child_role ch) x" using True by (simp add: called_child)
      qed
      with e True show ?thesis by (intro exI [of _ h] exI [of _ m]) (simp add: called_child filter_empty_conv)
    next
      case False
      with Cons e show ?thesis by (force simp: called_child)
    qed
  qed simp
  then show ?thesis using that by blast
qed

lemma no_child_of_role:
  assumes "mapM (spec_entry l E R) chs = Inr es" "\<forall>ch \<in> set chs. child_role ch \<noteq> r"
  shows "filter (called ''role'' r) es = []"
proof -
  have "list_all2 (\<lambda>ch e. \<exists>h m. e = child_entry ch h m) chs es"
    using assms(1) unfolding mapM_Inr_iff by (rule list_all2_mono) (auto simp: spec_entry_def)
  then show ?thesis using assms(2) by (induction rule: list_all2_induct) (auto simp: called_child)
qed

lemma manifest_routes:
  assumes wf: "wf_table (nodes R)"
  shows "segs \<noteq> [] \<Longrightarrow> manifest_spec k E R i = Inr m \<Longrightarrow> map_of (nodes R) i = Some n \<Longrightarrow>
    bind (walk_manifest m (butlast segs)) (\<lambda>current. manifest_group current (last segs)) = Inr r \<longleftrightarrow>
    (\<exists>al p g. route (nodes R) i segs al p g \<and> r = group_answer p g)"
proof (induction segs arbitrary: i m n k)
  case (Cons s segs)
  note wfn = wf_tableD [OF wf Cons.prems(3)]
  obtain hs where m: "case n of
      Physical p \<Rightarrow> m = physical_body R p @ hs
    | Composite c \<Rightarrow> (\<exists>l es ps. k = Suc l \<and> mapM (spec_entry l E R) (children c) = Inr es \<and> m = composite_body R c es ps @ hs)"
    by (rule spec_cases [OF Cons.prems(2,3)])
  show ?case
  proof (cases n)
    case (Physical q)
    then have m: "m = physical_body R q @ hs" using m by simp
    have q: "distinct (map group_id (groups q))" "node_id q \<noteq> []"
      using wfn Physical by (auto simp: wf_node_def is_identifier_def require_identifier_def)
    have r: "route (nodes R) i (s # segs) al p g \<longleftrightarrow> p = q \<and> segs = [] \<and> s = group_id g \<and> g \<in> set (groups q) \<and> \<not> al" for al p g
      using Cons.prems(3) Physical by (auto elim: route.cases intro: route_leaf)
    show ?thesis
    proof (cases segs)
      case Nil
      with manifest_group_physical [OF q] show ?thesis by (auto simp: m r [unfolded Nil])
    next
      case (Cons t ts)
      then show ?thesis by (simp add: m r [unfolded Cons] is_kind_def dget_or_def)
    qed
  next
    case (Composite c)
    then obtain l es ps where k: "k = Suc l" "mapM (spec_entry l E R) (children c) = Inr es" "m = composite_body R c es ps @ hs"
      using m by auto
    have d: "distinct (map child_role (children c))" using wfn Composite by (simp add: wf_node_def)
    have r: "(\<exists>al. route (nodes R) i (s # segs) al p g) \<longleftrightarrow>
        (\<exists>ch \<in> set (children c). child_role ch = s \<and> (\<exists>al. route (nodes R) (child_node ch) segs al p g))" for p g
      using Cons.prems(3) Composite by (auto elim!: route_ConsE intro: route_role)
    show ?thesis
    proof (cases segs)
      case Nil
      then show ?thesis using r by (simp add: k manifest_group_composite)
    next
      case (Cons t ts)
      note segs = this
      show ?thesis
      proof (cases "\<exists>ch \<in> set (children c). child_role ch = s")
        case True
        then obtain ch where ch: "ch \<in> set (children c)" "child_role ch = s" by blast
        then obtain h m' where m': "filter (called ''role'' s) es = [child_entry ch h m']" "manifest_spec l E R (child_node ch) = Inr m'"
          using child_of_role [OF d k(2) ch(1)] by metis
        then obtain n' where n': "map_of (nodes R) (child_node ch) = Some n'"
          by (cases l) (auto simp: manifest_spec_Suc simp del: manifest_spec.simps(2) split: option.splits)
        have "bind (walk_manifest m (butlast (s # segs))) (\<lambda>current. manifest_group current (last (s # segs))) =
            bind (walk_manifest m' (butlast segs)) (\<lambda>current. manifest_group current (last segs))"
          using segs m'(1) by (simp add: k(3) is_kind_def dget_or_def child_entry_def mkdict_def)
        also have "\<dots> = Inr r \<longleftrightarrow> (\<exists>al p g. route (nodes R) (child_node ch) segs al p g \<and> r = group_answer p g)"
          using Cons.IH m'(2) n' segs by blast
        also have "\<dots> \<longleftrightarrow> (\<exists>al p g. route (nodes R) i (s # segs) al p g \<and> r = group_answer p g)"
          using r ch d by (metis (no_types, lifting) child_iff sum.inject(2))
        finally show ?thesis .
      next
        case False
        then have "filter (called ''role'' s) es = []" using no_child_of_role [OF k(2)] by blast
        with False r segs show ?thesis by (auto simp: k(3) is_kind_def dget_or_def)
      qed
    qed
  qed
qed simp

section \<open>Compilation through views that answer alike\<close>

text \<open>Two computations succeed alike, with the same value; they may fail in different ways.\<close>

definition agrees :: "'a result \<Rightarrow> 'a result \<Rightarrow> bool" where
  "agrees r r' \<longleftrightarrow> (\<forall>x. r = Inr x \<longleftrightarrow> r' = Inr x)"

lemma agrees_refl [intro, simp]: "agrees r r"
  by (simp add: agrees_def)

lemma agrees_bind [intro]: "agrees r r' \<Longrightarrow> (\<And>x. agrees (f x) (f' x)) \<Longrightarrow> agrees (bind r f) (bind r' f')"
  by (auto simp: agrees_def)

lemma agrees_raise_if [intro]: "agrees r r' \<Longrightarrow> agrees (raise_if b e r) (raise_if b e r')"
  by (simp add: raise_if_def)

lemma agrees_foldM: "(\<And>u x. agrees (f u x) (f' u x)) \<Longrightarrow> agrees (foldM f s xs) (foldM f' s xs)"
  by (induction xs arbitrary: s) (auto intro!: agrees_bind)

text \<open>Two records of an axis that answer the compiler alike.\<close>

definition same_axis :: "pydict \<Rightarrow> pydict \<Rightarrow> bool" where
  "same_axis a b \<longleftrightarrow> (\<forall>k. dget_or a k PNone = dget_or b k PNone) \<and> (\<forall>k \<in> {''name'', ''kind'', ''unit''}. dindex a k = dindex b k)"

lemma same_axis_checks:
  assumes "same_axis a b"
  shows "check_axis_limits E (a, v) = check_axis_limits E (b, v)" "check_axis_rates E s (a, x) = check_axis_rates E s (b, x)"
    "axis_triple E a = axis_triple E b"
proof -
  have opt: "optional_of a k f = optional_of b k f" for k and f :: "pyval \<Rightarrow> pyfloat result"
    using assms by (simp add: optional_of_def same_axis_def)
  have err: "axis_error a [''name''] code = (axis_error b [''name''] code :: unit result)"
    "axis_error a [''name'', ''unit''] code = (axis_error b [''name'', ''unit''] code :: unit result)" for code
    using assms by (simp_all add: axis_error_def same_axis_def)
  have lim: "over_limit E a k u = over_limit E b k u" "under_limit E a k u = under_limit E b k u" for k u
    by (simp_all add: over_limit_def under_limit_def opt)
  show "check_axis_limits E (a, v) = check_axis_limits E (b, v)"
    unfolding check_axis_limits_def lim err prod.case ..
  show "check_axis_rates E s (a, x) = check_axis_rates E s (b, x)"
    unfolding check_axis_rates_def lim err prod.case ..
  show "axis_triple E a = axis_triple E b" using assms by (simp add: axis_triple_def same_axis_def)
qed

lemma forM_same_axes:
  assumes "list_all2 same_axis as bs" "\<And>a b x. same_axis a b \<Longrightarrow> f (a, x) = f (b, x)"
  shows "forM f (zip as xs) = forM f (zip bs xs)"
  using assms(1)
proof (induction arbitrary: xs rule: list_all2_induct)
  case (Cons a as b bs)
  then show ?case using assms(2) by (cases xs) auto
qed simp

lemma samples_same_axes:
  assumes "list_all2 same_axis as bs"
  shows "compile_dense_samples E raw as reference schema = compile_dense_samples E raw bs reference schema"
proof -
  have lims: "forM (check_axis_limits E) (zip as xs) = forM (check_axis_limits E) (zip bs xs)" for xs
    by (rule forM_same_axes [OF assms]) (rule same_axis_checks(1))
  have rates: "forM (check_axis_rates E s) (zip as xs) = forM (check_axis_rates E s) (zip bs xs)" for s xs
    by (rule forM_same_axes [OF assms]) (rule same_axis_checks(2))
  have "compile_sample E as reference schema prev r = compile_sample E bs reference schema prev r" for prev r
    unfolding compile_sample_def validate_segment_rates_def lims rates list_all2_lengthD [OF assms] ..
  then have "compile_sample E as reference schema = compile_sample E bs reference schema" by (intro ext)
  then have ss: "compile_samples E as reference schema prev rs = compile_samples E bs reference schema prev rs" for prev rs
    by (induction rs arbitrary: prev) simp_all
  show ?thesis unfolding compile_dense_samples_def ss ..
qed

lemma triples_same_axes: "list_all2 same_axis as bs \<Longrightarrow> mapM (axis_triple E) as = mapM (axis_triple E) bs"
  by (induction rule: list_all2_induct) (simp_all add: same_axis_checks(3))

text \<open>Two views give the compiler the same group for a path, or none.\<close>

definition same_resolution :: "resolution \<Rightarrow> resolution \<Rightarrow> bool" where
  "same_resolution x y \<longleftrightarrow> res_node x = res_node y \<and> res_group x = res_group y \<and> res_schemas x = res_schemas y \<and>
     list_all2 same_axis (res_axes x) (res_axes y)"

definition resolve_alike :: "registry_view \<Rightarrow> registry_view \<Rightarrow> string \<Rightarrow> bool" where
  "resolve_alike V W i \<longleftrightarrow> (\<forall>path.
     case (bind (rv_resolve_group V i path) normalize_resolution, bind (rv_resolve_group W i path) normalize_resolution) of
       (Inr x, Inr y) \<Rightarrow> same_resolution x y
     | (Inl e, Inl e') \<Rightarrow> True
     | _ \<Rightarrow> False)"

lemma agrees_resolution:
  assumes "resolve_alike V W i" "\<And>x y. same_resolution x y \<Longrightarrow> f x = f y"
  shows "agrees (bind (bind (rv_resolve_group V i path) normalize_resolution) f) (bind (bind (rv_resolve_group W i path) normalize_resolution) f)"
  using assms(1) [unfolded resolve_alike_def, rule_format, of path] assms(2)
  by (auto simp: agrees_def split: sum.splits)

lemma sequence_agrees:
  assumes "resolve_alike V W i"
  shows "agrees (compile_sequence E V i raw) (compile_sequence E W i raw)"
proof (cases raw)
  case (PDict d)
  show ?thesis unfolding PDict compile_sequence_def pyval.case
    apply (rule agrees_bind [OF agrees_refl], rule agrees_bind [OF agrees_refl], rule agrees_resolution [OF assms])
    subgoal premises same for u path x y
    proof -
      have axs: "list_all2 same_axis (res_axes x) (res_axes y)"
        and eq: "res_node x = res_node y" "res_group x = res_group y" "res_schemas x = res_schemas y"
        using same by (simp_all add: same_resolution_def)
      have nil: "res_axes x = [] \<longleftrightarrow> res_axes y = []" using list_all2_lengthD [OF axs] by (metis length_0_conv)
      show ?thesis unfolding eq nil samples_same_axes [OF axs] triples_same_axes [OF axs] ..
    qed
    done
qed (simp_all add: compile_sequence_def)

lemma phase_agrees:
  assumes "resolve_alike V W i"
  shows "agrees (compile_phase E V i raw) (compile_phase E W i raw)"
proof (cases raw)
  case (PDict d)
  have "agrees (add_sequence E V i acc x) (add_sequence E W i acc x)" for acc x
    unfolding add_sequence_def by (cases acc) (auto intro: sequence_agrees [OF assms])
  then show ?thesis unfolding PDict compile_phase_def pyval.case Let_def
    by (intro agrees_bind agrees_refl agrees_raise_if)
       (auto split: pyval.split intro!: agrees_bind agrees_raise_if agrees_foldM)
qed (simp_all add: compile_phase_def)

lemma program_agrees:
  assumes "resolve_alike V W i" "dget template ''root_id'' = Some (PStr i)"
    and "rv_describe V i = rv_describe W i" "rv_manifest_hash V i = rv_manifest_hash W i" "rv_server_id V = rv_server_id W"
  shows "agrees (compile_program E V template) (compile_program E W template)"
proof -
  have root: "short_id (PStr i) = Inr i \<or> (\<exists>e. short_id (PStr i) = Inl e)" by (simp add: short_id_def raise_if_def)
  then have same: "compile_root E V template = compile_root E W template"
    using assms(2-4) by (auto simp: compile_root_def dindex_def)
  have at: "compile_root E V template = Inr x \<Longrightarrow> fst x = i" for x
    using assms(2) root by (auto simp: compile_root_def dindex_def case_dict_Inr)
  have add: "agrees (add_phase E V i ps raw) (add_phase E W i ps raw)" for ps raw
    unfolding add_phase_def by (auto intro: phase_agrees [OF assms(1)])
  show ?thesis
  proof (cases "compile_root E V template")
    case (Inr x)
    obtain h where x: "x = (i, h)" using at [OF Inr] by (cases x) simp
    show ?thesis unfolding compile_program_def same [symmetric] Inr x Let_def assms(5)
      by (auto split: pyval.split intro!: agrees_bind agrees_raise_if agrees_foldM add)
  qed (simp add: compile_program_def same [symmetric])
qed

section \<open>The manifest of a loaded registry\<close>

lemma manifest_fields:
  assumes "manifest_spec k E R i = Inr m" "map_of (nodes R) i = Some n"
  shows "dget m ''server_id'' = Some (PStr (server_id R))" "dget m ''node_id'' = Some (PStr (node_id (common n)))"
    "\<exists>v b. cbor_dumps E v = Inr b \<and> dget m ''manifest_hash'' = Some (PStr (hex (sha256 E b)))"
proof -
  obtain body b where m: "m = body @ [(PStr ''manifest_hash'', PStr (hex (sha256 E b)))]" "cbor_dumps E (PDict body) = Inr b"
    "(\<exists>p. n = Physical p \<and> body = physical_body R p) \<or> (\<exists>c es ps. n = Composite c \<and> body = composite_body R c es ps)"
    using assms by (cases k) (auto simp: manifest_spec_Suc canonical_cbor_sha256_def simp del: manifest_spec.simps(2) split: control_node.splits)
  show "dget m ''server_id'' = Some (PStr (server_id R))" "dget m ''node_id'' = Some (PStr (node_id (common n)))"
    using m(1,3) by (auto simp: physical_body_def composite_body_def common_manifest_def mkdict_def Let_def)
  have "dget m ''manifest_hash'' = Some (PStr (hex (sha256 E b)))"
    using m(1,3) by (auto simp: physical_body_def composite_body_def common_manifest_def mkdict_def Let_def)
  with m(2) show "\<exists>v b. cbor_dumps E v = Inr b \<and> dget m ''manifest_hash'' = Some (PStr (hex (sha256 E b)))" by blast
qed

definition remote_axis :: "axis_spec \<Rightarrow> pydict" where
  "remote_axis a = the_dict (axis_public_dict a) @ [(PStr ''name'', PStr (axis_id a)), (PStr ''lower'', PFloat (minimum a)),
     (PStr ''upper'', PFloat (maximum a))]"

lemma normalize_axis_public: "normalize_axis (plain (axis_public_dict a)) = Inr (remote_axis a)"
  by (cases "max_velocity a") (simp_all add: normalize_axis_def axis_public_dict_def mkdict_def remote_axis_def rename_field_def)

lemma remote_axis_same: "same_axis (remote_axis a) (compiler_axis a)"
proof -
  have "dget_or (remote_axis a) k PNone = dget_or (compiler_axis a) k PNone" for k
    by (cases "max_velocity a")
       (auto simp: dget_or_def remote_axis_def axis_public_dict_def compiler_axis_def axis_asdict_def mkdict_def)
  moreover have "dindex (remote_axis a) k = dindex (compiler_axis a) k" if "k \<in> {''name'', ''kind'', ''unit''}" for k
    using that by (cases "max_velocity a")
      (auto simp: dindex_def remote_axis_def axis_public_dict_def compiler_axis_def axis_asdict_def mkdict_def)
  ultimately show ?thesis by (simp add: same_axis_def)
qed

lemma normalize_group_answer:
  "normalize_resolution (group_answer p g) = Inr \<lparr>res_node = node_id p, res_group = group_id g,
     res_schemas = PList (map PStr (command_schemas g)), res_axes = map remote_axis (axes g)\<rparr>"
proof -
  have idem: "plain (plain v) = plain v" for v by (induction v) (auto simp: comp_def)
  have "mapM normalize_axis (map (plain \<circ> (plain \<circ> axis_public_dict)) as) = Inr (map remote_axis as)" for as
    by (induction as) (auto simp: normalize_axis_public idem)
  then show ?thesis
    by (simp add: normalize_resolution_def group_answer_def group_public_dict_def mkdict_def dget_or_def py_iter_def str_list_def comp_assoc)
qed

lemma remote_resolution:
  assumes wf: "wf_table (nodes R)" and m: "manifest_spec k E R i = Inr m" "map_of (nodes R) i = Some n"
    and V: "mv_manifest V = m" "mv_root_id V = i"
  shows "mv_resolve_group V i path = Inr r \<longleftrightarrow> (\<exists>al p g. route (nodes R) i (py_split (CHR ''.'') path) al p g \<and> r = group_answer p g)"
proof (cases "\<exists>s \<in> set (py_split (CHR ''.'') path). s = []")
  case True
  moreover have "\<not> is_identifier []" by (simp add: is_identifier_def require_identifier_def)
  ultimately show ?thesis using route_identifiers [OF wf] by (auto simp: mv_resolve_group_def mv_describe_def V Let_def)
next
  case False
  have "py_split (CHR ''.'') path \<noteq> []" by (cases path) (auto split: list.split)
  from manifest_routes [OF wf this m] False show ?thesis by (simp add: mv_resolve_group_def mv_describe_def V Let_def)
qed

lemma remote_resolves_alike:
  assumes wf: "wf_table (nodes R)" and m: "manifest_spec k E R i = Inr m" "map_of (nodes R) i = Some n"
    and V: "mv_manifest V = m" "mv_root_id V = i"
  shows "resolve_alike (remote_view V) (view E R) i"
  unfolding resolve_alike_def
proof
  fix path
  let ?split = "py_split (CHR ''.'') path"
  have remote: "rv_resolve_group (remote_view V) i path = mv_resolve_group V i path"
    and local: "rv_resolve_group (view E R) i path = bind (resolve_group R i path) (\<lambda>g. Inr (resolved_asdict g))"
    by (simp_all add: remote_view_def view_def)
  show "case (bind (rv_resolve_group (remote_view V) i path) normalize_resolution, bind (rv_resolve_group (view E R) i path) normalize_resolution) of
       (Inr x, Inr y) \<Rightarrow> same_resolution x y | (Inl e, Inl e') \<Rightarrow> True | _ \<Rightarrow> False"
  proof (cases "\<exists>al p g. route (nodes R) i ?split al p g")
    case True
    then obtain al p g where r: "route (nodes R) i ?split al p g" by blast
    then have "mv_resolve_group V i path = Inr (group_answer p g)" using remote_resolution [OF wf m V] by blast
    moreover have "resolve_group R i path = Inr \<lparr>root_node_id = i, role_path = path, physical_node_id = node_id p,
        resolved_group_id = group_id g, resolved_spec = g\<rparr>"
      using r py_join_split [of "CHR ''.''" path] unfolding resolve_group_routes [OF wf] by metis
    ultimately show ?thesis
      by (simp add: remote local normalize_group_answer normalize_resolved same_resolution_def list.rel_map remote_axis_same list_all2_same)
  next
    case False
    then have "mv_resolve_group V i path \<noteq> Inr r" for r using remote_resolution [OF wf m V] by blast
    moreover have "resolve_group R i path \<noteq> Inr rg" for rg
    proof
      assume "resolve_group R i path = Inr rg"
      then obtain segs al p g where s: "route (nodes R) i segs al p g" "path = py_join (CHR ''.'') segs"
        unfolding resolve_group_routes [OF wf] by blast
      have "s \<noteq> [] \<and> CHR ''.'' \<notin> set s" if "s \<in> set segs" for s
        using route_identifiers [OF wf s(1)] identifier_no_dot that by blast
      then have "?split = segs" unfolding s(2) by (intro py_split_join) (use route_segments [OF s(1)] in auto)
      with False s(1) show False by blast
    qed
    ultimately obtain e e' where "mv_resolve_group V i path = Inl e" "resolve_group R i path = Inl e'"
      by (metis sum.exhaust)
    then show ?thesis by (simp add: remote local)
  qed
qed

section \<open>Two providers of one interface\<close>

text \<open>
  \<^verbatim>\<open>RegistryView\<close> has two implementations. Whenever a concrete view answers for one root like an
  abstract one, the compiler makes the same programs of both.
\<close>

locale view_refinement =
  fixes accepted :: "'r \<Rightarrow> bool" and concrete :: "'r \<Rightarrow> registry_view" and abstract :: "'r \<Rightarrow> registry_view" and root_of :: "'r \<Rightarrow> string"
  assumes resolves: "accepted r \<Longrightarrow> resolve_alike (concrete r) (abstract r) (root_of r)"
    and describes: "accepted r \<Longrightarrow> rv_describe (concrete r) (root_of r) = rv_describe (abstract r) (root_of r)"
    and hashes: "accepted r \<Longrightarrow> rv_manifest_hash (concrete r) (root_of r) = rv_manifest_hash (abstract r) (root_of r)"
    and servers: "accepted r \<Longrightarrow> rv_server_id (concrete r) = rv_server_id (abstract r)"
begin

lemma compiles_alike:
  "accepted r \<Longrightarrow> dget template ''root_id'' = Some (PStr (root_of r)) \<Longrightarrow>
     compile_program E (concrete r) template = Inr p \<longleftrightarrow> compile_program E (abstract r) template = Inr p"
  using program_agrees [OF resolves _ describes hashes servers, of r template E] by (simp add: agrees_def)

end

text \<open>The view made of the manifest of a loaded registry.\<close>

fun view_of_manifest :: "pyenv \<times> registry \<times> string \<times> manifest_view \<Rightarrow> bool" where
  "view_of_manifest (E, R, i, V) \<longleftrightarrow> loaded_ok E R \<and> i \<in> fst ` set (nodes R) \<and>
     (\<exists>m. manifest_of E R i = Inr m \<and> RemoteManifestView m = Inr V)"

lemma view_of_manifest_fields:
  assumes "view_of_manifest (E, R, i, V)"
  obtains m n where "wf_table (nodes R)" "map_of (nodes R) i = Some n" "manifest_of E R i = Inr m"
    "manifest_spec (depth_limit (nodes R)) E R i = Inr m" "mv_manifest V = m" "mv_root_id V = i" "mv_server_id V = server_id R"
    "dget m ''manifest_hash'' = Some (PStr (mv_hash V))"
proof -
  obtain m where m: "manifest_of E R i = Inr m" "RemoteManifestView m = Inr V" and l: "loaded_ok E R" "i \<in> fst ` set (nodes R)"
    using assms by auto
  have wf: "wf_table (nodes R)" using l(1) by (simp add: loaded_ok_def)
  obtain n where n: "map_of (nodes R) i = Some n" using l(2) by (metis map_of_eq_None_iff option.exhaust)
  have spec: "manifest_spec (depth_limit (nodes R)) E R i = Inr m" using manifest_of_spec [OF l] m(1) by metis
  have "dget m ''server_id'' = Some (PStr (server_id R))" "dget m ''node_id'' = Some (PStr i)"
    using manifest_fields(1,2) [OF spec n] wf_tableD [OF wf n] by simp_all
  with m(2) have "mv_manifest V = m" "mv_root_id V = i" "mv_server_id V = server_id R" "dget_or m ''manifest_hash'' PNone = PStr (mv_hash V)"
    by (auto simp: RemoteManifestView_def required_string_def dget_or_def split: option.splits pyval.splits)
  with wf n m(1) spec show thesis by (intro that) (auto simp: dget_or_def split: option.splits)
qed

lemma view_of_manifest_laws:
  assumes "view_of_manifest (E, R, i, V)"
  shows "resolve_alike (remote_view V) (view E R) i" "rv_describe (remote_view V) i = rv_describe (view E R) i"
    "rv_manifest_hash (remote_view V) i = rv_manifest_hash (view E R) i" "rv_server_id (remote_view V) = rv_server_id (view E R)"
proof -
  obtain m n where f: "wf_table (nodes R)" "map_of (nodes R) i = Some n" "manifest_of E R i = Inr m"
    "manifest_spec (depth_limit (nodes R)) E R i = Inr m" "mv_manifest V = m" "mv_root_id V = i" "mv_server_id V = server_id R"
    "dget m ''manifest_hash'' = Some (PStr (mv_hash V))" by (rule view_of_manifest_fields [OF assms])
  show "resolve_alike (remote_view V) (view E R) i" by (rule remote_resolves_alike [OF f(1,4,2,5,6)])
  show "rv_describe (remote_view V) i = rv_describe (view E R) i"
    "rv_manifest_hash (remote_view V) i = rv_manifest_hash (view E R) i" "rv_server_id (remote_view V) = rv_server_id (view E R)"
    using f(3,5-8) by (simp_all add: remote_view_def view_def mv_describe_def mv_manifest_hash_def manifest_hash_def dindex_def py_str_def)
qed

interpretation manifests: view_refinement view_of_manifest "\<lambda>(E, R, i, V). remote_view V" "\<lambda>(E, R, i, V). view E R" "\<lambda>(E, R, i, V). i"
  by unfold_locales (auto simp del: view_of_manifest.simps simp: view_of_manifest_laws)

section \<open>Discovering and compiling\<close>

lemma compiled_root:
  assumes "compile_program E (remote_view V) t = Inr p"
  shows "dget t ''root_id'' = Some (PStr (mv_root_id V))"
proof -
  obtain i h where "compile_root E (remote_view V) t = Inr (i, h)" using assms by (auto simp: compile_program_def)
  then obtain v where "dindex t ''root_id'' = Inr v" "short_id v = Inr (mv_root_id V)"
    by (auto simp: compile_root_def case_dict_Inr remote_view_def mv_describe_def)
  then show ?thesis by (auto simp: dindex_def short_id_def split: option.splits pyval.splits)
qed

lemma identity_robots:
  assumes l: "loaded_ok E R" and ident: "map_of (identities R) who = Some ident"
  obtains ms where "list_robots E R who = Inr ms"
    "mapM (robot_name E) (map PDict ms) = Inr (filter (\<lambda>i. exposed R i \<and> can_discover ident i) (node_ids R))"
proof -
  have wf: "wf_table (nodes R)" using l by (simp add: loaded_ok_def)
  have "\<exists>ms. mapM (manifest_of E R) ids = Inr ms \<and> mapM (robot_name E) (map PDict ms) = Inr ids" if "set ids \<subseteq> fst ` set (nodes R)" for ids
    using that
  proof (induction ids)
    case (Cons i ids)
    then have i: "i \<in> fst ` set (nodes R)" by simp
    then obtain n where n: "map_of (nodes R) i = Some n" by (metis map_of_eq_None_iff option.exhaust)
    obtain m where m: "manifest_of E R i = Inr m" "manifest_spec (depth_limit (nodes R)) E R i = Inr m"
      using manifest_of_spec [OF l i] by metis
    have "robot_name E (PDict m) = Inr i"
      using manifest_fields(2) [OF m(2) n] wf_tableD [OF wf n] by (simp add: robot_name_def dget_or_def py_str_def)
    with Cons m(1) show ?case by auto
  qed simp
  moreover have "set (filter (\<lambda>i. exposed R i \<and> can_discover ident i) (node_ids R)) \<subseteq> fst ` set (nodes R)"
    by (auto simp: node_ids_def)
  ultimately obtain ms where "mapM (manifest_of E R) (filter (\<lambda>i. exposed R i \<and> can_discover ident i) (node_ids R)) = Inr ms"
    "mapM (robot_name E) (map PDict ms) = Inr (filter (\<lambda>i. exposed R i \<and> can_discover ident i) (node_ids R))" by meson
  then show ?thesis
    by (intro that [of ms]) (simp_all add: list_robots_def identity_named_def ident describe_def exposed_def [symmetric])
qed

text \<open>
  C6. Compiling remotely is compiling on the server. Let a client connect as an identity, discover a
  root and compile a template against the manifest it gets. It writes a program exactly if its
  token is long enough, the identity may discover the root, the root is exposed, the template is
  one for this root, and the compiler of the server, working on its registry, makes this same
  program of the template.
\<close>

theorem remote_compilation_exact:
  assumes "load (nv_env N) dir = Inr R"
    and "\<forall>v b. cbor_dumps (nv_env N) v = Inr b \<longrightarrow> sha256 (nv_env N) b \<noteq> []"
    and "\<forall>method params res. request method params = Inr res \<longleftrightarrow> dispatch_method N R who method params = Inr res"
  shows "discover_and_compile (nv_env N) token i request template = Inr p \<longleftrightarrow> 32 \<le> length token \<and>
    (\<exists>ident. map_of (identities R) who = Some ident \<and> can_discover ident i) \<and> exposed R i \<and>
    (\<exists>t. template = Inr t \<and> dget t ''root_id'' = Some (PStr i) \<and> compile_program (nv_env N) (view (nv_env N) R) t = Inr p)"
proof (cases "map_of (identities R) who")
  case None
  then have "dispatch_method N R who ''list_robots'' [] = Inr res \<Longrightarrow> False" for res
    by (auto simp: dispatch_method_def list_robots_def identity_named_def)
  then show ?thesis using assms(3) None by (auto simp: discover_and_compile_def list_robots_call_def)
next
  case (Some ident)
  let ?E = "nv_env N"
  have l: "loaded_ok ?E R" by (rule load_Inr [OF assms(1)])
  then have wf: "wf_table (nodes R)" by (simp add: loaded_ok_def)
  obtain ms where ms: "list_robots ?E R who = Inr ms"
    "mapM (robot_name ?E) (map PDict ms) = Inr (filter (\<lambda>i. exposed R i \<and> can_discover ident i) (node_ids R))"
    by (rule identity_robots [OF l Some])
  have "request ''list_robots'' [] = Inr (the_dict (mkdict [(''robots'', PList (map PDict ms))]))"
    unfolding assms(3) [rule_format] using ms(1) by (simp add: dispatch_method_def exact_def exact_keys_def PyVal.keys_def)
  then have list: "list_robots_call request = Inr (map PDict ms)"
    by (simp add: list_robots_call_def mkdict_def dindex_def py_iter_def)
  have info: "server_info_call request = Inr (server_info R)"
    unfolding server_info_call_def assms(3) [rule_format] by (simp add: dispatch_method_def exact_def exact_keys_def PyVal.keys_def)
  show ?thesis
  proof (cases "exposed R i \<and> can_discover ident i")
    case False
    then show ?thesis using Some by (auto simp: discover_and_compile_def info list ms(2))
  next
    case True
    then have i: "i \<in> fst ` set (nodes R)" "i \<in> set (node_ids R)" using exposed_node by (auto simp: node_ids_def)
    obtain n where n: "map_of (nodes R) i = Some n" using i(1) by (metis map_of_eq_None_iff option.exhaust)
    obtain m where m: "manifest_of ?E R i = Inr m" "manifest_spec (depth_limit (nodes R)) ?E R i = Inr m"
      using manifest_of_spec [OF l i(1)] by metis
    have "request ''describe_robot'' [(PStr ''node_id'', PStr i)] = Inr (the_dict (mkdict [(''manifest'', PDict m)]))"
      unfolding assms(3) [rule_format] using True Some m(1)
      by (simp add: dispatch_method_def exact_def exact_keys_def PyVal.keys_def dget_or_def describe_def identity_named_def catch_def)
    then have describe: "describe_robot_call request i = Inr m"
      by (simp add: describe_robot_call_def mkdict_def dindex_def py_dict_def)
    obtain v b where h: "dget m ''manifest_hash'' = Some (PStr (hex (sha256 ?E b)))" "cbor_dumps ?E v = Inr b"
      using manifest_fields(3) [OF m(2) n] by blast
    define V where "V = \<lparr>mv_manifest = m, mv_server_id = server_id R, mv_root_id = i, mv_hash = hex (sha256 ?E b)\<rparr>"
    have "server_id R \<noteq> []" using l by (auto simp: loaded_ok_def validate_def)
    moreover have "i \<noteq> []" using wf_tableD [OF wf n] by (auto simp: wf_node_def is_identifier_def require_identifier_def)
    moreover have "hex (sha256 ?E b) \<noteq> []" using assms(2) h(2) by (cases "sha256 ?E b") auto
    ultimately have V: "RemoteManifestView m = Inr V"
      using manifest_fields(1,2) [OF m(2) n] h(1) wf_tableD [OF wf n]
      by (simp add: RemoteManifestView_def required_string_def dget_or_def V_def)
    have "view_of_manifest (?E, R, i, V)" using l i(1) m(1) V by simp
    then have "compile_program ?E (remote_view V) t = Inr p \<longleftrightarrow>
        dget t ''root_id'' = Some (PStr i) \<and> compile_program ?E (view ?E R) t = Inr p" for t
      using manifests.compiles_alike [of "(?E, R, i, V)" t ?E p] compiled_root [of ?E V t p] by (auto simp: V_def)
    then show ?thesis using True Some i(2)
      by (auto simp: discover_and_compile_def info list ms(2) describe V not_less)
  qed
qed

section \<open>An instance\<close>

definition demo_operator :: toml_file where
  "demo_operator = Document (the_dict (mkdict [(''identity'', mkdict
     [(''id'', PStr ''operator''), (''credential_env'', PStr ''TOKEN''), (''discover'', PList [PStr ''*'']), (''observe'', PList []),
      (''control'', PList [PStr ''arm.joints'']), (''emergency_stop'', PList [PStr ''arm''])])]))"

definition demo_shared_files :: registry_dir where
  "demo_shared_files = demo_files\<lparr>identity_files := IdentityFiles [demo_operator]\<rparr>"

definition demo_shared_lab :: registry where
  "demo_shared_lab = (case load demo_coder demo_shared_files of Inr R \<Rightarrow> R | Inl e \<Rightarrow> demo_lab)"

lemma demo_shared_loaded: "load demo_coder demo_shared_files = Inr demo_shared_lab"
proof -
  have "isl (load demo_coder demo_shared_files) = False" by code_simp
  then show ?thesis by (cases "load demo_coder demo_shared_files") (simp_all add: demo_shared_lab_def)
qed

theorem remote_compilation_exact_witness:
  "discover_and_compile demo_coder (replicate 32 CHR ''t'') ''arm''
     (dispatch_method (demo_management\<lparr>nv_env := demo_coder\<rparr>) demo_shared_lab ''operator'') (Inr demo_template) = Inr demo_program"
proof -
  let ?N = "demo_management\<lparr>nv_env := demo_coder\<rparr>"
  have "compile_program demo_coder (view demo_coder demo_shared_lab) demo_template = Inr demo_program"
    "exposed demo_shared_lab ''arm''" "dget demo_template ''root_id'' = Some (PStr ''arm'')"
    "(case map_of (identities demo_shared_lab) ''operator'' of Some ident \<Rightarrow> can_discover ident ''arm'' | None \<Rightarrow> False)"
    by code_simp+
  moreover have "\<forall>v b. cbor_dumps demo_coder v = Inr b \<longrightarrow> sha256 demo_coder b \<noteq> []" by (auto simp: demo_coder_def)
  ultimately show ?thesis
    using remote_compilation_exact [of ?N demo_shared_files demo_shared_lab
        "dispatch_method ?N demo_shared_lab ''operator''" "''operator''" "replicate 32 CHR ''t''" "''arm''" "Inr demo_template" demo_program]
      demo_shared_loaded by (auto split: option.splits)
qed

end
