(* ===== verification/Connection.thy ===== *)
theory Connection
  imports ServerControl "HOL-Library.Sublist"
begin

text \<open>
  One websocket connection of the v1 server from its greeting to its end, \<^verbatim>\<open>connection_handler\<close> of
  \<^verbatim>\<open>robot_server.py\<close>, and the whole server: the controller, its connections with their sender tasks, and
  the motor threads. The handler is cut at its awaits; the queue of each connection, the callbacks that
  the motor thread schedules for it, and what its sender has written are part of the state. It refines
  the relation \<open>server_step\<close>, which knows only the run of each connection.
\<close>

section \<open>The state of a connection\<close>

text \<open>What is put into the queue of a connection. \<open>Sentinel\<close> is the \<^verbatim>\<open>None\<close> that ends the sender.\<close>

datatype outgoing =
    AuthFailed
  | Welcome pydict "run_snapshot option"
  | Answer reply
  | Event run_event
  | Sentinel

text \<open>
  Where the handler is: waiting for the greeting, in the message loop, about to close the socket of a
  client it refused, or waiting for the sender task.
\<close>

datatype handler_pc = Hello | Serving | Refusing | Draining

record connection =
  cx_pc :: handler_pc
  cx_open :: bool
  cx_run :: "nat option"
  cx_soon :: "run_event list"
  cx_outgoing :: "outgoing list"
  cx_sender :: bool
  cx_sent :: "outgoing list"

definition new_connection :: connection where
  "new_connection = \<lparr>cx_pc = Hello, cx_open = True, cx_run = None, cx_soon = [], cx_outgoing = [], cx_sender = True, cx_sent = []\<rparr>"

definition put_outgoing :: "outgoing \<Rightarrow> connection \<Rightarrow> connection" where
  "put_outgoing item cn = cn\<lparr>cx_outgoing := cx_outgoing cn @ [item]\<rparr>"

section \<open>The handler\<close>

text \<open>The \<^verbatim>\<open>finally\<close> block up to the wait for the sender.\<close>

definition leave_handler :: "controller \<Rightarrow> connection \<Rightarrow> controller \<times> connection" where
  "leave_handler c cn = (close_connection c (cx_run cn), put_outgoing Sentinel (cn\<lparr>cx_pc := Draining\<rparr>))"

definition welcome_limits :: "safety_policy \<Rightarrow> pydict" where
  "welcome_limits p = the_dict (mkdict [
     (''joint_min_deg'', PList (map PFloat (joint_min_deg p))), (''joint_max_deg'', PList (map PFloat (joint_max_deg p))),
     (''max_velocity_deg_s'', PFloat (max_velocity_deg_s p)), (''max_acceleration_deg_s2'', PFloat (max_acceleration_deg_s2 p)),
     (''max_chunk_points'', PInt (max_chunk_points p)), (''max_horizon_us'', PInt (max_horizon_us p)),
     (''start_buffer_us'', PInt (start_buffer_us p))])"

definition greeted :: "pyenv \<Rightarrow> string \<Rightarrow> string \<Rightarrow> bool result" where
  "greeted E token raw = bind (decode_message E raw) (\<lambda>hello. authenticated E hello token)"

definition greet :: "pyenv \<Rightarrow> string \<Rightarrow> controller \<Rightarrow> connection \<Rightarrow> string \<Rightarrow> controller \<times> connection" where
  "greet E token c cn raw = (case greeted E token raw of
      Inl e \<Rightarrow> leave_handler c cn
    | Inr known \<Rightarrow>
        if known
        then (c, put_outgoing (Welcome (welcome_limits (ctl_policy c)) (controller_snapshot c)) (cn\<lparr>cx_pc := Serving\<rparr>))
        else (c, put_outgoing AuthFailed (cn\<lparr>cx_pc := Refusing\<rparr>)))"

definition serve_text :: "pyenv \<Rightarrow> controller \<Rightarrow> connection \<Rightarrow> string \<Rightarrow> pyfloat \<Rightarrow> controller \<times> connection" where
  "serve_text E c cn raw now = (case serve_message E c (cx_run cn) raw now of (rep, c', run') \<Rightarrow>
     (case rep of
        Inl e \<Rightarrow> leave_handler c' (cn\<lparr>cx_run := run'\<rparr>)
      | Inr x \<Rightarrow> (c', put_outgoing (Answer x) (cn\<lparr>cx_run := run'\<rparr>))))"

text \<open>
  The wait for the greeting ends by its time-out or by the end of the socket, the message loop by the
  end of the socket; a refused client's socket is closed.
\<close>

definition stop_waiting :: "controller \<Rightarrow> connection \<Rightarrow> controller \<times> connection" where
  "stop_waiting c cn = (case cx_pc cn of
      Hello \<Rightarrow> leave_handler c cn
    | Serving \<Rightarrow> if cx_open cn then (c, cn) else leave_handler c cn
    | Refusing \<Rightarrow> leave_handler c (cn\<lparr>cx_open := False\<rparr>)
    | Draining \<Rightarrow> (c, cn))"

text \<open>The sender task takes one item; a closed socket or the sentinel ends it.\<close>

definition sender_step :: "connection \<Rightarrow> connection" where
  "sender_step cn = (if \<not> cx_sender cn then cn else case cx_outgoing cn of
      [] \<Rightarrow> cn
    | item # rest \<Rightarrow>
        if item = Sentinel \<or> \<not> cx_open cn then cn\<lparr>cx_outgoing := rest, cx_sender := False\<rparr>
        else cn\<lparr>cx_outgoing := rest, cx_sent := cx_sent cn @ [item]\<rparr>)"

text \<open>A callback that \<^verbatim>\<open>emit_from_thread\<close> scheduled runs in the event loop.\<close>

definition run_callback :: "connection \<Rightarrow> connection" where
  "run_callback cn = (case cx_soon cn of
      [] \<Rightarrow> cn
    | ev # evs \<Rightarrow> put_outgoing (Event ev) (cn\<lparr>cx_soon := evs\<rparr>))"

datatype conn_event = Arrives string pyfloat | StopsWaiting | Drops | Sends | Delivers

fun conn_step :: "pyenv \<Rightarrow> string \<Rightarrow> controller \<Rightarrow> connection \<Rightarrow> conn_event \<Rightarrow> controller \<times> connection" where
  "conn_step E token c cn (Arrives raw now) = (case cx_pc cn of
      Hello \<Rightarrow> greet E token c cn raw
    | Serving \<Rightarrow> serve_text E c cn raw now
    | _ \<Rightarrow> (c, cn))"
| "conn_step E token c cn StopsWaiting = stop_waiting c cn"
| "conn_step E token c cn Drops = (c, cn\<lparr>cx_open := False\<rparr>)"
| "conn_step E token c cn Sends = (c, sender_step cn)"
| "conn_step E token c cn Delivers = (c, run_callback cn)"

section \<open>The server\<close>

text \<open>What the motor thread of run \<open>i\<close> emits is scheduled for the connection that opened the run.\<close>

definition schedule :: "nat \<Rightarrow> run_event list \<Rightarrow> connection \<Rightarrow> connection" where
  "schedule i evs cn = (if cx_run cn = Some i then cn\<lparr>cx_soon := cx_soon cn @ evs\<rparr> else cn)"

datatype server_event = Accept | On nat conn_event | MotorThread nat world

fun server_next :: "pyenv \<Rightarrow> string \<Rightarrow> controller \<times> connection list \<Rightarrow> server_event \<Rightarrow> controller \<times> connection list" where
  "server_next E token (c, cs) Accept = (c, cs @ [new_connection])"
| "server_next E token (c, cs) (On k ev) =
     (if k < length cs then (case conn_step E token c (cs ! k) ev of (c', cn) \<Rightarrow> (c', cs[k := cn])) else (c, cs))"
| "server_next E token (c, cs) (MotorThread i w) =
     (if i < length (runs c) then
        (let r = runs c ! i; r' = thread_step w r
         in (update_run c i r', map (schedule i (drop (length (emitted r)) (emitted r'))) cs))
      else (c, cs))"

definition serve_history :: "pyenv \<Rightarrow> string \<Rightarrow> controller \<Rightarrow> server_event list \<Rightarrow> controller \<times> connection list" where
  "serve_history E token c hist = foldl (server_next E token) (c, []) hist"

lemma serve_history_simps [simp]:
  "serve_history E token c [] = (c, [])"
  "serve_history E token c (hist @ [ev]) = server_next E token (serve_history E token c hist) ev"
  by (simp_all add: serve_history_def)

lemma put_outgoing_sel [simp]:
  "cx_pc (put_outgoing x cn) = cx_pc cn" "cx_open (put_outgoing x cn) = cx_open cn" "cx_run (put_outgoing x cn) = cx_run cn"
  "cx_soon (put_outgoing x cn) = cx_soon cn" "cx_outgoing (put_outgoing x cn) = cx_outgoing cn @ [x]"
  "cx_sender (put_outgoing x cn) = cx_sender cn" "cx_sent (put_outgoing x cn) = cx_sent cn"
  by (simp_all add: put_outgoing_def)

lemma schedule_sel [simp]:
  "cx_pc (schedule i evs cn) = cx_pc cn" "cx_open (schedule i evs cn) = cx_open cn" "cx_run (schedule i evs cn) = cx_run cn"
  "cx_outgoing (schedule i evs cn) = cx_outgoing cn" "cx_sender (schedule i evs cn) = cx_sender cn"
  "cx_sent (schedule i evs cn) = cx_sent cn"
  "cx_soon (schedule i evs cn) = (if cx_run cn = Some i then cx_soon cn @ evs else cx_soon cn)"
  by (simp_all add: schedule_def)

lemma sender_step_sel [simp]: "cx_pc (sender_step cn) = cx_pc cn" "cx_run (sender_step cn) = cx_run cn" "cx_soon (sender_step cn) = cx_soon cn"
  by (simp_all add: sender_step_def split: list.split)

lemma run_callback_sel [simp]:
  "cx_pc (run_callback cn) = cx_pc cn" "cx_run (run_callback cn) = cx_run cn" "cx_sender (run_callback cn) = cx_sender cn"
  "cx_sent (run_callback cn) = cx_sent cn"
  by (simp_all add: run_callback_def split: list.split)

section \<open>Refinement of the coarse server\<close>

definition coarse_run :: "connection \<Rightarrow> nat option" where
  "coarse_run cn = (if cx_pc cn = Draining then None else cx_run cn)"

lemma coarse_new [simp]: "coarse_run new_connection = None"
  by (simp add: coarse_run_def new_connection_def)

lemma coarse_schedule [simp]: "coarse_run (schedule i evs cn) = coarse_run cn"
  by (simp add: coarse_run_def)

lemma coarse_leave:
  assumes "server_reachable E c0 (c, conns)" "k < length conns" "leave_handler c cn = (c', cn')" "conns ! k = cx_run cn"
  shows "server_reachable E c0 (c', conns[k := coarse_run cn'])"
  using serve_step [OF assms(1) connection_closed [OF assms(2)]] assms(3,4) by (auto simp: leave_handler_def coarse_run_def)

lemma coarse_step:
  assumes "server_reachable E c0 (c, conns)" "k < length conns" "conns ! k = coarse_run cn" "conn_step E token c cn ev = (c', cn')"
  shows "server_reachable E c0 (c', conns[k := coarse_run cn'])"
proof -
  have stay: "conns[k := coarse_run cn] = conns" using assms(3) by (metis list_update_id)
  have same: "coarse_run x = coarse_run cn \<Longrightarrow> server_reachable E c0 (c, conns[k := coarse_run x])" for x using stay assms(1) by simp
  have keep: "cx_pc x = cx_pc cn \<Longrightarrow> cx_run x = cx_run cn \<Longrightarrow> server_reachable E c0 (c, conns[k := coarse_run x])" for x
    by (rule same) (simp add: coarse_run_def)
  have leave: "leave_handler c x = (c', cn') \<Longrightarrow> cx_pc cn \<noteq> Draining \<Longrightarrow> cx_run x = cx_run cn \<Longrightarrow> ?thesis" for x
    using coarse_leave [OF assms(1,2)] assms(3) by (simp add: coarse_run_def)
  show ?thesis
  proof (cases ev)
    case (Arrives raw now)
    show ?thesis
    proof (cases "cx_pc cn")
      case Hello
      then have l: "coarse_run cn = cx_run cn" by (simp add: coarse_run_def)
      have "greet E token c cn raw = (c', cn')" using assms(4) Hello Arrives by simp
      then consider "leave_handler c cn = (c', cn')" | "c' = c" "coarse_run cn' = coarse_run cn"
        using l unfolding greet_def by (auto simp: coarse_run_def split: sum.splits if_splits)
      then show ?thesis using leave Hello same by cases auto
    next
      case Serving
      obtain rep c1 run1 where s: "serve_message E c (cx_run cn) raw now = (rep, c1, run1)" by (metis prod.collapse)
      have "conns ! k = cx_run cn" using assms(3) Serving by (simp add: coarse_run_def)
      with s have r: "server_reachable E c0 (c1, conns[k := run1])"
        by (intro serve_step [OF assms(1) client_message [OF assms(2)]]) simp
      show ?thesis
      proof (cases rep)
        case (Inl e)
        then have "leave_handler c1 (cn\<lparr>cx_run := run1\<rparr>) = (c', cn')"
          using assms(4) Serving Arrives s by (simp add: serve_text_def)
        from coarse_leave [OF r _ this, of k] assms(2) show ?thesis by simp
      next
        case (Inr x)
        then show ?thesis using assms(4) Serving Arrives s r by (auto simp: serve_text_def coarse_run_def)
      qed
    qed (use assms(4) Arrives same in auto)
  next
    case StopsWaiting
    then show ?thesis using assms(4) leave [of cn] leave [of "cn\<lparr>cx_open := False\<rparr>"] same
      by (cases "cx_pc cn") (auto simp: stop_waiting_def split: if_splits)
  qed (use assms(4) keep [of "cn\<lparr>cx_open := False\<rparr>"] keep [of "sender_step cn"] keep [of "run_callback cn"] in auto)
qed

lemma history_refines:
  "server_reachable E c0 (fst (serve_history E token c0 hist), map coarse_run (snd (serve_history E token c0 hist)))"
proof (induction hist rule: rev_induct)
  case Nil
  then show ?case by (simp add: serve_init)
next
  case (snoc ev hist)
  obtain c cs where s: "serve_history E token c0 hist = (c, cs)" by fastforce
  with snoc have r: "server_reachable E c0 (c, map coarse_run cs)" by simp
  show ?case
  proof (cases ev)
    case Accept
    then show ?thesis using serve_step [OF r accept_connection] s by simp
  next
    case (On k e)
    then show ?thesis using coarse_step [OF r, of k "cs ! k" token e] s r by (auto simp: map_update split: prod.split)
  next
    case (MotorThread i w)
    then show ?thesis using serve_step [OF r motor_thread, of i w] s r MotorThread by (simp add: Let_def comp_def)
  qed
qed

section \<open>The events of a run\<close>

text \<open>What the events tell: nothing yet, motion, a fault with its code, or the end.\<close>

datatype story = Quiet | Moving | Failing string | Over

fun story_next :: "story \<Rightarrow> run_event \<Rightarrow> story option" where
  "story_next Quiet (EvRunState sn) = (if sn_state sn = Running then Some Moving else None)"
| "story_next Moving (EvTelemetry sn e g low) = Some Moving"
| "story_next Quiet (EvFault code) = Some (Failing code)"
| "story_next Moving (EvFault code) = Some (Failing code)"
| "story_next Moving (EvFinished sn outcome code) =
     (if (outcome, code) \<in> {(Completed, None), (Stopped, Some ''CANCELLED'')} \<and> sn_state sn = outcome then Some Over else None)"
| "story_next (Failing code) (EvFinished sn outcome code') =
     (if outcome = (if code = ''CANCELLED'' then Stopped else Faulted) \<and> code' = Some code \<and> sn_state sn = outcome then Some Over else None)"
| "story_next _ _ = None"

primrec story_run :: "story \<Rightarrow> run_event list \<Rightarrow> story option" where
  "story_run s [] = Some s"
| "story_run s (ev # evs) = (case story_next s ev of None \<Rightarrow> None | Some s' \<Rightarrow> story_run s' evs)"

lemma story_run_append: "story_run s (xs @ ys) = (case story_run s xs of None \<Rightarrow> None | Some s' \<Rightarrow> story_run s' ys)"
  by (induction xs arbitrary: s) (simp_all split: option.split)

definition closing_story :: "run_state \<Rightarrow> string option \<Rightarrow> story \<Rightarrow> bool" where
  "closing_story outcome code s \<longleftrightarrow> (s = Moving \<and> (outcome, code) \<in> {(Completed, None), (Stopped, Some ''CANCELLED'')}) \<or>
     (\<exists>k. s = Failing k \<and> code = Some k \<and> outcome = (if k = ''CANCELLED'' then Stopped else Faulted))"

fun story_at :: "thread_pc \<Rightarrow> story \<Rightarrow> bool" where
  "story_at TNone s = (s = Quiet)"
| "story_at TPrepare s = (s = Quiet)"
| "story_at (TEnable m) s = (s = Quiet)"
| "story_at TRun s = (s = Quiet)"
| "story_at TTop s = (s = Moving)"
| "story_at (TWatch now) s = (s = Moving)"
| "story_at (TMove now) s = (s = Moving)"
| "story_at (TRecord now cursor m q) s = (s = Moving)"
| "story_at (TClosing outcome code) s = closing_story outcome code s"
| "story_at (TFinish outcome code) s = closing_story outcome code s"
| "story_at TDone s = (s = Over)"

definition told :: "program_run \<Rightarrow> bool" where
  "told r \<longleftrightarrow> (\<exists>s. story_run Quiet (emitted r) = Some s \<and> story_at (pc (thread r)) s)"

text \<open>Every piece of the thread appends what it emits; all other operations emit nothing.\<close>

definition tells :: "program_run \<Rightarrow> program_run \<Rightarrow> bool" where
  "tells r r' \<longleftrightarrow> (\<exists>evs. emitted r' = emitted r @ evs \<and>
     (\<forall>s. story_at (pc (thread r)) s \<longrightarrow> (\<exists>s'. story_run s evs = Some s' \<and> story_at (pc (thread r')) s')))"

lemma emitted_sel [simp]:
  "emitted (emit v r) = emitted r @ [v]" "emitted (motor c r) = emitted r" "emitted (goto l r) = emitted r"
  "emitted (set_violations n r) = emitted r" "emitted (fail e r) = emitted r @ [EvFault (snd (outcome_of e))]"
  by (simp_all add: exec_prims fail_def split: prod.split)

lemma outcome_story: "closing_story (fst (outcome_of e)) (Some (snd (outcome_of e))) (Failing (snd (outcome_of e)))"
  by (cases e rule: outcome_of.cases) (auto simp: closing_story_def)

definition before_closing :: "thread_pc \<Rightarrow> bool" where
  "before_closing l \<longleftrightarrow> (\<forall>s. story_at l s = (s = Quiet)) \<or> (\<forall>s. story_at l s = (s = Moving))"

lemma tells_fail: "before_closing (pc (thread r)) \<Longrightarrow> emitted r' = emitted r \<Longrightarrow> tells r (fail e r')"
  using outcome_story [of e] by (auto simp: tells_def before_closing_def)

lemma tells_goto: "emitted r' = emitted r \<Longrightarrow> (\<And>s. story_at (pc (thread r)) s \<Longrightarrow> story_at l s) \<Longrightarrow> tells r (goto l r')"
  by (auto simp: tells_def)

lemma tells_nothing: "tells r r"
  by (auto simp: tells_def)

lemma tells_prepare: "pc (thread r) = TPrepare \<Longrightarrow> tells r (exec_prepare r a b)"
  by (auto simp: exec_prepare_def Let_def before_closing_def intro!: tells_fail tells_goto split: sum.split)

lemma tells_enable: "pc (thread r) = TEnable m \<Longrightarrow> tells r (exec_enable r m a)"
  by (auto simp: exec_enable_def Let_def before_closing_def intro!: tells_fail tells_goto split: sum.split)

lemma tells_top: "pc (thread r) = TTop \<Longrightarrow> tells r (exec_top r now)"
  by (auto simp: exec_top_def closing_story_def intro!: tells_goto)

lemma tells_watch: "pc (thread r) = TWatch t \<Longrightarrow> tells r (exec_watch r now)"
  by (auto simp: exec_watch_def Let_def before_closing_def intro!: tells_fail tells_goto)

lemma tells_run:
  assumes "pc (thread r) = TRun"
  shows "tells r (exec_run r now)"
proof -
  have "sn_state (snapshot (r\<lparr>state := Running\<rparr>)) = Running" by (simp add: snapshot_def)
  then show ?thesis using assms outcome_story
    by (auto simp: exec_run_def Let_def tells_def split: sum.split)
qed

lemma tells_move:
  assumes "pc (thread r) = TMove t"
  shows "tells r (exec_move r now a b)"
proof -
  have b: "before_closing (pc (thread r))" using assms by (simp add: before_closing_def)
  have "tells r (exec_target (r\<lparr>thread := th\<rparr>) now cursor target a b)" for th cursor target
    using b assms by (auto simp: exec_target_def Let_def intro!: tells_fail tells_goto split: sum.split prod.split)
  then show ?thesis using b assms
    by (auto simp: exec_move_def Let_def closing_story_def intro!: tells_fail tells_goto split: sum.split)
qed

lemma tells_record:
  assumes "pc (thread r) = TRecord now cursor m q"
  shows "tells r (exec_record r now cursor m q later)"
proof -
  define r1 where "r1 = r\<lparr>cursor_us := cursor, measured_q := Some m, target_q := Some q\<rparr>"
  have r1: "emitted r1 = emitted r" "pc (thread r1) = TRecord now cursor m q" using assms by (simp_all add: r1_def)
  have tel: "\<exists>evs. emitted (send_telemetry r1 now p cursor d) = emitted r @ evs \<and> story_run Moving evs = Some Moving" for p d
    using r1 by (auto simp: send_telemetry_def split: prod.split)
  have "tells r (pace (send_telemetry r1 now p cursor d) q later)" for p d q
  proof -
    obtain evs where e: "emitted (send_telemetry r1 now p cursor d) = emitted r @ evs" "story_run Moving evs = Some Moving"
      using tel by blast
    show ?thesis using e assms outcome_story [of "ProtocolError ''CONTROL_CYCLE_OVERRUN''"]
      by (auto simp: pace_def Let_def tells_def story_run_append)
  qed
  moreover have "tells r (fail e r1)" for e
    by (rule tells_fail) (use assms r1 in \<open>simp_all add: before_closing_def\<close>)
  ultimately show ?thesis by (auto simp: exec_record_def r1_def [symmetric] split: sum.split prod.split)
qed

lemma emitted_hold [simp]: "emitted (hold_then_close r a) = emitted r"
  by (simp add: hold_then_close_def Let_def split: sum.split)

lemma tells_close: "pc (thread r) = TClosing out code \<Longrightarrow> tells r (exec_close r out code a)"
  unfolding exec_close_def by (rule tells_goto) simp_all

lemma tells_finish:
  assumes "pc (thread r) = TFinish out code"
  shows "tells r (exec_finish r out code)"
proof -
  have "sn_state (snapshot (r\<lparr>state := out, terminal_event := True\<rparr>)) = out" by (simp add: snapshot_def)
  then show ?thesis using assms by (auto simp: exec_finish_def Let_def tells_def closing_story_def split: if_splits)
qed

lemma tells_thread: "tells r (thread_step w r)"
  unfolding thread_step.simps
  by (cases "pc (thread r)") (simp_all add: tells_prepare tells_enable tells_run tells_top tells_watch tells_move
      tells_record tells_close tells_finish tells_nothing)

lemma told_thread:
  assumes "told r"
  shows "told (thread_step w r)"
  using assms tells_thread [of r w] by (fastforce simp: told_def tells_def story_run_append)

lemma emitted_append_chunk [simp]: "emitted (snd (append_chunk E r seq ps final digest)) = emitted r"
  "pc (thread (snd (append_chunk E r seq ps final digest))) = pc (thread r)"
proof -
  obtain res r1 where a: "append_chunk E r seq ps final digest = (res, r1)" by fastforce
  show "emitted (snd (append_chunk E r seq ps final digest)) = emitted r"
    by (rule append_chunk_cases [OF a]) (auto simp: a)
  show "pc (thread (snd (append_chunk E r seq ps final digest))) = pc (thread r)"
    by (rule append_chunk_cases [OF a]) (auto simp: a)
qed

lemma emitted_requests [simp]:
  "emitted (snd (start r)) = emitted r" "emitted (heartbeat r now) = emitted r"
  "emitted (request_stop r) = emitted r" "emitted (connection_lost r) = emitted r"
  "emitted (snd (handle_chunk E m r)) = emitted r"
  by (simp_all add: start_def heartbeat_def request_stop_def connection_lost_def handle_chunk_def Let_def
      split: pyval.split sum.split prod.split)

lemma told_step:
  assumes "run_step E r r'" "phase_ok r" "told r"
  shows "told r'"
  using assms(1)
proof cases
  case step_start
  have "pc (thread r) = TNone" if "state r = Buffering"
    using assms(2) that by (cases "pc (thread r)") (auto simp: phase_ok_def TERMINAL_STATES_def)
  then have "pc (thread r') = pc (thread r) \<or> pc (thread r) = TNone \<and> pc (thread r') = TPrepare"
    using step_start by (auto simp: start_def Let_def)
  then show ?thesis using assms(3) step_start by (auto simp: told_def)
next
  case step_thread
  then show ?thesis using assms(3) told_thread by simp
qed (use assms(3) in \<open>auto simp: told_def heartbeat_def request_stop_def connection_lost_def\<close>)

lemma reachable_told:
  assumes "run_reachable E (ProgramRun rid h mode digest disconnect pol chz thz hb hold now) r"
  shows "told r"
  using assms
proof (induction rule: run_reachable.induct)
  case reach_here
  then show ?case by (simp add: told_def ProgramRun_def idle_thread_def)
next
  case (reach_step r1 r2)
  then show ?case using told_step reachable_phase_ok fresh_phase_ok by blast
qed

section \<open>What a connection is told\<close>

text \<open>
  Requests emit nothing. At most one request of a connection, its first \<^verbatim>\<open>open_run\<close> that is accepted,
  gives it a run, which is new.
\<close>

definition requested :: "controller \<Rightarrow> nat option \<Rightarrow> controller \<Rightarrow> nat option \<Rightarrow> bool" where
  "requested c run c' run' \<longleftrightarrow> (\<forall>i < length (runs c). emitted (runs c' ! i) = emitted (runs c ! i)) \<and>
     (length (runs c') = length (runs c) \<and> run' = run \<or>
      run = None \<and> run' = Some (length (runs c)) \<and> length (runs c') = Suc (length (runs c)) \<and> emitted (runs c' ! length (runs c)) = [])"

lemma requested_nothing: "requested c run c run"
  by (simp add: requested_def)

lemma requested_update: "emitted r = emitted (runs c ! i) \<Longrightarrow> requested c run (update_run c i r) run"
  by (cases "i < length (runs c)") (auto simp: requested_def update_run_def nth_list_update)

lemma requested_on_run:
  assumes "on_run c run f g = (res, c')" "\<And>r. emitted (snd (f r)) = emitted r"
  shows "requested c run c' run"
  using assms requested_update [of "snd (f (runs c ! the run))"] by (auto simp: on_run_def requested_nothing split: option.splits prod.splits)

lemma requested_open:
  assumes "open_run c rid h mode digest disconnect now = (res, c')"
  shows "case res of Inl e \<Rightarrow> c' = c | Inr i \<Rightarrow> requested c None c' (Some i)"
  using assms by (auto simp: open_run_def requested_def ProgramRun_def nth_append split: if_splits)

lemma requested_handle_open:
  assumes "handle_open E c m now = (res, c')"
  shows "case res of Inl e \<Rightarrow> c' = c | Inr i \<Rightarrow> requested c None c' (Some i)"
  using assms by (auto simp: handle_open_def dest!: requested_open split: pyval.splits sum.splits)

lemma requested_message:
  assumes "handle_message E c run m now = (res, c', run')"
  shows "requested c run c' run'"
proof -
  have cancel: "requested c rn c1 rn"
    if "on_run c rn (\<lambda>r. (Inr (Some (state r)), request_stop r)) StopAccepted = (rs, c1)" for rn rs c1
    by (rule requested_on_run [OF that]) simp
  show ?thesis using assms
    by (auto simp: handle_message_def Let_def emergency_stop_def requested_nothing
        intro: requested_on_run cancel requested_update
        dest!: requested_handle_open split: if_splits prod.splits sum.splits option.splits)
qed

lemma requested_serve: "serve_message E c run raw now = (rep, c', run') \<Longrightarrow> requested c run c' run'"
  using requested_message requested_nothing by (auto simp: serve_message_def split: prod.splits sum.splits)

lemma requested_close: "requested c run (close_connection c run) run"
  by (auto simp: close_connection_def requested_nothing intro: requested_update split: option.split)

fun told_event :: "outgoing \<Rightarrow> run_event option" where
  "told_event (Event ev) = Some ev"
| "told_event _ = None"

definition heard :: "outgoing list \<Rightarrow> run_event list" where
  "heard xs = List.map_filter told_event xs"

lemma heard_simps [simp]: "heard [] = []" "heard (x # xs) = (case told_event x of None \<Rightarrow> heard xs | Some ev \<Rightarrow> ev # heard xs)"
  "heard (xs @ ys) = heard xs @ heard ys"
  by (simp_all add: heard_def map_filter_def split: option.split)

text \<open>The emitted events of the run of a connection.\<close>

definition own_events :: "controller \<Rightarrow> nat option \<Rightarrow> run_event list" where
  "own_events c run = (case run of None \<Rightarrow> [] | Some i \<Rightarrow> emitted (runs c ! i))"

text \<open>What has been sent begins with the answer to the greeting, which comes once.\<close>

definition greeting_first :: "outgoing list \<Rightarrow> bool" where
  "greeting_first xs \<longleftrightarrow> xs = [] \<or> xs = [AuthFailed] \<or>
     (\<exists>l st rest. xs = Welcome l st # rest \<and> (\<forall>x \<in> set rest. x \<in> range Answer \<union> range Event))"

fun is_welcome :: "outgoing list \<Rightarrow> bool" where
  "is_welcome (Welcome l st # rest) = True"
| "is_welcome _ = False"

text \<open>The state of a connection, as far as what it says is concerned.\<close>

fun speaks_at :: "handler_pc \<Rightarrow> connection \<Rightarrow> bool" where
  "speaks_at Hello cn = (cx_sent cn = [] \<and> cx_outgoing cn = [] \<and> cx_run cn = None)"
| "speaks_at Refusing cn = (cx_sent cn @ cx_outgoing cn = [AuthFailed] \<and> cx_run cn = None)"
| "speaks_at Serving cn = (Sentinel \<notin> set (cx_outgoing cn) \<and> is_welcome (cx_sent cn @ cx_outgoing cn))"
| "speaks_at Draining cn = (Sentinel \<in> set (cx_outgoing cn))"

definition speaks :: "controller \<Rightarrow> connection \<Rightarrow> bool" where
  "speaks c cn \<longleftrightarrow> (case cx_run cn of None \<Rightarrow> True | Some i \<Rightarrow> i < length (runs c)) \<and>
     (if cx_sender cn then heard (cx_sent cn @ cx_outgoing cn) @ cx_soon cn = own_events c (cx_run cn) \<and>
        greeting_first (cx_sent cn @ takeWhile (\<lambda>x. x \<noteq> Sentinel) (cx_outgoing cn)) \<and> speaks_at (cx_pc cn) cn
      else prefix (heard (cx_sent cn)) (own_events c (cx_run cn)) \<and> greeting_first (cx_sent cn))"

lemma greeting_first_prefix: "greeting_first (xs @ ys) \<Longrightarrow> greeting_first xs"
  by (cases xs) (auto simp: greeting_first_def)

lemma is_welcome_append: "is_welcome xs \<Longrightarrow> is_welcome (xs @ ys)"
  by (cases xs rule: is_welcome.cases) simp_all

lemma greeting_first_more: "greeting_first xs \<Longrightarrow> is_welcome xs \<Longrightarrow> x \<in> range Answer \<union> range Event \<Longrightarrow> greeting_first (xs @ [x])"
  by (cases xs rule: is_welcome.cases) (auto simp: greeting_first_def)

lemma speaks_open [simp]: "speaks c (cn\<lparr>cx_open := b\<rparr>) = speaks c cn"
  by (cases "cx_pc cn") (simp_all add: speaks_def)

lemma takeWhile_all [simp]: "x \<notin> set xs \<Longrightarrow> takeWhile (\<lambda>y. y \<noteq> x) xs = xs"
  by (simp add: takeWhile_eq_all_conv) blast

lemma takeWhile_stop: "takeWhile (\<lambda>y. y \<noteq> x) (xs @ [x]) = takeWhile (\<lambda>y. y \<noteq> x) xs"
  by (induction xs) simp_all

lemma speaks_requested:
  assumes "speaks c cn" "requested c run c' run'"
  shows "speaks c' cn"
proof -
  have "own_events c' (cx_run cn) = own_events c (cx_run cn)" "case cx_run cn of None \<Rightarrow> True | Some i \<Rightarrow> i < length (runs c')"
    using assms by (auto simp: speaks_def requested_def own_events_def split: option.splits)
  then show ?thesis using assms(1) by (auto simp: speaks_def)
qed

lemma speaks_leave:
  assumes "speaks c cn" "leave_handler c cn = (c', cn')" "cx_pc cn \<noteq> Draining"
  shows "speaks c' cn'"
proof -
  have "speaks c' cn" using speaks_requested [OF assms(1) requested_close [of c "cx_run cn"]] assms(2) by (simp add: leave_handler_def)
  moreover have cn': "cn' = put_outgoing Sentinel (cn\<lparr>cx_pc := Draining\<rparr>)" using assms(2) by (simp add: leave_handler_def)
  moreover have "takeWhile (\<lambda>x. x \<noteq> Sentinel) (cx_outgoing cn @ [Sentinel]) = takeWhile (\<lambda>x. x \<noteq> Sentinel) (cx_outgoing cn)"
    by (rule takeWhile_stop)
  ultimately show ?thesis by (auto simp: speaks_def split: if_splits)
qed

lemma speaks_put:
  assumes "speaks c cn" "cx_pc cn = Serving" "x \<in> range Answer"
  shows "speaks c (put_outgoing x cn)"
  using assms greeting_first_more [of "cx_sent cn @ cx_outgoing cn" x] is_welcome_append [of "cx_sent cn @ cx_outgoing cn" "[x]"]
  by (auto simp: speaks_def)

lemma speaks_callback:
  assumes "speaks c cn"
  shows "speaks c (run_callback cn)"
proof (cases "cx_soon cn")
  case (Cons ev evs)
  have "cx_run cn \<noteq> None" if "cx_sender cn" using assms that Cons by (cases "cx_run cn"; auto simp: speaks_def own_events_def)
  then show ?thesis using assms Cons greeting_first_more [of "cx_sent cn @ cx_outgoing cn" "Event ev"] is_welcome_append [of "cx_sent cn @ cx_outgoing cn" "[Event ev]"]
    by (cases "cx_pc cn") (auto simp: speaks_def run_callback_def put_outgoing_def takeWhile_append)
qed (use assms in \<open>simp add: run_callback_def\<close>)

lemma speaks_sender:
  assumes "speaks c cn"
  shows "speaks c (sender_step cn)"
proof (cases "cx_outgoing cn")
  case (Cons item rest)
  show ?thesis
  proof (cases "cx_sender cn")
    case True
    with assms have "greeting_first (cx_sent cn)" "prefix (heard (cx_sent cn)) (own_events c (cx_run cn))"
      using greeting_first_prefix by (auto simp: speaks_def intro: prefixI dest!: sym [of _ "own_events c (cx_run cn)"])
    then show ?thesis using assms Cons True
      by (cases "cx_pc cn") (auto simp: speaks_def sender_step_def split: option.splits)
  qed (use assms in \<open>simp add: sender_step_def\<close>)
qed (use assms in \<open>simp add: sender_step_def\<close>)

lemma speaks_step:
  assumes "speaks c cn" "conn_step E token c cn ev = (c', cn')"
  shows "speaks c' cn'"
proof (cases ev)
  case (Arrives raw now)
  show ?thesis
  proof (cases "cx_pc cn")
    case Hello
    have "speaks c (put_outgoing (Welcome l st) (cn\<lparr>cx_pc := Serving\<rparr>))" "speaks c (put_outgoing AuthFailed (cn\<lparr>cx_pc := Refusing\<rparr>))" for l st
      using assms(1) Hello by (auto simp: speaks_def greeting_first_def)
    moreover have "greet E token c cn raw = (c', cn')" using assms(2) Arrives Hello by simp
    ultimately show ?thesis using speaks_leave [OF assms(1)] Hello by (auto simp: greet_def split: sum.splits if_splits)
  next
    case Serving
    obtain rep c1 run1 where s: "serve_message E c (cx_run cn) raw now = (rep, c1, run1)" by (metis prod.collapse)
    from requested_serve [OF this] have r: "requested c (cx_run cn) c1 run1" .
    have "own_events c1 run1 = own_events c (cx_run cn)" "case run1 of None \<Rightarrow> True | Some i \<Rightarrow> i < length (runs c1)"
      using r assms(1) by (auto simp: requested_def own_events_def speaks_def split: option.splits)
    then have s1: "speaks c1 (cn\<lparr>cx_run := run1\<rparr>)" using assms(1) Serving by (auto simp: speaks_def)
    show ?thesis using assms(2) Arrives Serving s speaks_leave [OF s1] speaks_put [OF s1]
      by (auto simp: serve_text_def split: sum.splits)
  qed (use assms Arrives in simp_all)
next
  case StopsWaiting
  then have w: "stop_waiting c cn = (c', cn')" using assms(2) by simp
  have l: "leave_handler c x = (c', cn') \<Longrightarrow> cx_pc x \<noteq> Draining \<Longrightarrow> speaks c x \<Longrightarrow> speaks c' cn'" for x
    using speaks_leave by blast
  show ?thesis
    by (cases "cx_pc cn") (use w assms(1) l [of cn] l [of "cn\<lparr>cx_open := False\<rparr>"] in \<open>simp_all add: stop_waiting_def split: if_splits\<close>)
next
  case Drops
  then show ?thesis using assms by auto
qed (use assms speaks_sender speaks_callback in auto)

text \<open>The connections of the server speak so, and no two of them have the same run.\<close>

definition speaking :: "controller \<times> connection list \<Rightarrow> bool" where
  "speaking s \<longleftrightarrow> (case s of (c, cs) \<Rightarrow> (\<forall>cn \<in> set cs. speaks c cn) \<and>
     (\<forall>j < length cs. \<forall>k < length cs. j \<noteq> k \<longrightarrow> cx_run (cs ! j) = None \<or> cx_run (cs ! j) \<noteq> cx_run (cs ! k)))"

lemma requested_conn_step:
  assumes "conn_step E token c cn ev = (c', cn')"
  shows "requested c (cx_run cn) c' (cx_run cn')"
proof -
  have leave: "requested c0 (cx_run x) c' (cx_run cn')" if "leave_handler c0 x = (c', cn')" for c0 x
    using that requested_close [of c0 "cx_run x"] by (auto simp: leave_handler_def)
  show ?thesis
  proof (cases ev)
    case (Arrives raw now)
    obtain rep c1 run1 where s: "serve_message E c (cx_run cn) raw now = (rep, c1, run1)" by (metis prod.collapse)
    have "requested c (cx_run cn) c' (cx_run cn')" if "leave_handler c1 (cn\<lparr>cx_run := run1\<rparr>) = (c', cn')"
      using requested_serve [OF s] leave [OF that] that by (auto simp: requested_def leave_handler_def)
    then show ?thesis using assms Arrives s leave [of c cn] requested_serve [OF s] requested_nothing
      by (auto simp: greet_def serve_text_def split: handler_pc.splits sum.splits if_splits)
  next
    case StopsWaiting
    then show ?thesis using assms leave [of c cn] leave [of c "cn\<lparr>cx_open := False\<rparr>"] requested_nothing
      by (cases "cx_pc cn") (auto simp: stop_waiting_def split: if_splits)
  qed (use assms requested_nothing in auto)
qed

lemma speaking_next:
  assumes "speaking (c, cs)"
  shows "speaking (server_next E token (c, cs) ev)"
proof (cases ev)
  case Accept
  have "speaks c new_connection" by (simp add: speaks_def new_connection_def own_events_def greeting_first_def)
  then show ?thesis using assms Accept by (auto simp: speaking_def nth_append new_connection_def)
next
  case (On k e)
  show ?thesis
  proof (cases "k < length cs")
    case True
    obtain c' cn' where s: "conn_step E token c (cs ! k) e = (c', cn')" by fastforce
    have r: "requested c (cx_run (cs ! k)) c' (cx_run cn')" by (rule requested_conn_step [OF s])
    have "speaks c' x" if "x \<in> set cs" for x using that assms speaks_requested r by (auto simp: speaking_def)
    moreover have "speaks c' cn'" using speaks_step [OF _ s] assms True by (auto simp: speaking_def)
    moreover have "cx_run cn' = cx_run (cs ! k) \<or> (\<forall>j < length cs. cx_run (cs ! j) \<noteq> cx_run cn')"
    proof -
      have "cx_run (cs ! j) \<noteq> Some (length (runs c))" if "j < length cs" for j
      proof -
        have "speaks c (cs ! j)" using assms that by (auto simp: speaking_def)
        then show ?thesis by (auto simp: speaks_def)
      qed
      then show ?thesis using r by (auto simp: requested_def)
    qed
    moreover have "cx_run (cs[k := cn'] ! j) = None \<or> cx_run (cs[k := cn'] ! j) \<noteq> cx_run (cs[k := cn'] ! i)"
      if "cx_run cn' = cx_run (cs ! k) \<or> (\<forall>j < length cs. cx_run (cs ! j) \<noteq> cx_run cn')"
        "i < length cs" "j < length cs" "j \<noteq> i" for i j
    proof -
      have d: "cx_run (cs ! a) = None \<or> cx_run (cs ! a) \<noteq> cx_run (cs ! b)" if "a < length cs" "b < length cs" "a \<noteq> b" for a b
        using assms that by (auto simp: speaking_def)
      show ?thesis using that d [of i j] d [of j i] True by (cases "j = k"; cases "i = k"; simp; metis)
    qed
    ultimately show ?thesis using True On s
      by (auto simp: speaking_def dest!: subsetD [OF set_update_subset_insert])
  qed (use assms On in simp)
next
  case (MotorThread i w)
  show ?thesis
  proof (cases "i < length (runs c)")
    case True
    let ?r = "runs c ! i"
    obtain evs where e: "emitted (thread_step w ?r) = emitted ?r @ evs" using tells_thread [of ?r w] by (auto simp: tells_def)
    have "speaks (update_run c i (thread_step w ?r)) (schedule i evs cn)" if "cn \<in> set cs" for cn
    proof -
      have "speaks c cn" using assms that by (auto simp: speaking_def)
      then show ?thesis using True e
        by (cases "cx_pc cn"; cases "cx_run cn") (auto simp: speaks_def own_events_def update_run_def nth_list_update)
    qed
    then show ?thesis using assms True MotorThread e by (auto simp: speaking_def)
  qed (use assms MotorThread in simp)
qed

lemma history_speaking: "runs c0 = [] \<Longrightarrow> speaking (serve_history E token c0 hist)"
proof (induction hist rule: rev_induct)
  case (snoc ev hist)
  then show ?case using speaking_next by (cases "serve_history E token c0 hist") auto
qed (simp add: speaking_def)

lemma story_run_prefix: "prefix xs ys \<Longrightarrow> story_run s ys = Some s' \<Longrightarrow> \<exists>s''. story_run s xs = Some s''"
  by (auto simp: prefix_def story_run_append split: option.splits)

lemma connection_run_told:
  assumes "serve_history E token (ProgramController pol chz thz hb hold) hist = (c, cs)" "i < length (runs c)"
  shows "told (runs c ! i)"
proof -
  have "server_ok E (ProgramController pol chz thz hb hold) (c, map coarse_run cs)"
    using server_reachable_ok history_refines [of E "ProgramController pol chz thz hb hold" token hist] assms(1) by simp
  then obtain r0 where "fresh_run (ProgramController pol chz thz hb hold) r0" "run_reachable E r0 (runs c ! i)"
    using assms(2) unfolding server_ok_def by blast
  then show ?thesis using reachable_told by (auto simp: fresh_run_def)
qed

text \<open>
  C12. What a client of the v1 server is told. For any number of connections and any history of messages,
  lost sockets, time-outs, sender tasks, callbacks and motor threads: the first thing written to a
  connection is the answer to its greeting, a refused client is told nothing else, and the events it is
  told are the first events of the run that this connection opened, in order and without a gap. No other
  connection has that run. And the events tell a story that makes sense: the start of the motion, then
  telemetry, at most one fault, and an end that agrees with the fault, after which there is nothing.
\<close>

theorem connection_told_own_run:
  assumes "serve_history E token (ProgramController pol chz thz hb hold) hist = (c, cs)" "k < length cs"
  shows "greeting_first (cx_sent (cs ! k)) \<and> prefix (heard (cx_sent (cs ! k))) (own_events c (cx_run (cs ! k))) \<and>
    (\<forall>j < length cs. j \<noteq> k \<longrightarrow> cx_run (cs ! k) = None \<or> cx_run (cs ! j) \<noteq> cx_run (cs ! k)) \<and>
    (\<exists>s. story_run Quiet (heard (cx_sent (cs ! k))) = Some s)"
proof -
  have sp: "speaking (c, cs)" using history_speaking [of "ProgramController pol chz thz hb hold" E token hist] assms(1)
    by (simp add: ProgramController_def)
  then have k: "speaks c (cs ! k)" using assms(2) by (auto simp: speaking_def)
  then have g: "greeting_first (cx_sent (cs ! k))" and p: "prefix (heard (cx_sent (cs ! k))) (own_events c (cx_run (cs ! k)))"
    using greeting_first_prefix by (auto simp: speaks_def split: if_splits dest!: sym [of _ "own_events c (cx_run (cs ! k))"])
  have "\<exists>s. story_run Quiet (own_events c (cx_run (cs ! k))) = Some s"
    using connection_run_told [OF assms(1)] k by (auto simp: speaks_def own_events_def told_def split: option.splits)
  then have "\<exists>s. story_run Quiet (heard (cx_sent (cs ! k))) = Some s" using story_run_prefix [OF p] by blast
  moreover have "\<forall>j < length cs. j \<noteq> k \<longrightarrow> cx_run (cs ! k) = None \<or> cx_run (cs ! j) \<noteq> cx_run (cs ! k)"
    using sp assms(2) by (fastforce simp: speaking_def)
  ultimately show ?thesis using g p by blast
qed

section \<open>Strangers\<close>

text \<open>
  A text that presents the token: it parses to an object that is a greeting of this protocol and whose
  token, as text, is the expected one. A stranger is a connection whose client never sends such a text,
  and the history without it lacks all that happens on it.
\<close>

definition presents_token :: "pyenv \<Rightarrow> string \<Rightarrow> string \<Rightarrow> bool" where
  "presents_token E token raw = (case json_loads E raw of
      Inr (PDict d) \<Rightarrow> dget d ''type'' = Some (PStr ''hello'') \<and> dget d ''protocol'' = Some (PStr PROTOCOL) \<and>
        py_str E (dget_or d ''token'' (PStr [])) = token
    | _ \<Rightarrow> False)"

lemma greeted_presents:
  assumes "greeted E token raw = Inr True"
  shows "presents_token E token raw"
proof (cases "json_loads E raw")
  case (Inr v)
  then show ?thesis using assms
    by (cases v) (auto simp: greeted_def decode_message_def authenticated_def compare_digest_def catch_def presents_token_def Let_def
        dget_or_def py_eq_str_right split: if_splits option.splits)
qed (use assms in \<open>auto simp: greeted_def decode_message_def catch_def split: if_splits\<close>)

definition stranger_in :: "pyenv \<Rightarrow> string \<Rightarrow> nat \<Rightarrow> server_event list \<Rightarrow> bool" where
  "stranger_in E token k hist \<longleftrightarrow> list_all (\<lambda>ev. case ev of
      On j (Arrives raw now) \<Rightarrow> j \<noteq> k \<or> \<not> presents_token E token raw
    | _ \<Rightarrow> True) hist"

definition concerns :: "nat \<Rightarrow> server_event \<Rightarrow> bool" where
  "concerns k ev = (case ev of On j e \<Rightarrow> j = k | _ \<Rightarrow> False)"

definition kept_out :: "connection \<Rightarrow> bool" where
  "kept_out cn \<longleftrightarrow> cx_run cn = None \<and> cx_soon cn = [] \<and> cx_pc cn \<noteq> Serving \<and>
     set (cx_sent cn) \<subseteq> {AuthFailed} \<and> set (cx_outgoing cn) \<subseteq> {AuthFailed, Sentinel} \<and>
     length (filter (\<lambda>x. x = AuthFailed) (cx_sent cn @ cx_outgoing cn)) \<le> (if cx_pc cn = Hello then 0 else 1)"

lemma kept_out_step:
  assumes "kept_out cn" "conn_step E token c cn ev = (c', cn')"
    "case ev of Arrives raw now \<Rightarrow> greeted E token raw \<noteq> Inr True | _ \<Rightarrow> True"
  shows "c' = c \<and> kept_out cn'"
proof (cases ev)
  case (Arrives raw now)
  then show ?thesis using assms
    by (cases "cx_pc cn") (auto simp: kept_out_def greet_def leave_handler_def close_connection_def split: sum.splits if_splits)
next
  case Sends
  then show ?thesis using assms by (cases "cx_outgoing cn") (auto simp: kept_out_def sender_step_def split: if_splits)
qed (use assms in \<open>auto simp: kept_out_def stop_waiting_def run_callback_def leave_handler_def close_connection_def split: handler_pc.splits\<close>)

lemma kept_out_sent:
  assumes "kept_out cn"
  shows "cx_sent cn \<in> {[], [AuthFailed]}"
proof -
  have "filter (\<lambda>x. x = AuthFailed) (cx_sent cn) = cx_sent cn" using assms by (auto simp: kept_out_def filter_id_conv)
  then have "length (cx_sent cn) \<le> 1" using assms by (simp add: kept_out_def split: if_splits)
  then show ?thesis using assms by (cases "cx_sent cn") (auto simp: kept_out_def)
qed

text \<open>Two servers that differ at most in connection \<open>k\<close>, which has no run in either.\<close>

definition same_but :: "nat \<Rightarrow> controller \<times> connection list \<Rightarrow> controller \<times> connection list \<Rightarrow> bool" where
  "same_but k s s' \<longleftrightarrow> fst s = fst s' \<and> length (snd s) = length (snd s') \<and>
     (\<forall>j < length (snd s). j \<noteq> k \<longrightarrow> snd s ! j = snd s' ! j) \<and>
     (k < length (snd s) \<longrightarrow> kept_out (snd s ! k) \<and> kept_out (snd s' ! k))"

lemma kept_out_schedule: "kept_out cn \<Longrightarrow> schedule i evs cn = cn"
  by (simp add: kept_out_def schedule_def)

lemma same_but_next:
  assumes "same_but k (c, cs) (c, cs')" "\<not> concerns k ev"
  shows "same_but k (server_next E token (c, cs) ev) (server_next E token (c, cs') ev)"
proof (cases ev)
  case Accept
  then show ?thesis using assms by (auto simp: same_but_def nth_append kept_out_def new_connection_def)
next
  case (On j e)
  then show ?thesis using assms by (auto simp: same_but_def concerns_def nth_list_update split: prod.split)
next
  case (MotorThread i w)
  then show ?thesis using assms by (auto simp: same_but_def kept_out_schedule Let_def)
qed

lemma same_but_stranger:
  assumes "same_but k (c, cs) (c, cs')" "concerns k ev" "stranger_in E token k [ev]"
  shows "same_but k (server_next E token (c, cs) ev) (c, cs')"
proof -
  obtain e where ev: "ev = On k e" using assms(2) by (auto simp: concerns_def split: server_event.splits)
  have e: "case e of Arrives raw now \<Rightarrow> greeted E token raw \<noteq> Inr True | _ \<Rightarrow> True"
    using assms(3) ev greeted_presents by (auto simp: stranger_in_def split: conn_event.splits)
  show ?thesis
  proof (cases "k < length cs")
    case True
    obtain c1 cn1 where s: "conn_step E token c (cs ! k) e = (c1, cn1)" by fastforce
    have "c1 = c \<and> kept_out cn1" using kept_out_step [OF _ s e] assms(1) True by (simp add: same_but_def)
    then show ?thesis using assms(1) ev s True by (auto simp: same_but_def)
  qed (use assms ev in simp)
qed

text \<open>
  C11. A stranger changes nothing. Take any history of the v1 server and a connection whose client never
  sends a greeting of the protocol with the right token, whatever else it sends and whenever it does.
  The controller with all its runs, and every other connection with all it is told, are as if nothing
  had ever happened on that connection; and its client is told at most that the authentication failed.
\<close>

theorem stranger_changes_nothing:
  assumes "stranger_in E token k hist"
  shows "let s = serve_history E token c0 hist; s' = serve_history E token c0 (filter (\<lambda>ev. \<not> concerns k ev) hist) in
    fst s = fst s' \<and> length (snd s) = length (snd s') \<and> (\<forall>j < length (snd s). j \<noteq> k \<longrightarrow> snd s ! j = snd s' ! j) \<and>
    (k < length (snd s) \<longrightarrow> cx_sent (snd s ! k) \<in> {[], [AuthFailed]})"
proof -
  have "same_but k (serve_history E token c0 hist) (serve_history E token c0 (filter (\<lambda>ev. \<not> concerns k ev) hist))"
    using assms
  proof (induction hist rule: rev_induct)
    case (snoc ev hist)
    obtain c cs where s: "serve_history E token c0 hist = (c, cs)" by fastforce
    obtain cs' where s': "serve_history E token c0 (filter (\<lambda>ev. \<not> concerns k ev) hist) = (c, cs')"
      "same_but k (c, cs) (c, cs')" using snoc s
      by (cases "serve_history E token c0 (filter (\<lambda>ev. \<not> concerns k ev) hist)") (auto simp: stranger_in_def same_but_def)
    show ?case
    proof (cases "concerns k ev")
      case True
      moreover have "stranger_in E token k [ev]" using snoc.prems by (simp add: stranger_in_def)
      ultimately show ?thesis using same_but_stranger [OF s'(2)] s s' by simp
    qed (use same_but_next [OF s'(2)] s s' in simp)
  qed (simp add: same_but_def)
  then show ?thesis using kept_out_sent by (simp add: same_but_def Let_def)
qed

section \<open>Instances\<close>

definition demo_talk :: pyenv where
  "demo_talk = demo_json\<lparr>json_loads := (\<lambda>s.
     if s = ''hello'' then Inr (mkdict [(''type'', PStr ''hello''), (''protocol'', PStr PROTOCOL), (''token'', PStr ''secret'')])
     else if s = ''open'' then Inr (mkdict [(''type'', PStr ''open_run''), (''header'', header_record demo_header),
       (''run_id'', PStr ''run-1''), (''run_mode'', PStr ''streaming''), (''program_digest'', PStr (replicate 64 (CHR ''0'')))])
     else if s = ''chunk'' then Inr (mkdict [(''type'', PStr ''chunk''), (''chunk_seq'', PInt 0), (''final'', PBool True),
       (''digest'', PStr (replicate 64 (CHR ''0''))), (''points'', PList (map point_record demo_points))])
     else if s = ''start'' then Inr (mkdict [(''type'', PStr ''start'')])
     else Inl ValueError),
     sha256 := (\<lambda>b. replicate 32 0)\<rparr>"

definition demo_talk_controller :: controller where
  "demo_talk_controller = ProgramController SafetyPolicy (Fin 50) (Fin 10) (Fin 1) (Fin 0)"

definition demo_talk_history :: "server_event list" where
  "demo_talk_history = [Accept, Accept, On 0 (Arrives ''hello'' (Fin 0)), On 0 (Arrives ''open'' (Fin 0)),
     On 1 (Arrives ''start'' (Fin 0)), On 0 (Arrives ''chunk'' (Fin 0)), On 0 (Arrives ''start'' (Fin 0))]
     @ replicate 3 (MotorThread 0 ((demo_world 0)\<lparr>w_unit := Inl RuntimeError\<rparr>))
     @ replicate 2 (On 0 Delivers) @ replicate 6 (On 0 Sends)"

theorem connection_told_own_run_witness:
  "\<exists>c cs. serve_history demo_talk ''secret'' demo_talk_controller demo_talk_history = (c, cs) \<and>
     map (\<lambda>x. case x of Event (EvFault code) \<Rightarrow> code | _ \<Rightarrow> []) (cx_sent (cs ! 0)) = [[], [], [], [], ''HARDWARE_FAULT'', []] \<and>
     greeting_first (cx_sent (cs ! 0)) \<and> (\<exists>s. story_run Quiet (heard (cx_sent (cs ! 0))) = Some s)"
proof -
  let ?s = "serve_history demo_talk ''secret'' demo_talk_controller demo_talk_history"
  have "length (snd ?s) = 2 \<and> map (\<lambda>x. case x of Event (EvFault code) \<Rightarrow> code | _ \<Rightarrow> []) (cx_sent (snd ?s ! 0)) =
      [[], [], [], [], ''HARDWARE_FAULT'', []]" by code_simp
  moreover obtain c cs where s: "?s = (c, cs)" by fastforce
  moreover have "0 < length cs" using calculation by simp
  ultimately show ?thesis using connection_told_own_run [OF s [unfolded demo_talk_controller_def], of 0] by auto
qed

definition demo_intrusion :: "server_event list" where
  "demo_intrusion = [Accept, Accept, On 0 (Arrives ''hello'' (Fin 0)), On 1 (Arrives ''start'' (Fin 0)),
     On 0 (Arrives ''open'' (Fin 0)), On 1 Sends]"

theorem stranger_changes_nothing_witness:
  "cx_sent (snd (serve_history demo_talk ''secret'' demo_talk_controller demo_intrusion) ! 1) \<in> {[], [AuthFailed]}"
proof -
  have n: "1 < length (snd (serve_history demo_talk ''secret'' demo_talk_controller demo_intrusion))" by code_simp
  have "stranger_in demo_talk ''secret'' 1 demo_intrusion" by code_simp
  from stranger_changes_nothing [OF this, of demo_talk_controller] n show ?thesis unfolding Let_def by blast
qed

end
