(* ===== verification/Spec2Isabelle.thy ===== *)
theory Spec2Isabelle
  imports ServerControl Composition WorkerProcess ClientUpload HardwareSafety Frontends DiscoverySafety Connection
begin

text \<open>
  RemoteRobot: verification development.

  \<^bold>\<open>The program.\<close> RemoteRobot executes joint trajectories on robot arms over a network. Version 1 is a
  single server, \<^verbatim>\<open>src/robot_server.py\<close>, that takes uploads of trajectory points in the format of
  \<^verbatim>\<open>src/robot_protocol.py\<close> and moves one arm. Version 2, the package \<^verbatim>\<open>src/remote_robot\<close>, knows a
  registry of physical and composite nodes, compiles program templates against it, and runs a
  compiled program phase by phase on worker processes, one per physical node. A run leases all
  actuator groups, resources and safety domains it needs, and keeps a journal. Clients upload to
  version 1 over a websocket; version 2 is managed over an authenticated protocol, through which a
  remote client discovers the registry and compiles against it, and watched on a web dashboard.

  \<^bold>\<open>Theories and sources.\<close>
  \<^item> \<open>Prelude\<close>, \<open>PyFloat\<close>, \<open>PyVal\<close>: what all components share. Results are \<open>exn + 'a\<close>, an exception being
    a value of \<open>exn\<close> (class and code, the message is dropped). \<open>PyFloat\<close> is IEEE binary64 arithmetic:
    a finite value is a rational number, every operation rounds to nearest. \<open>PyVal\<close> holds the dynamically typed
    values that arrive from TOML, JSON and CBOR, with Python's equality, iteration and mappings, and
    \<open>pyenv\<close>, the record of functions that are not under \<^verbatim>\<open>src\<close> (the CBOR and JSON codecs, SHA-256,
    \<^verbatim>\<open>repr\<close>, numerals).
  \<^item> \<open>Lease\<close>: \<^verbatim>\<open>lease.py\<close>. \<open>Framing\<close>, \<open>Journal\<close>: \<^verbatim>\<open>journal.py\<close>. \<open>Ipc\<close>: \<^verbatim>\<open>ipc.py\<close>.
  \<^item> \<open>Protocol\<close>: \<^verbatim>\<open>robot_protocol.py\<close>. \<open>Server\<close>, \<open>ServerSafety\<close>, \<open>ServerControl\<close>, \<open>Connection\<close>:
    \<^verbatim>\<open>robot_server.py\<close>; the motor thread is a machine with one step per piece of code between two points where the control
    thread can intervene, and clock and hardware readings are arguments of a step.
  \<^item> \<open>Model\<close>: \<^verbatim>\<open>model.py\<close>. \<open>Registry\<close>, \<open>RegistryGraph\<close>, \<open>RegistryLoad\<close>, \<open>RegistrySafety\<close>: \<^verbatim>\<open>registry.py\<close>.
  \<^item> \<open>Program\<close>, \<open>ProgramSafety\<close>: \<^verbatim>\<open>program.py\<close>.
  \<^item> \<open>Orchestrator\<close>, \<open>OrchestratorSafety\<close>, \<open>RunSafety\<close>, \<open>RunGuarantees\<close>: \<^verbatim>\<open>orchestrator.py\<close>. A coroutine
    runs undisturbed between two awaits, so a run is a state machine that is resumed with the
    outcome of an await; several runs share leases and journal and interleave in any order.
  \<^item> \<open>Worker\<close>, \<open>WorkerProcess\<close>: \<^verbatim>\<open>worker.py\<close> and \<^verbatim>\<open>worker_process.py\<close>: the local worker with its phase
    task cut at the sleeps, the host loop of the worker process, and the transport with its futures.
  \<^item> \<open>Operations\<close>, \<open>OperationsSafety\<close>: \<^verbatim>\<open>operations.py\<close>. \<open>Composition\<close>: runs, leases, journal and this view
    together.
  \<^item> \<open>RobotClient\<close>, \<open>RobotClientSafety\<close>, \<open>ClientUpload\<close>: \<^verbatim>\<open>robot_client.py\<close>, its tasks interleaved in any
    order; \<open>ClientUpload\<close> runs its requests on the model of the server.
  \<^item> \<open>Hardware\<close>, \<open>HardwareSafety\<close>: the \<^verbatim>\<open>SO101Backend\<close> of \<^verbatim>\<open>robot_server.py\<close>, on a motor bus whose every
    reply is a parameter.
  \<^item> \<open>Network\<close>, \<open>NetworkSafety\<close>: \<^verbatim>\<open>network.py\<close>. \<open>Discovery\<close>, \<open>DiscoverySafety\<close>: the remote clients
    \<^verbatim>\<open>src/examples/client/discover_and_compile.py\<close> and \<^verbatim>\<open>client_v2.py\<close>.
  \<^item> \<open>Migrate\<close>: \<^verbatim>\<open>migrate.py\<close>. \<open>Dashboard\<close>, \<open>DashboardSafety\<close>: \<^verbatim>\<open>dashboard.py\<close>. \<open>Frontends\<close>: the commands of
    \<^verbatim>\<open>cli.py\<close>, start and shutdown of \<^verbatim>\<open>server_v2.py\<close> and of \<^verbatim>\<open>robot_server.py\<close>.

  Definitions have the names of the source. A theory \<open>X\<close> holds the definitions that translate the
  code and close facts about them, \<open>XSafety\<close> and the like the invariants and guarantees.

  \<^bold>\<open>What is shown.\<close>
  \<^item> Leases are exclusive, granted all or nothing, and released exactly; the contract is the locale
    \<open>exclusive_ownership\<close>, interpreted on the lease manager.
  \<^item> A journal numbers the events of a run without a gap, holds no secret, is recovered from its
    bytes, protects recovered runs, and detects a torn frame at any length.
  \<^item> Frames between processes are accepted only in canonical form, streams are read back exactly,
    and the message validator is the grammar of the protocol.
  \<^item> A validated trajectory keeps velocity, acceleration and position limits at every instant of the
    interpolated motion, up to the rounding error that is written out.
  \<^item> The version 1 server commands only poses inside the limits, keeps the discipline of the motor
    bus, obeys stop requests and the heartbeat watchdog, and has at most one run. A connection is told the
    events of its own run and no other's, and one that never presents the token changes nothing.
  \<^item> A registry that loads has well-formed nodes over an acyclic graph, in which each leaf has one
    primary path; manifests hide connections and claim only assurances that hold.
  \<^item> What the compiler accepts is sound against the registry, and an artifact is executed only if it
    is what compiling its own template gives; \<open>capability_source\<close> is the interface to the registry.
  \<^item> Runs start phases only behind barriers, end after a bounded number of awaits, stop every worker
    on the way out, release their leases, and never command a group another run has leased.
  \<^item> A worker has one live phase, and every call on the transport ends once, with its own answer, an
    error or a time-out. The operations view of a node is exact, every subscriber sees each event
    after its cursor, and a node that a run commands is shown as occupied.
  \<^item> What a version 1 client uploads arrives at the server as sent; whatever the interleaving, the
    client starts a sealed run only after all its chunks. A lost connection can leave it waiting.
  \<^item> Management requests tell an identity nothing about nodes it may not discover, and each call
    returns the answer to its own request.
    Compiling against the manifests of a server gives what the server itself compiles
    (\<open>view_refinement\<close>, interpreted on manifests).
  \<^item> The physical backend never energises the motors on a stale goal, and is disconnected once a run is
    over; \<open>motor_backend\<close> is interpreted on the simulated arm, \<open>closing_backend\<close> on both arms.
  \<^item> Migration keeps the motion of a legacy file, and the event stream of the dashboard is faithful,
    but a client whose cursor is ahead of the server's gets nothing.

  \<^bold>\<open>Bounds and fuel.\<close> Recursion over the registry graph has the number of nodes plus one as fuel; on a
  validated registry the graph is acyclic, no path is longer than the number of nodes, and the
  lemmas of \<open>RegistryGraph\<close> show that no result depends on the fuel. All other recursion is
  structural or has a measure. A run of \<open>n\<close> phases takes at most \<open>4 n + 3\<close> awaits.

  \<^bold>\<open>Not modelled.\<close> Sockets, files, threads, processes and their scheduling, except as orderings of steps:
  the kernel cannot check what the operating system does. The motor library, the web framework and
  the parsers and codecs are parameters, being no code of the repository. Argument parsing, logging,
  printed layout and exception messages carry no decision of the program; the codes and classes of
  exceptions, which do, are modelled. The dashboard starts and closes undisturbed, and a send of the
  client completes at once.
\<close>

end
